(* ===== verification/Py_Float.thy ===== *)
theory Py_Float
  imports Complex_Main "HOL-Library.Log_Nat"
begin

text \<open>
  Python's \<^verbatim>\<open>float\<close>: IEEE-754 binary64 with round-to-nearest-even, as CPython computes it.

  A value is NaN, an infinity or a finite rational; every arithmetic operation computes the exact
  rational result and rounds it with \<open>rnd64\<close> (53-bit significand, gradual underflow at
  \<open>2 ^ -1074\<close>, overflow to infinity at \<open>2 ^ 1024\<close>). Comparisons with NaN are false. The two zeros
  are one value here: no modelled code observes the sign of a zero. The theory also holds the
  library functions the program applies to floats: \<^verbatim>\<open>round(x, n)\<close>, \<^verbatim>\<open>min\<close>, \<^verbatim>\<open>max\<close>,
  \<^verbatim>\<open>abs\<close>, \<^verbatim>\<open>math.isfinite\<close>, \<^verbatim>\<open>math.isclose\<close>, \<^verbatim>\<open>sum\<close> (compensated since Python 3.12)
  and the conversion of an int.

  The locale \<open>rounding\<close> states what the proofs need of a rounding function (monotone, odd, exact
  at zero, idempotent); \<open>rnd\<close> is its interpretation. Client lemmas (sign, order and bounds of
  rounded results) are proved once in the locale.
\<close>

section \<open>Rounding to 53 bits\<close>

definition two_pow :: "int \<Rightarrow> rat" where
  "two_pow e = (if 0 \<le> e then 2 ^ nat e else 1 / 2 ^ nat (- e))"

definition round_half_even :: "rat \<Rightarrow> int" where
  "round_half_even x =
     (let f = \<lfloor>x\<rfloor>; d = x - of_int f
      in if d < 1 / 2 then f else if 1 / 2 < d then f + 1 else if even f then f else f + 1)"

definition ilog2 :: "rat \<Rightarrow> int" where
  "ilog2 x = (let (p, q) = quotient_of x; e = bitlen p - bitlen q
              in if two_pow e \<le> x then e else e - 1)"

definition quantum :: "rat \<Rightarrow> int" where
  "quantum x = max (ilog2 \<bar>x\<bar> - 52) (- 1074)"

definition rnd :: "rat \<Rightarrow> rat" where
  "rnd x = (if x = 0 then 0
            else of_int (round_half_even (x / two_pow (quantum x))) * two_pow (quantum x))"

datatype float64 = NaN | PInf | NInf | Fin rat

definition max_exp :: rat where
  "max_exp = two_pow 1024"

definition rnd64 :: "rat \<Rightarrow> float64" where
  "rnd64 x = (let r = rnd x in if max_exp \<le> r then PInf else if r \<le> - max_exp then NInf else Fin r)"

text \<open>A decimal literal of the source, for example \<^verbatim>\<open>1e-7\<close>: the double nearest to it.\<close>

abbreviation flit :: "rat \<Rightarrow> float64" where
  "flit r \<equiv> rnd64 r"

text \<open>The values a double can have: the finite ones are fixed by rounding.\<close>

definition is_double :: "float64 \<Rightarrow> bool" where
  "is_double x = (case x of Fin a \<Rightarrow> rnd64 a = Fin a | _ \<Rightarrow> True)"

section \<open>Arithmetic and comparison\<close>

instantiation float64 :: "{zero, one, plus, uminus, minus, times, abs, ord}"
begin

definition zero_float64 :: float64 where
  "0 = Fin 0"

definition one_float64 :: float64 where
  "1 = Fin 1"

fun plus_float64 :: "float64 \<Rightarrow> float64 \<Rightarrow> float64" where
  "NaN + _ = NaN"
| "_ + NaN = NaN"
| "PInf + NInf = NaN"
| "NInf + PInf = NaN"
| "PInf + _ = PInf"
| "_ + PInf = PInf"
| "NInf + _ = NInf"
| "_ + NInf = NInf"
| "Fin a + Fin b = rnd64 (a + b)"

fun uminus_float64 :: "float64 \<Rightarrow> float64" where
  "- NaN = NaN"
| "- PInf = NInf"
| "- NInf = PInf"
| "- Fin a = Fin (- a)"

definition minus_float64 :: "float64 \<Rightarrow> float64 \<Rightarrow> float64" where
  "x - y = x + (- y)" for x y :: float64

fun times_float64 :: "float64 \<Rightarrow> float64 \<Rightarrow> float64" where
  "NaN * _ = NaN"
| "_ * NaN = NaN"
| "Fin a * Fin b = rnd64 (a * b)"
| "PInf * Fin b = (if b = 0 then NaN else if 0 < b then PInf else NInf)"
| "NInf * Fin b = (if b = 0 then NaN else if 0 < b then NInf else PInf)"
| "Fin a * PInf = (if a = 0 then NaN else if 0 < a then PInf else NInf)"
| "Fin a * NInf = (if a = 0 then NaN else if 0 < a then NInf else PInf)"
| "PInf * PInf = PInf"
| "PInf * NInf = NInf"
| "NInf * PInf = NInf"
| "NInf * NInf = PInf"

fun abs_float64 :: "float64 \<Rightarrow> float64" where
  "\<bar>NaN\<bar> = NaN"
| "\<bar>PInf\<bar> = PInf"
| "\<bar>NInf\<bar> = PInf"
| "\<bar>Fin a\<bar> = Fin \<bar>a\<bar>"

fun less_eq_float64 :: "float64 \<Rightarrow> float64 \<Rightarrow> bool" where
  "NaN \<le> _ \<longleftrightarrow> False"
| "_ \<le> NaN \<longleftrightarrow> False"
| "NInf \<le> _ \<longleftrightarrow> True"
| "_ \<le> PInf \<longleftrightarrow> True"
| "PInf \<le> _ \<longleftrightarrow> False"
| "_ \<le> NInf \<longleftrightarrow> False"
| "Fin a \<le> Fin b \<longleftrightarrow> a \<le> b"

definition less_float64 :: "float64 \<Rightarrow> float64 \<Rightarrow> bool" where
  "x < y \<longleftrightarrow> x \<noteq> NaN \<and> y \<noteq> NaN \<and> \<not> y \<le> x" for x y :: float64

instance ..

end

text \<open>Python's \<^verbatim>\<open>==\<close> on floats: NaN equals nothing.\<close>

definition feq :: "float64 \<Rightarrow> float64 \<Rightarrow> bool" where
  "feq x y \<longleftrightarrow> x = y \<and> x \<noteq> NaN"

definition isfinite :: "float64 \<Rightarrow> bool" where
  "isfinite x \<longleftrightarrow> (case x of Fin _ \<Rightarrow> True | _ \<Rightarrow> False)"

text \<open>Python's \<^verbatim>\<open>max(a, b)\<close> and \<^verbatim>\<open>min(a, b)\<close> keep the first argument unless the second is
  strictly greater (smaller), which also fixes what they do with NaN.\<close>

definition py_max :: "float64 \<Rightarrow> float64 \<Rightarrow> float64" where
  "py_max a b = (if a < b then b else a)"

definition py_min :: "float64 \<Rightarrow> float64 \<Rightarrow> float64" where
  "py_min a b = (if b < a then b else a)"

text \<open>Division, where the divisor is not zero; \<^verbatim>\<open>x / 0.0\<close> raises and is the caller's branch.\<close>

fun fdiv :: "float64 \<Rightarrow> float64 \<Rightarrow> float64" where
  "fdiv NaN _ = NaN"
| "fdiv _ NaN = NaN"
| "fdiv (Fin a) (Fin b) = rnd64 (a / b)"
| "fdiv (Fin a) _ = Fin 0"
| "fdiv PInf (Fin b) = (if 0 \<le> b then PInf else NInf)"
| "fdiv NInf (Fin b) = (if 0 \<le> b then NInf else PInf)"
| "fdiv _ _ = NaN"

text \<open>\<^verbatim>\<open>round(x, n)\<close>: the exact value is rounded half-even to \<open>n\<close> decimals, then to a double.\<close>

fun py_round :: "nat \<Rightarrow> float64 \<Rightarrow> float64" where
  "py_round n (Fin a) = rnd64 (of_int (round_half_even (a * 10 ^ n)) / 10 ^ n)"
| "py_round n x = x"

text \<open>\<^verbatim>\<open>math.isclose(a, b, abs_tol=t)\<close> with the default \<^verbatim>\<open>rel_tol=1e-09\<close>.\<close>

definition isclose :: "float64 \<Rightarrow> float64 \<Rightarrow> float64 \<Rightarrow> bool" where
  "isclose abs_tol a b \<longleftrightarrow>
     (if feq a b then True
      else if a \<in> {PInf, NInf} \<or> b \<in> {PInf, NInf} then False
      else let diff = \<bar>b - a\<bar>; rel_tol = flit (1 / 10 ^ 9)
           in diff \<le> \<bar>rel_tol * b\<bar> \<or> diff \<le> \<bar>rel_tol * a\<bar> \<or> diff \<le> abs_tol)"

text \<open>\<^verbatim>\<open>sum(xs)\<close> over floats, as CPython 3.12 and later compute it: the integer start value 0
  is added to the first float, each further addition keeps a running compensation, and the
  compensation is added at the end when it is finite and not zero.\<close>

fun cs_add :: "float64 \<times> float64 \<Rightarrow> float64 \<Rightarrow> float64 \<times> float64" where
  "cs_add (hi, lo) x =
     (let t = hi + x
      in (t, lo + (if \<bar>x\<bar> \<le> \<bar>hi\<bar> then (hi - t) + x else (x - t) + hi)))"

fun cs_to_double :: "float64 \<times> float64 \<Rightarrow> float64" where
  "cs_to_double (hi, lo) = (if \<not> feq lo 0 \<and> isfinite lo then hi + lo else hi)"

fun py_sum :: "float64 list \<Rightarrow> float64" where
  "py_sum [] = 0"
| "py_sum (x # xs) = cs_to_double (foldl cs_add (0 + x, 0) xs)"

text \<open>The value \<^verbatim>\<open>float(i)\<close> of an int, infinite where Python raises \<^verbatim>\<open>OverflowError\<close>.\<close>

definition float_of_int :: "int \<Rightarrow> float64" where
  "float_of_int i = rnd64 (of_int i)"


section \<open>What the proofs need of a rounding function\<close>

locale rounding =
  fixes r :: "rat \<Rightarrow> rat"
  assumes r_mono: "x \<le> y \<Longrightarrow> r x \<le> r y"
    and r_neg: "r (- x) = - r x"
    and r_idem: "r (r x) = r x"
begin

lemma r_zero: "r 0 = 0"
  using r_neg [of 0] by simp

lemma r_nonneg: "0 \<le> x \<Longrightarrow> 0 \<le> r x"
  using r_mono [of 0 x] r_zero by simp

lemma r_nonpos: "x \<le> 0 \<Longrightarrow> r x \<le> 0"
  using r_mono [of x 0] r_zero by simp

lemma r_pos_imp: "0 < r x \<Longrightarrow> 0 < x"
  using r_nonpos [of x] by (cases "0 < x") auto

lemma r_neg_imp: "r x < 0 \<Longrightarrow> x < 0"
  using r_nonneg [of x] by (cases "x < 0") auto

text \<open>A representable bound on the exact result is a bound on the rounded one.\<close>

lemma r_upper: "r b = b \<Longrightarrow> x \<le> b \<Longrightarrow> r x \<le> b"
  using r_mono [of x b] by simp

lemma r_lower: "r a = a \<Longrightarrow> a \<le> x \<Longrightarrow> a \<le> r x"
  using r_mono [of a x] by simp

lemma r_abs: "\<bar>r x\<bar> = r \<bar>x\<bar>"
  using r_nonneg [of x] r_nonpos [of x] r_neg [of x] by (cases "0 \<le> x") auto

end

section \<open>Powers of two, half-even rounding and the exponent\<close>

lemma two_pow_power_int: "two_pow e = 2 powi e"
  by (simp add: two_pow_def power_int_def power_divide inverse_eq_divide)

lemma two_pow_pos [simp]: "0 < two_pow e"
  by (simp add: two_pow_def)

lemma two_pow_nonneg [simp]: "0 \<le> two_pow e"
  by (simp add: two_pow_def)

lemma two_pow_neq_0 [simp]: "two_pow e \<noteq> 0"
  by (simp add: two_pow_def)

lemma two_pow_add: "two_pow (a + b) = two_pow a * two_pow b"
  by (simp add: two_pow_power_int power_int_add)

lemma two_pow_diff: "two_pow (a - b) = two_pow a / two_pow b"
  by (simp add: two_pow_power_int power_int_diff)

lemma two_pow_mono: "a \<le> b \<Longrightarrow> two_pow a \<le> two_pow b"
  by (simp add: two_pow_power_int power_int_increasing)

lemma two_pow_less_imp: "two_pow a < two_pow b \<Longrightarrow> a < b"
  using two_pow_mono [of b a] by (cases "a < b") auto

lemma two_pow_of_int: "0 \<le> e \<Longrightarrow> two_pow e = of_int (2 ^ nat e)"
  by (simp add: two_pow_def)

lemma round_half_even_of_int [simp]: "round_half_even (of_int i) = i"
  by (simp add: round_half_even_def Let_def)

lemma round_half_even_numeral [simp]: "round_half_even (numeral n) = numeral n" "round_half_even 0 = 0"
  "round_half_even 1 = 1"
  using round_half_even_of_int [of "numeral n"] round_half_even_of_int [of 0] round_half_even_of_int [of 1] by simp_all

lemma round_half_even_bounds:
  "\<lfloor>x\<rfloor> \<le> round_half_even x \<and> round_half_even x \<le> \<lfloor>x\<rfloor> + 1"
  by (simp add: round_half_even_def Let_def)

lemma round_half_even_mono: "x \<le> y \<Longrightarrow> round_half_even x \<le> round_half_even y"
proof (cases "\<lfloor>x\<rfloor> = \<lfloor>y\<rfloor>")
  case True
  assume "x \<le> y"
  with True show ?thesis by (simp add: round_half_even_def Let_def)
next
  case False
  assume "x \<le> y"
  then have "\<lfloor>x\<rfloor> \<le> \<lfloor>y\<rfloor>" by (rule floor_mono)
  with False have "\<lfloor>x\<rfloor> + 1 \<le> \<lfloor>y\<rfloor>" by simp
  then show ?thesis using round_half_even_bounds [of x] round_half_even_bounds [of y] by linarith
qed

lemma round_half_even_error: "\<bar>of_int (round_half_even x) - x\<bar> \<le> 1 / 2"
proof -
  have "of_int \<lfloor>x\<rfloor> \<le> x" "x < of_int \<lfloor>x\<rfloor> + 1" by linarith+
  then show ?thesis by (auto simp: round_half_even_def Let_def)
qed

lemma round_half_even_eqI:
  assumes "\<bar>x - of_int m\<bar> < 1 / 2"
  shows "round_half_even x = m"
proof -
  have "\<bar>of_int (round_half_even x) - x\<bar> \<le> 1 / 2" by (rule round_half_even_error)
  with assms have "\<bar>of_int (round_half_even x) - of_int m :: rat\<bar> < 1" by linarith
  then have "\<bar>of_int (round_half_even x - m) :: rat\<bar> < 1" by simp
  then show ?thesis by linarith
qed

lemma floor_neg_half:
  assumes "x - of_int \<lfloor>x\<rfloor> = 1 / 2"
  shows "\<lfloor>- x\<rfloor> = - \<lfloor>x\<rfloor> - 1"
  using assms by (intro floor_unique) auto

lemma round_half_even_neg: "round_half_even (- x) = - round_half_even x" for x :: rat
proof (cases "x - of_int \<lfloor>x\<rfloor> = 1 / 2")
  case True
  then have x: "x = of_int \<lfloor>x\<rfloor> + 1 / 2" by simp
  have "- x - of_int \<lfloor>- x\<rfloor> = 1 / 2" using True floor_neg_half [OF True] by simp
  with True floor_neg_half [OF True] show ?thesis by (simp add: round_half_even_def Let_def)
next
  case False
  have "of_int \<lfloor>x\<rfloor> \<le> x" "x < of_int \<lfloor>x\<rfloor> + 1" by linarith+
  with False have "\<bar>x - of_int (round_half_even x)\<bar> < 1 / 2"
    by (auto simp: round_half_even_def Let_def)
  then have "\<bar>- x - of_int (- round_half_even x)\<bar> < 1 / 2" by (simp add: abs_minus_commute)
  then show ?thesis by (rule round_half_even_eqI)
qed

lemma bitlen_two_pow:
  assumes "0 < p"
  shows "two_pow (bitlen p - 1) \<le> of_int p" "of_int p < two_pow (bitlen p)"
proof -
  have b: "2 ^ nat (bitlen p - 1) \<le> p" "p < 2 ^ nat (bitlen p)" using bitlen_bounds [OF assms] by auto
  have "1 \<le> bitlen p" using assms by (simp add: bitlen_def floorlog_def)
  then have e: "0 \<le> bitlen p - 1" "0 \<le> bitlen p" by auto
  from b(1) have "(of_int (2 ^ nat (bitlen p - 1)) :: rat) \<le> of_int p" by (simp only: of_int_le_iff)
  then show "two_pow (bitlen p - 1) \<le> of_int p" by (simp only: two_pow_of_int [OF e(1)])
  from b(2) have "(of_int p :: rat) < of_int (2 ^ nat (bitlen p))" by (simp only: of_int_less_iff)
  then show "of_int p < two_pow (bitlen p)" by (simp only: two_pow_of_int [OF e(2)])
qed

lemma ilog2_bounds:
  assumes "0 < x"
  shows "two_pow (ilog2 x) \<le> x \<and> x < two_pow (ilog2 x + 1)"
proof -
  obtain p q where pq: "quotient_of x = (p, q)" by (cases "quotient_of x")
  have q: "0 < q" and x: "x = of_int p / of_int q"
    using quotient_of_denom_pos [OF pq] quotient_of_div [OF pq] by auto
  with assms have p: "0 < p" by (simp add: zero_less_divide_iff)
  let ?e = "bitlen p - bitlen q"
  have "x < two_pow (bitlen p) / two_pow (bitlen q - 1)"
    unfolding x using bitlen_two_pow [OF p] bitlen_two_pow [OF q] q p
    by (intro frac_less) auto
  then have up: "x < two_pow (?e + 1)" by (simp add: two_pow_diff [symmetric] algebra_simps)
  have "two_pow (bitlen p - 1) / two_pow (bitlen q) \<le> x"
    unfolding x using bitlen_two_pow [OF p] bitlen_two_pow [OF q] q p
    by (intro frac_le) auto
  then have lo: "two_pow (?e - 1) \<le> x" by (simp add: two_pow_diff [symmetric] algebra_simps)
  show ?thesis using up lo by (auto simp: ilog2_def pq Let_def)
qed

lemma ilog2_eqI: "two_pow e \<le> x \<Longrightarrow> x < two_pow (e + 1) \<Longrightarrow> ilog2 x = e"
proof -
  assume a: "two_pow e \<le> x" "x < two_pow (e + 1)"
  then have "0 < x" using two_pow_pos [of e] by linarith
  from ilog2_bounds [OF this] a have "two_pow e < two_pow (ilog2 x + 1)" "two_pow (ilog2 x) < two_pow (e + 1)"
    by linarith+
  then have "e < ilog2 x + 1" "ilog2 x < e + 1" by (auto dest: two_pow_less_imp)
  then show ?thesis by simp
qed

lemma ilog2_mono: "0 < x \<Longrightarrow> x \<le> y \<Longrightarrow> ilog2 x \<le> ilog2 y"
proof -
  assume a: "0 < x" "x \<le> y"
  then have "two_pow (ilog2 x) < two_pow (ilog2 y + 1)"
    using ilog2_bounds [of x] ilog2_bounds [of y] by linarith
  then show ?thesis using two_pow_less_imp by force
qed

section \<open>Correctness of the rounding function\<close>

lemma quantum_neg [simp]: "quantum (- x) = quantum x"
  by (simp add: quantum_def)

lemma rnd_odd: "rnd (- x) = - rnd x"
  by (simp add: rnd_def round_half_even_neg)

lemma rnd_grid_fix:
  assumes x: "x = of_int m * two_pow q" and le: "quantum x \<le> q"
  shows "rnd x = x"
proof -
  have "x / two_pow (quantum x) = of_int m * two_pow (q - quantum x)"
    by (simp add: x two_pow_diff)
  also have "\<dots> = of_int (m * 2 ^ nat (q - quantum x))"
    using le by (simp add: two_pow_of_int)
  finally have e: "x / two_pow (quantum x) = of_int (m * 2 ^ nat (q - quantum x))" .
  then have "of_int (round_half_even (x / two_pow (quantum x))) = x / two_pow (quantum x)"
    by (simp only: round_half_even_of_int)
  then show ?thesis by (simp add: rnd_def)
qed

lemma quantum_pow:
  "quantum (two_pow e) = max (e - 52) (- 1074)"
  using ilog2_eqI [of e "two_pow e"] two_pow_add [of e 1]
  by (simp add: quantum_def two_pow_def [of 1])

lemma quantum_mono: "0 < x \<Longrightarrow> x \<le> y \<Longrightarrow> quantum x \<le> quantum y"
  using ilog2_mono [of x y] by (simp add: quantum_def)

lemma rnd_two_pow: "- 1074 \<le> e \<Longrightarrow> rnd (two_pow e) = two_pow e"
  using rnd_grid_fix [of "two_pow e" 1 e] by (simp add: quantum_pow)

lemma rnd_same_quantum_mono:
  "0 < x \<Longrightarrow> x \<le> y \<Longrightarrow> quantum x = quantum y \<Longrightarrow> rnd x \<le> rnd y"
  by (simp add: rnd_def round_half_even_mono divide_right_mono)

text \<open>Across binades the power of two between the arguments separates the results.\<close>

lemma rnd_upper_pow:
  assumes "0 < x"
  shows "rnd x \<le> two_pow (max (ilog2 x + 1) (- 1074))"
proof -
  let ?q = "quantum x" and ?t = "max (ilog2 x + 1) (- 1074)"
  have q: "?q \<le> ?t" using assms by (auto simp: quantum_def)
  have "x \<le> two_pow ?t"
    using ilog2_bounds [OF assms] two_pow_mono [of "ilog2 x + 1" ?t] by simp
  then have "x / two_pow ?q \<le> two_pow (?t - ?q)"
    by (simp add: two_pow_diff divide_right_mono)
  also have "\<dots> = of_int (2 ^ nat (?t - ?q))" using q by (simp add: two_pow_of_int)
  finally have "round_half_even (x / two_pow ?q) \<le> round_half_even (of_int (2 ^ nat (?t - ?q)))"
    by (rule round_half_even_mono)
  then have "round_half_even (x / two_pow ?q) \<le> 2 ^ nat (?t - ?q)"
    by (simp only: round_half_even_of_int)
  then have "(of_int (round_half_even (x / two_pow ?q)) :: rat) \<le> two_pow (?t - ?q)"
    using q by (simp add: two_pow_of_int)
  then have "of_int (round_half_even (x / two_pow ?q)) * two_pow ?q \<le> two_pow (?t - ?q) * two_pow ?q"
    by (rule mult_right_mono) simp
  then show ?thesis using assms by (simp add: rnd_def two_pow_add [symmetric])
qed

lemma rnd_lower_pow:
  assumes "0 < y" and "- 1074 \<le> ilog2 y"
  shows "two_pow (ilog2 y) \<le> rnd y"
proof -
  let ?q = "quantum y" and ?t = "ilog2 y"
  have q: "?q \<le> ?t" using assms by (auto simp: quantum_def)
  have "of_int (2 ^ nat (?t - ?q)) = two_pow (?t - ?q)" using q by (simp add: two_pow_of_int)
  also have "\<dots> \<le> y / two_pow ?q"
    using ilog2_bounds [OF assms(1)] by (simp add: two_pow_diff divide_right_mono)
  finally have "round_half_even (of_int (2 ^ nat (?t - ?q))) \<le> round_half_even (y / two_pow ?q)"
    by (rule round_half_even_mono)
  then have "2 ^ nat (?t - ?q) \<le> round_half_even (y / two_pow ?q)"
    by (simp only: round_half_even_of_int)
  then have "two_pow (?t - ?q) \<le> (of_int (round_half_even (y / two_pow ?q)) :: rat)"
    using q by (simp add: two_pow_of_int)
  then have "two_pow (?t - ?q) * two_pow ?q \<le> of_int (round_half_even (y / two_pow ?q)) * two_pow ?q"
    by (rule mult_right_mono) simp
  then show ?thesis using assms(1) by (simp add: rnd_def two_pow_add [symmetric])
qed

lemma rnd_pos_mono:
  assumes "0 < x" and "x \<le> y"
  shows "rnd x \<le> rnd y"
proof (cases "quantum x = quantum y")
  case True
  with assms show ?thesis by (rule rnd_same_quantum_mono)
next
  case False
  with quantum_mono [OF assms] have "quantum x < quantum y" by simp
  then have lt: "ilog2 x + 1 \<le> ilog2 y" and ge: "- 1074 \<le> ilog2 y"
    using assms by (auto simp: quantum_def)
  have "rnd x \<le> two_pow (max (ilog2 x + 1) (- 1074))" by (rule rnd_upper_pow [OF assms(1)])
  also have "\<dots> \<le> two_pow (ilog2 y)" using lt ge by (intro two_pow_mono) simp
  also have "\<dots> \<le> rnd y" using assms ge by (intro rnd_lower_pow) auto
  finally show ?thesis .
qed

lemma rnd_0 [simp]: "rnd 0 = 0"
  by (simp add: rnd_def)

lemma rnd_pos_nonneg: "0 < x \<Longrightarrow> 0 \<le> rnd x"
  using round_half_even_mono [of "of_int 0" "x / two_pow (quantum x)"]
  by (simp add: rnd_def round_half_even_of_int [of 0, simplified])

lemma rnd_mono: "x \<le> y \<Longrightarrow> rnd x \<le> rnd y"
proof -
  assume le: "x \<le> y"
  consider "0 < x" | "x \<le> 0" "0 \<le> y" | "y < 0" using le by linarith
  then show ?thesis
  proof cases
    case 1
    then show ?thesis using le by (rule rnd_pos_mono)
  next
    case 2
    then have "rnd x \<le> 0" using rnd_pos_nonneg [of "- x"] by (cases "x = 0") (auto simp: rnd_odd)
    moreover have "0 \<le> rnd y" using 2 rnd_pos_nonneg [of y] by (cases "y = 0") auto
    ultimately show ?thesis by simp
  next
    case 3
    then show ?thesis using le rnd_pos_mono [of "- y" "- x"] by (simp add: rnd_odd)
  qed
qed

lemma rnd_idem_pos:
  assumes "0 < x"
  shows "rnd (rnd x) = rnd x"
proof -
  let ?t = "max (ilog2 x + 1) (- 1074)"
  have nn: "0 \<le> rnd x" by (rule rnd_pos_nonneg [OF assms])
  consider "rnd x = 0" | "rnd x = two_pow ?t" | "0 < rnd x" "rnd x < two_pow ?t"
    using nn rnd_upper_pow [OF assms] by linarith
  then show ?thesis
  proof cases
    case 3
    have "two_pow (ilog2 (rnd x)) < two_pow ?t" using ilog2_bounds [OF 3(1)] 3(2) by linarith
    then have "ilog2 (rnd x) < ?t" by (rule two_pow_less_imp)
    then have "quantum (rnd x) \<le> quantum x" using assms 3(1) by (auto simp: quantum_def)
    moreover have "rnd x = of_int (round_half_even (x / two_pow (quantum x))) * two_pow (quantum x)"
      using assms by (simp add: rnd_def)
    ultimately show ?thesis by (intro rnd_grid_fix)
  qed (simp_all add: rnd_two_pow)
qed

lemma rnd_idem: "rnd (rnd x) = rnd x"
  using rnd_idem_pos [of x] rnd_idem_pos [of "- x"]
  by (cases "x = 0"; cases "0 < x") (auto simp: rnd_odd)

interpretation b64: rounding rnd
  by unfold_locales (rule rnd_mono, assumption, rule rnd_odd, rule rnd_idem)

lemma rnd_dyadic:
  assumes "\<bar>m\<bar> < 2 ^ 53" and "- 1074 \<le> q"
  shows "rnd (of_int m * two_pow q) = of_int m * two_pow q"
proof (cases "m = 0")
  case False
  let ?x = "of_int m * two_pow q"
  have x: "0 < \<bar>?x\<bar>" using False by simp
  have "\<bar>of_int m :: rat\<bar> < of_int (2 ^ 53)" using assms(1) by linarith
  then have "\<bar>?x\<bar> < two_pow 53 * two_pow q" by (simp add: abs_mult two_pow_def [of 53])
  then have "two_pow (ilog2 \<bar>?x\<bar>) < two_pow (53 + q)"
    using ilog2_bounds [OF x] by (simp add: two_pow_add)
  then have "ilog2 \<bar>?x\<bar> < 53 + q" by (rule two_pow_less_imp)
  then have "quantum ?x \<le> q" using assms(2) by (simp add: quantum_def)
  then show ?thesis by (intro rnd_grid_fix [OF refl])
qed simp

lemma rnd_of_int: "\<bar>m\<bar> < 2 ^ 53 \<Longrightarrow> rnd (of_int m) = of_int m"
  using rnd_dyadic [of m 0] by (simp add: two_pow_def)

lemma rnd_1 [simp]: "rnd 1 = 1"
  using rnd_of_int [of 1] by simp

lemma rnd_numeral [simp]: "(numeral n :: int) < 2 ^ 53 \<Longrightarrow> rnd (numeral n) = numeral n"
  using rnd_of_int [of "numeral n"] by simp

lemma rnd_neg_numeral [simp]: "(numeral n :: int) < 2 ^ 53 \<Longrightarrow> rnd (- numeral n) = - numeral n"
  by (simp add: rnd_odd)

text \<open>Evaluation of \<open>rnd\<close> on an input whose exponent and nearest significand are given.\<close>

lemma rnd_eqI:
  assumes "two_pow e \<le> x" and "x < two_pow (e + 1)" and "- 1022 \<le> e"
    and "\<bar>x / two_pow (e - 52) - of_int m\<bar> < 1 / 2"
  shows "rnd x = of_int m * two_pow (e - 52)"
proof -
  have "0 < x" using assms(1) two_pow_pos [of e] by linarith
  moreover from this have "quantum x = e - 52"
    using assms(3) ilog2_eqI [OF assms(1,2)] by (simp add: quantum_def)
  ultimately show ?thesis using round_half_even_eqI [OF assms(4)] by (simp add: rnd_def)
qed

text \<open>The rounding error: at most half a unit in the last place, hence at most \<open>2 ^ -53\<close>
  relative to a value in the normal range.\<close>

lemma rnd_error:
  assumes "two_pow (- 1022) \<le> \<bar>x\<bar>"
  shows "\<bar>rnd x - x\<bar> \<le> \<bar>x\<bar> * two_pow (- 53)"
proof -
  let ?q = "quantum x"
  have x: "0 < \<bar>x\<bar>" using assms two_pow_pos [of "- 1022"] by linarith
  have "two_pow (- 1022) < two_pow (ilog2 \<bar>x\<bar> + 1)" using ilog2_bounds [OF x] assms by linarith
  then have q: "?q = ilog2 \<bar>x\<bar> - 52" using two_pow_less_imp by (fastforce simp: quantum_def)
  have "\<bar>rnd x - x\<bar> = \<bar>of_int (round_half_even (x / two_pow ?q)) - x / two_pow ?q\<bar> * two_pow ?q"
  proof -
    have "rnd x - x = (of_int (round_half_even (x / two_pow ?q)) - x / two_pow ?q) * two_pow ?q"
      using x by (simp add: rnd_def left_diff_distrib)
    then show ?thesis by (simp add: abs_mult)
  qed
  also have "\<dots> \<le> 1 / 2 * two_pow ?q"
    by (rule mult_right_mono [OF round_half_even_error]) simp
  also have "\<dots> = two_pow (ilog2 \<bar>x\<bar>) * two_pow (- 53)"
    by (simp add: q two_pow_add [symmetric] two_pow_def [of "- 1"])
       (simp add: two_pow_power_int power_int_diff power_int_minus field_simps)
  also have "\<dots> \<le> \<bar>x\<bar> * two_pow (- 53)"
    using ilog2_bounds [OF x] by (intro mult_right_mono) auto
  finally show ?thesis .
qed

section \<open>Order and sign of float results\<close>

lemma max_exp_pos [simp]: "0 < max_exp" "0 \<le> max_exp" "max_exp \<noteq> 0"
  by (simp_all add: max_exp_def)

lemma less_float64_simps [simp]:
  "Fin a < Fin b \<longleftrightarrow> a < b"
  "\<not> NaN < x" "\<not> x < NaN"
  "Fin a < PInf" "NInf < Fin a" "NInf < PInf"
  "\<not> PInf < x" "\<not> x < NInf"
  by (cases x; auto simp: less_float64_def)+

lemma float64_zero_one [simp]:
  "(0::float64) = Fin a \<longleftrightarrow> a = 0" "Fin a = (0::float64) \<longleftrightarrow> a = 0"
  "(1::float64) = Fin a \<longleftrightarrow> a = 1" "Fin a = (1::float64) \<longleftrightarrow> a = 1"
  "(0::float64) \<noteq> NaN" "(0::float64) \<noteq> PInf" "(0::float64) \<noteq> NInf"
  "NaN \<noteq> (0::float64)" "PInf \<noteq> (0::float64)" "NInf \<noteq> (0::float64)"
  by (auto simp: zero_float64_def one_float64_def)

lemma zero_le_float64_simps [simp]:
  "0 \<le> Fin a \<longleftrightarrow> 0 \<le> a" "Fin a \<le> 0 \<longleftrightarrow> a \<le> 0" "0 < Fin a \<longleftrightarrow> 0 < a" "Fin a < 0 \<longleftrightarrow> a < 0"
  "0 < PInf" "0 \<le> PInf" "\<not> PInf \<le> 0" "NInf < 0" "NInf \<le> 0" "\<not> 0 \<le> NInf" "\<not> 0 \<le> NaN" "\<not> NaN \<le> 0"
  "(0::float64) \<le> 0" "\<not> (0::float64) < 0"
  by (auto simp: zero_float64_def)

lemma isfinite_simps [simp]:
  "isfinite (Fin a)" "\<not> isfinite NaN" "\<not> isfinite PInf" "\<not> isfinite NInf" "isfinite 0" "isfinite 1"
  by (simp_all add: isfinite_def zero_float64_def one_float64_def)

lemma isfinite_iff: "isfinite x \<longleftrightarrow> (\<exists>a. x = Fin a)"
  by (cases x) simp_all

lemma isfiniteE [elim!]:
  assumes "isfinite x"
  obtains a where "x = Fin a"
  using assms by (auto simp: isfinite_iff)

lemma float_le_inf [simp]: "x \<le> PInf \<longleftrightarrow> x \<noteq> NaN" "NInf \<le> x \<longleftrightarrow> x \<noteq> NaN"
  by (cases x; simp)+

lemma float_le_refl [simp]: "x \<noteq> NaN \<Longrightarrow> x \<le> x" for x :: float64
  by (cases x) simp_all

lemma float_le_trans [trans]: "x \<le> y \<Longrightarrow> y \<le> z \<Longrightarrow> x \<le> z" for x y z :: float64
  by (cases x; cases y; cases z) simp_all

lemma float_less_le_trans [trans]: "x < y \<Longrightarrow> y \<le> z \<Longrightarrow> x < z" for x y z :: float64
  by (cases x; cases y; cases z) (simp_all add: less_float64_def)

lemma float_le_less_trans [trans]: "x \<le> y \<Longrightarrow> y < z \<Longrightarrow> x < z" for x y z :: float64
  by (cases x; cases y; cases z) (simp_all add: less_float64_def)

lemma float_less_imp_le: "x < y \<Longrightarrow> x \<le> y" for x y :: float64
  by (cases x; cases y) (simp_all add: less_float64_def)

lemma float_less_irrefl [simp]: "\<not> x < x" for x :: float64
  by (cases x) simp_all

lemma float_not_less: "x \<noteq> NaN \<Longrightarrow> y \<noteq> NaN \<Longrightarrow> \<not> x < y \<longleftrightarrow> y \<le> x" for x y :: float64
  by (simp add: less_float64_def)

lemma float_not_le: "x \<noteq> NaN \<Longrightarrow> y \<noteq> NaN \<Longrightarrow> \<not> x \<le> y \<longleftrightarrow> y < x" for x y :: float64
  by (simp add: less_float64_def)

lemma float_le_not_nan: "x \<le> y \<Longrightarrow> x \<noteq> NaN \<and> y \<noteq> NaN" for x y :: float64
  by (cases x; cases y) simp_all

lemma float_less_not_nan: "x < y \<Longrightarrow> x \<noteq> NaN \<and> y \<noteq> NaN" for x y :: float64
  by (cases x; cases y) simp_all

lemma float_antisym: "x \<le> y \<Longrightarrow> y \<le> x \<Longrightarrow> x = y" for x y :: float64
  by (cases x; cases y) simp_all

lemma feq_simps [simp]: "feq (Fin a) (Fin b) \<longleftrightarrow> a = b" "\<not> feq NaN x" "\<not> feq x NaN"
  "feq (Fin a) 0 \<longleftrightarrow> a = 0" "feq 0 (Fin a) \<longleftrightarrow> a = 0"
  by (auto simp: feq_def)

lemma rnd64_not_nan [simp]: "rnd64 x \<noteq> NaN"
  by (simp add: rnd64_def Let_def)

lemma rnd64_mono: "x \<le> y \<Longrightarrow> rnd64 x \<le> rnd64 y"
  using rnd_mono [of x y] max_exp_pos(1) by (auto simp: rnd64_def Let_def simp del: max_exp_pos)

lemma rnd64_0 [simp]: "rnd64 0 = 0"
  by (simp add: rnd64_def Let_def zero_float64_def not_le)

lemma rnd64_nonneg [simp, intro]: "0 \<le> x \<Longrightarrow> 0 \<le> rnd64 x"
  using rnd64_mono [of 0 x] by simp

lemma rnd64_nonpos [simp, intro]: "x \<le> 0 \<Longrightarrow> rnd64 x \<le> 0"
  using rnd64_mono [of x 0] by simp

lemma rnd64_exact: "rnd x = x \<Longrightarrow> \<bar>x\<bar> < max_exp \<Longrightarrow> rnd64 x = Fin x"
  by (auto simp: rnd64_def Let_def)

lemma rnd64_FinD: "rnd64 x = Fin y \<Longrightarrow> y = rnd x \<and> rnd y = y \<and> \<bar>y\<bar> < max_exp"
  by (auto simp: rnd64_def Let_def rnd_idem split: if_splits)

lemma int_lt_max_exp: "\<bar>m\<bar> < 2 ^ 53 \<Longrightarrow> \<bar>of_int m\<bar> < max_exp"
proof -
  assume "\<bar>m\<bar> < 2 ^ 53"
  then have "\<bar>of_int m :: rat\<bar> < of_int (2 ^ 53)" by linarith
  also have "\<dots> \<le> max_exp" using two_pow_mono [of 53 1024] by (simp add: max_exp_def two_pow_def [of 53])
  finally show ?thesis .
qed

lemma rnd64_of_int: "\<bar>m\<bar> < 2 ^ 53 \<Longrightarrow> rnd64 (of_int m) = Fin (of_int m)"
  by (simp add: rnd64_exact rnd_of_int int_lt_max_exp)

lemma rnd64_1 [simp]: "rnd64 1 = Fin 1"
  using rnd64_of_int [of 1] by simp

lemma rnd64_numeral [simp]: "(numeral n :: int) < 2 ^ 53 \<Longrightarrow> rnd64 (numeral n) = Fin (numeral n)"
  using rnd64_of_int [of "numeral n"] by simp

lemma rnd64_neg_numeral [simp]:
  "(numeral n :: int) < 2 ^ 53 \<Longrightarrow> rnd64 (- numeral n) = Fin (- numeral n)"
  using rnd64_of_int [of "- numeral n"] by simp

lemma rnd64_neg_one [simp]: "rnd64 (- 1) = Fin (- 1)"
  using rnd64_of_int [of "- 1"] by simp

lemma float_zero_arith [simp]:
  "0 + Fin a = rnd64 a" "Fin a + 0 = rnd64 a" "(0::float64) + 0 = 0" "0 * Fin a = 0" "Fin a * 0 = 0"
  "(0::float64) * 0 = 0" "- (0::float64) = 0" "\<bar>0::float64\<bar> = 0" "1 + Fin a = rnd64 (1 + a)" "Fin a * 1 = rnd64 a"
  "(1::float64) + 0 = 1" "1 * Fin a = rnd64 a"
  using rnd64_0 rnd64_1 by (simp_all add: zero_float64_def one_float64_def)

lemma Fin_less_zero_float [simp]: "(0::float64) < 1" "(0::float64) \<le> 1"
  by (simp_all add: zero_float64_def one_float64_def)

lemma is_double_Fin [simp]: "is_double (Fin a) \<longleftrightarrow> rnd64 a = Fin a"
  by (simp add: is_double_def)

lemma is_double_simps [simp]: "is_double 0" "is_double 1" "is_double PInf" "is_double NInf" "is_double NaN"
  using rnd64_0 rnd64_1 by (simp_all add: is_double_def zero_float64_def one_float64_def)

lemma is_double_rnd64 [simp]: "is_double (rnd64 x)"
  by (cases "rnd64 x") (auto simp: is_double_def rnd64_exact dest: rnd64_FinD)

text \<open>The sign of sums, products, differences and quotients survives rounding.\<close>

lemma float_add_nonneg [intro]: "0 \<le> x \<Longrightarrow> 0 \<le> y \<Longrightarrow> 0 \<le> x + y" for x y :: float64
  by (cases x; cases y) auto

lemma float_add_not_nan [simp]:
  "isfinite x \<Longrightarrow> y \<noteq> NaN \<Longrightarrow> x + y \<noteq> NaN" "isfinite x \<Longrightarrow> y \<noteq> NaN \<Longrightarrow> y + x \<noteq> NaN" for x y :: float64
  by (cases x; cases y; simp)+

lemma float_mult_nonneg: "0 \<le> x \<Longrightarrow> 0 \<le> y \<Longrightarrow> isfinite x \<Longrightarrow> isfinite y \<Longrightarrow> 0 \<le> x * y"
  for x y :: float64
  by (cases x; cases y) auto

lemma float_diff_nonneg: "y \<le> x \<Longrightarrow> isfinite y \<or> isfinite x \<Longrightarrow> 0 \<le> x - y" for x y :: float64
  by (cases x; cases y) (auto simp: minus_float64_def)

lemma float_diff_nan [simp]: "x - NaN = NaN" "NaN - x = NaN" for x :: float64
  by (cases x; simp add: minus_float64_def)+

lemma float_add_mono: "x \<le> y \<Longrightarrow> isfinite z \<Longrightarrow> x + z \<le> y + z" for x y z :: float64
  by (cases x; cases y; cases z) (auto intro: rnd64_mono)

lemma float_le_add: "is_double x \<Longrightarrow> isfinite x \<Longrightarrow> 0 \<le> y \<Longrightarrow> x \<le> x + y" for x y :: float64
proof (cases x; cases y)
  fix a b
  assume "is_double x" "0 \<le> y" "x = Fin a" "y = Fin b"
  then show "x \<le> x + y" using rnd64_mono [of a "a + b"] by simp
qed auto

lemma float_diff_le_self: "is_double x \<Longrightarrow> isfinite x \<Longrightarrow> 0 \<le> y \<Longrightarrow> x - y \<le> x" for x y :: float64
proof (cases x; cases y)
  fix a b
  assume "is_double x" "0 \<le> y" "x = Fin a" "y = Fin b"
  then show "x - y \<le> x" using rnd64_mono [of "a - b" a] by (simp add: minus_float64_def)
qed (auto simp: minus_float64_def)

lemma float_mult_left_mono:
  "x \<le> y \<Longrightarrow> 0 \<le> z \<Longrightarrow> isfinite x \<Longrightarrow> isfinite y \<Longrightarrow> isfinite z \<Longrightarrow> z * x \<le> z * y" for x y z :: float64
  by (cases x; cases y; cases z) (auto intro!: rnd64_mono mult_left_mono)

lemma float_fdiv_nonneg: "0 \<le> x \<Longrightarrow> isfinite x \<Longrightarrow> 0 < y \<Longrightarrow> 0 \<le> fdiv x y"
  by (cases x; cases y) auto

lemma float_abs_nonneg: "x \<noteq> NaN \<Longrightarrow> 0 \<le> \<bar>x\<bar>" for x :: float64
  by (cases x) auto

lemma isfinite_abs [simp]: "isfinite \<bar>x\<bar> \<longleftrightarrow> isfinite x"
  by (cases x) auto

lemma isfinite_uminus [simp]: "isfinite (- x) \<longleftrightarrow> isfinite x"
  by (cases x) auto

lemma py_min_le1: "x \<noteq> NaN \<Longrightarrow> y \<noteq> NaN \<Longrightarrow> py_min x y \<le> x"
  by (auto simp: py_min_def float_less_imp_le)

lemma py_min_le2: "x \<noteq> NaN \<Longrightarrow> y \<noteq> NaN \<Longrightarrow> py_min x y \<le> y"
  by (auto simp: py_min_def float_not_less)

lemma py_max_ge1: "x \<noteq> NaN \<Longrightarrow> x \<le> py_max x y"
  by (auto simp: py_max_def float_less_imp_le)

lemma py_max_ge2: "x \<noteq> NaN \<Longrightarrow> y \<noteq> NaN \<Longrightarrow> y \<le> py_max x y"
  by (auto simp: py_max_def float_not_less)

lemma py_max_zero_nonneg [simp]: "0 \<le> py_max 0 x"
  by (auto simp: py_max_def float_less_imp_le)

lemma py_max_cases: "py_max x y = x \<or> py_max x y = y"
  by (simp add: py_max_def)

lemma py_min_cases: "py_min x y = x \<or> py_min x y = y"
  by (simp add: py_min_def)

lemma py_round_nonneg: "0 \<le> x \<Longrightarrow> 0 \<le> py_round n x"
proof (cases x)
  case (Fin a)
  assume "0 \<le> x"
  then have "of_int 0 \<le> a * 10 ^ n" using Fin by simp
  then have "0 \<le> round_half_even (a * 10 ^ n)"
    using round_half_even_mono [of "of_int 0" "a * 10 ^ n"] by (simp only: round_half_even_of_int)
  then show ?thesis using Fin by simp
qed auto

lemma py_round_mono: "x \<le> y \<Longrightarrow> py_round n x \<le> py_round n y"
  by (cases x; cases y) (auto intro!: rnd64_mono divide_right_mono round_half_even_mono mult_right_mono)

lemma py_round_0 [simp]: "py_round n 0 = 0"
  using round_half_even_of_int [of 0] by (simp add: zero_float64_def)

lemma isclose_refl: "x \<noteq> NaN \<Longrightarrow> isclose t x x"
  by (simp add: isclose_def feq_def)

lemma rnd64_dyadic:
  assumes "\<bar>m\<bar> < 2 ^ 53" and "- 1074 \<le> q" and "q \<le> 0"
  shows "rnd64 (of_int m * two_pow q) = Fin (of_int m * two_pow q)"
proof (rule rnd64_exact)
  show "rnd (of_int m * two_pow q) = of_int m * two_pow q" using assms(1,2) by (rule rnd_dyadic)
  have "\<bar>of_int m * two_pow q\<bar> \<le> \<bar>of_int m\<bar> * 1"
    unfolding abs_mult using two_pow_mono [of q 0] assms(3) by (intro mult_left_mono) (simp_all add: two_pow_def [of 0])
  then show "\<bar>of_int m * two_pow q\<bar> < max_exp" using int_lt_max_exp [OF assms(1)] by linarith
qed

lemma rnd64_half: "rnd64 (1 / 2) = Fin (1 / 2)"
  using rnd64_dyadic [of 1 "- 1"] by (simp add: two_pow_def)

text \<open>A decimal literal in the normal range and at most 1 is a positive finite double at most 1.\<close>

lemma flit_small:
  assumes "two_pow (- 1022) \<le> x" and "x \<le> 1"
  shows "\<exists>e. flit x = Fin e \<and> 0 < e \<and> e \<le> 1"
proof -
  have "two_pow (- 1022) \<le> rnd x"
    by (rule b64.r_lower [OF rnd_two_pow assms(1)]) simp
  moreover have "rnd x \<le> 1" by (rule b64.r_upper [OF rnd_1 assms(2)])
  moreover have "1 < max_exp" using two_pow_mono [of 1 1024] by (simp add: max_exp_def two_pow_def [of 1])
  ultimately show ?thesis
    using two_pow_pos [of "- 1022"] by (auto simp: rnd64_def Let_def simp del: two_pow_pos max_exp_pos)
qed

lemma two_pow_tiny: "10 ^ n \<le> (2::rat) ^ 1022 \<Longrightarrow> two_pow (- 1022) \<le> 1 / 10 ^ n"
  by (simp add: two_pow_def frac_le)

lemma flit_power_ten: "n \<le> 300 \<Longrightarrow> \<exists>e. flit (1 / 10 ^ n) = Fin e \<and> 0 < e \<and> e \<le> 1"
proof (rule flit_small)
  assume "n \<le> 300"
  then have "(10::rat) ^ n \<le> 10 ^ 300" by (intro power_increasing) auto
  also have "\<dots> \<le> 2 ^ 1022" by simp
  finally show "two_pow (- 1022) \<le> 1 / 10 ^ n" by (rule two_pow_tiny)
qed simp

section \<open>Differences and midpoints\<close>

lemma double_grid:
  assumes "rnd a = a"
  shows "\<exists>i::int. a = of_int i * two_pow (- 1074)"
proof (cases "a = 0")
  case False
  obtain q where q: "- 1074 \<le> q" "a = of_int (round_half_even (a / two_pow q)) * two_pow q"
    using assms False unfolding rnd_def quantum_def by (metis max.cobounded2)
  have "two_pow q = of_int (2 ^ nat (q + 1074)) * two_pow (- 1074)"
    using q(1) two_pow_add [of "q + 1074" "- 1074"] two_pow_of_int [of "q + 1074"] by simp
  then have "a = of_int (round_half_even (a / two_pow q) * 2 ^ nat (q + 1074)) * two_pow (- 1074)" using q(2) by simp
  then show ?thesis by blast
qed (auto intro: exI [of _ 0])

lemma double_diff_pos:
  assumes "rnd a = a" "rnd b = b" "b < a"
  shows "0 < rnd (a - b)"
proof -
  obtain i j :: int where ij: "a = of_int i * two_pow (- 1074)" "b = of_int j * two_pow (- 1074)"
    using assms(1,2) double_grid by meson
  have "j < i" using assms(3) unfolding ij by (simp add: mult_less_cancel_right)
  then have "(1::rat) \<le> of_int (i - j)" by simp
  then have "1 * two_pow (- 1074) \<le> of_int (i - j) * two_pow (- 1074)" by (intro mult_right_mono) simp_all
  then have "two_pow (- 1074) \<le> a - b" unfolding ij by (simp add: left_diff_distrib)
  then have "two_pow (- 1074) \<le> rnd (a - b)" using rnd_mono rnd_two_pow [of "- 1074"] by fastforce
  then show ?thesis using two_pow_pos [of "- 1074"] by linarith
qed

lemma rnd_twice:
  assumes "rnd x = x"
  shows "rnd (2 * x) = 2 * x"
proof (cases "x = 0")
  case False
  let ?q = "quantum x"
  have x: "x = of_int (round_half_even (x / two_pow ?q)) * two_pow ?q" using assms False by (simp add: rnd_def)
  have t: "two_pow (e + 1) = 2 * two_pow e" for e using two_pow_add [of e 1] by (simp add: two_pow_def [of 1])
  have l: "two_pow (ilog2 \<bar>x\<bar>) \<le> \<bar>x\<bar>" "\<bar>x\<bar> < two_pow (ilog2 \<bar>x\<bar> + 1)" using ilog2_bounds [of "\<bar>x\<bar>"] False by auto
  have "ilog2 \<bar>2 * x\<bar> = ilog2 \<bar>x\<bar> + 1"
    using l t [of "ilog2 \<bar>x\<bar>"] t [of "ilog2 \<bar>x\<bar> + 1"] by (intro ilog2_eqI) (simp_all add: abs_mult)
  then have q: "quantum (2 * x) \<le> ?q + 1" by (auto simp: quantum_def max_def)
  have "2 * x = of_int (round_half_even (x / two_pow ?q)) * two_pow (?q + 1)" using x t [of ?q] by simp
  then show ?thesis using q by (rule rnd_grid_fix)
qed simp

lemma half_between:
  assumes "rnd64 b = Fin b" "rnd64 a = Fin a" "b \<le> a" "rnd64 (b + a) = Fin c"
  shows "Fin b \<le> rnd64 (c / 2)" "rnd64 (c / 2) \<le> Fin a"
proof -
  have r: "rnd b = b" "rnd a = a" "c = rnd (b + a)" using assms rnd64_FinD by metis+
  have "2 * b \<le> c" "c \<le> 2 * a" unfolding r(3)
    using rnd_mono [of "2 * b" "b + a"] rnd_mono [of "b + a" "2 * a"] rnd_twice [OF r(1)] rnd_twice [OF r(2)] assms(3) by simp_all
  then show "Fin b \<le> rnd64 (c / 2)" "rnd64 (c / 2) \<le> Fin a"
    using rnd64_mono [of b "c / 2"] rnd64_mono [of "c / 2" a] assms(1,2) by simp_all
qed

end
