(* ===== verification/Quant_Prelude.thy ===== *)
theory Quant_Prelude
  imports Py_Float "HOL-Library.AList"
begin

text \<open>
  What the components share: exceptions as values, Python's dynamically typed arguments and the
  validation of a numeric argument, strings, insertion-ordered dictionaries, and the locales that
  state the contracts several components have (a state machine with locked terminal states, a
  machine with an invariant).

  A Python call that can raise is a function into \<open>exn + 'a\<close> (\<open>Inl\<close> the exception); a method that
  mutates its object returns the object's new state beside that, since the mutations made before a
  \<^verbatim>\<open>raise\<close> stay. Dictionaries are association lists with \<open>AList.update\<close> and \<open>AList.delete\<close>, which
  keep the insertion order as \<^verbatim>\<open>dict\<close> does. Strings are lists of characters up to U+00FF.
\<close>

named_theorems result_simps \<open>unfolding of result values and their binding\<close>
named_theorems check_simps \<open>inversion of the argument validators\<close>

section \<open>Exceptions\<close>

datatype py_error =
  TypeError | ValueError | KeyError | IndexError | ZeroDivisionError | OverflowError | AssertionError | QueueFull | RuntimeError | AttributeError | TimeoutError | StopIteration

text \<open>The exception classes of \<^verbatim>\<open>execution/models.py\<close>, and the diagnostic code each is raised with.\<close>

datatype gateway_error =
  GatewayError
| InvalidStateTransitionException
| DuplicateOrderException
| InvalidOrderInputException
| InsufficientMarginException
| GatewayDisconnectedException
| RateLimitExceededException

fun gateway_error_code :: "gateway_error \<Rightarrow> string" where
  "gateway_error_code GatewayError = ''ERR-GW-000''"
| "gateway_error_code InvalidStateTransitionException = ''ERR-GW-001''"
| "gateway_error_code DuplicateOrderException = ''ERR-GW-002''"
| "gateway_error_code InvalidOrderInputException = ''ERR-GW-003''"
| "gateway_error_code InsufficientMarginException = ''ERR-GW-004''"
| "gateway_error_code GatewayDisconnectedException = ''ERR-GW-005''"
| "gateway_error_code RateLimitExceededException = ''ERR-GW-006''"

text \<open>The exception classes of \<^verbatim>\<open>execution/tax_lot.py\<close>, \<^verbatim>\<open>execution/financing.py\<close> and
  \<^verbatim>\<open>services/ledger_service.py\<close>.\<close>

datatype tax_lot_error = TaxLotError | NegativeInventoryError | OrphanedFillError | NonFiniteLedgerInputError

datatype financing_error = FinancingError | InvalidRateError

datatype ledger_service_error = LedgerUnbalanced | LedgerPortfolioNotFound | RehydrationError

text \<open>The exception classes of \<^verbatim>\<open>execution/risk.py\<close>.\<close>

datatype risk_error =
  FatFingerNotionalException
| FatFingerQuantityException
| LeverageLimitExceededException
| ConcentrationLimitExceededException
| InsufficientMarginRiskException
| DrawdownLimitExceededException
| NonFiniteRiskInputException
| KillSwitchActiveException

text \<open>The exception classes of \<^verbatim>\<open>execution/venues.py\<close>.\<close>

datatype sor_error =
  SORError
| NBBOViolationException
| InsufficientLiquidityException
| InvalidScheduleException
| MassConservationException
| ChildOrderFailedException
| AlgorithmTimeoutException
| InvalidSORInputException
| NonFiniteInputException

text \<open>The exception classes of \<^verbatim>\<open>execution/kill_switch.py\<close>.\<close>

datatype kill_switch_error = InvalidAdminTokenException | KillSwitchDisarmedException

text \<open>The exception classes of \<^verbatim>\<open>execution/pre_trade_gate.py\<close>.\<close>

datatype gate_error = NonFiniteGateInputException

text \<open>The exception classes of \<^verbatim>\<open>analytics/circuit_breakers.py\<close>, \<^verbatim>\<open>analytics/pareto_sorting.py\<close> and
  \<^verbatim>\<open>analytics/hypergamic_selection.py\<close>.\<close>

datatype circuit_breaker_error = DegenerateCircuitBreakerException | InvalidCircuitBreakerInputException

datatype pareto_error = CorruptedFitnessException | InvalidResidualException

datatype selection_error = HypergamicSelectionError | InvalidCohortException

text \<open>The exception classes of \<^verbatim>\<open>analytics/evolutionary_lifecycle.py\<close>.\<close>

datatype lifecycle_error = LifecycleError | InvalidGenerationalStateException | StagnationException

datatype exn =
  PyErr py_error
| Gw gateway_error
| Lot tax_lot_error
| Fing financing_error
| Ldg ledger_service_error
| Rsk risk_error
| Sor sor_error
| Ks kill_switch_error
| Gate gate_error
| Cb circuit_breaker_error
| Par pareto_error
| Sel selection_error
| Evo lifecycle_error

abbreviation InvalidInput :: exn where
  "InvalidInput \<equiv> Gw InvalidOrderInputException"

abbreviation InvalidTransition :: exn where
  "InvalidTransition \<equiv> Gw InvalidStateTransitionException"

type_synonym 'a res = "exn + 'a"

definition bindR :: "'e + 'a \<Rightarrow> ('a \<Rightarrow> 'e + 'b) \<Rightarrow> 'e + 'b" where
  "bindR m f = (case m of Inl e \<Rightarrow> Inl e | Inr x \<Rightarrow> f x)"

lemma bindR_simps [simp, result_simps]: "bindR (Inl e) f = Inl e" "bindR (Inr x) f = f x"
  by (simp_all add: bindR_def)

lemma bindR_Inr_iff: "bindR m f = Inr y \<longleftrightarrow> (\<exists>x. m = Inr x \<and> f x = Inr y)"
  by (cases m) simp_all

lemma bindR_Inl_iff: "bindR m f = Inl e \<longleftrightarrow> m = Inl e \<or> (\<exists>x. m = Inr x \<and> f x = Inl e)"
  by (cases m) simp_all

lemma if_Inr_iff: "(if b then Inl e else m) = Inr x \<longleftrightarrow> \<not> b \<and> m = Inr x"
  by simp

lemmas res_iffs = bindR_Inr_iff bindR_Inl_iff if_Inr_iff

text \<open>A \<^verbatim>\<open>for\<close> loop whose body can raise.\<close>

fun mapR :: "('a \<Rightarrow> 'e + 'b) \<Rightarrow> 'a list \<Rightarrow> 'e + 'b list" where
  "mapR f [] = Inr []"
| "mapR f (x # xs) = bindR (f x) (\<lambda>y. bindR (mapR f xs) (\<lambda>ys. Inr (y # ys)))"

fun foldR :: "('s \<Rightarrow> 'a \<Rightarrow> 'e + 's) \<Rightarrow> 's \<Rightarrow> 'a list \<Rightarrow> 'e + 's" where
  "foldR f s [] = Inr s"
| "foldR f s (x # xs) = bindR (f s x) (\<lambda>s'. foldR f s' xs)"

lemma mapR_total:
  assumes "\<forall>x \<in> set xs. \<exists>y. f x = Inr y \<and> P x y"
  shows "\<exists>ys. mapR f xs = Inr ys \<and> list_all2 P xs ys"
  using assms by (induction xs) fastforce+

lemma foldR_append: "foldR f s (xs @ ys) = bindR (foldR f s xs) (\<lambda>s'. foldR f s' ys)"
  by (induction xs arbitrary: s) (auto simp: bindR_def split: sum.splits)

lemma foldR_invariant:
  assumes "\<And>s x s'. x \<in> set xs \<Longrightarrow> P s \<Longrightarrow> f s x = Inr s' \<Longrightarrow> P s'"
    and "P s" and "foldR f s xs = Inr s'"
  shows "P s'"
  using assms
proof (induction xs arbitrary: s)
  case (Cons x xs)
  then obtain t where "f s x = Inr t" "foldR f t xs = Inr s'" by (auto simp: bindR_Inr_iff)
  moreover from this(1) have "P t" using Cons.prems(1) [of x s t] Cons.prems(2) by simp
  moreover have "\<And>s y s'. y \<in> set xs \<Longrightarrow> P s \<Longrightarrow> f s y = Inr s' \<Longrightarrow> P s'"
    using Cons.prems(1) by (meson list.set_intros(2))
  ultimately show ?case using Cons.IH [of t] by blast
qed simp

text \<open>\<^verbatim>\<open>x / y\<close> on floats: a zero divisor raises.\<close>

definition divR :: "float64 \<Rightarrow> float64 \<Rightarrow> float64 res" where
  "divR x y = (if y = 0 then Inl (PyErr ZeroDivisionError) else Inr (fdiv x y))"

section \<open>Python values\<close>

datatype pyval =
  PNone
| PBool bool
| PInt int
| PFloat float64
| PStr string
| PEnum string string \<comment> \<open>member of a \<^verbatim>\<open>StrEnum\<close> class, with its value\<close>
| PObj string \<comment> \<open>an object of another type\<close>

text \<open>\<^verbatim>\<open>isinstance(v, str)\<close>, with the text: members of a \<^verbatim>\<open>StrEnum\<close> are strings.\<close>

fun as_str :: "pyval \<Rightarrow> string option" where
  "as_str (PStr s) = Some s"
| "as_str (PEnum c s) = Some s"
| "as_str _ = None"

definition int_overflows :: "int \<Rightarrow> bool" where
  "int_overflows i \<longleftrightarrow> \<not> isfinite (float_of_int i)"

text \<open>
  The guard \<^verbatim>\<open>not isinstance(v, (int, float)) or isinstance(v, bool) or not math.isfinite(v) or\<close>
  \<open>bad v\<close>, followed by \<^verbatim>\<open>float(v)\<close>: \<open>err\<close> where the guard holds, \<^verbatim>\<open>OverflowError\<close> (from
  \<^verbatim>\<open>math.isfinite\<close>) for an int beyond the range of a double. \<open>bad\<close> compares the exact number.
\<close>

fun check_number :: "exn \<Rightarrow> (rat \<Rightarrow> bool) \<Rightarrow> pyval \<Rightarrow> float64 res" where
  "check_number err bad (PInt i) =
     (if int_overflows i then Inl (PyErr OverflowError)
      else if bad (of_int i) then Inl err else Inr (float_of_int i))"
| "check_number err bad (PFloat (Fin a)) = (if bad a then Inl err else Inr (Fin a))"
| "check_number err bad _ = Inl err"

abbreviation check_fin :: "exn \<Rightarrow> pyval \<Rightarrow> float64 res" where
  "check_fin err \<equiv> check_number err (\<lambda>_. False)"

abbreviation check_pos :: "exn \<Rightarrow> pyval \<Rightarrow> float64 res" where
  "check_pos err \<equiv> check_number err (\<lambda>a. a \<le> 0)"

abbreviation check_nonneg :: "exn \<Rightarrow> pyval \<Rightarrow> float64 res" where
  "check_nonneg err \<equiv> check_number err (\<lambda>a. a < 0)"

text \<open>\<^verbatim>\<open>not isinstance(v, int) or isinstance(v, bool) or\<close> \<open>bad v\<close>.\<close>

fun check_int :: "exn \<Rightarrow> (int \<Rightarrow> bool) \<Rightarrow> pyval \<Rightarrow> int res" where
  "check_int err bad (PInt i) = (if bad i then Inl err else Inr i)"
| "check_int err bad _ = Inl err"

text \<open>An argument that is a float carries a double.\<close>

fun pyval_double :: "pyval \<Rightarrow> bool" where
  "pyval_double (PFloat x) \<longleftrightarrow> is_double x"
| "pyval_double _ \<longleftrightarrow> True"

text \<open>\<^verbatim>\<open>float(v)\<close>; \<open>parse\<close> is the conversion of a text.\<close>

fun py_float :: "(string \<Rightarrow> float64 res) \<Rightarrow> pyval \<Rightarrow> float64 res" where
  "py_float parse (PInt i) = (if int_overflows i then Inl (PyErr OverflowError) else Inr (float_of_int i))"
| "py_float parse (PFloat x) = Inr x"
| "py_float parse (PBool b) = Inr (if b then Fin 1 else 0)"
| "py_float parse (PStr s) = parse s"
| "py_float parse (PEnum c s) = parse s"
| "py_float parse _ = Inl (PyErr TypeError)"

text \<open>The exact value of a finite float, by which sorts compare.\<close>

definition fin_val :: "float64 \<Rightarrow> rat" where
  "fin_val x = (case x of Fin a \<Rightarrow> a | _ \<Rightarrow> 0)"

text \<open>\<^verbatim>\<open>int(x)\<close> of a float: truncation, or the exception for an infinity or NaN.\<close>

fun py_int :: "float64 \<Rightarrow> int res" where
  "py_int (Fin a) = Inr (if 0 \<le> a then \<lfloor>a\<rfloor> else \<lceil>a\<rceil>)"
| "py_int NaN = Inl (PyErr ValueError)"
| "py_int _ = Inl (PyErr OverflowError)"

text \<open>\<^verbatim>\<open>not isinstance(v, str) or not v\<close>.\<close>

definition check_str :: "exn \<Rightarrow> pyval \<Rightarrow> string res" where
  "check_str err v = (case as_str v of Some s \<Rightarrow> if s = [] then Inl err else Inr s | None \<Rightarrow> Inl err)"

section \<open>Strings\<close>

text \<open>\<^verbatim>\<open>str.isspace\<close>, \<^verbatim>\<open>str.strip\<close> and \<^verbatim>\<open>str.upper\<close> on characters up to U+00FF. \<open>str_upper\<close>
  maps the ASCII letters only: the code compares its result with ASCII words, and no other
  character of that range has an upper case made of the letters of those words.\<close>

definition is_space :: "char \<Rightarrow> bool" where
  "is_space c \<longleftrightarrow> (of_char c :: nat) \<in> {9, 10, 11, 12, 13, 28, 29, 30, 31, 32, 133, 160}"

definition str_strip :: "string \<Rightarrow> string" where
  "str_strip s = rev (dropWhile is_space (rev (dropWhile is_space s)))"

definition char_upper :: "char \<Rightarrow> char" where
  "char_upper c = (let n = (of_char c :: nat) in if 97 \<le> n \<and> n \<le> 122 then char_of (n - 32) else c)"

definition str_upper :: "string \<Rightarrow> string" where
  "str_upper s = map char_upper s"

text \<open>\<^verbatim>\<open>not isinstance(v, str) or not v.strip()\<close>.\<close>

definition check_nonblank :: "exn \<Rightarrow> pyval \<Rightarrow> string res" where
  "check_nonblank err v =
     (case as_str v of Some s \<Rightarrow> if str_strip s = [] then Inl err else Inr s | None \<Rightarrow> Inl err)"

section \<open>Facts about the validators\<close>

lemma float_of_int_nonneg: "0 \<le> i \<Longrightarrow> 0 \<le> float_of_int i"
  by (simp add: float_of_int_def)

lemma float_of_int_ge_1: "1 \<le> i \<Longrightarrow> Fin 1 \<le> float_of_int i"
  using rnd64_mono [of 1 "of_int i"] by (simp add: float_of_int_def)

lemma check_number_finite: "check_number err bad v = Inr x \<Longrightarrow> isfinite x"
  by (induction err bad v rule: check_number.induct) (auto simp: int_overflows_def split: if_splits)

lemma check_fin_finite [check_simps, dest]: "check_fin err v = Inr x \<Longrightarrow> isfinite x"
  by (rule check_number_finite)

lemma check_pos_InrD [check_simps, dest]: "check_pos err v = Inr x \<Longrightarrow> isfinite x \<and> 0 < x"
proof (induction err "\<lambda>a::rat. a \<le> 0" v rule: check_number.induct)
  case (1 err i)
  then have "1 \<le> i" and f: "isfinite x" and x: "x = float_of_int i"
    by (auto simp: int_overflows_def split: if_splits)
  from float_of_int_ge_1 [OF this(1)] have "Fin 1 \<le> x" by (simp add: x)
  then have "0 < x" using float_less_le_trans [of 0 "Fin 1" x] by simp
  with f show ?case by simp
qed (auto split: if_splits)

lemma check_nonneg_InrD [check_simps, dest]: "check_nonneg err v = Inr x \<Longrightarrow> isfinite x \<and> 0 \<le> x"
proof (induction err "\<lambda>a::rat. a < 0" v rule: check_number.induct)
  case (1 err i)
  then show ?case using float_of_int_nonneg [of i] by (simp add: int_overflows_def split: if_splits)
qed (auto split: if_splits)

lemma check_number_double: "check_number err bad v = Inr x \<Longrightarrow> pyval_double v \<Longrightarrow> is_double x"
  by (induction err bad v rule: check_number.induct) (auto simp: float_of_int_def split: if_splits)

lemma check_number_InlD: "check_number err bad v = Inl e \<Longrightarrow> e = err \<or> e = PyErr OverflowError"
  by (induction err bad v rule: check_number.induct) (auto split: if_splits)

lemma check_number_PFloat:
  "check_number err bad (PFloat x) = (case x of Fin a \<Rightarrow> if bad a then Inl err else Inr x | _ \<Rightarrow> Inl err)"
  by (cases x) simp_all

lemma check_int_InrD [check_simps, dest]: "check_int err bad v = Inr i \<Longrightarrow> v = PInt i \<and> \<not> bad i"
  by (cases v) (auto split: if_splits)

lemma check_str_InrD [check_simps, dest]: "check_str err v = Inr s \<Longrightarrow> as_str v = Some s \<and> s \<noteq> []"
  by (auto simp: check_str_def split: option.splits if_splits)

lemma check_nonblank_InrD [check_simps, dest]:
  "check_nonblank err v = Inr s \<Longrightarrow> as_str v = Some s \<and> str_strip s \<noteq> []"
  by (auto simp: check_nonblank_def split: option.splits if_splits)

section \<open>Dictionaries\<close>

text \<open>The dictionary operations of the code and their laws; the lookup is \<open>map_of\<close>.\<close>

abbreviation dict_set :: "('k \<times> 'v) list \<Rightarrow> 'k \<Rightarrow> 'v \<Rightarrow> ('k \<times> 'v) list" where
  "dict_set d k v \<equiv> AList.update k v d"

abbreviation dict_pop :: "('k \<times> 'v) list \<Rightarrow> 'k \<Rightarrow> ('k \<times> 'v) list" where
  "dict_pop d k \<equiv> AList.delete k d"

abbreviation dict_get :: "('k \<times> 'v) list \<Rightarrow> 'k \<Rightarrow> 'v option" where
  "dict_get d k \<equiv> map_of d k"

abbreviation dict_get_default :: "('k \<times> 'v) list \<Rightarrow> 'k \<Rightarrow> 'v \<Rightarrow> 'v" where
  "dict_get_default d k v \<equiv> (case map_of d k of Some x \<Rightarrow> x | None \<Rightarrow> v)"

abbreviation dict_ok :: "('k \<times> 'v) list \<Rightarrow> bool" where
  "dict_ok d \<equiv> distinct (map fst d)"

abbreviation dict_has :: "('k \<times> 'v) list \<Rightarrow> 'k \<Rightarrow> bool" where
  "dict_has d k \<equiv> k \<in> fst ` set d"

lemma dict_get_set [simp]: "dict_get (dict_set d k v) k' = (if k' = k then Some v else dict_get d k')"
  by (simp add: update_conv')

lemma dict_get_pop [simp]: "dict_get (dict_pop d k) k' = (if k' = k then None else dict_get d k')"
  by (simp add: delete_conv')

lemma dict_keys_pop [simp]: "fst ` set (dict_pop d k) = fst ` set d - {k}"
  by (induction d) auto

lemma dict_keys_set [simp]: "fst ` set (dict_set d k v) = insert k (fst ` set d)"
  by (simp add: dom_update)

lemma dict_has_iff: "dict_has d k \<longleftrightarrow> dict_get d k \<noteq> None"
  by (simp add: map_of_eq_None_iff)

lemma foldl_dict_set:
  "distinct (map fst (d @ vs)) \<Longrightarrow> foldl (\<lambda>d (k, v). dict_set d k v) d vs = d @ vs"
proof (induction vs arbitrary: d)
  case (Cons p vs)
  obtain k v where p: "p = (k, v)" by (cases p)
  have "dict_set d k v = d @ [(k, v)]" using Cons.prems p by (induction d) auto
  then show ?case using Cons.IH [of "d @ [(k, v)]"] Cons.prems p by simp
qed simp

section \<open>Contracts several components share\<close>

text \<open>A state machine some of whose states are final: no step leaves them.\<close>

locale locked_machine =
  fixes step :: "'s \<Rightarrow> 's \<Rightarrow> bool"
    and final :: "'s \<Rightarrow> bool"
  assumes final_stuck: "final s \<Longrightarrow> \<not> step s t"
begin

lemma final_forever: "step\<^sup>*\<^sup>* s t \<Longrightarrow> final s \<Longrightarrow> t = s"
  by (induction rule: converse_rtranclp_induct) (auto simp: final_stuck)

lemma final_once: "step\<^sup>*\<^sup>* s t \<Longrightarrow> step\<^sup>*\<^sup>* t u \<Longrightarrow> final t \<Longrightarrow> u = t"
  by (rule final_forever)

end

text \<open>A machine driven by commands, with an invariant every command keeps.\<close>

locale invariant_machine =
  fixes exec :: "'s \<Rightarrow> 'c \<Rightarrow> 's"
    and I :: "'s \<Rightarrow> bool"
  assumes exec_inv: "I s \<Longrightarrow> I (exec s c)"
begin

lemma run_inv: "I s \<Longrightarrow> I (foldl exec s cs)"
  by (induction cs arbitrary: s) (auto simp: exec_inv)

lemma run_prefix_inv: "I s \<Longrightarrow> I (foldl exec s (take n cs))"
  by (rule run_inv)

end

end
