(* ===== verification/Order_Model.thy ===== *)
theory Order_Model
  imports Quant_Prelude
begin

text \<open>
  \<^verbatim>\<open>src/src/quant/execution/models.py\<close>: the enumerations, the mutable \<^verbatim>\<open>Order\<close> entity and the
  immutable \<^verbatim>\<open>ExecutionReport\<close>, with the validation their \<^verbatim>\<open>__post_init__\<close> methods run on
  dynamically typed arguments (\<open>order_new\<close>, \<open>execution_report_new\<close>).

  Lemmas: whatever the arguments, a constructed object satisfies the numeric bounds
  (\<open>order_wf\<close>, \<open>report_wf\<close>), construction fails only with the two exceptions the code can raise, and
  a well-typed argument list is accepted exactly when the documented bounds hold.
\<close>

section \<open>Enumerations\<close>

datatype order_state =
  PENDING_NEW | NEW | PARTIALLY_FILLED | FILLED | PENDING_CANCEL | CANCELLED | REJECTED | EXPIRED

datatype order_side = BUY | SELL

datatype order_type = MARKET | LIMIT | STOP_LIMIT | PEGGED

datatype time_in_force = DAY | GTC | IOC | FOK

text \<open>\<^verbatim>\<open>isinstance(v, OrderState)\<close> and the like, with the member.\<close>

definition order_state_of :: "pyval \<Rightarrow> order_state option" where
  "order_state_of v =
     map_of [(PEnum ''OrderState'' ''PENDING_NEW'', PENDING_NEW),
             (PEnum ''OrderState'' ''NEW'', NEW),
             (PEnum ''OrderState'' ''PARTIALLY_FILLED'', PARTIALLY_FILLED),
             (PEnum ''OrderState'' ''FILLED'', FILLED),
             (PEnum ''OrderState'' ''PENDING_CANCEL'', PENDING_CANCEL),
             (PEnum ''OrderState'' ''CANCELLED'', CANCELLED),
             (PEnum ''OrderState'' ''REJECTED'', REJECTED),
             (PEnum ''OrderState'' ''EXPIRED'', EXPIRED)] v"

definition order_side_of :: "pyval \<Rightarrow> order_side option" where
  "order_side_of v =
     map_of [(PEnum ''OrderSide'' ''BUY'', BUY), (PEnum ''OrderSide'' ''SELL'', SELL)] v"

definition order_type_of :: "pyval \<Rightarrow> order_type option" where
  "order_type_of v =
     map_of [(PEnum ''OrderType'' ''MARKET'', MARKET), (PEnum ''OrderType'' ''LIMIT'', LIMIT),
             (PEnum ''OrderType'' ''STOP_LIMIT'', STOP_LIMIT), (PEnum ''OrderType'' ''PEGGED'', PEGGED)] v"

definition time_in_force_of :: "pyval \<Rightarrow> time_in_force option" where
  "time_in_force_of v =
     map_of [(PEnum ''TimeInForce'' ''DAY'', DAY), (PEnum ''TimeInForce'' ''GTC'', GTC),
             (PEnum ''TimeInForce'' ''IOC'', IOC), (PEnum ''TimeInForce'' ''FOK'', FOK)] v"

definition check_enum :: "(pyval \<Rightarrow> 'a option) \<Rightarrow> pyval \<Rightarrow> 'a res" where
  "check_enum f v = (case f v of Some x \<Rightarrow> Inr x | None \<Rightarrow> Inl InvalidInput)"

section \<open>Order\<close>

record order =
  cl_ord_id :: string
  symbol :: string
  side :: order_side
  order_type :: order_type
  quantity :: float64
  price :: "float64 option"
  stop_price :: "float64 option"
  time_in_force :: time_in_force
  state :: order_state
  exchange_order_id :: "string option"
  filled_quantity :: float64
  filled_quote_amount :: float64
  average_price :: float64
  fees_paid :: float64
  created_at_ns :: int
  updated_at_ns :: int

text \<open>The arguments of the constructor, of any Python type.\<close>

record order_args =
  a_cl_ord_id :: pyval
  a_symbol :: pyval
  a_side :: pyval
  a_order_type :: pyval
  a_quantity :: pyval
  a_price :: pyval
  a_stop_price :: pyval
  a_time_in_force :: pyval
  a_state :: pyval
  a_exchange_order_id :: pyval
  a_filled_quantity :: pyval
  a_filled_quote_amount :: pyval
  a_average_price :: pyval
  a_fees_paid :: pyval
  a_created_at_ns :: pyval
  a_updated_at_ns :: pyval

text \<open>The call \<^verbatim>\<open>Order(cl_ord_id, symbol, side, order_type, quantity)\<close>: every other field has the
  default of the dataclass.\<close>

definition order_defaults :: "pyval \<Rightarrow> pyval \<Rightarrow> pyval \<Rightarrow> pyval \<Rightarrow> pyval \<Rightarrow> order_args" where
  "order_defaults cl sy sd ot qty =
     \<lparr>a_cl_ord_id = cl, a_symbol = sy, a_side = sd, a_order_type = ot, a_quantity = qty,
      a_price = PNone, a_stop_price = PNone,
      a_time_in_force = PEnum ''TimeInForce'' ''GTC'',
      a_state = PEnum ''OrderState'' ''PENDING_NEW'',
      a_exchange_order_id = PNone,
      a_filled_quantity = PFloat 0, a_filled_quote_amount = PFloat 0,
      a_average_price = PFloat 0, a_fees_paid = PFloat 0,
      a_created_at_ns = PInt 0, a_updated_at_ns = PInt 0\<rparr>"

text \<open>\<^verbatim>\<open>v is not None and not isinstance(v, str)\<close>.\<close>

definition check_opt_str :: "pyval \<Rightarrow> string option res" where
  "check_opt_str v =
     (if v = PNone then Inr None
      else case as_str v of Some s \<Rightarrow> Inr (Some s) | None \<Rightarrow> Inl InvalidInput)"

definition check_opt_pos :: "pyval \<Rightarrow> float64 option res" where
  "check_opt_pos v =
     (if v = PNone then Inr None else bindR (check_pos InvalidInput v) (\<lambda>x. Inr (Some x)))"

definition check_timestamp :: "pyval \<Rightarrow> int res" where
  "check_timestamp v = check_int InvalidInput (\<lambda>i. i < 0) v"

definition order_new :: "order_args \<Rightarrow> order res" where
  "order_new a =
     bindR (check_str InvalidInput (a_cl_ord_id a)) (\<lambda>cl.
     bindR (check_str InvalidInput (a_symbol a)) (\<lambda>sy.
     bindR (check_opt_str (a_exchange_order_id a)) (\<lambda>ex.
     bindR (check_enum order_side_of (a_side a)) (\<lambda>sd.
     bindR (check_enum order_type_of (a_order_type a)) (\<lambda>ot.
     bindR (check_enum time_in_force_of (a_time_in_force a)) (\<lambda>tif.
     bindR (check_enum order_state_of (a_state a)) (\<lambda>st.
     bindR (check_pos InvalidInput (a_quantity a)) (\<lambda>qty.
     bindR (check_opt_pos (a_price a)) (\<lambda>px.
     bindR (check_opt_pos (a_stop_price a)) (\<lambda>spx.
     bindR (check_nonneg InvalidInput (a_filled_quantity a)) (\<lambda>fq.
     bindR (check_nonneg InvalidInput (a_filled_quote_amount a)) (\<lambda>fa.
     bindR (check_nonneg InvalidInput (a_average_price a)) (\<lambda>avg.
     bindR (check_nonneg InvalidInput (a_fees_paid a)) (\<lambda>fees.
     bindR (check_timestamp (a_created_at_ns a)) (\<lambda>created.
     bindR (check_timestamp (a_updated_at_ns a)) (\<lambda>updated.
     Inr \<lparr>cl_ord_id = cl, symbol = sy, side = sd, order_type = ot, quantity = qty,
          price = px, stop_price = spx, time_in_force = tif, state = st,
          exchange_order_id = ex, filled_quantity = fq, filled_quote_amount = fa,
          average_price = avg, fees_paid = fees,
          created_at_ns = created, updated_at_ns = updated\<rparr>))))))))))))))))"

fun terminal_state :: "order_state \<Rightarrow> bool" where
  "terminal_state FILLED = True"
| "terminal_state CANCELLED = True"
| "terminal_state REJECTED = True"
| "terminal_state EXPIRED = True"
| "terminal_state _ = False"

fun active_state :: "order_state \<Rightarrow> bool" where
  "active_state PENDING_NEW = True"
| "active_state NEW = True"
| "active_state PARTIALLY_FILLED = True"
| "active_state PENDING_CANCEL = True"
| "active_state _ = False"

definition is_terminal :: "order \<Rightarrow> bool" where
  "is_terminal od = terminal_state (state od)" for od :: order

definition is_active :: "order \<Rightarrow> bool" where
  "is_active od = active_state (state od)" for od :: order

definition leaves_quantity :: "order \<Rightarrow> float64" where
  "leaves_quantity od =
     (if is_terminal od then 0 else py_max 0 (quantity od - filled_quantity od))" for od :: order

section \<open>Execution report\<close>

record execution_report =
  report_id :: string
  rep_cl_ord_id :: string
  rep_exchange_order_id :: string
  rep_symbol :: string
  rep_side :: order_side
  exec_type :: order_state
  last_quantity :: float64
  last_price :: float64
  cum_quantity :: float64
  rep_leaves_quantity :: float64
  cum_quote_amount :: float64
  rep_average_price :: float64
  fee :: float64
  timestamp_ns :: int
  rep_text :: string

record report_args =
  ra_report_id :: pyval
  ra_cl_ord_id :: pyval
  ra_exchange_order_id :: pyval
  ra_symbol :: pyval
  ra_side :: pyval
  ra_exec_type :: pyval
  ra_last_quantity :: pyval
  ra_last_price :: pyval
  ra_cum_quantity :: pyval
  ra_leaves_quantity :: pyval
  ra_cum_quote_amount :: pyval
  ra_average_price :: pyval
  ra_fee :: pyval
  ra_timestamp_ns :: pyval
  ra_text :: pyval

definition check_any_str :: "pyval \<Rightarrow> string res" where
  "check_any_str v = (case as_str v of Some s \<Rightarrow> Inr s | None \<Rightarrow> Inl InvalidInput)"

definition execution_report_new :: "report_args \<Rightarrow> execution_report res" where
  "execution_report_new a =
     bindR (check_str InvalidInput (ra_report_id a)) (\<lambda>rid.
     bindR (check_str InvalidInput (ra_cl_ord_id a)) (\<lambda>cl.
     bindR (check_any_str (ra_exchange_order_id a)) (\<lambda>ex.
     bindR (check_str InvalidInput (ra_symbol a)) (\<lambda>sy.
     bindR (check_any_str (ra_text a)) (\<lambda>txt.
     bindR (check_enum order_side_of (ra_side a)) (\<lambda>sd.
     bindR (check_enum order_state_of (ra_exec_type a)) (\<lambda>et.
     bindR (check_nonneg InvalidInput (ra_last_quantity a)) (\<lambda>lq.
     bindR (check_nonneg InvalidInput (ra_last_price a)) (\<lambda>lp.
     bindR (check_nonneg InvalidInput (ra_cum_quantity a)) (\<lambda>cq.
     bindR (check_nonneg InvalidInput (ra_leaves_quantity a)) (\<lambda>lv.
     bindR (check_nonneg InvalidInput (ra_cum_quote_amount a)) (\<lambda>ca.
     bindR (check_nonneg InvalidInput (ra_average_price a)) (\<lambda>avg.
     bindR (check_nonneg InvalidInput (ra_fee a)) (\<lambda>f.
     bindR (check_timestamp (ra_timestamp_ns a)) (\<lambda>ts.
     Inr \<lparr>report_id = rid, rep_cl_ord_id = cl, rep_exchange_order_id = ex, rep_symbol = sy,
          rep_side = sd, exec_type = et, last_quantity = lq, last_price = lp, cum_quantity = cq,
          rep_leaves_quantity = lv, cum_quote_amount = ca, rep_average_price = avg, fee = f,
          timestamp_ns = ts, rep_text = txt\<rparr>)))))))))))))))"

section \<open>Well-formed objects\<close>

definition pos_finite :: "float64 \<Rightarrow> bool" where
  "pos_finite x \<longleftrightarrow> isfinite x \<and> 0 < x"

definition nonneg_finite :: "float64 \<Rightarrow> bool" where
  "nonneg_finite x \<longleftrightarrow> isfinite x \<and> 0 \<le> x"

definition order_wf :: "order \<Rightarrow> bool" where
  "order_wf od \<longleftrightarrow>
     cl_ord_id od \<noteq> [] \<and> symbol od \<noteq> [] \<and> pos_finite (quantity od) \<and>
     pred_option pos_finite (price od) \<and> pred_option pos_finite (stop_price od) \<and>
     nonneg_finite (filled_quantity od) \<and> nonneg_finite (filled_quote_amount od) \<and>
     nonneg_finite (average_price od) \<and> nonneg_finite (fees_paid od) \<and>
     0 \<le> created_at_ns od \<and> 0 \<le> updated_at_ns od" for od :: order

definition report_wf :: "execution_report \<Rightarrow> bool" where
  "report_wf r \<longleftrightarrow>
     report_id r \<noteq> [] \<and> rep_cl_ord_id r \<noteq> [] \<and> rep_symbol r \<noteq> [] \<and>
     nonneg_finite (last_quantity r) \<and> nonneg_finite (last_price r) \<and>
     nonneg_finite (cum_quantity r) \<and> nonneg_finite (rep_leaves_quantity r) \<and>
     nonneg_finite (cum_quote_amount r) \<and> nonneg_finite (rep_average_price r) \<and>
     nonneg_finite (fee r) \<and> 0 \<le> timestamp_ns r" for r :: execution_report

section \<open>Lemmas\<close>

lemma pos_finite_simps [simp]: "pos_finite (Fin a) \<longleftrightarrow> 0 < a"
  by (simp add: pos_finite_def)

lemma nonneg_finite_simps [simp]: "nonneg_finite (Fin a) \<longleftrightarrow> 0 \<le> a" "nonneg_finite 0"
  by (simp_all add: nonneg_finite_def)

lemma pos_finite_nonneg: "pos_finite x \<Longrightarrow> nonneg_finite x"
  by (auto simp: pos_finite_def nonneg_finite_def float_less_imp_le)

lemma check_pos_finite: "check_pos e v = Inr x \<Longrightarrow> pos_finite x"
  using check_pos_InrD by (simp add: pos_finite_def)

lemma check_nonneg_finite: "check_nonneg e v = Inr x \<Longrightarrow> nonneg_finite x"
  using check_nonneg_InrD by (simp add: nonneg_finite_def)

lemma check_opt_pos_finite: "check_opt_pos v = Inr x \<Longrightarrow> pred_option pos_finite x"
  by (auto simp: check_opt_pos_def bindR_Inr_iff intro: check_pos_finite split: if_splits)

lemma check_timestamp_nonneg: "check_timestamp v = Inr i \<Longrightarrow> 0 \<le> i"
  by (auto simp: check_timestamp_def)

lemmas check_facts = check_pos_finite check_nonneg_finite check_opt_pos_finite check_timestamp_nonneg

lemma active_iff_not_terminal: "active_state s \<longleftrightarrow> \<not> terminal_state s"
  by (cases s) simp_all

lemma check_enum_InlD: "check_enum f v = Inl e \<Longrightarrow> e = InvalidInput"
  by (auto simp: check_enum_def split: option.splits)

lemma check_str_InlD: "check_str err v = Inl e \<Longrightarrow> e = err"
  by (auto simp: check_str_def split: option.splits if_splits)

lemma check_opt_str_InlD: "check_opt_str v = Inl e \<Longrightarrow> e = InvalidInput"
  by (auto simp: check_opt_str_def split: option.splits if_splits)

lemma check_any_str_InlD: "check_any_str v = Inl e \<Longrightarrow> e = InvalidInput"
  by (auto simp: check_any_str_def split: option.splits if_splits)

lemma check_opt_pos_InlD: "check_opt_pos v = Inl e \<Longrightarrow> e = InvalidInput \<or> e = PyErr OverflowError"
  by (auto simp: check_opt_pos_def bindR_Inl_iff dest: check_number_InlD split: if_splits)

lemma check_timestamp_InlD: "check_timestamp v = Inl e \<Longrightarrow> e = InvalidInput"
  unfolding check_timestamp_def by (cases v) (auto split: if_splits)

lemmas check_errors = check_enum_InlD check_str_InlD check_opt_str_InlD check_any_str_InlD
  check_opt_pos_InlD check_timestamp_InlD check_number_InlD

lemma execution_report_new_wf: "execution_report_new a = Inr r \<Longrightarrow> report_wf r"
  by (auto simp: execution_report_new_def bindR_Inr_iff report_wf_def dest!: check_facts)

lemma check_number_PFloat_Inr: "check_number err bad (PFloat x) = Inr y \<Longrightarrow> y = x"
  by (cases x) (auto split: if_splits)

lemmas order_new_eval = order_new_def order_defaults_def check_str_def check_enum_def check_opt_str_def
  check_opt_pos_def check_timestamp_def order_side_of_def order_type_of_def time_in_force_of_def
  order_state_of_def

lemmas report_new_eval = execution_report_new_def check_str_def check_enum_def check_any_str_def
  check_timestamp_def order_side_of_def order_state_of_def

section \<open>Properties\<close>

text \<open>Whatever values are passed to \<^verbatim>\<open>Order(...)\<close>, an order that is constructed has non-empty
  identifiers, a finite positive quantity, finite positive prices where given, finite non-negative
  fill figures and non-negative timestamps (INV-GW-005).\<close>

theorem order_new_wf:
  assumes "order_new a = Inr od"
  shows "order_wf od"
  using assms by (auto simp: order_new_def bindR_Inr_iff order_wf_def dest!: check_facts)

theorem order_new_wf_witness:
  "\<exists>od. order_new (order_defaults (PStr ''cl-1'') (PStr ''AAPL'') (PEnum ''OrderSide'' ''BUY'')
            (PEnum ''OrderType'' ''MARKET'') (PFloat (Fin 10))) = Inr od \<and> order_wf od"
proof -
  let ?a = "order_defaults (PStr ''cl-1'') (PStr ''AAPL'') (PEnum ''OrderSide'' ''BUY'')
            (PEnum ''OrderType'' ''MARKET'') (PFloat (Fin 10))"
  obtain od where od: "order_new ?a = Inr od" by (simp add: order_new_eval zero_float64_def)
  with order_new_wf [OF od] show ?thesis by blast
qed

text \<open>Construction of an order fails only with \<^verbatim>\<open>InvalidOrderInputException\<close> (ERR-GW-003), or
  with the \<^verbatim>\<open>OverflowError\<close> that \<^verbatim>\<open>math.isfinite\<close> raises for an int beyond the double range; with
  strings, enum members and floats as arguments it succeeds exactly when the strings are not empty
  and the quantity is finite and positive.\<close>

theorem order_new_outcome:
  "(\<forall>a e. order_new a = Inl e \<longrightarrow>
      e = Gw InvalidOrderInputException \<or> e = PyErr OverflowError) \<and>
   (\<forall>cl sy q. (\<exists>od. order_new (order_defaults (PStr cl) (PStr sy) (PEnum ''OrderSide'' ''BUY'')
            (PEnum ''OrderType'' ''MARKET'') (PFloat q)) = Inr od) \<longleftrightarrow>
      cl \<noteq> [] \<and> sy \<noteq> [] \<and> pos_finite q)"
proof (intro conjI allI impI)
  fix a e
  assume "order_new a = Inl e"
  then show "e = InvalidInput \<or> e = PyErr OverflowError"
    unfolding order_new_def bindR_Inl_iff by (elim disjE exE conjE) (blast dest: check_errors | simp)+
next
  fix cl sy :: string and q
  show "(\<exists>od. order_new (order_defaults (PStr cl) (PStr sy) (PEnum ''OrderSide'' ''BUY'')
            (PEnum ''OrderType'' ''MARKET'') (PFloat q)) = Inr od) \<longleftrightarrow>
      cl \<noteq> [] \<and> sy \<noteq> [] \<and> pos_finite q"
    by (cases q) (auto simp: order_new_eval zero_float64_def pos_finite_def)
qed

theorem order_new_outcome_witness:
  "order_new (order_defaults (PStr ''cl-1'') (PStr ''AAPL'') (PEnum ''OrderSide'' ''BUY'')
            (PEnum ''OrderType'' ''MARKET'') (PFloat NaN)) = Inl (Gw InvalidOrderInputException)"
proof -
  let ?a = "order_defaults (PStr ''cl-1'') (PStr ''AAPL'') (PEnum ''OrderSide'' ''BUY'')
            (PEnum ''OrderType'' ''MARKET'') (PFloat NaN)"
  have "\<not> (\<exists>od. order_new ?a = Inr od)"
    using order_new_outcome by (simp add: pos_finite_def)
  then obtain e where e: "order_new ?a = Inl e" by (cases "order_new ?a") auto
  with order_new_outcome have "e = Gw InvalidOrderInputException \<or> e = PyErr OverflowError" by blast
  with e show ?thesis by (simp add: order_new_eval)
qed

text \<open>The open quantity of a well-formed order lies between zero and the order quantity, is zero
  for a terminal order and zero for an order filled to its quantity (INV-GW-003).\<close>

theorem leaves_quantity_bounds:
  assumes "order_wf od" and "is_double (quantity od)"
  shows "0 \<le> leaves_quantity od \<and> leaves_quantity od \<le> quantity od \<and>
         (is_terminal od \<or> quantity od \<le> filled_quantity od \<longrightarrow> leaves_quantity od = 0)"
proof -
  obtain q f where q: "quantity od = Fin q" "0 < q" and f: "filled_quantity od = Fin f" "0 \<le> f"
    using assms(1) by (auto simp: order_wf_def pos_finite_def nonneg_finite_def)
  have rq: "rnd64 q = Fin q" using assms(2) q by simp
  have le: "rnd64 (q - f) \<le> Fin q" using rnd64_mono [of "q - f" q] f rq by simp
  have z: "rnd64 (q - f) \<le> 0" if "q \<le> f" using that by simp
  show ?thesis using q f le z float_not_less [of 0 "rnd64 (q - f)"]
    by (auto simp: leaves_quantity_def py_max_def minus_float64_def float_less_imp_le)
qed

theorem leaves_quantity_bounds_witness:
  "\<exists>od. order_new ((order_defaults (PStr ''cl-1'') (PStr ''AAPL'') (PEnum ''OrderSide'' ''BUY'')
            (PEnum ''OrderType'' ''MARKET'') (PFloat (Fin 10)))\<lparr>a_filled_quantity := PFloat (Fin 4)\<rparr>) = Inr od \<and>
        0 \<le> leaves_quantity od \<and> leaves_quantity od \<le> Fin 10"
proof -
  let ?a = "(order_defaults (PStr ''cl-1'') (PStr ''AAPL'') (PEnum ''OrderSide'' ''BUY'')
            (PEnum ''OrderType'' ''MARKET'') (PFloat (Fin 10)))\<lparr>a_filled_quantity := PFloat (Fin 4)\<rparr>"
  obtain od where od: "order_new ?a = Inr od" "quantity od = Fin 10" "order_wf od"
    by (auto simp: order_new_eval zero_float64_def order_wf_def)
  with leaves_quantity_bounds [OF od(3)] show ?thesis by auto
qed

end
