(* ===== verification/Order_FSM.thy ===== *)
theory Order_FSM
  imports Order_Model
begin

text \<open>
  \<^verbatim>\<open>src/src/quant/execution/fsm.py\<close>: the transition table and the two mutating class methods
  \<^verbatim>\<open>transition\<close> and \<^verbatim>\<open>apply_execution_report\<close> of \<^verbatim>\<open>OrderStateMachine\<close>. A method returns the
  order object as it is after the call together with the outcome (\<open>Inr ()\<close>, or the exception), since
  a mutation made before a \<^verbatim>\<open>raise\<close> would stay.

  Lemmas: a raising call leaves the order untouched, terminal orders are locked (through the locale
  \<open>locked_machine\<close>), fills never exceed the quantity by more than the tolerance, and the order stays
  well-formed over any sequence of events (through the locale \<open>invariant_machine\<close>).
\<close>

section \<open>The transition table\<close>

fun valid_transitions :: "order_state \<Rightarrow> order_state list" where
  "valid_transitions PENDING_NEW = [NEW, PARTIALLY_FILLED, FILLED, REJECTED, EXPIRED]"
| "valid_transitions NEW = [PARTIALLY_FILLED, FILLED, PENDING_CANCEL, CANCELLED, EXPIRED]"
| "valid_transitions PARTIALLY_FILLED =
     [PARTIALLY_FILLED, FILLED, PENDING_CANCEL, CANCELLED, EXPIRED]"
| "valid_transitions PENDING_CANCEL = [CANCELLED, FILLED, PARTIALLY_FILLED]"
| "valid_transitions FILLED = []"
| "valid_transitions CANCELLED = []"
| "valid_transitions REJECTED = []"
| "valid_transitions EXPIRED = []"

definition can_transition :: "order_state \<Rightarrow> order_state \<Rightarrow> bool" where
  "can_transition current_state next_state \<longleftrightarrow> next_state \<in> set (valid_transitions current_state)"

section \<open>The class methods\<close>

text \<open>The tolerance literal \<^verbatim>\<open>1e-7\<close>.\<close>

definition qty_eps :: float64 where
  "qty_eps = flit (1 / 10 ^ 7)"

definition fill_event :: "order_state \<Rightarrow> bool" where
  "fill_event s \<longleftrightarrow> s = PARTIALLY_FILLED \<or> s = FILLED"

definition apply_execution_report :: "order \<Rightarrow> execution_report \<Rightarrow> order \<times> unit res" where
  "apply_execution_report od r =
     (if cl_ord_id od \<noteq> rep_cl_ord_id r then (od, Inl InvalidInput)
      else if is_terminal od then (od, Inl InvalidTransition)
      else if quantity od + qty_eps < cum_quantity r then (od, Inl InvalidInput)
      else if cum_quantity r < filled_quantity od - qty_eps then (od, Inl InvalidInput)
      else
        let od1 =
          (if state od = PENDING_NEW \<and> fill_event (exec_type r)
           then od\<lparr>state := NEW, updated_at_ns := timestamp_ns r,
                   exchange_order_id :=
                     (if rep_exchange_order_id r \<noteq> [] then Some (rep_exchange_order_id r)
                      else exchange_order_id od)\<rparr>
           else od)
        in if \<not> can_transition (state od1) (exec_type r) then (od1, Inl InvalidTransition)
           else
             (od1\<lparr>filled_quantity := cum_quantity r,
                  filled_quote_amount := cum_quote_amount r,
                  average_price := rep_average_price r,
                  fees_paid := fees_paid od1 + fee r,
                  exchange_order_id :=
                    (if rep_exchange_order_id r \<noteq> [] then Some (rep_exchange_order_id r)
                     else exchange_order_id od1),
                  updated_at_ns := timestamp_ns r,
                  state := exec_type r\<rparr>, Inr ()))"

text \<open>The argument \<^verbatim>\<open>timestamp_ns: int | ExecutionReport | None\<close> of \<^verbatim>\<open>transition\<close>; \<open>now_ns\<close> stands
  for the clock reading \<^verbatim>\<open>time.time_ns()\<close>.\<close>

datatype timestamp_arg = TsReport execution_report | TsValue pyval

definition resolve_timestamp ::
    "int \<Rightarrow> timestamp_arg \<Rightarrow> execution_report option \<Rightarrow> (int \<times> execution_report option) res" where
  "resolve_timestamp now_ns ts report =
     (case ts of
        TsReport r \<Rightarrow> Inr (timestamp_ns r, Some r)
      | TsValue v \<Rightarrow>
          (case report of
             Some r \<Rightarrow> Inr (timestamp_ns r, Some r)
           | None \<Rightarrow>
               if v = PNone then Inr (now_ns, None)
               else bindR (check_timestamp v) (\<lambda>i. Inr (i, None))))"

definition transition ::
    "int \<Rightarrow> order \<Rightarrow> order_state \<Rightarrow> timestamp_arg \<Rightarrow> execution_report option \<Rightarrow> order \<times> unit res" where
  "transition now_ns od next_state ts report =
     (case resolve_timestamp now_ns ts report of
        Inl e \<Rightarrow> (od, Inl e)
      | Inr (resolved_ts, Some r) \<Rightarrow>
          if exec_type r \<noteq> next_state then (od, Inl InvalidTransition)
          else apply_execution_report od r
      | Inr (resolved_ts, None) \<Rightarrow>
          if is_terminal od then (od, Inl InvalidTransition)
          else
            let od1 = (if state od = PENDING_NEW \<and> fill_event next_state
                       then od\<lparr>state := NEW, updated_at_ns := resolved_ts\<rparr> else od)
            in if \<not> can_transition (state od1) next_state then (od1, Inl InvalidTransition)
               else (od1\<lparr>state := next_state, updated_at_ns := resolved_ts\<rparr>, Inr ()))"

section \<open>Events and runs\<close>

text \<open>The two ways the code drives an order. A call that raises leaves the order as the method left
  it, and the caller goes on with the same object.\<close>

datatype order_event =
  Report execution_report
| Transition int order_state timestamp_arg "execution_report option"

fun order_call :: "order \<Rightarrow> order_event \<Rightarrow> order \<times> unit res" where
  "order_call od (Report r) = apply_execution_report od r"
| "order_call od (Transition now st ts rep) = transition now od st ts rep"

definition order_exec :: "order \<Rightarrow> order_event \<Rightarrow> order" where
  "order_exec od ev = fst (order_call od ev)"

inductive order_step :: "order \<Rightarrow> order \<Rightarrow> bool" where
  accepted: "order_call od ev = (od', Inr ()) \<Longrightarrow> order_step od od'"

inductive_cases order_stepE: "order_step od od'"

definition ts_wf :: "timestamp_arg \<Rightarrow> bool" where
  "ts_wf ts = (case ts of TsReport r \<Rightarrow> report_wf r | TsValue _ \<Rightarrow> True)"

fun event_wf :: "order_event \<Rightarrow> bool" where
  "event_wf (Report r) = report_wf r"
| "event_wf (Transition now st ts rep) = (0 \<le> now \<and> ts_wf ts \<and> pred_option report_wf rep)"

definition mass_conserved :: "order \<Rightarrow> bool" where
  "mass_conserved od \<longleftrightarrow> filled_quantity od \<le> quantity od + qty_eps"

text \<open>The well-formedness an order keeps: as \<open>order_wf\<close>, but the fees may have overflowed.\<close>

definition order_inv :: "order \<Rightarrow> bool" where
  "order_inv od \<longleftrightarrow>
     cl_ord_id od \<noteq> [] \<and> symbol od \<noteq> [] \<and> pos_finite (quantity od) \<and>
     pred_option pos_finite (price od) \<and> pred_option pos_finite (stop_price od) \<and>
     nonneg_finite (filled_quantity od) \<and> nonneg_finite (filled_quote_amount od) \<and>
     nonneg_finite (average_price od) \<and> 0 \<le> fees_paid od \<and>
     0 \<le> created_at_ns od \<and> 0 \<le> updated_at_ns od"

text \<open>When \<open>apply_execution_report\<close> accepts, with the synthesized intermediate state eliminated.\<close>

definition report_accepted :: "order \<Rightarrow> execution_report \<Rightarrow> bool" where
  "report_accepted od r \<longleftrightarrow>
     cl_ord_id od = rep_cl_ord_id r \<and> \<not> is_terminal od \<and>
     \<not> quantity od + qty_eps < cum_quantity r \<and>
     \<not> cum_quantity r < filled_quantity od - qty_eps \<and>
     can_transition (state od) (exec_type r)"

section \<open>Lemmas\<close>

lemma terminal_no_transition: "terminal_state s \<Longrightarrow> \<not> can_transition s t"
  by (cases s) (simp_all add: can_transition_def)

lemma can_transition_new_fill [simp]: "fill_event t \<Longrightarrow> can_transition NEW t"
  by (auto simp: can_transition_def fill_event_def)

lemma can_transition_via_new:
  "\<not> terminal_state s \<Longrightarrow> can_transition (if s = PENDING_NEW \<and> fill_event t then NEW else s) t \<longleftrightarrow>
   can_transition s t"
  by (auto simp: fill_event_def can_transition_def)

lemma apply_execution_report_rejects:
  "\<not> report_accepted od r \<Longrightarrow> \<exists>e. apply_execution_report od r = (od, Inl e) \<and> e \<in> {InvalidInput, InvalidTransition}"
  by (auto simp: apply_execution_report_def report_accepted_def Let_def is_terminal_def)
     (auto simp: can_transition_def fill_event_def)

lemma apply_execution_report_accepts:
  "report_accepted od r \<Longrightarrow> apply_execution_report od r =
     (od\<lparr>filled_quantity := cum_quantity r, filled_quote_amount := cum_quote_amount r,
         average_price := rep_average_price r, fees_paid := fees_paid od + fee r,
         exchange_order_id := (if rep_exchange_order_id r \<noteq> [] then Some (rep_exchange_order_id r)
                               else exchange_order_id od),
         updated_at_ns := timestamp_ns r, state := exec_type r\<rparr>, Inr ())"
  by (auto simp: apply_execution_report_def report_accepted_def Let_def is_terminal_def)

lemma transition_cases:
  assumes "transition now od st ts rep = (od', res)"
  obtains (err) e where "od' = od" "res = Inl e"
  | (rep) r where "exec_type r = st" "apply_execution_report od r = (od', res)"
      "ts = TsReport r \<or> rep = Some r"
  | (plain) t where "\<not> is_terminal od" "can_transition (state od) st" "res = Inr ()"
      "od' = od\<lparr>state := st, updated_at_ns := t\<rparr>" "0 \<le> now \<longrightarrow> 0 \<le> t"
proof -
  show ?thesis
  proof (cases "resolve_timestamp now ts rep")
    case (Inl e)
    with assms err show ?thesis by (auto simp: transition_def)
  next
    case (Inr p)
    obtain t orr where p: "p = (t, orr)" by (cases p)
    show ?thesis
    proof (cases orr)
      case (Some r)
      have "ts = TsReport r \<or> rep = Some r"
        using Inr p Some by (auto simp: resolve_timestamp_def bindR_Inr_iff
            split: timestamp_arg.splits option.splits if_splits)
      with assms Inr p Some err that(2) show ?thesis
        by (auto simp: transition_def split: if_splits)
    next
      case None
      have t: "0 \<le> now \<longrightarrow> 0 \<le> t"
        using Inr p None check_timestamp_nonneg
        by (auto simp: resolve_timestamp_def bindR_Inr_iff
            split: timestamp_arg.splits option.splits if_splits)
      show ?thesis
      proof (cases "is_terminal od \<or> \<not> can_transition (state od) st")
        case True
        then have "od' = od" "\<exists>e. res = Inl e" using assms Inr p None
          by (auto simp: transition_def Let_def is_terminal_def split: if_splits)
             (auto simp: can_transition_def fill_event_def)
        with err show ?thesis by blast
      next
        case False
        with assms Inr p None have "res = Inr ()" "od' = od\<lparr>state := st, updated_at_ns := t\<rparr>"
          by (auto simp: transition_def Let_def split: if_splits)
        with False t plain show ?thesis by blast
      qed
    qed
  qed
qed


section \<open>Properties of single calls\<close>

lemma apply_execution_report_Inl: "apply_execution_report od r = (od', Inl e) \<Longrightarrow> od' = od"
  using apply_execution_report_rejects [of od r] apply_execution_report_accepts [of od r]
  by (cases "report_accepted od r") auto

lemma order_call_Inl: "order_call od ev = (od', Inl e) \<Longrightarrow> od' = od"
  by (cases ev) (auto elim!: transition_cases dest: apply_execution_report_Inl)

lemma apply_execution_report_Inr:
  "apply_execution_report od r = (od', Inr ()) \<Longrightarrow> report_accepted od r"
  using apply_execution_report_rejects [of od r] by (cases "report_accepted od r") auto

lemma order_call_terminal: "is_terminal od \<Longrightarrow> \<exists>e. order_call od ev = (od, Inl e)"
proof -
  assume t: "is_terminal od"
  obtain od' res where c: "order_call od ev = (od', res)" by (cases "order_call od ev")
  have no: "apply_execution_report od r \<noteq> (od', Inr ())" for r
    using t by (auto simp: report_accepted_def dest: apply_execution_report_Inr)
  have "res \<noteq> Inr ()" using c no t by (cases ev) (auto elim!: transition_cases)
  then obtain e where "res = Inl e" by (cases res) auto
  with order_call_Inl c show ?thesis by blast
qed

lemma order_step_can_transition: "order_step od od' \<Longrightarrow> can_transition (state od) (state od')"
proof -
  assume "order_step od od'"
  then obtain ev where c: "order_call od ev = (od', Inr ())" by (rule order_stepE)
  have rep: "can_transition (state od) (state od')" if "apply_execution_report od r = (od', Inr ())" for r
    using that apply_execution_report_Inr [OF that] apply_execution_report_accepts [of od r]
    by (auto simp: report_accepted_def)
  show ?thesis using c by (cases ev) (auto elim!: transition_cases intro: rep)
qed

interpretation fsm: locked_machine order_step is_terminal
proof
  fix s t :: order
  assume "is_terminal s"
  then have "order_call s ev \<noteq> (t, Inr ())" for ev using order_call_terminal [of s ev] by auto
  then show "\<not> order_step s t" by (auto elim: order_stepE)
qed

section \<open>The invariant\<close>

lemma qty_eps_finite: "\<exists>e. qty_eps = Fin e \<and> 0 < e \<and> e \<le> 1"
  unfolding qty_eps_def by (rule flit_power_ten) simp

lemma qty_eps_simps [simp]: "0 < qty_eps" "0 \<le> qty_eps" "isfinite qty_eps" "qty_eps \<noteq> NaN"
  by (metis qty_eps_finite zero_le_float64_simps(3) float_less_imp_le isfinite_simps(1) float64.distinct(5))+

lemma report_accepted_inv:
  assumes "report_accepted od r" and "report_wf r" and "order_inv od"
    and "apply_execution_report od r = (od', res)"
  shows "order_inv od' \<and> mass_conserved od'"
proof -
  have q: "quantity od + qty_eps \<noteq> NaN"
    using assms(3) by (simp add: order_inv_def pos_finite_def)
  have od': "od' = od\<lparr>filled_quantity := cum_quantity r, filled_quote_amount := cum_quote_amount r,
         average_price := rep_average_price r, fees_paid := fees_paid od + fee r,
         exchange_order_id := (if rep_exchange_order_id r \<noteq> [] then Some (rep_exchange_order_id r)
                               else exchange_order_id od),
         updated_at_ns := timestamp_ns r, state := exec_type r\<rparr>"
    using assms(4) apply_execution_report_accepts [OF assms(1)] by simp
  have "cum_quantity r \<le> quantity od + qty_eps"
    using assms(1,2) q float_not_less
    by (auto simp: report_accepted_def report_wf_def nonneg_finite_def)
  then have "mass_conserved od'" by (simp add: od' mass_conserved_def)
  moreover have "order_inv od'"
    using assms(2,3) by (simp add: od' order_inv_def report_wf_def nonneg_finite_def float_add_nonneg)
  ultimately show ?thesis by simp
qed

lemma apply_execution_report_inv:
  assumes "report_wf r" and "order_inv od \<and> mass_conserved od"
    and "apply_execution_report od r = (od', res)"
  shows "order_inv od' \<and> mass_conserved od'"
proof (cases "report_accepted od r")
  case True
  then show ?thesis using assms report_accepted_inv by blast
next
  case False
  then show ?thesis using assms apply_execution_report_rejects [of od r] by auto
qed

lemma order_exec_inv:
  assumes "event_wf ev" and "order_inv od \<and> mass_conserved od"
  shows "order_inv (order_exec od ev) \<and> mass_conserved (order_exec od ev)"
proof (cases ev)
  case (Report r)
  obtain od' res where "apply_execution_report od r = (od', res)"
    by (cases "apply_execution_report od r")
  then show ?thesis using apply_execution_report_inv [of r od od' res] assms Report
    by (simp add: order_exec_def)
next
  case (Transition now st ts rep)
  obtain od' res where c: "transition now od st ts rep = (od', res)"
    by (cases "transition now od st ts rep")
  have "order_inv od' \<and> mass_conserved od'"
    using c
  proof (cases rule: transition_cases)
    case (rep r)
    then have "report_wf r" using assms(1) Transition by (auto simp: ts_wf_def)
    then show ?thesis using rep assms(2) apply_execution_report_inv by blast
  next
    case (plain t)
    then show ?thesis using assms Transition by (simp add: order_inv_def mass_conserved_def)
  qed (use assms in simp)
  then show ?thesis using c Transition by (simp add: order_exec_def)
qed

text \<open>Events as the code meets them: reports are constructed objects, the clock is not negative.\<close>

definition order_exec_wf :: "order \<Rightarrow> order_event \<Rightarrow> order" where
  "order_exec_wf od ev = (if event_wf ev then order_exec od ev else od)"

interpretation fsm_inv: invariant_machine order_exec_wf "\<lambda>od. order_inv od \<and> mass_conserved od"
  by unfold_locales (simp add: order_exec_wf_def order_exec_inv)

section \<open>Properties\<close>

text \<open>A call of \<^verbatim>\<open>transition\<close> or \<^verbatim>\<open>apply_execution_report\<close> that raises leaves the order exactly as
  it was: the intermediate state synthesized for an early fill is never left behind.\<close>

theorem fsm_raise_is_atomic:
  assumes "order_call od ev = (od', Inl e)"
  shows "od' = od"
  using assms by (rule order_call_Inl)

definition sample_order :: order where
  "sample_order =
     \<lparr>cl_ord_id = ''cl-1'', symbol = ''AAPL'', side = BUY, order_type = LIMIT, quantity = Fin 10,
      price = Some (Fin 100), stop_price = None, time_in_force = GTC, state = PENDING_NEW,
      exchange_order_id = None, filled_quantity = Fin 0, filled_quote_amount = Fin 0,
      average_price = Fin 0, fees_paid = Fin 0, created_at_ns = 0, updated_at_ns = 0\<rparr>"

definition sample_report :: "order_state \<Rightarrow> rat \<Rightarrow> execution_report" where
  "sample_report st cum =
     \<lparr>report_id = ''r1'', rep_cl_ord_id = ''cl-1'', rep_exchange_order_id = ''ex-1'',
      rep_symbol = ''AAPL'', rep_side = BUY, exec_type = st, last_quantity = Fin cum,
      last_price = Fin 100, cum_quantity = Fin cum, rep_leaves_quantity = Fin (10 - cum),
      cum_quote_amount = Fin (100 * cum), rep_average_price = Fin 100, fee = Fin 1,
      timestamp_ns = 7, rep_text = []\<rparr>"

lemmas sample_simps = sample_order_def sample_report_def is_terminal_def

theorem fsm_raise_is_atomic_witness:
  "order_call (sample_order\<lparr>state := FILLED\<rparr>) (Report (sample_report CANCELLED 4)) =
     (sample_order\<lparr>state := FILLED\<rparr>, Inl (Gw InvalidStateTransitionException))"
proof -
  let ?od = "sample_order\<lparr>state := FILLED\<rparr>" and ?ev = "Report (sample_report CANCELLED 4)"
  obtain od' where c: "order_call ?od ?ev = (od', Inl (Gw InvalidStateTransitionException))"
    by (simp add: apply_execution_report_def sample_simps)
  with fsm_raise_is_atomic [OF c] show ?thesis by simp
qed

text \<open>Terminal lockout (INV-GW-001): from a filled, cancelled, rejected or expired order no accepted
  step exists, and no sequence of calls, whatever their arguments, changes it.\<close>

theorem fsm_terminal_lockout:
  assumes "is_terminal od"
  shows "foldl order_exec od evs = od \<and> (\<forall>od'. order_step\<^sup>*\<^sup>* od od' \<longrightarrow> od' = od)"
proof
  show "foldl order_exec od evs = od"
  proof -
    have "order_exec od ev = od" for ev using order_call_terminal [OF assms, of ev] by (auto simp: order_exec_def)
    then show ?thesis by (induction evs) simp_all
  qed
  show "\<forall>od'. order_step\<^sup>*\<^sup>* od od' \<longrightarrow> od' = od" using assms fsm.final_forever by blast
qed

theorem fsm_terminal_lockout_witness:
  "foldl order_exec (sample_order\<lparr>state := EXPIRED\<rparr>) [Report (sample_report FILLED 10)] =
     sample_order\<lparr>state := EXPIRED\<rparr>"
  using fsm_terminal_lockout [of "sample_order\<lparr>state := EXPIRED\<rparr>" "[Report (sample_report FILLED 10)]"]
  by (simp add: is_terminal_def)

lemma leaves_difference:
  assumes "order_inv od"
  shows "leaves_quantity od = (if \<not> is_terminal od \<and> filled_quantity od < quantity od then quantity od - filled_quantity od else 0)"
proof -
  obtain q f where e: "quantity od = Fin q" "filled_quantity od = Fin f"
    using assms by (auto simp: order_inv_def nonneg_finite_def pos_finite_def)
  have "0 \<le> rnd64 (q - f)" if "f < q" using that by simp
  moreover have "rnd64 (q - f) \<le> 0" if "\<not> f < q" using that by simp
  ultimately have "py_max 0 (quantity od - filled_quantity od) = (if filled_quantity od < quantity od then quantity od - filled_quantity od else 0)"
    unfolding e by (cases "f < q"; cases "rnd64 (q - f)") (auto simp: py_max_def minus_float64_def zero_float64_def)
  then show ?thesis by (simp add: leaves_quantity_def)
qed



text \<open>Out-of-order reconciliation (INV-GW-004): a fill that arrives before the acknowledgement has the
  same result as the acknowledgement (a transition to NEW) followed by the fill.\<close>

theorem fsm_early_fill_reconciled:
  assumes "state od = PENDING_NEW" and "fill_event (exec_type r)" and "0 \<le> t"
  shows "apply_execution_report od r =
    (case transition now od NEW (TsValue (PInt t)) None of
       (acked, Inr _) \<Rightarrow>
          (case apply_execution_report acked r of (od', Inr u) \<Rightarrow> (od', Inr u) | (_, Inl e) \<Rightarrow> (od, Inl e))
     | (_, Inl e) \<Rightarrow> (od, Inl e))"
proof -
  have t: "transition now od NEW (TsValue (PInt t)) None = (od\<lparr>state := NEW, updated_at_ns := t\<rparr>, Inr ())"
    using assms
    by (simp add: transition_def resolve_timestamp_def check_timestamp_def is_terminal_def fill_event_def
        can_transition_def Let_def)
  have can: "can_transition PENDING_NEW (exec_type r)" "can_transition NEW (exec_type r)"
    using assms(2) by (auto simp: can_transition_def fill_event_def)
  show ?thesis using assms can by (simp add: t apply_execution_report_def is_terminal_def Let_def)
qed

lemma ten_le_ten_eps: "\<not> Fin 10 + qty_eps < Fin 10"
  using float_le_add [of "Fin 10" qty_eps] by (auto simp: float_not_less)

lemma sample_filled_not_regressing: "\<not> Fin 10 < Fin 0 - qty_eps"
proof -
  have "Fin 0 - qty_eps \<le> Fin 0" by (rule float_diff_le_self) (simp_all add: zero_float64_def [symmetric])
  then show ?thesis by (auto dest: float_less_le_trans)
qed

theorem fsm_early_fill_reconciled_witness:
  "snd (apply_execution_report sample_order (sample_report FILLED 10)) = Inr ()"
proof -
  have acked: "transition 9 sample_order NEW (TsValue (PInt 5)) None =
      (sample_order\<lparr>state := NEW, updated_at_ns := 5\<rparr>, Inr ())"
    by (simp add: transition_def resolve_timestamp_def check_timestamp_def sample_simps fill_event_def
        can_transition_def Let_def)
  have "snd (apply_execution_report (sample_order\<lparr>state := NEW, updated_at_ns := 5\<rparr>) (sample_report FILLED 10)) = Inr ()"
    using ten_le_ten_eps sample_filled_not_regressing
    by (simp add: apply_execution_report_def sample_simps can_transition_def Let_def)
  then obtain od' where "apply_execution_report (sample_order\<lparr>state := NEW, updated_at_ns := 5\<rparr>)
      (sample_report FILLED 10) = (od', Inr ())"
    by (cases "apply_execution_report (sample_order\<lparr>state := NEW, updated_at_ns := 5\<rparr>)
          (sample_report FILLED 10)") simp
  moreover have "state sample_order = PENDING_NEW" "fill_event (exec_type (sample_report FILLED 10))"
    by (simp_all add: sample_simps fill_event_def)
  ultimately show ?thesis
    using fsm_early_fill_reconciled [of sample_order "sample_report FILLED 10" 5 9] by (simp add: acked)
qed

text \<open>The life of an order is a path of the transition table: every accepted call moves along an edge.
  PENDING_NEW is never entered again and NEW is entered from PENDING_NEW only, but the table is not
  acyclic, although the module documents a directed acyclic graph: a partially filled order can go to
  PENDING_CANCEL and back.\<close>

theorem fsm_path_and_cycle:
  "(\<forall>od od'. order_step od od' \<longrightarrow> can_transition (state od) (state od')) \<and>
   (\<forall>s. \<not> can_transition s PENDING_NEW) \<and>
   (\<forall>s. can_transition s NEW \<longrightarrow> s = PENDING_NEW) \<and>
   can_transition PARTIALLY_FILLED PENDING_CANCEL \<and> can_transition PENDING_CANCEL PARTIALLY_FILLED \<and>
   \<not> acyclic {(s, t). can_transition s t}"
proof (intro conjI)
  show "\<forall>od od'. order_step od od' \<longrightarrow> can_transition (state od) (state od')"
    using order_step_can_transition by blast
  have "\<not> can_transition s PENDING_NEW" for s by (cases s) (simp_all add: can_transition_def)
  then show "\<forall>s. \<not> can_transition s PENDING_NEW" by blast
  have "can_transition s NEW \<longrightarrow> s = PENDING_NEW" for s by (cases s) (simp_all add: can_transition_def)
  then show "\<forall>s. can_transition s NEW \<longrightarrow> s = PENDING_NEW" by blast
  show pc: "can_transition PARTIALLY_FILLED PENDING_CANCEL" and cp: "can_transition PENDING_CANCEL PARTIALLY_FILLED"
    by (simp_all add: can_transition_def)
  show "\<not> acyclic {(s, t). can_transition s t}"
    using trancl_into_trancl [of PARTIALLY_FILLED PENDING_CANCEL "{(s, t). can_transition s t}" PARTIALLY_FILLED] pc cp
    by (auto simp: acyclic_def)
qed

theorem fsm_path_and_cycle_witness:
  "can_transition PENDING_NEW (state (fst (apply_execution_report sample_order (sample_report FILLED 10))))"
proof -
  obtain od' where c: "apply_execution_report sample_order (sample_report FILLED 10) = (od', Inr ())"
    using ten_le_ten_eps sample_filled_not_regressing
    by (simp add: apply_execution_report_def sample_simps can_transition_def Let_def fill_event_def)
  then have "order_step sample_order od'" by (intro order_step.accepted [of _ "Report (sample_report FILLED 10)"]) simp
  with fsm_path_and_cycle have "can_transition (state sample_order) (state od')" by blast
  then show ?thesis using c by (simp add: sample_order_def)
qed

text \<open>Progress: every state that is not terminal can reach a terminal state along the table, so no
  order is stuck in a live state.\<close>

theorem fsm_terminal_reachable:
  "\<not> terminal_state s \<Longrightarrow> \<exists>t. can_transition\<^sup>+\<^sup>+ s t \<and> terminal_state t"
proof (rule exI [of _ FILLED])
  assume "\<not> terminal_state s"
  then have "can_transition s FILLED" by (cases s) (simp_all add: can_transition_def)
  then show "can_transition\<^sup>+\<^sup>+ s FILLED \<and> terminal_state FILLED" by (simp add: tranclp.r_into_trancl)
qed

theorem fsm_terminal_reachable_witness:
  "\<exists>t. can_transition\<^sup>+\<^sup>+ PENDING_CANCEL t \<and> terminal_state t"
  by (rule fsm_terminal_reachable) simp

end
