(* ===== verification/Idempotency.thy ===== *)
theory Idempotency
  imports Order_Model
begin

text \<open>
  \<^verbatim>\<open>src/src/quant/execution/idempotency.py\<close>: \<^verbatim>\<open>IdempotencyRouter\<close>, the registry of active client
  order ids with a bounded ring of retired ones. An active id is mapped to a reference \<open>'r\<close> to the
  order object. The token function \<^verbatim>\<open>uuid.uuid5(NAMESPACE_QUANT_ORDER, _)\<close> is the parameter \<open>uuid5\<close>
  of \<open>generate_client_order_id\<close>: nothing but its being a function is used.

  Lemmas: the invariant \<open>router_inv\<close> (ring and set agree, no duplicates, never both active and retired,
  ring bounded by the capacity) is kept by every operation, and the ring is exactly the last
  \<open>history_capacity\<close> retired ids (\<open>router_refines_log\<close>). The locale \<open>id_registry\<close> is what a gateway
  relies on.
\<close>

section \<open>State and constructor\<close>

record 'r router =
  history_capacity :: int
  ttl_seconds :: float64
  active_orders :: "(string \<times> 'r) list"
  history_ring :: "string list"
  history_set :: "string set"

definition router_new :: "pyval \<Rightarrow> pyval \<Rightarrow> 'r router res" where
  "router_new capacity ttl =
     bindR (check_int InvalidInput (\<lambda>i. i \<le> 0) capacity) (\<lambda>cap.
     bindR (check_pos InvalidInput ttl) (\<lambda>t.
     Inr \<lparr>history_capacity = cap, ttl_seconds = t, active_orders = [], history_ring = [],
          history_set = {}\<rparr>))"

section \<open>Identifier generation\<close>

text \<open>Decimal text of an int that is not negative; \<^verbatim>\<open>str(i)\<close> raises \<^verbatim>\<open>ValueError\<close> above 4300 digits.\<close>

fun decimal :: "nat \<Rightarrow> string" where
  "decimal n = (if n < 10 then [char_of (48 + n)] else decimal (n div 10) @ [char_of (48 + n mod 10)])"

declare decimal.simps [simp del]

definition max_str_int :: int where
  "max_str_int = 10 ^ 4300"

definition int_str :: "int \<Rightarrow> string res" where
  "int_str i = (if max_str_int \<le> i then Inl (PyErr ValueError) else Inr (decimal (nat i)))"

fun side_value :: "order_side \<Rightarrow> string" where
  "side_value BUY = ''BUY''"
| "side_value SELL = ''SELL''"

definition name_payload :: "string \<Rightarrow> string \<Rightarrow> order_side \<Rightarrow> nat \<Rightarrow> nat \<Rightarrow> string" where
  "name_payload strategy_id sy sd ts nonce =
     strategy_id @ '':'' @ sy @ '':'' @ side_value sd @ '':'' @ decimal ts @ '':'' @ decimal nonce"

definition generate_client_order_id ::
    "(string \<Rightarrow> string) \<Rightarrow> pyval \<Rightarrow> pyval \<Rightarrow> pyval \<Rightarrow> pyval \<Rightarrow> pyval \<Rightarrow> string res" where
  "generate_client_order_id uuid5 strategy_id sy sd timestamp nonce =
     bindR (check_nonblank InvalidInput strategy_id) (\<lambda>st.
     bindR (check_nonblank InvalidInput sy) (\<lambda>s.
     bindR (check_enum order_side_of sd) (\<lambda>d.
     bindR (check_int InvalidInput (\<lambda>i. i < 0) timestamp) (\<lambda>ts.
     bindR (check_int InvalidInput (\<lambda>i. i < 0) nonce) (\<lambda>n.
     bindR (int_str ts) (\<lambda>_.
     bindR (int_str n) (\<lambda>_.
     Inr (''cl-'' @ uuid5 (name_payload st s d (nat ts) (nat n))))))))))"

section \<open>Operations\<close>

definition register_order :: "'r router \<Rightarrow> string \<Rightarrow> 'r \<Rightarrow> 'r router \<times> unit res" where
  "register_order rt cl ref =
     (if dict_has (active_orders rt) cl \<or> cl \<in> history_set rt
      then (rt, Inl (Gw DuplicateOrderException))
      else (rt\<lparr>active_orders := dict_set (active_orders rt) cl ref\<rparr>, Inr ()))"

text \<open>\<^verbatim>\<open>deque(maxlen=cap).append(x)\<close>: a full deque drops its leftmost element.\<close>

definition deque_append :: "int \<Rightarrow> 'a list \<Rightarrow> 'a \<Rightarrow> 'a list" where
  "deque_append cap xs x = (let ys = xs @ [x] in drop (length ys - nat cap) ys)"

definition deregister_order :: "'r router \<Rightarrow> string \<Rightarrow> 'r router \<times> 'r option res" where
  "deregister_order rt cl =
     (if str_strip cl = [] then (rt, Inl InvalidInput)
      else
        case dict_get (active_orders rt) cl of
          None \<Rightarrow> (rt, Inr None)
        | Some ref \<Rightarrow>
            let rt1 = rt\<lparr>active_orders := dict_pop (active_orders rt) cl\<rparr>;
                rt2 = (if history_capacity rt1 \<le> int (length (history_ring rt1))
                       then case history_ring rt1 of
                              [] \<Rightarrow> rt1
                            | evicted_id # rest \<Rightarrow>
                                rt1\<lparr>history_ring := rest, history_set := history_set rt1 - {evicted_id}\<rparr>
                       else rt1)
            in (rt2\<lparr>history_ring := deque_append (history_capacity rt2) (history_ring rt2) cl,
                    history_set := insert cl (history_set rt2)\<rparr>, Inr (Some ref)))"

definition get_active_order :: "'r router \<Rightarrow> string \<Rightarrow> 'r option res" where
  "get_active_order rt cl =
     (if str_strip cl = [] then Inl InvalidInput else Inr (dict_get (active_orders rt) cl))"

definition is_duplicate :: "'r router \<Rightarrow> string \<Rightarrow> bool res" where
  "is_duplicate rt cl =
     (if str_strip cl = [] then Inl InvalidInput
      else Inr (dict_has (active_orders rt) cl \<or> cl \<in> history_set rt))"

definition router_clear :: "'r router \<Rightarrow> 'r router" where
  "router_clear rt = rt\<lparr>active_orders := [], history_ring := [], history_set := {}\<rparr>"

definition active_order_count :: "'r router \<Rightarrow> nat" where
  "active_order_count rt = length (active_orders rt)"

definition history_count :: "'r router \<Rightarrow> nat" where
  "history_count rt = card (history_set rt)"

section \<open>Invariant and runs\<close>

definition router_inv :: "'r router \<Rightarrow> bool" where
  "router_inv rt \<longleftrightarrow>
     0 < history_capacity rt \<and> dict_ok (active_orders rt) \<and> distinct (history_ring rt) \<and>
     history_set rt = set (history_ring rt) \<and>
     int (length (history_ring rt)) \<le> history_capacity rt \<and>
     fst ` set (active_orders rt) \<inter> history_set rt = {}"

datatype 'r router_op = Register string 'r | Deregister string

fun router_exec :: "'r router \<Rightarrow> 'r router_op \<Rightarrow> 'r router" where
  "router_exec rt (Register cl ref) = fst (register_order rt cl ref)"
| "router_exec rt (Deregister cl) = fst (deregister_order rt cl)"

text \<open>The specification: the active ids, and the complete log of retired ids.\<close>

record registry_spec =
  spec_active :: "string set"
  spec_retired :: "string list"

definition last_n :: "nat \<Rightarrow> 'a list \<Rightarrow> 'a list" where
  "last_n n xs = drop (length xs - n) xs"

definition known_id :: "nat \<Rightarrow> registry_spec \<Rightarrow> string \<Rightarrow> bool" where
  "known_id cap sp cl \<longleftrightarrow> cl \<in> spec_active sp \<or> cl \<in> set (last_n cap (spec_retired sp))"

fun spec_exec :: "nat \<Rightarrow> registry_spec \<Rightarrow> 'r router_op \<Rightarrow> registry_spec" where
  "spec_exec cap sp (Register cl ref) =
     (if known_id cap sp cl then sp else sp\<lparr>spec_active := insert cl (spec_active sp)\<rparr>)"
| "spec_exec cap sp (Deregister cl) =
     (if str_strip cl = [] \<or> cl \<notin> spec_active sp then sp
      else sp\<lparr>spec_active := spec_active sp - {cl}, spec_retired := spec_retired sp @ [cl]\<rparr>)"

definition router_abs :: "'r router \<Rightarrow> registry_spec \<Rightarrow> bool" where
  "router_abs rt sp \<longleftrightarrow>
     fst ` set (active_orders rt) = spec_active sp \<and>
     history_ring rt = last_n (nat (history_capacity rt)) (spec_retired sp)"

text \<open>What a client of the registry relies on: an id that was registered is refused from then on,
  also right after it was retired.\<close>

locale id_registry =
  fixes known :: "'s \<Rightarrow> 'k \<Rightarrow> bool"
    and register :: "'s \<Rightarrow> 'k \<Rightarrow> 'v \<Rightarrow> 's \<times> unit res"
    and retire :: "'s \<Rightarrow> 'k \<Rightarrow> 's \<times> 'v option res"
    and I :: "'s \<Rightarrow> bool"
  assumes register_fresh: "register s k v = (s', Inr ()) \<Longrightarrow> \<not> known s k \<and> known s' k"
    and register_dup: "known s k \<Longrightarrow> register s k v = (s, Inl (Gw DuplicateOrderException))"
    and register_I: "I s \<Longrightarrow> I (fst (register s k v))"
    and retire_known: "I s \<Longrightarrow> known s k \<Longrightarrow> known (fst (retire s k)) k"
    and retire_I: "I s \<Longrightarrow> I (fst (retire s k))"
begin

lemma register_once:
  "register s k v = (s1, Inr ()) \<Longrightarrow> register s1 k w = (s1, Inl (Gw DuplicateOrderException))"
  by (rule register_dup) (simp add: register_fresh)

lemma register_after_retire:
  assumes "I s" and "register s k v = (s1, Inr ())" and "retire s1 k = (s2, r)"
  shows "register s2 k w = (s2, Inl (Gw DuplicateOrderException))"
proof -
  have "I s1" using register_I [OF assms(1), of k v] assms(2) by simp
  then have "known s2 k" using retire_known [of s1 k] register_fresh [OF assms(2)] assms(3) by simp
  then show ?thesis by (rule register_dup)
qed

end

section \<open>Lemmas\<close>

lemma deregister_order_hit:
  assumes "router_inv rt" and "str_strip cl \<noteq> []" and "dict_get (active_orders rt) cl = Some ref"
  shows "deregister_order rt cl =
    (rt\<lparr>active_orders := dict_pop (active_orders rt) cl,
        history_ring := last_n (nat (history_capacity rt)) (history_ring rt @ [cl]),
        history_set := set (last_n (nat (history_capacity rt)) (history_ring rt @ [cl]))\<rparr>, Inr (Some ref))"
proof (cases "history_capacity rt \<le> int (length (history_ring rt))")
  case True
  with assms(1) have n: "nat (history_capacity rt) = length (history_ring rt)" and ne: "history_ring rt \<noteq> []"
    by (auto simp: router_inv_def)
  then obtain x xs where ring: "history_ring rt = x # xs" by (cases "history_ring rt") auto
  show ?thesis using assms True n ring
    by (auto simp: deregister_order_def deque_append_def last_n_def Let_def router_inv_def)
next
  case False
  then have "nat (history_capacity rt) \<ge> length (history_ring rt) + 1" by linarith
  then show ?thesis using assms False
    by (simp add: deregister_order_def deque_append_def last_n_def Let_def router_inv_def)
qed

lemma deregister_order_miss:
  "str_strip cl = [] \<or> dict_get (active_orders rt) cl = None \<Longrightarrow> fst (deregister_order rt cl) = rt"
  by (auto simp: deregister_order_def)

lemma last_n_length: "length (last_n n xs) = min n (length xs)"
  by (simp add: last_n_def)

lemma last_n_set: "set (last_n n xs) \<subseteq> set xs"
  by (simp add: last_n_def set_drop_subset)

lemma last_n_distinct: "distinct xs \<Longrightarrow> distinct (last_n n xs)"
  by (simp add: last_n_def)

lemma last_n_snoc: "0 < n \<Longrightarrow> last_n n (xs @ [x]) = last_n (n - 1) xs @ [x]"
  by (simp add: last_n_def)

lemma last_n_last_n_snoc: "0 < n \<Longrightarrow> last_n n (last_n n xs @ [x]) = last_n n (xs @ [x])"
  by (cases "n \<le> length xs") (simp_all add: last_n_def Suc_diff_le)

lemma register_order_inv: "router_inv rt \<Longrightarrow> router_inv (fst (register_order rt cl ref))"
  by (auto simp: register_order_def router_inv_def distinct_update)

lemma deregister_order_inv:
  assumes "router_inv rt"
  shows "router_inv (fst (deregister_order rt cl))"
proof (cases "str_strip cl = [] \<or> dict_get (active_orders rt) cl = None")
  case True
  with assms deregister_order_miss show ?thesis by metis
next
  case False
  then obtain ref where hit: "str_strip cl \<noteq> []" "dict_get (active_orders rt) cl = Some ref" by auto
  let ?ring = "last_n (nat (history_capacity rt)) (history_ring rt @ [cl])"
  have cl: "cl \<notin> set (history_ring rt)"
    using assms hit(2) by (auto simp: router_inv_def dest!: map_of_SomeD)
  have "distinct ?ring" using assms cl by (intro last_n_distinct) (simp add: router_inv_def)
  moreover have "int (length ?ring) \<le> history_capacity rt" using assms by (auto simp: last_n_length router_inv_def)
  moreover have "fst ` set (dict_pop (active_orders rt) cl) \<inter> set ?ring = {}"
    using assms last_n_set [of "nat (history_capacity rt)" "history_ring rt @ [cl]"]
    by (force simp: router_inv_def)
  ultimately show ?thesis using assms
    by (simp add: deregister_order_hit [OF assms hit] router_inv_def distinct_delete)
qed

lemma router_exec_inv: "router_inv rt \<Longrightarrow> router_inv (router_exec rt op)"
  by (cases op) (simp_all add: register_order_inv deregister_order_inv)

interpretation router_machine: invariant_machine router_exec router_inv
  by unfold_locales (rule router_exec_inv)

lemma router_new_inv: "router_new cap ttl = Inr rt \<Longrightarrow> router_inv rt"
  by (auto simp: router_new_def bindR_Inr_iff router_inv_def)

lemma register_order_capacity [simp]: "history_capacity (fst (register_order rt cl ref)) = history_capacity rt"
  by (simp add: register_order_def)

lemma deregister_order_capacity: "history_capacity (fst (deregister_order rt cl)) = history_capacity rt"
  by (simp add: deregister_order_def Let_def split: option.splits list.splits)

lemma router_exec_capacity: "history_capacity (router_exec rt op) = history_capacity rt"
  by (cases op) (simp_all add: deregister_order_capacity)

section \<open>Refinement of the registry specification\<close>

lemma router_abs_step:
  assumes "router_inv rt" and "router_abs rt sp"
  shows "router_abs (router_exec rt op) (spec_exec (nat (history_capacity rt)) sp op)"
proof (cases op)
  case (Register cl ref)
  then show ?thesis using assms
    by (auto simp: router_abs_def register_order_def known_id_def router_inv_def)
next
  case (Deregister cl)
  show ?thesis
  proof (cases "str_strip cl = [] \<or> dict_get (active_orders rt) cl = None")
    case True
    then have "fst (deregister_order rt cl) = rt" by (rule deregister_order_miss)
    moreover have "str_strip cl = [] \<or> cl \<notin> spec_active sp"
      using True assms(2) by (auto simp: router_abs_def map_of_eq_None_iff)
    ultimately show ?thesis using Deregister assms by simp
  next
    case False
    then obtain ref where hit: "str_strip cl \<noteq> []" "dict_get (active_orders rt) cl = Some ref" by auto
    have act: "cl \<in> spec_active sp" using hit(2) assms(2) by (force simp: router_abs_def dest!: map_of_SomeD)
    have pos: "0 < nat (history_capacity rt)" using assms(1) by (simp add: router_inv_def)
    show ?thesis using Deregister assms hit act pos
      by (auto simp: deregister_order_hit [OF assms(1) hit] router_abs_def last_n_last_n_snoc)
  qed
qed

lemma router_abs_run:
  "router_inv rt \<Longrightarrow> router_abs rt sp \<Longrightarrow>
   router_abs (foldl router_exec rt ops) (foldl (spec_exec (nat (history_capacity rt))) sp ops)"
proof (induction ops arbitrary: rt sp)
  case (Cons op ops)
  then show ?case using router_abs_step [OF Cons.prems, of op] router_exec_inv [OF Cons.prems(1), of op]
    router_exec_capacity [of rt op] Cons.IH by fastforce
qed simp

definition router_known :: "'r router \<Rightarrow> string \<Rightarrow> bool" where
  "router_known rt cl \<longleftrightarrow> dict_has (active_orders rt) cl \<or> cl \<in> history_set rt"

lemma deregister_order_known:
  assumes "router_inv rt" and "router_known rt cl"
  shows "router_known (fst (deregister_order rt cl)) cl"
proof (cases "str_strip cl = [] \<or> dict_get (active_orders rt) cl = None")
  case True
  then show ?thesis using assms(2) by (simp only: deregister_order_miss)
next
  case False
  then obtain ref where hit: "str_strip cl \<noteq> []" "dict_get (active_orders rt) cl = Some ref" by auto
  have "0 < nat (history_capacity rt)" using assms(1) by (simp add: router_inv_def)
  then show ?thesis by (simp add: deregister_order_hit [OF assms(1) hit] router_known_def last_n_snoc)
qed

interpretation router_ids: id_registry router_known register_order deregister_order router_inv
proof unfold_locales
  fix s s' :: "'a router" and k :: string and v :: 'a
  assume "register_order s k v = (s', Inr ())"
  then show "\<not> router_known s k \<and> router_known s' k"
    by (auto simp: register_order_def router_known_def split: if_splits)
next
  fix s :: "'a router" and k :: string and v :: 'a
  assume "router_known s k"
  then show "register_order s k v = (s, Inl (Gw DuplicateOrderException))"
    by (simp add: register_order_def router_known_def)
qed (rule register_order_inv deregister_order_inv deregister_order_known; assumption)+

lemma router_abs_known:
  "router_inv rt \<Longrightarrow> router_abs rt sp \<Longrightarrow> router_known rt cl \<longleftrightarrow> known_id (nat (history_capacity rt)) sp cl"
  by (simp add: router_abs_def router_known_def known_id_def router_inv_def)

text \<open>The retirements that happen in a run: the calls of \<^verbatim>\<open>deregister_order\<close> that find an active order.\<close>

fun retirements :: "'r router \<Rightarrow> 'r router_op list \<Rightarrow> nat" where
  "retirements rt [] = 0"
| "retirements rt (op # ops) =
     (case op of
        Deregister cl \<Rightarrow> (case snd (deregister_order rt cl) of Inr (Some _) \<Rightarrow> 1 | _ \<Rightarrow> 0)
      | Register cl ref \<Rightarrow> 0) + retirements (router_exec rt op) ops"

lemma retire_step:
  assumes "router_inv rt" and "router_abs rt sp"
  shows "\<exists>extra. spec_retired (spec_exec cap sp op) = spec_retired sp @ extra \<and> length extra = retirements rt [op] \<and>
    (cl \<notin> spec_active sp \<and> (\<forall>r. op \<noteq> Register cl r) \<longrightarrow> cl \<notin> set extra \<and> cl \<notin> spec_active (spec_exec cap sp op))"
proof (cases op)
  case (Register c ref)
  then show ?thesis by (intro exI [of _ "[]"]) auto
next
  case (Deregister c)
  have act: "c \<in> spec_active sp \<longleftrightarrow> dict_get (active_orders rt) c \<noteq> None"
    using assms(2) by (auto simp: router_abs_def map_of_eq_None_iff)
  show ?thesis
  proof (cases "str_strip c = [] \<or> c \<notin> spec_active sp")
    case True
    then show ?thesis using Deregister act by (intro exI [of _ "[]"]) (auto simp: deregister_order_def)
  next
    case False
    then obtain ref where hit: "str_strip c \<noteq> []" "dict_get (active_orders rt) c = Some ref" using act by auto
    then show ?thesis using Deregister False deregister_order_hit [OF assms(1) hit] by (intro exI [of _ "[c]"]) auto
  qed
qed

lemma retire_run:
  assumes "router_inv rt" and "router_abs rt sp" and "cap = nat (history_capacity rt)"
  shows "\<exists>extra. spec_retired (foldl (spec_exec cap) sp ops) = spec_retired sp @ extra \<and> length extra = retirements rt ops \<and>
    (cl \<notin> spec_active sp \<and> (\<forall>r. Register cl r \<notin> set ops) \<longrightarrow> cl \<notin> set extra \<and> cl \<notin> spec_active (foldl (spec_exec cap) sp ops))"
  using assms
proof (induction ops arbitrary: rt sp)
  case (Cons op ops)
  let ?rt = "router_exec rt op" and ?sp = "spec_exec cap sp op"
  from retire_step [OF Cons.prems(1,2), of cap op cl] obtain e1 where e1: "spec_retired ?sp = spec_retired sp @ e1" "length e1 = retirements rt [op]"
    "cl \<notin> spec_active sp \<and> (\<forall>r. op \<noteq> Register cl r) \<longrightarrow> cl \<notin> set e1 \<and> cl \<notin> spec_active ?sp" by blast
  have "router_inv ?rt" "router_abs ?rt ?sp" "cap = nat (history_capacity ?rt)"
    using router_exec_inv [OF Cons.prems(1)] router_abs_step [OF Cons.prems(1,2)] Cons.prems(3) router_exec_capacity [of rt op] by simp_all
  from Cons.IH [OF this] obtain e2 where e2: "spec_retired (foldl (spec_exec cap) ?sp ops) = spec_retired ?sp @ e2" "length e2 = retirements ?rt ops"
    "cl \<notin> spec_active ?sp \<and> (\<forall>r. Register cl r \<notin> set ops) \<longrightarrow> cl \<notin> set e2 \<and> cl \<notin> spec_active (foldl (spec_exec cap) ?sp ops)" by blast
  have "cl \<notin> spec_active sp \<and> (\<forall>r. Register cl r \<notin> set (op # ops)) \<longrightarrow>
      cl \<notin> set (e1 @ e2) \<and> cl \<notin> spec_active (foldl (spec_exec cap) sp (op # ops))" using e1(3) e2(3) by auto
  moreover have "length (e1 @ e2) = retirements rt (op # ops)" using e1(2) e2(2) by simp
  ultimately show ?case using e1(1) e2(1) by (intro exI [of _ "e1 @ e2"]) simp
qed simp

lemma last_n_window: "length ys < n \<Longrightarrow> x \<in> set (last_n n (xs @ x # ys))"
proof -
  assume "length ys < n"
  then have "last_n n (xs @ x # ys) = drop (length xs + 1 + length ys - n) xs @ x # ys" by (simp add: last_n_def)
  then show ?thesis by simp
qed

lemma last_n_evicted: "x \<notin> set xs \<Longrightarrow> x \<notin> set ys \<Longrightarrow> n \<le> length ys \<Longrightarrow> x \<notin> set (last_n n (xs @ x # ys))"
proof -
  assume *: "x \<notin> set ys" "n \<le> length ys"
  then have "last_n n (xs @ x # ys) = drop (length ys - n) ys" by (simp add: last_n_def Suc_diff_le)
  then show ?thesis using * by (auto dest: in_set_dropD)
qed

section \<open>Decimal text\<close>

definition is_digit :: "char \<Rightarrow> bool" where
  "is_digit c \<longleftrightarrow> (\<exists>d < 10. c = char_of (48 + d :: nat))"

lemma decimal_digits: "list_all is_digit (decimal n)"
proof (induction n rule: decimal.induct)
  case (1 n)
  show ?case
  proof (cases "n < 10")
    case True
    then show ?thesis by (auto simp: decimal.simps [of n] is_digit_def)
  next
    case False
    have "n mod 10 < 10" by simp
    with 1 False show ?thesis by (auto simp: decimal.simps [of n] is_digit_def intro!: exI [of _ "n mod 10"])
  qed
qed

lemma digit_inj: "a < 10 \<Longrightarrow> b < 10 \<Longrightarrow> (char_of (48 + a :: nat) :: char) = char_of (48 + b :: nat) \<longleftrightarrow> a = b"
proof -
  assume "a < 10" "b < 10"
  then have "of_char (char_of (48 + a) :: char) = 48 + a" "of_char (char_of (48 + b) :: char) = 48 + b" by simp_all
  then show ?thesis by (metis add_left_cancel)
qed

lemma colon_not_digit: "\<not> is_digit CHR '':''"
proof
  assume "is_digit CHR '':''"
  then obtain d :: nat where "d < 10" "CHR '':'' = (char_of (48 + d) :: char)" by (auto simp: is_digit_def)
  then have "(of_char CHR '':'' :: nat) = of_char (char_of (48 + d) :: char)" by simp
  with \<open>d < 10\<close> show False by simp
qed

lemma decimal_nonempty: "decimal n \<noteq> []"
  by (subst decimal.simps) simp

lemma decimal_inj: "decimal m = decimal n \<Longrightarrow> m = n"
proof (induction m arbitrary: n rule: decimal.induct)
  case (1 m)
  have big: "10 \<le> k \<Longrightarrow> length (decimal k) \<ge> 2" for k
    using decimal_nonempty [of "k div 10"] by (cases "decimal (k div 10)") (simp_all add: decimal.simps [of k])
  show ?case
  proof (cases "m < 10 \<or> n < 10")
    case True
    then have "m < 10 \<and> n < 10"
      using "1.prems" big [of m] big [of n] by (auto simp: decimal.simps [of m] decimal.simps [of n] split: if_splits)
    then show ?thesis using "1.prems" by (simp add: decimal.simps [of m] decimal.simps [of n] digit_inj)
  next
    case False
    then have "decimal (m div 10) = decimal (n div 10)" and "m mod 10 = n mod 10"
      using "1.prems" by (auto simp: decimal.simps [of m] decimal.simps [of n] digit_inj)
    moreover from this(1) have "m div 10 = n div 10" using "1.IH" [of "n div 10"] False by simp
    ultimately show ?thesis by (metis div_mult_mod_eq)
  qed
qed

lemma split_at_colon:
  "CHR '':'' \<notin> set xs \<Longrightarrow> CHR '':'' \<notin> set ys \<Longrightarrow>
   xs @ CHR '':'' # as = ys @ CHR '':'' # bs \<Longrightarrow> xs = ys \<and> as = bs"
proof (induction xs arbitrary: ys)
  case Nil
  then show ?case by (cases ys) auto
next
  case (Cons x xs)
  then show ?case by (cases ys) auto
qed

lemma decimal_no_colon: "CHR '':'' \<notin> set (decimal n)"
  using decimal_digits [of n] colon_not_digit by (auto simp: list_all_iff)

lemma side_value_simps: "CHR '':'' \<notin> set (side_value sd)" "side_value a = side_value b \<longleftrightarrow> a = b"
  by (cases sd, simp_all) (cases a; cases b; simp)

section \<open>Properties\<close>

definition router0 :: "int \<Rightarrow> nat router" where
  "router0 cap = \<lparr>history_capacity = cap, ttl_seconds = Fin 86400, active_orders = [], history_ring = [],
                  history_set = {}\<rparr>"

lemma router0_inv: "0 < cap \<Longrightarrow> router_inv (router0 cap)"
  by (simp add: router_inv_def router0_def)

text \<open>C18: The router refines the registry specification: from a fresh router, after any sequence of
  registrations and deregistrations, the active ids are those registered and not retired, the ring holds
  exactly the last \<^verbatim>\<open>history_capacity\<close> retired ids, and \<^verbatim>\<open>is_duplicate\<close> answers whether an id is in
  either (INV-GW-002). Time plays no part: \<^verbatim>\<open>ttl_seconds\<close> is stored and never read (\<open>router_ignores_ttl\<close>), although
  the documentation promises that ids expire.\<close>

theorem router_refines_log:
  assumes "router_new cap ttl = Inr rt" and "str_strip cl \<noteq> []"
  shows "let rt' = foldl router_exec rt ops;
             n = nat (history_capacity rt);
             sp = foldl (spec_exec n) \<lparr>spec_active = {}, spec_retired = []\<rparr> ops
         in fst ` set (active_orders rt') = spec_active sp \<and>
            history_ring rt' = last_n n (spec_retired sp) \<and>
            is_duplicate rt' cl = Inr (known_id n sp cl)"
proof -
  let ?rt = "foldl router_exec rt ops" and ?n = "nat (history_capacity rt)"
  let ?sp = "foldl (spec_exec ?n) \<lparr>spec_active = {}, spec_retired = []\<rparr> ops"
  have inv: "router_inv rt" using assms(1) by (rule router_new_inv)
  have "router_abs rt \<lparr>spec_active = {}, spec_retired = []\<rparr>"
    using assms(1) by (auto simp: router_new_def bindR_Inr_iff router_abs_def last_n_def)
  with inv have abs: "router_abs ?rt ?sp" by (rule router_abs_run)
  have cap: "history_capacity (foldl router_exec s os) = history_capacity s" for s os
    by (induction os arbitrary: s) (simp_all add: router_exec_capacity)
  have "router_inv ?rt" using inv by (rule router_machine.run_inv)
  from router_abs_known [OF this abs, of cl] abs assms(2) show ?thesis
    by (simp add: router_abs_def cap is_duplicate_def router_known_def Let_def)
qed

theorem router_refines_log_witness:
  "is_duplicate (foldl router_exec (router0 1)
      [Register ''a'' 0, Deregister ''a'', Register ''b'' 1, Deregister ''b'']) ''a'' = Inr False"
proof -
  have new: "router_new (PInt 1) (PFloat (Fin 86400)) = Inr (router0 1)"
    by (simp add: router_new_def router0_def)
  have str: "str_strip ''a'' \<noteq> []" "str_strip ''b'' \<noteq> []" by (simp_all add: str_strip_def is_space_def)
  show ?thesis
    using router_refines_log [OF new str(1), of "[Register ''a'' 0, Deregister ''a'', Register ''b'' 1, Deregister ''b'']"] str
    by (simp add: router0_def known_id_def last_n_def Let_def)
qed

text \<open>C27: The replay window is exactly \<^verbatim>\<open>history_capacity\<close> retirements long. Once an id is retired, an attempt to register it again raises
  \<^verbatim>\<open>DuplicateOrderException\<close> and changes nothing, as long as fewer than \<^verbatim>\<open>history_capacity\<close> further ids have been retired, whatever else
  was called in between; once that many have been, it is accepted and becomes active again, if it was not registered in between.\<close>

theorem router_replay_window:
  assumes "router_inv rt" and "deregister_order rt cl = (rt1, Inr (Some ref))"
  shows "(int (retirements rt1 ops) < history_capacity rt \<longrightarrow>
      register_order (foldl router_exec rt1 ops) cl r = (foldl router_exec rt1 ops, Inl (Gw DuplicateOrderException))) \<and>
    (history_capacity rt \<le> int (retirements rt1 ops) \<and> (\<forall>r'. Register cl r' \<notin> set ops) \<longrightarrow>
      snd (register_order (foldl router_exec rt1 ops) cl r) = Inr () \<and>
      dict_get (active_orders (fst (register_order (foldl router_exec rt1 ops) cl r))) cl = Some r)"
proof -
  let ?n = "nat (history_capacity rt)" and ?rt = "foldl router_exec rt1 ops"
  have hit: "str_strip cl \<noteq> []" "dict_get (active_orders rt) cl = Some ref"
    using assms(2) by (auto simp: deregister_order_def Let_def split: if_splits option.splits)
  have rt1: "rt1 = fst (deregister_order rt cl)" using assms(2) by simp
  have inv1: "router_inv rt1" using assms(1) by (simp add: rt1 deregister_order_inv)
  have cap1: "history_capacity rt1 = history_capacity rt" by (simp add: rt1 deregister_order_capacity)
  let ?sp = "\<lparr>spec_active = fst ` set (active_orders rt1), spec_retired = history_ring rt @ [cl]\<rparr>"
  have abs1: "router_abs rt1 ?sp" unfolding router_abs_def cap1 by (simp add: rt1 deregister_order_hit [OF assms(1) hit])
  with inv1 have abs: "router_abs ?rt (foldl (spec_exec ?n) ?sp ops)" using router_abs_run [of rt1 ?sp ops] by (simp add: cap1)
  have new: "cl \<notin> spec_active ?sp" "cl \<notin> set (history_ring rt)"
    using assms(1) hit(2) by (auto simp: rt1 deregister_order_hit [OF assms(1) hit] router_inv_def dest!: map_of_SomeD)
  obtain extra where x: "spec_retired (foldl (spec_exec ?n) ?sp ops) = history_ring rt @ cl # extra" "length extra = retirements rt1 ops"
    "(\<forall>r. Register cl r \<notin> set ops) \<longrightarrow> cl \<notin> set extra \<and> cl \<notin> spec_active (foldl (spec_exec ?n) ?sp ops)"
    using retire_run [OF inv1 abs1, of ?n ops cl] new(1) cap1 by auto
  have "history_capacity ?rt = history_capacity rt" using cap1 by (induction ops rule: rev_induct) (simp_all add: router_exec_capacity)
  then have known: "router_known ?rt cl \<longleftrightarrow> known_id ?n (foldl (spec_exec ?n) ?sp ops) cl"
    using router_abs_known [OF router_machine.run_inv [OF inv1] abs] by simp
  have "router_known ?rt cl" if "int (retirements rt1 ops) < history_capacity rt"
    unfolding known using that last_n_window [of extra ?n cl "history_ring rt"] x(2) by (simp add: known_id_def x(1))
  moreover have "\<not> router_known ?rt cl" if "history_capacity rt \<le> int (retirements rt1 ops)" "\<forall>r'. Register cl r' \<notin> set ops"
    unfolding known using that x(2,3) new(2) last_n_evicted [of cl "history_ring rt" extra ?n] by (simp add: known_id_def x(1))
  ultimately show ?thesis using router_ids.register_dup by (auto simp: register_order_def router_known_def)
qed

theorem router_replay_window_witness:
  "snd (register_order (fst (deregister_order (fst (register_order (router0 1) ''a'' 7)) ''a'')) ''a'' 8) = Inl (Gw DuplicateOrderException) \<and>
   snd (register_order (foldl router_exec (fst (deregister_order (fst (register_order (router0 1) ''a'' 7)) ''a'')) [Register ''b'' 9, Deregister ''b'']) ''a'' 8) = Inr ()"
proof -
  have s: "str_strip ''a'' \<noteq> []" "str_strip ''b'' \<noteq> []" by (simp_all add: str_strip_def is_space_def)
  let ?rt = "fst (register_order (router0 1) ''a'' 7)" and ?ops = "[Register ''b'' 9, Deregister ''b'']"
  have inv: "router_inv ?rt" by (intro register_order_inv router0_inv) simp
  have d: "deregister_order ?rt ''a'' = (fst (deregister_order ?rt ''a''), Inr (Some 7))"
    using s by (simp add: deregister_order_def register_order_def router0_def Let_def)
  have "retirements (fst (deregister_order ?rt ''a'')) ?ops = 1" "history_capacity ?rt = 1"
    using s by (simp_all add: deregister_order_def register_order_def router0_def deque_append_def Let_def)
  then show ?thesis using router_replay_window [OF inv d, of "[]" 8] router_replay_window [OF inv d, of ?ops 8] by simp
qed

text \<open>The retention time has no effect: routers that differ only in it answer alike for ever.\<close>

theorem router_ignores_ttl:
  "foldl router_exec (rt\<lparr>ttl_seconds := t\<rparr>) ops = (foldl router_exec rt ops)\<lparr>ttl_seconds := t\<rparr> \<and>
   is_duplicate (rt\<lparr>ttl_seconds := t\<rparr>) cl = is_duplicate rt cl"
proof
  have "router_exec (rt\<lparr>ttl_seconds := t\<rparr>) op = (router_exec rt op)\<lparr>ttl_seconds := t\<rparr>" for rt :: "'a router" and op
    by (cases op) (simp_all add: register_order_def deregister_order_def Let_def split: option.splits list.splits)
  then show "foldl router_exec (rt\<lparr>ttl_seconds := t\<rparr>) ops = (foldl router_exec rt ops)\<lparr>ttl_seconds := t\<rparr>"
    by (induction ops arbitrary: rt) simp_all
qed (simp add: is_duplicate_def)

text \<open>Client order ids are deterministic, and the text they are derived from separates the requests of
  strategies and symbols without a colon. It does not separate all requests: with a colon in the strategy
  id, two different strategy and symbol pairs get the same client order id, whatever the token function.\<close>

theorem client_order_id_payload:
  "(CHR '':'' \<notin> set st \<longrightarrow> CHR '':'' \<notin> set sy \<longrightarrow> CHR '':'' \<notin> set st' \<longrightarrow> CHR '':'' \<notin> set sy' \<longrightarrow>
      name_payload st sy sd ts n = name_payload st' sy' sd' ts' n' \<longrightarrow>
      st = st' \<and> sy = sy' \<and> sd = sd' \<and> ts = ts' \<and> n = n') \<and>
   generate_client_order_id uuid5 (PStr ''a:b'') (PStr ''c'') (PEnum ''OrderSide'' ''BUY'') (PInt 1) (PInt 0) =
   generate_client_order_id uuid5 (PStr ''a'') (PStr ''b:c'') (PEnum ''OrderSide'' ''BUY'') (PInt 1) (PInt 0)"
proof (intro conjI impI)
  assume no: "CHR '':'' \<notin> set st" "CHR '':'' \<notin> set sy" "CHR '':'' \<notin> set st'" "CHR '':'' \<notin> set sy'"
    and eq: "name_payload st sy sd ts n = name_payload st' sy' sd' ts' n'"
  have a: "st = st'" and r1: "sy @ CHR '':'' # side_value sd @ CHR '':'' # decimal ts @ CHR '':'' # decimal n =
      sy' @ CHR '':'' # side_value sd' @ CHR '':'' # decimal ts' @ CHR '':'' # decimal n'"
    using split_at_colon [OF no(1,3)] eq by (simp_all add: name_payload_def)
  have b: "sy = sy'" and r2: "side_value sd @ CHR '':'' # decimal ts @ CHR '':'' # decimal n =
      side_value sd' @ CHR '':'' # decimal ts' @ CHR '':'' # decimal n'"
    using split_at_colon [OF no(2,4) r1] by simp_all
  have c: "sd = sd'" and r3: "decimal ts @ CHR '':'' # decimal n = decimal ts' @ CHR '':'' # decimal n'"
    using split_at_colon [OF _ _ r2] side_value_simps by simp_all
  have "decimal ts = decimal ts'" "decimal n = decimal n'"
    using split_at_colon [OF _ _ r3] decimal_no_colon by simp_all
  then have d: "ts = ts'" "n = n'" using decimal_inj by blast+
  show "st = st'" by (rule a)
  show "sy = sy'" by (rule b)
  show "sd = sd'" by (rule c)
  show "ts = ts'" "n = n'" by (rule d)+
next
  have "str_strip ''a:b'' \<noteq> []" "str_strip ''c'' \<noteq> []" "str_strip ''a'' \<noteq> []" "str_strip ''b:c'' \<noteq> []"
    by (simp_all add: str_strip_def is_space_def)
  then show "generate_client_order_id uuid5 (PStr ''a:b'') (PStr ''c'') (PEnum ''OrderSide'' ''BUY'') (PInt 1) (PInt 0) =
   generate_client_order_id uuid5 (PStr ''a'') (PStr ''b:c'') (PEnum ''OrderSide'' ''BUY'') (PInt 1) (PInt 0)"
    by (simp add: generate_client_order_id_def check_nonblank_def name_payload_def)
qed

theorem client_order_id_payload_witness:
  "name_payload ''s1'' ''AAPL'' BUY 5 0 \<noteq> name_payload ''s1'' ''AAPL'' BUY 5 1"
proof
  assume "name_payload ''s1'' ''AAPL'' BUY 5 0 = name_payload ''s1'' ''AAPL'' BUY 5 1"
  with client_order_id_payload [of "''s1''" "''AAPL''" "''s1''" "''AAPL''" BUY 5 0 BUY 5 1] show False by simp
qed

end
