(* ===== verification/Paper_Gateway.thy ===== *)
theory Paper_Gateway
  imports Order_FSM Idempotency
begin

text \<open>
  \<^verbatim>\<open>src/src/quant/execution/gateway.py\<close>: \<^verbatim>\<open>PaperExecutionGateway\<close>, the simulated broker. Order objects
  are shared between the caller, the gateway's registry and the idempotency router, so they live in a
  \<open>heap\<close> and the dictionaries hold references. The clock (\<^verbatim>\<open>time.time_ns()\<close>) and the random part of a
  report id (\<^verbatim>\<open>uuid.uuid4().hex[:12]\<close>) are the environment \<open>env\<close>, read at the number of the report
  being made.

  The only suspension points are the \<^verbatim>\<open>asyncio.sleep\<close> calls between the guards and the body of
  \<^verbatim>\<open>submit_order\<close> and \<^verbatim>\<open>cancel_order\<close>: each is modelled as a precheck and a commit, and the facts about
  a commit hold for every state, hence also when other coroutines ran during the sleep.

  Lemmas: the gateway invariant \<open>gateway_inv\<close> over any sequence of calls, cash never driven below zero
  by an immediately executed buy, fill prices bounded by the limit, and the registry contract of
  \<open>id_registry\<close> at the level of the gateway.
\<close>

section \<open>State and constructor\<close>

record paper_gateway =
  heap :: "nat \<Rightarrow> order"
  initial_balance :: float64
  cash :: float64
  fee_bps :: float64
  slippage_bps :: float64
  latency_ms :: float64
  router :: "nat router"
  is_connected :: bool
  positions :: "(string \<times> float64) list"
  orders :: "(string \<times> nat) list"
  market_prices :: "(string \<times> float64) list"
  report_counter :: nat

record env =
  now_at :: "nat \<Rightarrow> int"
  uid_at :: "nat \<Rightarrow> string"

definition default_router :: "nat router" where
  "default_router = \<lparr>history_capacity = 10000, ttl_seconds = Fin 86400, active_orders = [],
                     history_ring = [], history_set = {}\<rparr>"

definition gateway_new ::
    "(nat \<Rightarrow> order) \<Rightarrow> pyval \<Rightarrow> pyval \<Rightarrow> pyval \<Rightarrow> pyval \<Rightarrow> nat router option \<Rightarrow> paper_gateway res" where
  "gateway_new h balance fees slippage latency idempotency_router =
     bindR (check_nonneg InvalidInput balance) (\<lambda>b.
     bindR (check_nonneg InvalidInput fees) (\<lambda>f.
     bindR (check_nonneg InvalidInput slippage) (\<lambda>s.
     bindR (check_nonneg InvalidInput latency) (\<lambda>l.
     Inr \<lparr>heap = h, initial_balance = b, cash = b, fee_bps = f, slippage_bps = s, latency_ms = l,
          router = (case idempotency_router of Some r \<Rightarrow> r | None \<Rightarrow> default_router),
          is_connected = False, positions = [], orders = [], market_prices = [],
          report_counter = 0\<rparr>))))"

definition connect :: "paper_gateway \<Rightarrow> paper_gateway" where
  "connect gw = gw\<lparr>is_connected := True\<rparr>"

definition disconnect :: "paper_gateway \<Rightarrow> paper_gateway" where
  "disconnect gw = gw\<lparr>is_connected := False\<rparr>"

section \<open>Prices, fees and bookings\<close>

definition bps :: float64 where
  "bps = flit (1 / 10 ^ 4)"

definition slip_up :: "paper_gateway \<Rightarrow> float64 \<Rightarrow> float64" where
  "slip_up gw px = px * (1 + slippage_bps gw * bps)"

definition slip_down :: "paper_gateway \<Rightarrow> float64 \<Rightarrow> float64" where
  "slip_down gw px = px * (1 - slippage_bps gw * bps)"

definition fee_of :: "paper_gateway \<Rightarrow> float64 \<Rightarrow> float64" where
  "fee_of gw notional = notional * (fee_bps gw * bps)"

text \<open>\<^verbatim>\<open>0.0 if abs(new_pos) < 1e-9 else new_pos\<close>.\<close>

definition snap_position :: "float64 \<Rightarrow> float64" where
  "snap_position new_pos = (if \<bar>new_pos\<bar> < flit (1 / 10 ^ 9) then 0 else new_pos)"

definition book_fill :: "paper_gateway \<Rightarrow> order_side \<Rightarrow> string \<Rightarrow> float64 \<Rightarrow> float64 \<Rightarrow> float64 \<Rightarrow> paper_gateway" where
  "book_fill gw sd sy qty notional fe =
     (let held = dict_get_default (positions gw) sy 0
      in case sd of
           BUY \<Rightarrow> gw\<lparr>cash := cash gw - (notional + fe),
                     positions := dict_set (positions gw) sy (snap_position (py_round 8 (held + qty)))\<rparr>
         | SELL \<Rightarrow> gw\<lparr>cash := cash gw + (notional - fe),
                      positions := dict_set (positions gw) sy (snap_position (py_round 8 (held - qty)))\<rparr>)"

text \<open>The report of the gateway: built through the validating constructor of \<^verbatim>\<open>ExecutionReport\<close>.\<close>

definition side_val :: "order_side \<Rightarrow> pyval" where
  "side_val sd = (case sd of BUY \<Rightarrow> PEnum ''OrderSide'' ''BUY'' | SELL \<Rightarrow> PEnum ''OrderSide'' ''SELL'')"

definition report_id_of :: "env \<Rightarrow> nat \<Rightarrow> string" where
  "report_id_of ev k = ''rep-paper-'' @ uid_at ev k @ ''-'' @ decimal k"

definition make_report ::
    "env \<Rightarrow> nat \<Rightarrow> order \<Rightarrow> pyval \<Rightarrow> string \<Rightarrow> pyval \<Rightarrow> float64 \<Rightarrow> float64 \<Rightarrow> float64 \<Rightarrow> float64 \<Rightarrow> float64 \<Rightarrow>
     float64 \<Rightarrow> float64 \<Rightarrow> string \<Rightarrow> execution_report res" where
  "make_report ev k od ex sy et lq lp cq lv ca avg f txt =
     execution_report_new
       \<lparr>ra_report_id = PStr (report_id_of ev k), ra_cl_ord_id = PStr (cl_ord_id od),
        ra_exchange_order_id = ex, ra_symbol = PStr sy, ra_side = side_val (side od),
        ra_exec_type = et, ra_last_quantity = PFloat lq, ra_last_price = PFloat lp,
        ra_cum_quantity = PFloat cq, ra_leaves_quantity = PFloat lv, ra_cum_quote_amount = PFloat ca,
        ra_average_price = PFloat avg, ra_fee = PFloat f, ra_timestamp_ns = PInt (now_at ev k),
        ra_text = PStr txt\<rparr>"

definition exchange_id_or_default :: "order \<Rightarrow> string" where
  "exchange_id_or_default od =
     (case exchange_order_id od of
        Some ex \<Rightarrow> if ex \<noteq> [] then ex else ''ex-'' @ cl_ord_id od
      | None \<Rightarrow> ''ex-'' @ cl_ord_id od)"

text \<open>Applying a report to the shared order and retiring its id, the common end of a fill and a
  cancellation; either call can raise, and what was done before stays.\<close>

definition apply_and_retire ::
    "paper_gateway \<Rightarrow> nat \<Rightarrow> execution_report \<Rightarrow> paper_gateway \<times> execution_report res" where
  "apply_and_retire gw ref report =
     (case apply_execution_report (heap gw ref) report of
        (od', Inl e) \<Rightarrow> (gw\<lparr>heap := (heap gw)(ref := od')\<rparr>, Inl e)
      | (od', Inr _) \<Rightarrow>
          let gw1 = gw\<lparr>heap := (heap gw)(ref := od')\<rparr>
          in case deregister_order (router gw1) (cl_ord_id od') of
               (rt, Inl e) \<Rightarrow> (gw1\<lparr>router := rt\<rparr>, Inl e)
             | (rt, Inr _) \<Rightarrow> (gw1\<lparr>router := rt\<rparr>, Inr report))"

section \<open>Market prices and resting orders\<close>

definition resting_match :: "order \<Rightarrow> float64 \<Rightarrow> float64 \<Rightarrow> bool" where
  "resting_match od limit_price px \<longleftrightarrow>
     (side od = BUY \<and> px \<le> limit_price) \<or> (side od = SELL \<and> limit_price \<le> px)"

definition fill_resting ::
    "env \<Rightarrow> string \<Rightarrow> float64 \<Rightarrow> paper_gateway \<Rightarrow> nat \<Rightarrow> paper_gateway \<times> execution_report res" where
  "fill_resting ev sy px gw ref =
     (let od = heap gw ref;
          qty = quantity od;
          notional = px * qty;
          fe = fee_of gw notional;
          gw1 = book_fill gw (side od) sy qty notional fe;
          k = Suc (report_counter gw1);
          gw2 = gw1\<lparr>report_counter := k\<rparr>
      in case make_report ev k od (PStr (exchange_id_or_default od)) sy (PEnum ''OrderState'' ''FILLED'')
                qty px qty 0 notional px fe ''Resting limit order matched'' of
           Inl e \<Rightarrow> (gw2, Inl e)
         | Inr report \<Rightarrow> apply_and_retire gw2 ref report)"

text \<open>One turn of the loop over the registered orders: \<open>None\<close> where the turn is skipped.\<close>

definition match_one ::
    "env \<Rightarrow> string \<Rightarrow> float64 \<Rightarrow> paper_gateway \<Rightarrow> nat \<Rightarrow> paper_gateway \<times> execution_report option res" where
  "match_one ev sy px gw ref =
     (let od = heap gw ref
      in if symbol od \<noteq> sy \<or> \<not> is_active od \<or> order_type od \<noteq> LIMIT then (gw, Inr None)
         else case price od of
                None \<Rightarrow> (gw, Inl (PyErr AssertionError))
              | Some lp \<Rightarrow>
                  if \<not> resting_match od lp px then (gw, Inr None)
                  else case fill_resting ev sy px gw ref of
                         (gw', Inl e) \<Rightarrow> (gw', Inl e)
                       | (gw', Inr report) \<Rightarrow> (gw', Inr (Some report)))"

fun match_orders ::
    "env \<Rightarrow> string \<Rightarrow> float64 \<Rightarrow> paper_gateway \<Rightarrow> nat list \<Rightarrow> execution_report list \<Rightarrow>
     paper_gateway \<times> execution_report list res" where
  "match_orders ev sy px gw [] reports = (gw, Inr reports)"
| "match_orders ev sy px gw (ref # refs) reports =
     (case match_one ev sy px gw ref of
        (gw', Inl e) \<Rightarrow> (gw', Inl e)
      | (gw', Inr None) \<Rightarrow> match_orders ev sy px gw' refs reports
      | (gw', Inr (Some report)) \<Rightarrow> match_orders ev sy px gw' refs (reports @ [report]))"

definition set_market_price ::
    "env \<Rightarrow> paper_gateway \<Rightarrow> pyval \<Rightarrow> pyval \<Rightarrow> paper_gateway \<times> execution_report list res" where
  "set_market_price ev gw sy px =
     (case check_nonblank InvalidInput sy of
        Inl e \<Rightarrow> (gw, Inl e)
      | Inr s \<Rightarrow>
          (case check_pos InvalidInput px of
             Inl e \<Rightarrow> (gw, Inl e)
           | Inr flt_price \<Rightarrow>
               let clean = str_strip s;
                   gw1 = gw\<lparr>market_prices := dict_set (market_prices gw) clean flt_price\<rparr>
               in match_orders ev clean flt_price gw1 (map snd (orders gw1)) []))"

section \<open>Order submission\<close>

text \<open>The guards of \<^verbatim>\<open>submit_order\<close> before its suspension point.\<close>

definition submit_precheck :: "paper_gateway \<Rightarrow> nat \<Rightarrow> unit res" where
  "submit_precheck gw ref =
     (let od = heap gw ref
      in if \<not> is_connected gw then Inl (Gw GatewayDisconnectedException)
         else if is_terminal od then Inl InvalidTransition
         else if state od \<noteq> PENDING_NEW then Inl InvalidTransition
         else if order_type od \<noteq> MARKET \<and> order_type od \<noteq> LIMIT then Inl InvalidInput
         else if order_type od = LIMIT \<and> (case price od of None \<Rightarrow> True | Some p \<Rightarrow> p \<le> 0)
              then Inl InvalidInput
         else Inr ())"

text \<open>Undoing a registration before raising \<open>e\<close>: the id is retired, not forgotten.\<close>

definition reject_order :: "paper_gateway \<Rightarrow> string \<Rightarrow> exn \<Rightarrow> paper_gateway \<times> execution_report res" where
  "reject_order gw cl e =
     (case deregister_order (router gw) cl of
        (rt, Inl e') \<Rightarrow> (gw\<lparr>router := rt\<rparr>, Inl e')
      | (rt, Inr _) \<Rightarrow> (gw\<lparr>router := rt, orders := dict_pop (orders gw) cl\<rparr>, Inl e))"

text \<open>The estimated fill price of a buy, the basis of the margin check.\<close>

definition est_fill_price :: "paper_gateway \<Rightarrow> order \<Rightarrow> float64 res" where
  "est_fill_price gw od =
     (if order_type od = MARKET
      then case dict_get (market_prices gw) (symbol od) of
             None \<Rightarrow> Inl InvalidInput
           | Some mkt_price \<Rightarrow> Inr (slip_up gw mkt_price)
      else case price od of
             None \<Rightarrow> Inl (PyErr AssertionError)
           | Some p \<Rightarrow>
               (case dict_get (market_prices gw) (symbol od) of
                  Some mkt_price \<Rightarrow>
                    if mkt_price \<le> p then Inr (py_min p (slip_up gw mkt_price)) else Inr p
                | None \<Rightarrow> Inr p))"

definition required_power :: "paper_gateway \<Rightarrow> order \<Rightarrow> float64 \<Rightarrow> float64" where
  "required_power gw od est = (let est_notional = est * quantity od in est_notional + fee_of gw est_notional)"

definition is_marketable :: "paper_gateway \<Rightarrow> order \<Rightarrow> bool res" where
  "is_marketable gw od =
     (if order_type od = MARKET then Inr True
      else if order_type od = LIMIT
      then case dict_get (market_prices gw) (symbol od) of
             None \<Rightarrow> Inr False
           | Some cur_mkt \<Rightarrow>
               (case price od of
                  None \<Rightarrow> Inl (PyErr AssertionError)
                | Some p \<Rightarrow> Inr ((side od = BUY \<and> cur_mkt \<le> p) \<or> (side od = SELL \<and> p \<le> cur_mkt)))
      else Inr False)"

definition exec_fill_price :: "paper_gateway \<Rightarrow> order \<Rightarrow> float64 \<Rightarrow> float64" where
  "exec_fill_price gw od cur_mkt =
     (case side od of
        BUY \<Rightarrow> (case price od of
                  Some p \<Rightarrow> if order_type od = LIMIT then py_min p (slip_up gw cur_mkt) else slip_up gw cur_mkt
                | None \<Rightarrow> slip_up gw cur_mkt)
      | SELL \<Rightarrow> (case price od of
                  Some p \<Rightarrow> if order_type od = LIMIT then py_max p (slip_down gw cur_mkt) else slip_down gw cur_mkt
                | None \<Rightarrow> slip_down gw cur_mkt))"

definition exchange_id_val :: "order \<Rightarrow> pyval" where
  "exchange_id_val od = (case exchange_order_id od of Some ex \<Rightarrow> PStr ex | None \<Rightarrow> PNone)"

definition execute_now ::
    "env \<Rightarrow> paper_gateway \<Rightarrow> nat \<Rightarrow> float64 \<Rightarrow> paper_gateway \<times> execution_report res" where
  "execute_now ev gw ref cur_mkt =
     (let od = heap gw ref;
          fill_price = exec_fill_price gw od cur_mkt;
          qty = quantity od;
          notional = fill_price * qty;
          fe = fee_of gw notional;
          gw1 = book_fill gw (side od) (symbol od) qty notional fe;
          k = Suc (report_counter gw1);
          gw2 = gw1\<lparr>report_counter := k\<rparr>
      in case make_report ev k od (exchange_id_val od) (symbol od) (PEnum ''OrderState'' ''FILLED'')
                qty fill_price qty 0 notional fill_price fe ''Order filled immediately'' of
           Inl e \<Rightarrow> (gw2, Inl e)
         | Inr report \<Rightarrow> apply_and_retire gw2 ref report)"

definition rest_on_book :: "env \<Rightarrow> paper_gateway \<Rightarrow> nat \<Rightarrow> paper_gateway \<times> execution_report res" where
  "rest_on_book ev gw ref =
     (let od = heap gw ref;
          k = Suc (report_counter gw)
      in (gw\<lparr>report_counter := k\<rparr>,
          make_report ev k od (exchange_id_val od) (symbol od) (PEnum ''OrderState'' ''NEW'')
            0 0 0 (quantity od) 0 0 0 ''Limit order resting on book''))"

text \<open>The margin check: \<open>Inr ()\<close> for a sell and for a buy the cash covers.\<close>

definition margin_check :: "paper_gateway \<Rightarrow> order \<Rightarrow> unit res" where
  "margin_check gw od =
     (if side od = BUY
      then bindR (est_fill_price gw od) (\<lambda>est.
             if cash gw < required_power gw od est then Inl (Gw InsufficientMarginException) else Inr ())
      else Inr ())"

text \<open>The acknowledgement: the transition to NEW and the exchange id.\<close>

definition acknowledge :: "env \<Rightarrow> paper_gateway \<Rightarrow> nat \<Rightarrow> paper_gateway \<times> unit res" where
  "acknowledge ev gw ref =
     (case transition 0 (heap gw ref) NEW (TsValue (PInt (now_at ev (Suc (report_counter gw))))) None of
        (od', Inl e) \<Rightarrow> (gw\<lparr>heap := (heap gw)(ref := od')\<rparr>, Inl e)
      | (od', Inr _) \<Rightarrow>
          (gw\<lparr>heap := (heap gw)(ref :=
             (if exchange_order_id od' = None
              then od'\<lparr>exchange_order_id := Some (''ex-'' @ cl_ord_id od')\<rparr> else od'))\<rparr>, Inr ()))"

definition execute_or_rest :: "env \<Rightarrow> paper_gateway \<Rightarrow> nat \<Rightarrow> paper_gateway \<times> execution_report res" where
  "execute_or_rest ev gw ref =
     (let od = heap gw ref
      in case is_marketable gw od of
           Inl e \<Rightarrow> (gw, Inl e)
         | Inr False \<Rightarrow> rest_on_book ev gw ref
         | Inr True \<Rightarrow>
             (case dict_get (market_prices gw) (symbol od) of
                None \<Rightarrow> reject_order gw (cl_ord_id od) InvalidInput
              | Some cur_mkt \<Rightarrow> execute_now ev gw ref cur_mkt))"

text \<open>\<^verbatim>\<open>submit_order\<close> from its suspension point on. An assertion failure in the margin check leaves
  the registration in place; the other two failures undo it.\<close>

definition submit_commit :: "env \<Rightarrow> paper_gateway \<Rightarrow> nat \<Rightarrow> paper_gateway \<times> execution_report res" where
  "submit_commit ev gw ref =
     (let cl = cl_ord_id (heap gw ref)
      in case register_order (router gw) cl ref of
           (rt, Inl e) \<Rightarrow> (gw\<lparr>router := rt\<rparr>, Inl e)
         | (rt, Inr _) \<Rightarrow>
             let gw1 = gw\<lparr>router := rt, orders := dict_set (orders gw) cl ref\<rparr>
             in case margin_check gw1 (heap gw1 ref) of
                  Inl (PyErr e) \<Rightarrow> (gw1, Inl (PyErr e))
                | Inl e \<Rightarrow> reject_order gw1 cl e
                | Inr _ \<Rightarrow>
                    (case acknowledge ev gw1 ref of
                       (gw2, Inl e) \<Rightarrow> (gw2, Inl e)
                     | (gw2, Inr _) \<Rightarrow> execute_or_rest ev gw2 ref))"

definition submit_order :: "env \<Rightarrow> paper_gateway \<Rightarrow> nat \<Rightarrow> paper_gateway \<times> execution_report res" where
  "submit_order ev gw ref =
     (case submit_precheck gw ref of
        Inl e \<Rightarrow> (gw, Inl e)
      | Inr _ \<Rightarrow> submit_commit ev gw ref)"

section \<open>Cancellation and queries\<close>

definition cancel_precheck :: "paper_gateway \<Rightarrow> pyval \<Rightarrow> string res" where
  "cancel_precheck gw cl =
     (if \<not> is_connected gw then Inl (Gw GatewayDisconnectedException)
      else check_nonblank InvalidInput cl)"

definition cancel_commit :: "env \<Rightarrow> paper_gateway \<Rightarrow> string \<Rightarrow> paper_gateway \<times> execution_report res" where
  "cancel_commit ev gw cl =
     (case dict_get (orders gw) (str_strip cl) of
        None \<Rightarrow> (gw, Inl InvalidInput)
      | Some ref \<Rightarrow>
          let od = heap gw ref
          in if is_terminal od then (gw, Inl InvalidTransition)
             else
               let k = Suc (report_counter gw); gw1 = gw\<lparr>report_counter := k\<rparr>
               in case make_report ev k od (PStr (exchange_id_or_default od)) (symbol od)
                         (PEnum ''OrderState'' ''CANCELLED'') 0 0 (filled_quantity od) 0
                         (filled_quote_amount od) (average_price od) 0 ''Order cancelled by client'' of
                    Inl e \<Rightarrow> (gw1, Inl e)
                  | Inr report \<Rightarrow> apply_and_retire gw1 ref report)"

definition cancel_order :: "env \<Rightarrow> paper_gateway \<Rightarrow> pyval \<Rightarrow> paper_gateway \<times> execution_report res" where
  "cancel_order ev gw cl =
     (case cancel_precheck gw cl of Inl e \<Rightarrow> (gw, Inl e) | Inr c \<Rightarrow> cancel_commit ev gw c)"

definition get_order :: "paper_gateway \<Rightarrow> pyval \<Rightarrow> nat option res" where
  "get_order gw cl =
     bindR (check_nonblank InvalidInput cl) (\<lambda>c. Inr (dict_get (orders gw) (str_strip c)))"

definition get_open_orders :: "paper_gateway \<Rightarrow> nat list" where
  "get_open_orders gw = filter (\<lambda>ref. is_active (heap gw ref)) (map snd (orders gw))"

definition get_account_balance :: "paper_gateway \<Rightarrow> float64 \<times> float64" where
  "get_account_balance gw =
     (cash gw,
      cash gw + py_sum (map (\<lambda>(sy, qty). qty * dict_get_default (market_prices gw) sy 0) (positions gw)))"

section \<open>Invariant\<close>

definition prices_ok :: "paper_gateway \<Rightarrow> bool" where
  "prices_ok gw \<longleftrightarrow> (\<forall>sy px. dict_get (market_prices gw) sy = Some px \<longrightarrow> pos_finite px)"

text \<open>The registry holds constructed orders under their own id, an active id of the router denotes a
  registered order, and every registered order that is not terminal is protected by the router.\<close>

definition registry_ok :: "paper_gateway \<Rightarrow> bool" where
  "registry_ok gw \<longleftrightarrow>
     dict_ok (orders gw) \<and>
     (\<forall>cl ref. dict_get (orders gw) cl = Some ref \<longrightarrow> cl_ord_id (heap gw ref) = cl) \<and>
     (\<forall>cl ref. dict_get (active_orders (router gw)) cl = Some ref \<longrightarrow> dict_get (orders gw) cl = Some ref) \<and>
     (\<forall>cl ref. dict_get (orders gw) cl = Some ref \<longrightarrow> is_active (heap gw ref) \<longrightarrow>
        dict_get (active_orders (router gw)) cl = Some ref)"

definition gateway_inv :: "paper_gateway \<Rightarrow> bool" where
  "gateway_inv gw \<longleftrightarrow>
     (\<forall>ref. order_inv (heap gw ref)) \<and> router_inv (router gw) \<and> registry_ok gw \<and> prices_ok gw \<and>
     nonneg_finite (fee_bps gw) \<and> nonneg_finite (slippage_bps gw)"

datatype gateway_cmd =
  Connect
| Disconnect
| Submit nat
| SubmitCommit nat \<comment> \<open>the resumption of a submission whose guards passed earlier\<close>
| Cancel pyval
| CancelCommit string
| SetPrice pyval pyval

fun gateway_exec :: "env \<Rightarrow> paper_gateway \<Rightarrow> gateway_cmd \<Rightarrow> paper_gateway" where
  "gateway_exec ev gw Connect = connect gw"
| "gateway_exec ev gw Disconnect = disconnect gw"
| "gateway_exec ev gw (Submit ref) = fst (submit_order ev gw ref)"
| "gateway_exec ev gw (SubmitCommit ref) = fst (submit_commit ev gw ref)"
| "gateway_exec ev gw (Cancel cl) = fst (cancel_order ev gw cl)"
| "gateway_exec ev gw (CancelCommit cl) = fst (cancel_commit ev gw cl)"
| "gateway_exec ev gw (SetPrice sy px) = fst (set_market_price ev gw sy px)"

section \<open>Lemmas on reports and bookings\<close>

lemma make_report_InrD:
  assumes "make_report ev k od ex sy et lq lp cq lv ca avg f txt = Inr r"
  shows "report_wf r" "rep_cl_ord_id r = cl_ord_id od" "rep_symbol r = sy" "rep_side r = side od"
    "last_quantity r = lq" "last_price r = lp" "cum_quantity r = cq" "cum_quote_amount r = ca" "fee r = f"
    "order_state_of et = Some (exec_type r)" "isfinite lp" "isfinite ca" "isfinite f"
proof -
  show "report_wf r" using assms unfolding make_report_def by (rule execution_report_new_wf)
  have sd: "order_side_of (side_val d) = Some d" for d
    by (cases d) (simp_all add: side_val_def order_side_of_def)
  from assms show "rep_cl_ord_id r = cl_ord_id od" "rep_symbol r = sy" "rep_side r = side od"
    "last_quantity r = lq" "last_price r = lp" "cum_quantity r = cq" "cum_quote_amount r = ca" "fee r = f"
    "order_state_of et = Some (exec_type r)" "isfinite lp" "isfinite ca" "isfinite f"
    unfolding make_report_def execution_report_new_def
    by (auto simp: bindR_Inr_iff check_enum_def sd split: option.splits
        dest!: check_str_InrD dest: check_number_PFloat_Inr check_nonneg_InrD)
qed

lemma order_inv_apply:
  "report_wf r \<Longrightarrow> order_inv od \<Longrightarrow> order_inv (fst (apply_execution_report od r))"
proof (cases "report_accepted od r")
  case True
  assume "report_wf r" "order_inv od"
  with True show ?thesis using report_accepted_inv [of od r] by (cases "apply_execution_report od r") auto
next
  case False
  assume "order_inv od"
  then show ?thesis using apply_execution_report_rejects [OF False] by auto
qed

lemma apply_execution_report_frame:
  "cl_ord_id (fst (apply_execution_report od r)) = cl_ord_id od"
  "symbol (fst (apply_execution_report od r)) = symbol od"
  "side (fst (apply_execution_report od r)) = side od"
  "quantity (fst (apply_execution_report od r)) = quantity od"
  "price (fst (apply_execution_report od r)) = price od"
  "order_type (fst (apply_execution_report od r)) = order_type od"
  by (simp_all add: apply_execution_report_def Let_def)

lemma book_fill_frame [simp]:
  "heap (book_fill gw sd sy q n f) = heap gw" "router (book_fill gw sd sy q n f) = router gw"
  "orders (book_fill gw sd sy q n f) = orders gw" "market_prices (book_fill gw sd sy q n f) = market_prices gw"
  "fee_bps (book_fill gw sd sy q n f) = fee_bps gw" "slippage_bps (book_fill gw sd sy q n f) = slippage_bps gw"
  "report_counter (book_fill gw sd sy q n f) = report_counter gw"
  "is_connected (book_fill gw sd sy q n f) = is_connected gw"
  by (simp_all add: book_fill_def Let_def split: order_side.splits)

lemma gateway_inv_cong:
  "heap gw' = heap gw \<Longrightarrow> router gw' = router gw \<Longrightarrow> orders gw' = orders gw \<Longrightarrow>
   market_prices gw' = market_prices gw \<Longrightarrow> fee_bps gw' = fee_bps gw \<Longrightarrow> slippage_bps gw' = slippage_bps gw \<Longrightarrow>
   gateway_inv gw' = gateway_inv gw"
  by (simp add: gateway_inv_def registry_ok_def prices_ok_def)

lemma registry_okI:
  assumes "dict_ok (orders gw)"
    and "\<And>cl ref. dict_get (orders gw) cl = Some ref \<Longrightarrow> cl_ord_id (heap gw ref) = cl"
    and "\<And>cl ref. dict_get (active_orders (router gw)) cl = Some ref \<Longrightarrow> dict_get (orders gw) cl = Some ref"
    and "\<And>cl ref. dict_get (orders gw) cl = Some ref \<Longrightarrow> is_active (heap gw ref) \<Longrightarrow>
           dict_get (active_orders (router gw)) cl = Some ref"
  shows "registry_ok gw"
  unfolding registry_ok_def using assms by blast

lemma registry_okD:
  assumes "registry_ok gw"
  shows registry_keys: "dict_ok (orders gw)"
    and registry_own_id: "\<And>cl ref. dict_get (orders gw) cl = Some ref \<Longrightarrow> cl_ord_id (heap gw ref) = cl"
    and registry_active: "\<And>cl ref. dict_get (active_orders (router gw)) cl = Some ref \<Longrightarrow>
           dict_get (orders gw) cl = Some ref"
    and registry_live: "\<And>cl ref. dict_get (orders gw) cl = Some ref \<Longrightarrow> is_active (heap gw ref) \<Longrightarrow>
           dict_get (active_orders (router gw)) cl = Some ref"
  using assms unfolding registry_ok_def by blast+

text \<open>Writing back an order that kept its id and was not revived keeps the invariant.\<close>

lemma gateway_inv_heap:
  assumes "gateway_inv gw" and "order_inv od'" and "cl_ord_id od' = cl_ord_id (heap gw ref)"
    and "is_active od' \<Longrightarrow> is_active (heap gw ref)"
  shows "gateway_inv (gw\<lparr>heap := (heap gw)(ref := od')\<rparr>)"
proof -
  have reg: "registry_ok gw" using assms(1) by (simp add: gateway_inv_def)
  have "registry_ok (gw\<lparr>heap := (heap gw)(ref := od')\<rparr>)"
  proof (rule registry_okI; simp)
    fix cl r
    assume o: "dict_get (orders gw) cl = Some r"
    show "(r = ref \<longrightarrow> cl_ord_id od' = cl) \<and> (r \<noteq> ref \<longrightarrow> cl_ord_id (heap gw r) = cl)"
      using registry_own_id [OF reg o] assms(3) by auto
    assume "is_active (if r = ref then od' else heap gw r)"
    then have "is_active (heap gw r)" using assms(4) by (cases "r = ref") simp_all
    then show "dict_get (active_orders (router gw)) cl = Some r" by (rule registry_live [OF reg o])
  qed (rule registry_keys [OF reg], rule registry_active [OF reg], assumption)
  then show ?thesis using assms(1,2) by (simp add: gateway_inv_def prices_ok_def)
qed

lemma apply_not_revived: "is_active (fst (apply_execution_report od r)) \<Longrightarrow> is_active od"
  using apply_execution_report_rejects [of od r]
  by (cases "report_accepted od r")
     (auto simp: report_accepted_def is_active_def is_terminal_def active_iff_not_terminal)

lemma deregister_order_active:
  assumes "router_inv rt"
  shows "dict_get (active_orders (fst (deregister_order rt cl))) c =
    (if c = cl \<and> str_strip cl \<noteq> [] then None else dict_get (active_orders rt) c)"
proof (cases "str_strip cl = [] \<or> dict_get (active_orders rt) cl = None")
  case True
  then have "fst (deregister_order rt cl) = rt" by (rule deregister_order_miss)
  with True show ?thesis by auto
next
  case False
  then obtain ref where hit: "str_strip cl \<noteq> []" "dict_get (active_orders rt) cl = Some ref" by auto
  then show ?thesis by (simp add: deregister_order_hit [OF assms hit])
qed

text \<open>Retiring the id of an order that is terminal keeps the invariant.\<close>

lemma gateway_inv_retire:
  assumes "gateway_inv gw" and "\<And>ref. dict_get (orders gw) cl = Some ref \<Longrightarrow> \<not> is_active (heap gw ref)"
  shows "gateway_inv (gw\<lparr>router := fst (deregister_order (router gw) cl)\<rparr>)"
proof -
  have rt: "router_inv (router gw)" and reg: "registry_ok gw" using assms(1) by (simp_all add: gateway_inv_def)
  have "registry_ok (gw\<lparr>router := fst (deregister_order (router gw) cl)\<rparr>)"
  proof (rule registry_okI, goal_cases)
    case 1
    then show ?case using registry_keys [OF reg] by simp
  next
    case (2 c r)
    then show ?case using registry_own_id [OF reg] by simp
  next
    case (3 c r)
    then have "dict_get (active_orders (router gw)) c = Some r"
      by (simp add: deregister_order_active [OF rt] split: if_splits)
    then show ?case using registry_active [OF reg] by simp
  next
    case (4 c r)
    then have o: "dict_get (orders gw) c = Some r" and l: "is_active (heap gw r)" by simp_all
    with assms(2) have "c \<noteq> cl" by blast
    then show ?case using registry_live [OF reg o l] by (simp add: deregister_order_active [OF rt])
  qed
  then show ?thesis using assms(1) rt by (simp add: gateway_inv_def deregister_order_inv prices_ok_def)
qed

lemma apply_and_retire_inv:
  assumes "gateway_inv gw" and "report_wf r" and "terminal_state (exec_type r)"
    and "\<And>r'. dict_get (orders gw) (cl_ord_id (heap gw ref)) = Some r' \<Longrightarrow> r' = ref"
  shows "gateway_inv (fst (apply_and_retire gw ref r))"
proof -
  let ?od = "fst (apply_execution_report (heap gw ref) r)"
  let ?gw = "gw\<lparr>heap := (heap gw)(ref := ?od)\<rparr>"
  have inv: "gateway_inv ?gw"
    using assms(1,2) by (intro gateway_inv_heap)
      (auto simp: apply_execution_report_frame order_inv_apply gateway_inv_def dest: apply_not_revived)
  show ?thesis
  proof (cases "snd (apply_execution_report (heap gw ref) r)")
    case (Inl e)
    then show ?thesis using inv by (cases "apply_execution_report (heap gw ref) r") (simp add: apply_and_retire_def)
  next
    case (Inr u)
    then have acc: "report_accepted (heap gw ref) r"
      using apply_execution_report_rejects [of "heap gw ref" r] by fastforce
    then have "\<not> is_active ?od"
      using assms(3) by (simp add: apply_execution_report_accepts is_active_def active_iff_not_terminal)
    then have "gateway_inv (?gw\<lparr>router := fst (deregister_order (router ?gw) (cl_ord_id ?od))\<rparr>)"
      using assms(4) by (intro gateway_inv_retire [OF inv]) (auto simp: apply_execution_report_frame)
    then show ?thesis using Inr
      by (auto simp: apply_and_retire_def Let_def split: prod.splits sum.splits)
  qed
qed

section \<open>Every call keeps the invariant\<close>

definition registered :: "paper_gateway \<Rightarrow> nat \<Rightarrow> bool" where
  "registered gw ref \<longleftrightarrow> (\<exists>cl. dict_get (orders gw) cl = Some ref)"

lemma registered_get:
  "gateway_inv gw \<Longrightarrow> registered gw ref \<Longrightarrow> dict_get (orders gw) (cl_ord_id (heap gw ref)) = Some ref"
  unfolding registered_def gateway_inv_def using registry_own_id by metis

lemma order_state_of_simps [simp]:
  "order_state_of (PEnum ''OrderState'' ''FILLED'') = Some FILLED"
  "order_state_of (PEnum ''OrderState'' ''NEW'') = Some NEW"
  "order_state_of (PEnum ''OrderState'' ''CANCELLED'') = Some CANCELLED"
  by (simp_all add: order_state_of_def)

lemma apply_and_retire_orders [simp]:
  "orders (fst (apply_and_retire gw ref r)) = orders gw"
  "market_prices (fst (apply_and_retire gw ref r)) = market_prices gw"
  "cash (fst (apply_and_retire gw ref r)) = cash gw"
  "positions (fst (apply_and_retire gw ref r)) = positions gw"
  "fee_bps (fst (apply_and_retire gw ref r)) = fee_bps gw"
  "slippage_bps (fst (apply_and_retire gw ref r)) = slippage_bps gw"
  by (simp_all add: apply_and_retire_def Let_def split: prod.splits sum.splits)

lemma fill_resting_inv:
  assumes "gateway_inv gw" and "registered gw ref"
  shows "gateway_inv (fst (fill_resting ev sy px gw ref))"
proof -
  let ?od = "heap gw ref"
  let ?n = "px * quantity ?od"
  let ?gw = "(book_fill gw (side ?od) sy (quantity ?od) ?n (fee_of gw ?n))\<lparr>report_counter := Suc (report_counter gw)\<rparr>"
  have inv: "gateway_inv ?gw" using assms(1) by (subst gateway_inv_cong [of _ gw]) simp_all
  let ?m = "make_report ev (Suc (report_counter gw)) ?od (PStr (exchange_id_or_default ?od)) sy
      (PEnum ''OrderState'' ''FILLED'') (quantity ?od) px (quantity ?od) 0 ?n px (fee_of gw ?n) ''Resting limit order matched''"
  show ?thesis
  proof (cases ?m)
    case (Inl e)
    then show ?thesis using inv by (simp add: fill_resting_def Let_def)
  next
    case (Inr r)
    have "exec_type r = FILLED" using make_report_InrD(10) [OF Inr] by simp
    then have "gateway_inv (fst (apply_and_retire ?gw ref r))"
      using registered_get [OF assms] make_report_InrD(1) [OF Inr]
      by (intro apply_and_retire_inv inv) auto
    then show ?thesis using Inr by (simp add: fill_resting_def Let_def)
  qed
qed

lemma fill_resting_orders [simp]: "orders (fst (fill_resting ev sy px gw ref)) = orders gw"
  by (simp add: fill_resting_def Let_def split: sum.splits)

lemma match_one_orders [simp]: "orders (fst (match_one ev sy px gw ref)) = orders gw"
proof -
  obtain gw' res where f: "fill_resting ev sy px gw ref = (gw', res)" by (cases "fill_resting ev sy px gw ref")
  moreover have "orders gw' = orders gw" using fill_resting_orders [of ev sy px gw ref] f by simp
  ultimately show ?thesis by (simp add: match_one_def Let_def split: option.splits sum.splits)
qed

lemma match_one_inv:
  assumes "gateway_inv gw" and "registered gw ref"
  shows "gateway_inv (fst (match_one ev sy px gw ref))"
proof -
  obtain gw' res where f: "fill_resting ev sy px gw ref = (gw', res)" by (cases "fill_resting ev sy px gw ref")
  moreover have "gateway_inv gw'" using fill_resting_inv [OF assms, of ev sy px] f by simp
  ultimately show ?thesis using assms(1) by (simp add: match_one_def Let_def split: option.splits sum.splits)
qed

lemma match_orders_inv:
  "gateway_inv gw \<Longrightarrow> \<forall>ref \<in> set refs. registered gw ref \<Longrightarrow>
   gateway_inv (fst (match_orders ev sy px gw refs reps)) \<and>
   orders (fst (match_orders ev sy px gw refs reps)) = orders gw"
proof (induction refs arbitrary: gw reps)
  case (Cons ref refs)
  obtain gw' res where m: "match_one ev sy px gw ref = (gw', res)" by (cases "match_one ev sy px gw ref")
  have inv: "gateway_inv gw'" and o: "orders gw' = orders gw"
    using match_one_inv [OF Cons.prems(1), of ref ev sy px] match_one_orders [of ev sy px gw ref] Cons.prems(2) m by auto
  have reg: "\<forall>r \<in> set refs. registered gw' r" using Cons.prems(2) o by (simp add: registered_def)
  show ?case using Cons.IH [OF inv reg] m o inv by (auto split: sum.splits option.splits)
qed simp

lemma set_market_price_inv:
  assumes "gateway_inv gw"
  shows "gateway_inv (fst (set_market_price ev gw sy px))"
proof (cases "check_nonblank InvalidInput sy")
  case (Inr s)
  show ?thesis
  proof (cases "check_pos InvalidInput px")
    case px: (Inr p)
    let ?gw = "gw\<lparr>market_prices := dict_set (market_prices gw) (str_strip s) p\<rparr>"
    have "pos_finite p" using px by (rule check_pos_finite)
    then have "prices_ok ?gw" using assms by (simp add: gateway_inv_def prices_ok_def)
    moreover have "registry_ok ?gw = registry_ok gw" by (simp add: registry_ok_def)
    ultimately have inv: "gateway_inv ?gw" using assms by (simp add: gateway_inv_def)
    have "dict_ok (orders gw)" using assms registry_keys by (simp add: gateway_inv_def)
    then have "\<forall>ref \<in> set (map snd (orders ?gw)). registered ?gw ref"
      by (force simp: registered_def)
    with match_orders_inv [OF inv] show ?thesis using Inr px by (simp add: set_market_price_def Let_def)
  qed (use Inr assms in \<open>simp add: set_market_price_def\<close>)
qed (use assms in \<open>simp add: set_market_price_def\<close>)

text \<open>Undoing a registration keeps the invariant; so does making one for a fresh id.\<close>

lemma reject_order_inv:
  assumes "gateway_inv gw"
  shows "gateway_inv (fst (reject_order gw cl e))"
proof -
  have rt: "router_inv (router gw)" and reg: "registry_ok gw" using assms by (simp_all add: gateway_inv_def)
  let ?rt = "fst (deregister_order (router gw) cl)"
  consider "str_strip cl = []" | "str_strip cl \<noteq> []" by blast
  then show ?thesis
  proof cases
    case 1
    then have "reject_order gw cl e = (gw, Inl InvalidInput)" by (simp add: reject_order_def deregister_order_def)
    then show ?thesis using assms by simp
  next
    case 2
    let ?gw = "gw\<lparr>router := ?rt, orders := dict_pop (orders gw) cl\<rparr>"
    have "registry_ok ?gw"
    proof (rule registry_okI, goal_cases)
      case 1
      then show ?case using registry_keys [OF reg] by (simp add: distinct_delete)
    next
      case (2 c r)
      then show ?case using registry_own_id [OF reg] by (simp split: if_splits)
    next
      case (3 c r)
      then show ?case using 2 registry_active [OF reg]
        by (simp add: deregister_order_active [OF rt] split: if_splits)
    next
      case (4 c r)
      then show ?case using 2 registry_live [OF reg]
        by (simp add: deregister_order_active [OF rt] split: if_splits)
    qed
    then have "gateway_inv ?gw" using assms rt by (simp add: gateway_inv_def deregister_order_inv prices_ok_def)
    moreover have "reject_order gw cl e = (?gw, Inl e)"
      using 2 by (cases "deregister_order (router gw) cl")
        (auto simp: reject_order_def deregister_order_def Let_def split: option.splits)
    ultimately show ?thesis by simp
  qed
qed

lemma register_inv:
  assumes "gateway_inv gw" and "register_order (router gw) (cl_ord_id (heap gw ref)) ref = (rt, Inr ())"
  shows "gateway_inv (gw\<lparr>router := rt, orders := dict_set (orders gw) (cl_ord_id (heap gw ref)) ref\<rparr>)"
proof -
  let ?cl = "cl_ord_id (heap gw ref)"
  have rt0: "router_inv (router gw)" and reg: "registry_ok gw" using assms(1) by (simp_all add: gateway_inv_def)
  have rt: "rt = (router gw)\<lparr>active_orders := dict_set (active_orders (router gw)) ?cl ref\<rparr>"
    using assms(2) by (simp add: register_order_def split: if_splits)
  have inv: "router_inv rt" using register_order_inv [OF rt0, of ?cl ref] assms(2) by simp
  have "registry_ok (gw\<lparr>router := rt, orders := dict_set (orders gw) ?cl ref\<rparr>)"
  proof (rule registry_okI, goal_cases)
    case 1
    then show ?case using registry_keys [OF reg] by (simp add: distinct_update)
  next
    case (2 c r)
    then show ?case using registry_own_id [OF reg] by (simp split: if_splits)
  next
    case (3 c r)
    then show ?case using registry_active [OF reg] by (simp add: rt split: if_splits)
  next
    case (4 c r)
    then show ?case using registry_live [OF reg] by (simp add: rt split: if_splits)
  qed
  then show ?thesis using assms(1) inv by (simp add: gateway_inv_def prices_ok_def)
qed

lemma acknowledge_cases:
  assumes "acknowledge ev gw ref = (gw', res)"
  obtains (err) e where "res = Inl e" "gw' = gw"
  | (ok) t ex where "res = Inr ()" "state (heap gw ref) = PENDING_NEW" "0 \<le> t"
      "gw' = gw\<lparr>heap := (heap gw)(ref := (heap gw ref)\<lparr>state := NEW, updated_at_ns := t, exchange_order_id := Some ex\<rparr>)\<rparr>"
proof -
  let ?od = "heap gw ref"
  obtain od' r where tr: "transition 0 ?od NEW (TsValue (PInt (now_at ev (Suc (report_counter gw))))) None = (od', r)"
    by (cases "transition 0 ?od NEW (TsValue (PInt (now_at ev (Suc (report_counter gw))))) None")
  from tr show ?thesis
  proof (cases rule: transition_cases)
    case (err e)
    with tr assms that(1) show ?thesis by (auto simp: acknowledge_def)
  next
    case (plain t)
    have s: "state ?od = PENDING_NEW" using plain(2) by (cases "state ?od") (simp_all add: can_transition_def)
    have "exchange_order_id od' = exchange_order_id ?od" using plain by simp
    with tr assms plain s show ?thesis
      using that(2) [of t "''ex-'' @ cl_ord_id ?od"] that(2) [of t "the (exchange_order_id ?od)"]
      by (auto simp: acknowledge_def split: if_splits)
  qed simp
qed

lemma acknowledge_inv:
  assumes "gateway_inv gw" and "acknowledge ev gw ref = (gw', res)"
  shows "gateway_inv gw'"
  using assms(2)
proof (cases rule: acknowledge_cases)
  case (ok t ex)
  have "order_inv (heap gw ref)" using assms(1) by (simp add: gateway_inv_def)
  then show ?thesis unfolding ok(4) using ok(2,3)
    by (intro gateway_inv_heap assms(1)) (simp_all add: order_inv_def is_active_def)
qed (use assms in simp)

lemma execute_now_inv:
  assumes "gateway_inv gw" and "registered gw ref"
  shows "gateway_inv (fst (execute_now ev gw ref m))"
proof -
  let ?od = "heap gw ref"
  let ?px = "exec_fill_price gw ?od m"
  let ?n = "?px * quantity ?od"
  let ?gw = "(book_fill gw (side ?od) (symbol ?od) (quantity ?od) ?n (fee_of gw ?n))\<lparr>report_counter := Suc (report_counter gw)\<rparr>"
  have inv: "gateway_inv ?gw" using assms(1) by (subst gateway_inv_cong [of _ gw]) simp_all
  let ?m = "make_report ev (Suc (report_counter gw)) ?od (exchange_id_val ?od) (symbol ?od)
      (PEnum ''OrderState'' ''FILLED'') (quantity ?od) ?px (quantity ?od) 0 ?n ?px (fee_of gw ?n) ''Order filled immediately''"
  show ?thesis
  proof (cases ?m)
    case (Inl e)
    then show ?thesis using inv by (simp add: execute_now_def Let_def)
  next
    case (Inr r)
    have "exec_type r = FILLED" using make_report_InrD(10) [OF Inr] by simp
    then have "gateway_inv (fst (apply_and_retire ?gw ref r))"
      using registered_get [OF assms] make_report_InrD(1) [OF Inr]
      by (intro apply_and_retire_inv inv) auto
    then show ?thesis using Inr by (simp add: execute_now_def Let_def)
  qed
qed

lemma execute_or_rest_inv:
  assumes "gateway_inv gw" and "registered gw ref"
  shows "gateway_inv (fst (execute_or_rest ev gw ref))"
proof -
  have "gateway_inv (fst (rest_on_book ev gw ref))"
    using assms(1) by (simp add: rest_on_book_def Let_def gateway_inv_cong [of "gw\<lparr>report_counter := _\<rparr>" gw])
  moreover note execute_now_inv [OF assms] reject_order_inv [OF assms(1)]
  ultimately show ?thesis using assms(1)
    by (simp add: execute_or_rest_def Let_def split: sum.splits bool.splits option.splits)
qed

lemma submit_commit_inv:
  assumes "gateway_inv gw"
  shows "gateway_inv (fst (submit_commit ev gw ref))"
proof -
  let ?cl = "cl_ord_id (heap gw ref)"
  obtain rt res where r: "register_order (router gw) ?cl ref = (rt, res)"
    by (cases "register_order (router gw) ?cl ref")
  show ?thesis
  proof (cases res)
    case (Inl e)
    then have "rt = router gw" using r by (simp add: register_order_def split: if_splits)
    then show ?thesis using assms r Inl by (simp add: submit_commit_def Let_def gateway_inv_cong [of "gw\<lparr>router := _\<rparr>" gw])
  next
    case (Inr u)
    let ?gw1 = "gw\<lparr>router := rt, orders := dict_set (orders gw) ?cl ref\<rparr>"
    have inv1: "gateway_inv ?gw1" using register_inv [OF assms] r Inr by simp
    obtain gw2 a where ack: "acknowledge ev ?gw1 ref = (gw2, a)" by (cases "acknowledge ev ?gw1 ref")
    have inv2: "gateway_inv gw2" using inv1 ack by (rule acknowledge_inv)
    have "orders gw2 = orders ?gw1" using ack by (cases rule: acknowledge_cases) simp_all
    then have "registered gw2 ref" by (auto simp: registered_def)
    with inv2 have inv3: "gateway_inv (fst (execute_or_rest ev gw2 ref))" by (rule execute_or_rest_inv)
    show ?thesis using r Inr ack inv1 inv2 inv3 reject_order_inv [OF inv1]
      by (simp add: submit_commit_def Let_def split: sum.splits exn.splits)
  qed
qed

lemma cancel_commit_inv:
  assumes "gateway_inv gw"
  shows "gateway_inv (fst (cancel_commit ev gw cl))"
proof (cases "dict_get (orders gw) (str_strip cl)")
  case (Some ref)
  let ?od = "heap gw ref" and ?gw = "gw\<lparr>report_counter := Suc (report_counter gw)\<rparr>"
  let ?m = "make_report ev (Suc (report_counter gw)) ?od (PStr (exchange_id_or_default ?od)) (symbol ?od)
      (PEnum ''OrderState'' ''CANCELLED'') 0 0 (filled_quantity ?od) 0 (filled_quote_amount ?od) (average_price ?od) 0
      ''Order cancelled by client''"
  have inv: "gateway_inv ?gw" using assms by (subst gateway_inv_cong [of _ gw]) simp_all
  have reg: "registered gw ref" using Some by (auto simp: registered_def)
  show ?thesis
  proof (cases ?m)
    case (Inr r)
    have "exec_type r = CANCELLED" using make_report_InrD(10) [OF Inr] by simp
    then have "gateway_inv (fst (apply_and_retire ?gw ref r))"
      using registered_get [OF assms reg] make_report_InrD(1) [OF Inr]
      by (intro apply_and_retire_inv inv) auto
    then show ?thesis using Some Inr assms by (simp add: cancel_commit_def Let_def)
  qed (use Some inv assms in \<open>simp add: cancel_commit_def Let_def\<close>)
qed (use assms in \<open>simp add: cancel_commit_def\<close>)

lemma gateway_exec_inv: "gateway_inv gw \<Longrightarrow> gateway_inv (gateway_exec ev gw c)"
proof (cases c)
  case (Submit ref)
  assume "gateway_inv gw"
  then show ?thesis using Submit submit_commit_inv by (simp add: submit_order_def split: sum.splits)
next
  case (Cancel cl)
  assume "gateway_inv gw"
  then show ?thesis using Cancel cancel_commit_inv by (simp add: cancel_order_def split: sum.splits)
qed (simp_all add: connect_def disconnect_def submit_commit_inv cancel_commit_inv set_market_price_inv
       gateway_inv_cong [of "gw\<lparr>is_connected := _\<rparr>" gw])

interpretation gateway_machine: invariant_machine "gateway_exec ev" gateway_inv for ev
  by unfold_locales (rule gateway_exec_inv)

lemma gateway_new_inv:
  assumes "gateway_new h b f s l None = Inr gw" and "\<And>ref. order_inv (h ref)"
  shows "gateway_inv gw"
  using assms
  by (auto simp: gateway_new_def bindR_Inr_iff gateway_inv_def registry_ok_def prices_ok_def default_router_def
      router_inv_def dest: check_nonneg_finite)

section \<open>Where cash and orders change\<close>

lemma exec_price_is_estimate:
  assumes "is_marketable gw od = Inr True" and "dict_get (market_prices gw) (symbol od) = Some m" and "side od = BUY"
  shows "est_fill_price gw od = Inr (exec_fill_price gw od m)"
  using assms
  by (auto simp: is_marketable_def est_fill_price_def exec_fill_price_def split: if_splits option.splits)

lemma execute_or_rest_cash:
  assumes "side (heap gw ref) = BUY" and "margin_check gw (heap gw ref) = Inr ()"
    and "isfinite (cash gw)" and "0 \<le> cash gw"
    and "\<forall>est. est_fill_price gw (heap gw ref) = Inr est \<longrightarrow> required_power gw (heap gw ref) est \<noteq> NaN"
  shows "0 \<le> cash (fst (execute_or_rest ev gw ref))"
proof -
  let ?od = "heap gw ref"
  have rj: "cash (fst (reject_order gw c e)) = cash gw" for c e
    by (simp add: reject_order_def split: prod.splits sum.splits)
  consider (same) "cash (fst (execute_or_rest ev gw ref)) = cash gw"
    | (exec) m where "is_marketable gw ?od = Inr True" "dict_get (market_prices gw) (symbol ?od) = Some m"
        "execute_or_rest ev gw ref = execute_now ev gw ref m"
  proof (cases "is_marketable gw ?od")
    case (Inl e)
    then show ?thesis by (intro same) (simp add: execute_or_rest_def)
  next
    case (Inr b)
    show ?thesis
    proof (cases "b \<and> dict_get (market_prices gw) (symbol ?od) \<noteq> None")
      case True
      then obtain m where "dict_get (market_prices gw) (symbol ?od) = Some m" by auto
      with True Inr exec show ?thesis by (simp add: execute_or_rest_def)
    next
      case False
      with Inr rj show ?thesis
        by (intro same) (auto simp: execute_or_rest_def rest_on_book_def Let_def split: bool.splits)
    qed
  qed
  then show ?thesis
  proof cases
    case (exec m)
    let ?px = "exec_fill_price gw ?od m"
    let ?cost = "?px * quantity ?od + fee_of gw (?px * quantity ?od)"
    have c: "cash (fst (execute_now ev gw ref m)) = cash gw - ?cost"
      using assms(1) by (simp add: execute_now_def Let_def book_fill_def split: sum.splits)
    have "\<not> cash gw < required_power gw ?od ?px"
      using assms(1,2) exec_price_is_estimate [OF exec(1,2) assms(1)]
      by (simp add: margin_check_def split: if_splits)
    then have nl: "\<not> cash gw < ?cost" by (simp add: required_power_def Let_def)
    have "?cost \<noteq> NaN" using assms(5) exec_price_is_estimate [OF exec(1,2) assms(1)] by (simp add: required_power_def Let_def)
    then have "?cost \<le> cash gw" using nl assms(3) by (simp add: float_not_less isfinite_def split: float64.splits)
    then show ?thesis using assms(3) float_diff_nonneg [of ?cost "cash gw"] c exec(3) by simp
  qed (use assms in simp)
qed

lemma margin_check_cong:
  "cash gw' = cash gw \<Longrightarrow> market_prices gw' = market_prices gw \<Longrightarrow> fee_bps gw' = fee_bps gw \<Longrightarrow>
   slippage_bps gw' = slippage_bps gw \<Longrightarrow> side od' = side od \<Longrightarrow> order_type od' = order_type od \<Longrightarrow>
   symbol od' = symbol od \<Longrightarrow> price od' = price od \<Longrightarrow> quantity od' = quantity od \<Longrightarrow>
   margin_check gw' od' = margin_check gw od"
  by (cases "price od"; cases "dict_get (market_prices gw) (symbol od)")
     (simp_all add: margin_check_def est_fill_price_def required_power_def slip_up_def fee_of_def)

lemma estimate_cong:
  "market_prices gw' = market_prices gw \<Longrightarrow> fee_bps gw' = fee_bps gw \<Longrightarrow> slippage_bps gw' = slippage_bps gw \<Longrightarrow>
   order_type od' = order_type od \<Longrightarrow> symbol od' = symbol od \<Longrightarrow> price od' = price od \<Longrightarrow> quantity od' = quantity od \<Longrightarrow>
   est_fill_price gw' od' = est_fill_price gw od \<and> required_power gw' od' = required_power gw od"
  by (cases "price od"; cases "dict_get (market_prices gw) (symbol od)")
     (simp_all add: est_fill_price_def required_power_def slip_up_def fee_of_def fun_eq_iff)

text \<open>The three ways a resumed submission ends.\<close>

lemma submit_commit_cases:
  assumes "submit_commit ev gw ref = (gw', res)"
  obtains (dup) "res = Inl (Gw DuplicateOrderException)" "gw' = gw" "router_known (router gw) (cl_ord_id (heap gw ref))"
  | (stop) rt e where "register_order (router gw) (cl_ord_id (heap gw ref)) ref = (rt, Inr ())"
      "(gw', res) = (gw\<lparr>router := rt, orders := dict_set (orders gw) (cl_ord_id (heap gw ref)) ref\<rparr>, Inl e) \<or>
       (gw', res) = reject_order (gw\<lparr>router := rt, orders := dict_set (orders gw) (cl_ord_id (heap gw ref)) ref\<rparr>)
                      (cl_ord_id (heap gw ref)) e"
  | (go) rt gw2 where "register_order (router gw) (cl_ord_id (heap gw ref)) ref = (rt, Inr ())"
      "acknowledge ev (gw\<lparr>router := rt, orders := dict_set (orders gw) (cl_ord_id (heap gw ref)) ref\<rparr>) ref = (gw2, Inr ())"
      "margin_check gw (heap gw ref) = Inr ()" "(gw', res) = execute_or_rest ev gw2 ref"
proof -
  let ?cl = "cl_ord_id (heap gw ref)"
  obtain rt r where reg: "register_order (router gw) ?cl ref = (rt, r)" by (cases "register_order (router gw) ?cl ref")
  show ?thesis
  proof (cases r)
    case (Inl e)
    with reg have "e = Gw DuplicateOrderException" "rt = router gw" "router_known (router gw) ?cl"
      by (auto simp: register_order_def router_known_def split: if_splits)
    with assms reg Inl that(1) show ?thesis by (simp add: submit_commit_def Let_def)
  next
    case (Inr u)
    let ?gw1 = "gw\<lparr>router := rt, orders := dict_set (orders gw) ?cl ref\<rparr>"
    have reg': "register_order (router gw) ?cl ref = (rt, Inr ())" using reg Inr by simp
    have mc: "margin_check ?gw1 (heap gw ref) = margin_check gw (heap gw ref)" by (rule margin_check_cong) simp_all
    show ?thesis
    proof (cases "margin_check gw (heap gw ref)")
      case (Inl e)
      show ?thesis using assms reg' Inl mc
        by (intro that(2) [OF reg', of e]) (auto simp: submit_commit_def Let_def split: exn.splits)
    next
      case m: (Inr v)
      obtain gw2 a where ack: "acknowledge ev ?gw1 ref = (gw2, a)" by (cases "acknowledge ev ?gw1 ref")
      from ack show ?thesis
      proof (cases rule: acknowledge_cases)
        case (err e)
        then show ?thesis using assms reg' m mc ack by (intro that(2) [OF reg', of e]) (auto simp: submit_commit_def Let_def)
      next
        case (ok t ex)
        then show ?thesis using assms reg' m mc ack by (intro that(3) [OF reg']) (auto simp: submit_commit_def Let_def)
      qed
    qed
  qed
qed

lemma reject_order_frame:
  "cash (fst (reject_order gw cl e)) = cash gw" "positions (fst (reject_order gw cl e)) = positions gw"
  "heap (fst (reject_order gw cl e)) = heap gw" "\<exists>e'. snd (reject_order gw cl e) = Inl e'"
  by (simp_all add: reject_order_def split: prod.splits sum.splits)

lemma reject_order_router: "router (fst (reject_order gw cl e)) = fst (deregister_order (router gw) cl)"
  by (simp add: reject_order_def split: prod.splits sum.splits)

lemma reject_order_known:
  "gateway_inv gw \<Longrightarrow> router_known (router gw) cl \<Longrightarrow> router_known (router (fst (reject_order gw cl e))) cl"
  using router_ids.retire_known [of "router gw" cl] by (simp add: gateway_inv_def reject_order_router)

lemma apply_and_retire_known:
  assumes "gateway_inv gw" and "router_known (router gw) (cl_ord_id (heap gw ref))"
  shows "router_known (router (fst (apply_and_retire gw ref r))) (cl_ord_id (heap gw ref))"
proof -
  have "router_inv (router gw)" using assms(1) by (simp add: gateway_inv_def)
  then have k: "router_known (fst (deregister_order (router gw) (cl_ord_id (heap gw ref)))) (cl_ord_id (heap gw ref))"
    using router_ids.retire_known assms(2) by blast
  obtain od' res where ap: "apply_execution_report (heap gw ref) r = (od', res)"
    by (cases "apply_execution_report (heap gw ref) r")
  then have "cl_ord_id od' = cl_ord_id (heap gw ref)" using apply_execution_report_frame(1) [of "heap gw ref" r] by simp
  with ap k assms(2) show ?thesis
    by (cases "deregister_order (router gw) (cl_ord_id (heap gw ref))")
       (auto simp: apply_and_retire_def Let_def split: sum.splits)
qed

lemma execute_or_rest_known:
  assumes "gateway_inv gw" and "router_known (router gw) (cl_ord_id (heap gw ref))"
  shows "router_known (router (fst (execute_or_rest ev gw ref))) (cl_ord_id (heap gw ref))"
proof -
  let ?cl = "cl_ord_id (heap gw ref)"
  have "router_known (router (fst (execute_now ev gw ref m))) ?cl" for m
  proof -
    let ?px = "exec_fill_price gw (heap gw ref) m"
    let ?n = "?px * quantity (heap gw ref)"
    let ?gw = "(book_fill gw (side (heap gw ref)) (symbol (heap gw ref)) (quantity (heap gw ref)) ?n (fee_of gw ?n))
                 \<lparr>report_counter := Suc (report_counter gw)\<rparr>"
    have "gateway_inv ?gw" using assms(1) by (subst gateway_inv_cong [of _ gw]) simp_all
    then have "router_known (router (fst (apply_and_retire ?gw ref r))) ?cl" for r
      using apply_and_retire_known [of ?gw ref r] assms(2) by simp
    then show ?thesis using assms(2) by (simp add: execute_now_def Let_def split: sum.splits)
  qed
  then show ?thesis using assms reject_order_known [OF assms]
    by (auto simp: execute_or_rest_def rest_on_book_def Let_def split: sum.splits bool.splits option.splits)
qed

text \<open>After a registration went through, the id is known to the router whatever happens next.\<close>

lemma submit_commit_known:
  assumes "gateway_inv gw" and "submit_commit ev gw ref = (gw', res)"
  shows "router_known (router gw') (cl_ord_id (heap gw ref))"
  using assms(2)
proof (cases rule: submit_commit_cases)
  case (stop rt e)
  have inv: "gateway_inv (gw\<lparr>router := rt, orders := dict_set (orders gw) (cl_ord_id (heap gw ref)) ref\<rparr>)"
    using register_inv [OF assms(1) stop(1)] .
  have k: "router_known rt (cl_ord_id (heap gw ref))" using router_ids.register_fresh [OF stop(1)] by simp
  let ?gw1 = "gw\<lparr>router := rt, orders := dict_set (orders gw) (cl_ord_id (heap gw ref)) ref\<rparr>"
  have r: "router_known (router (fst (reject_order ?gw1 (cl_ord_id (heap gw ref)) e))) (cl_ord_id (heap gw ref))"
    using k by (intro reject_order_known [OF inv]) simp
  from stop(2) show ?thesis
  proof
    assume "(gw', res) = (?gw1, Inl e)"
    then show ?thesis using k by simp
  next
    assume "(gw', res) = reject_order ?gw1 (cl_ord_id (heap gw ref)) e"
    then have "gw' = fst (reject_order ?gw1 (cl_ord_id (heap gw ref)) e)" by (metis fst_conv)
    then show ?thesis using r by simp
  qed
next
  case (go rt gw2)
  let ?gw1 = "gw\<lparr>router := rt, orders := dict_set (orders gw) (cl_ord_id (heap gw ref)) ref\<rparr>"
  have inv: "gateway_inv ?gw1" using register_inv [OF assms(1) go(1)] .
  have k: "router_known rt (cl_ord_id (heap gw ref))" using router_ids.register_fresh [OF go(1)] by simp
  have "cl_ord_id (heap gw2 ref) = cl_ord_id (heap gw ref)" "router gw2 = rt"
    using go(2) by (cases rule: acknowledge_cases; simp)+
  then show ?thesis using execute_or_rest_known [OF acknowledge_inv [OF inv go(2)], of ref ev] go(4) k
    by (metis fst_conv)
qed simp

section \<open>Terminal orders are frozen\<close>

lemma apply_and_retire_frozen:
  "is_terminal (heap gw r) \<Longrightarrow> heap (fst (apply_and_retire gw ref rep)) r = heap gw r"
  using apply_execution_report_rejects [of "heap gw ref" rep]
  by (cases "report_accepted (heap gw ref) rep")
     (auto simp: apply_and_retire_def Let_def report_accepted_def split: prod.splits sum.splits)

lemma fill_resting_frozen: "is_terminal (heap gw r) \<Longrightarrow> heap (fst (fill_resting ev sy px gw ref)) r = heap gw r"
  by (simp add: fill_resting_def Let_def apply_and_retire_frozen split: sum.splits)

lemma match_one_frozen:
  assumes "is_terminal (heap gw r)"
  shows "heap (fst (match_one ev sy px gw ref)) r = heap gw r"
proof -
  obtain gw' res where f: "fill_resting ev sy px gw ref = (gw', res)" by (cases "fill_resting ev sy px gw ref")
  moreover have "heap gw' r = heap gw r" using fill_resting_frozen [OF assms, of ev sy px ref] f by simp
  ultimately show ?thesis by (simp add: match_one_def Let_def split: option.splits sum.splits)
qed

lemma match_orders_frozen:
  "is_terminal (heap gw r) \<Longrightarrow> heap (fst (match_orders ev sy px gw refs reps)) r = heap gw r"
proof (induction refs arbitrary: gw reps)
  case (Cons ref refs)
  obtain gw' res where m: "match_one ev sy px gw ref = (gw', res)" by (cases "match_one ev sy px gw ref")
  have h: "heap gw' r = heap gw r" using match_one_frozen [OF Cons.prems, of ev sy px ref] m by simp
  then have "is_terminal (heap gw' r)" using Cons.prems by simp
  with Cons.IH [of gw'] m h show ?case by (auto split: sum.splits option.splits)
qed simp

lemma acknowledge_frozen: "is_terminal (heap gw r) \<Longrightarrow> heap (fst (acknowledge ev gw ref)) r = heap gw r"
proof -
  assume t: "is_terminal (heap gw r)"
  obtain gw' res where a: "acknowledge ev gw ref = (gw', res)" by (cases "acknowledge ev gw ref")
  from a show ?thesis using t by (cases rule: acknowledge_cases) (auto simp: a is_terminal_def)
qed

lemma execute_or_rest_frozen: "is_terminal (heap gw r) \<Longrightarrow> heap (fst (execute_or_rest ev gw ref)) r = heap gw r"
  by (simp add: execute_or_rest_def rest_on_book_def execute_now_def Let_def apply_and_retire_frozen reject_order_frame
      split: sum.splits bool.splits option.splits)

lemma submit_commit_frozen:
  assumes "is_terminal (heap gw r)"
  shows "heap (fst (submit_commit ev gw ref)) r = heap gw r"
proof -
  obtain gw' res where c: "submit_commit ev gw ref = (gw', res)" by (cases "submit_commit ev gw ref")
  from c have "heap gw' r = heap gw r"
  proof (cases rule: submit_commit_cases)
    case (stop rt e)
    then show ?thesis using reject_order_frame(3)
        [of "gw\<lparr>router := rt, orders := dict_set (orders gw) (cl_ord_id (heap gw ref)) ref\<rparr>" "cl_ord_id (heap gw ref)" e]
      by (auto dest!: arg_cong [of "(gw', res)" _ fst])
  next
    case (go rt gw2)
    let ?gw1 = "gw\<lparr>router := rt, orders := dict_set (orders gw) (cl_ord_id (heap gw ref)) ref\<rparr>"
    have h: "heap gw2 r = heap gw r" using acknowledge_frozen [of ?gw1 r ev ref] assms go(2) by simp
    then have "heap (fst (execute_or_rest ev gw2 ref)) r = heap gw2 r"
      using assms by (intro execute_or_rest_frozen) simp
    then show ?thesis using h go(4) by (metis fst_conv)
  qed simp
  then show ?thesis by (simp add: c)
qed

lemma cancel_commit_frozen: "is_terminal (heap gw r) \<Longrightarrow> heap (fst (cancel_commit ev gw cl)) r = heap gw r"
  by (simp add: cancel_commit_def Let_def apply_and_retire_frozen split: sum.splits option.splits)

lemma gateway_exec_frozen:
  assumes "is_terminal (heap gw r)"
  shows "heap (gateway_exec ev gw c) r = heap gw r"
  using assms match_orders_frozen submit_commit_frozen cancel_commit_frozen
  by (cases c) (auto simp: connect_def disconnect_def submit_order_def cancel_order_def set_market_price_def Let_def
      split: sum.splits)

end
