(* ===== verification/Paper_Gateway_Props.thy ===== *)
theory Paper_Gateway_Props
  imports Paper_Gateway
begin

text \<open>
  The properties of the paper gateway: its invariant over any interleaving of calls, at-most-once
  submission, frozen terminal orders, the margin check of immediate buys, limit prices, and the two
  behaviours the margin check does not cover.
\<close>

section \<open>A sample gateway\<close>

definition sample_gw :: "rat \<Rightarrow> (string \<times> float64) list \<Rightarrow> order \<Rightarrow> paper_gateway" where
  "sample_gw c prices od =
     \<lparr>heap = (\<lambda>ref. od\<lparr>cl_ord_id := ''cl-'' @ decimal ref\<rparr>), initial_balance = Fin c, cash = Fin c, fee_bps = Fin 0,
      slippage_bps = Fin 0, latency_ms = Fin 0, router = default_router, is_connected = True,
      positions = [], orders = [], market_prices = prices, report_counter = 0\<rparr>"

definition sample_env :: env where
  "sample_env = \<lparr>now_at = (\<lambda>k. int k), uid_at = (\<lambda>_. ''0123456789ab'')\<rparr>"

lemma bps_simps [simp]: "isfinite bps" "bps \<noteq> NaN" "0 < bps" "0 \<le> bps"
proof -
  obtain e where e: "bps = Fin e" "0 < e" unfolding bps_def using flit_power_ten [of 4] by auto
  then show "isfinite bps" "bps \<noteq> NaN" "0 < bps" "0 \<le> bps" by (metis isfinite_simps(1), metis float64.distinct(5),
    metis zero_le_float64_simps(3), metis zero_le_float64_simps(1) less_imp_le)
qed

lemma zero_mult_float [simp]: "isfinite x \<Longrightarrow> Fin 0 * x = 0" "isfinite x \<Longrightarrow> 0 * x = (0::float64)"
  by (auto simp: zero_float64_def)

lemma sample_gw_inv:
  assumes "order_inv od" and "\<forall>px \<in> snd ` set prices. pos_finite px"
  shows "gateway_inv (sample_gw c prices od)"
proof -
  have "order_inv (od\<lparr>cl_ord_id := ''cl-'' @ decimal ref\<rparr>)" for ref using assms(1) by (simp add: order_inv_def)
  moreover have "pos_finite px" if "dict_get prices sy = Some px" for sy px
    using assms(2) map_of_SomeD [OF that] by force
  ultimately show ?thesis
    by (simp add: gateway_inv_def sample_gw_def registry_ok_def prices_ok_def default_router_def router_inv_def)
qed

lemma sample_order_inv: "order_inv sample_order"
  by (simp add: order_inv_def sample_order_def)

section \<open>Properties\<close>

text \<open>C19: The gateway invariant holds after any sequence of calls, accepted or raising, and with the resumed
  halves of submissions and cancellations interleaved in any order: every registered order is stored under
  its own id and well-formed, every active id of the router denotes a registered order, and every
  registered order that is still live is protected against re-submission.\<close>

theorem gateway_invariant_always:
  assumes "gateway_new h balance fees slippage latency None = Inr gw" and "\<And>ref. order_wf (h ref)"
  shows "gateway_inv (foldl (gateway_exec ev) gw cmds)"
proof -
  have "order_inv (h ref)" for ref using assms(2) [of ref] by (simp add: order_wf_def order_inv_def nonneg_finite_def)
  then have "gateway_inv gw" using gateway_new_inv [OF assms(1)] by blast
  then show ?thesis by (rule gateway_machine.run_inv)
qed

theorem gateway_invariant_always_witness:
  "\<exists>gw. gateway_new (\<lambda>_. sample_order) (PInt 1000) (PFloat (Fin 2)) (PFloat (Fin 1)) (PInt 0) None = Inr gw \<and>
        gateway_inv (foldl (gateway_exec sample_env) gw [Connect, Submit 0, SetPrice (PStr ''AAPL'') (PInt 90), Cancel (PStr ''cl-1'')])"
proof -
  have f: "float_of_int 1000 = Fin 1000" "float_of_int 0 = Fin 0"
    by (simp_all add: float_of_int_def zero_float64_def)
  obtain gw where g: "gateway_new (\<lambda>_. sample_order) (PInt 1000) (PFloat (Fin 2)) (PFloat (Fin 1)) (PInt 0) None = Inr gw"
    by (simp add: gateway_new_def int_overflows_def f)
  have "order_wf sample_order" by (simp add: order_wf_def sample_order_def)
  with gateway_invariant_always [OF g, of sample_env] g show ?thesis by blast
qed

text \<open>A filled, cancelled, rejected or expired order is never changed again by any gateway call: later
  prices do not fill it and later cancellations do not touch it.\<close>

theorem gateway_terminal_orders_frozen:
  assumes "is_terminal (heap gw r)"
  shows "heap (foldl (gateway_exec ev) gw cmds) r = heap gw r"
  using assms by (induction cmds arbitrary: gw) (simp_all add: gateway_exec_frozen)

theorem gateway_terminal_orders_frozen_witness:
  "state (heap (foldl (gateway_exec sample_env) (sample_gw 1000 [] (sample_order\<lparr>state := CANCELLED\<rparr>))
     [SetPrice (PStr ''AAPL'') (PInt 50), Submit 0]) 0) = CANCELLED"
proof -
  have "is_terminal (heap (sample_gw 1000 [] (sample_order\<lparr>state := CANCELLED\<rparr>)) 0)"
    by (simp add: is_terminal_def sample_gw_def)
  from gateway_terminal_orders_frozen [OF this, of sample_env "[SetPrice (PStr ''AAPL'') (PInt 50), Submit 0]"]
  show ?thesis by (simp only:) (simp add: sample_gw_def)
qed

lemma known_refused:
  assumes "router_known (router gw) (cl_ord_id (heap gw ref))"
  shows "\<exists>e. submit_order ev gw ref = (gw, Inl e) \<and> (submit_precheck gw ref = Inr () \<longrightarrow> e = Gw DuplicateOrderException)"
proof -
  have "submit_commit ev gw ref = (gw, Inl (Gw DuplicateOrderException))"
    using assms by (simp add: submit_commit_def Let_def router_ids.register_dup)
  then show ?thesis by (cases "submit_precheck gw ref") (simp_all add: submit_order_def)
qed

lemma active_dict_has:
  assumes "gateway_inv gw" and "registered gw ref" and "is_active (heap gw ref)"
  shows "dict_has (active_orders (router gw)) (cl_ord_id (heap gw ref))"
proof -
  have "registry_ok gw" using assms(1) by (simp add: gateway_inv_def)
  then have "dict_get (active_orders (router gw)) (cl_ord_id (heap gw ref)) = Some ref"
    using registered_get [OF assms(1,2)] assms(3) unfolding registry_ok_def by blast
  from map_of_SomeD [OF this] show ?thesis by force
qed

lemma submitted_known:
  assumes "gateway_inv gw" and "submit_order ev gw ref = (gw1, res)"
    and "(\<exists>report. res = Inr report) \<or> res = Inl (Gw InsufficientMarginException)"
  shows "router_known (router gw1) (cl_ord_id (heap gw ref))"
proof -
  have "submit_commit ev gw ref = (gw1, res)"
  proof (cases "submit_precheck gw ref")
    case (Inl e)
    then have "res = Inl e" using assms(2) by (simp add: submit_order_def)
    moreover have "e \<noteq> Gw InsufficientMarginException"
      using Inl by (auto simp: submit_precheck_def Let_def split: if_splits)
    ultimately show ?thesis using assms(3) by auto
  qed (use assms(2) in \<open>simp add: submit_order_def\<close>)
  then show ?thesis by (rule submit_commit_known [OF assms(1)])
qed

text \<open>C22: At-most-once submission (INV-GW-002). In any state the gateway can reach, submitting an order whose client order id is active or
  in the ring of the last retired ids raises and leaves the whole gateway as it is (cash, positions, orders, registry); when the order
  itself is acceptable, the exception is \<^verbatim>\<open>DuplicateOrderException\<close>. The id of every registered order that is still active is such an id,
  and so is, right after the call, the id of every submission that was accepted or refused for margin. How long a retired id stays in
  the ring is the replay window of the router.\<close>

theorem gateway_at_most_once:
  assumes "gateway_inv gw"
  shows "(dict_has (active_orders (router gw)) (cl_ord_id (heap gw ref)) \<or> cl_ord_id (heap gw ref) \<in> set (history_ring (router gw)) \<longrightarrow>
      (\<exists>e. submit_order ev gw ref = (gw, Inl e) \<and> (submit_precheck gw ref = Inr () \<longrightarrow> e = Gw DuplicateOrderException))) \<and>
    (registered gw ref0 \<and> is_active (heap gw ref0) \<longrightarrow> dict_has (active_orders (router gw)) (cl_ord_id (heap gw ref0))) \<and>
    (submit_order ev gw ref = (gw1, res) \<and> ((\<exists>report. res = Inr report) \<or> res = Inl (Gw InsufficientMarginException)) \<longrightarrow>
      dict_has (active_orders (router gw1)) (cl_ord_id (heap gw ref)) \<or> cl_ord_id (heap gw ref) \<in> set (history_ring (router gw1)))"
proof (intro conjI impI)
  have ring: "gateway_inv g \<Longrightarrow> history_set (router g) = set (history_ring (router g))" for g by (simp add: gateway_inv_def router_inv_def)
  show "\<exists>e. submit_order ev gw ref = (gw, Inl e) \<and> (submit_precheck gw ref = Inr () \<longrightarrow> e = Gw DuplicateOrderException)"
    if "dict_has (active_orders (router gw)) (cl_ord_id (heap gw ref)) \<or> cl_ord_id (heap gw ref) \<in> set (history_ring (router gw))"
    using that by (intro known_refused) (simp add: router_known_def ring [OF assms])
  show "dict_has (active_orders (router gw)) (cl_ord_id (heap gw ref0))" if "registered gw ref0 \<and> is_active (heap gw ref0)"
    by (rule active_dict_has [OF assms]) (use that in blast)+
  assume s: "submit_order ev gw ref = (gw1, res) \<and> ((\<exists>report. res = Inr report) \<or> res = Inl (Gw InsufficientMarginException))"
  then have "gateway_inv gw1" using gateway_machine.run_inv [OF assms, of ev "[Submit ref]"] by simp
  then have r: "history_set (router gw1) = set (history_ring (router gw1))" by (rule ring)
  have "router_known (router gw1) (cl_ord_id (heap gw ref))" using s by (intro submitted_known [OF assms]) blast+
  then show "dict_has (active_orders (router gw1)) (cl_ord_id (heap gw ref)) \<or> cl_ord_id (heap gw ref) \<in> set (history_ring (router gw1))"
    by (simp only: router_known_def r)
qed

lemma sample_insufficient:
  "\<exists>gw1. submit_order sample_env (sample_gw 999 [] sample_order) 0 = (gw1, Inl (Gw InsufficientMarginException)) \<and>
         heap gw1 = heap (sample_gw 999 [] sample_order) \<and> submit_precheck gw1 0 = Inr ()"
proof -
  have s: "str_strip (''cl-'' @ decimal 0) \<noteq> []" by (simp add: str_strip_def is_space_def decimal.simps)
  show ?thesis using s
    by (simp add: submit_order_def submit_precheck_def submit_commit_def sample_gw_def sample_order_def is_terminal_def
        register_order_def default_router_def margin_check_def est_fill_price_def required_power_def fee_of_def
        reject_order_def deregister_order_def Let_def zero_float64_def [symmetric])
qed

theorem gateway_at_most_once_witness:
  "\<exists>gw1. submit_order sample_env (sample_gw 999 [] sample_order) 0 = (gw1, Inl (Gw InsufficientMarginException)) \<and>
         submit_order sample_env gw1 0 = (gw1, Inl (Gw DuplicateOrderException))"
proof -
  let ?gw = "sample_gw 999 [] sample_order"
  obtain gw1 where g: "submit_order sample_env ?gw 0 = (gw1, Inl (Gw InsufficientMarginException))" "heap gw1 = heap ?gw"
    "submit_precheck gw1 0 = Inr ()" using sample_insufficient by blast
  have inv: "gateway_inv ?gw" by (intro sample_gw_inv sample_order_inv) simp
  then have inv1: "gateway_inv gw1" using gateway_machine.run_inv [OF inv, of sample_env "[Submit 0]"] g(1) by simp
  have "dict_has (active_orders (router gw1)) (cl_ord_id (heap gw1 0)) \<or> cl_ord_id (heap gw1 0) \<in> set (history_ring (router gw1))"
    using gateway_at_most_once [OF inv, of 0 sample_env 0 gw1 "Inl (Gw InsufficientMarginException)"] g(1,2) by simp
  with gateway_at_most_once [OF inv1, of 0 sample_env 0 gw1 "Inl InvalidInput"] g show ?thesis by auto
qed

text \<open>C21: The margin check is exact for orders that execute at once: a buy never drives the cash balance below zero, whatever the
  outcome of the submission, because the price estimated for the check is the price of the fill. The purchasing power computed for
  the check must be a number; it is NaN when the notional overflows and no fee is charged, and then the check is passed
  (\<open>overflow_passes_margin_check\<close>).\<close>

theorem gateway_buy_never_overdraws:
  assumes "side (heap gw ref) = BUY" and "isfinite (cash gw)" and "0 \<le> cash gw"
    and "\<forall>est. est_fill_price gw (heap gw ref) = Inr est \<longrightarrow> required_power gw (heap gw ref) est \<noteq> NaN"
    and "submit_order ev gw ref = (gw', res)"
  shows "0 \<le> cash gw'"
proof (cases "submit_precheck gw ref")
  case (Inl e)
  then show ?thesis using assms(3,5) by (simp add: submit_order_def)
next
  case (Inr u)
  then have "submit_commit ev gw ref = (gw', res)" using assms(5) by (simp add: submit_order_def)
  then show ?thesis
  proof (cases rule: submit_commit_cases)
    case (stop rt e)
    then show ?thesis using assms(3) reject_order_frame(1)
        [of "gw\<lparr>router := rt, orders := dict_set (orders gw) (cl_ord_id (heap gw ref)) ref\<rparr>" "cl_ord_id (heap gw ref)" e]
      by (auto dest!: arg_cong [of "(gw', res)" _ fst])
  next
    case (go rt gw2)
    have m: "margin_check gw2 (heap gw2 ref) = margin_check gw (heap gw ref)"
      using go(2) by (cases rule: acknowledge_cases) (auto intro!: margin_check_cong)
    have c: "cash gw2 = cash gw" "side (heap gw2 ref) = BUY"
      using go(2) assms(1) by (cases rule: acknowledge_cases; simp)+
    have "est_fill_price gw2 (heap gw2 ref) = est_fill_price gw (heap gw ref) \<and> required_power gw2 (heap gw2 ref) = required_power gw (heap gw ref)"
      using go(2) by (cases rule: acknowledge_cases) (rule estimate_cong; simp)+
    moreover have "gw' = fst (execute_or_rest ev gw2 ref)" using go(4) by (metis fst_conv)
    ultimately show ?thesis using execute_or_rest_cash [of gw2 ref ev] m c go(3) assms(2-4) by simp
  qed (use assms in simp)
qed

lemma apply_and_retire_report: "apply_and_retire gw ref r = (gw', Inr rep) \<Longrightarrow> rep = r"
  by (auto simp: apply_and_retire_def Let_def split: prod.splits sum.splits)

lemma execute_now_report:
  assumes "execute_now ev gw ref m = (gw', Inr rep)"
  shows "last_price rep = exec_fill_price gw (heap gw ref) m \<and> exec_type rep = FILLED \<and> cum_quantity rep = quantity (heap gw ref)"
proof -
  let ?od = "heap gw ref"
  let ?px = "exec_fill_price gw ?od m"
  let ?n = "?px * quantity ?od"
  let ?m = "make_report ev (Suc (report_counter gw)) ?od (exchange_id_val ?od) (symbol ?od)
      (PEnum ''OrderState'' ''FILLED'') (quantity ?od) ?px (quantity ?od) 0 ?n ?px (fee_of gw ?n) ''Order filled immediately''"
  obtain r where r: "?m = Inr r" using assms by (cases ?m) (simp_all add: execute_now_def Let_def)
  then have "rep = r" using assms by (auto simp: execute_now_def Let_def dest: apply_and_retire_report)
  with make_report_InrD(6,7,10) [OF r] show ?thesis by simp
qed

lemma rest_on_book_report: "rest_on_book ev gw ref = (gw', Inr rep) \<Longrightarrow> exec_type rep = NEW \<and> cum_quantity rep = 0"
  by (auto simp: rest_on_book_def Let_def dest: make_report_InrD(7,10))

text \<open>The report of a limit order: filled completely within the limit, or resting.\<close>

lemma submit_limit_report:
  assumes "gateway_inv gw" and "submit_commit ev gw ref = (gw', Inr report)"
    and "order_type (heap gw ref) = LIMIT" and "price (heap gw ref) = Some p"
  shows "exec_type report = FILLED \<and> cum_quantity report = quantity (heap gw ref) \<and>
           (side (heap gw ref) = BUY \<longrightarrow> last_price report \<le> p) \<and>
           (side (heap gw ref) = SELL \<longrightarrow> p \<le> last_price report) \<or>
         exec_type report = NEW \<and> cum_quantity report = 0 \<and> cash gw' = cash gw \<and> positions gw' = positions gw"
  using assms(2)
proof (cases rule: submit_commit_cases)
  case (stop rt e)
  then show ?thesis using reject_order_frame(4)
      [of "gw\<lparr>router := rt, orders := dict_set (orders gw) (cl_ord_id (heap gw ref)) ref\<rparr>" "cl_ord_id (heap gw ref)" e]
    by (auto dest!: arg_cong [of "(gw', Inr report)" _ snd])
next
  case (go rt gw2)
  have od: "order_type (heap gw2 ref) = LIMIT" "price (heap gw2 ref) = Some p" "side (heap gw2 ref) = side (heap gw ref)"
      "quantity (heap gw2 ref) = quantity (heap gw ref)"
    and c: "cash gw2 = cash gw" "positions gw2 = positions gw"
    using go(2) assms(3,4) by (cases rule: acknowledge_cases; simp)+
  have p: "p \<noteq> NaN" using assms(1,4) by (auto simp: gateway_inv_def order_inv_def pos_finite_def dest: spec [of _ ref])
  consider (ex) m where "execute_now ev gw2 ref m = (gw', Inr report)" | (rest) "rest_on_book ev gw2 ref = (gw', Inr report)"
  proof -
    have "(\<exists>m. execute_now ev gw2 ref m = (gw', Inr report)) \<or> rest_on_book ev gw2 ref = (gw', Inr report)"
      using go(4) reject_order_frame(4) [of gw2 "cl_ord_id (heap gw2 ref)" InvalidInput]
      by (auto simp: execute_or_rest_def Let_def split: sum.splits bool.splits option.splits
          dest!: arg_cong [of "(gw', Inr report)" "reject_order _ _ _" snd])
    then show ?thesis using ex rest by blast
  qed
  then show ?thesis
  proof cases
    case (ex m)
    from execute_now_report [OF ex] od p show ?thesis
      by (auto simp: exec_fill_price_def py_min_def py_max_def float_less_imp_le)
  next
    case rest
    then have "gw' = gw2\<lparr>report_counter := Suc (report_counter gw2)\<rparr>" by (simp add: rest_on_book_def Let_def)
    with rest_on_book_report [OF rest] c show ?thesis by simp
  qed
qed simp

text \<open>C20: Limit protection: when a submitted limit order executes at once, a buy pays at most and a sell
  receives at least the limit price, for every slippage setting; when it does not execute, it rests with
  state NEW and the cash balance and the positions are as before.\<close>

theorem gateway_limit_protection:
  assumes "gateway_inv gw" and "submit_commit ev gw ref = (gw', Inr report)"
    and "order_type (heap gw ref) = LIMIT" and "price (heap gw ref) = Some p"
  shows "exec_type report = FILLED \<and>
           (side (heap gw ref) = BUY \<longrightarrow> last_price report \<le> p) \<and>
           (side (heap gw ref) = SELL \<longrightarrow> p \<le> last_price report) \<or>
         exec_type report = NEW \<and> cash gw' = cash gw \<and> positions gw' = positions gw"
  using submit_limit_report [OF assms] by blast

lemmas gateway_eval = submit_commit_def register_order_def margin_check_def est_fill_price_def
  required_power_def fee_of_def acknowledge_def transition_def resolve_timestamp_def check_timestamp_def
  can_transition_def fill_event_def execute_or_rest_def is_marketable_def rest_on_book_def make_report_def
  report_new_eval exchange_id_val_def exchange_id_or_default_def report_id_of_def side_val_def is_terminal_def is_active_def

lemma sample_rest:
  "\<exists>gw' r. submit_commit sample_env (sample_gw 1000 [] sample_order) 0 = (gw', Inr r)"
  by (simp add: gateway_eval sample_gw_def sample_order_def default_router_def sample_env_def Let_def
      zero_float64_def [symmetric] check_number_PFloat)
     (simp add: zero_float64_def)

theorem gateway_limit_protection_witness:
  "\<exists>gw' r. submit_commit sample_env (sample_gw 1000 [] sample_order) 0 = (gw', Inr r) \<and>
     (exec_type r = FILLED \<and> last_price r \<le> Fin 100 \<or> exec_type r = NEW \<and> cash gw' = Fin 1000)"
proof -
  obtain gw' r where g: "submit_commit sample_env (sample_gw 1000 [] sample_order) 0 = (gw', Inr r)"
    using sample_rest by blast
  have inv: "gateway_inv (sample_gw 1000 [] sample_order)" by (intro sample_gw_inv sample_order_inv) simp
  have "order_type (heap (sample_gw 1000 [] sample_order) 0) = LIMIT"
    "price (heap (sample_gw 1000 [] sample_order) 0) = Some (Fin 100)"
    "side (heap (sample_gw 1000 [] sample_order) 0) = BUY" "cash (sample_gw 1000 [] sample_order) = Fin 1000"
    by (simp_all add: sample_gw_def sample_order_def)
  with gateway_limit_protection [OF inv g] g show ?thesis by auto
qed

section \<open>Resting orders\<close>

definition resting_report :: "paper_gateway \<Rightarrow> float64 \<Rightarrow> execution_report \<Rightarrow> bool" where
  "resting_report gw px r \<longleftrightarrow>
     last_price r = px \<and> exec_type r = FILLED \<and>
     (\<exists>ref lp. registered gw ref \<and> cl_ord_id (heap gw ref) = rep_cl_ord_id r \<and>
        order_type (heap gw ref) = LIMIT \<and> price (heap gw ref) = Some lp \<and>
        (side (heap gw ref) = BUY \<longrightarrow> px \<le> lp) \<and> (side (heap gw ref) = SELL \<longrightarrow> lp \<le> px))"

lemma fill_resting_report:
  assumes "fill_resting ev sy px gw ref = (gw', Inr rep)"
  shows "last_price rep = px \<and> exec_type rep = FILLED \<and> rep_cl_ord_id rep = cl_ord_id (heap gw ref)"
proof -
  let ?od = "heap gw ref"
  let ?n = "px * quantity ?od"
  let ?m = "make_report ev (Suc (report_counter gw)) ?od (PStr (exchange_id_or_default ?od)) sy
      (PEnum ''OrderState'' ''FILLED'') (quantity ?od) px (quantity ?od) 0 ?n px (fee_of gw ?n) ''Resting limit order matched''"
  obtain r where r: "?m = Inr r" using assms by (cases ?m) (simp_all add: fill_resting_def Let_def)
  then have "rep = r" using assms by (auto simp: fill_resting_def Let_def dest: apply_and_retire_report)
  with make_report_InrD(2,6,10) [OF r] show ?thesis by simp
qed

text \<open>What the loop never changes of an order.\<close>

definition same_terms :: "order \<Rightarrow> order \<Rightarrow> bool" where
  "same_terms a b \<longleftrightarrow> cl_ord_id a = cl_ord_id b \<and> order_type a = order_type b \<and> price a = price b \<and> side a = side b"

lemma match_one_terms: "same_terms (heap (fst (match_one ev sy px gw ref)) r) (heap gw r)"
proof -
  have ar: "same_terms (heap (fst (apply_and_retire g ref rep)) r) (heap g r)" for g rep
    using apply_execution_report_frame [of "heap g ref" rep]
    by (cases "apply_execution_report (heap g ref) rep") (auto simp: apply_and_retire_def same_terms_def Let_def split: prod.splits sum.splits)
  obtain gw' res where f: "fill_resting ev sy px gw ref = (gw', res)" by (cases "fill_resting ev sy px gw ref")
  have "same_terms (heap (fst (fill_resting ev sy px gw ref)) r) (heap gw r)"
    using ar by (auto simp: fill_resting_def Let_def same_terms_def split: sum.splits)
  then have "same_terms (heap gw' r) (heap gw r)" by (simp add: f)
  then show ?thesis using f by (auto simp: match_one_def same_terms_def Let_def split: option.splits sum.splits)
qed

lemma match_orders_reports:
  "\<forall>ref \<in> set refs. registered gw ref \<Longrightarrow> match_orders ev sy px gw refs reps = (gw', Inr out) \<Longrightarrow>
   \<forall>r \<in> set reps. resting_report gw0 px r \<Longrightarrow> orders gw = orders gw0 \<Longrightarrow>
   (\<And>ref. same_terms (heap gw ref) (heap gw0 ref)) \<Longrightarrow> \<forall>r \<in> set out. resting_report gw0 px r"
proof (induction refs arbitrary: gw reps)
  case (Cons ref refs)
  obtain gw1 res where m: "match_one ev sy px gw ref = (gw1, res)" by (cases "match_one ev sy px gw ref")
  have o: "orders gw1 = orders gw" using match_one_orders [of ev sy px gw ref] m by simp
  have t: "same_terms (heap gw1 r) (heap gw0 r)" for r
    using match_one_terms [of ev sy px gw ref r] m Cons.prems(5) [of r] by (auto simp: same_terms_def)
  have reg: "\<forall>r \<in> set refs. registered gw1 r" using Cons.prems(1) o by (simp add: registered_def)
  from m Cons.prems(2) consider (skip) "res = Inr None" "match_orders ev sy px gw1 refs reps = (gw', Inr out)"
    | (fill) rep where "res = Inr (Some rep)" "match_orders ev sy px gw1 refs (reps @ [rep]) = (gw', Inr out)"
    by (auto split: sum.splits option.splits)
  then show ?case
  proof cases
    case skip
    have "orders gw1 = orders gw0" using o Cons.prems(4) by simp
    then show ?thesis using t by (rule Cons.IH [OF reg skip(2) Cons.prems(3)])
  next
    case (fill rep)
    obtain lp where lp: "price (heap gw ref) = Some lp" "order_type (heap gw ref) = LIMIT" "resting_match (heap gw ref) lp px"
      "fill_resting ev sy px gw ref = (gw1, Inr rep)"
      using m fill(1) by (auto simp: match_one_def Let_def split: if_splits option.splits prod.splits sum.splits)
    have s: "same_terms (heap gw ref) (heap gw0 ref)" by (rule Cons.prems(5))
    have "registered gw0 ref" using Cons.prems(1,4) by (simp add: registered_def)
    then have "resting_report gw0 px rep"
      unfolding resting_report_def using fill_resting_report [OF lp(4)] lp(1-3) s
      by (auto simp: same_terms_def resting_match_def intro!: exI [of _ ref] exI [of _ lp])
    then have "\<forall>r \<in> set (reps @ [rep]). resting_report gw0 px r" using Cons.prems(3) by simp
    moreover have "orders gw1 = orders gw0" using o Cons.prems(4) by simp
    ultimately show ?thesis using t by (rule Cons.IH [OF reg fill(2)])
  qed
qed simp

text \<open>Resting orders: every report a price update returns is a complete fill at the new price of a
  registered limit order whose limit the price satisfies (at most the limit for a buy, at least for a sell).\<close>

theorem gateway_resting_fill:
  assumes "gateway_inv gw" and "set_market_price ev gw sy (PFloat px) = (gw', Inr reports)"
  shows "\<forall>r \<in> set reports. resting_report gw px r"
proof -
  obtain s where s: "check_nonblank InvalidInput sy = Inr s"
    using assms(2) by (cases "check_nonblank InvalidInput sy") (simp_all add: set_market_price_def)
  obtain p where "check_pos InvalidInput (PFloat px) = Inr p"
    using assms(2) s by (cases "check_pos InvalidInput (PFloat px)") (simp_all add: set_market_price_def)
  then have p: "check_pos InvalidInput (PFloat px) = Inr px" using check_number_PFloat_Inr by simp
  let ?gw = "gw\<lparr>market_prices := dict_set (market_prices gw) (str_strip s) px\<rparr>"
  have m: "match_orders ev (str_strip s) px ?gw (map snd (orders ?gw)) [] = (gw', Inr reports)"
    using assms(2) s p by (simp add: set_market_price_def Let_def)
  have "dict_ok (orders gw)" using assms(1) registry_keys by (simp add: gateway_inv_def)
  then have reg: "\<forall>ref \<in> set (map snd (orders ?gw)). registered ?gw ref" by (force simp: registered_def)
  show ?thesis by (rule match_orders_reports [OF reg m]) (simp_all add: same_terms_def)
qed

text \<open>A gateway with two orders \<^verbatim>\<open>a\<close> and \<^verbatim>\<open>b\<close>, each to buy 10 at the limit 100, before and after both
  were submitted and rest on the book.\<close>

definition two_orders :: "nat \<Rightarrow> order" where
  "two_orders ref = sample_order\<lparr>cl_ord_id := (if ref = 0 then ''a'' else ''b'')\<rparr>"

definition two_gw :: paper_gateway where
  "two_gw =
     \<lparr>heap = two_orders, initial_balance = Fin 1000, cash = Fin 1000, fee_bps = Fin 0,
      slippage_bps = Fin 0, latency_ms = Fin 0, router = default_router, is_connected = True,
      positions = [], orders = [], market_prices = [], report_counter = 0\<rparr>"

definition rested_order :: "nat \<Rightarrow> order" where
  "rested_order ref = (two_orders ref)\<lparr>state := NEW, updated_at_ns := int ref + 1,
     exchange_order_id := Some (''ex-'' @ cl_ord_id (two_orders ref))\<rparr>"

definition one_rested_gw :: paper_gateway where
  "one_rested_gw = two_gw\<lparr>heap := two_orders(0 := rested_order 0),
     router := default_router\<lparr>active_orders := [(''a'', 0)]\<rparr>, orders := [(''a'', 0)], report_counter := 1\<rparr>"

definition two_rested_gw :: paper_gateway where
  "two_rested_gw = two_gw\<lparr>heap := two_orders(0 := rested_order 0, 1 := rested_order 1),
     router := default_router\<lparr>active_orders := [(''a'', 0), (''b'', 1)]\<rparr>,
     orders := [(''a'', 0), (''b'', 1)], report_counter := 2\<rparr>"

lemmas two_defs = two_gw_def two_orders_def sample_order_def default_router_def sample_env_def rested_order_def
  one_rested_gw_def two_rested_gw_def

lemma submit_first: "fst (submit_order sample_env two_gw 0) = one_rested_gw"
  by (simp add: submit_order_def submit_precheck_def gateway_eval two_defs Let_def zero_float64_def [symmetric]
      check_number_PFloat fun_eq_iff)

lemma submit_second: "fst (submit_order sample_env one_rested_gw 1) = two_rested_gw"
  by (simp add: submit_order_def submit_precheck_def gateway_eval two_defs Let_def zero_float64_def [symmetric]
      check_number_PFloat fun_eq_iff)

lemma make_report_ok:
  assumes "cl_ord_id od \<noteq> []" "sy \<noteq> []" "as_str ex = Some x" "order_state_of et = Some st" "0 \<le> now_at ev k"
    and "nonneg_finite lq" "nonneg_finite lp" "nonneg_finite cq" "nonneg_finite lv" "nonneg_finite ca"
    "nonneg_finite avg" "nonneg_finite f"
  shows "\<exists>r. make_report ev k od ex sy et lq lp cq lv ca avg f txt = Inr r"
proof -
  have sd: "order_side_of (side_val d) = Some d" for d
    by (cases d) (simp_all add: side_val_def order_side_of_def)
  have n: "check_nonneg InvalidInput (PFloat y) = Inr y" if "nonneg_finite y" for y
    using that by (auto simp: nonneg_finite_def)
  show ?thesis
    using assms by (simp add: make_report_def execution_report_new_def n check_str_def check_any_str_def check_enum_def sd
        check_timestamp_def report_id_of_def)
qed

lemma apply_and_retire_accepted:
  assumes "report_accepted (heap gw ref) r" and "str_strip (cl_ord_id (heap gw ref)) \<noteq> []"
  shows "snd (apply_and_retire gw ref r) = Inr r" "r' \<noteq> ref \<Longrightarrow> heap (fst (apply_and_retire gw ref r)) r' = heap gw r'"
proof -
  have "\<exists>rt' o1. deregister_order rt (cl_ord_id (heap gw ref)) = (rt', Inr o1)" for rt :: "nat router"
    using assms(2) by (simp add: deregister_order_def Let_def split: option.splits)
  then obtain rt' o1 where "deregister_order (router gw) (cl_ord_id (heap gw ref)) = (rt', Inr o1)" by blast
  then show "snd (apply_and_retire gw ref r) = Inr r"
    using apply_execution_report_accepts [OF assms(1)] by (simp add: apply_and_retire_def Let_def)
  show "r' \<noteq> ref \<Longrightarrow> heap (fst (apply_and_retire gw ref r)) r' = heap gw r'"
    by (simp add: apply_and_retire_def Let_def split: prod.splits sum.splits)
qed

lemma first_fill:
  assumes gw: "heap gw 0 = rested_order 0" "heap gw (Suc 0) = rested_order 1" "report_counter gw = 2" "fee_bps gw = Fin 0"
    "cash gw = Fin 1000"
  shows "\<exists>gw1 rep. match_one sample_env ''AAPL'' (Fin 100) gw 0 = (gw1, Inr (Some rep)) \<and> cash gw1 = 0 \<and>
      heap gw1 1 = rested_order 1 \<and> fee_bps gw1 = Fin 0"
proof -
  define od where "od = rested_order 0"
  let ?gw2 = "(book_fill gw BUY ''AAPL'' (Fin 10) (Fin 1000) 0)\<lparr>report_counter := 3\<rparr>"
  have h: "heap gw 0 = od" using gw by (simp add: od_def)
  have od: "side od = BUY" "quantity od = Fin 10" "price od = Some (Fin 100)" "is_active od"
    "symbol od = ''AAPL''" "order_type od = LIMIT" "cl_ord_id od = ''a''" "state od = NEW" "filled_quantity od = Fin 0"
    by (simp_all add: od_def two_defs is_active_def)
  obtain r where r: "make_report sample_env 3 od (PStr (exchange_id_or_default od)) ''AAPL'' (PEnum ''OrderState'' ''FILLED'')
      (Fin 10) (Fin 100) (Fin 10) 0 (Fin 1000) (Fin 100) 0 ''Resting limit order matched'' = Inr r"
    using make_report_ok [of od "''AAPL''" "PStr (exchange_id_or_default od)" _ "PEnum ''OrderState'' ''FILLED''" FILLED sample_env 3]
    by (fastforce simp: od sample_env_def)
  have b: "report_counter (book_fill gw BUY ''AAPL'' q n f) = 2" for q n f
    using gw by (simp add: book_fill_def Let_def)
  have f: "fill_resting sample_env ''AAPL'' (Fin 100) gw 0 = apply_and_retire ?gw2 0 r"
    using r by (simp add: fill_resting_def h od b gw fee_of_def Let_def)
  have g2: "heap ?gw2 = heap gw" "cash ?gw2 = 0" "fee_bps ?gw2 = Fin 0"
    using gw by (simp_all add: book_fill_def minus_float64_def Let_def)
  have "report_accepted od r"
    using make_report_InrD(2,7,10) [OF r] ten_le_ten_eps sample_filled_not_regressing
    by (simp add: report_accepted_def od is_terminal_def can_transition_def)
  then have acc: "report_accepted (heap ?gw2 0) r" "str_strip (cl_ord_id (heap ?gw2 0)) \<noteq> []"
    unfolding g2(1) h by (simp_all add: od str_strip_def is_space_def)
  have "snd (apply_and_retire ?gw2 0 r) = Inr r" by (rule apply_and_retire_accepted(1) [OF acc])
  moreover have "heap (fst (apply_and_retire ?gw2 0 r)) 1 = rested_order 1"
    using apply_and_retire_accepted(2) [OF acc, of 1] g2(1) gw(2) by simp
  moreover have "cash (fst (apply_and_retire ?gw2 0 r)) = 0" "fee_bps (fst (apply_and_retire ?gw2 0 r)) = Fin 0"
    using g2 by simp_all
  moreover have "match_one sample_env ''AAPL'' (Fin 100) gw 0 =
      (case apply_and_retire ?gw2 0 r of (gw', Inl e) \<Rightarrow> (gw', Inl e) | (gw', Inr report) \<Rightarrow> (gw', Inr (Some report)))"
    by (simp add: match_one_def h od resting_match_def f Let_def)
  ultimately show ?thesis by (cases "apply_and_retire ?gw2 0 r") simp
qed

text \<open>The margin check covers one order at a time and reserves nothing: two buy orders that each pass
  it can both rest and then fill on one price update, which overdraws the account (here 1000 of cash
  against two fills of 1000).\<close>

theorem gateway_resting_orders_overdraw:
  "cash (foldl (gateway_exec sample_env) two_gw [Submit 0, Submit 1, SetPrice (PStr ''AAPL'') (PInt 100)]) = Fin (- 1000) \<and>
   gateway_inv two_gw"
proof
  let ?gw = "two_rested_gw\<lparr>market_prices := [(''AAPL'', Fin 100)]\<rparr>"
  obtain gw1 rep where f: "match_one sample_env ''AAPL'' (Fin 100) ?gw 0 = (gw1, Inr (Some rep))" "cash gw1 = 0"
    "heap gw1 1 = rested_order 1" "fee_bps gw1 = Fin 0"
    using first_fill [of ?gw] by (auto simp: two_rested_gw_def two_gw_def)
  have "cash (fst (fill_resting sample_env ''AAPL'' (Fin 100) gw1 1)) = Fin (- 1000)"
    using f by (simp add: fill_resting_def book_fill_def fee_of_def two_defs Let_def minus_float64_def split: sum.splits)
  then have "cash (fst (match_one sample_env ''AAPL'' (Fin 100) gw1 1)) = Fin (- 1000)"
    using f(3) by (cases "fill_resting sample_env ''AAPL'' (Fin 100) gw1 1")
      (simp add: match_one_def resting_match_def is_active_def two_defs Let_def split: sum.splits)
  then have m: "cash (fst (match_orders sample_env ''AAPL'' (Fin 100) ?gw [0, 1] [])) = Fin (- 1000)"
    using f(1) by (cases "match_one sample_env ''AAPL'' (Fin 100) gw1 1") (simp split: sum.splits option.splits)
  have strip: "str_strip ''AAPL'' = ''AAPL''" by (simp add: str_strip_def is_space_def)
  have f100: "float_of_int 100 = Fin 100" by (simp add: float_of_int_def)
  have "fst (set_market_price sample_env two_rested_gw (PStr ''AAPL'') (PInt 100)) =
      fst (match_orders sample_env ''AAPL'' (Fin 100) ?gw [0, 1] [])"
    by (simp add: set_market_price_def check_nonblank_def strip int_overflows_def f100 Let_def two_rested_gw_def two_gw_def)
  with m show "cash (foldl (gateway_exec sample_env) two_gw [Submit 0, Submit 1, SetPrice (PStr ''AAPL'') (PInt 100)]) = Fin (- 1000)"
    by (simp add: submit_first submit_second [unfolded One_nat_def])
  show "gateway_inv two_gw"
    by (simp add: gateway_inv_def registry_ok_def prices_ok_def two_defs router_inv_def order_inv_def)
qed

theorem gateway_resting_fill_witness:
  "\<exists>gw' reports. set_market_price sample_env two_gw (PStr ''AAPL'') (PFloat (Fin 100)) = (gw', Inr reports) \<and>
     (\<forall>r \<in> set reports. resting_report two_gw (Fin 100) r)"
proof -
  have strip: "str_strip ''AAPL'' = ''AAPL''" by (simp add: str_strip_def is_space_def)
  obtain gw' where g: "set_market_price sample_env two_gw (PStr ''AAPL'') (PFloat (Fin 100)) = (gw', Inr [])"
    by (simp add: set_market_price_def check_nonblank_def strip two_gw_def Let_def)
  have inv: "gateway_inv two_gw"
    by (simp add: gateway_inv_def registry_ok_def prices_ok_def two_defs router_inv_def order_inv_def)
  show ?thesis using gateway_resting_fill [OF inv g] g by blast
qed

section \<open>An immediate buy\<close>

text \<open>A gateway whose market price is below the limit of the order: the order executes at once if the margin check passes.\<close>

abbreviation market_gw :: "float64 \<Rightarrow> paper_gateway" where
  "market_gw q \<equiv> sample_gw 1000 [(''AAPL'', Fin 90)] (sample_order\<lparr>quantity := q\<rparr>)"

definition acked :: "float64 \<Rightarrow> order" where
  "acked q = sample_order\<lparr>quantity := q, cl_ord_id := ''cl-0'', state := NEW, updated_at_ns := 1, exchange_order_id := Some ''ex-cl-0''\<rparr>"

lemma sample_estimate: "est_fill_price (market_gw q) (heap (market_gw q) 0) = Inr (Fin 90)"
  by (simp add: est_fill_price_def sample_gw_def sample_order_def slip_up_def py_min_def)

lemma sample_power: "required_power (market_gw (Fin 10)) (heap (market_gw (Fin 10)) 0) (Fin 90) = Fin 900"
  by (simp add: required_power_def fee_of_def sample_gw_def)

lemma sample_submits:
  assumes "\<not> Fin 1000 < required_power (market_gw q) (heap (market_gw q) 0) (Fin 90)"
  shows "\<exists>gw2. submit_order sample_env (market_gw q) 0 = execute_now sample_env gw2 0 (Fin 90) \<and> heap gw2 0 = acked q \<and>
    cash gw2 = Fin 1000 \<and> fee_bps gw2 = Fin 0 \<and> slippage_bps gw2 = Fin 0 \<and> report_counter gw2 = 0"
proof -
  have d0: "decimal 0 = ''0''" by (subst decimal.simps) (simp, code_simp)
  have m: "margin_check (market_gw q\<lparr>router := rt, orders := os\<rparr>) (heap (market_gw q) 0) = Inr ()" for rt os
    using assms margin_check_cong [of "market_gw q\<lparr>router := rt, orders := os\<rparr>" "market_gw q" "heap (market_gw q) 0" "heap (market_gw q) 0"]
    by (simp add: margin_check_def sample_estimate) (simp add: sample_gw_def)
  let ?gw1 = "market_gw q\<lparr>router := default_router\<lparr>active_orders := [(''cl-0'', 0)]\<rparr>, orders := [(''cl-0'', 0)]\<rparr>"
  let ?gw2 = "?gw1\<lparr>heap := (heap ?gw1)(0 := acked q)\<rparr>"
  have c: "cl_ord_id (heap (market_gw q) 0) = ''cl-0''" "router (market_gw q) = default_router" "orders (market_gw q) = []"
    by (simp_all add: sample_gw_def d0)
  have a: "acknowledge sample_env ?gw1 0 = (?gw2, Inr ())"
    by (simp add: acknowledge_def transition_def resolve_timestamp_def check_timestamp_def can_transition_def fill_event_def is_terminal_def
        sample_gw_def sample_order_def sample_env_def acked_def d0 fun_eq_iff)
  have e: "execute_or_rest sample_env ?gw2 0 = execute_now sample_env ?gw2 0 (Fin 90)"
    by (simp add: execute_or_rest_def is_marketable_def acked_def sample_gw_def sample_order_def Let_def)
  have "submit_precheck (market_gw q) 0 = Inr ()"
    by (simp add: submit_precheck_def sample_gw_def sample_order_def is_terminal_def Let_def)
  moreover have "submit_commit sample_env (market_gw q) 0 = execute_or_rest sample_env ?gw2 0"
    using m a by (simp add: submit_commit_def c register_order_def Let_def) (simp add: default_router_def)
  ultimately have "submit_order sample_env (market_gw q) 0 = execute_now sample_env ?gw2 0 (Fin 90)" using e by (simp only: submit_order_def sum.case)
  then show ?thesis by (intro exI [of _ ?gw2]) (simp add: sample_gw_def)
qed

lemma sample_executes:
  "\<exists>gw' r. submit_order sample_env (market_gw (Fin 10)) 0 = (gw', Inr r) \<and> exec_type r = FILLED \<and> cash gw' = Fin 100"
proof -
  obtain gw2 where g: "submit_order sample_env (market_gw (Fin 10)) 0 = execute_now sample_env gw2 0 (Fin 90)" "heap gw2 0 = acked (Fin 10)"
    "cash gw2 = Fin 1000" "fee_bps gw2 = Fin 0" "slippage_bps gw2 = Fin 0" "report_counter gw2 = 0"
    using sample_submits [of "Fin 10"] by (auto simp: sample_power)
  have od: "side (acked q) = BUY" "quantity (acked q) = q" "price (acked q) = Some (Fin 100)" "symbol (acked q) = ''AAPL''"
    "order_type (acked q) = LIMIT" "cl_ord_id (acked q) = ''cl-0''" "state (acked q) = NEW" "filled_quantity (acked q) = Fin 0"
    "exchange_order_id (acked q) = Some ''ex-cl-0''" for q by (simp_all add: acked_def sample_order_def)
  let ?gw3 = "(book_fill gw2 BUY ''AAPL'' (Fin 10) (Fin 900) 0)\<lparr>report_counter := 1\<rparr>"
  obtain r where r: "make_report sample_env 1 (acked (Fin 10)) (PStr ''ex-cl-0'') ''AAPL'' (PEnum ''OrderState'' ''FILLED'')
      (Fin 10) (Fin 90) (Fin 10) 0 (Fin 900) (Fin 90) 0 ''Order filled immediately'' = Inr r"
    using make_report_ok [of "acked (Fin 10)" "''AAPL''" "PStr ''ex-cl-0''" _ "PEnum ''OrderState'' ''FILLED''" FILLED sample_env 1]
    by (fastforce simp: od sample_env_def)
  have b: "report_counter (book_fill gw2 BUY ''AAPL'' q n f) = 0" for q n f using g by (simp add: book_fill_def Let_def)
  have px: "exec_fill_price gw2 (acked (Fin 10)) (Fin 90) = Fin 90"
    using g by (simp add: exec_fill_price_def od slip_up_def py_min_def)
  have "execute_now sample_env gw2 0 (Fin 90) = apply_and_retire ?gw3 0 r"
    using r by (simp add: execute_now_def g od px b fee_of_def exchange_id_val_def Let_def)
  moreover have g3: "heap ?gw3 = heap gw2" "cash ?gw3 = Fin 100"
    using g by (simp_all add: book_fill_def minus_float64_def Let_def)
  have "report_accepted (acked (Fin 10)) r"
    using make_report_InrD(2,7,10) [OF r] ten_le_ten_eps sample_filled_not_regressing
    by (simp add: report_accepted_def od is_terminal_def can_transition_def)
  then have acc: "report_accepted (heap ?gw3 0) r" "str_strip (cl_ord_id (heap ?gw3 0)) \<noteq> []"
    unfolding g3(1) g(2) by (simp_all add: od str_strip_def is_space_def)
  have "snd (apply_and_retire ?gw3 0 r) = Inr r" by (rule apply_and_retire_accepted(1) [OF acc])
  moreover have "cash (fst (apply_and_retire ?gw3 0 r)) = Fin 100" using g3 by simp
  moreover have "exec_type r = FILLED" using make_report_InrD(10) [OF r] by simp
  ultimately show ?thesis using g(1) by (intro exI [of _ "fst (apply_and_retire ?gw3 0 r)"] exI [of _ r]) (simp add: prod_eq_iff)
qed

theorem gateway_buy_never_overdraws_witness:
  "\<exists>gw' r. submit_order sample_env (market_gw (Fin 10)) 0 = (gw', Inr r) \<and> exec_type r = FILLED \<and> cash gw' = Fin 100 \<and> 0 \<le> cash gw'"
proof -
  obtain gw' r where g: "submit_order sample_env (market_gw (Fin 10)) 0 = (gw', Inr r)" "exec_type r = FILLED" "cash gw' = Fin 100" using sample_executes by blast
  have h: "side (heap (market_gw (Fin 10)) 0) = BUY" "isfinite (cash (market_gw (Fin 10)))" "0 \<le> cash (market_gw (Fin 10))" by (simp_all add: sample_gw_def sample_order_def)
  have "\<forall>est. est_fill_price (market_gw (Fin 10)) (heap (market_gw (Fin 10)) 0) = Inr est \<longrightarrow> required_power (market_gw (Fin 10)) (heap (market_gw (Fin 10)) 0) est \<noteq> NaN"
    using sample_estimate sample_power by auto
  from gateway_buy_never_overdraws [OF h this g(1)] g show ?thesis by blast
qed

text \<open>An order so large that its notional overflows passes the margin check of a gateway without fees: an infinite notional has the fee
  NaN, and no cash balance is below NaN. The fill is booked, and the cash balance is NaN from then on.\<close>

theorem overflow_passes_margin_check:
  "\<exists>gw' e. submit_order sample_env (market_gw (Fin (two_pow 1023))) 0 = (gw', Inl e) \<and> cash gw' = NaN"
proof -
  let ?q = "Fin (two_pow 1023)"
  have "max_exp \<le> 90 * two_pow 1023" using two_pow_add [of 1 1023] by (simp add: max_exp_def two_pow_def [of 1])
  then have "max_exp \<le> rnd (90 * two_pow 1023)" using rnd_mono [of max_exp] rnd_two_pow [of 1024] by (simp add: max_exp_def)
  then have ov: "rnd64 (90 * two_pow 1023) = PInf" by (simp add: rnd64_def Let_def)
  have "required_power (market_gw ?q) (heap (market_gw ?q) 0) (Fin 90) = NaN"
    using ov by (simp add: required_power_def fee_of_def sample_gw_def) (simp add: zero_float64_def)
  then obtain gw2 where g: "submit_order sample_env (market_gw ?q) 0 = execute_now sample_env gw2 0 (Fin 90)" "heap gw2 0 = acked ?q"
    "cash gw2 = Fin 1000" "fee_bps gw2 = Fin 0" "slippage_bps gw2 = Fin 0" "report_counter gw2 = 0"
    using sample_submits [of ?q] by (auto simp: less_float64_def)
  have px: "exec_fill_price gw2 (acked ?q) (Fin 90) = Fin 90"
    using g by (simp add: exec_fill_price_def acked_def sample_order_def slip_up_def py_min_def)
  have od: "side (acked ?q) = BUY" "quantity (acked ?q) = ?q" by (simp_all add: acked_def sample_order_def)
  have fee: "fee_of gw2 PInf = NaN" using g(4) by (simp add: fee_of_def zero_float64_def)
  have bad: "\<exists>e. make_report ev k od ex sy et lq lp cq lv ca avg NaN tx = Inl e" for ev k od ex sy et lq lp cq lv ca avg tx
    using make_report_InrD(13) [of ev k od ex sy et lq lp cq lv ca avg NaN tx]
    by (cases "make_report ev k od ex sy et lq lp cq lv ca avg NaN tx") auto
  have "cash (book_fill gw2 BUY sy ?q PInf NaN) = NaN" for sy by (simp add: book_fill_def minus_float64_def g(3) Let_def)
  moreover obtain e where "make_report sample_env (Suc (report_counter gw2)) (acked ?q) (exchange_id_val (acked ?q)) (symbol (acked ?q))
      (PEnum ''OrderState'' ''FILLED'') ?q (Fin 90) ?q 0 PInf (Fin 90) NaN ''Order filled immediately'' = Inl e" using bad by blast
  ultimately have "\<exists>gw' e. execute_now sample_env gw2 0 (Fin 90) = (gw', Inl e) \<and> cash gw' = NaN"
    by (simp add: execute_now_def g(2) px od ov fee Let_def)
  then show ?thesis by (simp add: g(1))
qed

end
