(* ===== verification/Py_Sum.thy ===== *)
theory Py_Sum
  imports Py_Float
begin

text \<open>
  Error analysis of Python's compensated \<^verbatim>\<open>sum\<close> and of the naive running sum, for non-negative doubles.
  CPython compensates sums of floats since version 3.12. The project is built, checked and deployed with 3.13 (\<^verbatim>\<open>Dockerfile\<close>,
  continuous integration, \<^verbatim>\<open>pyproject.toml\<close> targets); on 3.11, which \<^verbatim>\<open>requires-python\<close> still admits, \<^verbatim>\<open>sum\<close> is the naive running
  sum. Sums of whole numbers below \<open>2 ^ 53\<close> are exact in both.

  The correction term of the compensated sum of \<open>n\<close> numbers is at most \<open>16 n\<close> half-ulps of the running sum
  (\<open>cs_ok\<close>), so that for fewer than \<open>2 ^ 17\<close> summands the result is positive (\<open>py_sum_pos\<close>) and
  \<^verbatim>\<open>math.isclose\<close> to the naive sum (\<open>py_sum_isclose\<close>). Sums of whole numbers below \<open>2 ^ 53\<close> are exact.
\<close>

abbreviation ulp_half :: rat where
  "ulp_half \<equiv> two_pow (- 53)"

abbreviation tiny :: rat where
  "tiny \<equiv> two_pow (- 1074)"

lemma rnd_error_abs: "\<bar>rnd x - x\<bar> \<le> \<bar>x\<bar> * ulp_half + tiny"
proof (cases "two_pow (- 1022) \<le> \<bar>x\<bar>")
  case True
  then show ?thesis using rnd_error [of x] two_pow_pos [of "- 1074"] by linarith
next
  case False
  show ?thesis
  proof (cases "x = 0")
    case False
    then have "two_pow (ilog2 \<bar>x\<bar>) < two_pow (- 1022)"
      using ilog2_bounds [of "\<bar>x\<bar>"] \<open>\<not> two_pow (- 1022) \<le> \<bar>x\<bar>\<close> by auto
    then have q: "quantum x = - 1074" using two_pow_less_imp by (fastforce simp: quantum_def)
    have "\<bar>rnd x - x\<bar> = \<bar>of_int (round_half_even (x / tiny)) - x / tiny\<bar> * tiny"
    proof -
      have "rnd x - x = (of_int (round_half_even (x / tiny)) - x / tiny) * tiny"
        using False by (simp add: rnd_def q left_diff_distrib)
      then show ?thesis by (simp add: abs_mult)
    qed
    also have "\<dots> \<le> 1 / 2 * tiny" by (intro mult_right_mono round_half_even_error) simp
    also have "\<dots> \<le> \<bar>x\<bar> * ulp_half + tiny" by (simp add: add_increasing)
    finally show ?thesis .
  qed simp
qed

lemma ulp_half_val: "ulp_half = 1 / 9007199254740992" by (simp add: two_pow_def)

lemma tiny_le: "1024 * tiny \<le> two_pow (- 100) * ulp_half"
  using two_pow_mono [of "- 1064" "- 153"] two_pow_add [of "- 100" "- 53"] two_pow_add [of 10 "- 1074"]
  by (simp add: two_pow_def [of 10])

text \<open>One step of the compensated sum of positive numbers: the correction is at most eight half-ulps of the new sum.\<close>

lemma comp_bound:
  fixes h x t d c :: rat
  assumes "two_pow (- 100) \<le> h" and "0 \<le> x" and "x \<le> h"
    and t: "t = rnd (h + x)" "h \<le> t" and d: "d = rnd (h - t)" and c: "c = rnd (d + x)"
  shows "\<bar>c\<bar> \<le> 8 * ulp_half * t"
proof -
  have tu: "1024 * tiny \<le> t * ulp_half"
  proof -
    have "two_pow (- 100) * ulp_half \<le> t * ulp_half" using assms(1) t(2) by (intro mult_right_mono) auto
    then show ?thesis using tiny_le by (rule order_trans [rotated])
  qed
  have e0: "\<bar>t - (h + x)\<bar> \<le> 2 * t * ulp_half + tiny"
  proof -
    have "\<bar>t - (h + x)\<bar> \<le> (h + x) * ulp_half + tiny"
      using rnd_error_abs [of "h + x"] assms(1,2) two_pow_pos [of "- 100"] by (simp add: t(1) abs_of_nonneg)
    also have "\<dots> \<le> 2 * t * ulp_half + tiny"
      using assms(3) t(2) mult_right_mono [of "h + x" "2 * t" ulp_half] by simp
    finally show ?thesis .
  qed
  have e1: "\<bar>d - (h - t)\<bar> \<le> t * ulp_half + tiny"
  proof -
    have "\<bar>h - t\<bar> \<le> t" using assms(1) t(2) two_pow_pos [of "- 100"] by linarith
    then have "\<bar>h - t\<bar> * ulp_half \<le> t * ulp_half" by (intro mult_right_mono) auto
    then show ?thesis using rnd_error_abs [of "h - t"] unfolding d by linarith
  qed
  have s: "\<bar>d + x\<bar> \<le> 3 * (t * ulp_half) + 2 * tiny" using e0 e1 by linarith
  have "\<bar>c - (d + x)\<bar> \<le> \<bar>d + x\<bar> * ulp_half + tiny" using rnd_error_abs [of "d + x"] by (simp add: c)
  moreover have "\<bar>d + x\<bar> * ulp_half \<le> \<bar>d + x\<bar>" by (simp add: ulp_half_val)
  moreover have "\<bar>c\<bar> \<le> \<bar>c - (d + x)\<bar> + \<bar>d + x\<bar>" by linarith
  moreover have "r \<le> 2 * q + w" if "p \<le> m + w" "m \<le> q" "r \<le> p + q" for p q r m w :: rat using that by linarith
  ultimately have "\<bar>c\<bar> \<le> 2 * \<bar>d + x\<bar> + tiny" by blast
  moreover have "r \<le> 8 * m" if "r \<le> 2 * q + w" "q \<le> 3 * m + 2 * w" "1024 * w \<le> m" "0 \<le> w" for r q m w :: rat
    using that by linarith
  ultimately have "\<bar>c\<bar> \<le> 8 * (t * ulp_half)" using s tu two_pow_nonneg by blast
  then show ?thesis by (simp add: mult.assoc mult.commute)
qed


lemma rnd64_bounded: "\<bar>y\<bar> \<le> t \<Longrightarrow> rnd t = t \<Longrightarrow> t < max_exp \<Longrightarrow> rnd64 y = Fin (rnd y)"
  using rnd_mono [of y t] rnd_mono [of "- t" y] by (auto simp: rnd64_def Let_def rnd_odd abs_le_iff)

text \<open>The running state after \<open>k\<close> additions: overflowed, or a sum whose correction is relatively small.\<close>

definition cs_ok :: "nat \<Rightarrow> float64 \<times> float64 \<Rightarrow> bool" where
  "cs_ok k st \<longleftrightarrow> fst st = PInf \<and> \<not> isfinite (snd st) \<or>
     (\<exists>h l. st = (Fin h, Fin l) \<and> two_pow (- 100) \<le> h \<and> is_double (Fin h) \<and> \<bar>l\<bar> \<le> 16 * of_nat k * ulp_half * h)"

lemma cs_correction:
  assumes "two_pow (- 100) \<le> h" "is_double (Fin h)" "0 \<le> a" "is_double (Fin a)" and t: "rnd64 (h + a) = Fin t"
  shows "\<And>l. \<exists>c. snd (cs_add (Fin h, Fin l) (Fin a)) = Fin l + Fin c \<and> \<bar>c\<bar> \<le> 8 * ulp_half * t" and "h \<le> t" and "rnd t = t" "t < max_exp"
proof -
  have h: "0 < h" using assms(1) two_pow_pos [of "- 100"] by linarith
  have "rnd h = h" and a: "rnd a = a" using assms(2,4) by (auto dest: rnd64_FinD)
  note h = h this(1)
  have t': "t = rnd (h + a)" "rnd t = t" "t < max_exp" using rnd64_FinD [OF t] by auto
  have le: "h \<le> t" "a \<le> t" using rnd_mono [of h "h + a"] rnd_mono [of a "h + a"] h a assms(3) t'(1) by auto
  show "h \<le> t" "rnd t = t" "t < max_exp" using le t' by auto
  have core: "\<exists>c. (Fin p - Fin t) + Fin q = Fin c \<and> \<bar>c\<bar> \<le> 8 * ulp_half * t"
    if "two_pow (- 100) \<le> p" "0 \<le> q" "q \<le> p" "t = rnd (p + q)" "p \<le> t" for p q
  proof -
    have p: "0 < p" using that(1) two_pow_pos [of "- 100"] by linarith
    have d: "rnd64 (p - t) = Fin (rnd (p - t))" using p that(5) t' by (intro rnd64_bounded) auto
    have "- t \<le> rnd (p - t)" "rnd (p - t) \<le> 0"
      using b64.r_lower [of "- t" "p - t"] t'(2) p b64.r_nonpos [of "p - t"] that(5) by (auto simp: rnd_odd)
    then have "rnd64 (rnd (p - t) + q) = Fin (rnd (rnd (p - t) + q))"
      using that t' by (intro rnd64_bounded) auto
    then show ?thesis using comp_bound [OF that(1-4) that(5) refl refl] d by (simp add: minus_float64_def)
  qed
  show "\<exists>c. snd (cs_add (Fin h, Fin l) (Fin a)) = Fin l + Fin c \<and> \<bar>c\<bar> \<le> 8 * ulp_half * t" for l
  proof (cases "a \<le> h")
    case True
    then show ?thesis using core [of h a] assms(1,3) le t'(1) t h(1) by (auto simp: Let_def)
  next
    case False
    then show ?thesis using core [of a h] assms(1,3) le t'(1) t h(1) by (auto simp: Let_def add.commute)
  qed
qed

lemma cs_ok_step:
  assumes "cs_ok k st" and "0 \<le> a" "is_double (Fin a)" and "k < 2 ^ 48"
  shows "cs_ok (Suc k) (cs_add st (Fin a))"
proof (cases "fst st = PInf")
  case True
  then have "\<not> isfinite (snd st)" using assms(1) by (auto simp: cs_ok_def)
  with True show ?thesis
    by (cases st; cases "snd st") (auto simp: cs_ok_def Let_def minus_float64_def)
next
  case False
  then obtain h l where st: "st = (Fin h, Fin l)" "two_pow (- 100) \<le> h" "is_double (Fin h)"
    "\<bar>l\<bar> \<le> 16 * of_nat k * ulp_half * h" using assms(1) by (auto simp: cs_ok_def)
  have h: "0 < h" using st(2) two_pow_pos [of "- 100"] by linarith
  have "0 \<le> rnd64 (h + a)" using h assms(2) by simp
  then consider (inf) "rnd64 (h + a) = PInf" | (fin) t where "rnd64 (h + a) = Fin t" by (cases "rnd64 (h + a)") auto
  then show ?thesis
  proof cases
    case inf
    then show ?thesis by (auto simp: st(1) cs_ok_def Let_def minus_float64_def)
  next
    case fin
    obtain c where c: "snd (cs_add st (Fin a)) = Fin l + Fin c" "\<bar>c\<bar> \<le> 8 * ulp_half * t"
      and t: "h \<le> t" "rnd t = t" "t < max_exp"
      using cs_correction [OF st(2,3) assms(2,3) fin] st(1) by metis
    have k: "of_nat k * 16 + 8 \<le> (2 ^ 53 :: rat)"
    proof -
      have "of_nat k < (of_nat (2 ^ 48) :: rat)" using assms(4) of_nat_less_iff by blast
      then show ?thesis by simp
    qed
    let ?b = "(16 * of_nat k + 8) * ulp_half * t"
    have "\<bar>l\<bar> \<le> 16 * of_nat k * ulp_half * t"
      using st(4) t(1) by (meson mult_left_mono order_trans two_pow_nonneg zero_le_mult_iff of_nat_0_le_iff zero_le_numeral)
    then have b: "\<bar>l + c\<bar> \<le> ?b" using c(2) by (simp add: algebra_simps)
    have b1: "?b \<le> t" using k h t(1) mult_right_mono [of "(16 * of_nat k + 8) * ulp_half" 1 t] by (simp add: ulp_half_val)
    have lo: "rnd64 (l + c) = Fin (rnd (l + c))" using b b1 t by (intro rnd64_bounded) auto
    have "\<bar>rnd (l + c)\<bar> \<le> \<bar>l + c\<bar> + (\<bar>l + c\<bar> * ulp_half + tiny)" using rnd_error_abs [of "l + c"] by linarith
    also have "\<dots> \<le> ?b + (t * ulp_half + tiny)"
    proof -
      have "\<bar>l + c\<bar> * ulp_half \<le> t * ulp_half" using b b1 by (intro mult_right_mono) auto
      then show ?thesis using b by linarith
    qed
    also have "\<dots> \<le> 16 * of_nat (Suc k) * ulp_half * t"
    proof -
      have "two_pow (- 100) * ulp_half \<le> t * ulp_half" using st(2) t(1) by (intro mult_right_mono) auto
      then have "tiny \<le> t * ulp_half" using tiny_le two_pow_nonneg [of "- 1074"] by linarith
      moreover have "16 * of_nat (Suc k) * ulp_half * t = ?b + 8 * (t * ulp_half)" by (simp add: algebra_simps)
      moreover have "0 \<le> t * ulp_half" using h t(1) by simp
      ultimately show ?thesis by linarith
    qed
    finally show ?thesis
      using c(1) lo t st fin h rnd64_exact [of t] by (auto simp: cs_ok_def Let_def intro!: exI [of _ t])
  qed
qed


lemma cs_fold_fst: "fst (foldl cs_add st xs) = foldl (+) (fst st) xs"
  by (induction xs arbitrary: st) (auto simp: Let_def split: prod.splits)

lemma cs_fold_ok:
  assumes "cs_ok k st" and "list_all (\<lambda>x. isfinite x \<and> 0 \<le> x \<and> is_double x) xs" and "k + length xs < 2 ^ 48"
  shows "cs_ok (k + length xs) (foldl cs_add st xs)"
  using assms
proof (induction xs arbitrary: k st)
  case (Cons x xs)
  obtain a where x: "x = Fin a" "0 \<le> a" "is_double (Fin a)" using Cons.prems(2) by auto
  have "cs_ok (Suc k) (cs_add st x)" using cs_ok_step [OF Cons.prems(1) x(2,3)] Cons.prems(3) by (simp add: x(1))
  then show ?case using Cons.IH [of "Suc k" "cs_add st x"] Cons.prems(2,3) by simp
qed simp

text \<open>The compensated and the naive sum of positive doubles: both overflow, or the compensated one is positive
  and the two are close.\<close>

lemma py_sum_cases:
  assumes "list_all (\<lambda>x. isfinite x \<and> 0 \<le> x \<and> is_double x) (x # xs)" and "two_pow (- 100) \<le> a" "x = Fin a"
    and "length xs < 2 ^ 48"
  obtains (inf) "py_sum (x # xs) = PInf" "foldl (+) 0 (x # xs) = PInf"
  | (fin) h l where "foldl (+) 0 (x # xs) = Fin h" "py_sum (x # xs) = rnd64 (h + l)" "two_pow (- 100) \<le> h"
      "rnd64 h = Fin h" "\<bar>l\<bar> \<le> 16 * of_nat (length xs) * ulp_half * h"
proof -
  let ?st = "foldl cs_add (0 + x, 0) xs"
  have x: "0 + x = Fin a" "is_double (Fin a)" using assms(1,3) by auto
  have "cs_ok 0 (0 + x, 0)" using x assms(2) by (simp add: cs_ok_def zero_float64_def)
  then have ok: "cs_ok (length xs) ?st" using cs_fold_ok [of 0 "(0 + x, 0)" xs] assms(1,4) by simp
  have f: "fst ?st = foldl (+) 0 (x # xs)" by (simp add: cs_fold_fst)
  from ok consider (a) "fst ?st = PInf" "\<not> isfinite (snd ?st)"
    | (b) h l where "?st = (Fin h, Fin l)" "two_pow (- 100) \<le> h" "is_double (Fin h)" "\<bar>l\<bar> \<le> 16 * of_nat (length xs) * ulp_half * h"
    by (auto simp: cs_ok_def)
  then show thesis
  proof cases
    case a
    then show ?thesis using inf f by (cases ?st) auto
  next
    case b
    then have "py_sum (x # xs) = rnd64 (h + l)" by auto
    moreover have "foldl (+) 0 (x # xs) = Fin h" using f b(1) by simp
    ultimately show ?thesis using fin [of h l] b by simp
  qed
qed

lemma small_correction:
  fixes h l :: rat
  assumes "\<bar>l\<bar> \<le> 16 * of_nat n * ulp_half * h" and "n < 2 ^ 17" and "0 \<le> h"
  shows "\<bar>l\<bar> \<le> h / 2 ^ 32"
proof -
  have "of_nat n * 16 * ulp_half \<le> (1 / 2 ^ 32 :: rat)"
  proof -
    have "of_nat n < (of_nat (2 ^ 17) :: rat)" using assms(2) of_nat_less_iff by blast
    then show ?thesis by (simp add: ulp_half_val)
  qed
  then have "16 * of_nat n * ulp_half * h \<le> 1 / 2 ^ 32 * h" using assms(3) by (intro mult_right_mono) (simp_all add: mult.commute)
  then show ?thesis using assms(1) by simp
qed

lemma py_sum_pos:
  assumes "list_all (\<lambda>x. isfinite x \<and> 0 \<le> x \<and> is_double x) (x # xs)" and "Fin (two_pow (- 100)) \<le> x" and "length xs < 2 ^ 17"
  shows "0 < py_sum (x # xs)"
proof -
  obtain a where a: "x = Fin a" using assms(1) by auto
  with assms(2) have b: "two_pow (- 100) \<le> a" by simp
  have n: "length xs < 2 ^ 48" using assms(3) by simp
  show ?thesis
  proof (cases rule: py_sum_cases [OF assms(1) b a n, case_names inf fin])
    case (fin h l)
    have h: "0 < h" using fin(3) two_pow_pos [of "- 100"] by linarith
    have "\<bar>l\<bar> \<le> h / 2 ^ 32" using fin(5) assms(3) h by (intro small_correction) auto
    then have "h / 2 \<le> h + l" using h by (simp add: field_simps abs_le_iff)
    moreover have "two_pow (- 101) \<le> h / 2" using fin(3) two_pow_diff [of "- 100" 1] by (simp add: two_pow_def [of 1])
    ultimately have "two_pow (- 101) \<le> h + l" by linarith
    then have "rnd64 (two_pow (- 101)) \<le> py_sum (x # xs)" unfolding fin(2) by (rule rnd64_mono)
    moreover have "rnd64 (two_pow (- 101)) = Fin (two_pow (- 101))" using rnd64_dyadic [of 1 "- 101"] by simp
    ultimately show ?thesis by (cases "py_sum (x # xs)") (auto intro: less_le_trans [OF two_pow_pos])
  qed simp
qed

lemma abs_rnd64: "\<bar>rnd64 x\<bar> = rnd64 \<bar>x\<bar>"
  using b64.r_nonneg [of x] b64.r_nonpos [of x] max_exp_pos(1)
  by (cases "0 \<le> x") (auto simp: rnd64_def Let_def rnd_odd simp del: max_exp_pos)

lemma abs_rnd64_mono: "\<bar>x\<bar> \<le> \<bar>y\<bar> \<Longrightarrow> \<bar>rnd64 x\<bar> \<le> \<bar>rnd64 y\<bar>"
  by (simp add: abs_rnd64 rnd64_mono)

lemma py_sum_isclose:
  assumes "list_all (\<lambda>x. isfinite x \<and> 0 \<le> x \<and> is_double x) (x # xs)" and "Fin (two_pow (- 100)) \<le> x" and "length xs < 2 ^ 17"
    and "isfinite (py_sum (x # xs))"
  shows "isclose tol (foldl (+) 0 (x # xs)) (py_sum (x # xs))"
proof -
  obtain a where a: "x = Fin a" using assms(1) by auto
  with assms(2) have b: "two_pow (- 100) \<le> a" by simp
  have n: "length xs < 2 ^ 48" using assms(3) by simp
  show ?thesis
  proof (cases rule: py_sum_cases [OF assms(1) b a n, case_names inf fin])
    case (fin h l)
    have h: "0 < h" using fin(3) two_pow_pos [of "- 100"] by linarith
    obtain v where v: "rnd64 (h + l) = Fin v" using assms(4) fin(2) by auto
    obtain rel where rel: "flit (1 / 10 ^ 9) = Fin rel" using flit_power_ten [of 9] by auto
    have l: "\<bar>l\<bar> \<le> h / 2 ^ 32" using fin(5) assms(3) h by (intro small_correction) auto
    have "v = rnd (h + l)" using rnd64_FinD [OF v] by simp
    then have "\<bar>v - (h + l)\<bar> \<le> \<bar>h + l\<bar> * ulp_half + tiny" using rnd_error_abs by simp
    moreover have "\<bar>h + l\<bar> * ulp_half \<le> 2 * h * ulp_half" using l h by (intro mult_right_mono) auto
    moreover have "tiny \<le> h * ulp_half"
    proof -
      have "two_pow (- 100) * ulp_half \<le> h * ulp_half" using fin(3) by (intro mult_right_mono) auto
      then show ?thesis using tiny_le two_pow_nonneg [of "- 1074"] by linarith
    qed
    ultimately have "\<bar>v - h\<bar> \<le> h / 2 ^ 32 + 3 * h * ulp_half" using l by linarith
    also have "\<dots> \<le> h / 2 ^ 30" using h by (simp add: ulp_half_val field_simps)
    also have "\<dots> \<le> rel * h"
    proof -
      have "rnd64 (two_pow (- 30)) \<le> rnd64 (1 / 10 ^ 9)" by (rule rnd64_mono) (simp add: two_pow_def)
      moreover have "rnd64 (two_pow (- 30)) = Fin (two_pow (- 30))" using rnd64_dyadic [of 1 "- 30"] by simp
      ultimately have "1 / 2 ^ 30 \<le> rel" using rel by (simp add: two_pow_def)
      then show ?thesis using h mult_right_mono [of "1 / 2 ^ 30" rel h] by simp
    qed
    finally have "\<bar>v - h\<bar> \<le> rel * h" .
    then have "\<bar>rnd64 (v - h)\<bar> \<le> \<bar>rnd64 (rel * h)\<bar>"
      by (intro abs_rnd64_mono) linarith
    then show ?thesis using fin(1,2) v rel by (simp add: isclose_def Let_def minus_float64_def)
  qed (use assms(4) in simp)
qed


section \<open>Whole numbers are summed exactly\<close>

abbreviation whole :: "int \<Rightarrow> float64" where
  "whole k \<equiv> Fin (of_int k)"

lemma whole_add: "\<bar>a + b\<bar> < 2 ^ 53 \<Longrightarrow> whole a + whole b = whole (a + b)"
  using rnd64_of_int [of "a + b"] by simp

lemma whole_diff: "\<bar>a - b\<bar> < 2 ^ 53 \<Longrightarrow> whole a - whole b = whole (a - b)"
  using rnd64_of_int [of "a - b"] by (simp add: minus_float64_def)

lemma whole_round: "\<bar>a\<bar> < 2 ^ 53 \<Longrightarrow> py_round n (whole a) = whole a"
proof -
  have "round_half_even (of_int a * 10 ^ n) = a * 10 ^ n"
    using round_half_even_of_int [of "a * 10 ^ n"] by simp
  moreover assume "\<bar>a\<bar> < 2 ^ 53"
  ultimately show ?thesis using rnd64_of_int [of a] by simp
qed

lemma naive_sum_whole:
  assumes "list_all (\<lambda>k. 0 \<le> k) ks" and "0 \<le> s" and "s + sum_list ks < 2 ^ 53"
  shows "foldl (+) (whole s) (map whole ks) = whole (s + sum_list ks)"
  using assms
proof (induction ks arbitrary: s)
  case (Cons k ks)
  have "0 \<le> sum_list ks" using Cons.prems(1) by (auto simp: list_all_iff intro: sum_list_nonneg)
  then have "whole s + whole k = whole (s + k)" using Cons.prems by (intro whole_add) auto
  then show ?case using Cons.IH [of "s + k"] Cons.prems by (simp add: add.assoc)
qed simp

lemma cs_add_whole:
  "0 \<le> s \<Longrightarrow> 0 \<le> k \<Longrightarrow> s + k < 2 ^ 53 \<Longrightarrow> cs_add (whole s, 0) (whole k) = (whole (s + k), 0)"
  using whole_add [of s k] whole_diff [of s "s + k"] whole_diff [of k "s + k"] whole_add [of "- k" k] whole_add [of "- s" s]
  by (auto simp: Let_def zero_float64_def)

lemma py_sum_whole:
  assumes "list_all (\<lambda>k. 0 \<le> k) ks" and "sum_list ks < 2 ^ 53"
  shows "py_sum (map whole ks) = whole (sum_list ks)"
proof -
  have c: "foldl cs_add (whole s, 0) (map whole js) = (whole (s + sum_list js), 0)"
    if "list_all (\<lambda>k. 0 \<le> k) js" "0 \<le> s" "s + sum_list js < 2 ^ 53" for s js
    using that
  proof (induction js arbitrary: s)
    case (Cons k js)
    have "0 \<le> sum_list js" using Cons.prems(1) by (auto simp: list_all_iff intro: sum_list_nonneg)
    then have "cs_add (whole s, 0) (whole k) = (whole (s + k), 0)" using Cons.prems by (intro cs_add_whole) auto
    then show ?case using Cons.IH [of "s + k"] Cons.prems by (simp add: add.assoc)
  qed simp
  show ?thesis
  proof (cases ks)
    case (Cons k js)
    have "0 \<le> sum_list js" using assms(1) Cons by (auto simp: list_all_iff intro: sum_list_nonneg)
    then have "0 + whole k = whole k" using assms Cons rnd64_of_int [of k] by simp
    then show ?thesis using c [of js k] assms Cons by (simp add: feq_def)
  qed (simp add: zero_float64_def)
qed

end
