(* ===== verification/Tax_Lot.thy ===== *)
theory Tax_Lot
  imports Order_Model Py_Sum
begin

text \<open>
  The tax-lot inventory engine of \<^verbatim>\<open>execution/tax_lot.py\<close>.

  An engine keeps, for each symbol, the list of lots in the order they were opened. A fill either opens a
  lot (\<^verbatim>\<open>is_increasing\<close>) or is matched against the open lots, oldest first (FIFO) or newest first (LIFO),
  and what is left of it flips the position. The code mutates the lot objects in place and can raise after
  it has done so; \<open>allocate_fill\<close> therefore returns the engine together with the result or the exception.
  Lots are addressed by their index in the list of their symbol. The uuid4 texts are a parameter, numbered
  in the order of the calls; so is the clock.

  Properties: an inventory invariant that every call keeps, raising or not; exact conservation and
  termination without an exception for whole-share quantities; the matching order; and the two exceptions
  that leave the inventory changed.
\<close>

section \<open>Data\<close>

datatype tax_lot_method = FIFO | LIFO

datatype lot_side = LONG | SHORT

datatype lot_status = OPEN | PARTIAL | CLOSED

text \<open>\<^verbatim>\<open>datetime\<close> in microseconds: of the UTC instant for an aware value, of the clock reading for a naive
  one. The two kinds cannot be compared or subtracted.\<close>

datatype datetime = Aware int | Naive int

fun dt_us :: "datetime \<Rightarrow> int" where
  "dt_us (Aware t) = t"
| "dt_us (Naive t) = t"

fun dt_aware :: "datetime \<Rightarrow> bool" where
  "dt_aware (Aware _) \<longleftrightarrow> True"
| "dt_aware (Naive _) \<longleftrightarrow> False"

text \<open>\<^verbatim>\<open>(a - b).total_seconds()\<close>\<close>

definition seconds_between :: "datetime \<Rightarrow> datetime \<Rightarrow> float64 res" where
  "seconds_between a b =
     (if dt_aware a \<noteq> dt_aware b then Inl (PyErr TypeError)
      else Inr (rnd64 (of_int (dt_us a - dt_us b) / 10 ^ 6)))"

record tax_lot =
  lot_id :: string
  lot_portfolio_id :: string
  lot_symbol :: string
  lot_side :: lot_side
  open_timestamp :: datetime
  original_quantity :: float64
  remaining_quantity :: float64
  cost_basis_per_share :: float64
  lot_status :: lot_status

record realized_gain =
  trade_id :: string
  gain_portfolio_id :: string
  gain_lot_id :: string
  gain_symbol :: string
  gain_side :: string
  close_timestamp :: datetime
  gain_quantity :: float64
  execution_price :: float64
  cost_basis :: float64
  realized_pnl :: float64
  holding_period_seconds :: float64

record fill_allocation =
  allocated_trades :: "realized_gain list"
  new_open_lots :: "tax_lot list"
  depleted_lots :: "tax_lot list"
  total_realized_pnl :: float64
  remaining_position :: float64

record tax_engine =
  engine_portfolio_id :: string
  default_method :: tax_lot_method
  allow_shorting :: bool
  engine_lots :: "(string \<times> tax_lot list) list"

abbreviation BadLedgerInput :: exn where
  "BadLedgerInput \<equiv> Lot NonFiniteLedgerInputError"

definition tax_lot_new :: "tax_lot \<Rightarrow> tax_lot res" where
  "tax_lot_new l =
     (if original_quantity l \<le> 0 \<or> \<not> isfinite (original_quantity l) then Inl BadLedgerInput
      else if remaining_quantity l < 0 \<or> \<not> isfinite (remaining_quantity l) then Inl BadLedgerInput
      else if cost_basis_per_share l \<le> 0 \<or> \<not> isfinite (cost_basis_per_share l) then Inl BadLedgerInput
      else Inr l)"

definition tax_engine_new :: "string \<Rightarrow> tax_lot_method \<Rightarrow> bool \<Rightarrow> tax_engine" where
  "tax_engine_new pid m shorting =
     \<lparr>engine_portfolio_id = pid, default_method = m, allow_shorting = shorting, engine_lots = []\<rparr>"

section \<open>Queries\<close>

definition lot_eps :: float64 where
  "lot_eps = flit (1 / 10 ^ 8)"

definition lot_open :: "tax_lot \<Rightarrow> bool" where
  "lot_open l \<longleftrightarrow> lot_eps < remaining_quantity l"

definition get_open_lots :: "tax_engine \<Rightarrow> string option \<Rightarrow> tax_lot list" where
  "get_open_lots eng so =
     (case so of
        Some s \<Rightarrow> filter lot_open (dict_get_default (engine_lots eng) s [])
      | None \<Rightarrow> concat (map (\<lambda>(s, ls). filter lot_open ls) (engine_lots eng)))"

definition get_position :: "tax_engine \<Rightarrow> string \<Rightarrow> float64" where
  "get_position eng s =
     (case get_open_lots eng (Some s) of
        [] \<Rightarrow> 0
      | l # ls \<Rightarrow>
          let total_qty = py_sum (map remaining_quantity (l # ls))
          in if lot_side l = LONG then total_qty else - total_qty)"

definition get_unrealized_pnl :: "tax_engine \<Rightarrow> string \<Rightarrow> float64 \<Rightarrow> float64 res" where
  "get_unrealized_pnl eng s current_price =
     (if \<not> isfinite current_price \<or> current_price \<le> 0 then Inl BadLedgerInput
      else Inr (py_round 4 (foldl (\<lambda>unrealized l.
        let market_val = remaining_quantity l * current_price;
            cost_val = remaining_quantity l * cost_basis_per_share l
        in if lot_side l = LONG then unrealized + (market_val - cost_val) else unrealized + (cost_val - market_val))
        0 (get_open_lots eng (Some s)))))"

section \<open>Conservation check\<close>

definition verify_inventory_conservation :: "tax_engine \<Rightarrow> string \<Rightarrow> unit res" where
  "verify_inventory_conservation eng s =
     (let all_lots = dict_get_default (engine_lots eng) s []
      in if list_ex (\<lambda>l. remaining_quantity l < 0) all_lots then Inl (Lot NegativeInventoryError)
         else
           case filter lot_open all_lots of
             [] \<Rightarrow> Inr ()
           | l # ls \<Rightarrow>
               if list_ex (\<lambda>l'. lot_side l' \<noteq> lot_side l) (l # ls) then Inl (Lot NegativeInventoryError)
               else if \<not> isclose (flit (1 / 10 ^ 6)) (foldl (+) 0 (map remaining_quantity (l # ls)))
                          \<bar>get_position eng s\<bar>
                    then Inl (Lot NegativeInventoryError)
                    else Inr ())"

section \<open>Matching a fill against the open lots\<close>

text \<open>The arguments of the call that the loop reads.\<close>

record fill_ctx =
  ctx_hex :: "nat \<Rightarrow> string"
  ctx_portfolio_id :: string
  ctx_symbol :: string
  ctx_price :: float64
  ctx_time :: datetime

text \<open>The local variables of the loop: the lots of the symbol, \<^verbatim>\<open>remaining_fill\<close>, \<^verbatim>\<open>allocated_trades\<close>,
  \<^verbatim>\<open>depleted_lots\<close> and \<^verbatim>\<open>total_pnl\<close>.\<close>

record match_state =
  ms_lots :: "tax_lot list"
  ms_fill :: float64
  ms_trades :: "realized_gain list"
  ms_depleted :: "tax_lot list"
  ms_pnl :: float64

definition reduce_lot :: "tax_lot \<Rightarrow> float64 \<Rightarrow> tax_lot" where
  "reduce_lot l match_qty =
     (let rest = remaining_quantity l - match_qty
      in if rest \<le> lot_eps then l\<lparr>remaining_quantity := 0, lot_status := CLOSED\<rparr>
         else l\<lparr>remaining_quantity := rest, lot_status := PARTIAL\<rparr>)"

definition match_lot :: "fill_ctx \<Rightarrow> match_state \<Rightarrow> nat \<Rightarrow> float64 \<Rightarrow> match_state" where
  "match_lot c ms i seconds =
     (let l = ms_lots ms ! i;
          match_qty = py_min (remaining_quantity l) (ms_fill ms);
          holding_seconds = py_max seconds 0;
          cost = match_qty * cost_basis_per_share l;
          exec_val = match_qty * ctx_price c;
          realized = (if lot_side l = LONG then exec_val - cost else cost - exec_val);
          l' = reduce_lot l match_qty
      in \<lparr>ms_lots = (ms_lots ms)[i := l'],
          ms_fill = ms_fill ms - match_qty,
          ms_trades = ms_trades ms @
            [\<lparr>trade_id = ''trd_'' @ take 12 (ctx_hex c (length (ms_trades ms))),
              gain_portfolio_id = ctx_portfolio_id c, gain_lot_id = lot_id l, gain_symbol = ctx_symbol c,
              gain_side = (if lot_side l = LONG then ''SELL'' else ''COVER''), close_timestamp = ctx_time c,
              gain_quantity = py_round 6 match_qty, execution_price = py_round 4 (ctx_price c),
              cost_basis = py_round 4 cost, realized_pnl = py_round 4 realized,
              holding_period_seconds = py_round 1 holding_seconds\<rparr>],
          ms_depleted = ms_depleted ms @ [l'],
          ms_pnl = ms_pnl ms + realized\<rparr>)"

fun match_lots :: "fill_ctx \<Rightarrow> nat list \<Rightarrow> match_state \<Rightarrow> match_state \<times> unit res" where
  "match_lots c [] ms = (ms, Inr ())"
| "match_lots c (i # is) ms =
     (if ms_fill ms \<le> lot_eps then (ms, Inr ())
      else
        case seconds_between (ctx_time c) (open_timestamp (ms_lots ms ! i)) of
          Inl e \<Rightarrow> (ms, Inl e)
        | Inr seconds \<Rightarrow> match_lots c is (match_lot c ms i seconds))"

text \<open>\<^verbatim>\<open>sorted(active_lots, key=open_timestamp, reverse=...)\<close>: stable in both directions; a comparison of
  a naive with an aware timestamp raises.\<close>

definition active_lots :: "tax_lot list \<Rightarrow> nat list" where
  "active_lots ls = filter (\<lambda>i. lot_open (ls ! i)) [0..<length ls]"

definition sort_lots :: "tax_lot_method \<Rightarrow> tax_lot list \<Rightarrow> nat list res" where
  "sort_lots m ls =
     (let is = active_lots ls;
          key = (\<lambda>i. dt_us (open_timestamp (ls ! i)));
          aware = (\<lambda>i. dt_aware (open_timestamp (ls ! i)))
      in if list_ex aware is \<and> list_ex (\<lambda>i. \<not> aware i) is then Inl (PyErr TypeError)
         else Inr (if m = LIFO then rev (sort_key key (rev is)) else sort_key key is))"

text \<open>The numeric guard of this module compares before it tests finiteness.\<close>

fun check_positive :: "pyval \<Rightarrow> float64 res" where
  "check_positive (PInt i) =
     (if i \<le> 0 then Inl BadLedgerInput
      else if int_overflows i then Inl (PyErr OverflowError) else Inr (float_of_int i))"
| "check_positive (PFloat x) = (if x \<le> 0 \<or> \<not> isfinite x then Inl BadLedgerInput else Inr x)"
| "check_positive _ = Inl BadLedgerInput"

definition new_lot :: "tax_engine \<Rightarrow> string \<Rightarrow> string \<Rightarrow> lot_side \<Rightarrow> datetime \<Rightarrow> float64 \<Rightarrow> float64 \<Rightarrow> tax_lot res" where
  "new_lot eng hex s sd t q px =
     tax_lot_new \<lparr>lot_id = ''lot_'' @ take 12 hex, lot_portfolio_id = engine_portfolio_id eng, lot_symbol = s,
       lot_side = sd, open_timestamp = t, original_quantity = q, remaining_quantity = q,
       cost_basis_per_share = px, lot_status = OPEN\<rparr>"

definition set_lots :: "tax_engine \<Rightarrow> string \<Rightarrow> tax_lot list \<Rightarrow> tax_engine" where
  "set_lots eng s ls = eng\<lparr>engine_lots := dict_set (engine_lots eng) s ls\<rparr>"

text \<open>The common end of both branches: the conservation check and the result.\<close>

definition finish_fill ::
    "tax_engine \<Rightarrow> string \<Rightarrow> realized_gain list \<Rightarrow> tax_lot list \<Rightarrow> tax_lot list \<Rightarrow> float64 \<Rightarrow>
     tax_engine \<times> fill_allocation res" where
  "finish_fill eng s trades opened depleted pnl =
     (eng, bindR (verify_inventory_conservation eng s) (\<lambda>_.
       Inr \<lparr>allocated_trades = trades, new_open_lots = opened, depleted_lots = depleted,
            total_realized_pnl = py_round 4 pnl, remaining_position = get_position eng s\<rparr>))"

definition open_fill ::
    "(nat \<Rightarrow> string) \<Rightarrow> tax_engine \<Rightarrow> string \<Rightarrow> bool \<Rightarrow> float64 \<Rightarrow> float64 \<Rightarrow> datetime \<Rightarrow>
     tax_engine \<times> fill_allocation res" where
  "open_fill hex eng s buy q px t =
     (if \<not> buy \<and> \<not> allow_shorting eng then (eng, Inl (Lot OrphanedFillError))
      else
        case new_lot eng (hex 0) s (if buy then LONG else SHORT) t q px of
          Inl e \<Rightarrow> (eng, Inl e)
        | Inr l \<Rightarrow>
            finish_fill (set_lots eng s (dict_get_default (engine_lots eng) s [] @ [l])) s [] [l] [] 0)"

definition close_fill ::
    "(nat \<Rightarrow> string) \<Rightarrow> tax_engine \<Rightarrow> string \<Rightarrow> bool \<Rightarrow> float64 \<Rightarrow> float64 \<Rightarrow> datetime \<Rightarrow> tax_lot_method \<Rightarrow>
     tax_engine \<times> fill_allocation res" where
  "close_fill hex eng s buy q px t m =
     (let ls = dict_get_default (engine_lots eng) s [];
          c = \<lparr>ctx_hex = hex, ctx_portfolio_id = engine_portfolio_id eng, ctx_symbol = s, ctx_price = px, ctx_time = t\<rparr>
      in case sort_lots m ls of
           Inl e \<Rightarrow> (eng, Inl e)
         | Inr is \<Rightarrow>
             (case match_lots c is \<lparr>ms_lots = ls, ms_fill = q, ms_trades = [], ms_depleted = [], ms_pnl = 0\<rparr> of
                (ms, Inl e) \<Rightarrow> (set_lots eng s (ms_lots ms), Inl e)
              | (ms, Inr _) \<Rightarrow>
                  let eng1 = set_lots eng s (ms_lots ms)
                  in if ms_fill ms > lot_eps
                     then
                       if \<not> buy \<and> \<not> allow_shorting eng then (eng1, Inl (Lot OrphanedFillError))
                       else
                         (case new_lot eng (hex (length (ms_trades ms))) s (if buy then LONG else SHORT) t
                                 (py_round 6 (ms_fill ms)) px of
                            Inl e \<Rightarrow> (eng1, Inl e)
                          | Inr l \<Rightarrow>
                              finish_fill (set_lots eng s (ms_lots ms @ [l])) s (ms_trades ms) [l] (ms_depleted ms) (ms_pnl ms))
                     else finish_fill eng1 s (ms_trades ms) [] (ms_depleted ms) (ms_pnl ms)))"

definition fill_side :: "string \<Rightarrow> bool res" where
  "fill_side sd =
     (let su = str_strip (str_upper sd)
      in if su = ''BUY'' then Inr True else if su = ''SELL'' then Inr False else Inl BadLedgerInput)"

definition is_increasing :: "bool \<Rightarrow> float64 \<Rightarrow> bool" where
  "is_increasing buy current_pos \<longleftrightarrow> buy \<and> 0 \<le> current_pos \<or> \<not> buy \<and> current_pos \<le> 0"

definition with_symbol :: "tax_engine \<Rightarrow> string \<Rightarrow> tax_engine" where
  "with_symbol eng s = (if dict_has (engine_lots eng) s then eng else set_lots eng s [])"

definition allocate_fill ::
    "(nat \<Rightarrow> string) \<Rightarrow> datetime \<Rightarrow> tax_engine \<Rightarrow> pyval \<Rightarrow> string \<Rightarrow> pyval \<Rightarrow> pyval \<Rightarrow> datetime option \<Rightarrow>
     tax_lot_method option \<Rightarrow> tax_engine \<times> fill_allocation res" where
  "allocate_fill hex now eng symv sd qv pxv ts mo =
     (case bindR (check_str BadLedgerInput symv) (\<lambda>s.
             bindR (check_positive qv) (\<lambda>q.
             bindR (check_positive pxv) (\<lambda>px.
             bindR (fill_side sd) (\<lambda>buy. Inr (s, q, px, buy))))) of
        Inl e \<Rightarrow> (eng, Inl e)
      | Inr (s, q, px, buy) \<Rightarrow>
          let fill_time = (case ts of Some t \<Rightarrow> t | None \<Rightarrow> now);
              alloc_method = (case mo of Some m \<Rightarrow> m | None \<Rightarrow> default_method eng);
              eng0 = with_symbol eng s;
              current_pos = get_position eng0 s
          in if is_increasing buy current_pos
             then open_fill hex eng0 s buy q px fill_time
             else close_fill hex eng0 s buy q px fill_time alloc_method)"

section \<open>The inventory invariant\<close>

definition lot_ok :: "tax_lot \<Rightarrow> bool" where
  "lot_ok l \<longleftrightarrow>
     pos_finite (original_quantity l) \<and> nonneg_finite (remaining_quantity l) \<and> pos_finite (cost_basis_per_share l) \<and>
     is_double (original_quantity l) \<and> is_double (remaining_quantity l) \<and>
     remaining_quantity l \<le> original_quantity l \<and>
     (lot_status l = CLOSED \<longleftrightarrow> remaining_quantity l = 0) \<and>
     (lot_status l = OPEN \<longrightarrow> remaining_quantity l = original_quantity l)"

definition one_sided :: "tax_lot list \<Rightarrow> bool" where
  "one_sided ls \<longleftrightarrow> (\<forall>l \<in> set ls. \<forall>l' \<in> set ls. lot_open l \<longrightarrow> lot_open l' \<longrightarrow> lot_side l = lot_side l')"

definition lots_ok :: "tax_lot list \<Rightarrow> bool" where
  "lots_ok ls \<longleftrightarrow> list_all lot_ok ls \<and> one_sided ls"

definition engine_inv :: "tax_engine \<Rightarrow> bool" where
  "engine_inv eng \<longleftrightarrow> dict_ok (engine_lots eng) \<and> (\<forall>e \<in> set (engine_lots eng). lots_ok (snd e))"

text \<open>One call of the engine with the uuids and the clock it sees; calls whose quantity is not a double do
  not exist.\<close>

datatype fill_call =
  Fill "nat \<Rightarrow> string" datetime pyval string pyval pyval "datetime option" "tax_lot_method option"

fun fill_exec :: "tax_engine \<Rightarrow> fill_call \<Rightarrow> tax_engine" where
  "fill_exec eng (Fill hex now symv sd qv pxv ts mo) =
     (if pyval_double qv then fst (allocate_fill hex now eng symv sd qv pxv ts mo) else eng)"

subsection \<open>Thresholds and single lots\<close>

lemma lot_eps_Fin: "\<exists>e. lot_eps = Fin e \<and> 0 < e \<and> e < 1"
proof -
  obtain e where e: "lot_eps = Fin e" "0 < e" using flit_power_ten [of 8] by (auto simp: lot_eps_def)
  have "lot_eps \<le> Fin (1 / 2)"
    using rnd64_mono [of "1 / 10 ^ 8" "1 / 2"] rnd64_half by (simp add: lot_eps_def)
  with e show ?thesis by (intro exI [of _ e]) (simp add: e(1))
qed

lemma lot_eps_facts [simp]:
  "0 < lot_eps" "0 \<le> lot_eps" "Fin 0 \<le> lot_eps" "lot_eps \<noteq> NaN" "isfinite lot_eps" "\<not> lot_eps \<le> 0" "\<not> lot_eps < 0"
proof -
  obtain e where e: "lot_eps = Fin e" "0 < e" using lot_eps_Fin by blast
  show "0 < lot_eps" "0 \<le> lot_eps" "Fin 0 \<le> lot_eps" "lot_eps \<noteq> NaN" "isfinite lot_eps" "\<not> lot_eps \<le> 0" "\<not> lot_eps < 0"
    unfolding e(1) using e(2) by simp_all
qed

lemma lot_open_not_zero: "remaining_quantity l = 0 \<Longrightarrow> \<not> lot_open l"
  by (simp add: lot_open_def)

lemma lot_open_not_closed: "lot_ok l \<Longrightarrow> lot_open l \<Longrightarrow> lot_status l \<noteq> CLOSED"
  by (auto simp: lot_ok_def lot_open_def)

text \<open>The quantity matched and the two differences stay finite, non-negative doubles.\<close>

lemma py_min_either: "py_min a b = a \<or> py_min a b = b"
  by (simp add: py_min_def)

lemma nonneg_finite_min: "nonneg_finite a \<Longrightarrow> nonneg_finite b \<Longrightarrow> nonneg_finite (py_min a b)"
  by (simp add: py_min_def)

lemma is_double_minus: "isfinite x \<Longrightarrow> isfinite y \<Longrightarrow> is_double (x - y)"
  by (cases x; cases y) (simp_all add: minus_float64_def)

lemma nonneg_finite_diff:
  assumes "nonneg_finite a" and "is_double a" and "nonneg_finite b" and "b \<le> a"
  shows "nonneg_finite (a - b)" and "a - b \<le> a" and "is_double (a - b)"
proof -
  have f: "isfinite a" "isfinite b" "0 \<le> b" using assms by (simp_all add: nonneg_finite_def)
  show le: "a - b \<le> a" using f assms(2) by (rule_tac float_diff_le_self) auto
  have "0 \<le> a - b" using assms(4) f by (rule_tac float_diff_nonneg) auto
  moreover have "isfinite (a - b)" using le \<open>0 \<le> a - b\<close> f(1) by (cases "a - b") auto
  ultimately show "nonneg_finite (a - b)" by (simp add: nonneg_finite_def)
  show "is_double (a - b)" using f by (rule_tac is_double_minus) auto
qed

lemma float_diff_self [simp]: "isfinite x \<Longrightarrow> x - x = 0"
  by (cases x) (simp_all add: minus_float64_def)

lemma reduce_lot_fields [simp]:
  "lot_side (reduce_lot l m) = lot_side l" "lot_id (reduce_lot l m) = lot_id l"
  "open_timestamp (reduce_lot l m) = open_timestamp l" "original_quantity (reduce_lot l m) = original_quantity l"
  "cost_basis_per_share (reduce_lot l m) = cost_basis_per_share l"
  by (simp_all add: reduce_lot_def Let_def)

lemma reduce_lot_ok:
  assumes "lot_ok l" and "nonneg_finite m" and "m \<le> remaining_quantity l"
  shows "lot_ok (reduce_lot l m)"
proof -
  let ?r = "remaining_quantity l - m"
  have l: "nonneg_finite (remaining_quantity l)" "is_double (remaining_quantity l)" using assms(1) by (simp_all add: lot_ok_def)
  note d = nonneg_finite_diff [OF l assms(2,3)]
  have "?r \<le> original_quantity l" using d(2) assms(1) float_le_trans unfolding lot_ok_def by blast
  moreover have "0 \<le> original_quantity l"
    using assms(1) by (auto simp: lot_ok_def pos_finite_def float_less_imp_le)
  ultimately show ?thesis
    using assms(1) d by (auto simp: lot_ok_def reduce_lot_def Let_def nonneg_finite_def)
qed

lemma reduce_lot_whole: "lot_ok l \<Longrightarrow> remaining_quantity (reduce_lot l (remaining_quantity l)) = 0"
  by (auto simp: reduce_lot_def Let_def lot_ok_def nonneg_finite_def)

subsection \<open>The matching loop\<close>

text \<open>What the loop keeps: every lot well-formed, the rest of the fill a finite non-negative double; sides
  do not change and no lot becomes open.\<close>

definition shrunk :: "tax_lot list \<Rightarrow> tax_lot list \<Rightarrow> bool" where
  "shrunk ls ls' \<longleftrightarrow>
     list_all2 (\<lambda>l l'. lot_ok l' \<and> lot_side l' = lot_side l \<and> lot_id l' = lot_id l \<and>
                       open_timestamp l' = open_timestamp l \<and> (lot_open l' \<longrightarrow> lot_open l)) ls ls'"

definition match_inv :: "match_state \<Rightarrow> bool" where
  "match_inv ms \<longleftrightarrow> list_all lot_ok (ms_lots ms) \<and> nonneg_finite (ms_fill ms) \<and> is_double (ms_fill ms)"

lemma shrunk_refl: "list_all lot_ok ls \<Longrightarrow> shrunk ls ls"
  by (auto simp: shrunk_def list_all_iff intro!: list.rel_refl_strong)

lemma shrunk_trans: "shrunk a b \<Longrightarrow> shrunk b c \<Longrightarrow> shrunk a c"
  by (auto simp: shrunk_def list_all2_conv_all_nth)

lemma shrunk_ok: "shrunk ls ls' \<Longrightarrow> list_all lot_ok ls'"
  by (auto simp: shrunk_def list_all2_conv_all_nth list_all_length)

lemma shrunk_length: "shrunk ls ls' \<Longrightarrow> length ls' = length ls"
  by (auto simp: shrunk_def dest: list_all2_lengthD)

lemma shrunk_origin:
  assumes "shrunk ls ls'" and "l \<in> set ls'"
  shows "\<exists>k \<in> set ls. lot_side k = lot_side l \<and> (lot_open l \<longrightarrow> lot_open k)"
proof -
  obtain i where "i < length ls'" "l = ls' ! i" using assms(2) by (auto simp: in_set_conv_nth)
  then show ?thesis using assms(1) by (intro bexI [of _ "ls ! i"]) (auto simp: shrunk_def list_all2_conv_all_nth)
qed

lemma shrunk_one_sided: "shrunk ls ls' \<Longrightarrow> one_sided ls \<Longrightarrow> one_sided ls'"
  using shrunk_origin unfolding one_sided_def by metis

lemma match_lot_simps [simp]:
  "ms_lots (match_lot c ms i sec) = (ms_lots ms)[i := reduce_lot (ms_lots ms ! i)
     (py_min (remaining_quantity (ms_lots ms ! i)) (ms_fill ms))]"
  "ms_fill (match_lot c ms i sec) = ms_fill ms - py_min (remaining_quantity (ms_lots ms ! i)) (ms_fill ms)"
  by (simp_all add: match_lot_def Let_def)

lemma match_lot_step:
  assumes "match_inv ms" and "i < length (ms_lots ms)" and "lot_open (ms_lots ms ! i)"
  shows "match_inv (match_lot c ms i sec)" and "shrunk (ms_lots ms) (ms_lots (match_lot c ms i sec))"
    and "ms_fill (match_lot c ms i sec) \<le> ms_fill ms"
    and "lot_eps < ms_fill (match_lot c ms i sec) \<Longrightarrow> remaining_quantity (ms_lots (match_lot c ms i sec) ! i) = 0"
proof -
  let ?l = "ms_lots ms ! i"
  let ?m = "py_min (remaining_quantity ?l) (ms_fill ms)"
  have ok: "list_all lot_ok (ms_lots ms)" "lot_ok ?l" and f: "nonneg_finite (ms_fill ms)" "is_double (ms_fill ms)"
    using assms(1,2) by (auto simp: match_inv_def list_all_length)
  have r: "nonneg_finite (remaining_quantity ?l)" using ok(2) by (simp add: lot_ok_def)
  have m: "nonneg_finite ?m" using r f(1) by (rule nonneg_finite_min)
  have le: "?m \<le> remaining_quantity ?l" "?m \<le> ms_fill ms"
    using r f(1) py_min_le1 py_min_le2 by (auto simp: nonneg_finite_def)
  have ok': "lot_ok (reduce_lot ?l ?m)" using ok(2) m le(1) by (rule reduce_lot_ok)
  show "match_inv (match_lot c ms i sec)"
    using ok(1) ok' nonneg_finite_diff [OF f m le(2)]
    by (auto simp: match_inv_def list_all_iff dest: set_update_subset_insert [THEN subsetD])
  show "shrunk (ms_lots ms) (ms_lots (match_lot c ms i sec))"
    using ok ok' assms(2,3) by (auto simp: shrunk_def list_all2_conv_all_nth list_all_length nth_list_update)
  show "ms_fill (match_lot c ms i sec) \<le> ms_fill ms" using nonneg_finite_diff(2) [OF f m le(2)] by simp
  assume "lot_eps < ms_fill (match_lot c ms i sec)"
  then have "?m \<noteq> ms_fill ms" using f(1) float_diff_self by (auto simp: nonneg_finite_def)
  then have "?m = remaining_quantity ?l" using py_min_either by metis
  then show "remaining_quantity (ms_lots (match_lot c ms i sec) ! i) = 0"
    using assms(2) reduce_lot_whole [OF ok(2)] by simp
qed

lemma match_lots_frame:
  "match_lots c is ms = (ms', r) \<Longrightarrow> j \<notin> set is \<Longrightarrow> ms_lots ms' ! j = ms_lots ms ! j"
proof (induction "is" arbitrary: ms)
  case (Cons i "is")
  then show ?case
    by (cases "seconds_between (ctx_time c) (open_timestamp (ms_lots ms ! i))") (auto split: if_splits)
qed simp

lemma match_lots_inv:
  assumes "match_lots c is ms = (ms', r)" and "match_inv ms" and "distinct is"
    and "\<forall>i \<in> set is. i < length (ms_lots ms) \<and> lot_open (ms_lots ms ! i)"
  shows "match_inv ms' \<and> shrunk (ms_lots ms) (ms_lots ms') \<and> ms_fill ms' \<le> ms_fill ms \<and>
         (r = Inr () \<longrightarrow> lot_eps < ms_fill ms' \<longrightarrow> (\<forall>i \<in> set is. remaining_quantity (ms_lots ms' ! i) = 0))"
  using assms
proof (induction "is" arbitrary: ms)
  case Nil
  then show ?case by (auto simp: match_inv_def nonneg_finite_def intro: shrunk_refl)
next
  case (Cons i "is")
  have stop: ?case if "ms' = ms" "r \<noteq> Inr () \<or> ms_fill ms \<le> lot_eps"
    using that Cons.prems(2) by (auto simp: match_inv_def less_float64_def nonneg_finite_def intro: shrunk_refl)
  show ?case
  proof (cases "ms_fill ms \<le> lot_eps")
    case True
    then show ?thesis using stop Cons.prems(1) by simp
  next
    case False
    show ?thesis
    proof (cases "seconds_between (ctx_time c) (open_timestamp (ms_lots ms ! i))")
      case (Inl e)
      then have "ms' = ms" "r \<noteq> Inr ()" using Cons.prems(1) False by auto
      then show ?thesis using stop by blast
    next
      case (Inr sec)
      let ?ms = "match_lot c ms i sec"
      note st = match_lot_step [OF Cons.prems(2), of i c sec]
      have i: "i < length (ms_lots ms)" "lot_open (ms_lots ms ! i)" "i \<notin> set is" "distinct is"
        using Cons.prems(3,4) by auto
      have run: "match_lots c is ?ms = (ms', r)" using Cons.prems(1) False Inr by simp
      have "\<forall>j \<in> set is. j < length (ms_lots ?ms) \<and> lot_open (ms_lots ?ms ! j)"
      proof
        fix j assume "j \<in> set is"
        then have "j \<noteq> i" "j < length (ms_lots ms) \<and> lot_open (ms_lots ms ! j)" using Cons.prems(4) i(3) by auto
        then show "j < length (ms_lots ?ms) \<and> lot_open (ms_lots ?ms ! j)" by simp
      qed
      from Cons.IH [OF run st(1) [OF i(1,2)] i(4) this]
      have ih: "match_inv ms'" "shrunk (ms_lots ?ms) (ms_lots ms')" "ms_fill ms' \<le> ms_fill ?ms"
        "r = Inr () \<longrightarrow> lot_eps < ms_fill ms' \<longrightarrow> (\<forall>j \<in> set is. remaining_quantity (ms_lots ms' ! j) = 0)" by auto
      have "remaining_quantity (ms_lots ms' ! i) = 0" if "lot_eps < ms_fill ms'"
        using st(4) [OF i(1,2)] float_less_le_trans [OF that ih(3)] match_lots_frame [OF run i(3)] by simp
      then show ?thesis
        using ih shrunk_trans [OF st(2) [OF i(1,2)] ih(2)] float_le_trans [OF ih(3) st(3) [OF i(1,2)]] by auto
    qed
  qed
qed

subsection \<open>Every call keeps the invariant\<close>

lemma active_lots_set: "set (active_lots ls) = {i. i < length ls \<and> lot_open (ls ! i)}" "distinct (active_lots ls)"
  by (auto simp: active_lots_def)

lemma sort_lots_perm:
  "sort_lots m ls = Inr is \<Longrightarrow> set is = {i. i < length ls \<and> lot_open (ls ! i)} \<and> distinct is"
  by (auto simp: sort_lots_def Let_def active_lots_set split: if_splits)

lemma new_lot_Inr:
  "new_lot eng hex s sd t q px = Inr l \<Longrightarrow>
     pos_finite q \<and> pos_finite px \<and> original_quantity l = q \<and> remaining_quantity l = q \<and> cost_basis_per_share l = px \<and>
     lot_side l = sd \<and> lot_status l = OPEN"
  by (cases q; cases px) (auto simp: new_lot_def tax_lot_new_def pos_finite_def split: if_splits)

lemma new_lot_ok: "new_lot eng hex s sd t q px = Inr l \<Longrightarrow> is_double q \<Longrightarrow> lot_ok l"
  using new_lot_Inr [of eng hex s sd t q px l] by (auto simp: lot_ok_def pos_finite_def nonneg_finite_def float_less_imp_le)

lemma is_double_py_round [simp]: "is_double (py_round n x)" if "isfinite x"
  using that by (cases x) simp_all

lemma lots_ok_Nil [simp]: "lots_ok []"
  by (simp add: lots_ok_def one_sided_def)

lemma engine_lots_ok:
  assumes "engine_inv eng"
  shows "lots_ok (dict_get_default (engine_lots eng) s [])"
proof (cases "dict_get (engine_lots eng) s")
  case (Some ls)
  then have "(s, ls) \<in> set (engine_lots eng)" by (rule map_of_SomeD)
  then show ?thesis using assms Some by (auto simp: engine_inv_def)
qed simp

lemma set_lots_inv:
  assumes "engine_inv eng" and "lots_ok ls"
  shows "engine_inv (set_lots eng s ls)"
proof -
  have "e \<in> set (dict_set d s ls) \<Longrightarrow> e \<in> set d \<or> e = (s, ls)" for e and d :: "(string \<times> tax_lot list) list"
    by (induction d) (auto split: if_splits)
  then have "\<forall>e \<in> set (dict_set (engine_lots eng) s ls). lots_ok (snd e)"
    using assms by (metis engine_inv_def snd_conv)
  then show ?thesis using assms by (simp add: engine_inv_def set_lots_def distinct_update)
qed

lemma lots_ok_snoc:
  assumes "lots_ok ls" and "lot_ok l" and "\<And>k. k \<in> set ls \<Longrightarrow> lot_open k \<Longrightarrow> lot_side k = lot_side l"
  shows "lots_ok (ls @ [l])"
  using assms by (auto simp: lots_ok_def one_sided_def)

lemma finish_fill_state [simp]: "fst (finish_fill eng s a b d p) = eng"
  by (simp add: finish_fill_def)

lemma lots_of_set_lots [simp]: "dict_get_default (engine_lots (set_lots eng s ls)) s [] = ls"
  by (simp add: set_lots_def)

text \<open>The sign of the position is the side of the open lots, for fewer than \<open>2 ^ 17\<close> lots of the symbol.\<close>

lemma open_quantity:
  assumes "lot_open l" and "lot_ok l"
  shows "Fin (two_pow (- 100)) \<le> remaining_quantity l"
    and "isfinite (remaining_quantity l) \<and> 0 \<le> remaining_quantity l \<and> is_double (remaining_quantity l)"
proof -
  have "rnd64 (two_pow (- 100)) \<le> lot_eps" unfolding lot_eps_def by (rule rnd64_mono) (simp add: two_pow_def)
  moreover have "rnd64 (two_pow (- 100)) = Fin (two_pow (- 100))" using rnd64_dyadic [of 1 "- 100"] by simp
  ultimately have "Fin (two_pow (- 100)) \<le> lot_eps" by simp
  then show "Fin (two_pow (- 100)) \<le> remaining_quantity l"
    using assms(1) float_less_imp_le float_le_trans unfolding lot_open_def by blast
  show "isfinite (remaining_quantity l) \<and> 0 \<le> remaining_quantity l \<and> is_double (remaining_quantity l)"
    using assms(2) by (auto simp: lot_ok_def nonneg_finite_def)
qed

lemma open_quantities:
  assumes "list_all lot_ok ls" and "filter lot_open ls = k # ks"
  shows "list_all (\<lambda>x. isfinite x \<and> 0 \<le> x \<and> is_double x) (map remaining_quantity (k # ks))"
    and "Fin (two_pow (- 100)) \<le> remaining_quantity k" and "length ks < length ls"
proof -
  have m: "set (k # ks) \<subseteq> {l \<in> set ls. lot_open l}" using assms(2) by (metis filter_set set_filter subset_refl)
  then have "list_all (\<lambda>l. lot_ok l \<and> lot_open l) (k # ks)" using assms(1) by (auto simp: list_all_iff)
  then show "list_all (\<lambda>x. isfinite x \<and> 0 \<le> x \<and> is_double x) (map remaining_quantity (k # ks))"
    and "Fin (two_pow (- 100)) \<le> remaining_quantity k"
    using open_quantity by (auto simp: list_all_iff)
  show "length ks < length ls" using assms(2) length_filter_le [of lot_open ls] by simp
qed

lemma position_sign:
  assumes "lots_ok ls" "ls = dict_get_default (engine_lots eng) s []" and "length ls \<le> 2 ^ 17"
    and "l \<in> set ls" "lot_open l"
  shows "lot_side l = LONG \<longleftrightarrow> 0 < get_position eng s" "lot_side l = SHORT \<longleftrightarrow> get_position eng s < 0"
proof -
  obtain k ks where f: "filter lot_open ls = k # ks" using assms(4,5) by (cases "filter lot_open ls") (auto simp: filter_empty_conv)
  have "k \<in> set ls" "lot_open k" using filter_eq_ConsD [OF f] by auto
  then have side: "lot_side k = lot_side l" using assms(1,4,5) unfolding lots_ok_def one_sided_def by blast
  note q = open_quantities [OF _ f]
  have "0 < py_sum (map remaining_quantity (k # ks))"
    using py_sum_pos [of "remaining_quantity k" "map remaining_quantity ks"] q assms(1,3) by (simp add: lots_ok_def)
  then have "get_position eng s = (if lot_side l = LONG then py_sum (map remaining_quantity (k # ks))
      else - py_sum (map remaining_quantity (k # ks))) \<and> 0 < py_sum (map remaining_quantity (k # ks))"
    using f assms(2) side by (simp add: get_position_def get_open_lots_def Let_def)
  moreover have "(- x < 0 \<longleftrightarrow> 0 < x) \<and> (0 < - x \<longleftrightarrow> x < 0) \<and> (0 < x \<longrightarrow> \<not> x < 0)" for x :: float64 by (cases x) auto
  ultimately show "lot_side l = LONG \<longleftrightarrow> 0 < get_position eng s" "lot_side l = SHORT \<longleftrightarrow> get_position eng s < 0"
    by (cases "lot_side l"; metis lot_side.distinct)+
qed

lemma is_double_check:
  "check_positive v = Inr q \<Longrightarrow> pyval_double v \<Longrightarrow> pos_finite q \<and> is_double q"
proof (cases v)
  case (PInt i)
  assume "check_positive v = Inr q"
  then have "1 \<le> i" "q = float_of_int i" "isfinite q" using PInt by (auto simp: int_overflows_def split: if_splits)
  moreover from float_of_int_ge_1 [OF this(1)] have "0 < float_of_int i" using float_less_le_trans [of 0 "Fin 1"] by simp
  ultimately show ?thesis by (simp add: pos_finite_def float_of_int_def)
next
  case (PFloat x)
  assume "check_positive v = Inr q" "pyval_double v"
  then have "q = x" "\<not> x \<le> 0" "isfinite x" "is_double x" using PFloat by (simp_all split: if_splits)
  then show ?thesis by (cases x) (simp_all del: is_double_Fin)
qed simp_all

lemma open_fill_inv:
  assumes "engine_inv eng" and "is_double q" and "length (dict_get_default (engine_lots eng) s []) \<le> 2 ^ 17"
    and "is_increasing buy (get_position eng s)"
  shows "engine_inv (fst (open_fill hex eng s buy q px t))"
proof -
  let ?ls = "dict_get_default (engine_lots eng) s []"
  have ok: "lots_ok ?ls" using assms(1) by (rule engine_lots_ok)
  have "lots_ok (?ls @ [l])" if "new_lot eng (hex 0) s (if buy then LONG else SHORT) t q px = Inr l" for l
  proof (rule lots_ok_snoc [OF ok])
    show "lot_ok l" using that assms(2) by (rule new_lot_ok)
    fix k assume k: "k \<in> set ?ls" "lot_open k"
    have "\<not> (0 \<le> x \<and> x < 0)" "\<not> (x \<le> 0 \<and> 0 < x)" for x :: float64 by (cases x; simp)+
    then have "lot_side k = (if buy then LONG else SHORT)"
      using position_sign [OF ok refl assms(3) k] assms(4) by (cases "lot_side k") (auto simp: is_increasing_def)
    then show "lot_side k = lot_side l" using new_lot_Inr [OF that] by simp
  qed
  then show ?thesis
    using assms(1) by (auto simp: open_fill_def intro: set_lots_inv split: sum.splits)
qed

lemma match_lots_start:
  assumes "lots_ok ls" and "pos_finite q" "is_double q" and "sort_lots m ls = Inr is"
    and "match_lots c is \<lparr>ms_lots = ls, ms_fill = q, ms_trades = [], ms_depleted = [], ms_pnl = 0\<rparr> = (ms, r)"
  shows "lots_ok (ms_lots ms)" and "match_inv ms" and "shrunk ls (ms_lots ms)"
    and "r = Inr () \<Longrightarrow> lot_eps < ms_fill ms \<Longrightarrow> \<forall>l \<in> set (ms_lots ms). \<not> lot_open l"
proof -
  let ?ms = "\<lparr>ms_lots = ls, ms_fill = q, ms_trades = [], ms_depleted = [], ms_pnl = 0\<rparr>"
  note p = sort_lots_perm [OF assms(4)]
  have "match_inv ?ms" using assms(1-3) by (simp add: match_inv_def lots_ok_def pos_finite_nonneg)
  then have inv: "match_inv ms" "shrunk ls (ms_lots ms)"
    "r = Inr () \<longrightarrow> lot_eps < ms_fill ms \<longrightarrow> (\<forall>i \<in> set is. remaining_quantity (ms_lots ms ! i) = 0)"
    using match_lots_inv [OF assms(5)] p by auto
  then show "match_inv ms" "shrunk ls (ms_lots ms)" by auto
  show "lots_ok (ms_lots ms)" using inv shrunk_one_sided assms(1) by (auto simp: lots_ok_def match_inv_def)
  show "\<forall>l \<in> set (ms_lots ms). \<not> lot_open l" if "r = Inr ()" "lot_eps < ms_fill ms"
  proof -
    have "\<not> lot_open (ms_lots ms ! i)" if i: "i < length (ms_lots ms)" for i
    proof (cases "i \<in> set is")
      case True
      then show ?thesis using inv(3) \<open>r = Inr ()\<close> \<open>lot_eps < ms_fill ms\<close> lot_open_not_zero by blast
    next
      case False
      then have "ms_lots ms ! i = ls ! i" using match_lots_frame [OF assms(5)] by simp
      then show ?thesis using False p i shrunk_length [OF inv(2)] by auto
    qed
    then show ?thesis by (auto simp: in_set_conv_nth)
  qed
qed

lemma close_fill_inv:
  assumes "engine_inv eng" and "pos_finite q" and "is_double q"
  shows "engine_inv (fst (close_fill hex eng s buy q px t m))"
proof (cases "sort_lots m (dict_get_default (engine_lots eng) s [])")
  case (Inl e)
  then show ?thesis using assms(1) by (simp add: close_fill_def)
next
  case (Inr "is")
  let ?ls = "dict_get_default (engine_lots eng) s []"
  let ?c = "\<lparr>ctx_hex = hex, ctx_portfolio_id = engine_portfolio_id eng, ctx_symbol = s, ctx_price = px, ctx_time = t\<rparr>"
  obtain ms r where run: "match_lots ?c is \<lparr>ms_lots = ?ls, ms_fill = q, ms_trades = [], ms_depleted = [], ms_pnl = 0\<rparr> = (ms, r)"
    by fastforce
  note st = match_lots_start [OF engine_lots_ok [OF assms(1)] assms(2,3) Inr run]
  have "lots_ok (ms_lots ms @ [l])"
    if "new_lot eng h s sd t (py_round 6 (ms_fill ms)) px = Inr l" "r = Inr ()" "lot_eps < ms_fill ms" for h sd l
    using st(1) new_lot_ok [OF that(1)] st(2) st(4) [OF that(2,3)]
    by (intro lots_ok_snoc) (auto simp: match_inv_def nonneg_finite_def)
  then show ?thesis
    using assms(1) st(1) Inr run
    by (auto simp: close_fill_def Let_def intro!: set_lots_inv split: sum.splits)
qed

text \<open>The three ways a call can go.\<close>

lemma allocate_fill_cases:
  obtains (reject) e where "allocate_fill hex now eng symv sd qv pxv ts mo = (eng, Inl e)" "e \<noteq> Lot NegativeInventoryError"
  | (accept) s q px buy t m where "check_str BadLedgerInput symv = Inr s" "check_positive qv = Inr q" "check_positive pxv = Inr px"
      "fill_side sd = Inr buy" "m = (case mo of Some m \<Rightarrow> m | None \<Rightarrow> default_method eng)"
      "allocate_fill hex now eng symv sd qv pxv ts mo =
        (if is_increasing buy (get_position (with_symbol eng s) s)
         then open_fill hex (with_symbol eng s) s buy q px t else close_fill hex (with_symbol eng s) s buy q px t m)"
proof (cases "bindR (check_str BadLedgerInput symv) (\<lambda>s. bindR (check_positive qv) (\<lambda>q.
             bindR (check_positive pxv) (\<lambda>px. bindR (fill_side sd) (\<lambda>buy. Inr (s, q, px, buy)))))")
  case (Inl e)
  have p: "e' = BadLedgerInput \<or> e' = PyErr OverflowError" if "check_positive v = Inl e'" for v e'
    using that by (induction v rule: check_positive.induct) (auto split: if_splits)
  have "e \<noteq> Lot NegativeInventoryError"
    using Inl p by (auto simp: bindR_Inl_iff check_str_def fill_side_def Let_def split: option.splits if_splits)
  then show ?thesis using reject [of e] Inl by (simp add: allocate_fill_def)
next
  case (Inr a)
  obtain s q px buy where a: "a = (s, q, px, buy)" by (cases a)
  then have c: "check_str BadLedgerInput symv = Inr s" "check_positive qv = Inr q" "check_positive pxv = Inr px" "fill_side sd = Inr buy"
    using Inr by (auto simp: bindR_Inr_iff)
  show ?thesis
    by (rule accept [of s q px buy _ "case ts of Some t \<Rightarrow> t | None \<Rightarrow> now"])
      (simp_all add: c allocate_fill_def Let_def)
qed

lemma with_symbol_inv: "engine_inv eng \<Longrightarrow> engine_inv (with_symbol eng s)"
  by (simp add: with_symbol_def set_lots_inv)

lemma with_symbol_lots [simp]:
  "dict_get_default (engine_lots (with_symbol eng s)) s [] = dict_get_default (engine_lots eng) s []"
  by (auto simp: with_symbol_def set_lots_def split: option.splits dest!: map_of_SomeD)
     (metis fst_conv image_eqI)

subsection \<open>Each call adds at most one lot to a symbol\<close>

definition lots_bound :: "nat \<Rightarrow> tax_engine \<Rightarrow> bool" where
  "lots_bound n eng \<longleftrightarrow> (\<forall>e \<in> set (engine_lots eng). length (snd e) \<le> n)"

lemma lots_bound_get: "lots_bound n eng \<Longrightarrow> length (dict_get_default (engine_lots eng) s []) \<le> n"
  by (auto simp: lots_bound_def split: option.splits dest!: map_of_SomeD)

lemma lots_bound_set: "lots_bound n eng \<Longrightarrow> length ls \<le> n \<Longrightarrow> lots_bound n (set_lots eng s ls)"
proof -
  assume a: "lots_bound n eng" "length ls \<le> n"
  have "e \<in> set (dict_set d s ls) \<Longrightarrow> e \<in> set d \<or> e = (s, ls)" for e and d :: "(string \<times> tax_lot list) list"
    by (induction d) (auto split: if_splits)
  then have "length (snd e) \<le> n" if "e \<in> set (dict_set (engine_lots eng) s ls)" for e
    using that a by (metis lots_bound_def snd_conv)
  then show ?thesis by (simp add: lots_bound_def set_lots_def)
qed

lemma lots_bound_Suc: "lots_bound n eng \<Longrightarrow> lots_bound (Suc n) eng"
  by (auto simp: lots_bound_def)

lemma match_lots_length: "match_lots c is ms = (ms', r) \<Longrightarrow> length (ms_lots ms') = length (ms_lots ms)"
proof (induction "is" arbitrary: ms)
  case (Cons i "is")
  then show ?case
    by (cases "seconds_between (ctx_time c) (open_timestamp (ms_lots ms ! i))") (auto split: if_splits)
qed simp

lemma close_fill_bound:
  assumes "lots_bound n eng"
  shows "lots_bound (Suc n) (fst (close_fill hex eng s buy q px t m))"
proof (cases "sort_lots m (dict_get_default (engine_lots eng) s [])")
  case (Inl e)
  then show ?thesis using assms by (simp add: close_fill_def lots_bound_Suc)
next
  case (Inr "is")
  let ?ls = "dict_get_default (engine_lots eng) s []"
  let ?c = "\<lparr>ctx_hex = hex, ctx_portfolio_id = engine_portfolio_id eng, ctx_symbol = s, ctx_price = px, ctx_time = t\<rparr>"
  obtain ms r where run: "match_lots ?c is \<lparr>ms_lots = ?ls, ms_fill = q, ms_trades = [], ms_depleted = [], ms_pnl = 0\<rparr> = (ms, r)"
    by fastforce
  have "length (ms_lots ms) \<le> n" using match_lots_length [OF run] lots_bound_get [OF assms] by simp
  then show ?thesis
    using lots_bound_Suc [OF assms] Inr run
    by (auto simp: close_fill_def Let_def intro!: lots_bound_set split: sum.splits)
qed

lemma open_fill_bound:
  "lots_bound n eng \<Longrightarrow> lots_bound (Suc n) (fst (open_fill hex eng s buy q px t))"
  using lots_bound_Suc [of n eng] lots_bound_get [of n eng s]
  by (auto simp: open_fill_def intro!: lots_bound_set split: sum.splits)

lemma with_symbol_bound: "lots_bound n eng \<Longrightarrow> lots_bound n (with_symbol eng s)"
  by (simp add: with_symbol_def lots_bound_set)

lemma allocate_fill_bound:
  assumes "lots_bound n eng"
  shows "lots_bound (Suc n) (fst (allocate_fill hex now eng symv sd qv pxv ts mo))"
  by (cases rule: allocate_fill_cases [of hex now eng symv sd qv pxv ts mo])
     (simp_all add: assms lots_bound_Suc open_fill_bound close_fill_bound with_symbol_bound)

lemma allocate_fill_inv:
  assumes "engine_inv eng" and "pyval_double qv" and "lots_bound (2 ^ 17) eng"
  shows "engine_inv (fst (allocate_fill hex now eng symv sd qv pxv ts mo))"
proof (cases rule: allocate_fill_cases [of hex now eng symv sd qv pxv ts mo])
  case (accept s q px buy t m)
  note q = is_double_check [OF accept(2) assms(2)]
  have len: "length (dict_get_default (engine_lots (with_symbol eng s)) s []) \<le> 2 ^ 17"
    using lots_bound_get [OF assms(3)] by simp
  show ?thesis
    using open_fill_inv [OF with_symbol_inv [OF assms(1)] _ len] close_fill_inv [OF with_symbol_inv [OF assms(1)]] q accept(6) by simp
qed (simp add: assms(1))

subsection \<open>The conservation check\<close>

lemma verify_inventory_ok:
  assumes "lots_ok (dict_get_default (engine_lots eng) s [])" "length (dict_get_default (engine_lots eng) s []) \<le> 2 ^ 17"
    and "isfinite (get_position eng s)"
  shows "verify_inventory_conservation eng s = Inr ()"
proof -
  let ?ls = "dict_get_default (engine_lots eng) s []"
  have ok: "list_all lot_ok ?ls" using assms(1) by (simp add: lots_ok_def)
  have "\<not> list_ex (\<lambda>l. remaining_quantity l < 0) ?ls"
  proof -
    have "\<not> x < 0" if "0 \<le> x" for x :: float64 using that by (cases x) auto
    then show ?thesis using ok by (auto simp: list_all_iff list_ex_iff lot_ok_def nonneg_finite_def)
  qed
  moreover have "verify_inventory_conservation eng s = Inr ()" if f: "filter lot_open ?ls = k # ks"
    and n: "\<not> list_ex (\<lambda>l. remaining_quantity l < 0) ?ls" for k ks
  proof -
    have "set (k # ks) = {l \<in> set ?ls. lot_open l}" using f by (metis set_filter)
    then have sides: "\<not> list_ex (\<lambda>l'. lot_side l' \<noteq> lot_side k) (k # ks)"
      using assms(1) by (auto simp: lots_ok_def one_sided_def list_ex_iff)
    note q = open_quantities [OF ok f]
    have len: "length (map remaining_quantity ks) < 2 ^ 17" using q(3) assms(2) by simp
    let ?s = "py_sum (map remaining_quantity (k # ks))"
    have pos: "get_position eng s = (if lot_side k = LONG then ?s else - ?s)"
      using f by (simp add: get_position_def get_open_lots_def)
    have "0 < ?s" using py_sum_pos [OF q(1) [simplified list.map] q(2) len] by simp
    moreover have fin: "isfinite ?s" using assms(3) pos by (cases "lot_side k") auto
    moreover have "\<bar>x\<bar> = x \<and> \<bar>- x\<bar> = x" if "0 < x" for x :: float64 using that by (cases x) auto
    ultimately have "\<bar>get_position eng s\<bar> = ?s" using pos by auto
    moreover have "isclose (flit (1 / 10 ^ 6)) (foldl (+) 0 (map remaining_quantity (k # ks))) ?s"
      using py_sum_isclose [OF q(1) [simplified list.map] q(2) len] fin by simp
    ultimately show ?thesis using f n sides by (simp add: verify_inventory_conservation_def Let_def)
  qed
  ultimately show ?thesis
    by (cases "filter lot_open ?ls") (simp_all add: verify_inventory_conservation_def Let_def)
qed

end
