(* ===== verification/Tax_Lot_Props.thy ===== *)
theory Tax_Lot_Props
  imports Tax_Lot
begin

text \<open>
  Properties of the tax-lot engine: the inventory invariant over arbitrary runs, the conservation check
  that never fires, exact accounting of whole shares, the matching order, and the exceptions that leave a
  changed inventory behind.
\<close>

section \<open>The invariant over runs\<close>

lemma finish_fill_no_negative:
  assumes "lots_ok (dict_get_default (engine_lots eng) s [])" "length (dict_get_default (engine_lots eng) s []) \<le> 2 ^ 17"
    and "isfinite (get_position eng s)"
  shows "\<exists>res. finish_fill eng s a b d p = (eng, Inr res) \<and> allocated_trades res = a \<and> new_open_lots res = b \<and>
           depleted_lots res = d \<and> remaining_position res = get_position eng s"
  using verify_inventory_ok [OF assms] by (simp add: finish_fill_def)

lemma run_bound: "lots_bound n eng \<Longrightarrow> lots_bound (n + length cs) (foldl fill_exec eng cs)"
proof (induction cs arbitrary: n eng)
  case (Cons c cs)
  have "lots_bound (Suc n) (fill_exec eng c)"
    using Cons.prems by (cases c) (simp add: allocate_fill_bound lots_bound_Suc)
  then show ?case using Cons.IH by fastforce
qed simp

lemma lots_bound_mono: "lots_bound n eng \<Longrightarrow> n \<le> k \<Longrightarrow> lots_bound k eng"
  by (auto simp: lots_bound_def)

lemma run_inv_from:
  "engine_inv eng \<Longrightarrow> lots_bound n eng \<Longrightarrow> n + length cs \<le> 2 ^ 17 \<Longrightarrow> engine_inv (foldl fill_exec eng cs)"
proof (induction cs arbitrary: n eng)
  case (Cons c cs)
  have b: "lots_bound (2 ^ 17) eng" using Cons.prems(2,3) by (auto intro: lots_bound_mono)
  have "engine_inv (fill_exec eng c)" "lots_bound (Suc n) (fill_exec eng c)"
    using Cons.prems(1,2) b by (cases c; simp add: allocate_fill_inv allocate_fill_bound lots_bound_Suc)+
  then show ?case using Cons.IH [of "fill_exec eng c" "Suc n"] Cons.prems(3) by simp
qed simp

text \<open>C28: The inventory invariant holds after every sequence of at most 131072 fills on a fresh engine, including
  fills that raise: every lot keeps 0 <= remaining <= original and a positive cost basis, is CLOSED exactly when
  nothing remains and untouched while OPEN, and the open lots of a symbol are never on both sides.\<close>

theorem tax_lot_inventory_invariant:
  assumes "length calls \<le> 131072"
  shows "engine_inv (foldl fill_exec (tax_engine_new pid m shorting) calls)"
  by (rule run_inv_from [of _ 0])
     (use assms in \<open>simp_all add: engine_inv_def lots_bound_def tax_engine_new_def\<close>)

definition day :: "int \<Rightarrow> datetime" where
  "day d = Aware (d * 86400000000)"

theorem tax_lot_inventory_invariant_witness:
  "engine_inv (foldl fill_exec (tax_engine_new ''p'' FIFO True)
     [Fill (\<lambda>_. ''0'') (day 0) (PStr ''AAPL'') ''buy'' (PInt 10) (PInt 100) None None,
      Fill (\<lambda>_. ''1'') (day 1) (PStr ''AAPL'') ''SELL'' (PInt 12) (PInt 90) None (Some LIFO)])"
  by (rule tax_lot_inventory_invariant) simp

text \<open>The conservation check never fires: from an inventory that satisfies the invariant, with at most 131071
  lots per symbol and a position that does not overflow, no fill raises \<^verbatim>\<open>NegativeInventoryError\<close>; the naive sum
  of the check and the compensated sum of \<^verbatim>\<open>get_position\<close> always agree within its tolerance.\<close>

theorem tax_lot_check_never_fires:
  assumes "engine_inv eng" and "pyval_double qv" and "lots_bound 131071 eng" and "as_str symv = Some s"
    and "allocate_fill hex now eng symv sd qv pxv ts mo = (eng', Inl e)" and "isfinite (get_position eng' s)"
  shows "e \<noteq> Lot NegativeInventoryError"
proof (cases rule: allocate_fill_cases [of hex now eng symv sd qv pxv ts mo])
  case (reject e')
  then show ?thesis using assms(5) by simp
next
  case (accept s' q px buy t m)
  have s: "s' = s" using accept(1) assms(4) check_str_InrD by fastforce
  have inv: "engine_inv eng'"
    using allocate_fill_inv [OF assms(1,2) lots_bound_mono [OF assms(3)], of hex now symv sd pxv ts mo] assms(5) by simp
  have b: "lots_bound (Suc 131071) eng'" using allocate_fill_bound [OF assms(3), of hex now symv sd qv pxv ts mo] assms(5) by simp
  have fin: "\<exists>res. finish_fill eng' s a b d p = (eng', Inr res)" for a b d p
    using finish_fill_no_negative [OF engine_lots_ok [OF inv] _ assms(6)] lots_bound_get [OF b] by fastforce
  have nl: "e' \<noteq> Lot NegativeInventoryError" if "new_lot g h s sd t q px = Inl e'" for g h sd t q px e'
    using that by (auto simp: new_lot_def tax_lot_new_def split: if_splits)
  have se: "e' \<noteq> Lot NegativeInventoryError" if "sort_lots m ls = Inl e'" for ls e'
    using that by (auto simp: sort_lots_def Let_def split: if_splits)
  have ml: "e' \<noteq> Lot NegativeInventoryError" if "match_lots c is ms = (ms', Inl e')" for c "is" ms ms' e'
    using that
  proof (induction "is" arbitrary: ms)
    case (Cons i "is")
    then show ?case by (auto simp: seconds_between_def split: if_splits sum.splits)
  qed simp
  have ff: "eng'' = eng' \<and> False" if "finish_fill eng'' s a b d p = (eng', Inl e')" for eng'' a b d p e'
    using that fin [of a b d p] by (auto simp: finish_fill_def)
  show ?thesis
  proof (cases "is_increasing buy (get_position (with_symbol eng s) s)")
    case True
    then have "open_fill hex (with_symbol eng s) s buy q px t = (eng', Inl e)" using accept(6) assms(5) s by simp
    then show ?thesis using nl ff by (auto simp: open_fill_def split: if_splits sum.splits)
  next
    case False
    then have "close_fill hex (with_symbol eng s) s buy q px t m = (eng', Inl e)" using accept(6) assms(5) s by simp
    then show ?thesis using nl ff se ml unfolding close_fill_def Let_def
      by (auto split: if_splits sum.splits prod.splits)
  qed
qed

theorem tax_lot_check_never_fires_witness:
  "\<exists>eng' e. allocate_fill (\<lambda>_. ''0'') (day 0) (tax_engine_new ''p'' FIFO False) (PStr ''AAPL'') ''SELL'' (PInt 5) (PInt 7) None None
       = (eng', Inl e) \<and> e \<noteq> Lot NegativeInventoryError"
proof -
  let ?eng = "tax_engine_new ''p'' FIFO False"
  have a: "allocate_fill (\<lambda>_. ''0'') (day 0) ?eng (PStr ''AAPL'') ''SELL'' (PInt 5) (PInt 7) None None
       = (set_lots ?eng ''AAPL'' [], Inl (Lot OrphanedFillError))"
    by (simp add: allocate_fill_def check_str_def int_overflows_def float_of_int_def fill_side_def str_strip_def is_space_def
        str_upper_def char_upper_def with_symbol_def tax_engine_new_def is_increasing_def get_position_def get_open_lots_def
        set_lots_def open_fill_def Let_def)
  have "engine_inv ?eng" "lots_bound 131071 ?eng" by (simp_all add: engine_inv_def lots_bound_def tax_engine_new_def)
  from tax_lot_check_never_fires [OF this(1) _ this(2) _ a, of "''AAPL''"] a show ?thesis
    by (simp add: get_position_def get_open_lots_def set_lots_def tax_engine_new_def)
qed

section \<open>Whole shares\<close>

definition shares :: "tax_lot \<Rightarrow> int" where
  "shares l = (case remaining_quantity l of Fin a \<Rightarrow> \<lfloor>a\<rfloor> | _ \<Rightarrow> 0)"

definition whole_lot :: "tax_lot \<Rightarrow> bool" where
  "whole_lot l \<longleftrightarrow> remaining_quantity l = whole (shares l) \<and> 0 \<le> shares l"

definition total_shares :: "tax_lot list \<Rightarrow> int" where
  "total_shares ls = sum_list (map shares ls)"

definition net_shares :: "tax_lot list \<Rightarrow> int" where
  "net_shares ls = sum_list (map (\<lambda>l. if lot_side l = LONG then shares l else - shares l) ls)"

abbreviation lots_of :: "tax_engine \<Rightarrow> string \<Rightarrow> tax_lot list" where
  "lots_of eng s \<equiv> dict_get_default (engine_lots eng) s []"

lemma shares_whole: "remaining_quantity l = whole k \<Longrightarrow> shares l = k"
  by (simp add: shares_def)

lemma lot_eps_less_whole: "lot_eps < whole k \<longleftrightarrow> 1 \<le> k"
proof -
  obtain e where e: "lot_eps = Fin e" "0 < e" "e < 1" using lot_eps_Fin by blast
  have "e < of_int k \<longleftrightarrow> 1 \<le> k"
  proof
    assume "e < of_int k"
    then have "(0::rat) < of_int k" using e by linarith
    then show "1 \<le> k" by simp
  next
    assume "1 \<le> k"
    then have "(1::rat) \<le> of_int k" by simp
    then show "e < of_int k" using e by linarith
  qed
  then show ?thesis unfolding e(1) by simp
qed

lemma whole_le_lot_eps: "whole k \<le> lot_eps \<longleftrightarrow> k \<le> 0"
  using lot_eps_less_whole [of k] float_not_less [of lot_eps "whole k"] by auto

lemma whole_open: "whole_lot l \<Longrightarrow> lot_open l \<longleftrightarrow> 1 \<le> shares l"
  unfolding lot_open_def whole_lot_def using lot_eps_less_whole [of "shares l"] by simp

lemma total_open:
  assumes "list_all whole_lot ls"
  shows "total_shares (filter lot_open ls) = total_shares ls"
  using assms whole_open by (induction ls) (auto simp: total_shares_def whole_lot_def)

lemma net_total:
  assumes "list_all whole_lot ls" and "\<forall>l \<in> set ls. lot_open l \<longrightarrow> lot_side l = sd"
  shows "net_shares ls = (if sd = LONG then total_shares ls else - total_shares ls)"
  using assms
proof (induction ls)
  case (Cons l ls)
  have "shares l = 0 \<or> lot_side l = sd" using Cons.prems whole_open [of l] by (auto simp: whole_lot_def)
  then show ?case using Cons by (auto simp: net_shares_def total_shares_def)
qed (simp add: net_shares_def total_shares_def)

lemma total_nonneg: "list_all whole_lot ls \<Longrightarrow> 0 \<le> total_shares ls"
  by (induction ls) (auto simp: total_shares_def whole_lot_def)

lemma position_whole:
  assumes "list_all whole_lot (lots_of eng s)" and "one_sided (lots_of eng s)" and "total_shares (lots_of eng s) < 2 ^ 53"
  shows "get_position eng s = whole (net_shares (lots_of eng s))"
proof (cases "filter lot_open (lots_of eng s)")
  case Nil
  then have "\<forall>l \<in> set (lots_of eng s). lot_open l \<longrightarrow> lot_side l = LONG" by (auto simp: filter_empty_conv)
  from net_total [OF assms(1) this] total_open [OF assms(1)] Nil
  have "net_shares (lots_of eng s) = 0" by (simp add: total_shares_def)
  then show ?thesis using Nil by (simp add: get_position_def get_open_lots_def)
next
  case (Cons k ks)
  have sub: "set (k # ks) \<subseteq> set (lots_of eng s)" "\<forall>l \<in> set (k # ks). lot_open l"
    using Cons filter_is_subset [of lot_open "lots_of eng s"] by (metis, metis filter_set set_filter mem_Collect_eq)
  have side: "\<forall>l \<in> set (lots_of eng s). lot_open l \<longrightarrow> lot_side l = lot_side k"
    using assms(2) sub unfolding one_sided_def by (metis list.set_intros(1) subsetD)
  have w: "list_all whole_lot (k # ks)" using assms(1) sub(1) unfolding list_all_iff by blast
  have "map remaining_quantity (k # ks) = map whole (map shares (k # ks))" "list_all (\<lambda>j. 0 \<le> j) (map shares (k # ks))"
    using w by (auto simp: whole_lot_def list_all_iff)
  then have "py_sum (map remaining_quantity (k # ks)) = whole (total_shares (k # ks))"
    using py_sum_whole [of "map shares (k # ks)"] total_open [OF assms(1)] assms(3) Cons by (simp only:) (simp add: total_shares_def)
  then show ?thesis
    using Cons net_total [OF assms(1) side] total_open [OF assms(1)]
    by (simp add: get_position_def get_open_lots_def Let_def)
qed

text \<open>The loop on whole shares: what the lots lose is what the fill loses.\<close>

lemma reduce_lot_shares:
  assumes "remaining_quantity l = whole a" and "0 \<le> b" "b \<le> a" and "a < 2 ^ 53"
  shows "remaining_quantity (reduce_lot l (whole b)) = whole (a - b)"
proof -
  have "remaining_quantity l - whole b = whole (a - b)" using assms whole_diff [of a b] by simp
  then show ?thesis using assms(3) whole_le_lot_eps [of "a - b"] by (auto simp: reduce_lot_def Let_def zero_float64_def)
qed

lemma py_min_whole: "py_min (whole a) (whole b) = whole (min a b)"
  by (simp add: py_min_def min_def)

lemma total_update:
  assumes "i < length ls"
  shows "total_shares (ls[i := l]) = total_shares ls - shares (ls ! i) + shares l"
  using assms by (induction ls arbitrary: i) (auto simp: total_shares_def split: nat.splits)

lemma shares_le_total: "list_all whole_lot ls \<Longrightarrow> i < length ls \<Longrightarrow> shares (ls ! i) \<le> total_shares ls"
  unfolding total_shares_def by (intro member_le_sum_list) (auto simp: whole_lot_def list_all_iff)

lemma match_lot_whole:
  assumes "list_all whole_lot (ms_lots ms)" and "ms_fill ms = whole k" and "0 \<le> k" "k < 2 ^ 53"
    and "total_shares (ms_lots ms) < 2 ^ 53" and i: "i < length (ms_lots ms)"
  defines "b \<equiv> min (shares (ms_lots ms ! i)) k"
  shows "py_min (remaining_quantity (ms_lots ms ! i)) (ms_fill ms) = whole b" "0 \<le> b" "b \<le> k"
    and "ms_fill (match_lot c ms i sec) = whole (k - b)"
    and "list_all whole_lot (ms_lots (match_lot c ms i sec))"
    and "total_shares (ms_lots (match_lot c ms i sec)) = total_shares (ms_lots ms) - b"
proof -
  let ?l = "ms_lots ms ! i" and ?ms = "match_lot c ms i sec"
  let ?a = "shares ?l"
  have a: "remaining_quantity ?l = whole ?a" "0 \<le> ?a" "?a < 2 ^ 53"
    using assms(1,5) i shares_le_total [OF assms(1) i] by (auto simp: list_all_length whole_lot_def)
  show m: "py_min (remaining_quantity ?l) (ms_fill ms) = whole b" unfolding a(1) assms(2) b_def by (rule py_min_whole)
  show b: "0 \<le> b" "b \<le> k" using a(2) assms(3) by (simp_all add: b_def)
  have r: "remaining_quantity (reduce_lot ?l (whole b)) = whole (?a - b)"
    using a assms(3) by (intro reduce_lot_shares) (auto simp: b_def)
  have sh: "shares (reduce_lot ?l (whole b)) = ?a - b" using r by (rule shares_whole)
  have lots: "ms_lots ?ms = (ms_lots ms)[i := reduce_lot ?l (whole b)]" using m by simp
  show "ms_fill ?ms = whole (k - b)" using m assms(2,4) b whole_diff [of k b] by simp
  show "list_all whole_lot (ms_lots ?ms)"
    unfolding lots using assms(1) r sh i by (auto simp: list_all_length nth_list_update whole_lot_def b_def)
  show "total_shares (ms_lots ?ms) = total_shares (ms_lots ms) - b"
    unfolding lots using total_update [OF i, of "reduce_lot ?l (whole b)"] sh by simp
qed

lemma match_lots_whole:
  assumes "list_all whole_lot (ms_lots ms)" and "ms_fill ms = whole k" and "0 \<le> k" "k < 2 ^ 53"
    and "total_shares (ms_lots ms) < 2 ^ 53" and "distinct is" and "\<forall>i \<in> set is. i < length (ms_lots ms)"
    and "\<forall>i \<in> set is. dt_aware (open_timestamp (ms_lots ms ! i)) = dt_aware (ctx_time c)"
  shows "\<exists>ms' k'. match_lots c is ms = (ms', Inr ()) \<and> list_all whole_lot (ms_lots ms') \<and> ms_fill ms' = whole k' \<and>
           0 \<le> k' \<and> k' \<le> k \<and> total_shares (ms_lots ms') = total_shares (ms_lots ms) - (k - k')"
  using assms
proof (induction "is" arbitrary: ms k)
  case (Cons i "is")
  show ?case
  proof (cases "ms_fill ms \<le> lot_eps")
    case True
    then show ?thesis using Cons.prems(1-3) by auto
  next
    case False
    let ?l = "ms_lots ms ! i"
    obtain sec where sec: "seconds_between (ctx_time c) (open_timestamp ?l) = Inr sec"
      using Cons.prems(8) by (simp add: seconds_between_def)
    let ?ms = "match_lot c ms i sec" and ?b = "min (shares ?l) k"
    have i: "i < length (ms_lots ms)" "i \<notin> set is" "distinct is" using Cons.prems(6,7) by auto
    note st = match_lot_whole [OF Cons.prems(1-5) i(1)]
    have "\<forall>j \<in> set is. j < length (ms_lots ?ms)" using Cons.prems(7) by simp
    moreover have "\<forall>j \<in> set is. dt_aware (open_timestamp (ms_lots ?ms ! j)) = dt_aware (ctx_time c)"
    proof
      fix j assume "j \<in> set is"
      then have "j \<noteq> i" "dt_aware (open_timestamp (ms_lots ms ! j)) = dt_aware (ctx_time c)" using i(2) Cons.prems(8) by auto
      then show "dt_aware (open_timestamp (ms_lots ?ms ! j)) = dt_aware (ctx_time c)" by simp
    qed
    ultimately have "\<exists>ms' k'. match_lots c is ?ms = (ms', Inr ()) \<and> list_all whole_lot (ms_lots ms') \<and> ms_fill ms' = whole k' \<and>
        0 \<le> k' \<and> k' \<le> k - ?b \<and> total_shares (ms_lots ms') = total_shares (ms_lots ?ms) - (k - ?b - k')"
      using Cons.IH [OF st(5,4) _ _ _ i(3)] Cons.prems(4,5) st(2,3) unfolding st(6) by auto
    then obtain ms' k' where ih: "match_lots c is ?ms = (ms', Inr ())" "list_all whole_lot (ms_lots ms')" "ms_fill ms' = whole k'"
        "0 \<le> k'" "k' \<le> k - ?b" "total_shares (ms_lots ms') = total_shares (ms_lots ?ms) - (k - ?b - k')" by blast
    moreover have "k' \<le> k" using ih(5) st(2) by linarith
    ultimately show ?thesis using False sec unfolding st(6) by (intro exI [of _ ms'] exI [of _ k']) simp
  qed
qed simp

text \<open>The two branches on whole shares.\<close>

lemma new_lot_works:
  "pos_finite q \<Longrightarrow> pos_finite px \<Longrightarrow> \<exists>l. new_lot eng h s sd t q px = Inr l"
  by (cases q; cases px) (auto simp: new_lot_def tax_lot_new_def pos_finite_def zero_float64_def)

lemma net_snoc: "net_shares (ls @ [l]) = net_shares ls + (if lot_side l = LONG then shares l else - shares l)"
  by (simp add: net_shares_def)

text \<open>A fill of \<open>d\<close> (signed) whole shares that succeeds with exact books.\<close>

definition whole_outcome :: "tax_engine \<Rightarrow> string \<Rightarrow> int \<Rightarrow> tax_engine \<times> fill_allocation res \<Rightarrow> bool" where
  "whole_outcome eng s d out \<longleftrightarrow>
     (\<exists>eng' res. out = (eng', Inr res) \<and> net_shares (lots_of eng' s) = net_shares (lots_of eng s) + d \<and>
        remaining_position res = whole (net_shares (lots_of eng' s)) \<and> list_all whole_lot (lots_of eng' s))"

lemma finish_whole:
  assumes "engine_inv eng" "lots_bound (2 ^ 17) eng" and "list_all whole_lot (lots_of eng s)" and "total_shares (lots_of eng s) < 2 ^ 53"
    and "net_shares (lots_of eng s) = net_shares (lots_of eng0 s) + x"
  shows "whole_outcome eng0 s x (finish_fill eng s a b d p)"
proof -
  have ok: "lots_ok (lots_of eng s)" using assms(1) by (rule engine_lots_ok)
  have pos: "get_position eng s = whole (net_shares (lots_of eng s))"
    using assms(3,4) ok by (intro position_whole) (auto simp: lots_ok_def)
  then obtain res where "finish_fill eng s a b d p = (eng, Inr res)" "remaining_position res = get_position eng s"
    using finish_fill_no_negative [OF ok lots_bound_get [OF assms(2)]] by fastforce
  then show ?thesis unfolding whole_outcome_def using pos assms(3,5) by simp
qed

lemma open_fill_whole:
  assumes "engine_inv eng" "lots_bound 131071 eng" "list_all whole_lot (lots_of eng s)" "total_shares (lots_of eng s) + q < 2 ^ 53"
    and "1 \<le> q" "pos_finite px" "allow_shorting eng \<or> buy" "is_increasing buy (get_position eng s)"
  shows "whole_outcome eng s (if buy then q else - q) (open_fill hex eng s buy (whole q) px t)"
proof -
  have q: "pos_finite (whole q)" "is_double (whole q)"
    using assms(4,5) total_nonneg [OF assms(3)] rnd64_of_int [of q] by auto
  obtain l where l: "new_lot eng (hex 0) s (if buy then LONG else SHORT) t (whole q) px = Inr l"
    using new_lot_works q(1) assms(6) by blast
  note lf = new_lot_Inr [OF l]
  have sh: "shares l = q" using lf by (intro shares_whole) simp
  let ?eng = "set_lots eng s (lots_of eng s @ [l])"
  have e: "open_fill hex eng s buy (whole q) px t = finish_fill ?eng s [] [l] [] 0" using l assms(7) by (auto simp: open_fill_def)
  have b17: "length (lots_of eng s) \<le> 2 ^ 17" using lots_bound_get [OF assms(2), of s] by simp
  have inv: "engine_inv ?eng" using open_fill_inv [OF assms(1) q(2) b17 assms(8), of hex px t] e by simp
  have b: "lots_bound (2 ^ 17) ?eng" using open_fill_bound [OF assms(2), of hex s buy "whole q" px t] e by simp
  have w: "list_all whole_lot (lots_of ?eng s)" using assms(3,5) lf sh by (simp add: whole_lot_def)
  have t: "total_shares (lots_of ?eng s) < 2 ^ 53" using assms(4) sh by (simp add: total_shares_def)
  show ?thesis unfolding e using lf sh by (intro finish_whole [OF inv b w t]) (simp add: net_snoc)
qed

lemma sort_lots_aware:
  assumes "list_all (\<lambda>l. dt_aware (open_timestamp l)) ls"
  shows "\<exists>is. sort_lots m ls = Inr is"
  using assms active_lots_set(1) [of ls] by (auto simp: sort_lots_def Let_def list_ex_iff list_all_length)

lemma close_fill_whole:
  assumes "engine_inv eng" "lots_bound 131071 eng" "list_all whole_lot (lots_of eng s)" "total_shares (lots_of eng s) + q < 2 ^ 53"
    and "1 \<le> q" "pos_finite px" "allow_shorting eng \<or> buy" "\<not> is_increasing buy (get_position eng s)"
    and "list_all (\<lambda>l. dt_aware (open_timestamp l)) (lots_of eng s)" "dt_aware t"
  shows "whole_outcome eng s (if buy then q else - q) (close_fill hex eng s buy (whole q) px t m)"
proof -
  let ?ls = "lots_of eng s" and ?sd = "if buy then SHORT else LONG"
  have q: "pos_finite (whole q)" "is_double (whole q)" and q53: "q < 2 ^ 53" "total_shares ?ls < 2 ^ 53"
    using assms(4,5) total_nonneg [OF assms(3)] rnd64_of_int [of q] by auto
  have ok: "lots_ok ?ls" using assms(1) by (rule engine_lots_ok)
  have len: "length ?ls \<le> 2 ^ 17" using lots_bound_get [OF assms(2), of s] by simp
  have side: "\<forall>l \<in> set ?ls. lot_open l \<longrightarrow> lot_side l = ?sd"
    using position_sign [OF ok refl len] assms(8) float_less_imp_le unfolding is_increasing_def
    by (metis (full_types) lot_side.exhaust)
  obtain "is" where srt: "sort_lots m ?ls = Inr is" using sort_lots_aware [OF assms(9)] by blast
  note p = sort_lots_perm [OF srt]
  let ?c = "\<lparr>ctx_hex = hex, ctx_portfolio_id = engine_portfolio_id eng, ctx_symbol = s, ctx_price = px, ctx_time = t\<rparr>"
  let ?ms = "\<lparr>ms_lots = ?ls, ms_fill = whole q, ms_trades = [], ms_depleted = [], ms_pnl = 0\<rparr>"
  obtain ms k where run: "match_lots ?c is ?ms = (ms, Inr ())" and ms: "list_all whole_lot (ms_lots ms)" "ms_fill ms = whole k"
      "0 \<le> k" "k \<le> q" "total_shares (ms_lots ms) = total_shares ?ls - (q - k)"
    using match_lots_whole [of ?ms q "is" ?c] assms(3,5,9,10) q53 p by (auto simp: list_all_length)
  note st = match_lots_start [OF ok q srt run]
  have net: "net_shares ?ls = (if buy then - total_shares ?ls else total_shares ?ls)"
    using net_total [OF assms(3) side] by simp
  let ?out = "close_fill hex eng s buy (whole q) px t m"
  have inv: "engine_inv (fst ?out)" using assms(1) q by (rule close_fill_inv)
  have b: "lots_bound (2 ^ 17) (fst ?out)" using close_fill_bound [OF assms(2), of hex s buy "whole q" px t m] by simp
  show ?thesis
  proof (cases "lot_eps < ms_fill ms")
    case True
    then have k: "1 \<le> k" using ms(2) lot_eps_less_whole by simp
    have k53: "k < 2 ^ 53" using ms(4) q53 by simp
    have kd: "pos_finite (whole k)" using k by simp
    have "py_round 6 (ms_fill ms) = whole k" using ms(2) k k53 by (simp only: whole_round)
    then obtain l where l: "new_lot eng (hex (length (ms_trades ms))) s (if buy then LONG else SHORT) t
        (py_round 6 (ms_fill ms)) px = Inr l" and lk: "remaining_quantity l = whole k" "lot_side l = (if buy then LONG else SHORT)"
      using new_lot_works [OF kd assms(6)] new_lot_Inr by metis
    have sh: "shares l = k" using lk(1) by (rule shares_whole)
    let ?eng = "set_lots eng s (ms_lots ms @ [l])"
    have e: "?out = finish_fill ?eng s (ms_trades ms) [l] (ms_depleted ms) (ms_pnl ms)"
      using srt run True l assms(7) by (auto simp: close_fill_def Let_def)
    have closed: "\<forall>l \<in> set (ms_lots ms). \<not> lot_open l" using st(4) True by simp
    then have "filter lot_open (ms_lots ms) = []" by (simp add: filter_empty_conv)
    then have t0: "total_shares (ms_lots ms) = 0" using total_open [OF ms(1)] by (simp add: total_shares_def)
    have "net_shares (ms_lots ms) = 0" using net_total [OF ms(1), of LONG] closed t0 by simp
    then have n: "net_shares (lots_of ?eng s) = net_shares ?ls + (if buy then q else - q)"
      using net lk sh t0 ms(5) by (auto simp: net_snoc)
    have w: "list_all whole_lot (lots_of ?eng s)" using ms(1) lk(1) sh k by (simp add: whole_lot_def)
    have t53: "total_shares (lots_of ?eng s) < 2 ^ 53" using t0 sh k53 by (simp add: total_shares_def)
    show ?thesis using finish_whole [OF _ _ w t53 n] inv b unfolding e by simp
  next
    case False
    then have k: "k = 0" using ms(2,3) lot_eps_less_whole [of k] by simp
    let ?eng = "set_lots eng s (ms_lots ms)"
    have e: "?out = finish_fill ?eng s (ms_trades ms) [] (ms_depleted ms) (ms_pnl ms)"
      using srt run False by (simp add: close_fill_def Let_def)
    have "\<forall>l \<in> set (ms_lots ms). lot_open l \<longrightarrow> lot_side l = ?sd"
      using shrunk_origin [OF st(3)] side by metis
    then have n: "net_shares (lots_of ?eng s) = net_shares ?ls + (if buy then q else - q)"
      using net_total [OF ms(1), of ?sd] net ms(5) k by (cases buy) auto
    have w: "list_all whole_lot (lots_of ?eng s)" using ms(1) by simp
    have t53: "total_shares (lots_of ?eng s) < 2 ^ 53" using ms(5) k q53 assms(5) by simp
    show ?thesis using finish_whole [OF _ _ w t53 n] inv b unfolding e by simp
  qed
qed

lemma allocate_fill_whole:
  assumes "engine_inv eng" and "lots_bound 131071 eng" and "list_all whole_lot (lots_of eng s)"
    and "list_all (\<lambda>l. dt_aware (open_timestamp l)) (lots_of eng s)" and "total_shares (lots_of eng s) + q < 2 ^ 53"
    and "s \<noteq> []" and "1 \<le> q" and "check_positive pxv = Inr px" and "fill_side sd = Inr buy" and "allow_shorting eng \<or> buy"
    and "pyval_double pxv"
  shows "whole_outcome eng s (if buy then q else - q) (allocate_fill hex now eng (PStr s) sd (PInt q) pxv (Some (Aware t)) mo)"
proof -
  let ?eng = "with_symbol eng s"
  have q53: "\<bar>q\<bar> < 2 ^ 53" using assms(5,7) total_nonneg [OF assms(3)] by simp
  then have q: "check_positive (PInt q) = Inr (whole q)"
    using assms(7) rnd64_of_int [of q] by (simp add: int_overflows_def float_of_int_def)
  have px: "pos_finite px" using is_double_check [OF assms(8,11)] by blast
  have e: "engine_inv ?eng" "lots_bound 131071 ?eng" "allow_shorting ?eng \<or> buy" "lots_of ?eng s = lots_of eng s"
    using assms(1,2,10) by (simp_all add: with_symbol_inv with_symbol_bound) (simp add: with_symbol_def set_lots_def)
  have a: "list_all whole_lot (lots_of ?eng s)" "total_shares (lots_of ?eng s) + q < 2 ^ 53"
    "list_all (\<lambda>l. dt_aware (open_timestamp l)) (lots_of ?eng s)" using assms(3-5) e(4) by simp_all
  have "whole_outcome ?eng s (if buy then q else - q) (allocate_fill hex now eng (PStr s) sd (PInt q) pxv (Some (Aware t)) mo)"
  proof (cases "is_increasing buy (get_position ?eng s)")
    case True
    have "allocate_fill hex now eng (PStr s) sd (PInt q) pxv (Some (Aware t)) mo = open_fill hex ?eng s buy (whole q) px (Aware t)"
      using True q assms(6,8,9) unfolding allocate_fill_def by (simp add: check_str_def Let_def del: check_positive.simps)
    then show ?thesis using open_fill_whole [OF e(1,2) a(1,2) assms(7) px e(3) True] by simp
  next
    case False
    have "allocate_fill hex now eng (PStr s) sd (PInt q) pxv (Some (Aware t)) mo =
        close_fill hex ?eng s buy (whole q) px (Aware t) (case mo of Some m \<Rightarrow> m | None \<Rightarrow> default_method eng)"
      using False q assms(6,8,9) unfolding allocate_fill_def by (simp add: check_str_def Let_def del: check_positive.simps)
    then show ?thesis using close_fill_whole [OF e(1,2) a(1,2) assms(7) px e(3) False a(3)] by simp
  qed
  then show ?thesis unfolding whole_outcome_def e(4) .
qed

text \<open>C29: Whole-share accounting is exact and complete: a valid fill of whole shares (fewer than 2 ^ 53 in all, UTC
  timestamps, shorting allowed or a buy) never raises, opens, reduces, closes or flips as needed, moves the net
  inventory by exactly the filled quantity, and reports exactly that position.\<close>

theorem tax_lot_whole_share_accounting:
  assumes "engine_inv eng" and "lots_bound 131071 eng" and "list_all whole_lot (lots_of eng s)"
    and "list_all (\<lambda>l. dt_aware (open_timestamp l)) (lots_of eng s)" and "total_shares (lots_of eng s) + q < 2 ^ 53"
    and "s \<noteq> []" and "1 \<le> q" and "check_positive pxv = Inr px" and "fill_side sd = Inr buy" and "allow_shorting eng \<or> buy"
    and "pyval_double pxv"
  shows "\<exists>eng' res. allocate_fill hex now eng (PStr s) sd (PInt q) pxv (Some (Aware t)) mo = (eng', Inr res) \<and>
           net_shares (lots_of eng' s) = net_shares (lots_of eng s) + (if buy then q else - q) \<and>
           remaining_position res = whole (net_shares (lots_of eng' s)) \<and> list_all whole_lot (lots_of eng' s)"
  using allocate_fill_whole [OF assms, of hex now t mo] unfolding whole_outcome_def .

definition sample_lot :: "string \<Rightarrow> int \<Rightarrow> int \<Rightarrow> tax_lot" where
  "sample_lot i d k =
     \<lparr>lot_id = i, lot_portfolio_id = ''p'', lot_symbol = ''AAPL'', lot_side = LONG, open_timestamp = day d,
      original_quantity = whole k, remaining_quantity = whole k, cost_basis_per_share = Fin 100, lot_status = OPEN\<rparr>"

definition sample_engine :: tax_engine where
  "sample_engine = \<lparr>engine_portfolio_id = ''p'', default_method = FIFO, allow_shorting = True,
     engine_lots = [(''AAPL'', [sample_lot ''lot_a'' 0 10, sample_lot ''lot_b'' 1 5])]\<rparr>"

lemma sample_engine_ok: "engine_inv sample_engine" "lots_bound 131071 sample_engine"
  by (simp_all add: engine_inv_def lots_ok_def one_sided_def lot_ok_def sample_engine_def sample_lot_def lots_bound_def)

lemma sell_side: "fill_side ''SELL'' = Inr False"
  by (simp add: fill_side_def str_strip_def is_space_def str_upper_def char_upper_def Let_def)

theorem tax_lot_whole_share_accounting_witness:
  "\<exists>eng' res. allocate_fill (\<lambda>_. ''0'') (day 2) sample_engine (PStr ''AAPL'') ''SELL'' (PInt 18) (PInt 90) (Some (Aware 5)) None
       = (eng', Inr res) \<and> net_shares (lots_of eng' ''AAPL'') = - 3 \<and> remaining_position res = Fin (- 3)"
proof -
  have l: "lots_of sample_engine ''AAPL'' = [sample_lot ''lot_a'' 0 10, sample_lot ''lot_b'' 1 5]"
    by (simp add: sample_engine_def)
  have sh: "shares (sample_lot i d k) = k" for i d k by (rule shares_whole) (simp add: sample_lot_def)
  have w: "list_all whole_lot (lots_of sample_engine ''AAPL'')" "total_shares (lots_of sample_engine ''AAPL'') = 15"
    "net_shares (lots_of sample_engine ''AAPL'') = 15"
    unfolding l by (simp_all add: whole_lot_def total_shares_def net_shares_def sh) (simp_all add: sample_lot_def)
  have d: "list_all (\<lambda>l. dt_aware (open_timestamp l)) (lots_of sample_engine ''AAPL'')"
    unfolding l by (simp add: sample_lot_def day_def)
  have px: "check_positive (PInt 90) = Inr (Fin 90)" by (simp add: int_overflows_def float_of_int_def)
  show ?thesis
    using tax_lot_whole_share_accounting [OF sample_engine_ok w(1) d _ _ _ px sell_side,
        of 18 "\<lambda>_. ''0''" "day 2" 5 None] w(2,3)
    by (auto simp: sample_engine_def)
qed

section \<open>Matching order\<close>

definition in_method_order :: "tax_lot_method \<Rightarrow> tax_lot list \<Rightarrow> nat list \<Rightarrow> bool" where
  "in_method_order m ls is \<longleftrightarrow>
     (let times = map (\<lambda>i. dt_us (open_timestamp (ls ! i))) is
      in if m = LIFO then sorted (rev times) else sorted times)"

lemma sort_lots_order: "sort_lots m ls = Inr is \<Longrightarrow> in_method_order m ls is"
proof -
  have r: "map f (rev (sort_key f xs)) = rev (map f (sort_key f xs))" for f :: "nat \<Rightarrow> int" and xs by (simp add: rev_map)
  assume "sort_lots m ls = Inr is"
  then show ?thesis by (auto simp: sort_lots_def in_method_order_def Let_def rev_map split: if_splits)
qed

lemma match_lots_order:
  assumes "match_lots c is ms = (ms', Inr ())" and "match_inv ms" and "distinct is"
    and "\<forall>i \<in> set is. i < length (ms_lots ms) \<and> lot_open (ms_lots ms ! i)"
  shows "\<exists>n \<le> length is. (0 < n \<longrightarrow> lot_eps < ms_fill ms) \<and>
           map gain_lot_id (ms_trades ms') = map gain_lot_id (ms_trades ms) @ map (\<lambda>i. lot_id (ms_lots ms ! i)) (take n is) \<and>
           (\<forall>j. Suc j < n \<longrightarrow> remaining_quantity (ms_lots ms' ! (is ! j)) = 0) \<and>
           (\<forall>i \<in> set (drop n is). ms_lots ms' ! i = ms_lots ms ! i)"
  using assms
proof (induction "is" arbitrary: ms)
  case (Cons i "is")
  show ?case
  proof (cases "ms_fill ms \<le> lot_eps")
    case True
    then show ?thesis using Cons.prems(1) by (intro exI [of _ 0]) simp
  next
    case False
    then have pos: "lot_eps < ms_fill ms" using Cons.prems(2) by (auto simp: match_inv_def nonneg_finite_def less_float64_def)
    obtain sec where sec: "seconds_between (ctx_time c) (open_timestamp (ms_lots ms ! i)) = Inr sec"
      using Cons.prems(1) False by (auto split: sum.splits)
    let ?ms = "match_lot c ms i sec"
    have i: "i < length (ms_lots ms)" "lot_open (ms_lots ms ! i)" "i \<notin> set is" "distinct is" using Cons.prems(3,4) by auto
    note st = match_lot_step [OF Cons.prems(2) i(1,2), of c sec]
    have run: "match_lots c is ?ms = (ms', Inr ())" using Cons.prems(1) False sec by simp
    have same: "ms_lots ?ms ! j = ms_lots ms ! j" if "j \<in> set is" for j
    proof -
      have "j \<noteq> i" using that i(3) by auto
      then show ?thesis by simp
    qed
    have "\<forall>j \<in> set is. j < length (ms_lots ?ms) \<and> lot_open (ms_lots ?ms ! j)" using Cons.prems(4) same by auto
    from Cons.IH [OF run st(1) i(4) this] obtain n where n: "n \<le> length is" "0 < n \<longrightarrow> lot_eps < ms_fill ?ms"
      "map gain_lot_id (ms_trades ms') = map gain_lot_id (ms_trades ?ms) @ map (\<lambda>i. lot_id (ms_lots ?ms ! i)) (take n is)"
      "\<forall>j. Suc j < n \<longrightarrow> remaining_quantity (ms_lots ms' ! (is ! j)) = 0"
      "\<forall>j \<in> set (drop n is). ms_lots ms' ! j = ms_lots ?ms ! j" by blast
    have "map (\<lambda>i. lot_id (ms_lots ?ms ! i)) (take n is) = map (\<lambda>i. lot_id (ms_lots ms ! i)) (take n is)"
      using same by (intro map_cong refl) (metis in_set_takeD)
    then have tr: "map gain_lot_id (ms_trades ms') =
        map gain_lot_id (ms_trades ms) @ map (\<lambda>i. lot_id (ms_lots ms ! i)) (take (Suc n) (i # is))"
      using n(3) by (simp add: match_lot_def Let_def)
    have "remaining_quantity (ms_lots ms' ! ((i # is) ! j)) = 0" if "Suc j < Suc n" for j
    proof (cases j)
      case 0
      then show ?thesis using n(2) that st(4) match_lots_frame [OF run i(3)] by simp
    next
      case (Suc j')
      then show ?thesis using n(4) that by simp
    qed
    moreover have "\<forall>j \<in> set (drop (Suc n) (i # is)). ms_lots ms' ! j = ms_lots ms ! j"
      using n(5) same by (metis drop_Suc_Cons in_set_dropD)
    ultimately show ?thesis using n(1) pos tr by (intro exI [of _ "Suc n"]) simp
  qed
qed simp

text \<open>C30: Matching order: a fill that reduces a position goes through the open lots by opening time, oldest first
  under FIFO and newest first under LIFO. The trades name exactly the lots of a prefix of that order, every lot of the
  prefix but the last is used up completely, and the lots after the prefix are untouched.\<close>

theorem tax_lot_matching_order:
  assumes "engine_inv eng" and "pyval_double qv" and "dict_get (engine_lots eng) s = Some ls"
    and "fill_side sd = Inr buy" and "\<not> is_increasing buy (get_position eng s)"
    and "allocate_fill hex now eng (PStr s) sd qv pxv ts (Some m) = (eng', Inr res)"
  shows "\<exists>is n. in_method_order m ls is \<and> set is = {i. i < length ls \<and> lot_open (ls ! i)} \<and> n \<le> length is \<and>
           map gain_lot_id (allocated_trades res) = map (\<lambda>i. lot_id (ls ! i)) (take n is) \<and>
           (\<forall>j. Suc j < n \<longrightarrow> remaining_quantity (lots_of eng' s ! (is ! j)) = 0) \<and>
           (\<forall>i \<in> set (drop n is). lots_of eng' s ! i = ls ! i)"
proof -
  have w: "with_symbol eng s = eng" using assms(3) by (auto simp: with_symbol_def dict_has_iff)
  obtain q px t where c: "check_positive qv = Inr q" "close_fill hex eng s buy q px t m = (eng', Inr res)"
  proof (cases rule: allocate_fill_cases [of hex now eng "PStr s" sd qv pxv ts "Some m"])
    case (reject e)
    then show ?thesis using assms(6) by simp
  next
    case (accept s' q px buy' t m')
    have "s' = s" "buy' = buy" using accept(1,4) assms(4) by (auto simp: check_str_def split: if_splits)
    moreover have "m' = m" using accept(5) by simp
    ultimately show ?thesis using that accept(2,6) assms(5,6) w by simp
  qed
  have ls: "lots_of eng s = ls" using assms(3) by simp
  note q = is_double_check [OF c(1) assms(2)]
  let ?c = "\<lparr>ctx_hex = hex, ctx_portfolio_id = engine_portfolio_id eng, ctx_symbol = s, ctx_price = px, ctx_time = t\<rparr>"
  let ?ms = "\<lparr>ms_lots = ls, ms_fill = q, ms_trades = [], ms_depleted = [], ms_pnl = 0\<rparr>"
  obtain "is" where srt: "sort_lots m ls = Inr is"
    using c(2) ls by (cases "sort_lots m ls") (simp_all add: close_fill_def)
  note p = sort_lots_perm [OF srt]
  obtain ms r where run: "match_lots ?c is ?ms = (ms, r)" by fastforce
  have r: "r = Inr ()" using c(2) ls srt run by (cases r) (simp_all add: close_fill_def Let_def)
  have ok: "lots_ok ls" using engine_lots_ok [OF assms(1), of s] ls by simp
  have "match_inv ?ms" using ok q by (simp add: match_inv_def lots_ok_def pos_finite_nonneg)
  then obtain n where n: "n \<le> length is" "map gain_lot_id (ms_trades ms) = map (\<lambda>i. lot_id (ls ! i)) (take n is)"
    "\<forall>j. Suc j < n \<longrightarrow> remaining_quantity (ms_lots ms ! (is ! j)) = 0" "\<forall>i \<in> set (drop n is). ms_lots ms ! i = ls ! i"
    using match_lots_order [of ?c "is" ?ms ms] run r p by auto
  obtain new where new: "lots_of eng' s = ms_lots ms @ new" "allocated_trades res = ms_trades ms"
    using c(2) ls srt run r
    by (auto simp: close_fill_def finish_fill_def Let_def bindR_Inr_iff split: if_splits sum.splits)
  have "length (ms_lots ms) = length ls" using match_lots_length [OF run] by simp
  then have nth: "lots_of eng' s ! i = ms_lots ms ! i" if "i \<in> set is" for i using that p new(1) by (simp add: nth_append)
  have "remaining_quantity (lots_of eng' s ! (is ! j)) = 0" if "Suc j < n" for j
    using n(1,3) nth [of "is ! j"] that by simp
  moreover have "\<forall>i \<in> set (drop n is). lots_of eng' s ! i = ls ! i" using n(4) nth by (metis in_set_dropD)
  ultimately show ?thesis using sort_lots_order [OF srt] p n(1,2) new(2) by (intro exI [of _ "is"] exI [of _ n]) auto
qed

theorem tax_lot_matching_order_witness:
  "\<exists>eng' res n is. allocate_fill (\<lambda>_. ''0'') (day 2) sample_engine (PStr ''AAPL'') ''SELL'' (PInt 12) (PInt 90) (Some (Aware 5)) (Some LIFO)
       = (eng', Inr res) \<and> in_method_order LIFO [sample_lot ''lot_a'' 0 10, sample_lot ''lot_b'' 1 5] is \<and>
       (\<forall>j. Suc j < n \<longrightarrow> remaining_quantity (lots_of eng' ''AAPL'' ! (is ! j)) = 0)"
proof -
  have l: "lots_of sample_engine ''AAPL'' = [sample_lot ''lot_a'' 0 10, sample_lot ''lot_b'' 1 5]"
    and g: "dict_get (engine_lots sample_engine) ''AAPL'' = Some [sample_lot ''lot_a'' 0 10, sample_lot ''lot_b'' 1 5]"
    by (simp_all add: sample_engine_def)
  have sh: "shares (sample_lot i d k) = k" for i d k by (rule shares_whole) (simp add: sample_lot_def)
  have w: "list_all whole_lot (lots_of sample_engine ''AAPL'')" "total_shares (lots_of sample_engine ''AAPL'') = 15"
    "net_shares (lots_of sample_engine ''AAPL'') = 15" "one_sided (lots_of sample_engine ''AAPL'')"
    unfolding l by (simp_all add: whole_lot_def total_shares_def net_shares_def one_sided_def sh) (simp_all add: sample_lot_def)
  have d: "list_all (\<lambda>l. dt_aware (open_timestamp l)) (lots_of sample_engine ''AAPL'')"
    unfolding l by (simp add: sample_lot_def day_def)
  have px: "check_positive (PInt 90) = Inr (Fin 90)" by (simp add: int_overflows_def float_of_int_def)
  obtain eng' res where a: "allocate_fill (\<lambda>_. ''0'') (day 2) sample_engine (PStr ''AAPL'') ''SELL'' (PInt 12) (PInt 90)
      (Some (Aware 5)) (Some LIFO) = (eng', Inr res)"
    using allocate_fill_whole [OF sample_engine_ok w(1) d _ _ _ px sell_side, of 12 "\<lambda>_. ''0''" "day 2" 5 "Some LIFO"] w(2)
    by (auto simp: whole_outcome_def sample_engine_def)
  have "get_position sample_engine ''AAPL'' = Fin 15" using position_whole [OF w(1,4)] w(2,3) by simp
  then have "\<not> is_increasing False (get_position sample_engine ''AAPL'')" by (simp add: is_increasing_def)
  from tax_lot_matching_order [OF sample_engine_ok(1) _ g sell_side this a] a show ?thesis by auto
qed

section \<open>Exceptions that leave a changed inventory\<close>

lemma sample_sorted: "sort_lots FIFO [sample_lot ''lot_a'' 0 10, sample_lot ''lot_b'' 1 5] = Inr [0, 1]"
  using lot_eps_less_whole [of 5] lot_eps_less_whole [of 10]
  by (simp add: sort_lots_def active_lots_def sample_lot_def lot_open_def day_def upt_rec Let_def)

lemma sample_match:
  assumes "lot_eps < Fin r" "0 < r" "Fin a - Fin 10 = Fin b" "Fin b - Fin 5 = Fin r" "10 < a" "5 < b" "dt_aware (ctx_time c)"
  shows "\<exists>ms. match_lots c [0, 1] \<lparr>ms_lots = [sample_lot ''lot_a'' 0 10, sample_lot ''lot_b'' 1 5], ms_fill = Fin a,
            ms_trades = [], ms_depleted = [], ms_pnl = 0\<rparr> = (ms, Inr ()) \<and>
          ms_fill ms = Fin r \<and> list_all (\<lambda>l. remaining_quantity l = 0) (ms_lots ms)"
proof -
  obtain e where e: "lot_eps = Fin e" "e < 1" using lot_eps_Fin by blast
  have le: "\<not> Fin a \<le> lot_eps" "\<not> Fin b \<le> lot_eps" unfolding e(1) using assms(5,6) e(2) by simp_all
  have m: "py_min (Fin 10) (Fin a) = Fin 10" "py_min (Fin 5) (Fin b) = Fin 5" using assms(5,6) by (simp_all add: py_min_def)
  have z: "Fin x - Fin x = 0" for x by simp
  have red: "remaining_quantity (reduce_lot (sample_lot i d 10) (Fin 10)) = 0"
    "remaining_quantity (reduce_lot (sample_lot i d 5) (Fin 5)) = 0" for i d
    by (simp_all add: reduce_lot_def sample_lot_def z)
  have rem: "remaining_quantity (sample_lot i d k) = Fin (of_int k)" "dt_aware (open_timestamp (sample_lot i d k))" for i d k
    by (simp_all add: sample_lot_def day_def)
  show ?thesis
    using assms le by (simp add: seconds_between_def match_lot_def rem m red Let_def)
qed

lemma sample_raises:
  assumes "check_positive qv = Inr (Fin a)" "lot_eps < Fin r" "0 < r" "Fin a - Fin 10 = Fin b" "Fin b - Fin 5 = Fin r" "10 < a" "5 < b"
    and "eng = sample_engine\<lparr>allow_shorting := sh\<rparr>" and "\<not> sh \<and> e = Lot OrphanedFillError \<or> sh \<and> py_round 6 (Fin r) = 0 \<and> e = BadLedgerInput"
    and "get_position sample_engine ''AAPL'' = Fin 15"
  shows "\<exists>eng'. allocate_fill hex now eng (PStr ''AAPL'') ''SELL'' qv (PInt 90) (Some (day 2)) None = (eng', Inl e) \<and>
           get_position eng' ''AAPL'' = 0"
proof -
  let ?ls = "[sample_lot ''lot_a'' 0 10, sample_lot ''lot_b'' 1 5]"
  let ?c = "\<lparr>ctx_hex = hex, ctx_portfolio_id = ''p'', ctx_symbol = ''AAPL'', ctx_price = Fin 90, ctx_time = day 2\<rparr>"
  have eng: "engine_lots eng = [(''AAPL'', ?ls)]" "engine_portfolio_id eng = ''p''" "allow_shorting eng = sh" "default_method eng = FIFO"
    using assms(8) by (simp_all add: sample_engine_def)
  have "dt_aware (ctx_time ?c)" by (simp add: day_def)
  from sample_match [OF assms(2-7) this] obtain ms where ms: "match_lots ?c [0, 1] \<lparr>ms_lots = ?ls, ms_fill = Fin a,
            ms_trades = [], ms_depleted = [], ms_pnl = 0\<rparr> = (ms, Inr ())" "ms_fill ms = Fin r"
      "list_all (\<lambda>l. remaining_quantity l = 0) (ms_lots ms)" by blast
  have nl: "\<exists>e'. new_lot eng h ''AAPL'' SHORT (day 2) 0 (Fin 90) = Inl BadLedgerInput" for h
    by (simp add: new_lot_def tax_lot_new_def)
  have close: "close_fill hex eng ''AAPL'' False (Fin a) (Fin 90) (day 2) FIFO = (set_lots eng ''AAPL'' (ms_lots ms), Inl e)"
    using assms(2,9) nl by (auto simp: close_fill_def eng sample_sorted ms(1) ms(2) Let_def simp del: match_lots.simps One_nat_def)
  have "get_position eng ''AAPL'' = Fin 15" using assms(8,10) by (simp add: get_position_def get_open_lots_def)
  then have "allocate_fill hex now eng (PStr ''AAPL'') ''SELL'' qv (PInt 90) (Some (day 2)) None =
      close_fill hex eng ''AAPL'' False (Fin a) (Fin 90) (day 2) FIFO"
    using assms(1) by (simp add: allocate_fill_def check_str_def sell_side with_symbol_def eng is_increasing_def int_overflows_def float_of_int_def Let_def)
  moreover have "filter lot_open (ms_lots ms) = []" using ms(3) by (auto simp: filter_empty_conv list_all_iff lot_open_def)
  then have "get_position (set_lots eng ''AAPL'' (ms_lots ms)) ''AAPL'' = 0"
    by (simp add: get_position_def get_open_lots_def set_lots_def)
  ultimately show ?thesis using close by simp
qed

lemma sample_engine_shorting: "sample_engine = sample_engine\<lparr>allow_shorting := True\<rparr>"
  by (simp add: sample_engine_def)

text \<open>A raising fill is not atomic. Selling more than the inventory with shorting disabled raises
  \<^verbatim>\<open>OrphanedFillError\<close>, and a sell that exceeds the inventory by less than half a millionth of a share raises
  \<^verbatim>\<open>NonFiniteLedgerInputError\<close> (the flip lot rounds to zero shares); in both cases all lots have been closed
  before the exception and no trade is reported.\<close>

theorem tax_lot_raise_loses_inventory:
  "get_position sample_engine ''AAPL'' = Fin 15 \<and>
   (\<exists>eng'. allocate_fill hex now (sample_engine\<lparr>allow_shorting := False\<rparr>) (PStr ''AAPL'') ''SELL'' (PInt 18) (PInt 90)
        (Some (day 2)) None = (eng', Inl (Lot OrphanedFillError)) \<and> get_position eng' ''AAPL'' = 0) \<and>
   (\<exists>eng'. allocate_fill hex now sample_engine (PStr ''AAPL'') ''SELL'' (PFloat (Fin (15 + 1 / 2 ^ 22))) (PInt 90)
        (Some (day 2)) None = (eng', Inl BadLedgerInput) \<and> get_position eng' ''AAPL'' = 0)"
proof -
  have l: "lots_of sample_engine ''AAPL'' = [sample_lot ''lot_a'' 0 10, sample_lot ''lot_b'' 1 5]"
    by (simp_all add: sample_engine_def)
  have sh: "shares (sample_lot i d k) = k" for i d k by (rule shares_whole) (simp add: sample_lot_def)
  have w: "list_all whole_lot (lots_of sample_engine ''AAPL'')" "total_shares (lots_of sample_engine ''AAPL'') = 15"
    "net_shares (lots_of sample_engine ''AAPL'') = 15" "one_sided (lots_of sample_engine ''AAPL'')"
    unfolding l by (simp_all add: whole_lot_def total_shares_def net_shares_def one_sided_def sh) (simp_all add: sample_lot_def)
  have p: "get_position sample_engine ''AAPL'' = Fin 15" using position_whole [OF w(1,4)] w(2,3) by simp
  have 18: "check_positive (PInt 18) = Inr (Fin 18)" by (simp add: int_overflows_def float_of_int_def)
  have x: "\<exists>eng'. allocate_fill hex now (sample_engine\<lparr>allow_shorting := False\<rparr>) (PStr ''AAPL'') ''SELL'' (PInt 18) (PInt 90)
        (Some (day 2)) None = (eng', Inl (Lot OrphanedFillError)) \<and> get_position eng' ''AAPL'' = 0"
    using lot_eps_less_whole [of 3] p
    by (intro sample_raises [OF 18, where r = 3 and b = 8 and sh = False]) (simp_all add: minus_float64_def)
  have "lot_eps \<le> rnd64 (two_pow (- 23))" unfolding lot_eps_def by (rule rnd64_mono) (simp add: two_pow_def)
  then have "lot_eps \<le> Fin (1 / 2 ^ 23)" using rnd64_dyadic [of 1 "- 23"] by (simp add: two_pow_def)
  then have small: "lot_eps < Fin (1 / 2 ^ 22)" by (rule float_le_less_trans) simp
  have r1: "rnd64 (5 + 1 / 2 ^ 22) = Fin (5 + 1 / 2 ^ 22)" using rnd64_dyadic [of "5 * 2 ^ 22 + 1" "- 22"] by (simp add: two_pow_def)
  have r2: "rnd64 (1 / 2 ^ 22) = Fin (1 / 2 ^ 22)" using rnd64_dyadic [of 1 "- 22"] by (simp add: two_pow_def)
  have r3: "py_round 6 (Fin (1 / 2 ^ 22)) = 0"
    using round_half_even_eqI [of "1 / 2 ^ 22 * 10 ^ 6" 0] by (simp add: abs_if)
  have d1: "Fin (15 + 1 / 2 ^ 22) - Fin 10 = Fin (5 + 1 / 2 ^ 22)" using r1 by (simp add: minus_float64_def)
  have d2: "Fin (5 + 1 / 2 ^ 22) - Fin 5 = Fin (1 / 2 ^ 22)" using r2 by (simp add: minus_float64_def)
  have q: "check_positive (PFloat (Fin (15 + 1 / 2 ^ 22))) = Inr (Fin (15 + 1 / 2 ^ 22))" by simp
  have "\<exists>eng'. allocate_fill hex now sample_engine (PStr ''AAPL'') ''SELL'' (PFloat (Fin (15 + 1 / 2 ^ 22))) (PInt 90)
        (Some (day 2)) None = (eng', Inl BadLedgerInput) \<and> get_position eng' ''AAPL'' = 0"
    using p r3 by (intro sample_raises [OF q small _ d1 d2 _ _ sample_engine_shorting]) simp_all
  with p x show ?thesis by blast
qed

end
