(* ===== verification/Financing.thy ===== *)
theory Financing
  imports Tax_Lot
begin

text \<open>
  Margin interest and short borrow fees: \<^verbatim>\<open>execution/financing.py\<close>.

  Rates and the day count are validated when the configuration is built; the accrual of a day computes the
  interest on a debit balance and the fees on the short positions, rounds them to four decimals, drafts one
  balanced pair of journal entries for each amount that is not negligible, and returns the new cash balance.
  The free-text \<^verbatim>\<open>description\<close> of an entry is not modelled; uuid4 and the clock are parameters.
\<close>

section \<open>Configuration\<close>

record financing_config =
  annual_margin_rate :: float64
  default_borrow_rate :: float64
  hard_to_borrow_rates :: "(string \<times> float64) list"
  day_count_convention :: int

text \<open>\<^verbatim>\<open>x < 0.0 or not math.isfinite(x)\<close>, after the type test: two different exceptions.\<close>

fun check_nonnegative :: "exn \<Rightarrow> exn \<Rightarrow> pyval \<Rightarrow> float64 res" where
  "check_nonnegative type_err value_err (PInt i) =
     (if i < 0 then Inl value_err
      else if int_overflows i then Inl (PyErr OverflowError) else Inr (float_of_int i))"
| "check_nonnegative type_err value_err (PFloat x) = (if x < 0 \<or> \<not> isfinite x then Inl value_err else Inr x)"
| "check_nonnegative type_err value_err _ = Inl type_err"

definition day_count_of :: "pyval \<Rightarrow> int res" where
  "day_count_of v =
     (if v = PInt 360 \<or> v = PFloat (Fin 360) then Inr 360
      else if v = PInt 365 \<or> v = PFloat (Fin 365) then Inr 365
      else Inl (Fing FinancingError))"

definition financing_config_new ::
    "pyval \<Rightarrow> pyval \<Rightarrow> (string \<times> float64) list \<Rightarrow> pyval \<Rightarrow> financing_config res" where
  "financing_config_new margin borrow htb dcc =
     bindR (check_nonnegative BadLedgerInput (Fing InvalidRateError) margin) (\<lambda>mr.
     bindR (check_nonnegative BadLedgerInput (Fing InvalidRateError) borrow) (\<lambda>br.
     bindR (day_count_of dcc) (\<lambda>dc.
       Inr \<lparr>annual_margin_rate = mr, default_borrow_rate = br, hard_to_borrow_rates = htb, day_count_convention = dc\<rparr>)))"

definition default_financing_config :: financing_config where
  "default_financing_config =
     \<lparr>annual_margin_rate = flit (65 / 1000), default_borrow_rate = flit (15 / 1000), hard_to_borrow_rates = [],
      day_count_convention = 360\<rparr>"

section \<open>Interest and fees\<close>

definition check_finite :: "pyval \<Rightarrow> float64 res" where
  "check_finite v = check_number BadLedgerInput (\<lambda>_. False) v"

definition calculate_margin_interest :: "financing_config \<Rightarrow> pyval \<Rightarrow> pyval \<Rightarrow> float64 res" where
  "calculate_margin_interest cfg cashv daysv =
     bindR (check_finite cashv) (\<lambda>cash_balance.
     bindR (check_nonnegative BadLedgerInput BadLedgerInput daysv) (\<lambda>days.
       if 0 \<le> cash_balance \<or> feq days 0 then Inr 0
       else
         let debit = \<bar>cash_balance\<bar>;
             daily_rate = fdiv (annual_margin_rate cfg) (float_of_int (day_count_convention cfg));
             interest = debit * daily_rate * days
         in Inr (py_round 4 interest)))"

record fee_state =
  total_fees :: float64
  total_short_notional :: float64
  per_symbol_fees :: "(string \<times> float64) list"

definition borrow_fee_step ::
    "financing_config \<Rightarrow> (string \<times> pyval) list \<Rightarrow> float64 \<Rightarrow> fee_state \<Rightarrow> string \<times> pyval \<Rightarrow> fee_state res" where
  "borrow_fee_step cfg prices days st pos =
     (case pos of (s, qtyv) \<Rightarrow>
        bindR (check_finite qtyv) (\<lambda>qty.
          if 0 \<le> qty then Inr st
          else
            bindR (case dict_get prices s of None \<Rightarrow> Inl BadLedgerInput | Some pxv \<Rightarrow> check_positive pxv) (\<lambda>price.
              let short_notional = \<bar>qty\<bar> * price;
                  borrow_rate = dict_get_default (hard_to_borrow_rates cfg) s (default_borrow_rate cfg);
                  daily_borrow_rate = fdiv borrow_rate (float_of_int (day_count_convention cfg));
                  fe = py_round 4 (short_notional * daily_borrow_rate * days)
              in Inr \<lparr>total_fees = total_fees st + fe, total_short_notional = total_short_notional st + short_notional,
                      per_symbol_fees = dict_set (per_symbol_fees st) s fe\<rparr>)))"

definition calculate_borrow_fees ::
    "financing_config \<Rightarrow> (string \<times> pyval) list \<Rightarrow> (string \<times> pyval) list \<Rightarrow> pyval \<Rightarrow>
     (float64 \<times> float64 \<times> (string \<times> float64) list) res" where
  "calculate_borrow_fees cfg positions prices daysv =
     bindR (check_nonnegative BadLedgerInput BadLedgerInput daysv) (\<lambda>days.
     bindR (foldR (borrow_fee_step cfg prices days) \<lparr>total_fees = 0, total_short_notional = 0, per_symbol_fees = []\<rparr> positions) (\<lambda>st.
       Inr (py_round 4 (total_fees st), py_round 2 (total_short_notional st), per_symbol_fees st)))"

section \<open>Daily accrual\<close>

datatype entry_type = DEBIT | CREDIT

record journal_entry =
  transaction_id :: string
  entry_portfolio_id :: string
  account_name :: string
  entry_type :: entry_type
  amount :: float64
  entry_timestamp :: datetime

record daily_accrual =
  accrual_portfolio_id :: string
  date_str :: string
  cash_balance_before :: float64
  margin_debit_balance :: float64
  margin_interest_accrued :: float64
  short_borrow_notional :: float64
  borrow_fees_accrued :: float64
  total_financing_drag :: float64
  cash_balance_after :: float64
  accrual_entries :: "journal_entry list"

text \<open>One transaction: the expense is debited and cash is credited.\<close>

definition cash_expense :: "string \<Rightarrow> string \<Rightarrow> datetime \<Rightarrow> string \<Rightarrow> float64 \<Rightarrow> journal_entry list" where
  "cash_expense tx pid now account amt =
     [\<lparr>transaction_id = tx, entry_portfolio_id = pid, account_name = account, entry_type = DEBIT, amount = amt, entry_timestamp = now\<rparr>,
      \<lparr>transaction_id = tx, entry_portfolio_id = pid, account_name = ''ASSET_CASH'', entry_type = CREDIT, amount = amt, entry_timestamp = now\<rparr>]"

definition amounts :: "entry_type \<Rightarrow> journal_entry list \<Rightarrow> float64 list" where
  "amounts t es = map amount (filter (\<lambda>e. entry_type e = t) es)"

definition micro :: float64 where
  "micro = flit (1 / 10 ^ 6)"

definition accrue_daily_financing ::
    "(nat \<Rightarrow> string) \<Rightarrow> datetime \<Rightarrow> financing_config \<Rightarrow> string \<Rightarrow> pyval \<Rightarrow> (string \<times> pyval) list \<Rightarrow>
     (string \<times> pyval) list \<Rightarrow> string \<Rightarrow> pyval \<Rightarrow> daily_accrual res" where
  "accrue_daily_financing uid now cfg pid cashv positions prices date daysv =
     bindR (calculate_margin_interest cfg cashv daysv) (\<lambda>margin_interest.
     bindR (calculate_borrow_fees cfg positions prices daysv) (\<lambda>(borrow_fees, short_notional, _).
     bindR (check_finite cashv) (\<lambda>cash_balance.
       let total_drag = py_round 4 (margin_interest + borrow_fees);
           margin_debit = py_max 0 (- cash_balance);
           entries = (if margin_interest > micro then cash_expense (uid 0) pid now ''EXPENSE_MARGIN_INTEREST'' margin_interest else [])
             @ (if borrow_fees > micro then cash_expense (uid 1) pid now ''EXPENSE_SHORT_BORROW'' borrow_fees else [])
       in if \<not> isclose micro (py_sum (amounts DEBIT entries)) (py_sum (amounts CREDIT entries))
          then Inl (Fing FinancingError)
          else Inr \<lparr>accrual_portfolio_id = pid, date_str = date, cash_balance_before = cash_balance,
                    margin_debit_balance = margin_debit, margin_interest_accrued = margin_interest,
                    short_borrow_notional = short_notional, borrow_fees_accrued = borrow_fees,
                    total_financing_drag = total_drag, cash_balance_after = py_round 4 (cash_balance - total_drag),
                    accrual_entries = entries\<rparr>)))"

section \<open>Sign and balance\<close>

lemma cash_expense_amounts [simp]:
  "amounts DEBIT (cash_expense tx pid now a x @ es) = x # amounts DEBIT es"
  "amounts CREDIT (cash_expense tx pid now a x @ es) = x # amounts CREDIT es"
  "amounts DEBIT (cash_expense tx pid now a x) = [x]" "amounts CREDIT (cash_expense tx pid now a x) = [x]"
  "amounts t [] = []"
  by (simp_all add: amounts_def cash_expense_def)

lemma micro_bounds: "micro \<le> Fin (1 / 2 ^ 19)" "0 < micro" "micro \<noteq> NaN" "Fin (1 / 2 ^ 14) \<le> flit (1 / 10 ^ 4)"
  "micro < PInf"
proof -
  have "micro \<le> rnd64 (two_pow (- 19))" unfolding micro_def by (rule rnd64_mono) (simp add: two_pow_def)
  then show "micro \<le> Fin (1 / 2 ^ 19)" using rnd64_dyadic [of 1 "- 19"] by (simp add: two_pow_def)
  show "0 < micro" "micro \<noteq> NaN" "micro < PInf" using flit_power_ten [of 6] by (auto simp: micro_def)
  have "rnd64 (two_pow (- 14)) \<le> flit (1 / 10 ^ 4)" by (rule rnd64_mono) (simp add: two_pow_def)
  then show "Fin (1 / 2 ^ 14) \<le> flit (1 / 10 ^ 4)" using rnd64_dyadic [of 1 "- 14"] by (simp add: two_pow_def)
qed

text \<open>An amount rounded to four decimals is zero or well above the threshold of the journal.\<close>

lemma rounded_charge: "0 \<le> x \<Longrightarrow> py_round 4 x = 0 \<or> micro < py_round 4 x"
proof (cases x)
  case (Fin a)
  assume "0 \<le> x"
  then have "0 \<le> round_half_even (a * 10 ^ 4)" using Fin round_half_even_mono [of 0 "a * 10 ^ 4"] by simp
  then consider "round_half_even (a * 10 ^ 4) = 0" | "1 \<le> round_half_even (a * 10 ^ 4)" by linarith
  then show ?thesis
  proof cases
    case 2
    then have "(1 / 10 ^ 4 :: rat) \<le> of_int (round_half_even (a * 10 ^ 4)) / 10 ^ 4" by (simp add: divide_right_mono)
    then have "flit (1 / 10 ^ 4) \<le> py_round 4 x" unfolding Fin py_round.simps by (rule rnd64_mono)
    then have "Fin (1 / 2 ^ 14) \<le> py_round 4 x" using micro_bounds(4) float_le_trans by blast
    moreover have "micro < Fin (1 / 2 ^ 14)" using micro_bounds(1) by (rule float_le_less_trans) simp
    ultimately show ?thesis using float_less_le_trans by blast
  qed (simp add: Fin)
qed (simp_all add: micro_bounds(5))

lemma py_sum_pos_not_nan: "0 < x \<Longrightarrow> 0 < y \<Longrightarrow> py_sum [x, y] \<noteq> NaN" "0 < x \<Longrightarrow> py_sum [x] \<noteq> NaN"
proof -
  show "0 < x \<Longrightarrow> py_sum [x] \<noteq> NaN" by (cases x) auto
  assume p: "0 < x" "0 < y"
  have "0 \<le> 0 + x" using float_add_nonneg [of 0 x] float_less_imp_le [OF p(1)] by simp
  then have n: "0 + x \<noteq> NaN" "0 + x \<noteq> NInf" by auto
  have "cs_to_double (cs_add (h, 0) y) \<noteq> NaN" if "h \<noteq> NaN" "h \<noteq> NInf" for h
  proof -
    have "h + y \<noteq> NaN" using that p(2) by (cases h; cases y) auto
    moreover have "h + y + lo \<noteq> NaN" if "isfinite lo" for lo using that \<open>h + y \<noteq> NaN\<close> by (cases "h + y"; cases lo) auto
    ultimately show ?thesis by (simp add: Let_def)
  qed
  with n show "py_sum [x, y] \<noteq> NaN" by simp
qed

lemma entries_balanced:
  fixes u v :: float64 and t1 t2 pid a1 a2 :: string and now :: datetime
  defines "es \<equiv> (if u > micro then cash_expense t1 pid now a1 u else []) @ (if v > micro then cash_expense t2 pid now a2 v else [])"
  shows "amounts DEBIT es = amounts CREDIT es" and "isclose micro (py_sum (amounts DEBIT es)) (py_sum (amounts CREDIT es))"
    and "\<forall>e \<in> set es. micro < amount e"
    and "amounts CREDIT es = filter (\<lambda>x. micro < x) [u, v]"
proof -
  show e: "amounts DEBIT es = amounts CREDIT es" by (simp add: es_def)
  have p: "0 < x" if "micro < x" for x
    using micro_bounds(2) that float_less_imp_le float_less_le_trans by blast
  have "py_sum (amounts CREDIT es) \<noteq> NaN" using p py_sum_pos_not_nan by (simp add: es_def)
  then show "isclose micro (py_sum (amounts DEBIT es)) (py_sum (amounts CREDIT es))" unfolding e by (rule isclose_refl)
  show "\<forall>e \<in> set es. micro < amount e" by (auto simp: es_def cash_expense_def)
  show "amounts CREDIT es = filter (\<lambda>x. micro < x) [u, v]" by (simp add: es_def)
qed

definition rate_ok :: "float64 \<Rightarrow> bool" where
  "rate_ok r \<longleftrightarrow> nonneg_finite r \<and> is_double r"

definition config_ok :: "financing_config \<Rightarrow> bool" where
  "config_ok cfg \<longleftrightarrow> rate_ok (annual_margin_rate cfg) \<and> rate_ok (default_borrow_rate cfg) \<and>
     list_all (\<lambda>e. rate_ok (snd e)) (hard_to_borrow_rates cfg) \<and> day_count_convention cfg \<in> {360, 365}"

lemma check_nonnegative_Inr: "check_nonnegative t e v = Inr x \<Longrightarrow> nonneg_finite x"
proof (induction t e v rule: check_nonnegative.induct)
  case (1 t e i)
  then show ?case using float_of_int_nonneg [of i] by (auto simp: int_overflows_def nonneg_finite_def split: if_splits)
next
  case (2 t e x)
  then show ?case by (cases x) (auto split: if_splits)
qed simp_all

lemma check_nonnegative_double: "check_nonnegative t e v = Inr x \<Longrightarrow> pyval_double v \<Longrightarrow> rate_ok x"
  using check_nonnegative_Inr [of t e v x] by (cases v) (auto simp: rate_ok_def float_of_int_def split: if_splits)

lemma financing_config_new_ok:
  assumes "financing_config_new m b htb dc = Inr cfg" and "pyval_double m" "pyval_double b"
    and "list_all (\<lambda>e. rate_ok (snd e)) htb"
  shows "config_ok cfg"
  using assms
  by (auto simp: financing_config_new_def config_ok_def bindR_Inr_iff day_count_of_def dest: check_nonnegative_double split: if_splits)

lemma daily_rate:
  assumes "rate_ok r" and "d \<in> {360, 365}"
  shows "\<exists>x. fdiv r (float_of_int d) = Fin x \<and> 0 \<le> x"
proof -
  obtain a where a: "r = Fin a" "0 \<le> a" "rnd64 a = Fin a" using assms(1) by (auto simp: rate_ok_def nonneg_finite_def)
  have f: "float_of_int d = Fin (of_int d)" "0 < d" using assms(2) by (auto simp: float_of_int_def)
  have "a / of_int d \<le> a" using a(2) f(2) assms(2) by (auto simp: field_simps)
  then have "rnd64 (a / of_int d) \<le> Fin a" using rnd64_mono [of "a / of_int d" a] a(3) by simp
  moreover have "0 \<le> rnd64 (a / of_int d)" using a(2) f(2) by simp
  ultimately show ?thesis using a f by (cases "rnd64 (a / of_int d)") auto
qed

lemma charge_nonneg:
  assumes "nonneg_finite n" and "\<exists>x. r = Fin x \<and> 0 \<le> x" and "isfinite days" "0 < days"
  shows "0 \<le> n * r * days"
proof -
  have "0 \<le> n * r" using assms(1,2) by (auto simp: nonneg_finite_def)
  then show ?thesis using assms(3,4) by (cases "n * r") auto
qed

lemma margin_interest_nonneg:
  assumes "config_ok cfg" and "calculate_margin_interest cfg cashv daysv = Inr x"
  shows "0 \<le> x \<and> (x = 0 \<or> micro < x)"
proof -
  obtain c d where c: "check_finite cashv = Inr c" "check_nonnegative BadLedgerInput BadLedgerInput daysv = Inr d"
    and x: "x = 0 \<or> (\<not> feq d 0 \<and> x = py_round 4 (\<bar>c\<bar> * fdiv (annual_margin_rate cfg) (float_of_int (day_count_convention cfg)) * d))"
    using assms(2) by (auto simp: calculate_margin_interest_def bindR_Inr_iff Let_def split: if_splits)
  have f: "isfinite c" using c(1) check_number_finite by (simp add: check_finite_def)
  have d: "nonneg_finite d" using c(2) by (rule check_nonnegative_Inr)
  show ?thesis using x
  proof
    assume a: "\<not> feq d 0 \<and> x = py_round 4 (\<bar>c\<bar> * fdiv (annual_margin_rate cfg) (float_of_int (day_count_convention cfg)) * d)"
    have "0 \<le> \<bar>c\<bar> * fdiv (annual_margin_rate cfg) (float_of_int (day_count_convention cfg)) * d"
      using assms(1) f d a by (intro charge_nonneg daily_rate) (auto simp: config_ok_def nonneg_finite_def)
    then show ?thesis using a rounded_charge py_round_nonneg by blast
  qed (simp add: zero_float64_def)
qed

text \<open>The fee loop: while the short notional does not overflow, the fees stay non-negative.\<close>

definition fees_ok :: "fee_state \<Rightarrow> bool" where
  "fees_ok st \<longleftrightarrow> 0 \<le> total_short_notional st \<and> (isfinite (total_short_notional st) \<longrightarrow> 0 \<le> total_fees st)"

lemma finite_summands: "isfinite (x + y) \<Longrightarrow> isfinite x \<and> isfinite y" for x y :: float64
  by (cases x; cases y) auto

lemma borrow_fee_step_ok:
  assumes "config_ok cfg" and "isfinite days" "0 < days" and "fees_ok st" and "borrow_fee_step cfg prices days st (s, qv) = Inr st'"
  shows "fees_ok st'"
proof -
  obtain q where q: "check_finite qv = Inr q" "isfinite q"
    using assms(5) check_number_finite by (auto simp: borrow_fee_step_def bindR_Inr_iff check_finite_def)
  show ?thesis
  proof (cases "0 \<le> q")
    case True
    then show ?thesis using assms(4,5) q(1) by (simp add: borrow_fee_step_def)
  next
    case False
    let ?rate = "dict_get_default (hard_to_borrow_rates cfg) s (default_borrow_rate cfg)"
    let ?daily = "fdiv ?rate (float_of_int (day_count_convention cfg))"
    obtain px where px: "\<exists>v. check_positive v = Inr px"
      and st': "st' = \<lparr>total_fees = total_fees st + py_round 4 (\<bar>q\<bar> * px * ?daily * days),
        total_short_notional = total_short_notional st + \<bar>q\<bar> * px,
        per_symbol_fees = dict_set (per_symbol_fees st) s (py_round 4 (\<bar>q\<bar> * px * ?daily * days))\<rparr>"
      using assms(5) q(1) False by (auto simp: borrow_fee_step_def bindR_Inr_iff Let_def split: option.splits)
    have pf: "pos_finite px"
    proof -
      obtain v where v: "check_positive v = Inr px" using px by blast
      then show ?thesis
      proof (cases v)
        case (PFloat x)
        then have "px = x" "\<not> x \<le> 0" "isfinite x" using v by (simp_all split: if_splits)
        then show ?thesis by (cases x) simp_all
      qed (use v is_double_check [OF v] in auto)
    qed
    have n0: "0 \<le> \<bar>q\<bar> * px" using q(2) pf by (auto simp: pos_finite_def)
    have rate: "rate_ok ?rate"
      using assms(1) by (auto simp: config_ok_def list_all_iff split: option.splits dest!: map_of_SomeD)
    have "0 \<le> py_round 4 (\<bar>q\<bar> * px * ?daily * days)" if "isfinite (\<bar>q\<bar> * px)"
      using that n0 rate assms(1,2,3) by (intro py_round_nonneg charge_nonneg daily_rate) (auto simp: config_ok_def nonneg_finite_def)
    then show ?thesis
      using assms(4) n0 finite_summands [of "total_short_notional st" "\<bar>q\<bar> * px"] float_add_nonneg by (auto simp: st' fees_ok_def)
  qed
qed

lemma isfinite_py_round_imp: "isfinite (py_round n x) \<Longrightarrow> isfinite x"
  by (cases x) auto

lemma borrow_fees_nonneg:
  assumes "config_ok cfg" and "check_nonnegative BadLedgerInput BadLedgerInput daysv = Inr days" "0 < days"
    and "calculate_borrow_fees cfg positions prices daysv = Inr (fees, notional, per)" and "isfinite notional"
  shows "0 \<le> fees \<and> (fees = 0 \<or> micro < fees)"
proof -
  obtain st where st: "foldR (borrow_fee_step cfg prices days) \<lparr>total_fees = 0, total_short_notional = 0, per_symbol_fees = []\<rparr> positions = Inr st"
    "fees = py_round 4 (total_fees st)" "notional = py_round 2 (total_short_notional st)"
    using assms(2,4) by (auto simp: calculate_borrow_fees_def bindR_Inr_iff)
  have "isfinite days" using check_nonnegative_Inr [OF assms(2)] by (simp add: nonneg_finite_def)
  then have step: "fees_ok a \<Longrightarrow> borrow_fee_step cfg prices days a p = Inr b \<Longrightarrow> fees_ok b" for a b p
    using borrow_fee_step_ok [OF assms(1) _ assms(3), of a prices "fst p" "snd p" b] by simp
  have init: "fees_ok \<lparr>total_fees = 0, total_short_notional = 0, per_symbol_fees = []\<rparr>" by (simp add: fees_ok_def)
  have "fees_ok st" by (rule foldR_invariant [of positions fees_ok, OF step init st(1)])
  then have "0 \<le> total_fees st" using assms(5) st(3) isfinite_py_round_imp by (auto simp: fees_ok_def)
  then show ?thesis using rounded_charge py_round_nonneg st(2) by blast
qed

lemma check_finite_double:
  assumes "check_finite v = Inr c" and "pyval_double v"
  shows "isfinite c \<and> is_double c"
proof (cases v)
  case (PInt i)
  then have "c = float_of_int i" using assms(1) by (simp add: check_finite_def split: if_splits)
  then show ?thesis using assms(1) check_number_finite by (simp add: check_finite_def float_of_int_def)
next
  case (PFloat x)
  then have "isfinite c" "c = x" using assms(1) check_number_finite by (cases x; simp add: check_finite_def)+
  then show ?thesis using assms(2) PFloat by simp
qed (use assms(1) in \<open>simp_all add: check_finite_def\<close>)

definition draft_entries :: "(nat \<Rightarrow> string) \<Rightarrow> datetime \<Rightarrow> string \<Rightarrow> float64 \<Rightarrow> float64 \<Rightarrow> journal_entry list" where
  "draft_entries uid now pid u v =
     (if u > micro then cash_expense (uid 0) pid now ''EXPENSE_MARGIN_INTEREST'' u else [])
     @ (if v > micro then cash_expense (uid 1) pid now ''EXPENSE_SHORT_BORROW'' v else [])"

lemma accrue_eval:
  assumes "calculate_margin_interest cfg cashv daysv = Inr u" "calculate_borrow_fees cfg positions prices daysv = Inr (v, n, per)"
    "check_finite cashv = Inr c"
  shows "accrue_daily_financing uid now cfg pid cashv positions prices date daysv =
    Inr \<lparr>accrual_portfolio_id = pid, date_str = date, cash_balance_before = c, margin_debit_balance = py_max 0 (- c),
         margin_interest_accrued = u, short_borrow_notional = n, borrow_fees_accrued = v,
         total_financing_drag = py_round 4 (u + v), cash_balance_after = py_round 4 (c - py_round 4 (u + v)),
         accrual_entries = draft_entries uid now pid u v\<rparr>"
  unfolding accrue_daily_financing_def assms bindR_simps prod.case Let_def draft_entries_def
  using entries_balanced(2) [of u "uid 0" pid now "''EXPENSE_MARGIN_INTEREST''" v "uid 1" "''EXPENSE_SHORT_BORROW''"] by (simp only: not_True_eq_False if_False)

lemma accrue_cases:
  obtains (raise_m) e where "calculate_margin_interest cfg cashv daysv = Inl e"
      "accrue_daily_financing uid now cfg pid cashv positions prices date daysv = Inl e"
  | (raise_b) e where "calculate_borrow_fees cfg positions prices daysv = Inl e"
      "accrue_daily_financing uid now cfg pid cashv positions prices date daysv = Inl e"
  | (ok) u v n per c where "calculate_margin_interest cfg cashv daysv = Inr u"
      "calculate_borrow_fees cfg positions prices daysv = Inr (v, n, per)" "check_finite cashv = Inr c"
proof (cases "calculate_margin_interest cfg cashv daysv")
  case (Inl e)
  then show ?thesis by (intro raise_m [of e]) (simp_all add: accrue_daily_financing_def)
next
  case (Inr u)
  then obtain c where c: "check_finite cashv = Inr c" by (auto simp: calculate_margin_interest_def bindR_Inr_iff)
  show ?thesis
  proof (cases "calculate_borrow_fees cfg positions prices daysv")
    case (Inl e)
    then show ?thesis using Inr by (intro raise_b [of e]) (simp_all add: accrue_daily_financing_def)
  next
    case (Inr r)
    then show ?thesis using \<open>calculate_margin_interest cfg cashv daysv = Inr u\<close> c ok by (cases r) auto
  qed
qed

section \<open>Properties\<close>

text \<open>Double-entry conservation (INV-LDG-001): whatever the inputs, the accrual never raises the unbalanced-journal
  error; the debits of the drafted entries are, amount by amount, the credits, and every amount is positive.\<close>

theorem financing_journal_balanced:
  "accrue_daily_financing uid now cfg pid cashv positions prices date daysv \<noteq> Inl (Fing FinancingError) \<and>
   (\<forall>r. accrue_daily_financing uid now cfg pid cashv positions prices date daysv = Inr r \<longrightarrow>
      amounts DEBIT (accrual_entries r) = amounts CREDIT (accrual_entries r) \<and>
      (\<forall>e \<in> set (accrual_entries r). 0 < amount e))"
proof -
  have pos: "0 < x" if "micro < x" for x using micro_bounds(2) that float_less_imp_le float_less_le_trans by blast
  have p: "e \<noteq> Fing FinancingError" if "check_positive v = Inl e" for v e
    using that by (induction v rule: check_positive.induct) (auto split: if_splits)
  have n: "e \<noteq> Fing FinancingError" if "check_nonnegative BadLedgerInput BadLedgerInput v = Inl e" for v e
    using that by (cases v) (auto split: if_splits)
  have f: "e \<noteq> Fing FinancingError" if "check_finite v = Inl e" for v e
    using that by (auto simp: check_finite_def dest: check_number_InlD)
  have m: "e \<noteq> Fing FinancingError" if "calculate_margin_interest cfg cashv daysv = Inl e" for e
    using that n f by (auto simp: calculate_margin_interest_def bindR_Inl_iff Let_def split: if_splits)
  have step: "e \<noteq> Fing FinancingError" if "borrow_fee_step cfg prices days st pos = Inl e" for days st pos e
    using that f p by (auto simp: borrow_fee_step_def bindR_Inl_iff Let_def split: if_splits prod.splits option.splits)
  have fold: "e \<noteq> Fing FinancingError" if "foldR (borrow_fee_step cfg prices days) st ps = Inl e" for days st ps e
    using that
  proof (induction ps arbitrary: st)
    case (Cons x ps)
    then show ?case using step [of days st x e] by (auto simp: bindR_Inl_iff)
  qed simp
  have b: "e \<noteq> Fing FinancingError" if "calculate_borrow_fees cfg positions prices daysv = Inl e" for e
    using that by (auto simp: calculate_borrow_fees_def bindR_Inl_iff dest: n fold)
  show ?thesis
  proof (cases rule: accrue_cases [of cfg cashv daysv uid now pid positions prices date])
    case (raise_m e)
    then show ?thesis using m by auto
  next
    case (raise_b e)
    then show ?thesis using b by auto
  next
    case (ok u v n per c)
    have "amounts DEBIT (draft_entries uid now pid u v) = amounts CREDIT (draft_entries uid now pid u v)"
      unfolding draft_entries_def by (rule entries_balanced(1))
    moreover have "\<forall>e \<in> set (draft_entries uid now pid u v). 0 < amount e"
      unfolding draft_entries_def using entries_balanced(3) pos by blast
    ultimately show ?thesis by (simp add: accrue_eval [OF ok])
  qed
qed

text \<open>With non-negative rates (the documented requirement) and a positive number of days, the accrual charges:
  interest and fees are non-negative, a non-negative cash balance bears no interest, the new balance never exceeds the
  old one rounded to four decimals, and the journal credits cash with exactly the non-zero charges.\<close>

theorem financing_charges:
  assumes "config_ok cfg" and "check_nonnegative BadLedgerInput BadLedgerInput daysv = Inr days" and "0 < days" and "pyval_double cashv"
    and "accrue_daily_financing uid now cfg pid cashv positions prices date daysv = Inr r" and "isfinite (short_borrow_notional r)"
  shows "0 \<le> margin_interest_accrued r \<and> 0 \<le> borrow_fees_accrued r \<and> 0 \<le> total_financing_drag r \<and>
         (0 \<le> cash_balance_before r \<longrightarrow> margin_interest_accrued r = 0) \<and>
         cash_balance_after r \<le> py_round 4 (cash_balance_before r) \<and>
         amounts CREDIT (accrual_entries r) = filter (\<lambda>x. x \<noteq> 0) [margin_interest_accrued r, borrow_fees_accrued r]"
proof -
  obtain u v n per c where a: "calculate_margin_interest cfg cashv daysv = Inr u" "calculate_borrow_fees cfg positions prices daysv = Inr (v, n, per)"
    "check_finite cashv = Inr c"
    using assms(5) by (cases rule: accrue_cases [of cfg cashv daysv uid now pid positions prices date]) auto
  have r: "margin_interest_accrued r = u" "borrow_fees_accrued r = v" "short_borrow_notional r = n" "cash_balance_before r = c"
      "total_financing_drag r = py_round 4 (u + v)" "cash_balance_after r = py_round 4 (c - py_round 4 (u + v))"
      "accrual_entries r = draft_entries uid now pid u v"
    using assms(5) unfolding accrue_eval [OF a] by auto
  have u: "0 \<le> u" "u = 0 \<or> micro < u" using margin_interest_nonneg [OF assms(1) a(1)] by auto
  have v: "0 \<le> v" "v = 0 \<or> micro < v" using borrow_fees_nonneg [OF assms(1-3) a(2)] assms(6) r(3) by auto
  have d: "0 \<le> py_round 4 (u + v)" using u(1) v(1) by (intro py_round_nonneg float_add_nonneg)
  have c: "isfinite c" "is_double c"
    using check_finite_double [OF a(3) assms(4)] by auto
  have "c - py_round 4 (u + v) \<le> c" using c d by (intro float_diff_le_self)
  then have after: "cash_balance_after r \<le> py_round 4 c" unfolding r(6) by (rule py_round_mono)
  have no: "u = 0" if "0 \<le> c" using a(1,3) that by (auto simp: calculate_margin_interest_def bindR_Inr_iff)
  have "(micro < x) = (x \<noteq> 0)" if "x = 0 \<or> micro < x" for x using that micro_bounds(2) float_less_imp_le [OF micro_bounds(2)] by (auto simp: less_float64_def)
  then have "amounts CREDIT (accrual_entries r) = filter (\<lambda>x. x \<noteq> 0) [u, v]" unfolding r(7) draft_entries_def entries_balanced(4) using u(2) v(2) by simp
  then show ?thesis using u v d after no r by simp
qed

definition simple_config :: financing_config where
  "simple_config = \<lparr>annual_margin_rate = Fin 45, default_borrow_rate = Fin 45, hard_to_borrow_rates = [], day_count_convention = 360\<rparr>"

lemma simple_rates: "fdiv (Fin 45) (float_of_int 360) = Fin (1 / 8)" "fdiv (Fin (- 45)) (float_of_int 360) = Fin (- 1 / 8)"
  using rnd64_dyadic [of 1 "- 3"] rnd64_dyadic [of "- 1" "- 3"] by (simp_all add: float_of_int_def two_pow_def)

lemma simple_accrual:
  "\<exists>r. accrue_daily_financing (\<lambda>_. ''tx'') (Aware 0) simple_config ''p'' (PInt (- 800)) [(''X'', PFloat (Fin (- 8)))] [(''X'', PFloat (Fin 100))]
        ''2024-01-01'' (PInt 1) = Inr r \<and> short_borrow_notional r = Fin 800"
proof -
  have m: "calculate_margin_interest simple_config (PInt (- 800)) (PInt 1) = Inr (Fin 100)"
    using simple_rates(1)
    by (simp add: calculate_margin_interest_def check_finite_def simple_config_def int_overflows_def float_of_int_def feq_def Let_def)
  have b: "calculate_borrow_fees simple_config [(''X'', PFloat (Fin (- 8)))] [(''X'', PFloat (Fin 100))] (PInt 1) = Inr (Fin 100, Fin 800, [(''X'', Fin 100)])"
    using simple_rates(1)
    by (simp add: calculate_borrow_fees_def borrow_fee_step_def check_finite_def simple_config_def int_overflows_def float_of_int_def Let_def)
  have c: "check_finite (PInt (- 800)) = Inr (Fin (- 800))" by (simp add: check_finite_def int_overflows_def float_of_int_def)
  show ?thesis using accrue_eval [OF m b c] by simp
qed

theorem financing_journal_balanced_witness:
  "\<exists>r. accrue_daily_financing (\<lambda>_. ''tx'') (Aware 0) simple_config ''p'' (PInt (- 800)) [(''X'', PFloat (Fin (- 8)))] [(''X'', PFloat (Fin 100))]
        ''2024-01-01'' (PInt 1) = Inr r \<and> amounts DEBIT (accrual_entries r) = amounts CREDIT (accrual_entries r)"
  using simple_accrual financing_journal_balanced by blast

theorem financing_charges_witness:
  "\<exists>r. accrue_daily_financing (\<lambda>_. ''tx'') (Aware 0) simple_config ''p'' (PInt (- 800)) [(''X'', PFloat (Fin (- 8)))] [(''X'', PFloat (Fin 100))]
        ''2024-01-01'' (PInt 1) = Inr r \<and> 0 \<le> total_financing_drag r \<and> cash_balance_after r \<le> py_round 4 (cash_balance_before r)"
proof -
  have d: "check_nonnegative BadLedgerInput BadLedgerInput (PInt 1) = Inr (Fin 1)" by (simp add: int_overflows_def float_of_int_def)
  have ok: "config_ok simple_config" by (simp add: config_ok_def rate_ok_def simple_config_def)
  obtain r where r: "accrue_daily_financing (\<lambda>_. ''tx'') (Aware 0) simple_config ''p'' (PInt (- 800)) [(''X'', PFloat (Fin (- 8)))]
      [(''X'', PFloat (Fin 100))] ''2024-01-01'' (PInt 1) = Inr r" "short_borrow_notional r = Fin 800"
    using simple_accrual by blast
  from financing_charges [OF ok d _ _ r(1)] r show ?thesis by auto
qed

text \<open>The hard-to-borrow rates are not validated: a configuration with a negative one is accepted, although the module
  requires non-negative rates everywhere, and then a short position earns money: the cash balance grows and no journal entry
  records it.\<close>

theorem financing_negative_borrow_rate:
  "\<exists>cfg r. financing_config_new (PInt 0) (PInt 0) [(''X'', Fin (- 45))] (PInt 360) = Inr cfg \<and>
     accrue_daily_financing uid now cfg pid (PInt 0) [(''X'', PFloat (Fin (- 8)))] [(''X'', PFloat (Fin 100))] date (PInt 1) = Inr r \<and>
     cash_balance_after r = Fin 100 \<and> accrual_entries r = []"
proof -
  let ?cfg = "\<lparr>annual_margin_rate = Fin 0, default_borrow_rate = Fin 0, hard_to_borrow_rates = [(''X'', Fin (- 45))], day_count_convention = 360\<rparr>"
  have cfg: "financing_config_new (PInt 0) (PInt 0) [(''X'', Fin (- 45))] (PInt 360) = Inr ?cfg"
    by (simp add: financing_config_new_def int_overflows_def float_of_int_def day_count_of_def zero_float64_def)
  have m: "calculate_margin_interest ?cfg (PInt 0) (PInt 1) = Inr 0"
    by (simp add: calculate_margin_interest_def check_finite_def int_overflows_def float_of_int_def)
  have neg: "round_half_even (- 1000000) = - 1000000" using round_half_even_of_int [of "- 1000000"] by simp
  have b: "calculate_borrow_fees ?cfg [(''X'', PFloat (Fin (- 8)))] [(''X'', PFloat (Fin 100))] (PInt 1) = Inr (Fin (- 100), Fin 800, [(''X'', Fin (- 100))])"
    using simple_rates(2) neg
    by (simp add: calculate_borrow_fees_def borrow_fee_step_def check_finite_def int_overflows_def float_of_int_def Let_def)
  have c: "check_finite (PInt 0) = Inr 0" by (simp add: check_finite_def int_overflows_def float_of_int_def)
  have "0 \<le> micro" using micro_bounds(2) by (rule float_less_imp_le)
  then have lt: "\<not> micro < 0" "\<not> micro < Fin (- 100)"
    using float_le_trans [of "Fin (- 100)" 0 micro] by (simp_all add: less_float64_def)
  have "draft_entries uid now pid 0 (Fin (- 100)) = []" using lt by (simp add: draft_entries_def)
  moreover have "py_round 4 (0 - py_round 4 (0 + Fin (- 100))) = Fin 100" using neg by (simp add: minus_float64_def)
  ultimately show ?thesis using cfg accrue_eval [OF m b c, of uid now pid date] by simp
qed

end
