(* ===== verification/Risk.thy ===== *)
theory Risk
  imports Order_FSM Py_Sum
begin

text \<open>
  The pre-trade risk firewall and the portfolio risk state: \<^verbatim>\<open>execution/risk.py\<close>.

  \<open>risk_state\<close> is \<^verbatim>\<open>PortfolioRiskState\<close>: cash, positions, signed working quantities and prices per
  symbol, and the session high-water mark. Reading the drawdown moves the high-water mark, so the operations
  that read it return the state. The loops over a Python set visit its symbols in an order the language does
  not fix: the order is the argument \<open>syms\<close>, a duplicate-free list of exactly those symbols.
\<close>

abbreviation BadRiskInput :: exn where
  "BadRiskInput \<equiv> Rsk NonFiniteRiskInputException"

section \<open>Limits\<close>

record risk_limits =
  max_order_notional :: float64
  max_order_qty :: float64
  max_gross_leverage :: float64
  max_net_leverage :: float64
  max_concentration_nav_pct :: float64
  max_intraday_drawdown_pct :: float64
  min_free_margin :: float64

definition validate_positive_scalar :: "pyval \<Rightarrow> float64 res" where
  "validate_positive_scalar v = check_pos BadRiskInput v"

definition validate_non_negative_scalar :: "pyval \<Rightarrow> float64 res" where
  "validate_non_negative_scalar v = check_nonneg BadRiskInput v"

definition risk_limits_new ::
    "pyval \<Rightarrow> pyval \<Rightarrow> pyval \<Rightarrow> pyval \<Rightarrow> pyval \<Rightarrow> pyval \<Rightarrow> pyval \<Rightarrow> risk_limits res" where
  "risk_limits_new notional qty gross net conc dd margin =
     bindR (validate_positive_scalar notional) (\<lambda>a.
     bindR (validate_positive_scalar qty) (\<lambda>b.
     bindR (validate_positive_scalar gross) (\<lambda>c.
     bindR (validate_positive_scalar net) (\<lambda>d.
     bindR (validate_positive_scalar conc) (\<lambda>e.
     bindR (validate_positive_scalar dd) (\<lambda>f.
     bindR (validate_non_negative_scalar margin) (\<lambda>g.
       Inr \<lparr>max_order_notional = a, max_order_qty = b, max_gross_leverage = c, max_net_leverage = d,
            max_concentration_nav_pct = e, max_intraday_drawdown_pct = f, min_free_margin = g\<rparr>)))))))"

section \<open>Portfolio state\<close>

record risk_state =
  rs_cash :: float64
  rs_positions :: "(string \<times> float64) list"
  pending_leaves :: "(string \<times> float64) list"
  current_prices :: "(string \<times> float64) list"
  peak_equity :: float64
  initial_equity :: float64

definition pico :: float64 where
  "pico = flit (1 / 10 ^ 12)"

text \<open>The price lookup of every valuation loop, with its guards.\<close>

definition price_of :: "risk_state \<Rightarrow> string \<Rightarrow> float64 res" where
  "price_of st s =
     (case dict_get (current_prices st) s of
        None \<Rightarrow> Inl BadRiskInput
      | Some p \<Rightarrow> if \<not> isfinite p \<or> p \<le> 0 then Inl BadRiskInput else Inr p)"

definition current_equity :: "risk_state \<Rightarrow> float64 res" where
  "current_equity st =
     foldR (\<lambda>eq (s, pos). if \<bar>pos\<bar> > pico then bindR (price_of st s) (\<lambda>p. Inr (eq + pos * p)) else Inr eq)
       (rs_cash st) (rs_positions st)"

text \<open>The constructor. Each dictionary is copied and its entries validated in order.\<close>

definition check_entry :: "(pyval \<Rightarrow> float64 res) \<Rightarrow> string \<times> pyval \<Rightarrow> (string \<times> float64) res" where
  "check_entry chk e = (case e of (s, v) \<Rightarrow> if s = [] then Inl BadRiskInput else bindR (chk v) (\<lambda>x. Inr (s, x)))"

definition check_finite_risk :: "pyval \<Rightarrow> float64 res" where
  "check_finite_risk v = check_number BadRiskInput (\<lambda>_. False) v"

definition risk_state_new ::
    "pyval \<Rightarrow> (string \<times> pyval) list \<Rightarrow> (string \<times> pyval) list \<Rightarrow> (string \<times> pyval) list \<Rightarrow> float64 \<Rightarrow> float64 \<Rightarrow>
     risk_state res" where
  "risk_state_new cashv posv leavesv pricesv peak init =
     bindR (check_finite_risk cashv) (\<lambda>c.
     bindR (mapR (check_entry check_finite_risk) posv) (\<lambda>pos.
     bindR (mapR (check_entry check_finite_risk) leavesv) (\<lambda>leaves.
     bindR (mapR (check_entry (check_pos BadRiskInput)) pricesv) (\<lambda>prices.
       let st = \<lparr>rs_cash = c, rs_positions = pos, pending_leaves = leaves, current_prices = prices,
                 peak_equity = peak, initial_equity = init\<rparr>
       in bindR (current_equity st) (\<lambda>current_eq.
          bindR (if init \<le> 0 then if current_eq \<le> 0 then Inl BadRiskInput else Inr current_eq
                 else validate_positive_scalar (PFloat init)) (\<lambda>init'.
          bindR (if peak \<le> 0 then Inr (py_max init' current_eq)
                 else bindR (validate_positive_scalar (PFloat peak)) (\<lambda>pk. Inr (py_max pk current_eq))) (\<lambda>peak'.
            Inr (st\<lparr>peak_equity := peak', initial_equity := init'\<rparr>))))))))"

definition raise_peak :: "risk_state \<Rightarrow> float64 \<Rightarrow> risk_state" where
  "raise_peak st eq = (if eq > peak_equity st then st\<lparr>peak_equity := eq\<rparr> else st)"

definition intraday_drawdown :: "risk_state \<Rightarrow> risk_state \<times> float64 res" where
  "intraday_drawdown st =
     (case current_equity st of
        Inl e \<Rightarrow> (st, Inl e)
      | Inr eq \<Rightarrow>
          let st' = raise_peak st eq
          in (st', Inr (if peak_equity st' \<le> 0 then if eq \<le> 0 then 1 else 0
                        else py_max 0 (fdiv (peak_equity st' - eq) (peak_equity st')))))"

text \<open>The gross exposure of a position with working orders: the larger of now and after, when they reduce it.\<close>

definition reducing :: "float64 \<Rightarrow> float64 \<Rightarrow> bool" where
  "reducing pos leaves \<longleftrightarrow> 0 < pos \<and> leaves < 0 \<or> pos < 0 \<and> 0 < leaves"

definition gross_units :: "bool \<Rightarrow> float64 \<Rightarrow> float64 \<Rightarrow> float64" where
  "gross_units red pos leaves = (if red then py_max \<bar>pos\<bar> \<bar>pos + leaves\<bar> else \<bar>pos\<bar> + \<bar>leaves\<bar>)"

definition gross_step :: "risk_state \<Rightarrow> float64 \<Rightarrow> string \<Rightarrow> float64 res" where
  "gross_step st gross_notional s =
     (let pos = dict_get_default (rs_positions st) s 0; leaves = dict_get_default (pending_leaves st) s 0
      in if \<bar>pos\<bar> > pico \<or> \<bar>leaves\<bar> > pico
         then bindR (price_of st s) (\<lambda>p. Inr (gross_notional + gross_units (reducing pos leaves) pos leaves * p))
         else Inr gross_notional)"

definition gross_leverage :: "string list \<Rightarrow> risk_state \<Rightarrow> float64 res" where
  "gross_leverage syms st =
     bindR (current_equity st) (\<lambda>eq.
       if eq \<le> 0 then Inr PInf
       else bindR (foldR (gross_step st) 0 syms) (\<lambda>gross_notional. Inr (fdiv gross_notional eq)))"

definition net_step :: "risk_state \<Rightarrow> float64 \<Rightarrow> string \<Rightarrow> float64 res" where
  "net_step st net_notional s =
     (let pos = dict_get_default (rs_positions st) s 0; leaves = dict_get_default (pending_leaves st) s 0
      in if \<bar>pos\<bar> > pico \<or> \<bar>leaves\<bar> > pico
         then bindR (price_of st s) (\<lambda>p. Inr (net_notional + (pos + leaves) * p))
         else Inr net_notional)"

definition net_leverage :: "string list \<Rightarrow> risk_state \<Rightarrow> float64 res" where
  "net_leverage syms st =
     bindR (current_equity st) (\<lambda>eq.
       if eq \<le> 0 then Inr PInf
       else bindR (foldR (net_step st) 0 syms) (\<lambda>net_notional. Inr (fdiv \<bar>net_notional\<bar> eq)))"

definition free_margin :: "risk_state \<Rightarrow> float64 res" where
  "free_margin st =
     bindR (foldR (\<lambda>locked (s, leaves).
         if \<bar>leaves\<bar> \<le> pico then Inr locked
         else
           bindR (price_of st s) (\<lambda>price.
             Inr (if 0 < leaves then locked + leaves * price
                  else if leaves < 0
                  then let pos = dict_get_default (rs_positions st) s 0;
                           short_leaves = py_max 0 (\<bar>leaves\<bar> - py_max 0 pos)
                       in locked + short_leaves * price
                  else locked))) 0 (pending_leaves st)) (\<lambda>locked.
       Inr (rs_cash st - locked))"

definition mark_to_market :: "risk_state \<Rightarrow> risk_state \<times> unit res" where
  "mark_to_market st =
     (case current_equity st of Inl e \<Rightarrow> (st, Inl e) | Inr eq \<Rightarrow> (raise_peak st eq, Inr ()))"

definition update_price :: "risk_state \<Rightarrow> pyval \<Rightarrow> pyval \<Rightarrow> risk_state \<times> unit res" where
  "update_price st symv pricev =
     (case bindR (check_str BadRiskInput symv) (\<lambda>s. bindR (validate_positive_scalar pricev) (\<lambda>p. Inr (s, p))) of
        Inl e \<Rightarrow> (st, Inl e)
      | Inr (s, p) \<Rightarrow> mark_to_market (st\<lparr>current_prices := dict_set (current_prices st) s p\<rparr>))"

text \<open>Working quantities after a fill.\<close>

definition leaves_after_buy :: "(string \<times> float64) list \<Rightarrow> string \<Rightarrow> float64 \<Rightarrow> (string \<times> float64) list" where
  "leaves_after_buy d s q =
     (case dict_get d s of
        None \<Rightarrow> d
      | Some leaves \<Rightarrow>
          if 0 < leaves
          then let l = py_max 0 (leaves - q) in if l \<le> pico then dict_pop (dict_set d s l) s else dict_set d s l
          else d)"

definition leaves_after_sell :: "(string \<times> float64) list \<Rightarrow> string \<Rightarrow> float64 \<Rightarrow> (string \<times> float64) list" where
  "leaves_after_sell d s q =
     (case dict_get d s of
        None \<Rightarrow> d
      | Some leaves \<Rightarrow>
          let l = (if leaves < 0 then py_min 0 (leaves + q) else if 0 < leaves then py_max 0 (leaves - q) else leaves)
          in if \<bar>l\<bar> \<le> pico then dict_pop (dict_set d s l) s else dict_set d s l)"

definition book_risk_fill :: "risk_state \<Rightarrow> string \<Rightarrow> float64 \<Rightarrow> float64 \<Rightarrow> order_side \<Rightarrow> risk_state" where
  "book_risk_fill st s q p sd =
     (let held = dict_get_default (rs_positions st) s 0;
          st1 = (case sd of
             BUY \<Rightarrow> st\<lparr>rs_cash := rs_cash st - q * p, rs_positions := dict_set (rs_positions st) s (held + q),
                      pending_leaves := leaves_after_buy (pending_leaves st) s q\<rparr>
           | SELL \<Rightarrow> st\<lparr>rs_cash := rs_cash st + q * p, rs_positions := dict_set (rs_positions st) s (held - q),
                       pending_leaves := leaves_after_sell (pending_leaves st) s q\<rparr>);
          st2 = (case dict_get (rs_positions st1) s of
             Some x \<Rightarrow> if \<bar>x\<bar> < pico then st1\<lparr>rs_positions := dict_set (rs_positions st1) s 0\<rparr> else st1
           | None \<Rightarrow> st1)
      in st2\<lparr>current_prices := dict_set (current_prices st2) s p\<rparr>)"

definition update_fill :: "risk_state \<Rightarrow> pyval \<Rightarrow> pyval \<Rightarrow> pyval \<Rightarrow> pyval \<Rightarrow> risk_state \<times> unit res" where
  "update_fill st symv qtyv pricev sidev =
     (case bindR (check_str BadRiskInput symv) (\<lambda>s.
             bindR (validate_positive_scalar qtyv) (\<lambda>q.
             bindR (validate_positive_scalar pricev) (\<lambda>p.
             case order_side_of sidev of None \<Rightarrow> Inl BadRiskInput | Some sd \<Rightarrow> Inr (s, q, p, sd)))) of
        Inl e \<Rightarrow> (st, Inl e)
      | Inr (s, q, p, sd) \<Rightarrow> mark_to_market (book_risk_fill st s q p sd))"

section \<open>The firewall\<close>

text \<open>Check 4: the reference price.\<close>

definition reference_price :: "risk_state \<Rightarrow> order \<Rightarrow> float64 option \<Rightarrow> float64 res" where
  "reference_price st od current_price =
     (let ref_price = (case current_price of
            Some p \<Rightarrow> Some p
          | None \<Rightarrow> (case price od of Some p \<Rightarrow> Some p | None \<Rightarrow> dict_get (current_prices st) (symbol od)))
      in case ref_price of
           None \<Rightarrow> Inl BadRiskInput
         | Some p \<Rightarrow> if \<not> isfinite p \<or> p \<le> 0 then Inl BadRiskInput else Inr p)"

text \<open>Check 6: the margin an order consumes.\<close>

definition required_margin :: "risk_state \<Rightarrow> order \<Rightarrow> float64 \<Rightarrow> float64" where
  "required_margin st od ref_price =
     (let pos = dict_get_default (rs_positions st) (symbol od) 0;
          leaves = dict_get_default (pending_leaves st) (symbol od) 0
      in case side od of
           BUY \<Rightarrow>
             let pending_buy_leaves = py_max 0 leaves;
                 available_short_pos = py_max 0 (- pos - pending_buy_leaves);
                 long_units = py_max 0 (quantity od - available_short_pos)
             in long_units * ref_price
         | SELL \<Rightarrow>
             let pending_sell_leaves = \<bar>py_min 0 leaves\<bar>;
                 available_long_pos = py_max 0 (pos - pending_sell_leaves);
                 short_units = py_max 0 (quantity od - available_long_pos)
             in short_units * ref_price)"

definition projected_equity :: "risk_state \<Rightarrow> order \<Rightarrow> float64 \<Rightarrow> float64 res" where
  "projected_equity st od ref_price =
     foldR (\<lambda>eq (s, pos).
         if \<bar>pos\<bar> \<le> pico then Inr eq
         else if s = symbol od then Inr (eq + pos * ref_price)
         else bindR (price_of st s) (\<lambda>p. Inr (eq + pos * p)))
       (rs_cash st) (rs_positions st)"

definition order_delta :: "order \<Rightarrow> float64" where
  "order_delta od = (if side od = BUY then quantity od else - quantity od)"

definition reducing_order :: "float64 \<Rightarrow> float64 \<Rightarrow> float64 \<Rightarrow> bool" where
  "reducing_order pos delta proj_leaves \<longleftrightarrow>
     0 < pos \<and> (delta < 0 \<or> proj_leaves < 0) \<or> pos < 0 \<and> (0 < delta \<or> 0 < proj_leaves)"

text \<open>The loop of checks 7 and 8: gross and net notional after the order joins the working quantities.\<close>

definition project_symbol ::
    "risk_state \<Rightarrow> order \<Rightarrow> float64 \<Rightarrow> float64 \<times> float64 \<Rightarrow> string \<Rightarrow> (float64 \<times> float64) res" where
  "project_symbol st od ref_price acc s =
     (case acc of (gross, net) \<Rightarrow>
        let pos = dict_get_default (rs_positions st) s 0; leaves = dict_get_default (pending_leaves st) s 0
        in if s = symbol od
           then let proj_leaves = leaves + order_delta od
                in Inr (gross + gross_units (reducing_order pos (order_delta od) proj_leaves) pos proj_leaves * ref_price,
                        net + (pos + proj_leaves) * ref_price)
           else if \<bar>pos\<bar> \<le> pico \<and> \<bar>leaves\<bar> \<le> pico then Inr (gross, net)
           else bindR (price_of st s) (\<lambda>p.
                  Inr (gross + gross_units (reducing pos leaves) pos leaves * p, net + (pos + leaves) * p)))"

definition asset_exposure :: "risk_state \<Rightarrow> order \<Rightarrow> float64 \<Rightarrow> float64" where
  "asset_exposure st od ref_price =
     (let pos = dict_get_default (rs_positions st) (symbol od) 0;
          proj_leaves = dict_get_default (pending_leaves st) (symbol od) 0 + order_delta od
      in gross_units (reducing_order pos (order_delta od) proj_leaves) pos proj_leaves * ref_price)"

definition check_projections ::
    "string list \<Rightarrow> risk_limits \<Rightarrow> risk_state \<Rightarrow> order \<Rightarrow> float64 \<Rightarrow> unit res" where
  "check_projections syms lims st od ref_price =
     bindR (projected_equity st od ref_price) (\<lambda>eq.
       if eq \<le> 0 then Inl (Rsk LeverageLimitExceededException)
       else
         bindR (foldR (project_symbol st od ref_price) (0, 0) syms) (\<lambda>(gross, net).
           if fdiv gross eq > max_gross_leverage lims then Inl (Rsk LeverageLimitExceededException)
           else if fdiv \<bar>net\<bar> eq > max_net_leverage lims then Inl (Rsk LeverageLimitExceededException)
           else if fdiv (asset_exposure st od ref_price) eq > max_concentration_nav_pct lims
           then Inl (Rsk ConcentrationLimitExceededException)
           else Inr ()))"

definition check_margin :: "risk_limits \<Rightarrow> risk_state \<Rightarrow> order \<Rightarrow> float64 \<Rightarrow> unit res" where
  "check_margin lims st od ref_price =
     (if required_margin st od ref_price > 0
      then bindR (free_margin st) (\<lambda>fm.
             if fm - required_margin st od ref_price < min_free_margin lims
             then Inl (Rsk InsufficientMarginRiskException) else Inr ())
      else Inr ())"

text \<open>Checks 3 to 9, on the state the drawdown check leaves.\<close>

definition check_order ::
    "string list \<Rightarrow> risk_limits \<Rightarrow> risk_state \<Rightarrow> order \<Rightarrow> float64 option \<Rightarrow> unit res" where
  "check_order syms lims st od current_price =
     (if quantity od > max_order_qty lims then Inl (Rsk FatFingerQuantityException)
      else
        bindR (reference_price st od current_price) (\<lambda>ref_price.
          if quantity od * ref_price > max_order_notional lims then Inl (Rsk FatFingerNotionalException)
          else bindR (check_margin lims st od ref_price) (\<lambda>_. check_projections syms lims st od ref_price)))"

definition validate_order ::
    "string list \<Rightarrow> risk_limits \<Rightarrow> order \<Rightarrow> risk_state \<Rightarrow> pyval \<Rightarrow> risk_state \<times> unit res" where
  "validate_order syms lims od st current_price =
     (if \<not> isfinite (quantity od) \<or> quantity od \<le> 0 then (st, Inl BadRiskInput)
      else if (case price od of Some p \<Rightarrow> \<not> isfinite p \<or> p \<le> 0 | None \<Rightarrow> False) then (st, Inl BadRiskInput)
      else
        case (if current_price = PNone then Inr None
              else bindR (check_pos BadRiskInput current_price) (\<lambda>p. Inr (Some p))) of
          Inl e \<Rightarrow> (st, Inl e)
        | Inr cp \<Rightarrow>
            (case intraday_drawdown st of
               (st', Inl e) \<Rightarrow> (st', Inl e)
             | (st', Inr drawdown) \<Rightarrow>
                 (st', if drawdown \<ge> max_intraday_drawdown_pct lims then Inl (Rsk DrawdownLimitExceededException)
                       else check_order syms lims st' od cp)))"

text \<open>The symbols the projection loop visits.\<close>

definition projection_symbols :: "risk_state \<Rightarrow> order \<Rightarrow> string set" where
  "projection_symbols st od = fst ` set (rs_positions st) \<union> fst ` set (pending_leaves st) \<union> {symbol od}"

section \<open>Facts about the state\<close>

definition risk_state_ok :: "risk_state \<Rightarrow> bool" where
  "risk_state_ok st \<longleftrightarrow>
     (\<forall>e \<in> set (rs_positions st). isfinite (snd e) \<and> is_double (snd e)) \<and>
     (\<forall>e \<in> set (pending_leaves st). isfinite (snd e)) \<and> dict_ok (rs_positions st) \<and> dict_ok (pending_leaves st)"

text \<open>The state in which the order works at its reference price.\<close>

definition with_order :: "risk_state \<Rightarrow> order \<Rightarrow> float64 \<Rightarrow> risk_state" where
  "with_order st od ref_price =
     st\<lparr>pending_leaves := dict_set (pending_leaves st) (symbol od)
          (dict_get_default (pending_leaves st) (symbol od) 0 + order_delta od),
        current_prices := dict_set (current_prices st) (symbol od) ref_price\<rparr>"

lemma raise_peak_facts:
  "peak_equity st \<noteq> NaN \<Longrightarrow> peak_equity st \<le> peak_equity (raise_peak st eq)"
  "\<not> peak_equity (raise_peak st eq) < eq"
  "raise_peak st eq = st\<lparr>peak_equity := peak_equity (raise_peak st eq)\<rparr>"
  by (auto simp: raise_peak_def float_less_imp_le)

lemma price_of_peak [simp]: "price_of (st\<lparr>peak_equity := p\<rparr>) s = price_of st s"
  by (simp add: price_of_def)

lemma current_equity_peak [simp]: "current_equity (st\<lparr>peak_equity := p\<rparr>) = current_equity st"
  unfolding current_equity_def price_of_peak by simp

lemma validate_order_split:
  assumes "validate_order syms lims od st cpv = (st', Inr ())"
  obtains cp eq where "isfinite (quantity od)" "0 < quantity od" "current_equity st = Inr eq" "st' = raise_peak st eq"
    "check_order syms lims st' od cp = Inr ()" "\<not> max_intraday_drawdown_pct lims \<le> (if peak_equity st' \<le> 0 then if eq \<le> 0 then 1 else 0
       else py_max 0 (fdiv (peak_equity st' - eq) (peak_equity st')))"
    "cpv = PNone \<and> cp = None \<or> (\<exists>p. cp = Some p \<and> check_pos BadRiskInput cpv = Inr p)"
proof -
  have q: "isfinite (quantity od)" "0 < quantity od"
    using assms by (auto simp: validate_order_def less_float64_def split: if_splits)
  obtain cp where cp: "(if cpv = PNone then Inr None else bindR (check_pos BadRiskInput cpv) (\<lambda>p. Inr (Some p))) = (Inr cp :: float64 option res)"
    using assms by (auto simp: validate_order_def split: if_splits sum.splits)
  obtain eq where eq: "current_equity st = Inr eq"
    using assms cp by (cases "current_equity st") (auto simp: validate_order_def intraday_drawdown_def split: if_splits)
  show thesis
    using assms cp q eq
    by (intro that [of eq cp]) (auto simp: validate_order_def intraday_drawdown_def bindR_Inr_iff Let_def split: if_splits)
qed

lemma check_order_split:
  assumes "check_order syms lims st od cp = Inr ()"
  obtains p where "reference_price st od cp = Inr p" "\<not> max_order_qty lims < quantity od" "\<not> max_order_notional lims < quantity od * p"
    "check_margin lims st od p = Inr ()" "check_projections syms lims st od p = Inr ()"
  using assms by (auto simp: check_order_def bindR_Inr_iff split: if_splits)

text \<open>The projection of the firewall is the valuation of the state with the order working.\<close>

lemma dict_get_default_set: "dict_get_default (dict_set d k v) k' w = (if k' = k then v else dict_get_default d k' w)"
  by simp

lemma pico_pos: "0 < pico" "pico \<noteq> NaN"
  using flit_power_ten [of 12] by (auto simp: pico_def)

lemma gross_units_eq:
  assumes "isfinite pos" "is_double pos" "isfinite leaves"
  shows "gross_units (reducing_order pos d leaves) pos leaves = gross_units (reducing pos leaves) pos leaves"
proof (cases "reducing_order pos d leaves = reducing pos leaves")
  case False
  obtain a b where ab: "pos = Fin a" "leaves = Fin b" using assms by auto
  have same: "0 < a \<and> 0 \<le> b \<or> a < 0 \<and> b \<le> 0" "\<not> reducing pos leaves" "reducing_order pos d leaves"
    using False by (auto simp: ab reducing_def reducing_order_def)
  have dbl: "rnd64 \<bar>a\<bar> = Fin \<bar>a\<bar>" using assms(2) abs_rnd64 [of a] by (simp add: ab)
  have sum: "\<bar>pos + leaves\<bar> = rnd64 (\<bar>a\<bar> + \<bar>b\<bar>)" using same(1) by (auto simp: ab abs_rnd64 abs_if)
  have "Fin \<bar>a\<bar> \<le> rnd64 (\<bar>a\<bar> + \<bar>b\<bar>)" using rnd64_mono [of "\<bar>a\<bar>" "\<bar>a\<bar> + \<bar>b\<bar>"] dbl by simp
  then have "py_max \<bar>pos\<bar> \<bar>pos + leaves\<bar> = \<bar>pos\<bar> + \<bar>leaves\<bar>"
    unfolding sum using float_antisym by (auto simp: py_max_def ab float_not_less)
  then show ?thesis using same(2,3) by (simp add: gross_units_def)
qed simp

lemma foldR_cong:
  assumes "\<And>x s. x \<in> set xs \<Longrightarrow> f s x = g s x"
  shows "foldR f s xs = foldR g s xs"
  using assms by (induction xs arbitrary: s) (simp_all cong: sum.case_cong add: bindR_def split: sum.splits)

lemma position_facts:
  assumes "risk_state_ok st"
  shows "isfinite (dict_get_default (rs_positions st) s 0)" "is_double (dict_get_default (rs_positions st) s 0)"
    "isfinite (dict_get_default (pending_leaves st) s 0)"
proof -
  have "isfinite (dict_get_default (rs_positions st) s 0) \<and> is_double (dict_get_default (rs_positions st) s 0)"
    using assms by (cases "dict_get (rs_positions st) s") (auto simp: risk_state_ok_def dest!: map_of_SomeD)
  then show "isfinite (dict_get_default (rs_positions st) s 0)" "is_double (dict_get_default (rs_positions st) s 0)" by auto
  show "isfinite (dict_get_default (pending_leaves st) s 0)"
    using assms by (cases "dict_get (pending_leaves st) s") (auto simp: risk_state_ok_def dest!: map_of_SomeD)
qed

lemma price_with_order:
  "s \<noteq> symbol od \<Longrightarrow> price_of (with_order st od p) s = price_of st s"
  "isfinite p \<Longrightarrow> 0 < p \<Longrightarrow> price_of (with_order st od p) (symbol od) = Inr p"
  using float_less_le_trans [of 0 p 0] by (auto simp: price_of_def with_order_def)

lemma not_pico: "isfinite x \<Longrightarrow> pico < \<bar>x\<bar> \<longleftrightarrow> \<not> \<bar>x\<bar> \<le> pico"
  using pico_pos(2) float_not_le [of "\<bar>x\<bar>" pico] by (cases x) auto

lemma equity_with_order:
  assumes "risk_state_ok st" "isfinite p" "0 < p"
  shows "current_equity (with_order st od p) = projected_equity st od p"
proof -
  have f: "isfinite pos" if "(s, pos) \<in> set (rs_positions st)" for s pos using assms(1) that by (auto simp: risk_state_ok_def)
  have w: "rs_cash (with_order st od p) = rs_cash st" "rs_positions (with_order st od p) = rs_positions st"
    by (simp_all add: with_order_def)
  show ?thesis unfolding current_equity_def projected_equity_def w
    using f price_with_order assms(2,3) by (intro foldR_cong) (auto simp: not_pico)
qed

text \<open>The exposure the order leaves in its symbol is not negligible.\<close>

definition material :: "risk_state \<Rightarrow> order \<Rightarrow> bool" where
  "material st od \<longleftrightarrow> pico < \<bar>dict_get_default (rs_positions st) (symbol od) 0\<bar> \<or>
     pico < \<bar>dict_get_default (pending_leaves st) (symbol od) 0 + order_delta od\<bar>"

lemma project_symbol_steps:
  assumes "risk_state_ok st" "isfinite p" "0 < p" "material st od"
    and "isfinite (dict_get_default (pending_leaves st) (symbol od) 0 + order_delta od)"
    and "project_symbol st od p (g, n) s = Inr (g', n')"
  shows "gross_step (with_order st od p) g s = Inr g' \<and> net_step (with_order st od p) n s = Inr n'"
proof -
  have w: "rs_positions (with_order st od p) = rs_positions st"
    "dict_get_default (pending_leaves (with_order st od p)) t 0 =
      (if t = symbol od then dict_get_default (pending_leaves st) (symbol od) 0 + order_delta od else dict_get_default (pending_leaves st) t 0)" for t
    unfolding with_order_def by (simp_all add: dict_get_default_set)
  note pf = position_facts [OF assms(1)]
  show ?thesis
  proof (cases "s = symbol od")
    case True
    then show ?thesis
      using assms(4,6) gross_units_eq [OF pf(1) pf(2) assms(5)] price_with_order(2) [OF assms(2,3)]
      unfolding gross_step_def net_step_def w Let_def
      by (auto simp: project_symbol_def material_def Let_def simp del: dict_get_set)
  next
    case False
    then show ?thesis
      using assms(6) price_with_order(1) [OF False] not_pico [OF pf(1), of s] not_pico [OF pf(3), of s]
      unfolding gross_step_def net_step_def w Let_def
      by (auto simp: project_symbol_def bindR_Inr_iff Let_def split: if_splits)
  qed
qed

lemma project_fold:
  assumes "risk_state_ok st" "isfinite p" "0 < p" "material st od"
    and "isfinite (dict_get_default (pending_leaves st) (symbol od) 0 + order_delta od)"
    and "foldR (project_symbol st od p) (g, n) syms = Inr (g', n')"
  shows "foldR (gross_step (with_order st od p)) g syms = Inr g' \<and> foldR (net_step (with_order st od p)) n syms = Inr n'"
  using assms(6)
proof (induction syms arbitrary: g n)
  case (Cons s syms)
  then obtain g1 n1 where "project_symbol st od p (g, n) s = Inr (g1, n1)" "foldR (project_symbol st od p) (g1, n1) syms = Inr (g', n')"
    by (auto simp: bindR_Inr_iff)
  with Cons.IH project_symbol_steps [OF assms(1-5)] show ?case by simp
qed simp

lemma reference_price_ok: "reference_price st od cp = Inr p \<Longrightarrow> isfinite p \<and> 0 < p"
  by (auto simp: reference_price_def Let_def less_float64_def split: option.splits if_splits)

lemma check_projections_sound:
  assumes "risk_state_ok st" "isfinite p" "0 < p" "material st od"
    and "isfinite (dict_get_default (pending_leaves st) (symbol od) 0 + order_delta od)"
    and "check_projections syms lims st od p = Inr ()"
  shows "\<exists>g n eq. gross_leverage syms (with_order st od p) = Inr g \<and> \<not> max_gross_leverage lims < g \<and>
           net_leverage syms (with_order st od p) = Inr n \<and> \<not> max_net_leverage lims < n \<and>
           current_equity (with_order st od p) = Inr eq \<and> \<not> eq \<le> 0 \<and>
           \<not> max_concentration_nav_pct lims < fdiv (asset_exposure st od p) eq"
proof -
  obtain eq g n where eq: "projected_equity st od p = Inr eq" "\<not> eq \<le> 0"
    and f: "foldR (project_symbol st od p) (0, 0) syms = Inr (g, n)"
    and c: "\<not> max_gross_leverage lims < fdiv g eq" "\<not> max_net_leverage lims < fdiv \<bar>n\<bar> eq"
      "\<not> max_concentration_nav_pct lims < fdiv (asset_exposure st od p) eq"
    using assms(6) by (auto simp: check_projections_def bindR_Inr_iff split: if_splits)
  have e: "current_equity (with_order st od p) = Inr eq" using equity_with_order [OF assms(1-3)] eq(1) by simp
  note pf = project_fold [OF assms(1-5) f]
  show ?thesis using e eq(2) c pf by (simp add: gross_leverage_def net_leverage_def)
qed

lemma reference_price_cases:
  "reference_price st od cp = Inr p \<Longrightarrow>
   (case cp of Some q \<Rightarrow> p = q | None \<Rightarrow> if price od \<noteq> None then price od = Some p else dict_get (current_prices st) (symbol od) = Some p)"
  by (auto simp: reference_price_def Let_def split: option.splits if_splits)

lemma check_margin_InrD:
  "check_margin lims st od p = Inr () \<Longrightarrow> 0 < required_margin st od p \<longrightarrow>
   (\<exists>fm. free_margin st = Inr fm \<and> \<not> fm - required_margin st od p < min_free_margin lims)"
  by (auto simp: check_margin_def bindR_Inr_iff split: if_splits)

lemma margin_peak [simp]: "required_margin (st\<lparr>peak_equity := x\<rparr>) od p = required_margin st od p"
  "free_margin (st\<lparr>peak_equity := x\<rparr>) = free_margin st"
  unfolding required_margin_def free_margin_def price_of_peak risk_state.select_convs risk_state.update_convs
  by (simp_all add: Let_def cong: if_cong)

lemma risk_state_ok_peak [simp]: "risk_state_ok (st\<lparr>peak_equity := x\<rparr>) = risk_state_ok st"
  by (simp add: risk_state_ok_def)

section \<open>Properties\<close>


text \<open>On a flat portfolio the firewall is exactly the documented limits: a limit buy order is accepted if and only if
  its quantity, its notional, the cash it leaves and its notional relative to the cash are within the limits.\<close>

theorem firewall_flat_portfolio:
  assumes "rs_positions st = []" "pending_leaves st = []" and "rs_cash st = Fin c" "0 < c" "rnd64 c = Fin c" "peak_equity st = Fin c"
    and "side od = BUY" "quantity od = Fin q" "0 < q" "rnd64 q = Fin q" "price od = Some (Fin p)" "0 < p"
    and "0 < Fin q * Fin p" "0 < max_intraday_drawdown_pct lims"
  shows "snd (validate_order [symbol od] lims od st PNone) = Inr () \<longleftrightarrow>
     \<not> max_order_qty lims < Fin q \<and> \<not> max_order_notional lims < Fin q * Fin p \<and>
     \<not> rs_cash st - Fin q * Fin p < min_free_margin lims \<and>
     \<not> max_gross_leverage lims < fdiv (Fin q * Fin p) (Fin c) \<and> \<not> max_net_leverage lims < fdiv (Fin q * Fin p) (Fin c) \<and>
     \<not> max_concentration_nav_pct lims < fdiv (Fin q * Fin p) (Fin c)"
proof -
  have zr: "0 + rnd64 y = rnd64 y" for y
  proof (cases "rnd64 y")
    case (Fin a)
    then show ?thesis using is_double_rnd64 [of y] by simp
  qed (simp_all add: zero_float64_def)
  have eq: "current_equity st = Inr (Fin c)" using assms(1,3) by (simp add: current_equity_def)
  have dd: "intraday_drawdown st = (st, Inr 0)"
  proof -
    have "Fin c - Fin c = Fin 0" by (simp add: minus_float64_def)
    then have "fdiv (Fin c - Fin c) (Fin c) = 0" by simp
    then show ?thesis using eq assms(4,6) by (simp add: intraday_drawdown_def raise_peak_def py_max_def Let_def)
  qed
  have neg0: "\<not> max_intraday_drawdown_pct lims \<le> 0"
    using assms(14) by (cases "max_intraday_drawdown_pct lims") auto
  have ref: "reference_price st od None = Inr (Fin p)" using assms(11,12) by (simp add: reference_price_def)
  have z: "py_max 0 (0::float64) = 0" "- (0::float64) - 0 = 0" "(0::float64) - 0 = 0" "Fin q - 0 = Fin q" "py_max 0 (Fin q) = Fin q" "0 + Fin q = Fin q"
    using assms(9,10) by (simp_all add: py_max_def minus_float64_def)
  have mg: "required_margin st od (Fin p) = Fin q * Fin p"
    using assms(1,2,7,8) by (simp add: required_margin_def z Let_def)
  have fm: "free_margin st = Inr (rs_cash st)" using assms(2,3,5) by (simp add: free_margin_def minus_float64_def)
  have margin: "check_margin lims st od (Fin p) = Inr () \<longleftrightarrow> \<not> rs_cash st - Fin q * Fin p < min_free_margin lims"
    using assms(13) by (simp add: check_margin_def mg fm)
  have gu: "gross_units (reducing_order 0 d (Fin q)) 0 (Fin q) = Fin q" for d
    using assms(9,10) by (simp add: gross_units_def reducing_order_def)
  have d: "order_delta od = Fin q" using assms(7,8) by (simp add: order_delta_def)
  have prj: "foldR (project_symbol st od (Fin p)) (0, 0) [symbol od] = Inr (Fin q * Fin p, Fin q * Fin p)"
    using assms(1,2,10) by (simp add: project_symbol_def d z gu zr Let_def)
  have ex: "asset_exposure st od (Fin p) = Fin q * Fin p" using assms(1,2,10) by (simp add: asset_exposure_def d z gu Let_def)
  have ab: "\<bar>Fin q * Fin p\<bar> = Fin q * Fin p" using assms(13) by (cases "Fin q * Fin p") auto
  have pe: "projected_equity st od (Fin p) = Inr (Fin c)" using assms(1,3) by (simp add: projected_equity_def)
  have pj: "check_projections [symbol od] lims st od (Fin p) = Inr () \<longleftrightarrow>
     \<not> max_gross_leverage lims < fdiv (Fin q * Fin p) (Fin c) \<and> \<not> max_net_leverage lims < fdiv (Fin q * Fin p) (Fin c) \<and>
     \<not> max_concentration_nav_pct lims < fdiv (Fin q * Fin p) (Fin c)"
    unfolding check_projections_def pe prj ex bindR_simps prod.case ab using assms(4) by (simp del: times_float64.simps fdiv.simps)
  have "snd (validate_order [symbol od] lims od st PNone) = check_order [symbol od] lims st od None"
    using assms(8,9,11,12) neg0 by (simp add: validate_order_def dd)
  also have "\<dots> = Inr () \<longleftrightarrow> \<not> max_order_qty lims < Fin q \<and> \<not> max_order_notional lims < Fin q * Fin p \<and>
      check_margin lims st od (Fin p) = Inr () \<and> check_projections [symbol od] lims st od (Fin p) = Inr ()"
    unfolding check_order_def ref bindR_simps assms(8) by (auto simp: bindR_Inr_iff simp del: times_float64.simps)
  finally show ?thesis unfolding margin pj by blast
qed

definition flat_state :: risk_state where
  "flat_state = \<lparr>rs_cash = Fin 1000, rs_positions = [], pending_leaves = [], current_prices = [], peak_equity = Fin 1000,
     initial_equity = Fin 1000\<rparr>"

definition sample_limits :: risk_limits where
  "sample_limits = \<lparr>max_order_notional = Fin 2000, max_order_qty = Fin 100, max_gross_leverage = Fin 2, max_net_leverage = Fin 2,
     max_concentration_nav_pct = Fin 1, max_intraday_drawdown_pct = Fin (1 / 4), min_free_margin = Fin 0\<rparr>"

lemma sample_order_fields:
  "side sample_order = BUY" "quantity sample_order = Fin 10" "price sample_order = Some (Fin 100)" "symbol sample_order = ''AAPL''"
  by (simp_all add: sample_order_def)

theorem firewall_flat_portfolio_witness:
  "snd (validate_order [''AAPL''] sample_limits sample_order flat_state PNone) = Inr ()"
  using firewall_flat_portfolio [of flat_state 1000 sample_order 10 100 sample_limits]
  by (simp add: sample_order_fields flat_state_def sample_limits_def minus_float64_def)

lemma sample_accepted: "validate_order [''AAPL''] sample_limits sample_order flat_state PNone = (flat_state, Inr ())"
proof -
  have r: "rnd64 (1000 / 1000) = Fin 1" by simp
  have ref: "reference_price flat_state sample_order None = Inr (Fin 100)" by (simp add: reference_price_def sample_order_fields)
  have dd: "intraday_drawdown flat_state = (flat_state, Inr 0)"
    by (simp add: intraday_drawdown_def current_equity_def flat_state_def raise_peak_def py_max_def minus_float64_def Let_def)
       (simp add: zero_float64_def)
  have m: "check_margin sample_limits flat_state sample_order (Fin 100) = Inr ()"
    by (simp add: check_margin_def required_margin_def free_margin_def sample_order_fields flat_state_def sample_limits_def py_max_def
        minus_float64_def Let_def)
  have "check_projections [''AAPL''] sample_limits flat_state sample_order (Fin 100) = Inr ()"
    by (simp add: check_projections_def projected_equity_def project_symbol_def asset_exposure_def gross_units_def reducing_order_def
        order_delta_def sample_order_fields flat_state_def sample_limits_def Let_def)
  then show ?thesis
    by (simp add: validate_order_def check_order_def dd ref m sample_order_fields) (simp add: sample_limits_def)
qed


text \<open>Validation is read-only up to the high-water mark: whatever its outcome, it changes nothing of the portfolio state
  but the session peak, which never falls.\<close>

theorem firewall_frame:
  assumes "peak_equity st \<noteq> NaN"
  shows "\<exists>pk. fst (validate_order syms lims od st cpv) = st\<lparr>peak_equity := pk\<rparr> \<and> peak_equity st \<le> pk"
proof -
  have "\<exists>pk. fst (intraday_drawdown st) = st\<lparr>peak_equity := pk\<rparr> \<and> peak_equity st \<le> pk"
  proof (cases "current_equity st")
    case (Inl e)
    then show ?thesis using assms by (intro exI [of _ "peak_equity st"]) (simp add: intraday_drawdown_def)
  next
    case (Inr eq)
    then show ?thesis using raise_peak_facts(1) [OF assms] raise_peak_facts(3) [of st eq]
      by (intro exI [of _ "peak_equity (raise_peak st eq)"]) (simp add: intraday_drawdown_def Let_def)
  qed
  moreover have "\<exists>pk. st = st\<lparr>peak_equity := pk\<rparr> \<and> peak_equity st \<le> pk" using assms by (intro exI [of _ "peak_equity st"]) simp
  ultimately show ?thesis unfolding validate_order_def by (auto split: sum.splits prod.splits)
qed

theorem firewall_frame_witness:
  "\<exists>pk. fst (validate_order [''AAPL''] sample_limits sample_order flat_state PNone) = flat_state\<lparr>peak_equity := pk\<rparr> \<and> Fin 1000 \<le> pk"
  using firewall_frame [of flat_state "[''AAPL'']" sample_limits sample_order PNone] by (simp add: flat_state_def)

text \<open>De-risking orders consume no margin: a sell of at most the long inventory not already offered, or a buy of at
  most the short inventory not already being bought back, passes the margin check whatever the free margin is.\<close>

theorem firewall_derisking:
  assumes "0 < quantity od" "isfinite (quantity od)" "isfinite p"
    and "side od = SELL \<and> quantity od \<le> dict_get_default (rs_positions st) (symbol od) 0 -
             \<bar>py_min 0 (dict_get_default (pending_leaves st) (symbol od) 0)\<bar> \<or>
         side od = BUY \<and> quantity od \<le> - dict_get_default (rs_positions st) (symbol od) 0 -
             py_max 0 (dict_get_default (pending_leaves st) (symbol od) 0)"
  shows "check_margin lims st od p = Inr ()"
proof -
  have z: "py_max 0 (q - py_max 0 a) = 0" if "0 < q" "isfinite q" "q \<le> a" for q a :: float64
  proof -
    have "0 < a" using that(1,3) float_less_le_trans by blast
    then have "py_max 0 a = a" by (simp add: py_max_def)
    moreover have "\<not> 0 < q - a" using that by (cases q; cases a) (auto simp: minus_float64_def less_float64_def)
    ultimately show ?thesis by (simp add: py_max_def)
  qed
  have "required_margin st od p = 0 * p" using assms(4) z [OF assms(1,2)] by (auto simp: required_margin_def Let_def)
  also have "\<dots> = 0" using assms(3) by auto
  finally show ?thesis by (simp add: check_margin_def)
qed

definition levered_state :: risk_state where
  "levered_state = \<lparr>rs_cash = Fin (- 500), rs_positions = [(''AAPL'', Fin 20)], pending_leaves = [(''AAPL'', Fin (- 4))],
     current_prices = [(''AAPL'', Fin 100)], peak_equity = Fin 1500, initial_equity = Fin 1500\<rparr>"

theorem firewall_derisking_witness:
  "check_margin sample_limits levered_state (sample_order\<lparr>side := SELL\<rparr>) (Fin 100) = Inr ()"
  by (rule firewall_derisking) (simp_all add: sample_order_def levered_state_def py_min_def minus_float64_def)

text \<open>Fills and prices move the high-water mark: no price update or fill lowers the session peak, and after one that
  returns the peak is not below the current equity.\<close>

theorem risk_update_high_water:
  assumes "peak_equity st \<noteq> NaN" and "upd = update_price st symv pricev \<or> upd = update_fill st symv qtyv pricev sidev"
  shows "(snd upd = Inr () \<longrightarrow> (\<exists>eq. current_equity (fst upd) = Inr eq \<and> \<not> peak_equity (fst upd) < eq)) \<and>
         peak_equity st \<le> peak_equity (fst upd)"
proof -
  have m: "(snd (mark_to_market s) = Inr () \<longrightarrow> (\<exists>eq. current_equity (fst (mark_to_market s)) = Inr eq \<and> \<not> peak_equity (fst (mark_to_market s)) < eq)) \<and>
      peak_equity st \<le> peak_equity (fst (mark_to_market s))" if "peak_equity s = peak_equity st" for s
  proof (cases "current_equity s")
    case (Inl e)
    then show ?thesis using that assms(1) by (simp add: mark_to_market_def)
  next
    case (Inr eq)
    have "current_equity (raise_peak s eq) = Inr eq" using Inr by (subst raise_peak_facts(3)) simp
    then show ?thesis using Inr raise_peak_facts(1,2) [of s eq] that assms(1) by (simp add: mark_to_market_def)
  qed
  have b: "peak_equity (book_risk_fill st s q p sd) = peak_equity st" for s q p sd
    by (cases sd) (auto simp: book_risk_fill_def Let_def split: option.splits)
  show ?thesis using assms m b by (auto simp: update_price_def update_fill_def split: sum.splits prod.splits)
qed

theorem risk_update_high_water_witness:
  "Fin 1500 \<le> peak_equity (fst (update_price levered_state (PStr ''AAPL'') (PInt 120)))"
  using risk_update_high_water [of levered_state "update_price levered_state (PStr ''AAPL'') (PInt 120)" "PStr ''AAPL''" "PInt 120"]
  by (simp add: levered_state_def)

text \<open>A sell fill releases the margin of working buy orders: in a portfolio with a working buy of 10, the fill of a sell
  of 5 halves the tracked buy quantity, so the free margin grows by the sale and by half of the margin locked for an order
  that is still open.\<close>

theorem risk_sell_fill_releases_buy_margin:
  "\<exists>st'. update_fill \<lparr>rs_cash = Fin 1000, rs_positions = [(''X'', Fin 5)], pending_leaves = [(''X'', Fin 10)],
        current_prices = [(''X'', Fin 100)], peak_equity = Fin 1500, initial_equity = Fin 1500\<rparr>
      (PStr ''X'') (PInt 5) (PInt 100) (PEnum ''OrderSide'' ''SELL'') = (st', Inr ()) \<and>
    pending_leaves st' = [(''X'', Fin 5)] \<and> free_margin st' = Inr (Fin 1000) \<and>
    free_margin \<lparr>rs_cash = Fin 1000, rs_positions = [(''X'', Fin 5)], pending_leaves = [(''X'', Fin 10)],
        current_prices = [(''X'', Fin 100)], peak_equity = Fin 1500, initial_equity = Fin 1500\<rparr> = Inr 0"
proof -
  obtain e where e: "pico = Fin e" "0 < e" "e \<le> 1" using flit_power_ten [of 12] by (auto simp: pico_def)
  have c: "check_str BadRiskInput (PStr ''X'') = Inr ''X''" "validate_positive_scalar (PInt 5) = Inr (Fin 5)"
    "validate_positive_scalar (PInt 100) = Inr (Fin 100)" "order_side_of (PEnum ''OrderSide'' ''SELL'') = Some SELL"
    by (simp_all add: check_str_def validate_positive_scalar_def int_overflows_def float_of_int_def order_side_of_def)
  show ?thesis
    using e by (simp add: update_fill_def c book_risk_fill_def leaves_after_sell_def mark_to_market_def current_equity_def raise_peak_def
        free_margin_def price_of_def py_max_def minus_float64_def Let_def e(1))
qed

end
