(* ===== verification/Ledger_Service.thy ===== *)
theory Ledger_Service
  imports Tax_Lot_Props Financing Risk "HOL-Library.Multiset"
begin

text \<open>
  The ledger service: \<^verbatim>\<open>services/ledger_service.py\<close>, with the rows of
  \<^verbatim>\<open>infrastructure/database/ledger_models.py\<close> it writes.

  The database session is SQLAlchemy: what the service reads from it (the portfolio row, the lot rows, whether
  a lot id is stored, the stored realized gains) are arguments of the operations, and what it writes is the list
  of \<open>db_action\<close> the call performs, in order, up to its end or its exception. The in-memory tax-lot engine is
  the state of the service. Entry descriptions are not modelled; tx ids, uuids and the clock are parameters.
\<close>

section \<open>Rows and writes\<close>

record lot_row =
  row_id :: string
  row_portfolio_id :: string
  row_symbol :: string
  row_side :: string
  row_open_timestamp :: datetime
  row_original :: float64
  row_remaining :: float64
  row_cost_basis :: float64
  row_status :: string

fun lot_side_value :: "lot_side \<Rightarrow> string" where
  "lot_side_value LONG = ''LONG''"
| "lot_side_value SHORT = ''SHORT''"

fun lot_status_value :: "lot_status \<Rightarrow> string" where
  "lot_status_value OPEN = ''OPEN''"
| "lot_status_value PARTIAL = ''PARTIAL''"
| "lot_status_value CLOSED = ''CLOSED''"

text \<open>The object that is handed to the session for a new lot of the portfolio \<open>pid\<close>. What a later query reads back is not this
  object: see \<open>rehydration_query\<close>.\<close>

definition row_of :: "string \<Rightarrow> tax_lot \<Rightarrow> lot_row" where
  "row_of pid l =
     \<lparr>row_id = lot_id l, row_portfolio_id = pid, row_symbol = lot_symbol l, row_side = lot_side_value (lot_side l),
      row_open_timestamp = open_timestamp l, row_original = original_quantity l, row_remaining = remaining_quantity l,
      row_cost_basis = cost_basis_per_share l, row_status = lot_status_value (lot_status l)\<rparr>"

record pnl_snapshot =
  snap_date :: string
  snap_nav :: float64
  snap_cash :: float64
  snap_gross_notional :: float64
  snap_realized :: float64
  snap_unrealized :: float64
  snap_margin_interest :: float64
  snap_borrow_fees :: float64

datatype db_action =
  AddPortfolio float64 float64 float64 \<comment> \<open>cash, margin debt, equity\<close>
| AddLot lot_row
| UpdateLot string float64 string \<comment> \<open>lot id, remaining quantity, status\<close>
| AddTrade realized_gain
| AddEntries "journal_entry list"
| AddSnapshot pnl_snapshot
| SetCash float64 float64 \<comment> \<open>cash and margin debt of the portfolio row\<close>
| SetEquity float64
| Commit

record ledger_service =
  svc_portfolio_id :: string
  svc_engine :: tax_engine
  svc_financing :: financing_config

section \<open>Journal of a fill\<close>

definition entry :: "string \<Rightarrow> string \<Rightarrow> datetime \<Rightarrow> string \<Rightarrow> entry_type \<Rightarrow> float64 \<Rightarrow> journal_entry" where
  "entry tx pid t account ty amt =
     \<lparr>transaction_id = tx, entry_portfolio_id = pid, account_name = account, entry_type = ty, amount = amt, entry_timestamp = t\<rparr>"

definition pip :: float64 where
  "pip = flit (1 / 10 ^ 4)"

definition gain_entries :: "string \<Rightarrow> string \<Rightarrow> datetime \<Rightarrow> float64 \<Rightarrow> journal_entry list" where
  "gain_entries tx pid t gain_or_loss =
     (if gain_or_loss > pip then [entry tx pid t ''REVENUE_REALIZED_GAIN'' CREDIT gain_or_loss]
      else if gain_or_loss < - pip then [entry tx pid t ''EXPENSE_REALIZED_LOSS'' DEBIT \<bar>gain_or_loss\<bar>]
      else [])"

definition trade_entries :: "string \<Rightarrow> string \<Rightarrow> datetime \<Rightarrow> string \<Rightarrow> realized_gain \<Rightarrow> journal_entry list" where
  "trade_entries tx pid t s tr =
     (let trade_proceeds = py_round 4 (gain_quantity tr * execution_price tr);
          trade_cost_basis = py_round 4 (cost_basis tr)
      in if gain_side tr = ''SELL''
         then [entry tx pid t ''ASSET_CASH'' DEBIT trade_proceeds,
               entry tx pid t (''ASSET_INVENTORY_'' @ s) CREDIT trade_cost_basis]
              @ gain_entries tx pid t (py_round 4 (trade_proceeds - trade_cost_basis))
         else if gain_side tr = ''COVER''
         then [entry tx pid t (''LIABILITY_SHORT_'' @ s) DEBIT trade_cost_basis,
               entry tx pid t ''ASSET_CASH'' CREDIT trade_proceeds]
              @ gain_entries tx pid t (py_round 4 (trade_cost_basis - trade_proceeds))
         else [])"

definition lot_entries :: "string \<Rightarrow> string \<Rightarrow> datetime \<Rightarrow> string \<Rightarrow> tax_lot \<Rightarrow> journal_entry list" where
  "lot_entries tx pid t s l =
     (let lot_notional = py_round 4 (original_quantity l * cost_basis_per_share l)
      in case lot_side l of
           LONG \<Rightarrow> [entry tx pid t (''ASSET_INVENTORY_'' @ s) DEBIT lot_notional, entry tx pid t ''ASSET_CASH'' CREDIT lot_notional]
         | SHORT \<Rightarrow> [entry tx pid t ''ASSET_CASH'' DEBIT lot_notional, entry tx pid t (''LIABILITY_SHORT_'' @ s) CREDIT lot_notional])"

definition fill_journal :: "string \<Rightarrow> string \<Rightarrow> datetime \<Rightarrow> string \<Rightarrow> fill_allocation \<Rightarrow> journal_entry list" where
  "fill_journal tx pid t s al =
     concat (map (trade_entries tx pid t s) (allocated_trades al)) @ concat (map (lot_entries tx pid t s) (new_open_lots al))"

definition journal_balanced :: "journal_entry list \<Rightarrow> bool" where
  "journal_balanced es \<longleftrightarrow>
     isclose (flit (1 / 10 ^ 3)) (py_round 4 (py_sum (amounts DEBIT es))) (py_round 4 (py_sum (amounts CREDIT es)))"

section \<open>Recording a fill\<close>

definition lot_writes :: "string \<Rightarrow> (string \<Rightarrow> bool) \<Rightarrow> fill_allocation \<Rightarrow> db_action list" where
  "lot_writes pid stored al =
     map (\<lambda>l. AddLot (row_of pid l)) (new_open_lots al) @
     map (\<lambda>l. UpdateLot (lot_id l) (remaining_quantity l) (lot_status_value (lot_status l)))
       (filter (\<lambda>l. stored (lot_id l)) (depleted_lots al)) @
     map AddTrade (allocated_trades al)"

text \<open>\<open>stored\<close> tells whether a lot id has a row; \<open>ledger_cash\<close> is the cash of the portfolio row, if there is one.\<close>

definition record_fill ::
    "(nat \<Rightarrow> string) \<Rightarrow> string \<Rightarrow> datetime \<Rightarrow> (string \<Rightarrow> bool) \<Rightarrow> float64 option \<Rightarrow> ledger_service \<Rightarrow> pyval \<Rightarrow> string \<Rightarrow>
     pyval \<Rightarrow> pyval \<Rightarrow> datetime option \<Rightarrow> tax_lot_method option \<Rightarrow> ledger_service \<times> db_action list \<times> fill_allocation res" where
  "record_fill hex tx now stored ledger_cash svc symv sd qv pxv ts mo =
     (let fill_time = (case ts of Some t \<Rightarrow> t | None \<Rightarrow> now);
          (eng, r) = allocate_fill hex now (svc_engine svc) symv sd qv pxv (Some fill_time) mo;
          svc' = svc\<lparr>svc_engine := eng\<rparr>
      in case bindR r (\<lambda>al.
                bindR (check_str BadLedgerInput symv) (\<lambda>s.
                bindR (check_positive qv) (\<lambda>q.
                bindR (check_positive pxv) (\<lambda>px.
                bindR (fill_side sd) (\<lambda>buy. Inr (al, s, q * px, buy)))))) of
           Inl e \<Rightarrow> (svc', [], Inl e)
         | Inr (al, s, gross_notional, buy) \<Rightarrow>
             let writes = lot_writes (svc_portfolio_id svc) stored al;
                 journal = fill_journal tx (svc_portfolio_id svc) fill_time s al
             in if \<not> journal_balanced journal then (svc', writes, Inl (Ldg LedgerUnbalanced))
                else
                  let cash_delta = (if buy then - gross_notional else gross_notional);
                      cash_write = (case ledger_cash of
                          None \<Rightarrow> []
                        | Some c \<Rightarrow> let c' = py_round 4 (c + cash_delta) in [SetCash c' (py_max 0 (- c'))])
                  in (svc', writes @ [AddEntries journal] @ cash_write @ [Commit], Inr al))"

section \<open>End of day\<close>

definition positions_of :: "tax_engine \<Rightarrow> (string \<times> float64) list" where
  "positions_of eng = map (\<lambda>(s, _). (s, get_position eng s)) (engine_lots eng)"

definition eod_step ::
    "tax_engine \<Rightarrow> (string \<times> float64) list \<Rightarrow> float64 \<times> float64 \<Rightarrow> string \<times> float64 \<Rightarrow> (float64 \<times> float64) res" where
  "eod_step eng prices acc e =
     (case (acc, e) of ((gross, unrealized), (s, pos)) \<Rightarrow>
        if \<bar>pos\<bar> > lot_eps
        then let price = dict_get_default prices s 0
             in bindR (get_unrealized_pnl eng s price) (\<lambda>u. Inr (gross + \<bar>pos\<bar> * price, unrealized + u))
        else Inr (gross, unrealized))"

text \<open>\<open>gains\<close> are the realized gains stored for the portfolio.\<close>

definition accrue_daily_eod ::
    "(nat \<Rightarrow> string) \<Rightarrow> datetime \<Rightarrow> float64 option \<Rightarrow> float64 list \<Rightarrow> ledger_service \<Rightarrow> string \<Rightarrow> (string \<times> float64) list \<Rightarrow> pyval \<Rightarrow>
     db_action list \<times> daily_accrual res" where
  "accrue_daily_eod uid now ledger_cash gains svc date prices daysv =
     (case ledger_cash of
        None \<Rightarrow> ([], Inl (Ldg LedgerPortfolioNotFound))
      | Some c \<Rightarrow>
          let eng = svc_engine svc; positions = positions_of eng
          in case accrue_daily_financing uid now (svc_financing svc) (svc_portfolio_id svc) (PFloat c)
                    (map (\<lambda>(s, x). (s, PFloat x)) positions) (map (\<lambda>(s, x). (s, PFloat x)) prices) date daysv of
               Inl e \<Rightarrow> ([], Inl e)
             | Inr acc \<Rightarrow>
                 (case foldR (eod_step eng prices) (0, 0) positions of
                    Inl e \<Rightarrow> ([AddEntries (accrual_entries acc)], Inl e)
                  | Inr (gross_notional, unrealized_pnl) \<Rightarrow>
                      let holdings_val = py_sum (map (\<lambda>(s, x). x * dict_get_default prices s 0) positions);
                          nav = cash_balance_after acc + holdings_val;
                          snap = \<lparr>snap_date = date, snap_nav = py_round 4 nav, snap_cash = py_round 4 (cash_balance_after acc),
                                  snap_gross_notional = py_round 4 gross_notional, snap_realized = py_round 4 (py_sum gains),
                                  snap_unrealized = py_round 4 unrealized_pnl, snap_margin_interest = margin_interest_accrued acc,
                                  snap_borrow_fees = borrow_fees_accrued acc\<rparr>
                      in ([AddEntries (accrual_entries acc), AddSnapshot snap,
                           SetCash (cash_balance_after acc) (margin_debit_balance acc), SetEquity (py_round 4 nav), Commit], Inr acc)))"

section \<open>Rehydration\<close>

text \<open>The query of the lot rows. \<open>tbl\<close> are the committed rows; \<open>rd\<close> is what the database does to a timestamp between writing and
  reading it (a parameter: SQLite has no timezone and returns a naive value, PostgreSQL returns the same instant). The rows of the
  portfolio that are not closed are returned in ascending order of the timestamp; the order of equal timestamps is not
  determined, so the query is a relation between the table and the rows.\<close>

definition read_row :: "(datetime \<Rightarrow> datetime) \<Rightarrow> lot_row \<Rightarrow> lot_row" where
  "read_row rd r = r\<lparr>row_open_timestamp := rd (row_open_timestamp r)\<rparr>"

definition rehydration_query :: "(datetime \<Rightarrow> datetime) \<Rightarrow> string \<Rightarrow> lot_row list \<Rightarrow> lot_row list \<Rightarrow> bool" where
  "rehydration_query rd pid tbl rows \<longleftrightarrow>
     mset rows = mset (map (read_row rd)
       (filter (\<lambda>r. row_portfolio_id r = pid \<and> row_status r \<in> {''OPEN'', ''PARTIAL''}) tbl)) \<and>
     sorted (map (\<lambda>r. dt_us (row_open_timestamp r)) rows)"

definition lot_of_row :: "string \<Rightarrow> lot_row \<Rightarrow> tax_lot" where
  "lot_of_row pid r =
     \<lparr>lot_id = row_id r, lot_portfolio_id = pid, lot_symbol = row_symbol r,
      lot_side = (if row_side r = ''LONG'' then LONG else SHORT), open_timestamp = row_open_timestamp r,
      original_quantity = row_original r, remaining_quantity = row_remaining r, cost_basis_per_share = row_cost_basis r,
      lot_status = (if row_status r = ''OPEN'' then OPEN else PARTIAL)\<rparr>"

text \<open>The loop over the lot rows; the lots loaded before an invalid row stay loaded.\<close>

fun load_lots :: "string \<Rightarrow> tax_engine \<Rightarrow> lot_row list \<Rightarrow> tax_engine \<times> unit res" where
  "load_lots pid eng [] = (eng, Inr ())"
| "load_lots pid eng (r # rs) =
     (let eng0 = with_symbol eng (row_symbol r)
      in case tax_lot_new (lot_of_row pid r) of
           Inl e \<Rightarrow> (eng0, Inl e)
         | Inr l \<Rightarrow>
             load_lots pid (set_lots eng0 (row_symbol r) (dict_get_default (engine_lots eng0) (row_symbol r) [] @ [l])) rs)"

definition fill_prices :: "tax_engine \<Rightarrow> (string \<times> float64) list \<Rightarrow> (string \<times> float64) list" where
  "fill_prices eng prices =
     foldl (\<lambda>ps (s, ls). if \<not> dict_has ps s \<and> ls \<noteq> [] then dict_set ps s (cost_basis_per_share (last ls)) else ps)
       prices (engine_lots eng)"

definition initialize_or_rehydrate ::
    "float64 option \<Rightarrow> lot_row list \<Rightarrow> ledger_service \<Rightarrow> (string \<times> float64) list \<Rightarrow>
     ledger_service \<times> db_action list \<times> risk_state res" where
  "initialize_or_rehydrate ledger_cash rows svc cur_prices =
     (let (setup, c) = (case ledger_cash of
            Some c \<Rightarrow> ([], c)
          | None \<Rightarrow> ([AddPortfolio (Fin 100000) 0 (Fin 100000), Commit], Fin 100000));
          (eng, r) = load_lots (svc_portfolio_id svc) ((svc_engine svc)\<lparr>engine_lots := []\<rparr>) rows;
          svc' = svc\<lparr>svc_engine := eng\<rparr>
      in case r of
           Inl e \<Rightarrow> (svc', setup, Inl (Ldg RehydrationError))
         | Inr _ \<Rightarrow>
             let positions = filter (\<lambda>(s, x). \<bar>x\<bar> > lot_eps) (positions_of eng);
                 prices = fill_prices eng cur_prices;
                 holdings_val = py_sum (map (\<lambda>(s, x). x * dict_get_default prices s 0) positions);
                 total_equity = c + holdings_val
             in (svc', setup @ [SetEquity total_equity, Commit],
                 case risk_state_new (PFloat c) (map (\<lambda>(s, x). (s, PFloat x)) positions) []
                        (map (\<lambda>(s, x). (s, PFloat x)) prices) (py_max total_equity (Fin 1000)) (py_max total_equity (Fin 1000)) of
                   Inl e \<Rightarrow> Inl (Ldg RehydrationError)
                 | Inr st \<Rightarrow> Inr st))"

section \<open>Recording: commits and opening fills\<close>

lemma tax_lot_steps_not_ledger:
  "finish_fill g s a b d p \<noteq> (g', Inl (Ldg x))" "new_lot g h s sd t q px \<noteq> Inl (Ldg x)"
  "match_lots c is ms \<noteq> (ms', Inl (Ldg x))" "sort_lots k ls \<noteq> Inl (Ldg x)" "check_positive v \<noteq> Inl (Ldg x)"
proof -
  have v: "verify_inventory_conservation g s \<noteq> Inl (Ldg x)"
    by (auto simp: verify_inventory_conservation_def Let_def split: list.splits)
  show "finish_fill g s a b d p \<noteq> (g', Inl (Ldg x))" using v by (auto simp: finish_fill_def bindR_Inl_iff)
  show "new_lot g h s sd t q px \<noteq> Inl (Ldg x)" by (auto simp: new_lot_def tax_lot_new_def)
  show "match_lots c is ms \<noteq> (ms', Inl (Ldg x))"
    by (induction "is" arbitrary: ms) (auto simp: seconds_between_def split: sum.splits)
  show "sort_lots k ls \<noteq> Inl (Ldg x)" by (auto simp: sort_lots_def Let_def)
  show "check_positive v \<noteq> Inl (Ldg x)" by (cases v) auto
qed

lemma fill_branches_not_ledger:
  "open_fill hex g s buy q px t \<noteq> (g', Inl (Ldg x))" "close_fill hex g s buy q px t k \<noteq> (g', Inl (Ldg x))"
proof -
  show "open_fill hex g s buy q px t \<noteq> (g', Inl (Ldg x))"
    using tax_lot_steps_not_ledger(1,2) by (auto simp: open_fill_def split: sum.splits)
  show "close_fill hex g s buy q px t k \<noteq> (g', Inl (Ldg x))"
    using tax_lot_steps_not_ledger(1-4) unfolding close_fill_def Let_def by (auto split: sum.splits prod.splits if_splits)
qed

lemma allocate_fill_not_ledger: "allocate_fill hex now eng symv sd qv pxv ts mo \<noteq> (eng', Inl (Ldg x))"
  using tax_lot_steps_not_ledger(5) fill_branches_not_ledger unfolding allocate_fill_def Let_def
  by (auto simp: bindR_Inl_iff check_str_def fill_side_def Let_def split: sum.splits prod.splits option.splits if_splits)

lemma record_fill_cases:
  obtains (failed) eng e where "record_fill hex tx now stored lc svc symv sd qv pxv ts mo = (svc\<lparr>svc_engine := eng\<rparr>, [], Inl e)"
      "e \<noteq> Ldg LedgerUnbalanced"
      "allocate_fill hex now (svc_engine svc) symv sd qv pxv (Some (case ts of Some t \<Rightarrow> t | None \<Rightarrow> now)) mo = (eng, Inl e)"
  | (allocated) eng al s q px buy where
      "allocate_fill hex now (svc_engine svc) symv sd qv pxv (Some (case ts of Some t \<Rightarrow> t | None \<Rightarrow> now)) mo = (eng, Inr al)"
      "check_str BadLedgerInput symv = Inr s" "check_positive qv = Inr q" "check_positive pxv = Inr px" "fill_side sd = Inr buy"
      "record_fill hex tx now stored lc svc symv sd qv pxv ts mo =
        (let writes = lot_writes (svc_portfolio_id svc) stored al; t = (case ts of Some t \<Rightarrow> t | None \<Rightarrow> now);
             journal = fill_journal tx (svc_portfolio_id svc) t s al
         in if \<not> journal_balanced journal then (svc\<lparr>svc_engine := eng\<rparr>, writes, Inl (Ldg LedgerUnbalanced))
            else (svc\<lparr>svc_engine := eng\<rparr>, writes @ [AddEntries journal] @
              (case lc of None \<Rightarrow> []
               | Some c \<Rightarrow> let c' = py_round 4 (c + (if buy then - (q * px) else q * px)) in [SetCash c' (py_max 0 (- c'))]) @ [Commit], Inr al))"
proof -
  let ?ft = "case ts of Some t \<Rightarrow> t | None \<Rightarrow> now"
  obtain eng r where a: "allocate_fill hex now (svc_engine svc) symv sd qv pxv (Some ?ft) mo = (eng, r)" by fastforce
  show thesis
  proof (cases r)
    case (Inl e)
    have "e \<noteq> Ldg LedgerUnbalanced" using a Inl allocate_fill_not_ledger by metis
    then show thesis using a Inl by (intro failed [of eng e]) (simp_all add: record_fill_def)
  next
    case (Inr al)
    then obtain s q px buy where c: "check_str BadLedgerInput symv = Inr s" "check_positive qv = Inr q" "check_positive pxv = Inr px"
      "fill_side sd = Inr buy"
      using a by (cases rule: allocate_fill_cases [of hex now "svc_engine svc" symv sd qv pxv "Some ?ft" mo]) auto
    show thesis
      by (rule allocated [of eng al s q px buy]) (use a Inr c in \<open>simp_all add: record_fill_def Let_def\<close>)
  qed
qed

end
