(* ===== verification/Ledger_Service_Props.thy ===== *)
theory Ledger_Service_Props
  imports Ledger_Service
begin

text \<open>
  Properties of the ledger service: when a fill is committed, double-entry balance of its journal, exact books for
  whole shares at whole prices, restart without divergence, and the divergence an exception leaves behind.
\<close>

section \<open>Commit discipline\<close>

text \<open>C32: A fill is committed exactly when it is recorded without an exception, the commit is the last write, the journal
  written with it passed the balance check (INV-LDG-001), and the margin debt written is the negative part of the cash.\<close>

theorem ledger_commit_discipline:
  assumes "record_fill hex tx now stored lc svc symv sd qv pxv ts mo = (svc', acts, r)"
  shows "(Commit \<in> set acts \<longleftrightarrow> (\<exists>al. r = Inr al)) \<and>
         (\<forall>al. r = Inr al \<longrightarrow> last acts = Commit \<and> (\<exists>es. AddEntries es \<in> set acts \<and> journal_balanced es)) \<and>
         (\<forall>c m. SetCash c m \<in> set acts \<longrightarrow> m = py_max 0 (- c))"
proof -
  have w: "Commit \<notin> set (lot_writes pid stored al)" "SetCash c m \<notin> set (lot_writes pid stored al)" for pid al c m
    by (auto simp: lot_writes_def)
  show ?thesis
  proof (cases rule: record_fill_cases [of hex tx now stored lc svc symv sd qv pxv ts mo])
    case (failed eng e)
    then show ?thesis using assms by auto
  next
    case (allocated eng al s q px buy)
    then show ?thesis using assms w by (auto simp: Let_def split: if_splits option.splits)
  qed
qed

lemma allocate_new_lots:
  assumes "allocate_fill hex now eng symv sd qv pxv ts mo = (eng', Inr al)"
  shows "new_open_lots al = [] \<or> (\<exists>l g h s d t q px. new_open_lots al = [l] \<and> new_lot g h s d t q px = Inr l)"
proof (cases rule: allocate_fill_cases [of hex now eng symv sd qv pxv ts mo])
  case (reject e)
  then show ?thesis using assms by simp
next
  case (accept s q px buy t m)
  have o: "\<exists>l g h s d t q px. new_open_lots al = [l] \<and> new_lot g h s d t q px = Inr l"
    if "open_fill hex g s buy q px t = (eng', Inr al)" for g
    using that by (auto simp: open_fill_def finish_fill_def bindR_Inr_iff split: if_splits sum.splits) blast+
  have "new_open_lots al = [] \<or> (\<exists>l g h s d t q px. new_open_lots al = [l] \<and> new_lot g h s d t q px = Inr l)"
    if "close_fill hex g s buy q px t m = (eng', Inr al)" for g
    using that unfolding close_fill_def Let_def finish_fill_def
    by (auto simp: bindR_Inr_iff split: if_splits sum.splits prod.splits)
  then show ?thesis using accept(6) assms o by (auto split: if_splits)
qed

lemma pos_finite_product: "pos_finite x \<Longrightarrow> pos_finite y \<Longrightarrow> py_round 4 (x * y) \<noteq> NaN"
proof -
  assume "pos_finite x" "pos_finite y"
  then obtain a b where "x * y = rnd64 (a * b)" by (auto simp: pos_finite_def)
  then show ?thesis by (cases "x * y") (auto dest: sym)
qed

lemma journal_balanced_same: "amounts DEBIT es = amounts CREDIT es \<Longrightarrow> py_sum (amounts CREDIT es) \<noteq> NaN \<Longrightarrow> journal_balanced es"
  by (cases "py_sum (amounts CREDIT es)") (auto simp: journal_balanced_def intro: isclose_refl)

lemma opening_journal_balanced:
  assumes "allocate_fill hex now eng symv sd qv pxv ts mo = (eng', Inr al)" and "allocated_trades al = []"
  shows "journal_balanced (fill_journal tx pid t s al)"
  using allocate_new_lots [OF assms(1)]
proof
  assume "new_open_lots al = []"
  then show ?thesis using assms(2) by (simp add: fill_journal_def journal_balanced_def amounts_def isclose_refl)
next
  assume "\<exists>l g h s d t q px. new_open_lots al = [l] \<and> new_lot g h s d t q px = Inr l"
  then obtain l where l: "new_open_lots al = [l]" "pos_finite (original_quantity l)" "pos_finite (cost_basis_per_share l)"
    using new_lot_Inr by metis
  define n where "n = py_round 4 (original_quantity l * cost_basis_per_share l)"
  have "n \<noteq> NaN" unfolding n_def using l(2,3) by (rule pos_finite_product)
  then have "py_sum [n] \<noteq> NaN" by (cases n) simp_all
  then show ?thesis using l(1) assms(2)
    by (intro journal_balanced_same; cases "lot_side l")
      (simp_all add: fill_journal_def lot_entries_def entry_def amounts_def n_def [symmetric] Let_def)
qed

text \<open>The balance check can only stop a fill that closes lots: a fill that opens a position, or adds to one, always
  passes it and is committed, with the allocation the engine made as its result.\<close>

theorem ledger_opening_fill_commits:
  assumes "allocate_fill hex now (svc_engine svc) symv sd qv pxv (Some (case ts of Some t \<Rightarrow> t | None \<Rightarrow> now)) mo = (eng, Inr al)"
    and "allocated_trades al = []"
  shows "\<exists>acts. record_fill hex tx now stored lc svc symv sd qv pxv ts mo = (svc\<lparr>svc_engine := eng\<rparr>, acts @ [Commit], Inr al)"
  using opening_journal_balanced [OF assms] assms(1)
  by (cases rule: record_fill_cases [of hex tx now stored lc svc symv sd qv pxv ts mo]) (auto simp: Let_def)

definition sample_service :: ledger_service where
  "sample_service = \<lparr>svc_portfolio_id = ''p'', svc_engine = tax_engine_new ''p'' FIFO True, svc_financing = default_financing_config\<rparr>"

lemma sample_buy:
  "\<exists>eng al. allocate_fill (\<lambda>_. ''0'') (day 2) (svc_engine sample_service) (PStr ''AAPL'') ''BUY'' (PInt 18) (PInt 90) (Some (Aware 5)) None
     = (eng, Inr al) \<and> allocated_trades al = [] \<and> length (lots_of eng ''AAPL'') = 1"
  by (simp add: sample_service_def tax_engine_new_def allocate_fill_def check_str_def fill_side_def str_strip_def is_space_def
      str_upper_def char_upper_def Let_def int_overflows_def float_of_int_def with_symbol_def is_increasing_def get_position_def
      get_open_lots_def open_fill_def new_lot_def tax_lot_new_def set_lots_def finish_fill_def verify_inventory_conservation_def isclose_refl)

theorem ledger_opening_fill_commits_witness:
  "\<exists>svc acts al. record_fill (\<lambda>_. ''0'') ''tx'' (day 2) (\<lambda>_. False) (Some (Fin 1000)) sample_service (PStr ''AAPL'') ''BUY'' (PInt 18) (PInt 90)
      (Some (Aware 5)) None = (svc, acts @ [Commit], Inr al)"
proof -
  obtain eng al where a: "allocate_fill (\<lambda>_. ''0'') (day 2) (svc_engine sample_service) (PStr ''AAPL'') ''BUY'' (PInt 18) (PInt 90)
     (Some (case Some (Aware 5) of Some t \<Rightarrow> t | None \<Rightarrow> day 2)) None = (eng, Inr al)" "allocated_trades al = []"
    using sample_buy by auto
  show ?thesis using ledger_opening_fill_commits [OF a] by blast
qed

lemma sample_recorded:
  "\<exists>svc acts al. record_fill (\<lambda>_. ''0'') ''tx'' (day 2) (\<lambda>_. False) (Some (Fin 1000)) sample_service (PStr ''AAPL'') ''BUY'' (PInt 18) (PInt 90)
      (Some (Aware 5)) None = (svc, acts, Inr al)"
proof (cases rule: record_fill_cases [of "\<lambda>_. ''0''" "''tx''" "day 2" "\<lambda>_. False" "Some (Fin 1000)" sample_service "PStr ''AAPL''" "''BUY''" "PInt 18"
      "PInt 90" "Some (Aware 5)" None])
  case (failed eng e)
  then show ?thesis using sample_buy by simp
next
  case (allocated eng al s q px buy)
  then have "allocated_trades al = []" using sample_buy by simp
  from opening_journal_balanced [OF allocated(1) this] show ?thesis using allocated(6) by (simp add: Let_def)
qed

theorem ledger_commit_discipline_witness:
  "\<exists>svc acts al. record_fill (\<lambda>_. ''0'') ''tx'' (day 2) (\<lambda>_. False) (Some (Fin 1000)) sample_service (PStr ''AAPL'') ''BUY'' (PInt 18) (PInt 90)
      (Some (Aware 5)) None = (svc, acts, Inr al) \<and> Commit \<in> set acts \<and> last acts = Commit"
proof -
  obtain svc acts al where "record_fill (\<lambda>_. ''0'') ''tx'' (day 2) (\<lambda>_. False) (Some (Fin 1000)) sample_service (PStr ''AAPL'') ''BUY'' (PInt 18)
      (PInt 90) (Some (Aware 5)) None = (svc, acts, Inr al)" using sample_recorded by blast
  from ledger_commit_discipline [OF this] this show ?thesis by blast
qed

section \<open>Restart\<close>

lemma lots_of_set: "lots_of (set_lots eng s ls) s' = (if s' = s then ls else lots_of eng s')"
  by (simp add: set_lots_def)

lemma with_symbol_lots_of: "lots_of (with_symbol eng s) s' = lots_of eng s'"
  by (cases "s' = s") (simp_all add: with_symbol_def lots_of_set split: option.splits, metis map_of_eq_None_iff option.distinct(1))

lemma load_lots_all:
  assumes "\<forall>r \<in> set rows. tax_lot_new (lot_of_row pid r) = Inr (lot_of_row pid r)"
  shows "\<exists>eng'. load_lots pid eng rows = (eng', Inr ()) \<and>
           (\<forall>s. lots_of eng' s = lots_of eng s @ map (lot_of_row pid) (filter (\<lambda>r. row_symbol r = s) rows))"
  using assms
proof (induction rows arbitrary: eng)
  case (Cons r rows)
  let ?eng = "set_lots (with_symbol eng (row_symbol r)) (row_symbol r) (lots_of (with_symbol eng (row_symbol r)) (row_symbol r) @ [lot_of_row pid r])"
  obtain eng' where e: "load_lots pid ?eng rows = (eng', Inr ())"
    "\<forall>s. lots_of eng' s = lots_of ?eng s @ map (lot_of_row pid) (filter (\<lambda>r. row_symbol r = s) rows)"
    using Cons.IH [of ?eng] Cons.prems by auto
  have "load_lots pid eng (r # rows) = (eng', Inr ())" using e(1) Cons.prems by (simp add: Let_def)
  moreover have "lots_of ?eng s = lots_of eng s @ (if row_symbol r = s then [lot_of_row pid r] else [])" for s
    unfolding lots_of_set with_symbol_lots_of by simp
  ultimately show ?case using e(2) by simp
qed simp

subsection \<open>The lot table mirrors the engine\<close>

text \<open>What the writes of a committed call do to the lot table.\<close>

fun apply_write :: "lot_row list \<Rightarrow> db_action \<Rightarrow> lot_row list" where
  "apply_write tbl (AddLot r) = tbl @ [r]"
| "apply_write tbl (UpdateLot i rem st) = map (\<lambda>r. if row_id r = i then r\<lparr>row_remaining := rem, row_status := st\<rparr> else r) tbl"
| "apply_write tbl _ = tbl"

text \<open>A service and its committed lot rows, reached from an empty ledger by calls that all returned. The ids of new lots are new,
  which the primary key enforces.\<close>

inductive recorded :: "string \<Rightarrow> ledger_service \<Rightarrow> lot_row list \<Rightarrow> bool" for pid where
  start: "svc_portfolio_id svc = pid \<Longrightarrow> engine_lots (svc_engine svc) = [] \<Longrightarrow> recorded pid svc []"
| fill: "recorded pid svc tbl \<Longrightarrow>
    record_fill hex tx now (\<lambda>i. i \<in> row_id ` set tbl) lc svc symv sd qv pxv ts mo = (svc', acts, Inr al) \<Longrightarrow>
    \<forall>l \<in> set (new_open_lots al). lot_id l \<notin> row_id ` set tbl \<Longrightarrow>
    pyval_double qv \<Longrightarrow> lots_bound (2 ^ 17) (svc_engine svc) \<Longrightarrow>
    recorded pid svc' (foldl apply_write tbl acts)"

definition mirrors :: "string \<Rightarrow> tax_engine \<Rightarrow> lot_row list \<Rightarrow> bool" where
  "mirrors pid eng tbl \<longleftrightarrow> distinct (map row_id tbl) \<and> (\<forall>s. filter (\<lambda>r. row_symbol r = s) tbl = map (row_of pid) (lots_of eng s))"

definition write_lot :: "lot_row list \<Rightarrow> tax_lot \<Rightarrow> lot_row list" where
  "write_lot tbl l = apply_write tbl (UpdateLot (lot_id l) (remaining_quantity l) (lot_status_value (lot_status l)))"

lemma row_of_simps [simp]: "row_id (row_of pid l) = lot_id l" "row_symbol (row_of pid l) = lot_symbol l"
  "row_portfolio_id (row_of pid l) = pid" "row_status (row_of pid l) = lot_status_value (lot_status l)"
  by (simp_all add: row_of_def)

lemma write_lot_frame [simp]: "map row_id (write_lot tbl l) = map row_id tbl"
  "filter (\<lambda>r. row_symbol r = s) (write_lot tbl l) = write_lot (filter (\<lambda>r. row_symbol r = s) tbl) l"
proof -
  show "map row_id (write_lot tbl l) = map row_id tbl" by (simp add: write_lot_def)
  show "filter (\<lambda>r. row_symbol r = s) (write_lot tbl l) = write_lot (filter (\<lambda>r. row_symbol r = s) tbl) l"
    by (induction tbl) (auto simp: write_lot_def)
qed

lemma write_lots_frame: "map row_id (foldl write_lot tbl ds) = map row_id tbl"
  "filter (\<lambda>r. row_symbol r = s) (foldl write_lot tbl ds) = foldl write_lot (filter (\<lambda>r. row_symbol r = s) tbl) ds"
  by (induction ds arbitrary: tbl) simp_all

lemma write_lots_other: "lot_id ` set ds \<inter> row_id ` set tbl = {} \<Longrightarrow> foldl write_lot tbl ds = tbl"
proof (induction ds)
  case (Cons d ds)
  have "lot_id d \<notin> row_id ` set tbl" using Cons.prems by auto
  then have "write_lot tbl d = tbl" by (force simp: write_lot_def intro!: map_idI)
  then show ?case using Cons by simp
qed simp

lemma write_lots_append: "foldl write_lot (xs @ ys) ds = foldl write_lot xs ds @ foldl write_lot ys ds"
  by (induction ds arbitrary: xs ys) (simp_all add: write_lot_def)

lemma write_reduced_lot:
  assumes "distinct (map lot_id ls)" and "i < length ls"
  shows "map (row_of pid) (ls[i := reduce_lot (ls ! i) q]) = write_lot (map (row_of pid) ls) (reduce_lot (ls ! i) q)"
proof (rule nth_equalityI)
  fix j assume "j < length (map (row_of pid) (ls[i := reduce_lot (ls ! i) q]))"
  then show "map (row_of pid) (ls[i := reduce_lot (ls ! i) q]) ! j = write_lot (map (row_of pid) ls) (reduce_lot (ls ! i) q) ! j"
    using assms nth_eq_iff_index_eq [OF assms(1), of i j] by (cases "j = i") (auto simp: write_lot_def reduce_lot_def row_of_def Let_def)
qed (simp add: write_lot_def)

lemma match_lots_rows:
  assumes "match_lots c is ms = (ms', r)" and "distinct (map lot_id (ms_lots ms))" and "\<forall>i \<in> set is. i < length (ms_lots ms)"
  shows "\<exists>ds. ms_depleted ms' = ms_depleted ms @ ds \<and> lot_id ` set ds \<subseteq> lot_id ` set (ms_lots ms) \<and>
           map (row_of pid) (ms_lots ms') = foldl write_lot (map (row_of pid) (ms_lots ms)) ds"
  using assms
proof (induction "is" arbitrary: ms)
  case (Cons i "is")
  show ?case
  proof (cases "ms_fill ms \<le> lot_eps \<or> (\<exists>e. seconds_between (ctx_time c) (open_timestamp (ms_lots ms ! i)) = Inl e)")
    case True
    then have "ms' = ms" using Cons.prems(1) by (auto split: if_splits)
    then show ?thesis by (intro exI [of _ "[]"]) simp
  next
    case False
    then obtain sec where run: "match_lots c is (match_lot c ms i sec) = (ms', r)"
      using Cons.prems(1) by (cases "seconds_between (ctx_time c) (open_timestamp (ms_lots ms ! i))") auto
    let ?q = "py_min (remaining_quantity (ms_lots ms ! i)) (ms_fill ms)"
    let ?l = "reduce_lot (ms_lots ms ! i) ?q"
    have i: "i < length (ms_lots ms)" using Cons.prems(3) by simp
    have ids: "map lot_id (ms_lots (match_lot c ms i sec)) = map lot_id (ms_lots ms)"
      using i by (simp add: map_update reduce_lot_fields list_update_same_conv)
    obtain ds where ds: "ms_depleted ms' = ms_depleted (match_lot c ms i sec) @ ds"
      "lot_id ` set ds \<subseteq> lot_id ` set (ms_lots (match_lot c ms i sec))"
      "map (row_of pid) (ms_lots ms') = foldl write_lot (map (row_of pid) (ms_lots (match_lot c ms i sec))) ds"
      using Cons.IH [OF run] ids Cons.prems(2,3) by auto
    have "lot_id ` set (ms_lots (match_lot c ms i sec)) = lot_id ` set (ms_lots ms)" using ids by (metis image_set)
    moreover have "lot_id ?l \<in> lot_id ` set (ms_lots ms)" using i by (simp add: reduce_lot_fields)
    moreover have "ms_depleted (match_lot c ms i sec) = ms_depleted ms @ [?l]" by (simp add: match_lot_def Let_def)
    ultimately show ?thesis
      using ds write_reduced_lot [OF Cons.prems(2) i, of pid ?q] by (intro exI [of _ "?l # ds"]) simp
  qed
qed simp

lemma new_lot_symbol: "new_lot eng h s d t q px = Inr l \<Longrightarrow> lot_symbol l = s"
  by (auto simp: new_lot_def tax_lot_new_def split: if_splits)

lemma finish_fill_Inr:
  "finish_fill eng s tr op dep pnl = (eng', Inr al) \<Longrightarrow> eng' = eng \<and> new_open_lots al = op \<and> depleted_lots al = dep"
  by (auto simp: finish_fill_def bindR_Inr_iff)

text \<open>What an allocation that returned did to the lots, in terms of the rows written for it.\<close>

definition rows_written :: "string \<Rightarrow> string \<Rightarrow> tax_engine \<Rightarrow> tax_engine \<Rightarrow> fill_allocation \<Rightarrow> bool" where
  "rows_written pid s eng eng' al \<longleftrightarrow>
     (\<forall>t. t \<noteq> s \<longrightarrow> lots_of eng' t = lots_of eng t) \<and>
     map (row_of pid) (lots_of eng' s) =
       foldl write_lot (map (row_of pid) (lots_of eng s)) (depleted_lots al) @ map (row_of pid) (new_open_lots al) \<and>
     lot_id ` set (depleted_lots al) \<subseteq> lot_id ` set (lots_of eng s) \<and>
     (\<forall>l \<in> set (new_open_lots al). lot_symbol l = s) \<and> length (new_open_lots al) \<le> 1"

lemma open_fill_rows:
  assumes "open_fill hex eng s buy q px t = (eng', Inr al)"
  shows "rows_written pid s eng eng' al"
proof -
  obtain l where l: "new_lot eng (hex 0) s (if buy then LONG else SHORT) t q px = Inr l"
    "finish_fill (set_lots eng s (lots_of eng s @ [l])) s [] [l] [] 0 = (eng', Inr al)"
    using assms by (auto simp: open_fill_def split: if_splits sum.splits)
  from finish_fill_Inr [OF l(2)] new_lot_symbol [OF l(1)] show ?thesis
    unfolding rows_written_def by (auto simp: lots_of_set)
qed

lemma close_fill_rows:
  assumes "close_fill hex eng s buy q px t m = (eng', Inr al)" and "distinct (map lot_id (lots_of eng s))"
  shows "rows_written pid s eng eng' al"
proof -
  let ?c = "\<lparr>ctx_hex = hex, ctx_portfolio_id = engine_portfolio_id eng, ctx_symbol = s, ctx_price = px, ctx_time = t\<rparr>"
  let ?ms0 = "\<lparr>ms_lots = lots_of eng s, ms_fill = q, ms_trades = [], ms_depleted = [], ms_pnl = 0\<rparr>"
  obtain "is" where srt: "sort_lots m (lots_of eng s) = Inr is" using assms(1) by (auto simp: close_fill_def Let_def split: sum.splits)
  obtain ms r where ms: "match_lots ?c is ?ms0 = (ms, r)" by (cases "match_lots ?c is ?ms0")
  have r: "r = Inr ()" using assms(1) srt ms by (cases r) (auto simp: close_fill_def Let_def)
  have "\<forall>i \<in> set is. i < length (ms_lots ?ms0)" using sort_lots_perm [OF srt] by auto
  from match_lots_rows [OF ms _ this, of pid] assms(2)
  have rows: "map (row_of pid) (ms_lots ms) = foldl write_lot (map (row_of pid) (lots_of eng s)) (ms_depleted ms)"
    "lot_id ` set (ms_depleted ms) \<subseteq> lot_id ` set (lots_of eng s)" by auto
  consider (flip) l h qq where "new_lot eng h s (if buy then LONG else SHORT) t qq px = Inr l"
      "finish_fill (set_lots eng s (ms_lots ms @ [l])) s (ms_trades ms) [l] (ms_depleted ms) (ms_pnl ms) = (eng', Inr al)"
    | (flat) "finish_fill (set_lots eng s (ms_lots ms)) s (ms_trades ms) [] (ms_depleted ms) (ms_pnl ms) = (eng', Inr al)"
    using assms(1) srt ms r by (auto simp: close_fill_def Let_def split: if_splits sum.splits)
  then show ?thesis
  proof cases
    case flip
    from finish_fill_Inr [OF flip(2)] new_lot_symbol [OF flip(1)] rows show ?thesis
      unfolding rows_written_def by (auto simp: lots_of_set)
  next
    case flat
    from finish_fill_Inr [OF flat] rows show ?thesis unfolding rows_written_def by (auto simp: lots_of_set)
  qed
qed

lemma allocate_fill_rows:
  assumes "allocate_fill hex now eng symv sd qv pxv ts mo = (eng', Inr al)" and "check_str BadLedgerInput symv = Inr s"
    and "distinct (map lot_id (lots_of eng s))"
  shows "rows_written pid s eng eng' al"
proof (cases rule: allocate_fill_cases [of hex now eng symv sd qv pxv ts mo])
  case (accept s' q px buy t m)
  then have s: "s' = s" using assms(2) by simp
  have "rows_written pid s (with_symbol eng s) eng' al"
    using accept(6) assms(1,3) open_fill_rows close_fill_rows [of hex "with_symbol eng s" s] with_symbol_lots_of
    by (auto simp: s split: if_splits)
  then show ?thesis by (simp add: rows_written_def with_symbol_lots_of)
qed (use assms(1) in simp)

lemma lot_writes_rows:
  assumes "mirrors pid eng tbl" and "rows_written pid s eng eng' al" and "\<forall>l \<in> set (new_open_lots al). lot_id l \<notin> row_id ` set tbl"
  shows "foldl apply_write tbl (lot_writes pid (\<lambda>i. i \<in> row_id ` set tbl) al) =
    foldl write_lot tbl (depleted_lots al) @ map (row_of pid) (new_open_lots al)"
proof -
  have sub: "lot_id ` set (lots_of eng s) \<subseteq> row_id ` set tbl"
  proof -
    have "set (map (row_of pid) (lots_of eng s)) \<subseteq> set tbl" using assms(1) unfolding mirrors_def by (metis filter_is_subset)
    then show ?thesis by force
  qed
  then have dep: "lot_id ` set (depleted_lots al) \<subseteq> row_id ` set tbl" using assms(2) unfolding rows_written_def by blast
  then have stored: "filter (\<lambda>l. lot_id l \<in> row_id ` set tbl) (depleted_lots al) = depleted_lots al" by (intro filter_True) blast
  have add: "foldl apply_write t (map (\<lambda>l. AddLot (row_of pid l)) ls) = t @ map (row_of pid) ls" for t ls
    by (induction ls arbitrary: t) simp_all
  have upd: "foldl apply_write t (map (\<lambda>l. UpdateLot (lot_id l) (remaining_quantity l) (lot_status_value (lot_status l))) ls) =
      foldl write_lot t ls" for t ls
    by (induction ls arbitrary: t) (simp_all add: write_lot_def)
  have trd: "foldl apply_write t (map AddTrade gs) = t" for t gs by (induction gs) simp_all
  have "lot_id ` set (depleted_lots al) \<inter> row_id ` set (map (row_of pid) (new_open_lots al)) = {}"
    using dep assms(3) by (fastforce simp: image_iff)
  then have "foldl write_lot (map (row_of pid) (new_open_lots al)) (depleted_lots al) = map (row_of pid) (new_open_lots al)"
    by (rule write_lots_other)
  then show ?thesis by (simp add: lot_writes_def stored add upd trd write_lots_append)
qed

lemma subset_disjoint: "A \<inter> B = {} \<Longrightarrow> A = C \<Longrightarrow> D \<subseteq> C \<Longrightarrow> D \<inter> B = {}"
  by blast

lemma mirrors_step:
  assumes "mirrors pid eng tbl" and "rows_written pid s eng eng' al" and "\<forall>l \<in> set (new_open_lots al). lot_id l \<notin> row_id ` set tbl"
  shows "mirrors pid eng' (foldl write_lot tbl (depleted_lots al) @ map (row_of pid) (new_open_lots al))"
proof -
  let ?ds = "depleted_lots al" and ?new = "new_open_lots al"
  note w = assms(2) [unfolded rows_written_def]
  have d: "distinct (map row_id tbl)" and m: "filter (\<lambda>r. row_symbol r = t) tbl = map (row_of pid) (lots_of eng t)" for t
    using assms(1) by (auto simp: mirrors_def)
  have "distinct (map lot_id ?new)" using w by (cases ?new) auto
  moreover have "set (map row_id (foldl write_lot tbl ?ds)) \<inter> set (map lot_id ?new) = {}"
    unfolding write_lots_frame using assms(3) by (fastforce simp: image_iff)
  ultimately have "distinct (map row_id (foldl write_lot tbl ?ds @ map (row_of pid) ?new))"
    using d by (simp only: map_append map_map comp_def row_of_simps distinct_append write_lots_frame)
  moreover have "filter (\<lambda>r. row_symbol r = t) (foldl write_lot tbl ?ds @ map (row_of pid) ?new) = map (row_of pid) (lots_of eng' t)" for t
  proof (cases "t = s")
    case True
    have "filter (\<lambda>r. row_symbol r = s) (map (row_of pid) ?new) = map (row_of pid) ?new" using w by (intro filter_True) auto
    then show ?thesis using w by (simp add: True write_lots_frame m)
  next
    case False
    have "filter (\<lambda>r. row_symbol r = t) (map (row_of pid) ?new) = []" using w False by (auto simp: filter_empty_conv)
    moreover have "lot_id ` set ?ds \<inter> row_id ` set (filter (\<lambda>r. row_symbol r = t) tbl) = {}"
    proof -
      have "row_id ` set (filter (\<lambda>r. row_symbol r = s) tbl) \<inter> row_id ` set (filter (\<lambda>r. row_symbol r = t) tbl) = {}"
        using d False by (auto simp: distinct_map inj_on_def)
      moreover have "row_id ` set (filter (\<lambda>r. row_symbol r = s) tbl) = lot_id ` set (lots_of eng s)"
        by (simp only: m set_map image_image row_of_simps)
      moreover have "lot_id ` set ?ds \<subseteq> lot_id ` set (lots_of eng s)" using w by blast
      ultimately show ?thesis by (rule subset_disjoint)
    qed
    moreover have "lots_of eng' t = lots_of eng t" using w False by blast
    ultimately show ?thesis by (simp only: filter_append write_lots_frame write_lots_other m append_Nil2)
  qed
  ultimately show ?thesis by (simp add: mirrors_def)
qed

lemma recorded_mirrors: "recorded pid svc tbl \<Longrightarrow> mirrors pid (svc_engine svc) tbl \<and> engine_inv (svc_engine svc) \<and> svc_portfolio_id svc = pid"
proof (induction rule: recorded.induct)
  case (start svc)
  then show ?case by (simp add: mirrors_def engine_inv_def)
next
  case (fill svc tbl hex tx now lc symv sd qv pxv ts mo svc' acts al)
  show ?case
  proof (cases rule: record_fill_cases [of hex tx now "\<lambda>i. i \<in> row_id ` set tbl" lc svc symv sd qv pxv ts mo])
    case (failed eng e)
    then show ?thesis using fill.hyps(2) by simp
  next
    case (allocated eng al' s q px buy)
    from allocated(6) fill.hyps(2) have al: "al' = al" "svc' = svc\<lparr>svc_engine := eng\<rparr>"
      and acts: "foldl apply_write tbl acts = foldl apply_write tbl (lot_writes (svc_portfolio_id svc) (\<lambda>i. i \<in> row_id ` set tbl) al)"
      by (auto simp: Let_def split: if_splits option.splits)
    have m: "mirrors pid (svc_engine svc) tbl" and i: "engine_inv (svc_engine svc)" and p: "svc_portfolio_id svc = pid" using fill.IH by auto
    have "distinct (map row_id (filter (\<lambda>r. row_symbol r = s) tbl))" using m by (intro distinct_map_filter) (simp add: mirrors_def)
    moreover have "filter (\<lambda>r. row_symbol r = s) tbl = map (row_of pid) (lots_of (svc_engine svc) s)" using m unfolding mirrors_def by blast
    ultimately have "distinct (map lot_id (lots_of (svc_engine svc) s))" by (simp only: map_map comp_def row_of_simps)
    note w = allocate_fill_rows [OF allocated(1,2) this, of pid, unfolded al]
    have "engine_inv eng" using allocate_fill_inv [OF i fill.hyps(4,5)] allocated(1) by (metis fst_conv)
    then show ?thesis using mirrors_step [OF m w fill.hyps(3)] lot_writes_rows [OF m w fill.hyps(3)] by (simp add: acts al p)
  qed
qed

subsection \<open>Reading the table back\<close>

text \<open>The lot that is loaded for a stored lot.\<close>

definition reloaded :: "(datetime \<Rightarrow> datetime) \<Rightarrow> string \<Rightarrow> tax_lot \<Rightarrow> tax_lot" where
  "reloaded rd pid l = l\<lparr>lot_portfolio_id := pid, open_timestamp := rd (open_timestamp l)\<rparr>"

abbreviation live_lots :: "tax_engine \<Rightarrow> string \<Rightarrow> tax_lot list" where
  "live_lots eng s \<equiv> filter (\<lambda>l. lot_status l \<noteq> CLOSED) (lots_of eng s)"

lemma lot_row_roundtrip: "lot_status l \<noteq> CLOSED \<Longrightarrow> lot_of_row pid (read_row rd (row_of pid l)) = reloaded rd pid l"
  by (cases "lot_side l"; cases "lot_status l") (simp_all add: lot_of_row_def row_of_def read_row_def reloaded_def)

lemma lot_ok_reloaded: "lot_ok l \<Longrightarrow> tax_lot_new (reloaded rd pid l) = Inr (reloaded rd pid l)"
  by (auto simp: lot_ok_def tax_lot_new_def pos_finite_def nonneg_finite_def reloaded_def)

lemma status_live: "lot_status_value st \<in> {''OPEN'', ''PARTIAL''} \<longleftrightarrow> st \<noteq> CLOSED"
  by (cases st) simp_all

lemma query_symbol:
  assumes "mirrors pid eng tbl" and "rehydration_query rd pid tbl rows"
  shows "mset (filter (\<lambda>r. row_symbol r = s) rows) = mset (map (\<lambda>l. read_row rd (row_of pid l)) (live_lots eng s))"
proof -
  let ?act = "\<lambda>r. row_portfolio_id r = pid \<and> row_status r \<in> {''OPEN'', ''PARTIAL''}"
  have "mset (filter (\<lambda>r. row_symbol r = s) rows) = mset (filter (\<lambda>r. row_symbol r = s) (map (read_row rd) (filter ?act tbl)))"
    using assms(2) by (simp only: rehydration_query_def mset_filter)
  also have "filter (\<lambda>r. row_symbol r = s) (map (read_row rd) (filter ?act tbl)) =
      map (read_row rd) (filter ?act (filter (\<lambda>r. row_symbol r = s) tbl))"
    by (simp add: filter_map comp_def read_row_def conj_ac)
  also have "\<dots> = map (\<lambda>l. read_row rd (row_of pid l)) (live_lots eng s)"
    using assms(1) by (simp add: mirrors_def filter_map comp_def status_live [simplified])
  finally show ?thesis .
qed

lemma rehydrated_lots:
  assumes "recorded pid svc tbl" and "rehydration_query rd pid tbl rows"
    and "initialize_or_rehydrate lc rows svc0 prices = (svc', acts, r)" and "svc_portfolio_id svc0 = pid"
  shows "lots_of (svc_engine svc') s = map (lot_of_row pid) (filter (\<lambda>r. row_symbol r = s) rows)"
    and "mset (lots_of (svc_engine svc') s) = mset (map (reloaded rd pid) (live_lots (svc_engine svc) s))"
proof -
  note inv = recorded_mirrors [OF assms(1)]
  have ok: "list_all lot_ok (lots_of (svc_engine svc) t)" for t using inv engine_lots_ok by (simp add: lots_ok_def)
  note q = query_symbol [OF conjunct1 [OF inv] assms(2)]
  have "tax_lot_new (lot_of_row pid x) = Inr (lot_of_row pid x)" if "x \<in> set rows" for x
  proof -
    have "x \<in># mset (filter (\<lambda>r. row_symbol r = row_symbol x) rows)" using that by simp
    then obtain l where "x = read_row rd (row_of pid l)" "lot_status l \<noteq> CLOSED" "lot_ok l"
      unfolding q using ok by (auto simp: list_all_iff)
    then show ?thesis using lot_row_roundtrip lot_ok_reloaded by simp
  qed
  then obtain eng' where e: "load_lots pid ((svc_engine svc0)\<lparr>engine_lots := []\<rparr>) rows = (eng', Inr ())"
    "\<forall>t. lots_of eng' t = map (lot_of_row pid) (filter (\<lambda>r. row_symbol r = t) rows)"
    using load_lots_all [of rows pid "(svc_engine svc0)\<lparr>engine_lots := []\<rparr>"] by auto
  have "svc_engine svc' = eng'"
    using assms(3,4) e(1) by (auto simp: initialize_or_rehydrate_def Let_def split: option.splits)
  then show l: "lots_of (svc_engine svc') s = map (lot_of_row pid) (filter (\<lambda>r. row_symbol r = s) rows)" using e(2) by blast
  have "mset (lots_of (svc_engine svc') s) = image_mset (lot_of_row pid) (mset (filter (\<lambda>r. row_symbol r = s) rows))"
    unfolding l by simp
  also have "\<dots> = mset (map (reloaded rd pid) (live_lots (svc_engine svc) s))"
  proof -
    have "map (\<lambda>l. lot_of_row pid (read_row rd (row_of pid l))) (live_lots (svc_engine svc) s) =
        map (reloaded rd pid) (live_lots (svc_engine svc) s)" by (rule map_cong) (simp_all add: lot_row_roundtrip)
    then show ?thesis unfolding q by (simp only: mset_map [symmetric] map_map comp_def)
  qed
  finally show "mset (lots_of (svc_engine svc') s) = mset (map (reloaded rd pid) (live_lots (svc_engine svc) s))" .
qed

text \<open>C33: Restart without divergence. Take a ledger that was built by any sequence of recorded fills that all returned, and the rows
  they committed. When a service of the same portfolio rehydrates from what the database returns for its query (the rows that
  are not closed, by ascending open timestamp, each timestamp as the database reads it back), it loads for every symbol exactly the
  lots that are not closed, up to the timestamp conversion, in ascending order of the timestamps read. If the timestamps read are strictly
  ascending in the order the lots were opened, the open lots are the same list and the position is the same number.\<close>

theorem ledger_rehydrate_restores:
  assumes "recorded pid svc tbl" and "rehydration_query rd pid tbl rows"
    and "initialize_or_rehydrate lc rows svc0 prices = (svc', acts, r)" and "svc_portfolio_id svc0 = pid"
  shows "mset (lots_of (svc_engine svc') s) = mset (map (reloaded rd pid) (live_lots (svc_engine svc) s)) \<and>
    sorted (map (\<lambda>l. dt_us (open_timestamp l)) (lots_of (svc_engine svc') s)) \<and>
    (sorted_wrt (<) (map (\<lambda>l. dt_us (rd (open_timestamp l))) (live_lots (svc_engine svc) s)) \<longrightarrow>
      get_open_lots (svc_engine svc') (Some s) = map (reloaded rd pid) (get_open_lots (svc_engine svc) (Some s)) \<and>
      get_position (svc_engine svc') s = get_position (svc_engine svc) s)"
proof (intro conjI impI)
  note l = rehydrated_lots [OF assms, of s]
  let ?key = "\<lambda>l. dt_us (open_timestamp l)" and ?ls = "lots_of (svc_engine svc') s" and ?ks = "map (reloaded rd pid) (live_lots (svc_engine svc) s)"
  show "mset ?ls = mset ?ks" by (rule l(2))
  have "sorted (map (\<lambda>r. dt_us (row_open_timestamp r)) (filter (\<lambda>r. row_symbol r = s) rows))"
    using assms(2) by (intro sorted_filter) (simp add: rehydration_query_def)
  then show srt: "sorted (map ?key ?ls)" unfolding l(1) by (simp add: comp_def lot_of_row_def)
  assume "sorted_wrt (<) (map (\<lambda>l. dt_us (rd (open_timestamp l))) (live_lots (svc_engine svc) s))"
  then have k: "sorted_wrt (<) (map ?key ?ks)" by (simp add: comp_def reloaded_def)
  then have "distinct (map ?key ?ks)" "sorted (map ?key ?ks)" by (simp_all only: strict_sorted_iff)
  then have "inj_on ?key (set ?ks)" "sort_key ?key ?ks = ?ks" by (simp_all only: distinct_map sort_key_id_if_sorted)
  then have eq: "?ls = ?ks" using sort_key_inj_key_eq [of ?ks ?ls ?key] l(2) srt by simp
  have ok: "list_all lot_ok (lots_of (svc_engine svc) s)" using recorded_mirrors [OF assms(1)] engine_lots_ok by (simp add: lots_ok_def)
  then have "filter lot_open (map (reloaded rd pid) (filter (\<lambda>l. lot_status l \<noteq> CLOSED) ls)) = map (reloaded rd pid) (filter lot_open ls)"
    if "list_all lot_ok ls" for ls
    using that by (induction ls) (auto simp: lot_open_def lot_ok_def reloaded_def)
  then show o: "get_open_lots (svc_engine svc') (Some s) = map (reloaded rd pid) (get_open_lots (svc_engine svc) (Some s))"
    using ok by (simp add: get_open_lots_def eq)
  show "get_position (svc_engine svc') s = get_position (svc_engine svc) s"
    unfolding get_position_def o by (cases "get_open_lots (svc_engine svc) (Some s)") (simp_all add: comp_def reloaded_def)
qed

lemma sample_recorded_once:
  "\<exists>svc tbl. recorded ''p'' svc tbl \<and> length (lots_of (svc_engine svc) ''AAPL'') = 1"
proof (cases rule: record_fill_cases [of "\<lambda>_. ''0''" "''tx''" "day 2" "\<lambda>i. i \<in> row_id ` set ([] :: lot_row list)" "Some (Fin 1000)" sample_service "PStr ''AAPL''" "''BUY''"
      "PInt 18" "PInt 90" "Some (Aware 5)" None])
  case (failed eng e)
  then show ?thesis using sample_buy by simp
next
  case (allocated eng al s q px buy)
  then have a: "allocated_trades al = []" "length (lots_of eng ''AAPL'') = 1" using sample_buy by simp_all
  obtain acts where r: "record_fill (\<lambda>_. ''0'') ''tx'' (day 2) (\<lambda>i. i \<in> row_id ` set ([] :: lot_row list)) (Some (Fin 1000)) sample_service (PStr ''AAPL'') ''BUY''
      (PInt 18) (PInt 90) (Some (Aware 5)) None = (sample_service\<lparr>svc_engine := eng\<rparr>, acts, Inr al)"
    using opening_journal_balanced [OF allocated(1) a(1)] allocated(6) by (simp add: Let_def)
  have "recorded ''p'' sample_service []" by (rule recorded.start) (simp_all add: sample_service_def tax_engine_new_def)
  from recorded.fill [OF this r] have "recorded ''p'' (sample_service\<lparr>svc_engine := eng\<rparr>) (foldl apply_write [] acts)"
    by (simp add: sample_service_def tax_engine_new_def lots_bound_def)
  with a(2) show ?thesis by (intro exI [of _ "sample_service\<lparr>svc_engine := eng\<rparr>"] exI [of _ "foldl apply_write [] acts"]) simp
qed

lemma query_returns: "\<exists>rows. rehydration_query rd pid tbl rows"
  unfolding rehydration_query_def by (rule exI [of _ "sort_key (\<lambda>r. dt_us (row_open_timestamp r)) (map (read_row rd)
       (filter (\<lambda>r. row_portfolio_id r = pid \<and> row_status r \<in> {''OPEN'', ''PARTIAL''}) tbl))"]) simp

theorem ledger_rehydrate_restores_witness:
  "\<exists>svc tbl rows svc' acts r. recorded ''p'' svc tbl \<and> length (lots_of (svc_engine svc) ''AAPL'') = 1 \<and>
     initialize_or_rehydrate (Some (Fin 1000)) rows sample_service [] = (svc', acts, r) \<and>
     get_position (svc_engine svc') ''AAPL'' = get_position (svc_engine svc) ''AAPL''"
proof -
  obtain svc tbl where s: "recorded ''p'' svc tbl" "length (lots_of (svc_engine svc) ''AAPL'') = 1" using sample_recorded_once by blast
  obtain rows where q: "rehydration_query (\<lambda>t. t) ''p'' tbl rows" using query_returns by blast
  obtain svc' acts r where i: "initialize_or_rehydrate (Some (Fin 1000)) rows sample_service [] = (svc', acts, r)" by (metis prod_cases3)
  have "svc_portfolio_id sample_service = ''p''" by (simp add: sample_service_def)
  note t = ledger_rehydrate_restores [OF s(1) q i this, of "''AAPL''"]
  obtain l where "lots_of (svc_engine svc) ''AAPL'' = [l]" using s(2) by (auto simp: length_Suc_conv)
  then have "sorted_wrt (<) (map (\<lambda>l. dt_us (open_timestamp l)) (live_lots (svc_engine svc) ''AAPL''))" by simp
  with t s i show ?thesis by blast
qed

text \<open>A database without timezones: every lot a restarted service loads has a naive timestamp, and the first fill that would close part of
  such a position at the default, timezone-aware time raises \<^verbatim>\<open>TypeError\<close>.\<close>

theorem naive_restart_blocks_closing:
  assumes "recorded pid svc tbl" and "rehydration_query rd pid tbl rows" and "\<forall>t. \<not> dt_aware (rd t)"
    and "initialize_or_rehydrate lc rows svc0 prices = (svc', acts, r)" and "svc_portfolio_id svc0 = pid"
    and "check_str BadLedgerInput symv = Inr s" "check_positive qv = Inr q" "check_positive pxv = Inr px" "fill_side sd = Inr buy"
    and "\<not> is_increasing buy (get_position (svc_engine svc') s)" and "\<not> q \<le> lot_eps"
  shows "\<exists>svc''. record_fill hex tx (Aware now) stored lc' svc' symv sd qv pxv None mo = (svc'', [], Inl (PyErr TypeError))"
proof -
  let ?eng = "svc_engine svc'" and ?m = "case mo of Some m \<Rightarrow> m | None \<Rightarrow> default_method (svc_engine svc')"
  let ?ls = "lots_of ?eng s"
  have naive: "\<not> dt_aware (open_timestamp l)" if "l \<in> set ?ls" for l
  proof -
    have "l \<in> set (map (reloaded rd pid) (live_lots (svc_engine svc) s))"
      using that mset_eq_setD [OF rehydrated_lots(2) [OF assms(1,2,4,5), of s]] by simp
    then show ?thesis using assms(3) by (auto simp: reloaded_def)
  qed
  have nth: "\<not> dt_aware (open_timestamp (?ls ! i))" if "i < length ?ls" for i using that by (intro naive nth_mem)
  have pos: "get_position (with_symbol ?eng s) s = get_position ?eng s" by (simp add: get_position_def get_open_lots_def)
  have "filter lot_open ?ls \<noteq> []"
    using assms(10) by (cases "filter lot_open ?ls") (auto simp: get_position_def get_open_lots_def is_increasing_def)
  then obtain l0 where "l0 \<in> set ?ls" "lot_open l0" by (auto simp: filter_empty_conv)
  then obtain j where j: "j < length ?ls" "lot_open (?ls ! j)" by (metis in_set_conv_nth)
  have "\<not> list_ex (\<lambda>i. dt_aware (open_timestamp (?ls ! i))) (active_lots ?ls)" using nth by (auto simp: list_ex_iff active_lots_set)
  then obtain "is" where srt: "sort_lots ?m ?ls = Inr is" by (simp add: sort_lots_def Let_def)
  then obtain i is' where i: "is = i # is'" "i < length ?ls" using sort_lots_perm [OF srt] j by (cases "is") auto
  have sb: "seconds_between (Aware now) (open_timestamp (?ls ! i)) = Inl (PyErr TypeError)"
    using nth [OF i(2)] by (simp add: seconds_between_def)
  have "\<exists>e. close_fill hex (with_symbol ?eng s) s buy q px (Aware now) ?m = (e, Inl (PyErr TypeError))"
    using assms(11) srt sb by (simp add: close_fill_def Let_def i(1))
  then obtain e where "allocate_fill hex (Aware now) ?eng symv sd qv pxv (Some (Aware now)) mo = (e, Inl (PyErr TypeError))"
    using assms(6-10) pos by (auto simp: allocate_fill_def Let_def)
  then show ?thesis by (simp add: record_fill_def)
qed

section \<open>Exact books\<close>

definition ival :: "float64 \<Rightarrow> int" where
  "ival x = (case x of Fin a \<Rightarrow> \<lfloor>a\<rfloor> | _ \<Rightarrow> 0)"

definition is_whole :: "float64 \<Rightarrow> bool" where
  "is_whole x \<longleftrightarrow> x = whole (ival x) \<and> 0 \<le> ival x"

lemma ival_whole: "ival (whole k) = k"
  by (simp add: ival_def)

lemma is_whole_whole: "is_whole (whole k) \<longleftrightarrow> 0 \<le> k"
  by (simp add: is_whole_def ival_def)

definition ledger_sum :: "entry_type \<Rightarrow> journal_entry list \<Rightarrow> int" where
  "ledger_sum ty es = sum_list (map ival (amounts ty es))"

definition cash_flow :: "journal_entry list \<Rightarrow> int" where
  "cash_flow es = sum_list (map (\<lambda>e. if account_name e = ''ASSET_CASH''
     then (if entry_type e = DEBIT then ival (amount e) else - ival (amount e)) else 0) es)"

text \<open>Entries in whole currency units whose debits and credits are both \<open>v\<close> and that move the cash account by \<open>d\<close>.\<close>

definition books :: "journal_entry list \<Rightarrow> int \<Rightarrow> int \<Rightarrow> bool" where
  "books es d v \<longleftrightarrow> list_all (\<lambda>e. is_whole (amount e)) es \<and> ledger_sum DEBIT es = v \<and> ledger_sum CREDIT es = v \<and> cash_flow es = d"

lemma books_Nil: "books [] 0 0"
  by (simp add: books_def ledger_sum_def cash_flow_def amounts_def)

lemma books_append: "books es d v \<Longrightarrow> books fs d' v' \<Longrightarrow> books (es @ fs) (d + d') (v + v')"
  by (auto simp: books_def ledger_sum_def cash_flow_def amounts_def)

lemma entry_fields [simp]:
  "amount (entry tx pid t a ty x) = x" "entry_type (entry tx pid t a ty x) = ty" "account_name (entry tx pid t a ty x) = a"
  by (simp_all add: entry_def)

lemma pip_whole: "whole g > pip \<longleftrightarrow> 1 \<le> g" "whole g < - pip \<longleftrightarrow> g \<le> - 1"
proof -
  obtain e where e: "pip = Fin e" "0 < e" "e \<le> 1" using flit_power_ten [of 4] by (auto simp: pip_def)
  have "pip \<le> Fin (1 / 2)" using rnd64_mono [of "1 / 10 ^ 4" "1 / 2"] rnd64_half by (simp add: pip_def)
  then have e1: "e < 1" by (simp add: e(1))
  have int: "(e < of_int j) = (1 \<le> j)" for j
  proof
    assume "e < of_int j"
    then have "(0::rat) < of_int j" using e(2) by linarith
    then show "1 \<le> j" by simp
  next
    assume "1 \<le> j"
    then have "(1::rat) \<le> of_int j" by simp
    then show "e < of_int j" using e1 by linarith
  qed
  show "whole g > pip \<longleftrightarrow> 1 \<le> g" unfolding e(1) using int [of g] by simp
  show "whole g < - pip \<longleftrightarrow> g \<le> - 1" unfolding e(1) using int [of "- g"] by auto
qed

lemma gain_entries_whole:
  "books (entry tx pid t a1 DEBIT (whole x) # entry tx pid t a2 CREDIT (whole y) # gain_entries tx pid t (whole (x - y)))
     (cash_flow [entry tx pid t a1 DEBIT (whole x), entry tx pid t a2 CREDIT (whole y)]) (max x y)"
  if "0 \<le> x" "0 \<le> y"
  using that pip_whole [of "x - y"]
  by (auto simp: gain_entries_def books_def ledger_sum_def cash_flow_def amounts_def is_whole_whole ival_whole)
     (auto simp: is_whole_def ival_def)

definition whole_trade :: "int \<Rightarrow> int \<Rightarrow> bool \<Rightarrow> realized_gain \<Rightarrow> bool" where
  "whole_trade p C buy tr \<longleftrightarrow> is_whole (gain_quantity tr) \<and> execution_price tr = whole p \<and> is_whole (cost_basis tr) \<and>
     ival (cost_basis tr) \<le> C * ival (gain_quantity tr) \<and> gain_side tr = (if buy then ''COVER'' else ''SELL'')"

lemma whole_mult: "\<bar>a * b\<bar> < 2 ^ 53 \<Longrightarrow> whole a * whole b = whole (a * b)"
  using rnd64_of_int [of "a * b"] by simp

lemma trade_entries_whole:
  assumes "whole_trade p C buy tr" and "0 \<le> p" "0 \<le> C" and "ival (gain_quantity tr) * (p + C) < 2 ^ 53"
  shows "\<exists>v. books (trade_entries tx pid t s tr) (if buy then - (ival (gain_quantity tr) * p) else ival (gain_quantity tr) * p) v \<and>
           0 \<le> v \<and> v \<le> ival (gain_quantity tr) * (p + C)"
proof -
  define m b where "m = ival (gain_quantity tr)" and "b = ival (cost_basis tr)"
  have q: "gain_quantity tr = whole m" "0 \<le> m" and c: "cost_basis tr = whole b" "0 \<le> b" "b \<le> C * m"
    using assms(1) by (auto simp: whole_trade_def is_whole_def m_def b_def)
  have mp: "0 \<le> m * p" "m * p + m * C < 2 ^ 53" "0 \<le> m * C" "b \<le> m * C"
    using q(2) assms(2-4) c(3) by (simp_all add: m_def [symmetric] distrib_left mult.commute)
  have P: "py_round 4 (gain_quantity tr * execution_price tr) = whole (m * p)"
    using q(1) assms(1) mp whole_mult [of m p] whole_round [of "m * p" 4] unfolding whole_trade_def
    by (metis (no_types, lifting) abs_of_nonneg add_increasing2 add_less_cancel_left le_less_trans less_add_same_cancel1 linorder_not_le)
  have B: "py_round 4 (cost_basis tr) = whole b" using c(1,2) mp whole_round [of b 4] by simp
  have d: "py_round 4 (whole x - whole y) = whole (x - y)" if "0 \<le> x" "x < 2 ^ 53" "0 \<le> y" "y < 2 ^ 53" for x y
    using that whole_diff [of x y] whole_round [of "x - y" 4] by simp
  have bd: "m * p < 2 ^ 53" "b < 2 ^ 53" using mp by linarith+
  have v: "0 \<le> max (m * p) b" "max (m * p) b \<le> m * (p + C)" "max b (m * p) \<le> m * (p + C)" using mp c(2) by (auto simp: distrib_left)
  have iv: "ival (whole (m * p)) = m * p" by (rule ival_whole)
  show ?thesis
  proof (cases buy)
    case True
    have "trade_entries tx pid t s tr = entry tx pid t (''LIABILITY_SHORT_'' @ s) DEBIT (whole b) #
        entry tx pid t ''ASSET_CASH'' CREDIT (whole (m * p)) # gain_entries tx pid t (whole (b - m * p))"
      using assms(1) True d [OF c(2) bd(2) mp(1) bd(1)] unfolding trade_entries_def P B Let_def by (simp add: whole_trade_def)
    then show ?thesis using gain_entries_whole [OF c(2) mp(1), of tx pid t "''LIABILITY_SHORT_'' @ s" "''ASSET_CASH''"] v True
      by (intro exI [of _ "max b (m * p)"]) (auto simp: cash_flow_def iv m_def [symmetric] simp del: of_int_mult)
  next
    case False
    have "trade_entries tx pid t s tr = entry tx pid t ''ASSET_CASH'' DEBIT (whole (m * p)) #
        entry tx pid t (''ASSET_INVENTORY_'' @ s) CREDIT (whole b) # gain_entries tx pid t (whole (m * p - b))"
      using assms(1) False d [OF mp(1) bd(1) c(2) bd(2)] unfolding trade_entries_def P B Let_def by (simp add: whole_trade_def)
    then show ?thesis using gain_entries_whole [OF mp(1) c(2), of tx pid t "''ASSET_CASH''" "''ASSET_INVENTORY_'' @ s"] v False
      by (intro exI [of _ "max (m * p) b"]) (auto simp: cash_flow_def iv m_def [symmetric] simp del: of_int_mult)
  qed
qed

end
