(* ===== verification/Gateway_Client.thy ===== *)
theory Gateway_Client
  imports Paper_Gateway_Props
begin

text \<open>
  The paper gateway as its clients (\<^verbatim>\<open>execution/sor.py\<close>, \<^verbatim>\<open>execution/kill_switch.py\<close>) use it: they construct an order object
  and submit it, or cancel by client order id.

  Lemmas: both calls keep the gateway invariant; a cancellation of an open order with an unpadded id succeeds, makes that
  order terminal and touches no other.
\<close>

section \<open>The paper gateway as the execution gateway\<close>

text \<open>An order object is allocated at an unused address before it is submitted.\<close>

definition fresh_ref :: "paper_gateway \<Rightarrow> nat" where
  "fresh_ref gw = Suc (foldr max (map snd (orders gw)) 0)"

definition paper_submit :: "env \<Rightarrow> paper_gateway \<Rightarrow> order \<Rightarrow> paper_gateway \<times> execution_report res" where
  "paper_submit ev gw od = (let ref = fresh_ref gw in submit_order ev (gw\<lparr>heap := (heap gw)(ref := od)\<rparr>) ref)"

definition paper_cancel :: "env \<Rightarrow> paper_gateway \<Rightarrow> string \<Rightarrow> paper_gateway \<times> execution_report res" where
  "paper_cancel ev gw cl = cancel_order ev gw (PStr cl)"

definition paper_open_ids :: "paper_gateway \<Rightarrow> string list" where
  "paper_open_ids gw = map (\<lambda>ref. cl_ord_id (heap gw ref)) (get_open_orders gw)"

section \<open>The invariant\<close>

lemma fresh_ref_new: "dict_get (orders gw) cl \<noteq> Some (fresh_ref gw)"
proof
  assume "dict_get (orders gw) cl = Some (fresh_ref gw)"
  then have "fresh_ref gw \<in> set (map snd (orders gw))" by (auto dest!: map_of_SomeD intro: rev_image_eqI)
  moreover have "x \<in> set xs \<Longrightarrow> x \<le> foldr max xs 0" for x and xs :: "nat list" by (induction xs) auto
  ultimately show False unfolding fresh_ref_def by fastforce
qed

lemma alloc_order_inv:
  assumes "gateway_inv gw" "order_inv od"
  shows "gateway_inv (gw\<lparr>heap := (heap gw)(fresh_ref gw := od)\<rparr>)"
proof -
  have reg: "registry_ok gw" using assms(1) by (simp add: gateway_inv_def)
  have n: "r \<noteq> fresh_ref gw" if "dict_get (orders gw) cl = Some r" for cl r using fresh_ref_new that by metis
  have "registry_ok (gw\<lparr>heap := (heap gw)(fresh_ref gw := od)\<rparr>)"
  proof (rule registry_okI; simp)
    fix cl r
    assume g: "dict_get (orders gw) cl = Some r"
    then show "(r = fresh_ref gw \<longrightarrow> cl_ord_id od = cl) \<and> (r \<noteq> fresh_ref gw \<longrightarrow> cl_ord_id (heap gw r) = cl)"
      using n [OF g] registry_own_id [OF reg g] by simp
    assume "is_active (if r = fresh_ref gw then od else heap gw r)"
    then show "dict_get (active_orders (router gw)) cl = Some r" using n [OF g] registry_live [OF reg g] by simp
  qed (rule registry_keys [OF reg], rule registry_active [OF reg], assumption)
  then show ?thesis using assms by (simp add: gateway_inv_def prices_ok_def)
qed

lemma paper_submit_inv: "gateway_inv gw \<Longrightarrow> order_inv od \<Longrightarrow> gateway_inv (fst (paper_submit ev gw od))"
  using gateway_exec_inv [OF alloc_order_inv, of gw od ev "Submit (fresh_ref gw)"] by (simp add: paper_submit_def Let_def)

lemma paper_cancel_inv: "gateway_inv gw \<Longrightarrow> gateway_inv (fst (paper_cancel ev gw cl))"
  using gateway_exec_inv [of gw ev "Cancel (PStr cl)"] by (simp add: paper_cancel_def)

section \<open>Cancellation\<close>

text \<open>The orders the gateway can cancel: acknowledged, within their quantity, and with an id that has no surrounding blanks
  (the gateway looks orders up by the stripped id).\<close>

definition cancellable :: "order \<Rightarrow> bool" where
  "cancellable od \<longleftrightarrow> state od \<noteq> PENDING_NEW \<and> mass_conserved od \<and> is_double (filled_quantity od) \<and>
     str_strip (cl_ord_id od) = cl_ord_id od"

definition paper_ready :: "paper_gateway \<Rightarrow> bool" where
  "paper_ready gw \<longleftrightarrow> gateway_inv gw \<and> is_connected gw \<and> (\<forall>ref \<in> set (get_open_orders gw). cancellable (heap gw ref))"

lemma open_order_registered:
  assumes "gateway_inv gw"
  shows "ref \<in> set (get_open_orders gw) \<longleftrightarrow> is_active (heap gw ref) \<and> dict_get (orders gw) (cl_ord_id (heap gw ref)) = Some ref"
proof -
  have reg: "registry_ok gw" using assms by (simp add: gateway_inv_def)
  have "ref \<in> snd ` set (orders gw) \<longleftrightarrow> (\<exists>cl. dict_get (orders gw) cl = Some ref)"
    using registry_keys [OF reg] by (force simp: map_of_eq_Some_iff)
  then show ?thesis using registry_own_id [OF reg] by (auto simp: get_open_orders_def)
qed

lemma cancel_report_accepted:
  assumes "order_inv od" "is_active od" "cancellable od" "rep_cl_ord_id r = cl_ord_id od" "cum_quantity r = filled_quantity od"
    "exec_type r = CANCELLED"
  shows "report_accepted od r"
proof -
  have f: "isfinite (filled_quantity od)" "is_double (filled_quantity od)"
    using assms(1,3) by (auto simp: order_inv_def nonneg_finite_def cancellable_def)
  have "0 \<le> qty_eps" using flit_power_ten [of 7] by (auto simp: qty_eps_def)
  then have "filled_quantity od - qty_eps \<le> filled_quantity od" by (rule float_diff_le_self [OF f(2,1)])
  then have "\<not> filled_quantity od < filled_quantity od - qty_eps" by (simp add: less_float64_def)
  moreover have "\<not> quantity od + qty_eps < filled_quantity od"
    using assms(3) by (simp add: cancellable_def mass_conserved_def less_float64_def)
  moreover have "can_transition (state od) CANCELLED" "\<not> is_terminal od"
    using assms(2,3) by (cases "state od"; simp add: is_active_def is_terminal_def cancellable_def can_transition_def)+
  ultimately show ?thesis using assms(4-6) by (simp add: report_accepted_def)
qed

lemma paper_cancel_open:
  assumes "paper_ready gw" "ref \<in> set (get_open_orders gw)" "\<forall>k. 0 \<le> now_at ev k"
  shows "\<exists>gw' rep. paper_cancel ev gw (cl_ord_id (heap gw ref)) = (gw', Inr rep) \<and> is_terminal (heap gw' ref) \<and>
    (\<forall>r. r \<noteq> ref \<longrightarrow> heap gw' r = heap gw r) \<and> orders gw' = orders gw \<and> is_connected gw'"
proof -
  let ?od = "heap gw ref" and ?k = "Suc (report_counter gw)"
  have inv: "gateway_inv gw" "is_connected gw" and c: "cancellable ?od" using assms(1,2) by (simp_all add: paper_ready_def)
  have act: "is_active ?od" "dict_get (orders gw) (cl_ord_id ?od) = Some ref" using assms(2) open_order_registered [OF inv(1)] by simp_all
  have oi: "order_inv ?od" using inv(1) by (simp add: gateway_inv_def)
  then have cl: "str_strip (cl_ord_id ?od) = cl_ord_id ?od" "cl_ord_id ?od \<noteq> []" using c by (simp_all add: cancellable_def order_inv_def)
  let ?gw1 = "gw\<lparr>report_counter := ?k\<rparr>"
  obtain r where mk: "make_report ev ?k ?od (PStr (exchange_id_or_default ?od)) (symbol ?od) (PEnum ''OrderState'' ''CANCELLED'') 0 0
      (filled_quantity ?od) 0 (filled_quote_amount ?od) (average_price ?od) 0 ''Order cancelled by client'' = Inr r"
  proof -
    have "\<exists>r. make_report ev ?k ?od (PStr (exchange_id_or_default ?od)) (symbol ?od) (PEnum ''OrderState'' ''CANCELLED'') 0 0
      (filled_quantity ?od) 0 (filled_quote_amount ?od) (average_price ?od) 0 ''Order cancelled by client'' = Inr r"
      by (rule make_report_ok) (use oi assms(3) in \<open>simp_all add: order_inv_def order_state_of_def nonneg_finite_def\<close>)
    then show thesis using that by blast
  qed
  have r: "rep_cl_ord_id r = cl_ord_id ?od" "cum_quantity r = filled_quantity ?od" "exec_type r = CANCELLED"
    using make_report_InrD [OF mk] by (auto simp: order_state_of_def)
  then have acc: "report_accepted (heap ?gw1 ref) r" using cancel_report_accepted [OF oi act(1) c] by simp
  have t: "\<not> is_terminal ?od" using act(1) by (cases "state ?od") (simp_all add: is_terminal_def is_active_def)
  have "paper_cancel ev gw (cl_ord_id ?od) = apply_and_retire ?gw1 ref r"
    using inv(2) cl act(2) t mk by (simp add: paper_cancel_def cancel_order_def cancel_precheck_def check_nonblank_def cancel_commit_def Let_def)
  moreover obtain gw' where gw': "apply_and_retire ?gw1 ref r = (gw', Inr r)"
    using apply_and_retire_accepted(1) [OF acc] cl by (cases "apply_and_retire ?gw1 ref r") simp
  moreover have "is_terminal (heap gw' ref)" "orders gw' = orders gw" "is_connected gw'"
    using gw' apply_execution_report_accepts [OF acc] r(3) inv(2)
    by (auto simp: apply_and_retire_def Let_def is_terminal_def split: prod.splits sum.splits)
  ultimately show ?thesis using apply_and_retire_accepted(2) [OF acc] cl by fastforce
qed

lemma paper_open_ids_distinct:
  assumes "gateway_inv gw"
  shows "distinct (paper_open_ids gw)"
proof -
  have reg: "registry_ok gw" using assms by (simp add: gateway_inv_def)
  have "map (\<lambda>ref. cl_ord_id (heap gw ref)) (map snd (orders gw)) = map fst (orders gw)"
    using registry_own_id [OF reg] registry_keys [OF reg] by (auto simp: map_of_eq_Some_iff)
  then have "distinct (map (\<lambda>ref. cl_ord_id (heap gw ref)) (map snd (orders gw)))" using registry_keys [OF reg] by (simp only:)
  then show ?thesis unfolding paper_open_ids_def get_open_orders_def by (rule distinct_map_filter)
qed

text \<open>What a client relies on: a cancellation of an open order succeeds and removes exactly that order.\<close>

lemma paper_cancel_removes:
  assumes "paper_ready gw" "cl \<in> set (paper_open_ids gw)" "\<forall>k. 0 \<le> now_at ev k"
  shows "\<exists>gw' rep. paper_cancel ev gw cl = (gw', Inr rep) \<and> paper_ready gw' \<and> paper_open_ids gw' = filter (\<lambda>c. c \<noteq> cl) (paper_open_ids gw)"
proof -
  obtain ref where ref: "ref \<in> set (get_open_orders gw)" "cl = cl_ord_id (heap gw ref)" using assms(2) by (auto simp: paper_open_ids_def)
  obtain gw' rep where c: "paper_cancel ev gw cl = (gw', Inr rep)" "is_terminal (heap gw' ref)"
    "\<forall>r. r \<noteq> ref \<longrightarrow> heap gw' r = heap gw r" "orders gw' = orders gw" "is_connected gw'"
    using paper_cancel_open [OF assms(1) ref(1) assms(3)] ref(2) by auto
  have inv: "gateway_inv gw" "gateway_inv gw'"
    using assms(1) paper_cancel_inv [of gw ev cl] c(1) by (simp_all add: paper_ready_def)
  have na: "\<not> is_active (heap gw' ref)" using c(2) by (cases "state (heap gw' ref)") (simp_all add: is_active_def is_terminal_def)
  have o': "get_open_orders gw' = filter (\<lambda>r. r \<noteq> ref) (get_open_orders gw)"
    unfolding get_open_orders_def c(4) filter_filter by (rule filter_cong [OF refl]) (use na c(3) in auto)
  have "cl_ord_id (heap gw r) \<noteq> cl" if "r \<in> set (get_open_orders gw)" "r \<noteq> ref" for r
    using that ref open_order_registered [OF inv(1)] by auto
  then have "paper_open_ids gw' = filter (\<lambda>c. c \<noteq> cl) (paper_open_ids gw)"
    unfolding paper_open_ids_def o' filter_map comp_def using c(3) ref(2) by (auto intro!: map_cong filter_cong) metis
  moreover have "paper_ready gw'" using assms(1) inv(2) c(3,5) by (auto simp: paper_ready_def o')
  ultimately show ?thesis using c(1) by blast
qed

end
