(* ===== verification/Kill_Switch.thy ===== *)
theory Kill_Switch
  imports Gateway_Client
begin

text \<open>
  \<^verbatim>\<open>src/src/quant/execution/kill_switch.py\<close>: the emergency kill switch, its admin token, its registries and the panic sequence
  (scheduler hooks, cancellation of every open order on every gateway, optional flattening, the event, the listeners).

  Gateways are objects, so the switch holds references and the objects live in a store \<open>nat \<Rightarrow> 'g\<close>. Their operations are the
  record \<open>gateway_api\<close>, which also says how long a call takes and how a call that is cut off leaves the gateway: every call of the
  switch is under the deadline \<^verbatim>\<open>gateway_timeout_seconds\<close> (\<open>wait_for\<close>). The coroutines of one \<^verbatim>\<open>asyncio.gather\<close> take effect in
  the order in which they were created. Hooks and listeners are functions on the store that may raise; ones that call the kill switch
  back are not modelled. Type guards on arguments that the code itself passes hold by typing.

  Lemmas: the panic state can only be left with the admin token (\<open>kill_switch_latched\<close>); over gateways that honour the contract
  of the locale \<open>panic_gateway\<close> a panic leaves no open order where the gateway meets the deadline and every order open where it
  does not, and the paper gateway is one of them.
\<close>

section \<open>States, reasons and events\<close>

datatype kill_switch_state = ARMED_STANDBY | PANIC_TRIGGERED | DISARMED

datatype panic_reason = MANUAL_OPERATOR | DRAWDOWN_BREACH | GATEWAY_DISCONNECT | FAT_FINGER_BREACH | ROGUE_FILLS

datatype panic_mode = CANCEL_ONLY | CANCEL_AND_FLATTEN

definition kill_switch_states :: "(string \<times> kill_switch_state) list" where
  "kill_switch_states = [(''ARMED_STANDBY'', ARMED_STANDBY), (''PANIC_TRIGGERED'', PANIC_TRIGGERED), (''DISARMED'', DISARMED)]"

definition panic_reasons :: "(string \<times> panic_reason) list" where
  "panic_reasons = [(''MANUAL_OPERATOR'', MANUAL_OPERATOR), (''DRAWDOWN_BREACH'', DRAWDOWN_BREACH),
     (''GATEWAY_DISCONNECT'', GATEWAY_DISCONNECT), (''FAT_FINGER_BREACH'', FAT_FINGER_BREACH), (''ROGUE_FILLS'', ROGUE_FILLS)]"

definition panic_modes :: "(string \<times> panic_mode) list" where
  "panic_modes = [(''CANCEL_ONLY'', CANCEL_ONLY), (''CANCEL_AND_FLATTEN'', CANCEL_AND_FLATTEN)]"

text \<open>A member, or a string converted by the class: \<^verbatim>\<open>ValueError\<close> for an unknown value, \<^verbatim>\<open>TypeError\<close> for another type.\<close>

definition parse_member :: "(string \<times> 'a) list \<Rightarrow> pyval \<Rightarrow> 'a res" where
  "parse_member tab v =
     (case as_str v of
        None \<Rightarrow> Inl (PyErr TypeError)
      | Some s \<Rightarrow> (case dict_get tab s of None \<Rightarrow> Inl (PyErr ValueError) | Some x \<Rightarrow> Inr x))"

record kill_switch_event =
  event_ns :: int
  trigger_reason :: panic_reason
  trigger_source :: string
  event_mode :: panic_mode
  cancelled_orders_count :: int
  positions_snapshot :: "(string \<times> float64) list"
  event_details :: string

abbreviation BadRisk :: exn where
  "BadRisk \<equiv> Rsk NonFiniteRiskInputException"

definition kill_switch_event_new :: "kill_switch_event \<Rightarrow> kill_switch_event res" where
  "kill_switch_event_new e =
     (if event_ns e \<le> 0 then Inl BadRisk
      else if str_strip (trigger_source e) = [] then Inl (PyErr ValueError)
      else if cancelled_orders_count e < 0 then Inl BadRisk
      else if \<not> list_all (\<lambda>(s, q). isfinite q) (positions_snapshot e) then Inl BadRisk
      else Inr e)"

section \<open>The switch\<close>

record 'g kill_switch =
  admin_token :: string
  ks_state :: kill_switch_state
  gateway_timeout_seconds :: float64
  gateways :: "(string \<times> nat) list"
  scheduler_hooks :: "((nat \<Rightarrow> 'g) \<Rightarrow> (nat \<Rightarrow> 'g) \<times> unit res) list"
  panic_listeners :: "(kill_switch_event \<Rightarrow> (nat \<Rightarrow> 'g) \<Rightarrow> (nat \<Rightarrow> 'g) \<times> unit res) list"
  last_event :: "kill_switch_event option"

text \<open>The protocol \<^verbatim>\<open>ExecutionGateway\<close>, as far as the switch uses it; an order is known by its client id.\<close>

record 'g gateway_api =
  api_open_orders :: "'g \<Rightarrow> string list res"
  api_positions :: "'g \<Rightarrow> (string \<times> float64) list res"
  api_cancel :: "'g \<Rightarrow> string \<Rightarrow> 'g \<times> execution_report res"
  api_submit :: "'g \<Rightarrow> order \<Rightarrow> 'g \<times> execution_report res"
  api_query_time :: "'g \<Rightarrow> float64"
  api_cancel_time :: "'g \<Rightarrow> string \<Rightarrow> float64"
  api_submit_time :: "'g \<Rightarrow> order \<Rightarrow> float64"
  api_cut_cancel :: "'g \<Rightarrow> string \<Rightarrow> 'g"
  api_cut_submit :: "'g \<Rightarrow> order \<Rightarrow> 'g"

text \<open>\<^verbatim>\<open>asyncio.wait_for\<close>: a call that takes \<open>t\<close> seconds under a deadline of \<open>sec\<close>; past it the coroutine is cancelled, which leaves the
  gateway as \<open>stopped\<close>, and the caller gets \<^verbatim>\<open>TimeoutError\<close>.\<close>

definition wait_for :: "float64 \<Rightarrow> float64 \<Rightarrow> 'g \<times> 'a res \<Rightarrow> 'g \<Rightarrow> 'g \<times> 'a res" where
  "wait_for sec t finished stopped = (if t < sec then finished else (stopped, Inl (PyErr TimeoutError)))"

definition fetch_orders :: "'g gateway_api \<Rightarrow> float64 \<Rightarrow> 'g \<Rightarrow> string list res" where
  "fetch_orders api sec g = snd (wait_for sec (api_query_time api g) (g, api_open_orders api g) g)"

definition fetch_positions :: "'g gateway_api \<Rightarrow> float64 \<Rightarrow> 'g \<Rightarrow> (string \<times> float64) list res" where
  "fetch_positions api sec g = snd (wait_for sec (api_query_time api g) (g, api_positions api g) g)"

definition cancel_one :: "'g gateway_api \<Rightarrow> float64 \<Rightarrow> 'g \<Rightarrow> string \<Rightarrow> 'g \<times> execution_report res" where
  "cancel_one api sec g cid = wait_for sec (api_cancel_time api g cid) (api_cancel api g cid) (api_cut_cancel api g cid)"

definition submit_flat :: "'g gateway_api \<Rightarrow> float64 \<Rightarrow> 'g \<Rightarrow> order \<Rightarrow> 'g \<times> execution_report res" where
  "submit_flat api sec g od = wait_for sec (api_submit_time api g od) (api_submit api g od) (api_cut_submit api g od)"

definition kill_switch_new :: "pyval \<Rightarrow> pyval \<Rightarrow> pyval \<Rightarrow> 'g kill_switch res" where
  "kill_switch_new token initial timeout =
     bindR (check_nonblank BadRisk token) (\<lambda>t.
     bindR (parse_member kill_switch_states initial) (\<lambda>st.
     bindR (check_pos BadRisk timeout) (\<lambda>sec.
     Inr \<lparr>admin_token = str_strip t, ks_state = st, gateway_timeout_seconds = sec, gateways = [], scheduler_hooks = [],
          panic_listeners = [], last_event = None\<rparr>)))"

definition ks_is_active :: "'g kill_switch \<Rightarrow> bool" where
  "ks_is_active ks \<longleftrightarrow> ks_state ks = PANIC_TRIGGERED"

definition ks_is_armed :: "'g kill_switch \<Rightarrow> bool" where
  "ks_is_armed ks \<longleftrightarrow> ks_state ks = ARMED_STANDBY"

definition ks_is_disarmed :: "'g kill_switch \<Rightarrow> bool" where
  "ks_is_disarmed ks \<longleftrightarrow> ks_state ks = DISARMED"

text \<open>The id of a gateway: the argument, else its attributes \<^verbatim>\<open>gateway_id\<close> and \<^verbatim>\<open>venue_id\<close> (absent attributes are
  \<open>PNone\<close>), else the class name and address of the object.\<close>

definition nonblank_text :: "pyval \<Rightarrow> string option" where
  "nonblank_text v = (case as_str v of None \<Rightarrow> None | Some s \<Rightarrow> if str_strip s = [] then None else Some (str_strip s))"

definition register_gateway :: "'g kill_switch \<Rightarrow> nat \<Rightarrow> pyval \<Rightarrow> pyval \<Rightarrow> string \<Rightarrow> pyval \<Rightarrow> 'g kill_switch \<times> string res" where
  "register_gateway ks ref gateway_attr venue_attr class_id gid =
     (case (if gid = PNone
            then Inr (case nonblank_text gateway_attr of
                        Some s \<Rightarrow> s
                      | None \<Rightarrow> (case nonblank_text venue_attr of Some s \<Rightarrow> s | None \<Rightarrow> class_id))
            else bindR (check_nonblank (PyErr ValueError) gid) (\<lambda>s. Inr (str_strip s))) of
        Inl e \<Rightarrow> (ks, Inl e)
      | Inr g \<Rightarrow> (ks\<lparr>gateways := dict_set (gateways ks) g ref\<rparr>, Inr g))"

definition unregister_gateway :: "'g kill_switch \<Rightarrow> pyval \<Rightarrow> 'g kill_switch \<times> unit res" where
  "unregister_gateway ks gid =
     (case check_nonblank (PyErr ValueError) gid of
        Inl e \<Rightarrow> (ks, Inl e)
      | Inr s \<Rightarrow>
          if dict_get (gateways ks) (str_strip s) = None then (ks, Inl (PyErr KeyError))
          else (ks\<lparr>gateways := filter (\<lambda>(k, r). k \<noteq> str_strip s) (gateways ks)\<rparr>, Inr ()))"

definition register_scheduler_hook :: "'g kill_switch \<Rightarrow> ((nat \<Rightarrow> 'g) \<Rightarrow> (nat \<Rightarrow> 'g) \<times> unit res) \<Rightarrow> 'g kill_switch" where
  "register_scheduler_hook ks hook = ks\<lparr>scheduler_hooks := scheduler_hooks ks @ [hook]\<rparr>"

definition register_panic_listener ::
    "'g kill_switch \<Rightarrow> (kill_switch_event \<Rightarrow> (nat \<Rightarrow> 'g) \<Rightarrow> (nat \<Rightarrow> 'g) \<times> unit res) \<Rightarrow> 'g kill_switch" where
  "register_panic_listener ks l = ks\<lparr>panic_listeners := panic_listeners ks @ [l]\<rparr>"

definition verify_admin_token :: "'g kill_switch \<Rightarrow> pyval \<Rightarrow> bool" where
  "verify_admin_token ks token \<longleftrightarrow> (case as_str token of None \<Rightarrow> False | Some s \<Rightarrow> s \<noteq> [] \<and> s = admin_token ks)"

definition validate_submission :: "'g kill_switch \<Rightarrow> unit res" where
  "validate_submission ks = (if ks_state ks = PANIC_TRIGGERED then Inl (Rsk KillSwitchActiveException) else Inr ())"

definition with_token :: "'g kill_switch \<Rightarrow> pyval \<Rightarrow> kill_switch_state \<Rightarrow> 'g kill_switch \<times> unit res" where
  "with_token ks token st =
     (if \<not> verify_admin_token ks token then (ks, Inl (Ks InvalidAdminTokenException)) else (ks\<lparr>ks_state := st\<rparr>, Inr ()))"

definition ks_reset :: "'g kill_switch \<Rightarrow> pyval \<Rightarrow> 'g kill_switch \<times> unit res" where
  "ks_reset ks token = with_token ks token ARMED_STANDBY"

definition ks_disarm :: "'g kill_switch \<Rightarrow> pyval \<Rightarrow> 'g kill_switch \<times> unit res" where
  "ks_disarm ks token = with_token ks token DISARMED"

definition ks_arm :: "'g kill_switch \<Rightarrow> pyval \<Rightarrow> 'g kill_switch \<times> unit res" where
  "ks_arm ks token = with_token ks token ARMED_STANDBY"

section \<open>The panic sequence\<close>

definition execute_scheduler_hooks :: "((nat \<Rightarrow> 'g) \<Rightarrow> (nat \<Rightarrow> 'g) \<times> unit res) list \<Rightarrow> (nat \<Rightarrow> 'g) \<Rightarrow> nat \<Rightarrow> 'g" where
  "execute_scheduler_hooks hooks w = foldl (\<lambda>w h. fst (h w)) w hooks"

definition add_positions :: "(string \<times> float64) list \<Rightarrow> (string \<times> float64) list res \<Rightarrow> (string \<times> float64) list" where
  "add_positions snap res =
     (case res of
        Inl _ \<Rightarrow> snap
      | Inr ps \<Rightarrow> foldl (\<lambda>d (s, q). if isfinite q then dict_set d s (dict_get_default d s 0 + q) else d) snap ps)"

definition cancel_jobs :: "'g gateway_api \<Rightarrow> float64 \<Rightarrow> (nat \<Rightarrow> 'g) \<Rightarrow> (string \<times> nat) list \<Rightarrow> (nat \<times> string) list" where
  "cancel_jobs api sec w gws =
     concat (map (\<lambda>(gid, ref). case fetch_orders api sec (w ref) of Inl _ \<Rightarrow> [] | Inr ids \<Rightarrow> map (Pair ref) ids) gws)"

fun run_cancels :: "'g gateway_api \<Rightarrow> float64 \<Rightarrow> (nat \<Rightarrow> 'g) \<Rightarrow> (nat \<times> string) list \<Rightarrow> (nat \<Rightarrow> 'g) \<times> int" where
  "run_cancels api sec w [] = (w, 0)"
| "run_cancels api sec w ((ref, cid) # js) =
     (case cancel_one api sec (w ref) cid of
        (g, r) \<Rightarrow> (case run_cancels api sec (w(ref := g)) js of (w', n) \<Rightarrow> (w', n + (case r of Inl _ \<Rightarrow> 0 | Inr _ \<Rightarrow> 1))))"

definition execute_gateway_cancellations ::
    "'g gateway_api \<Rightarrow> 'g kill_switch \<Rightarrow> (nat \<Rightarrow> 'g) \<Rightarrow> (nat \<Rightarrow> 'g) \<times> int \<times> (string \<times> float64) list" where
  "execute_gateway_cancellations api ks w =
     (let sec = gateway_timeout_seconds ks;
          snap = foldl (\<lambda>d (gid, ref). add_positions d (fetch_positions api sec (w ref))) [] (gateways ks);
          (w', n) = run_cancels api sec w (cancel_jobs api sec w (gateways ks))
      in (w', n, snap))"

text \<open>The flattening orders of one gateway; the counter runs over all gateways.\<close>

definition flat_eps :: float64 where
  "flat_eps = flit (1 / 10 ^ 7)"

fun flat_orders :: "int \<Rightarrow> string \<Rightarrow> nat \<Rightarrow> (string \<times> float64) list \<Rightarrow> (order list \<times> nat) res" where
  "flat_orders now gid k [] = Inr ([], k)"
| "flat_orders now gid k ((s, q) # ps) =
     (if isfinite q \<and> \<bar>q\<bar> > flat_eps
      then bindR (order_new ((order_defaults (PStr (''panic-flat-'' @ gid @ ''-'' @ s @ ''-'' @ decimal (Suc k) @ ''-'' @ decimal (nat now)))
                    (PStr s) (side_val (if q > 0 then SELL else BUY)) (PEnum ''OrderType'' ''MARKET'') (PFloat \<bar>q\<bar>))
                    \<lparr>a_created_at_ns := PInt now, a_updated_at_ns := PInt now\<rparr>)) (\<lambda>od.
             bindR (flat_orders now gid (Suc k) ps) (\<lambda>(ods, k'). Inr (od # ods, k')))
      else flat_orders now gid k ps)"

fun flat_jobs :: "'g gateway_api \<Rightarrow> float64 \<Rightarrow> int \<Rightarrow> (nat \<Rightarrow> 'g) \<Rightarrow> nat \<Rightarrow> (string \<times> nat) list \<Rightarrow> (nat \<times> order) list res" where
  "flat_jobs api sec now w k [] = Inr []"
| "flat_jobs api sec now w k ((gid, ref) # gws) =
     (case fetch_positions api sec (w ref) of
        Inl _ \<Rightarrow> flat_jobs api sec now w k gws
      | Inr ps \<Rightarrow>
          bindR (flat_orders now gid k ps) (\<lambda>(ods, k').
            bindR (flat_jobs api sec now w k' gws) (\<lambda>js. Inr (map (Pair ref) ods @ js))))"

definition run_submits :: "'g gateway_api \<Rightarrow> float64 \<Rightarrow> (nat \<Rightarrow> 'g) \<Rightarrow> (nat \<times> order) list \<Rightarrow> nat \<Rightarrow> 'g" where
  "run_submits api sec w js = foldl (\<lambda>w (ref, od). w(ref := fst (submit_flat api sec (w ref) od))) w js"

definition flatten_positions :: "'g gateway_api \<Rightarrow> int \<Rightarrow> 'g kill_switch \<Rightarrow> (nat \<Rightarrow> 'g) \<Rightarrow> (nat \<Rightarrow> 'g) \<times> unit res" where
  "flatten_positions api now ks w =
     (let sec = gateway_timeout_seconds ks
      in case flat_jobs api sec now w 0 (gateways ks) of Inl e \<Rightarrow> (w, Inl e) | Inr js \<Rightarrow> (run_submits api sec w js, Inr ()))"

definition notify_listeners ::
    "(kill_switch_event \<Rightarrow> (nat \<Rightarrow> 'g) \<Rightarrow> (nat \<Rightarrow> 'g) \<times> unit res) list \<Rightarrow> kill_switch_event \<Rightarrow> (nat \<Rightarrow> 'g) \<Rightarrow> nat \<Rightarrow> 'g" where
  "notify_listeners ls e w = foldl (\<lambda>w l. fst (l e w)) w ls"

record panic_args =
  pn_reason :: pyval
  pn_source :: pyval
  pn_mode :: pyval
  pn_details :: pyval
  pn_timestamp_ns :: pyval

text \<open>The validated arguments; \<open>clock\<close> is the reading used when no timestamp is given.\<close>

definition parse_panic :: "int \<Rightarrow> panic_args \<Rightarrow> (panic_reason \<times> string \<times> panic_mode \<times> string \<times> int) res" where
  "parse_panic clock a =
     bindR (parse_member panic_reasons (pn_reason a)) (\<lambda>r.
     bindR (check_nonblank (PyErr ValueError) (pn_source a)) (\<lambda>s.
     bindR (parse_member panic_modes (pn_mode a)) (\<lambda>m.
     bindR (case as_str (pn_details a) of None \<Rightarrow> Inl (PyErr TypeError) | Some d \<Rightarrow> Inr d) (\<lambda>d.
     bindR (if pn_timestamp_ns a = PNone then Inr clock else check_int BadRisk (\<lambda>i. i \<le> 0) (pn_timestamp_ns a)) (\<lambda>ts.
     Inr (r, str_strip s, m, str_strip d, ts))))))"

definition panic_sequence ::
    "'g gateway_api \<Rightarrow> int \<Rightarrow> 'g kill_switch \<Rightarrow> (nat \<Rightarrow> 'g) \<Rightarrow> panic_reason \<Rightarrow> string \<Rightarrow> panic_mode \<Rightarrow> string \<Rightarrow> int \<Rightarrow>
     'g kill_switch \<times> (nat \<Rightarrow> 'g) \<times> kill_switch_event res" where
  "panic_sequence api now ks w r s m d ts =
     (let w1 = execute_scheduler_hooks (scheduler_hooks ks) w;
          (w2, n, snap) = execute_gateway_cancellations api ks w1;
          (w3, fl) = (if m = CANCEL_AND_FLATTEN then flatten_positions api now ks w2 else (w2, Inr ()))
      in case bindR fl (\<lambda>_. kill_switch_event_new \<lparr>event_ns = ts, trigger_reason = r, trigger_source = s, event_mode = m,
                cancelled_orders_count = n, positions_snapshot = snap, event_details = d\<rparr>) of
           Inl e \<Rightarrow> (ks, w3, Inl e)
         | Inr ev \<Rightarrow> (ks\<lparr>last_event := Some ev\<rparr>, notify_listeners (panic_listeners ks) ev w3, Inr ev))"

definition trigger_panic ::
    "'g gateway_api \<Rightarrow> int \<Rightarrow> int \<Rightarrow> 'g kill_switch \<Rightarrow> (nat \<Rightarrow> 'g) \<Rightarrow> panic_args \<Rightarrow> 'g kill_switch \<times> (nat \<Rightarrow> 'g) \<times> kill_switch_event res" where
  "trigger_panic api clock now ks w a =
     (case parse_panic clock a of
        Inl e \<Rightarrow> (ks, w, Inl e)
      | Inr (r, s, m, d, ts) \<Rightarrow>
          (case ks_state ks of
             DISARMED \<Rightarrow> (ks, w, Inl (Ks KillSwitchDisarmedException))
           | PANIC_TRIGGERED \<Rightarrow> (ks, w, case last_event ks of None \<Rightarrow> Inl (PyErr AssertionError) | Some e \<Rightarrow> Inr e)
           | ARMED_STANDBY \<Rightarrow> panic_sequence api now (ks\<lparr>ks_state := PANIC_TRIGGERED\<rparr>) w r s m d ts))"

section \<open>The latch\<close>

datatype 'g ks_cmd =
  TriggerPanic int int panic_args
| Reset pyval
| Disarm pyval
| Arm pyval
| RegisterGateway nat pyval pyval string pyval
| UnregisterGateway pyval
| RegisterHook "(nat \<Rightarrow> 'g) \<Rightarrow> (nat \<Rightarrow> 'g) \<times> unit res"
| RegisterListener "kill_switch_event \<Rightarrow> (nat \<Rightarrow> 'g) \<Rightarrow> (nat \<Rightarrow> 'g) \<times> unit res"

fun ks_exec :: "'g gateway_api \<Rightarrow> 'g kill_switch \<times> (nat \<Rightarrow> 'g) \<Rightarrow> 'g ks_cmd \<Rightarrow> 'g kill_switch \<times> (nat \<Rightarrow> 'g)" where
  "ks_exec api (ks, w) (TriggerPanic clock now a) = (case trigger_panic api clock now ks w a of (ks', w', _) \<Rightarrow> (ks', w'))"
| "ks_exec api (ks, w) (Reset t) = (fst (ks_reset ks t), w)"
| "ks_exec api (ks, w) (Disarm t) = (fst (ks_disarm ks t), w)"
| "ks_exec api (ks, w) (Arm t) = (fst (ks_arm ks t), w)"
| "ks_exec api (ks, w) (RegisterGateway ref ga va c gid) = (fst (register_gateway ks ref ga va c gid), w)"
| "ks_exec api (ks, w) (UnregisterGateway gid) = (fst (unregister_gateway ks gid), w)"
| "ks_exec api (ks, w) (RegisterHook h) = (register_scheduler_hook ks h, w)"
| "ks_exec api (ks, w) (RegisterListener l) = (register_panic_listener ks l, w)"

text \<open>A call that does not present the admin token \<open>t\<close>.\<close>

fun without_token :: "string \<Rightarrow> 'g ks_cmd \<Rightarrow> bool" where
  "without_token t (Reset v) \<longleftrightarrow> as_str v \<noteq> Some t"
| "without_token t (Disarm v) \<longleftrightarrow> as_str v \<noteq> Some t"
| "without_token t (Arm v) \<longleftrightarrow> as_str v \<noteq> Some t"
| "without_token t _ \<longleftrightarrow> True"

lemma with_token_refused: "as_str v \<noteq> Some (admin_token ks) \<Longrightarrow> with_token ks v st = (ks, Inl (Ks InvalidAdminTokenException))"
  by (auto simp: with_token_def verify_admin_token_def split: option.splits)

lemma ks_exec_latched:
  assumes "ks_state ks = PANIC_TRIGGERED" "without_token (admin_token ks) c" "ks_exec api (ks, w) c = (ks', w')"
  shows "ks_state ks' = PANIC_TRIGGERED \<and> admin_token ks' = admin_token ks \<and> last_event ks' = last_event ks \<and> w' = w"
  using assms
  by (cases c) (auto simp: trigger_panic_def ks_reset_def ks_disarm_def ks_arm_def with_token_refused register_gateway_def
      unregister_gateway_def register_scheduler_hook_def register_panic_listener_def split: sum.splits prod.splits if_splits)

lemma latched_run:
  assumes "ks_state ks = PANIC_TRIGGERED" "list_all (without_token (admin_token ks)) cs" "foldl (ks_exec api) (ks, w) cs = (ks', w')"
  shows "ks_state ks' = PANIC_TRIGGERED \<and> admin_token ks' = admin_token ks \<and> last_event ks' = last_event ks \<and> w' = w"
  using assms
proof (induction cs arbitrary: ks w)
  case (Cons c cs)
  obtain ks1 w1 where e: "ks_exec api (ks, w) c = (ks1, w1)" by fastforce
  note l = ks_exec_latched [OF Cons.prems(1) _ e]
  show ?case using Cons.IH [of ks1 w1] Cons.prems l e by simp
qed simp

text \<open>C34: The panic is latched: once triggered, no sequence of calls that lacks the admin token (further triggers, resets or
  disarms with any other token, registrations) leaves the panic state; every submission is refused meanwhile, no gateway is
  touched again, and a repeated trigger returns the event of the first. The token re-arms the switch.\<close>

theorem kill_switch_latched:
  assumes "ks_state ks = PANIC_TRIGGERED" and "list_all (without_token (admin_token ks)) cs"
    and "foldl (ks_exec api) (ks, w) cs = (ks', w')"
  shows "ks_state ks' = PANIC_TRIGGERED \<and> validate_submission ks' = Inl (Rsk KillSwitchActiveException) \<and> w' = w \<and>
    (\<forall>clock now a r. parse_panic clock a = Inr r \<and> last_event ks = Some e \<longrightarrow> trigger_panic api clock now ks' w' a = (ks', w', Inr e)) \<and>
    (admin_token ks \<noteq> [] \<longrightarrow> validate_submission (fst (ks_reset ks' (PStr (admin_token ks)))) = Inr ())"
  using latched_run [OF assms]
  by (auto simp: validate_submission_def trigger_panic_def ks_reset_def with_token_def verify_admin_token_def)

section \<open>No open order survives a panic\<close>

locale panic_gateway =
  fixes api :: "'g gateway_api"
    and sec :: float64
    and ids :: "'g \<Rightarrow> string list"
    and ok :: "'g \<Rightarrow> bool"
    and timely :: "'g \<Rightarrow> bool"
  assumes open_ids: "ok g \<Longrightarrow> fetch_orders api sec g = Inr (ids g) \<and> distinct (ids g)"
    and cancel_open: "ok g \<Longrightarrow> timely g \<Longrightarrow> c \<in> set (ids g) \<Longrightarrow>
      \<exists>g' rep. cancel_one api sec g c = (g', Inr rep) \<and> ok g' \<and> timely g' \<and> ids g' = filter (\<lambda>x. x \<noteq> c) (ids g)"
    and cancel_slow: "ok g \<Longrightarrow> \<not> timely g \<Longrightarrow> c \<in> set (ids g) \<Longrightarrow> cancel_one api sec g c = (g, Inl (PyErr TimeoutError))"
begin

text \<open>The orders that the panic removes from a gateway.\<close>

definition removed :: "'g \<Rightarrow> string list" where
  "removed g = (if timely g then ids g else [])"

lemma cancel_timely:
  assumes "ok (w ref)" "timely (w ref)" "distinct cs" "set cs \<subseteq> set (ids (w ref))"
  shows "\<exists>g. run_cancels api sec w (map (Pair ref) cs @ js) =
           (case run_cancels api sec (w(ref := g)) js of (w', n) \<Rightarrow> (w', n + int (length cs))) \<and>
         ok g \<and> ids g = filter (\<lambda>x. x \<notin> set cs) (ids (w ref))"
  using assms
proof (induction cs arbitrary: w)
  case Nil
  then show ?case by (intro exI [of _ "w ref"]) simp
next
  case (Cons c cs)
  obtain g rep where g: "cancel_one api sec (w ref) c = (g, Inr rep)" "ok g" "timely g" "ids g = filter (\<lambda>x. x \<noteq> c) (ids (w ref))"
    using cancel_open [of "w ref" c] Cons.prems by auto
  let ?w = "w(ref := g)"
  have "set cs \<subseteq> set (ids (?w ref))" using Cons.prems g(4) by auto
  then obtain g' where g': "run_cancels api sec ?w (map (Pair ref) cs @ js) =
      (case run_cancels api sec (?w(ref := g')) js of (w', n) \<Rightarrow> (w', n + int (length cs)))" "ok g'"
      "ids g' = filter (\<lambda>x. x \<notin> set cs) (ids g)"
    using Cons.IH [of ?w] Cons.prems g(2,3) unfolding fun_upd_same distinct.simps by blast
  have "ids g' = filter (\<lambda>x. x \<notin> set (c # cs)) (ids (w ref))" using g'(3) g(4) by (auto intro: filter_cong)
  then show ?case using g(1) g'(1,2) by (intro exI [of _ g']) (auto split: prod.splits simp del: fun_upd_apply)
qed

lemma cancel_late:
  assumes "ok (w ref)" "\<not> timely (w ref)" "set cs \<subseteq> set (ids (w ref))"
  shows "run_cancels api sec w (map (Pair ref) cs @ js) = run_cancels api sec w js"
  using assms(3)
proof (induction cs)
  case (Cons c cs)
  then show ?case using cancel_slow [OF assms(1,2), of c] by (simp add: fun_upd_triv split: prod.splits)
qed simp

lemma cancel_gateway:
  assumes "ok (w ref)"
  shows "\<exists>g. run_cancels api sec w (map (Pair ref) (ids (w ref)) @ js) =
           (case run_cancels api sec (w(ref := g)) js of (w', n) \<Rightarrow> (w', n + int (length (removed (w ref))))) \<and>
         ok g \<and> (if timely (w ref) then ids g = [] else g = w ref)"
proof (cases "timely (w ref)")
  case True
  have "distinct (ids (w ref))" using open_ids [OF assms] by simp
  from cancel_timely [of w ref "ids (w ref)" js, OF assms True this subset_refl] obtain g where r: "run_cancels api sec w (map (Pair ref) (ids (w ref)) @ js) =
      (case run_cancels api sec (w(ref := g)) js of (w', n) \<Rightarrow> (w', n + int (length (ids (w ref)))))" "ok g"
      "ids g = filter (\<lambda>x. x \<notin> set (ids (w ref))) (ids (w ref))" by blast
  have "filter (\<lambda>x. x \<notin> set xs) xs = []" for xs :: "string list" by (simp add: filter_empty_conv)
  then have "ids g = []" using r(3) by (rule trans [rotated])
  then show ?thesis using r True by (auto simp: removed_def)
next
  case False
  from cancel_late [of w ref "ids (w ref)" js, OF assms False subset_refl] show ?thesis using assms False
    by (intro exI [of _ "w ref"]) (simp add: removed_def split: prod.splits)
qed

lemma cancel_all:
  assumes "distinct (map snd gws)" "\<forall>r \<in> snd ` set gws. ok (w r)" "\<forall>r \<in> snd ` set gws. v r = w r"
  shows "\<exists>w'. run_cancels api sec w (cancel_jobs api sec v gws) = (w', \<Sum>(gid, r) \<leftarrow> gws. int (length (removed (v r)))) \<and>
    (\<forall>r \<in> snd ` set gws. ok (w' r) \<and> (if timely (v r) then ids (w' r) = [] else w' r = v r)) \<and> (\<forall>r. r \<notin> snd ` set gws \<longrightarrow> w' r = w r)"
  using assms
proof (induction gws arbitrary: w)
  case (Cons gw gws)
  obtain gid ref where gw: "gw = (gid, ref)" by (cases gw)
  have o: "ok (w ref)" "v ref = w ref" using Cons.prems(2,3) gw by simp_all
  obtain g where g: "run_cancels api sec w (map (Pair ref) (ids (w ref)) @ cancel_jobs api sec v gws) =
      (case run_cancels api sec (w(ref := g)) (cancel_jobs api sec v gws) of (w', n) \<Rightarrow> (w', n + int (length (removed (w ref)))))" "ok g"
      "if timely (w ref) then ids g = [] else g = w ref" using cancel_gateway [of w ref "cancel_jobs api sec v gws", OF o(1)] by blast
  have d: "distinct (map snd gws)" "ref \<notin> snd ` set gws" using Cons.prems(1) gw by simp_all
  have f: "\<forall>r \<in> snd ` set gws. ok ((w(ref := g)) r)" "\<forall>r \<in> snd ` set gws. v r = (w(ref := g)) r"
    using Cons.prems(2,3) gw d(2) by auto
  from Cons.IH [OF d(1) f]
  obtain w' where w': "run_cancels api sec (w(ref := g)) (cancel_jobs api sec v gws) = (w', \<Sum>(gid, r) \<leftarrow> gws. int (length (removed (v r))))"
      "\<forall>r \<in> snd ` set gws. ok (w' r) \<and> (if timely (v r) then ids (w' r) = [] else w' r = v r)"
      "\<forall>r. r \<notin> snd ` set gws \<longrightarrow> w' r = (w(ref := g)) r"
    by blast
  have "cancel_jobs api sec v (gw # gws) = map (Pair ref) (ids (w ref)) @ cancel_jobs api sec v gws"
    using open_ids [OF o(1)] o(2) gw by (simp add: cancel_jobs_def)
  then have "run_cancels api sec w (cancel_jobs api sec v (gw # gws)) = (w', \<Sum>(gid, r) \<leftarrow> gw # gws. int (length (removed (v r))))"
    using g(1) w'(1) gw o(2) by (simp del: fun_upd_apply)
  moreover have "w' ref = g" using w'(3) d(2) by simp
  ultimately show ?case using g(2,3) w'(2,3) o(2) unfolding gw by auto
qed (simp add: cancel_jobs_def)

lemma notify_frame: "\<forall>l \<in> set ls. \<forall>e w. fst (l e w) = w \<Longrightarrow> notify_listeners ls e w = w"
  by (induction ls arbitrary: w) (simp_all add: notify_listeners_def)

lemma panic_outcome:
  assumes "ks_state ks = ARMED_STANDBY" "parse_panic clock a = Inr (r, s, CANCEL_ONLY, d, ts)" "distinct (map snd (gateways ks))"
    "w1 = execute_scheduler_hooks (scheduler_hooks ks) w" "\<forall>ref \<in> snd ` set (gateways ks). ok (w1 ref)" "gateway_timeout_seconds ks = sec"
    "\<forall>l \<in> set (panic_listeners ks). \<forall>e w. fst (l e w) = w" "trigger_panic api clock now ks w a = (ks', w', res)"
  shows "ks_state ks' = PANIC_TRIGGERED \<and>
    (\<forall>ref \<in> snd ` set (gateways ks). ok (w' ref) \<and> (if timely (w1 ref) then ids (w' ref) = [] else w' ref = w1 ref)) \<and>
    (\<forall>e. res = Inr e \<longrightarrow> cancelled_orders_count e = (\<Sum>(gid, ref) \<leftarrow> gateways ks. int (length (removed (w1 ref)))))"
proof -
  obtain w2 where w2: "run_cancels api sec w1 (cancel_jobs api sec w1 (gateways ks)) = (w2, \<Sum>(gid, r) \<leftarrow> gateways ks. int (length (removed (w1 r))))"
    "\<forall>r \<in> snd ` set (gateways ks). ok (w2 r) \<and> (if timely (w1 r) then ids (w2 r) = [] else w2 r = w1 r)"
    using cancel_all [OF assms(3,5), of w1] by blast
  obtain snap where x: "execute_gateway_cancellations api (ks\<lparr>ks_state := PANIC_TRIGGERED\<rparr>) w1 =
      (w2, \<Sum>(gid, r) \<leftarrow> gateways ks. int (length (removed (w1 r))), snap)"
    using w2(1) assms(6) by (simp add: execute_gateway_cancellations_def Let_def)
  have "ks_state ks' = PANIC_TRIGGERED \<and> w' = w2 \<and>
      (\<forall>e. res = Inr e \<longrightarrow> cancelled_orders_count e = (\<Sum>(gid, ref) \<leftarrow> gateways ks. int (length (removed (w1 ref)))))"
    using assms(1,2,4,8) x
    by (auto simp: trigger_panic_def panic_sequence_def Let_def notify_frame [OF assms(7)] kill_switch_event_new_def split: sum.splits if_splits)
  then show ?thesis using w2(2) by simp
qed

end

text \<open>The paper gateway as the switch sees it. It answers queries at once, sleeps for its latency after the checks of a cancellation or
  submission and before any effect, so a call cut off at the deadline has done nothing.\<close>

definition paper_delay :: "paper_gateway \<Rightarrow> float64" where
  "paper_delay gw = (if latency_ms gw > 0 then fdiv (latency_ms gw) (Fin 1000) else 0)"

definition paper_cancel_time :: "paper_gateway \<Rightarrow> string \<Rightarrow> float64" where
  "paper_cancel_time gw cl = (case cancel_precheck gw (PStr cl) of Inl _ \<Rightarrow> 0 | Inr _ \<Rightarrow> paper_delay gw)"

definition paper_submit_time :: "paper_gateway \<Rightarrow> order \<Rightarrow> float64" where
  "paper_submit_time gw od =
     (case submit_precheck (gw\<lparr>heap := (heap gw)(fresh_ref gw := od)\<rparr>) (fresh_ref gw) of Inl _ \<Rightarrow> 0 | Inr _ \<Rightarrow> paper_delay gw)"

definition paper_api :: "env \<Rightarrow> paper_gateway gateway_api" where
  "paper_api ev = \<lparr>api_open_orders = (\<lambda>gw. Inr (paper_open_ids gw)), api_positions = (\<lambda>gw. Inr (positions gw)),
     api_cancel = paper_cancel ev, api_submit = paper_submit ev, api_query_time = (\<lambda>gw. 0), api_cancel_time = paper_cancel_time,
     api_submit_time = paper_submit_time, api_cut_cancel = (\<lambda>gw cl. gw), api_cut_submit = (\<lambda>gw od. gw)\<rparr>"

text \<open>The clock does not run below the epoch: \<open>epoch_env\<close> cuts its readings off at zero, so that the contract holds in every
  environment.\<close>

definition epoch_env :: "env \<Rightarrow> env" where
  "epoch_env ev = ev\<lparr>now_at := (\<lambda>k. max 0 (now_at ev k))\<rparr>"

lemma epoch_env_id: "\<forall>k. 0 \<le> now_at ev k \<Longrightarrow> epoch_env ev = ev"
  by (cases ev) (simp add: epoch_env_def max_def fun_eq_iff)

lemma cancel_keeps_latency: "latency_ms (fst (paper_cancel ev gw cl)) = latency_ms gw"
  by (simp add: paper_cancel_def cancel_order_def cancel_commit_def apply_and_retire_def Let_def split: sum.splits option.splits prod.splits)

lemma open_id_checked:
  assumes "paper_ready gw" and "cl \<in> set (paper_open_ids gw)"
  shows "cancel_precheck gw (PStr cl) = Inr cl"
proof -
  obtain ref where ref: "ref \<in> set (get_open_orders gw)" "cl = cl_ord_id (heap gw ref)" using assms(2) by (auto simp: paper_open_ids_def)
  then have "order_inv (heap gw ref)" "cancellable (heap gw ref)" using assms(1) by (simp_all add: paper_ready_def gateway_inv_def)
  then show ?thesis using assms(1) ref(2) by (simp add: cancel_precheck_def check_nonblank_def paper_ready_def cancellable_def order_inv_def)
qed

interpretation paper_panic: panic_gateway "paper_api (epoch_env ev)" sec paper_open_ids "\<lambda>gw. paper_ready gw \<and> 0 < sec" "\<lambda>gw. paper_delay gw < sec" for ev sec
proof unfold_locales
  fix g
  assume "paper_ready g \<and> 0 < sec"
  then show "fetch_orders (paper_api (epoch_env ev)) sec g = Inr (paper_open_ids g) \<and> distinct (paper_open_ids g)"
    using paper_open_ids_distinct by (simp add: paper_api_def paper_ready_def fetch_orders_def wait_for_def)
next
  fix g c
  assume g: "paper_ready g \<and> 0 < sec" and c: "c \<in> set (paper_open_ids g)"
  have t: "paper_cancel_time g c = paper_delay g" using open_id_checked [OF _ c] g by (simp add: paper_cancel_time_def)
  show "cancel_one (paper_api (epoch_env ev)) sec g c = (g, Inl (PyErr TimeoutError))" if "\<not> paper_delay g < sec"
    using that by (simp add: cancel_one_def wait_for_def paper_api_def t)
  show "\<exists>g' rep. cancel_one (paper_api (epoch_env ev)) sec g c = (g', Inr rep) \<and> (paper_ready g' \<and> 0 < sec) \<and> paper_delay g' < sec \<and>
      paper_open_ids g' = filter (\<lambda>x. x \<noteq> c) (paper_open_ids g)" if "paper_delay g < sec"
  proof -
    obtain g' rep where r: "paper_cancel (epoch_env ev) g c = (g', Inr rep)" "paper_ready g'" "paper_open_ids g' = filter (\<lambda>x. x \<noteq> c) (paper_open_ids g)"
      using paper_cancel_removes [of g c "epoch_env ev"] g c by (auto simp: epoch_env_def)
    moreover have "paper_delay g' = paper_delay g" using cancel_keeps_latency [of "epoch_env ev" g c] r(1) by (simp add: paper_delay_def)
    ultimately show ?thesis using that g by (simp add: cancel_one_def wait_for_def paper_api_def t)
  qed
qed

text \<open>C2: What a cancel-only panic does to every order. An armed switch with a positive timeout is triggered over any number of distinct
  paper gateways that are connected and whose open orders are acknowledged and have ids without surrounding blanks, and its panic
  listeners do not touch the gateways. Then the switch is in the panic state and refuses submissions; a gateway whose latency is below
  the timeout of the switch has no open order left and keeps its invariant; a slower one is left exactly as the scheduler hooks left
  it, with all its orders open; and the recorded event counts exactly the orders that were open at the gateways in time.\<close>

theorem kill_switch_cancels_all:
  assumes "ks_state ks = ARMED_STANDBY" and "parse_panic clock a = Inr (r, s, CANCEL_ONLY, d, ts)" and "0 < gateway_timeout_seconds ks"
    and "distinct (map snd (gateways ks))" and "w1 = execute_scheduler_hooks (scheduler_hooks ks) w"
    and "\<forall>ref \<in> snd ` set (gateways ks). paper_ready (w1 ref)"
    and "\<forall>l \<in> set (panic_listeners ks). \<forall>e w. fst (l e w) = w" and "\<forall>k. 0 \<le> now_at ev k"
    and "trigger_panic (paper_api ev) clock now ks w a = (ks', w', res)"
  shows "validate_submission ks' = Inl (Rsk KillSwitchActiveException) \<and>
    (\<forall>ref \<in> snd ` set (gateways ks). gateway_inv (w' ref) \<and>
       (if paper_delay (w1 ref) < gateway_timeout_seconds ks then get_open_orders (w' ref) = [] else w' ref = w1 ref)) \<and>
    (\<forall>e. res = Inr e \<longrightarrow> cancelled_orders_count e =
       (\<Sum>(gid, ref) \<leftarrow> gateways ks. if paper_delay (w1 ref) < gateway_timeout_seconds ks then int (length (get_open_orders (w1 ref))) else 0))"
proof -
  have t: "trigger_panic (paper_api (epoch_env ev)) clock now ks w a = (ks', w', res)"
    using assms(9) epoch_env_id [OF assms(8)] by simp
  have "\<forall>ref \<in> snd ` set (gateways ks). paper_ready (w1 ref) \<and> 0 < gateway_timeout_seconds ks" using assms(3,6) by blast
  note p = paper_panic.panic_outcome [OF assms(1,2,4,5) this refl assms(7) t]
  have "int (length (paper_panic.removed sec g)) = (if paper_delay g < sec then int (length (get_open_orders g)) else 0)" for sec g
    by (simp add: paper_panic.removed_def paper_open_ids_def)
  then show ?thesis using p by (auto simp: validate_submission_def paper_ready_def paper_open_ids_def split: if_splits)
qed

subsection \<open>Samples\<close>

definition sample_switch :: "kill_switch_state \<Rightarrow> paper_gateway kill_switch" where
  "sample_switch st = \<lparr>admin_token = ''root'', ks_state = st, gateway_timeout_seconds = Fin 2, gateways = [(''paper'', 0)],
     scheduler_hooks = [], panic_listeners = [], last_event = None\<rparr>"

definition sample_panic :: panic_args where
  "sample_panic = \<lparr>pn_reason = PStr ''MANUAL_OPERATOR'', pn_source = PStr ''desk'', pn_mode = PEnum ''PanicMode'' ''CANCEL_ONLY'',
     pn_details = PStr [], pn_timestamp_ns = PInt 7\<rparr>"

lemma sample_panic_parsed: "parse_panic clock sample_panic = Inr (MANUAL_OPERATOR, ''desk'', CANCEL_ONLY, [], 7)"
  by (simp add: parse_panic_def sample_panic_def parse_member_def panic_reasons_def panic_modes_def check_nonblank_def str_strip_def
      is_space_def)

theorem kill_switch_latched_witness:
  "validate_submission (fst (foldl (ks_exec (paper_api sample_env)) (sample_switch PANIC_TRIGGERED, \<lambda>_. two_gw)
     [Reset (PStr ''guess''), TriggerPanic 1 1 sample_panic, Disarm PNone])) = Inl (Rsk KillSwitchActiveException)"
proof -
  let ?cs = "[Reset (PStr ''guess''), TriggerPanic 1 1 sample_panic, Disarm PNone]"
  obtain ks' w' where r: "foldl (ks_exec (paper_api sample_env)) (sample_switch PANIC_TRIGGERED, \<lambda>_. two_gw) ?cs = (ks', w')" by fastforce
  have "ks_state (sample_switch PANIC_TRIGGERED) = PANIC_TRIGGERED" "list_all (without_token (admin_token (sample_switch PANIC_TRIGGERED))) ?cs"
    by (simp_all add: sample_switch_def)
  from kill_switch_latched [OF this r] r show ?thesis by simp
qed

lemma one_rested_ready: "paper_ready one_rested_gw" "length (get_open_orders one_rested_gw) = 1"
proof -
  have "gateway_inv two_gw"
    by (simp add: gateway_inv_def two_gw_def registry_ok_def prices_ok_def default_router_def router_inv_def two_orders_def
        sample_order_def order_inv_def)
  then have "gateway_inv one_rested_gw" using gateway_exec_inv [of two_gw sample_env "Submit 0"] submit_first by simp
  moreover have "0 \<le> qty_eps" "isfinite qty_eps" using flit_power_ten [of 7] by (auto simp: qty_eps_def)
  then have "Fin 0 \<le> Fin 10 + qty_eps" using float_add_nonneg [of "Fin 10" qty_eps] by (simp add: zero_float64_def)
  then have "cancellable (rested_order 0)"
    by (simp add: cancellable_def rested_order_def two_orders_def sample_order_def mass_conserved_def str_strip_def is_space_def)
  ultimately show "paper_ready one_rested_gw"
    by (simp add: paper_ready_def get_open_orders_def one_rested_gw_def two_gw_def)
  show "length (get_open_orders one_rested_gw) = 1"
    by (simp add: get_open_orders_def one_rested_gw_def two_gw_def rested_order_def is_active_def)
qed

theorem kill_switch_cancels_all_witness:
  "\<exists>ks' w' res. trigger_panic (paper_api sample_env) 1 1 (sample_switch ARMED_STANDBY) (\<lambda>_. one_rested_gw) sample_panic = (ks', w', res) \<and>
     get_open_orders (w' 0) = [] \<and> length (get_open_orders one_rested_gw) = 1"
proof -
  let ?ks = "sample_switch ARMED_STANDBY"
  obtain ks' w' res where t:
    "trigger_panic (paper_api sample_env) 1 1 (sample_switch ARMED_STANDBY) (\<lambda>_. one_rested_gw) sample_panic = (ks', w', res)"
    by (metis prod_cases3)
  have "\<forall>k. 0 \<le> now_at sample_env k" by (simp add: sample_env_def)
  moreover have k: "ks_state ?ks = ARMED_STANDBY" "0 < gateway_timeout_seconds ?ks" "distinct (map snd (gateways ?ks))" "gateways ?ks = [(''paper'', 0)]"
    "execute_scheduler_hooks (scheduler_hooks ?ks) w = w" "panic_listeners ?ks = []" "gateway_timeout_seconds ?ks = Fin 2" for w
    by (simp_all add: sample_switch_def execute_scheduler_hooks_def zero_float64_def)
  moreover have "paper_delay one_rested_gw < Fin 2" by (simp add: paper_delay_def one_rested_gw_def two_gw_def zero_float64_def)
  ultimately show ?thesis using kill_switch_cancels_all [OF k(1) sample_panic_parsed k(2,3) refl _ _ _ t] t one_rested_ready by simp
qed

subsection \<open>An order the panic does not reach\<close>

definition padded_order :: order where
  "padded_order = sample_order\<lparr>cl_ord_id := '' x''\<rparr>"

text \<open>The paper gateway registers an order under its id as given, but cancels by the stripped id: an order whose id has
  surrounding blanks is accepted and rests, and a panic reports success with nothing cancelled while it stays open.\<close>

theorem kill_switch_misses_padded_id:
  "\<exists>gw rep ks' w' e. paper_submit sample_env (sample_gw 1000 [] sample_order) padded_order = (gw, Inr rep) \<and>
     trigger_panic (paper_api sample_env) 1 1 (sample_switch ARMED_STANDBY) (\<lambda>_. gw) sample_panic = (ks', w', Inr e) \<and>
     cancelled_orders_count e = 0 \<and> get_open_orders (w' 0) \<noteq> []"
proof -
  let ?od = "padded_order\<lparr>state := NEW, updated_at_ns := 1, exchange_order_id := Some ''ex- x''\<rparr>"
  obtain gw rep where s: "paper_submit sample_env (sample_gw 1000 [] sample_order) padded_order = (gw, Inr rep)"
    and g: "orders gw = [('' x'', Suc 0)]" "heap gw (Suc 0) = ?od" "is_connected gw" "positions gw = []" "latency_ms gw = Fin 0"
    by (simp add: paper_submit_def submit_order_def submit_precheck_def fresh_ref_def gateway_eval sample_gw_def padded_order_def sample_order_def
     default_router_def sample_env_def Let_def zero_float64_def [symmetric] check_number_PFloat)
       (simp add: zero_float64_def)
  have c: "paper_cancel sample_env gw '' x'' = (gw, Inl InvalidInput)"
    by (simp add: paper_cancel_def cancel_order_def cancel_precheck_def g cancel_commit_def check_nonblank_def str_strip_def is_space_def)
  have o: "get_open_orders gw = [Suc 0]" "paper_open_ids gw = ['' x'']"
    by (simp_all add: get_open_orders_def paper_open_ids_def g is_active_def padded_order_def)
  have z: "paper_delay gw = 0" "0 < Fin 2" by (simp_all add: paper_delay_def g(5) zero_float64_def)
  then have "cancel_one (paper_api sample_env) (Fin 2) gw '' x'' = (gw, Inl InvalidInput)"
    by (simp add: cancel_one_def wait_for_def paper_api_def c paper_cancel_time_def split: sum.splits)
  then have "execute_gateway_cancellations (paper_api sample_env) (sample_switch PANIC_TRIGGERED) (\<lambda>_. gw) = ((\<lambda>_. gw)(0 := gw), 0, [])"
    using z(2) by (simp add: execute_gateway_cancellations_def cancel_jobs_def sample_switch_def fetch_orders_def fetch_positions_def wait_for_def
        paper_api_def o(2) g(4) add_positions_def Let_def)
  moreover have "(sample_switch ARMED_STANDBY)\<lparr>ks_state := PANIC_TRIGGERED\<rparr> = sample_switch PANIC_TRIGGERED" by (simp add: sample_switch_def)
  ultimately have "\<exists>ks' w' e. trigger_panic (paper_api sample_env) 1 1 (sample_switch ARMED_STANDBY) (\<lambda>_. gw) sample_panic = (ks', w', Inr e) \<and>
      cancelled_orders_count e = 0 \<and> w' 0 = gw"
    by (simp add: trigger_panic_def sample_panic_parsed sample_switch_def panic_sequence_def kill_switch_event_new_def str_strip_def is_space_def
        execute_scheduler_hooks_def notify_listeners_def Let_def)
  then show ?thesis using s o(1) by fastforce
qed

end
