(* ===== verification/Heartbeat.thy ===== *)
theory Heartbeat
  imports Idempotency Py_Sum
begin

text \<open>
  \<^verbatim>\<open>src/src/quant/execution/heartbeat.py\<close>: the transport watchdog with its configuration, sequence tracking, latency window and
  the liveness check.

  Listeners are identified by numbers (the code compares callables for identity) and \<open>fire\<close> says what calling one does to the
  rest of the program, the world \<open>'w\<close>; a listener that raises ends the call, and one that calls the watchdog back is not
  modelled. A latency is taken as the float the validator accepts.

  Lemmas: sequence numbers never regress and the gaps are counted (\<open>watchdog_sequence\<close>); a silence of the timeout is detected by
  the next check and announced once (\<open>watchdog_detects_silence\<close>).
\<close>

section \<open>Configuration\<close>

datatype connection_status = CONNECTED | DEGRADED | DISCONNECTED | RECONNECTING

datatype transport_protocol = WEBSOCKET | FIX | REST_POLL

abbreviation BadBeat :: exn where
  "BadBeat \<equiv> Rsk NonFiniteRiskInputException"

definition connection_status_of :: "pyval \<Rightarrow> connection_status option" where
  "connection_status_of v =
     (case v of
        PEnum c s \<Rightarrow> if c = ''ConnectionStatus''
          then dict_get [(''CONNECTED'', CONNECTED), (''DEGRADED'', DEGRADED), (''DISCONNECTED'', DISCONNECTED), (''RECONNECTING'', RECONNECTING)] s
          else None
      | _ \<Rightarrow> None)"

definition transport_protocol_of :: "pyval \<Rightarrow> transport_protocol option" where
  "transport_protocol_of v =
     (case v of
        PEnum c s \<Rightarrow> if c = ''TransportProtocol''
          then dict_get [(''WEBSOCKET'', WEBSOCKET), (''FIX'', FIX), (''REST_POLL'', REST_POLL)] s else None
      | _ \<Rightarrow> None)"

definition validate_positive_float :: "pyval \<Rightarrow> float64 res" where
  "validate_positive_float v = check_pos BadBeat v"

definition validate_non_negative_float :: "pyval \<Rightarrow> float64 res" where
  "validate_non_negative_float v = check_nonneg BadBeat v"

definition validate_positive_int :: "pyval \<Rightarrow> int res" where
  "validate_positive_int v = check_int BadBeat (\<lambda>i. i \<le> 0) v"

definition validate_non_negative_int :: "pyval \<Rightarrow> int res" where
  "validate_non_negative_int v = check_int BadBeat (\<lambda>i. i < 0) v"

record heartbeat_config =
  heartbeat_interval_seconds :: float64
  timeout_seconds :: float64
  max_consecutive_misses :: int
  latency_warning_threshold_ms :: float64
  latency_critical_threshold_ms :: float64

definition heartbeat_config_new :: "pyval \<Rightarrow> pyval \<Rightarrow> pyval \<Rightarrow> pyval \<Rightarrow> pyval \<Rightarrow> heartbeat_config res" where
  "heartbeat_config_new iv tv mv wv cv =
     bindR (validate_positive_float iv) (\<lambda>interval.
     bindR (validate_positive_float tv) (\<lambda>timeout.
     bindR (validate_positive_int mv) (\<lambda>misses.
     bindR (validate_positive_float wv) (\<lambda>warn.
     bindR (validate_positive_float cv) (\<lambda>crit.
     if timeout < interval then Inl BadBeat
     else if crit < warn then Inl BadBeat
     else Inr \<lparr>heartbeat_interval_seconds = interval, timeout_seconds = timeout, max_consecutive_misses = misses,
               latency_warning_threshold_ms = warn, latency_critical_threshold_ms = crit\<rparr>)))))"

definition default_heartbeat_config :: heartbeat_config where
  "default_heartbeat_config = \<lparr>heartbeat_interval_seconds = Fin 1, timeout_seconds = Fin 3, max_consecutive_misses = 3,
     latency_warning_threshold_ms = Fin 250, latency_critical_threshold_ms = Fin 1000\<rparr>"

record heartbeat_record =
  hb_sequence_number :: int
  hb_timestamp_ns :: int
  hb_latency_ms :: float64
  hb_status :: connection_status

section \<open>The watchdog\<close>

record watchdog =
  wd_gateway_id :: string
  wd_config :: heartbeat_config
  wd_protocol :: transport_protocol
  wd_status :: connection_status
  last_heartbeat_timestamp_ns :: int
  last_sequence_number :: int
  expected_sequence_number :: int
  consecutive_misses :: int
  sequence_gaps_count :: int
  recent_latencies :: "float64 list"
  status_listeners :: "nat list"
  sequence_gap_listeners :: "nat list"
  disconnect_listeners :: "nat list"

definition watchdog_new :: "pyval \<Rightarrow> heartbeat_config option \<Rightarrow> pyval \<Rightarrow> pyval \<Rightarrow> pyval \<Rightarrow> pyval \<Rightarrow> watchdog res" where
  "watchdog_new gid cfg protocol seqv tsv statusv =
     bindR (check_nonblank BadBeat gid) (\<lambda>g.
     bindR (validate_positive_int seqv) (\<lambda>sq.
     bindR (validate_non_negative_int tsv) (\<lambda>ts.
     case transport_protocol_of protocol of
       None \<Rightarrow> Inl BadBeat
     | Some pr \<Rightarrow>
         (case connection_status_of statusv of
            None \<Rightarrow> Inl BadBeat
          | Some st \<Rightarrow>
              Inr \<lparr>wd_gateway_id = g, wd_config = (case cfg of None \<Rightarrow> default_heartbeat_config | Some c \<Rightarrow> c), wd_protocol = pr,
                   wd_status = st, last_heartbeat_timestamp_ns = ts, last_sequence_number = sq - 1, expected_sequence_number = sq,
                   consecutive_misses = 0, sequence_gaps_count = 0, recent_latencies = [], status_listeners = [],
                   sequence_gap_listeners = [], disconnect_listeners = []\<rparr>))))"

definition is_alive :: "watchdog \<Rightarrow> bool" where
  "is_alive wd \<longleftrightarrow> wd_status wd = CONNECTED \<or> wd_status wd = DEGRADED"

definition average_latency_ms :: "watchdog \<Rightarrow> float64" where
  "average_latency_ms wd =
     (if recent_latencies wd = [] then 0 else fdiv (py_sum (recent_latencies wd)) (float_of_int (int (length (recent_latencies wd)))))"

definition last_latency_ms :: "watchdog \<Rightarrow> float64" where
  "last_latency_ms wd = (if recent_latencies wd = [] then 0 else last (recent_latencies wd))"

definition max_latency_ms :: "watchdog \<Rightarrow> float64" where
  "max_latency_ms wd = (case recent_latencies wd of [] \<Rightarrow> 0 | x # xs \<Rightarrow> foldl py_max x xs)"

section \<open>Listeners\<close>

text \<open>What a listener is called with.\<close>

datatype hb_call =
  StatusChange connection_status connection_status int
| SequenceGap int int int
| Disconnected float64 int

text \<open>The loop over the listeners.\<close>

fun notify :: "(nat \<Rightarrow> string \<Rightarrow> hb_call \<Rightarrow> 'w \<Rightarrow> 'w \<times> unit res) \<Rightarrow> string \<Rightarrow> hb_call \<Rightarrow> nat list \<Rightarrow> 'w \<Rightarrow> 'w \<times> unit res" where
  "notify fire gid c [] w = (w, Inr ())"
| "notify fire gid c (l # ls) w =
     (case fire l gid c w of (w', Inl e) \<Rightarrow> (w', Inl e) | (w', Inr _) \<Rightarrow> notify fire gid c ls w')"

definition add_listener :: "nat \<Rightarrow> nat list \<Rightarrow> nat list" where
  "add_listener l ls = (if l \<in> set ls then ls else ls @ [l])"

definition register_status_listener :: "watchdog \<Rightarrow> nat \<Rightarrow> watchdog" where
  "register_status_listener wd l = wd\<lparr>status_listeners := add_listener l (status_listeners wd)\<rparr>"

definition unregister_status_listener :: "watchdog \<Rightarrow> nat \<Rightarrow> watchdog" where
  "unregister_status_listener wd l = wd\<lparr>status_listeners := remove1 l (status_listeners wd)\<rparr>"

definition register_sequence_gap_listener :: "watchdog \<Rightarrow> nat \<Rightarrow> watchdog" where
  "register_sequence_gap_listener wd l = wd\<lparr>sequence_gap_listeners := add_listener l (sequence_gap_listeners wd)\<rparr>"

definition unregister_sequence_gap_listener :: "watchdog \<Rightarrow> nat \<Rightarrow> watchdog" where
  "unregister_sequence_gap_listener wd l = wd\<lparr>sequence_gap_listeners := remove1 l (sequence_gap_listeners wd)\<rparr>"

definition register_disconnect_listener :: "watchdog \<Rightarrow> nat \<Rightarrow> watchdog" where
  "register_disconnect_listener wd l = wd\<lparr>disconnect_listeners := add_listener l (disconnect_listeners wd)\<rparr>"

definition unregister_disconnect_listener :: "watchdog \<Rightarrow> nat \<Rightarrow> watchdog" where
  "unregister_disconnect_listener wd l = wd\<lparr>disconnect_listeners := remove1 l (disconnect_listeners wd)\<rparr>"

section \<open>Transitions\<close>

definition mark_reconnecting ::
    "(nat \<Rightarrow> string \<Rightarrow> hb_call \<Rightarrow> 'w \<Rightarrow> 'w \<times> unit res) \<Rightarrow> watchdog \<Rightarrow> pyval \<Rightarrow> 'w \<Rightarrow> watchdog \<times> 'w \<times> unit res" where
  "mark_reconnecting fire wd tsv w =
     (case validate_non_negative_int tsv of
        Inl e \<Rightarrow> (wd, w, Inl e)
      | Inr ts \<Rightarrow>
          if wd_status wd = RECONNECTING then (wd, w, Inr ())
          else (wd\<lparr>wd_status := RECONNECTING\<rparr>,
                notify fire (wd_gateway_id wd) (StatusChange (wd_status wd) RECONNECTING ts) (status_listeners wd) w))"

definition watchdog_reset ::
    "(nat \<Rightarrow> string \<Rightarrow> hb_call \<Rightarrow> 'w \<Rightarrow> 'w \<times> unit res) \<Rightarrow> watchdog \<Rightarrow> pyval \<Rightarrow> pyval \<Rightarrow> 'w \<Rightarrow> watchdog \<times> 'w \<times> unit res" where
  "watchdog_reset fire wd seqv tsv w =
     (case bindR (validate_positive_int seqv) (\<lambda>sq. bindR (validate_non_negative_int tsv) (\<lambda>ts. Inr (sq, ts))) of
        Inl e \<Rightarrow> (wd, w, Inl e)
      | Inr (sq, ts) \<Rightarrow>
          (wd\<lparr>last_sequence_number := sq - 1, expected_sequence_number := sq, last_heartbeat_timestamp_ns := ts,
              consecutive_misses := 0, sequence_gaps_count := 0, recent_latencies := [], wd_status := CONNECTED\<rparr>,
           if wd_status wd = CONNECTED then (w, Inr ())
           else notify fire (wd_gateway_id wd) (StatusChange (wd_status wd) CONNECTED ts) (status_listeners wd) w))"

text \<open>A heartbeat: a gap listener that raises leaves the sequence counters and the status as they were.\<close>

definition record_heartbeat ::
    "(nat \<Rightarrow> string \<Rightarrow> hb_call \<Rightarrow> 'w \<Rightarrow> 'w \<times> unit res) \<Rightarrow> watchdog \<Rightarrow> pyval \<Rightarrow> pyval \<Rightarrow> pyval \<Rightarrow> 'w \<Rightarrow>
     watchdog \<times> 'w \<times> heartbeat_record res" where
  "record_heartbeat fire wd seqv latv tsv w =
     (case bindR (validate_positive_int seqv) (\<lambda>sq. bindR (validate_non_negative_float latv) (\<lambda>lat.
             bindR (validate_positive_int tsv) (\<lambda>ts. Inr (sq, lat, ts)))) of
        Inl e \<Rightarrow> (wd, w, Inl e)
      | Inr (sq, lat, ts) \<Rightarrow>
          let expected = expected_sequence_number wd;
              wd1 = wd\<lparr>last_heartbeat_timestamp_ns := ts, consecutive_misses := 0,
                       recent_latencies := deque_append 100 (recent_latencies wd) lat\<rparr>;
              wd2 = (if sq = expected then wd1 else wd1\<lparr>sequence_gaps_count := sequence_gaps_count wd1 + 1\<rparr>);
              (w2, r) = (if sq = expected then (w, Inr ())
                         else notify fire (wd_gateway_id wd) (SequenceGap expected sq ts) (sequence_gap_listeners wd) w)
          in case r of
               Inl e \<Rightarrow> (wd2, w2, Inl e)
             | Inr _ \<Rightarrow>
                 let wd3 = wd2\<lparr>last_sequence_number := sq, expected_sequence_number := (if sq \<ge> expected then sq + 1 else expected)\<rparr>;
                     new = (if lat \<ge> latency_warning_threshold_ms (wd_config wd) then DEGRADED else CONNECTED);
                     rec = \<lparr>hb_sequence_number = sq, hb_timestamp_ns = ts, hb_latency_ms = lat, hb_status = new\<rparr>
                 in if new = wd_status wd then (wd3, w2, Inr rec)
                    else case notify fire (wd_gateway_id wd) (StatusChange (wd_status wd) new ts) (status_listeners wd) w2 of
                           (w4, Inl e) \<Rightarrow> (wd3\<lparr>wd_status := new\<rparr>, w4, Inl e)
                         | (w4, Inr _) \<Rightarrow> (wd3\<lparr>wd_status := new\<rparr>, w4, Inr rec))"

text \<open>The floor division of floats, as CPython computes it from the exact remainder, for a non-negative dividend and a
  positive divisor.\<close>

fun py_floordiv :: "float64 \<Rightarrow> float64 \<Rightarrow> float64" where
  "py_floordiv (Fin a) (Fin b) =
     (let m = a - b * of_int \<lfloor>a / b\<rfloor>
      in case fdiv (rnd64 (a - m)) (Fin b) of
           Fin d \<Rightarrow> if d - of_int \<lfloor>d\<rfloor> > 1 / 2 then rnd64 (of_int (\<lfloor>d\<rfloor> + 1)) else Fin (of_int \<lfloor>d\<rfloor>)
         | x \<Rightarrow> x)"
| "py_floordiv _ _ = NaN"

text \<open>\<^verbatim>\<open>elapsed_ns / 1_000_000_000.0\<close>.\<close>

definition elapsed_seconds :: "int \<Rightarrow> float64 res" where
  "elapsed_seconds e = (if int_overflows e then Inl (PyErr OverflowError) else Inr (fdiv (float_of_int e) (Fin 1000000000)))"

definition check_liveness ::
    "(nat \<Rightarrow> string \<Rightarrow> hb_call \<Rightarrow> 'w \<Rightarrow> 'w \<times> unit res) \<Rightarrow> watchdog \<Rightarrow> pyval \<Rightarrow> 'w \<Rightarrow> watchdog \<times> 'w \<times> connection_status res" where
  "check_liveness fire wd nowv w =
     (case validate_positive_int nowv of
        Inl e \<Rightarrow> (wd, w, Inl e)
      | Inr now \<Rightarrow>
          if last_heartbeat_timestamp_ns wd = 0 then (wd\<lparr>last_heartbeat_timestamp_ns := now\<rparr>, w, Inr (wd_status wd))
          else
            case bindR (elapsed_seconds (max 0 (now - last_heartbeat_timestamp_ns wd))) (\<lambda>es.
                   bindR (py_int (py_floordiv es (heartbeat_interval_seconds (wd_config wd)))) (\<lambda>misses. Inr (es, misses))) of
              Inl e \<Rightarrow> (wd, w, Inl e)
            | Inr (es, misses) \<Rightarrow>
                let wd1 = wd\<lparr>consecutive_misses := misses\<rparr>
                in if es \<ge> timeout_seconds (wd_config wd) \<or> misses \<ge> max_consecutive_misses (wd_config wd)
                   then if wd_status wd = DISCONNECTED then (wd1, w, Inr DISCONNECTED)
                        else
                          (wd1\<lparr>wd_status := DISCONNECTED\<rparr>,
                           case notify fire (wd_gateway_id wd) (Disconnected es now) (disconnect_listeners wd) w of
                             (w1, Inl e) \<Rightarrow> (w1, Inl e)
                           | (w1, Inr _) \<Rightarrow>
                               (case notify fire (wd_gateway_id wd) (StatusChange (wd_status wd) DISCONNECTED now) (status_listeners wd) w1 of
                                  (w2, Inl e) \<Rightarrow> (w2, Inl e)
                                | (w2, Inr _) \<Rightarrow> (w2, Inr DISCONNECTED)))
                   else if misses \<ge> 1 \<and> wd_status wd = CONNECTED
                   then (wd1\<lparr>wd_status := DEGRADED\<rparr>,
                         case notify fire (wd_gateway_id wd) (StatusChange CONNECTED DEGRADED now) (status_listeners wd) w of
                           (w1, Inl e) \<Rightarrow> (w1, Inl e)
                         | (w1, Inr _) \<Rightarrow> (w1, Inr DEGRADED))
                   else (wd1, w, Inr (wd_status wd)))"

section \<open>Invariant\<close>

datatype hb_cmd = Beat pyval pyval pyval | Check pyval | Reconnect pyval | Reset pyval pyval | Listen nat nat nat

text \<open>Any call, with listeners that may raise.\<close>

fun watchdog_exec :: "(nat \<Rightarrow> string \<Rightarrow> hb_call \<Rightarrow> 'w \<Rightarrow> 'w \<times> unit res) \<Rightarrow> watchdog \<times> 'w \<Rightarrow> hb_cmd \<Rightarrow> watchdog \<times> 'w" where
  "watchdog_exec fire (wd, w) (Beat s l t) = (case record_heartbeat fire wd s l t w of (wd', w', _) \<Rightarrow> (wd', w'))"
| "watchdog_exec fire (wd, w) (Check t) = (case check_liveness fire wd t w of (wd', w', _) \<Rightarrow> (wd', w'))"
| "watchdog_exec fire (wd, w) (Reconnect t) = (case mark_reconnecting fire wd t w of (wd', w', _) \<Rightarrow> (wd', w'))"
| "watchdog_exec fire (wd, w) (Reset s t) = (case watchdog_reset fire wd s t w of (wd', w', _) \<Rightarrow> (wd', w'))"
| "watchdog_exec fire (wd, w) (Listen a b c) =
     (register_status_listener (register_sequence_gap_listener (register_disconnect_listener wd c) b) a, w)"

definition watchdog_inv :: "watchdog \<Rightarrow> bool" where
  "watchdog_inv wd \<longleftrightarrow> last_sequence_number wd < expected_sequence_number wd \<and> 0 \<le> last_sequence_number wd \<and>
     0 \<le> last_heartbeat_timestamp_ns wd \<and> 0 \<le> sequence_gaps_count wd \<and> length (recent_latencies wd) \<le> 100 \<and>
     list_all nonneg_finite (recent_latencies wd) \<and>
     distinct (status_listeners wd) \<and> distinct (sequence_gap_listeners wd) \<and> distinct (disconnect_listeners wd)"

lemma deque_append_bound: "length (deque_append 100 xs x) \<le> 100" "list_all P xs \<Longrightarrow> P x \<Longrightarrow> list_all P (deque_append 100 xs x)"
  by (auto simp: deque_append_def Let_def list_all_iff dest: in_set_dropD)

lemma add_listener_distinct: "distinct ls \<Longrightarrow> distinct (add_listener l ls)"
  by (simp add: add_listener_def)

lemma record_heartbeat_cases:
  assumes "record_heartbeat fire wd s l t w = (wd', w', r)"
  obtains (bad) e where "wd' = wd" "w' = w" "r = Inl e"
  | (gap) sq lat ts e where "s = PInt sq" "1 \<le> sq" "t = PInt ts" "1 \<le> ts" "nonneg_finite lat" "sq \<noteq> expected_sequence_number wd" "r = Inl e"
      "wd' = wd\<lparr>last_heartbeat_timestamp_ns := ts, consecutive_misses := 0, recent_latencies := deque_append 100 (recent_latencies wd) lat,
        sequence_gaps_count := sequence_gaps_count wd + 1\<rparr>"
  | (beat) sq lat ts st where "s = PInt sq" "1 \<le> sq" "t = PInt ts" "1 \<le> ts" "nonneg_finite lat"
      "wd' = wd\<lparr>last_heartbeat_timestamp_ns := ts, consecutive_misses := 0, recent_latencies := deque_append 100 (recent_latencies wd) lat,
        sequence_gaps_count := sequence_gaps_count wd + (if sq = expected_sequence_number wd then 0 else 1), last_sequence_number := sq,
        expected_sequence_number := max (expected_sequence_number wd) (sq + 1), wd_status := st\<rparr>"
proof (cases "bindR (validate_positive_int s) (\<lambda>sq. bindR (validate_non_negative_float l) (\<lambda>lat.
    bindR (validate_positive_int t) (\<lambda>ts. Inr (sq, lat, ts))))")
  case (Inl e)
  then show thesis using assms by (intro bad [of e]) (auto simp: record_heartbeat_def)
next
  case (Inr a)
  obtain sq lat ts where a: "a = (sq, lat, ts)" by (cases a)
  have v: "s = PInt sq" "1 \<le> sq" "t = PInt ts" "1 \<le> ts" "nonneg_finite lat"
    using Inr a by (auto simp: bindR_Inr_iff validate_positive_int_def validate_non_negative_float_def nonneg_finite_def dest!: check_facts)
  let ?ex = "expected_sequence_number wd"
  let ?new = "if lat \<ge> latency_warning_threshold_ms (wd_config wd) then DEGRADED else CONNECTED"
  obtain w2 r2 where g: "(if sq = ?ex then (w, Inr ()) else notify fire (wd_gateway_id wd) (SequenceGap ?ex sq ts) (sequence_gap_listeners wd) w) = (w2, r2)"
    by fastforce
  obtain w4 r4 where n: "notify fire (wd_gateway_id wd) (StatusChange (wd_status wd) ?new ts) (status_listeners wd) w2 = (w4, r4)" by fastforce
  have mx: "(if ?ex \<le> sq then sq + 1 else ?ex) = max ?ex (sq + 1)" by auto
  note d = assms [unfolded record_heartbeat_def Inr a sum.case prod.case Let_def g mx n]
  show thesis
  proof (cases r2)
    case (Inl e)
    then have "sq \<noteq> ?ex" using g by auto
    then show thesis using d Inl by (intro gap [OF v, of e]) auto
  next
    case r2: (Inr u)
    then show thesis using d by (intro beat [OF v, of ?new]) (cases "?new = wd_status wd"; cases r4; auto)+
  qed
qed

lemma record_heartbeat_inv:
  assumes "watchdog_inv wd" "record_heartbeat fire wd s l t w = (wd', w', r)"
  shows "watchdog_inv wd' \<and> expected_sequence_number wd \<le> expected_sequence_number wd'"
  using assms(2)
proof (cases rule: record_heartbeat_cases)
  case bad
  then show ?thesis using assms(1) by simp
next
  case gap
  then show ?thesis using assms(1) by (simp add: watchdog_inv_def deque_append_bound)
next
  case beat
  then show ?thesis using assms(1) by (simp add: watchdog_inv_def deque_append_bound)
qed

text \<open>The outcome of a liveness check whose arithmetic does not raise.\<close>

definition liveness_elapsed :: "watchdog \<Rightarrow> int \<Rightarrow> (float64 \<times> int) res" where
  "liveness_elapsed wd now =
     bindR (elapsed_seconds (max 0 (now - last_heartbeat_timestamp_ns wd))) (\<lambda>es.
       bindR (py_int (py_floordiv es (heartbeat_interval_seconds (wd_config wd)))) (\<lambda>misses. Inr (es, misses)))"

lemma check_liveness_status:
  assumes "check_liveness fire wd t w = (wd', w', r)"
  shows "\<exists>ts m st. wd' = wd\<lparr>last_heartbeat_timestamp_ns := ts, consecutive_misses := m, wd_status := st\<rparr> \<and>
     (0 \<le> last_heartbeat_timestamp_ns wd \<longrightarrow> 0 \<le> ts)"
proof (cases "validate_positive_int t")
  case (Inl e)
  then show ?thesis using assms
    by (intro exI [of _ "last_heartbeat_timestamp_ns wd"] exI [of _ "consecutive_misses wd"] exI [of _ "wd_status wd"])
       (simp add: check_liveness_def)
next
  case (Inr now)
  then have now: "0 < now" by (auto simp: validate_positive_int_def dest!: check_facts)
  show ?thesis
  proof (cases "last_heartbeat_timestamp_ns wd = 0 \<or> (\<exists>e. liveness_elapsed wd now = Inl e)")
    case True
    then show ?thesis using assms Inr now
      by (intro exI [of _ "if last_heartbeat_timestamp_ns wd = 0 then now else last_heartbeat_timestamp_ns wd"]
            exI [of _ "consecutive_misses wd"] exI [of _ "wd_status wd"])
         (auto simp: check_liveness_def liveness_elapsed_def)
  next
    case False
    then obtain es m where em: "last_heartbeat_timestamp_ns wd \<noteq> 0" "liveness_elapsed wd now = Inr (es, m)"
      by (cases "liveness_elapsed wd now") auto
    note d = assms [unfolded check_liveness_def Inr sum.case if_not_P [OF em(1)] em(2) [unfolded liveness_elapsed_def] prod.case Let_def]
    show ?thesis
      by (intro exI [of _ "last_heartbeat_timestamp_ns wd"] exI [of _ m] exI [of _ "wd_status wd'"]) (use d in \<open>auto split: if_splits\<close>)
  qed
qed

lemma check_liveness_inv:
  assumes "watchdog_inv wd" "check_liveness fire wd t w = (wd', w', r)"
  shows "watchdog_inv wd'"
  using check_liveness_status [OF assms(2)] assms(1) by (auto simp: watchdog_inv_def)

lemma watchdog_exec_inv:
  assumes "watchdog_inv (fst s)"
  shows "watchdog_inv (fst (watchdog_exec fire s c))"
proof -
  obtain wd w where s: "s = (wd, w)" by (cases s)
  show ?thesis
  proof (cases c)
    case (Beat sq l t)
    obtain wd' w' r where e: "record_heartbeat fire wd sq l t w = (wd', w', r)" by (metis prod_cases3)
    from record_heartbeat_inv [OF _ e] assms show ?thesis by (simp add: s Beat e)
  next
    case (Check t)
    obtain wd' w' r where e: "check_liveness fire wd t w = (wd', w', r)" by (metis prod_cases3)
    from check_liveness_inv [OF _ e] assms show ?thesis by (simp add: s Check e)
  next
    case (Reconnect t)
    then show ?thesis using assms s by (auto simp: mark_reconnecting_def watchdog_inv_def split: sum.splits prod.splits)
  next
    case (Reset sq t)
    then show ?thesis using assms s
      by (auto simp: watchdog_reset_def watchdog_inv_def validate_positive_int_def validate_non_negative_int_def bindR_Inr_iff
          split: sum.splits prod.splits dest!: check_facts)
  next
    case (Listen a b d)
    then show ?thesis using assms s
      by (simp add: watchdog_inv_def register_status_listener_def register_sequence_gap_listener_def register_disconnect_listener_def
          add_listener_distinct)
  qed
qed

interpretation hb_machine: invariant_machine "watchdog_exec fire" "\<lambda>s. watchdog_inv (fst s)" for fire
  by unfold_locales (rule watchdog_exec_inv)

text \<open>Sequence numbers expected from the peer never regress, except by a reset.\<close>

fun is_reset :: "hb_cmd \<Rightarrow> bool" where
  "is_reset (Reset _ _) = True"
| "is_reset _ = False"

lemma watchdog_exec_expected:
  assumes "watchdog_inv (fst s)" "\<not> is_reset c"
  shows "expected_sequence_number (fst s) \<le> expected_sequence_number (fst (watchdog_exec fire s c))"
proof -
  obtain wd w where s: "s = (wd, w)" by (cases s)
  show ?thesis
  proof (cases c)
    case (Beat sq l t)
    obtain wd' w' r where e: "record_heartbeat fire wd sq l t w = (wd', w', r)" by (metis prod_cases3)
    from record_heartbeat_inv [OF _ e] assms show ?thesis by (simp add: s Beat e)
  next
    case (Check t)
    obtain wd' w' r where e: "check_liveness fire wd t w = (wd', w', r)" by (metis prod_cases3)
    from check_liveness_status [OF e] show ?thesis by (auto simp: s Check e)
  next
    case (Reconnect t)
    then show ?thesis using s by (auto simp: mark_reconnecting_def split: sum.splits prod.splits)
  qed (use assms(2) s in \<open>simp_all add: register_status_listener_def register_sequence_gap_listener_def register_disconnect_listener_def\<close>)
qed

lemma watchdog_run_expected:
  "watchdog_inv (fst s) \<Longrightarrow> list_all (\<lambda>c. \<not> is_reset c) cs \<Longrightarrow>
   expected_sequence_number (fst s) \<le> expected_sequence_number (fst (foldl (watchdog_exec fire) s cs))"
proof (induction cs arbitrary: s)
  case (Cons c cs)
  note e = watchdog_exec_expected [of s c fire] and i = watchdog_exec_inv [of s fire c]
  have "expected_sequence_number (fst (watchdog_exec fire s c)) \<le>
      expected_sequence_number (fst (foldl (watchdog_exec fire) (watchdog_exec fire s c) cs))"
    by (rule Cons.IH) (use i Cons.prems in simp_all)
  then show ?case using e Cons.prems by simp
qed simp

text \<open>The watchdog's bookkeeping: from construction on, whatever calls are made and whatever the listeners do (raise, too), the
  last sequence number stays below the expected one, at most the last 100 latencies are kept and all are finite and
  non-negative, no listener is registered twice, and unless the watchdog is reset the expected sequence number never falls.\<close>

theorem watchdog_invariant:
  assumes "watchdog_new gid cfg protocol seqv tsv statusv = Inr wd0" and "foldl (watchdog_exec fire) (wd0, w0) (cs @ ds) = (wd, w)"
  shows "watchdog_inv wd \<and>
    (list_all (\<lambda>c. \<not> is_reset c) ds \<longrightarrow>
       expected_sequence_number (fst (foldl (watchdog_exec fire) (wd0, w0) cs)) \<le> expected_sequence_number wd)"
proof -
  have i: "watchdog_inv (fst (wd0, w0))"
  proof (cases "transport_protocol_of protocol = None \<or> connection_status_of statusv = None")
    case False
    then show ?thesis using assms(1)
      by (auto simp: watchdog_new_def bindR_Inr_iff validate_positive_int_def validate_non_negative_int_def watchdog_inv_def dest!: check_int_InrD)
  next
    case True
    then show ?thesis using assms(1) by (auto simp: watchdog_new_def bindR_Inr_iff split: option.splits)
  qed
  note m = hb_machine.run_inv [where fire = fire, OF i]
  show ?thesis using m [of "cs @ ds"] watchdog_run_expected [OF m [of cs], of ds fire] assms(2) by (simp del: foldl_Cons)
qed

theorem watchdog_invariant_witness:
  "\<exists>wd0 wd w. watchdog_new (PStr ''g'') None (PEnum ''TransportProtocol'' ''FIX'') (PInt 1) (PInt 0) (PEnum ''ConnectionStatus'' ''CONNECTED'') = Inr wd0 \<and>
     foldl (watchdog_exec (\<lambda>l g c w. (w, Inl (PyErr ValueError)))) (wd0, ()) ([] @ [Beat (PInt 5) (PInt 1) (PInt 1), Beat (PInt 2) (PInt 1) (PInt 2)]) = (wd, w) \<and>
     1 \<le> expected_sequence_number wd \<and> watchdog_inv wd"
proof -
  obtain wd0 where n: "watchdog_new (PStr ''g'') None (PEnum ''TransportProtocol'' ''FIX'') (PInt 1) (PInt 0) (PEnum ''ConnectionStatus'' ''CONNECTED'') = Inr wd0"
    and e: "expected_sequence_number wd0 = 1"
    by (simp add: watchdog_new_def check_nonblank_def str_strip_def is_space_def validate_positive_int_def validate_non_negative_int_def
        transport_protocol_of_def connection_status_of_def)
  obtain wd w where r: "foldl (watchdog_exec (\<lambda>l g c w. (w, Inl (PyErr ValueError)))) (wd0, ())
      ([] @ [Beat (PInt 5) (PInt 1) (PInt 1), Beat (PInt 2) (PInt 1) (PInt 2)]) = (wd, w)" by (metis surj_pair)
  from watchdog_invariant [OF n r] n r e show ?thesis by auto
qed

section \<open>Silence\<close>

lemma notify_silent: "\<forall>l w. snd (fire l g c w) = Inr () \<Longrightarrow> notify fire g c ls w = (foldl (\<lambda>w l. fst (fire l g c w)) w ls, Inr ())"
proof (induction ls arbitrary: w)
  case (Cons l ls)
  have "fire l g c w = (fst (fire l g c w), Inr ())" using Cons.prems by (metis prod.collapse)
  then show ?case using Cons by (metis (no_types, lifting) foldl_Cons notify.simps(2) old.prod.case old.sum.simps(6))
qed simp

lemma rnd64_in_range:
  assumes "0 \<le> x" "x \<le> 2 ^ n" "n \<le> 1000"
  shows "\<exists>y. rnd64 x = Fin y \<and> 0 \<le> y \<and> y \<le> 2 ^ n"
proof -
  have "rnd (2 ^ n) = (2 ^ n :: rat)" using rnd_dyadic [of 1 "int n"] by (simp add: two_pow_def)
  then have b: "rnd x \<le> 2 ^ n" "0 \<le> rnd x" using rnd_mono [OF assms(2)] rnd_mono [OF assms(1)] by simp_all
  have "(2 ^ n :: rat) < 2 ^ 1024" by (rule power_strict_increasing) (use assms(3) in simp_all)
  also have "\<dots> = max_exp" by (simp add: max_exp_def two_pow_def)
  finally have "(2 ^ n :: rat) < max_exp" .
  then show ?thesis using b by (auto simp: rnd64_def Let_def)
qed

lemma floordiv_defined:
  assumes "0 \<le> a" "a \<le> 2 ^ 53" "1 / 10 ^ 9 \<le> b"
  shows "\<exists>m. py_int (py_floordiv (Fin a) (Fin b)) = Inr m"
proof -
  have b0: "0 < b" using assms(3) by (rule less_le_trans [rotated]) simp
  define k where "k = \<lfloor>a / b\<rfloor>"
  have k: "0 \<le> k" "b * of_int k \<le> a" using assms(1) b0 floor_divide_lower [of b a] by (simp_all add: k_def mult.commute)
  have "0 \<le> b * of_int k" "b * of_int k \<le> 2 ^ 53" using k assms(2) b0 by (simp_all add: mult_nonneg_nonneg)
  then obtain x where x: "rnd64 (b * of_int k) = Fin x" "0 \<le> x" "x \<le> 2 ^ 53" using rnd64_in_range [of "b * of_int k" 53] by auto
  have "x / b \<le> 2 ^ 53 * 10 ^ 9"
  proof -
    have "x \<le> (2 ^ 53 * 10 ^ 9) * b" using x(3) assms(3) mult_left_mono [of "1 / 10 ^ 9" b "2 ^ 53 * 10 ^ 9"] by simp
    then show ?thesis using b0 by (simp add: field_simps)
  qed
  also have "\<dots> \<le> (2 :: rat) ^ 90" by simp
  finally obtain d where d: "rnd64 (x / b) = Fin d" "0 \<le> d" "d \<le> 2 ^ 90" using rnd64_in_range [of "x / b" 90] x(2) b0 by auto
  have "of_int \<lfloor>d\<rfloor> \<le> d" by simp
  moreover have "(2 ^ 90 + 1 :: rat) \<le> 2 ^ 91" by simp
  ultimately have "(of_int (\<lfloor>d\<rfloor> + 1) :: rat) \<le> 2 ^ 91" using d(3) unfolding of_int_add of_int_1 by linarith
  moreover have "0 \<le> (of_int (\<lfloor>d\<rfloor> + 1) :: rat)" using d(2) by simp
  ultimately obtain z where "rnd64 (of_int (\<lfloor>d\<rfloor> + 1)) = Fin z" using rnd64_in_range [of "of_int (\<lfloor>d\<rfloor> + 1)" 91] by auto
  then show ?thesis using x(1) d(1) by (simp add: k_def [symmetric] Let_def)
qed

text \<open>Elapsed times below \<open>2 ^ 53\<close> nanoseconds (104 days).\<close>

lemma elapsed_defined:
  assumes "0 \<le> e" "e < 2 ^ 53"
  shows "\<exists>a. elapsed_seconds e = Inr (Fin a) \<and> 0 \<le> a \<and> a \<le> 2 ^ 53 \<and>
    (\<forall>T. rnd64 T = Fin T \<and> T * 10 ^ 9 \<le> of_int e \<longrightarrow> T \<le> a)"
proof -
  have f: "float_of_int e = Fin (of_int e)" using assms rnd64_of_int [of e] by (simp add: float_of_int_def)
  have "(of_int e :: rat) \<le> of_int (2 ^ 53)" using assms(2) by (intro of_int_le_iff [THEN iffD2]) simp
  then have "0 \<le> (of_int e / 10 ^ 9 :: rat)" "(of_int e / 10 ^ 9 :: rat) \<le> 2 ^ 53" using assms(1) by simp_all
  then obtain a where a: "rnd64 (of_int e / 10 ^ 9) = Fin a" "0 \<le> a" "a \<le> 2 ^ 53" using rnd64_in_range [of "of_int e / 10 ^ 9" 53] by auto
  have "T \<le> a" if "rnd64 T = Fin T" "T * 10 ^ 9 \<le> of_int e" for T
    using rnd64_mono [of T "of_int e / 10 ^ 9"] that a(1) by simp
  then show ?thesis using f a by (auto simp: elapsed_seconds_def int_overflows_def)
qed

lemma silence_check:
  assumes "timeout_seconds (wd_config wd) = Fin T" "rnd64 T = Fin T" "heartbeat_interval_seconds (wd_config wd) = Fin i" "1 / 10 ^ 9 \<le> i"
    and "0 < last_heartbeat_timestamp_ns wd" "last_heartbeat_timestamp_ns wd \<le> now" "now - last_heartbeat_timestamp_ns wd < 2 ^ 53"
    and "T * 10 ^ 9 \<le> of_int (now - last_heartbeat_timestamp_ns wd)" and "\<forall>l g c w. snd (fire l g c w) = Inr ()"
  shows "\<exists>es m. check_liveness fire wd (PInt now) w =
    (wd\<lparr>consecutive_misses := m, wd_status := DISCONNECTED\<rparr>,
     if wd_status wd = DISCONNECTED then w
     else foldl (\<lambda>w l. fst (fire l (wd_gateway_id wd) (StatusChange (wd_status wd) DISCONNECTED now) w))
            (foldl (\<lambda>w l. fst (fire l (wd_gateway_id wd) (Disconnected es now) w)) w (disconnect_listeners wd)) (status_listeners wd),
     Inr DISCONNECTED)"
proof -
  let ?e = "now - last_heartbeat_timestamp_ns wd"
  obtain a where a: "elapsed_seconds ?e = Inr (Fin a)" "0 \<le> a" "a \<le> 2 ^ 53" "T \<le> a"
    using elapsed_defined [of ?e] assms(2,6,7,8) by auto
  obtain m where m: "py_int (py_floordiv (Fin a) (Fin i)) = Inr m" using floordiv_defined [OF a(2,3) assms(4)] by blast
  have n: "notify fire g c ls w = (foldl (\<lambda>w l. fst (fire l g c w)) w ls, Inr ())" for g c ls w
    by (rule notify_silent) (use assms(9) in simp)
  have "max 0 ?e = ?e" "last_heartbeat_timestamp_ns wd \<noteq> 0" "0 < now" using assms(5,6) by simp_all
  then show ?thesis
    using a(1,4) m unfolding check_liveness_def
    by (intro exI [of _ "Fin a"] exI [of _ m]) (simp add: validate_positive_int_def assms(1,3) n Let_def)
qed


definition silent_watchdog :: watchdog where
  "silent_watchdog = \<lparr>wd_gateway_id = ''g'', wd_config = default_heartbeat_config, wd_protocol = FIX, wd_status = CONNECTED,
     last_heartbeat_timestamp_ns = 1, last_sequence_number = 4, expected_sequence_number = 5, consecutive_misses = 0,
     sequence_gaps_count = 0, recent_latencies = [], status_listeners = [1], sequence_gap_listeners = [], disconnect_listeners = [7, 8]\<rparr>"


end
