(* ===== verification/Venues.thy ===== *)
theory Venues
  imports Order_Model
begin

text \<open>
  \<^verbatim>\<open>src/src/quant/execution/venues.py\<close>: venue profiles and the consolidated quote, with the validation their
  \<^verbatim>\<open>__post_init__\<close> methods run on dynamically typed arguments and the derived measures of the quote.

  Lemmas: a constructed profile and quote satisfy their documented bounds (\<open>venue_wf\<close>, \<open>quote_wf\<close>), and the midpoint of a
  quote lies between its bid and its ask.
\<close>

abbreviation BadSor :: exn where
  "BadSor \<equiv> Sor InvalidSORInputException"

section \<open>Venue profiles\<close>

datatype venue_type = LIT_EXCHANGE | DARK_POOL

definition venue_type_of :: "pyval \<Rightarrow> venue_type option" where
  "venue_type_of v =
     map_of [(PEnum ''VenueType'' ''LIT_EXCHANGE'', LIT_EXCHANGE), (PEnum ''VenueType'' ''DARK_POOL'', DARK_POOL)] v"

text \<open>\<^verbatim>\<open>not isinstance(v, C)\<close> for an enumeration \<^verbatim>\<open>C\<close>.\<close>

definition check_member :: "exn \<Rightarrow> (pyval \<Rightarrow> 'a option) \<Rightarrow> pyval \<Rightarrow> 'a res" where
  "check_member err f v = (case f v of Some x \<Rightarrow> Inr x | None \<Rightarrow> Inl err)"

record venue_profile =
  venue_id :: string
  venue_type :: venue_type
  maker_fee_bps :: float64
  taker_fee_bps :: float64
  min_order_size :: float64
  lot_size :: float64
  avg_latency_ms :: float64
  dark_fill_probability :: float64

record venue_args =
  va_venue_id :: pyval
  va_venue_type :: pyval
  va_maker_fee_bps :: pyval
  va_taker_fee_bps :: pyval
  va_min_order_size :: pyval
  va_lot_size :: pyval
  va_avg_latency_ms :: pyval
  va_dark_fill_probability :: pyval

text \<open>The call with the first four fields; the others have the defaults of the dataclass.\<close>

definition venue_defaults :: "pyval \<Rightarrow> pyval \<Rightarrow> pyval \<Rightarrow> pyval \<Rightarrow> venue_args" where
  "venue_defaults vid vt maker taker =
     \<lparr>va_venue_id = vid, va_venue_type = vt, va_maker_fee_bps = maker, va_taker_fee_bps = taker,
      va_min_order_size = PFloat 1, va_lot_size = PFloat 1, va_avg_latency_ms = PFloat 1,
      va_dark_fill_probability = PFloat (flit (35 / 100))\<rparr>"

definition venue_profile_new :: "venue_args \<Rightarrow> venue_profile res" where
  "venue_profile_new a =
     bindR (check_str BadSor (va_venue_id a)) (\<lambda>vid.
     bindR (check_member BadSor venue_type_of (va_venue_type a)) (\<lambda>vt.
     bindR (check_fin BadSor (va_maker_fee_bps a)) (\<lambda>maker.
     bindR (check_fin BadSor (va_taker_fee_bps a)) (\<lambda>taker.
     bindR (check_pos BadSor (va_min_order_size a)) (\<lambda>mn.
     bindR (check_pos BadSor (va_lot_size a)) (\<lambda>lot.
     bindR (check_nonneg BadSor (va_avg_latency_ms a)) (\<lambda>lat.
     bindR (check_number BadSor (\<lambda>a. a < 0 \<or> 1 < a) (va_dark_fill_probability a)) (\<lambda>pr.
     Inr \<lparr>venue_id = vid, venue_type = vt, maker_fee_bps = maker, taker_fee_bps = taker, min_order_size = mn,
          lot_size = lot, avg_latency_ms = lat, dark_fill_probability = pr\<rparr>))))))))"

section \<open>Consolidated quotes\<close>

record consolidated_quote =
  quote_symbol :: string
  bid_price :: float64
  bid_quantity :: float64
  ask_price :: float64
  ask_quantity :: float64
  quote_ns :: int
  venue_depths :: "(string \<times> float64 \<times> float64) list"

text \<open>An entry of \<^verbatim>\<open>venue_depths\<close>: a tuple or list of two values, or anything else.\<close>

datatype depth_arg = DepthPair pyval pyval | BadDepth

text \<open>\<open>None\<close> as depths: the argument is not a dict.\<close>

record quote_args =
  qa_symbol :: pyval
  qa_bid_price :: pyval
  qa_bid_quantity :: pyval
  qa_ask_price :: pyval
  qa_ask_quantity :: pyval
  qa_timestamp_ns :: pyval
  qa_venue_depths :: "(pyval \<times> depth_arg) list option"

definition check_depth :: "pyval \<times> depth_arg \<Rightarrow> (string \<times> float64 \<times> float64) res" where
  "check_depth e =
     (case e of (k, d) \<Rightarrow>
        bindR (check_str BadSor k) (\<lambda>vid.
          case d of
            BadDepth \<Rightarrow> Inl BadSor
          | DepthPair bv av \<Rightarrow>
              bindR (check_nonneg BadSor bv) (\<lambda>b. bindR (check_nonneg BadSor av) (\<lambda>x. Inr (vid, b, x)))))"

definition check_depths :: "(pyval \<times> depth_arg) list option \<Rightarrow> (string \<times> float64 \<times> float64) list res" where
  "check_depths d =
     (case d of None \<Rightarrow> Inl BadSor
      | Some es \<Rightarrow> foldR (\<lambda>acc e. bindR (check_depth e) (\<lambda>(vid, p). Inr (dict_set acc vid p))) [] es)"

definition consolidated_quote_new :: "quote_args \<Rightarrow> consolidated_quote res" where
  "consolidated_quote_new a =
     bindR (check_str BadSor (qa_symbol a)) (\<lambda>s.
     bindR (check_int BadSor (\<lambda>i. i < 0) (qa_timestamp_ns a)) (\<lambda>t.
     bindR (check_pos BadSor (qa_bid_price a)) (\<lambda>b.
     bindR (check_pos BadSor (qa_ask_price a)) (\<lambda>k.
     bindR (check_nonneg BadSor (qa_bid_quantity a)) (\<lambda>bq.
     bindR (check_nonneg BadSor (qa_ask_quantity a)) (\<lambda>kq.
     bindR (check_depths (qa_venue_depths a)) (\<lambda>ds.
     if k \<le> b then Inl (Sor NBBOViolationException)
     else Inr \<lparr>quote_symbol = s, bid_price = b, bid_quantity = bq, ask_price = k, ask_quantity = kq, quote_ns = t,
               venue_depths = ds\<rparr>)))))))"

definition midpoint :: "consolidated_quote \<Rightarrow> float64" where
  "midpoint q = fdiv (bid_price q + ask_price q) (Fin 2)"

definition spread :: "consolidated_quote \<Rightarrow> float64" where
  "spread q = ask_price q - bid_price q"

definition spread_bps :: "consolidated_quote \<Rightarrow> float64 res" where
  "spread_bps q =
     (if feq (midpoint q) 0 then Inl (PyErr ZeroDivisionError) else Inr (fdiv (spread q) (midpoint q) * Fin 10000))"

definition order_book_imbalance :: "consolidated_quote \<Rightarrow> float64" where
  "order_book_imbalance q =
     (let total_qty = bid_quantity q + ask_quantity q
      in if total_qty > 0 then fdiv (bid_quantity q - ask_quantity q) total_qty else 0)"

definition total_bid_depth :: "consolidated_quote \<Rightarrow> float64" where
  "total_bid_depth q = py_sum (map (\<lambda>(_, b, _). b) (venue_depths q))"

definition total_ask_depth :: "consolidated_quote \<Rightarrow> float64" where
  "total_ask_depth q = py_sum (map (\<lambda>(_, _, a). a) (venue_depths q))"

section \<open>Well-formed profiles and quotes\<close>

definition venue_wf :: "venue_profile \<Rightarrow> bool" where
  "venue_wf v \<longleftrightarrow> venue_id v \<noteq> [] \<and> isfinite (maker_fee_bps v) \<and> isfinite (taker_fee_bps v) \<and> pos_finite (min_order_size v) \<and>
     pos_finite (lot_size v) \<and> nonneg_finite (avg_latency_ms v) \<and> 0 \<le> dark_fill_probability v \<and> dark_fill_probability v \<le> 1"

definition depths_ok :: "(string \<times> float64 \<times> float64) list \<Rightarrow> bool" where
  "depths_ok ds \<longleftrightarrow> dict_ok ds \<and> list_all (\<lambda>(vid, b, a). vid \<noteq> [] \<and> nonneg_finite b \<and> nonneg_finite a) ds"

definition quote_wf :: "consolidated_quote \<Rightarrow> bool" where
  "quote_wf q \<longleftrightarrow> quote_symbol q \<noteq> [] \<and> pos_finite (bid_price q) \<and> pos_finite (ask_price q) \<and> bid_price q < ask_price q \<and>
     nonneg_finite (bid_quantity q) \<and> nonneg_finite (ask_quantity q) \<and> 0 \<le> quote_ns q \<and> depths_ok (venue_depths q)"

lemma check_unit_bounds:
  "check_number err (\<lambda>a. a < 0 \<or> 1 < a) v = Inr x \<Longrightarrow> 0 \<le> x \<and> x \<le> 1"
proof (induction err "\<lambda>a::rat. a < 0 \<or> 1 < a" v rule: check_number.induct)
  case (1 err i)
  then have "0 \<le> i" "i \<le> 1" "x = float_of_int i" by (auto split: if_splits)
  then have "i = 0 \<or> i = 1" by arith
  then show ?case using \<open>x = float_of_int i\<close> by (auto simp: float_of_int_def zero_float64_def one_float64_def)
qed (auto simp: one_float64_def split: if_splits)

lemma venue_profile_new_wf: "venue_profile_new a = Inr v \<Longrightarrow> venue_wf v"
  by (auto simp: venue_profile_new_def bindR_Inr_iff venue_wf_def dest!: check_facts check_unit_bounds check_fin_finite)

lemma depths_ok_set:
  assumes "depths_ok ds" "vid \<noteq> []" "nonneg_finite b" "nonneg_finite x"
  shows "depths_ok (dict_set ds vid (b, x))"
proof -
  have "set (dict_set ds vid (b, x)) \<subseteq> insert (vid, b, x) (set ds)" by (induction ds) auto
  then show ?thesis using assms by (auto simp: depths_ok_def list_all_iff distinct_update)
qed

lemma check_depth_ok: "check_depth e = Inr (vid, b, x) \<Longrightarrow> vid \<noteq> [] \<and> nonneg_finite b \<and> nonneg_finite x"
  by (cases e; cases "snd e") (auto simp: check_depth_def bindR_Inr_iff dest!: check_facts)

lemma check_depths_ok:
  assumes "check_depths d = Inr ds"
  shows "depths_ok ds"
proof -
  obtain es where es: "foldR (\<lambda>acc e. bindR (check_depth e) (\<lambda>(vid, p). Inr (dict_set acc vid p))) [] es = Inr ds"
    using assms by (auto simp: check_depths_def split: option.splits)
  show ?thesis
  proof (rule foldR_invariant [OF _ _ es, where P = depths_ok])
    show "depths_ok []" by (simp add: depths_ok_def)
  next
    fix acc e acc'
    assume "depths_ok acc" "bindR (check_depth e) (\<lambda>(vid, p). Inr (dict_set acc vid p)) = Inr acc'"
    then show "depths_ok acc'" by (auto simp: bindR_Inr_iff dest!: check_depth_ok intro: depths_ok_set)
  qed
qed

lemma consolidated_quote_new_wf: "consolidated_quote_new a = Inr q \<Longrightarrow> quote_wf q"
  by (auto simp: consolidated_quote_new_def bindR_Inr_iff quote_wf_def less_float64_def pos_finite_def isfinite_iff
      dest!: check_facts check_depths_ok split: if_splits)

section \<open>Measures of a quote\<close>

definition quote_doubles :: "consolidated_quote \<Rightarrow> bool" where
  "quote_doubles q \<longleftrightarrow> is_double (bid_price q) \<and> is_double (ask_price q) \<and> is_double (bid_quantity q) \<and> is_double (ask_quantity q)"

lemma imbalance_bounds:
  assumes "nonneg_finite (bid_quantity q)" "nonneg_finite (ask_quantity q)" "quote_doubles q"
  shows "Fin (- 1) \<le> order_book_imbalance q \<and> order_book_imbalance q \<le> Fin 1"
proof -
  obtain b a where ba: "bid_quantity q = Fin b" "ask_quantity q = Fin a" "0 \<le> b" "0 \<le> a"
    using assms by (auto simp: nonneg_finite_def isfinite_iff)
  show ?thesis
  proof (cases "rnd64 (b + a)")
    case (Fin t)
    show ?thesis
    proof (cases "0 < t")
      case True
      have t: "t = rnd (b + a)" "\<bar>t\<bar> < max_exp" using rnd64_FinD [OF Fin] by auto
      have le: "\<bar>rnd (b - a)\<bar> \<le> t" unfolding t(1) b64.r_abs using ba(3,4) by (intro rnd_mono) simp
      then have "bid_quantity q - ask_quantity q = Fin (rnd (b - a))"
        using t(2) by (simp add: ba minus_float64_def rnd64_def Let_def abs_less_iff abs_le_iff)
      then have e: "order_book_imbalance q = rnd64 (rnd (b - a) / t)"
        using Fin True by (simp add: order_book_imbalance_def ba Let_def)
      have "- 1 \<le> rnd (b - a) / t" "rnd (b - a) / t \<le> 1" using le True by (simp_all add: field_simps abs_le_iff)
      then show ?thesis unfolding e using rnd64_mono [of "- 1" "rnd (b - a) / t"] rnd64_mono [of "rnd (b - a) / t" 1] by simp
    next
      case False
      then show ?thesis using Fin by (simp add: order_book_imbalance_def ba Let_def)
    qed
  next
    case PInf
    have r: "rnd b = b" "\<bar>b\<bar> < max_exp" "rnd a = a" "\<bar>a\<bar> < max_exp"
      using assms(3) rnd64_FinD [of b b] rnd64_FinD [of a a] by (simp_all add: quote_doubles_def ba)
    have "\<bar>rnd (b - a)\<bar> \<le> rnd (max b a)" unfolding b64.r_abs using ba(3,4) by (intro rnd_mono) (simp add: max_def abs_if)
    also have "\<dots> < max_exp" using r by (auto simp: max_def)
    finally have "bid_quantity q - ask_quantity q = Fin (rnd (b - a))"
      by (simp add: ba minus_float64_def rnd64_def Let_def abs_less_iff)
    then show ?thesis using PInf by (simp add: order_book_imbalance_def ba Let_def)
  next
    case NInf
    have "0 \<le> rnd64 (b + a)" using ba(3,4) by (intro rnd64_nonneg) simp
    then show ?thesis using NInf by simp
  qed (simp add: order_book_imbalance_def)
qed

text \<open>The midpoint of an uncrossed quote does not leave the spread.\<close>

lemma midpoint_between:
  assumes "quote_wf q" "quote_doubles q" "isfinite (bid_price q + ask_price q)"
  shows "bid_price q \<le> midpoint q \<and> midpoint q \<le> ask_price q"
proof -
  obtain b k where bk: "bid_price q = Fin b" "ask_price q = Fin k" "b < k"
    using assms(1) by (auto simp: quote_wf_def pos_finite_def isfinite_iff)
  have d: "rnd64 b = Fin b" "rnd64 k = Fin k" using assms(2) by (simp_all add: quote_doubles_def bk)
  obtain c where "rnd64 (b + k) = Fin c" using assms(3) by (auto simp: bk isfinite_iff)
  then show ?thesis using half_between [OF d _ , of c] bk(3) by (simp add: midpoint_def bk)
qed

text \<open>The measures of a quote are consistent: a quote is only constructed for an uncrossed market, its midpoint lies
  between bid and ask (when their sum does not overflow), its spread is positive and its imbalance lies between -1 and 1.\<close>

theorem quote_measures:
  assumes "consolidated_quote_new a = Inr q" and "quote_doubles q"
  shows "bid_price q < ask_price q \<and> 0 < spread q \<and> Fin (- 1) \<le> order_book_imbalance q \<and> order_book_imbalance q \<le> Fin 1 \<and>
         (isfinite (bid_price q + ask_price q) \<longrightarrow> bid_price q \<le> midpoint q \<and> midpoint q \<le> ask_price q)"
proof -
  have wf: "quote_wf q" using assms(1) by (rule consolidated_quote_new_wf)
  then obtain b k where bk: "bid_price q = Fin b" "ask_price q = Fin k" "b < k" "0 < b"
    by (auto simp: quote_wf_def pos_finite_def isfinite_iff)
  have d: "rnd64 b = Fin b" "rnd64 k = Fin k" using assms(2) by (simp_all add: quote_doubles_def bk)
  then have r: "rnd b = b" "rnd k = k" "\<bar>k\<bar> < max_exp" using rnd64_FinD by blast+
  have "0 < rnd (k - b)" using double_diff_pos r bk(3) by blast
  then have s: "0 < spread q" by (auto simp: spread_def bk minus_float64_def rnd64_def Let_def)
  then show ?thesis using s imbalance_bounds [OF _ _ assms(2)] wf midpoint_between [OF wf assms(2)] by (simp add: quote_wf_def)
qed

theorem quote_measures_witness:
  "\<exists>q. consolidated_quote_new \<lparr>qa_symbol = PStr ''AAPL'', qa_bid_price = PInt 100, qa_bid_quantity = PInt 5, qa_ask_price = PInt 102,
       qa_ask_quantity = PInt 0, qa_timestamp_ns = PInt 0, qa_venue_depths = Some [(PStr ''NSDQ'', DepthPair (PInt 5) (PInt 0))]\<rparr> = Inr q \<and>
     bid_price q \<le> midpoint q \<and> midpoint q \<le> ask_price q \<and> order_book_imbalance q \<le> Fin 1"
proof -
  let ?a = "\<lparr>qa_symbol = PStr ''AAPL'', qa_bid_price = PInt 100, qa_bid_quantity = PInt 5, qa_ask_price = PInt 102,
       qa_ask_quantity = PInt 0, qa_timestamp_ns = PInt 0, qa_venue_depths = Some [(PStr ''NSDQ'', DepthPair (PInt 5) (PInt 0))]\<rparr>"
  let ?q = "\<lparr>quote_symbol = ''AAPL'', bid_price = Fin 100, bid_quantity = Fin 5, ask_price = Fin 102, ask_quantity = 0, quote_ns = 0,
       venue_depths = [(''NSDQ'', Fin 5, 0)]\<rparr>"
  have q: "consolidated_quote_new ?a = Inr ?q"
    by (simp add: consolidated_quote_new_def check_str_def check_depths_def check_depth_def int_overflows_def float_of_int_def)
  have "quote_doubles ?q" by (simp add: quote_doubles_def)
  from quote_measures [OF q this] q show ?thesis by simp
qed

end
