(* ===== verification/Smart_Router.thy ===== *)
theory Smart_Router
  imports Venues Py_Sum "HOL-Library.Multiset" "HOL-Library.List_Lexorder" "HOL-Library.Product_Lexorder" "HOL-Library.Char_ord"
begin

text \<open>
  \<^verbatim>\<open>src/src/quant/execution/sor.py\<close>: routed orders, venue health with its toxicity quarantine, and the smart order
  router: allocation of a slice over dark and lit venues and markout feedback. (The routing of a slice through an execution
  gateway is in \<open>Slice_Routing\<close>.)

  Arguments that the router computes itself (float quantities and prices, enumeration members) are typed, so their
  \<^verbatim>\<open>isinstance\<close> guards hold; the guards on values remain. Health objects live in the dictionary of the router and are
  changed in place by \<^verbatim>\<open>is_active\<close>, also when the call raises later.

  Lemmas: what an allocation contains (venues, prices, quantities), exact conservation for whole quantities, minimal fees,
  and the quarantine discipline of the venue health.
\<close>

definition routing_eps :: float64 where
  "routing_eps = flit (1 / 10 ^ 7)"

section \<open>Routed orders\<close>

record routed_order =
  ro_venue_id :: string
  ro_venue_type :: venue_type
  ro_symbol :: string
  ro_side :: order_side
  ro_quantity :: float64
  ro_price :: float64
  ro_tif :: time_in_force
  ro_order_type :: order_type
  ro_is_dark :: bool

definition routed_order_new :: "routed_order \<Rightarrow> routed_order res" where
  "routed_order_new r =
     (if str_strip (ro_venue_id r) = [] then Inl BadSor
      else if str_strip (ro_symbol r) = [] then Inl BadSor
      else if \<not> isfinite (ro_quantity r) \<or> ro_quantity r \<le> 0 then Inl BadSor
      else if \<not> isfinite (ro_price r) \<or> ro_price r \<le> 0 then Inl BadSor
      else Inr r)"

section \<open>Venue health\<close>

record venue_health =
  vh_venue_id :: string
  is_quarantined :: bool
  total_fills :: int
  cumulative_markout_bps :: float64
  consecutive_toxic_fills :: int
  quarantine_until_ns :: int

definition venue_health_new :: "venue_health \<Rightarrow> venue_health res" where
  "venue_health_new h =
     (if str_strip (vh_venue_id h) = [] then Inl BadSor
      else if total_fills h < 0 then Inl BadSor
      else if \<not> isfinite (cumulative_markout_bps h) then Inl BadSor
      else if consecutive_toxic_fills h < 0 then Inl BadSor
      else if quarantine_until_ns h < 0 then Inl BadSor
      else Inr h)"

text \<open>\<^verbatim>\<open>VenueHealth(venue_id=vid)\<close>: the other fields have their defaults.\<close>

definition fresh_health :: "string \<Rightarrow> venue_health" where
  "fresh_health vid =
     \<lparr>vh_venue_id = vid, is_quarantined = False, total_fills = 0, cumulative_markout_bps = 0, consecutive_toxic_fills = 0,
      quarantine_until_ns = 0\<rparr>"

definition average_markout_bps :: "venue_health \<Rightarrow> float64" where
  "average_markout_bps h = (if total_fills h = 0 then 0 else fdiv (cumulative_markout_bps h) (float_of_int (total_fills h)))"

definition health_is_active :: "int \<Rightarrow> venue_health \<Rightarrow> venue_health \<times> bool" where
  "health_is_active now h =
     (if is_quarantined h
      then if quarantine_until_ns h > 0 \<and> now \<ge> quarantine_until_ns h
           then (h\<lparr>is_quarantined := False, consecutive_toxic_fills := 0\<rparr>, True) else (h, False)
      else (h, True))"

definition health_record_fill :: "venue_health \<Rightarrow> float64 \<Rightarrow> int \<Rightarrow> float64 \<Rightarrow> int \<Rightarrow> int \<Rightarrow> venue_health \<times> unit res" where
  "health_record_fill h markout now threshold toxic_limit duration =
     (if \<not> isfinite markout \<or> now < 0 \<or> \<not> isfinite threshold \<or> toxic_limit < 1 \<or> duration < 0 then (h, Inl BadSor)
      else
        let h1 = (if is_quarantined h \<and> quarantine_until_ns h > 0 \<and> now \<ge> quarantine_until_ns h
                  then h\<lparr>is_quarantined := False, consecutive_toxic_fills := 0\<rparr> else h);
            h2 = h1\<lparr>total_fills := total_fills h1 + 1, cumulative_markout_bps := cumulative_markout_bps h1 + markout\<rparr>
        in if markout < threshold
           then let h3 = h2\<lparr>consecutive_toxic_fills := consecutive_toxic_fills h2 + 1\<rparr>
                in (if consecutive_toxic_fills h3 \<ge> toxic_limit
                    then h3\<lparr>is_quarantined := True, quarantine_until_ns := max (quarantine_until_ns h3) (now + duration)\<rparr>
                    else h3, Inr ())
           else (h2\<lparr>consecutive_toxic_fills := 0\<rparr>, Inr ()))"

section \<open>Router\<close>

record smart_router =
  sr_venues :: "(string \<times> venue_profile) list"
  toxic_markout_threshold_bps :: float64
  toxic_fill_limit :: int
  quarantine_duration_sec :: float64
  dark_venues :: "venue_profile list"
  lit_venues :: "venue_profile list"
  sr_health :: "(string \<times> venue_health) list"

text \<open>\<open>None\<close> stands for a value that is not a \<^verbatim>\<open>VenueProfile\<close>.\<close>

definition check_venue :: "(string \<times> venue_profile) list \<Rightarrow> pyval \<times> venue_profile option \<Rightarrow> (string \<times> venue_profile) list res" where
  "check_venue acc e =
     bindR (check_nonblank BadSor (fst e)) (\<lambda>vid.
       case snd e of None \<Rightarrow> Inl BadSor | Some v \<Rightarrow> Inr (dict_set acc vid v))"

definition smart_router_new :: "(pyval \<times> venue_profile option) list \<Rightarrow> pyval \<Rightarrow> pyval \<Rightarrow> pyval \<Rightarrow> smart_router res" where
  "smart_router_new venues thresholdv limitv durationv =
     (if venues = [] then Inl BadSor
      else
        bindR (foldR check_venue [] venues) (\<lambda>vs.
        bindR (check_fin BadSor thresholdv) (\<lambda>threshold.
        bindR (check_int BadSor (\<lambda>i. i < 1) limitv) (\<lambda>limit.
        bindR (check_nonneg BadSor durationv) (\<lambda>duration.
        bindR (mapR (\<lambda>(vid, _). bindR (venue_health_new (fresh_health vid)) (\<lambda>h. Inr (vid, h))) vs) (\<lambda>hs.
        Inr \<lparr>sr_venues = vs, toxic_markout_threshold_bps = threshold, toxic_fill_limit = limit, quarantine_duration_sec = duration,
             dark_venues = filter (\<lambda>v. venue_type v = DARK_POOL) (map snd vs),
             lit_venues = filter (\<lambda>v. venue_type v = LIT_EXCHANGE) (map snd vs), sr_health = hs\<rparr>))))))"

text \<open>The loops that look up the health of each venue (\<^verbatim>\<open>KeyError\<close> when there is none), revive it when its quarantine is
  over, and keep what \<open>pick\<close> returns for the active ones.\<close>

fun scan_venues ::
    "int \<Rightarrow> (venue_profile \<Rightarrow> 'a option) \<Rightarrow> (string \<times> venue_health) list \<Rightarrow> venue_profile list \<Rightarrow>
     (string \<times> venue_health) list \<times> 'a list res" where
  "scan_venues now pick hs [] = (hs, Inr [])"
| "scan_venues now pick hs (v # vs) =
     (case dict_get hs (venue_id v) of
        None \<Rightarrow> (hs, Inl (PyErr KeyError))
      | Some h \<Rightarrow>
          let (h', active) = health_is_active now h;
              (hs', r) = scan_venues now pick (dict_set hs (venue_id v) h') vs
          in (hs', bindR r (\<lambda>xs. Inr (case (if active then pick v else None) of Some x \<Rightarrow> x # xs | None \<Rightarrow> xs))))"

text \<open>Sort keys; the numbers are finite in every validated profile.\<close>

definition dark_key :: "venue_profile \<Rightarrow> rat \<times> rat \<times> rat \<times> string" where
  "dark_key v = (fin_val (taker_fee_bps v), - fin_val (dark_fill_probability v), fin_val (avg_latency_ms v), venue_id v)"

definition lit_key :: "venue_profile \<times> float64 \<Rightarrow> rat \<times> rat \<times> string" where
  "lit_key c = (fin_val (taker_fee_bps (fst c)), fin_val (avg_latency_ms (fst c)), venue_id (fst c))"

definition lit_candidate :: "consolidated_quote \<Rightarrow> order_side \<Rightarrow> venue_profile \<Rightarrow> (venue_profile \<times> float64) option" where
  "lit_candidate quote sd v =
     (case dict_get (venue_depths quote) (venue_id v) of
        None \<Rightarrow> None
      | Some (b, a) \<Rightarrow> let avail = (if sd = BUY then a else b) in if avail > routing_eps then Some (v, avail) else None)"

definition child_order_of :: "string \<Rightarrow> order_side \<Rightarrow> venue_profile \<Rightarrow> bool \<Rightarrow> float64 \<Rightarrow> float64 \<Rightarrow> routed_order" where
  "child_order_of s sd v dark q p =
     \<lparr>ro_venue_id = venue_id v, ro_venue_type = (if dark then DARK_POOL else LIT_EXCHANGE), ro_symbol = s, ro_side = sd,
      ro_quantity = q, ro_price = p, ro_tif = IOC, ro_order_type = LIMIT, ro_is_dark = dark\<rparr>"

text \<open>The greedy loop over the sorted lit candidates: the routed orders and the quantity left.\<close>

fun allocate_lit ::
    "string \<Rightarrow> order_side \<Rightarrow> float64 \<Rightarrow> (string \<times> routed_order) list \<Rightarrow> float64 \<Rightarrow> (venue_profile \<times> float64) list \<Rightarrow>
     ((string \<times> routed_order) list \<times> float64) res" where
  "allocate_lit s sd target al q_rem [] = Inr (al, q_rem)"
| "allocate_lit s sd target al q_rem ((v, avail) # cs) =
     (if q_rem \<le> routing_eps then Inr (al, q_rem)
      else
        let fill_qty = py_min q_rem avail
        in if fill_qty \<le> routing_eps then allocate_lit s sd target al q_rem cs
           else bindR (routed_order_new (child_order_of s sd v False fill_qty target)) (\<lambda>r.
                  allocate_lit s sd target (dict_set al (venue_id v) r) (q_rem - fill_qty) cs))"

definition route_lit ::
    "smart_router \<Rightarrow> string \<Rightarrow> order_side \<Rightarrow> float64 \<Rightarrow> consolidated_quote \<Rightarrow> bool \<Rightarrow> int \<Rightarrow> smart_router \<times> (string \<times> routed_order) list res" where
  "route_lit sr s sd q quote allow_partial now =
     (if lit_venues sr = [] then (sr, if allow_partial then Inr [] else Inl (Sor InsufficientLiquidityException))
      else
        let target = (if sd = BUY then ask_price quote else bid_price quote);
            (hs, r) = scan_venues now (lit_candidate quote sd) (sr_health sr) (lit_venues sr)
        in (sr\<lparr>sr_health := hs\<rparr>,
            bindR r (\<lambda>cands.
              if cands = [] then if allow_partial then Inr [] else Inl (Sor InsufficientLiquidityException)
              else
                bindR (allocate_lit s sd target [] q (sort_key lit_key cands)) (\<lambda>(al, q_rem).
                  if q_rem > routing_eps \<and> \<not> allow_partial then Inl (Sor InsufficientLiquidityException) else Inr al))))"

definition route_dark ::
    "smart_router \<Rightarrow> string \<Rightarrow> order_side \<Rightarrow> float64 \<Rightarrow> consolidated_quote \<Rightarrow> int \<Rightarrow> smart_router \<times> (string \<times> routed_order) list option res" where
  "route_dark sr s sd q quote now =
     (let (hs, r) = scan_venues now (\<lambda>v. if min_order_size v \<le> q then Some v else None) (sr_health sr) (dark_venues sr)
      in (sr\<lparr>sr_health := hs\<rparr>,
          bindR r (\<lambda>eligible.
            case sort_key dark_key eligible of
              [] \<Rightarrow> Inr None
            | best # _ \<Rightarrow>
                bindR (routed_order_new (child_order_of s sd best True q (midpoint quote))) (\<lambda>r. Inr (Some [(venue_id best, r)])))))"

definition check_allocation_args :: "pyval \<Rightarrow> pyval \<Rightarrow> pyval \<Rightarrow> consolidated_quote \<Rightarrow> pyval \<Rightarrow> (string \<times> order_side \<times> float64 \<times> int) res" where
  "check_allocation_args symv sidev qv quote nowv =
     bindR (check_nonblank BadSor symv) (\<lambda>s.
       if str_strip s \<noteq> quote_symbol quote then Inl BadSor
       else
         bindR (check_member BadSor order_side_of sidev) (\<lambda>sd.
         bindR (check_pos BadSor qv) (\<lambda>q.
         bindR (check_int BadSor (\<lambda>i. i < 0) nowv) (\<lambda>now.
         if bid_price quote \<ge> ask_price quote then Inl (Sor NBBOViolationException) else Inr (s, sd, q, now)))))"

definition compute_routing_allocation ::
    "smart_router \<Rightarrow> pyval \<Rightarrow> pyval \<Rightarrow> pyval \<Rightarrow> consolidated_quote \<Rightarrow> bool \<Rightarrow> bool \<Rightarrow> pyval \<Rightarrow>
     smart_router \<times> (string \<times> routed_order) list res" where
  "compute_routing_allocation sr symv sidev qv quote enable_dark allow_partial nowv =
     (case check_allocation_args symv sidev qv quote nowv of
        Inl e \<Rightarrow> (sr, Inl e)
      | Inr (s, sd, q, now) \<Rightarrow>
          if enable_dark \<and> dark_venues sr \<noteq> []
          then (case route_dark sr s sd q quote now of
                  (sr', Inl e) \<Rightarrow> (sr', Inl e)
                | (sr', Inr (Some al)) \<Rightarrow> (sr', Inr al)
                | (sr', Inr None) \<Rightarrow> route_lit sr' s sd q quote allow_partial now)
          else route_lit sr s sd q quote allow_partial now)"

text \<open>Markout feedback; the \<^verbatim>\<open>fill_price\<close> is positive, so the division is defined.\<close>

definition markout_bps :: "order_side \<Rightarrow> float64 \<Rightarrow> float64 \<Rightarrow> float64" where
  "markout_bps sd fill_price mid =
     fdiv (if sd = BUY then mid - fill_price else fill_price - mid) fill_price * Fin 10000"

definition record_fill_markout :: "smart_router \<Rightarrow> string \<Rightarrow> order_side \<Rightarrow> float64 \<Rightarrow> float64 \<Rightarrow> int \<Rightarrow> smart_router \<times> unit res" where
  "record_fill_markout sr vid sd fill_price mid now =
     (if str_strip vid = [] then (sr, Inl BadSor)
      else
        case dict_get (sr_health sr) vid of
          None \<Rightarrow> (sr, Inl BadSor)
        | Some h \<Rightarrow>
            if \<not> isfinite fill_price \<or> fill_price \<le> 0 \<or> \<not> isfinite mid \<or> mid \<le> 0 \<or> now < 0 then (sr, Inl BadSor)
            else
              case py_int (quarantine_duration_sec sr * Fin 1000000000) of
                Inl e \<Rightarrow> (sr, Inl e)
              | Inr duration \<Rightarrow>
                  let (h', r) = health_record_fill h (markout_bps sd fill_price mid) now (toxic_markout_threshold_bps sr)
                                  (toxic_fill_limit sr) duration
                  in (sr\<lparr>sr_health := dict_set (sr_health sr) vid h'\<rparr>, r))"

definition get_venue_health :: "smart_router \<Rightarrow> string \<Rightarrow> int \<Rightarrow> smart_router \<times> venue_health res" where
  "get_venue_health sr vid now =
     (case dict_get (sr_health sr) vid of
        None \<Rightarrow> (sr, Inl BadSor)
      | Some h \<Rightarrow> let h' = fst (health_is_active now h) in (sr\<lparr>sr_health := dict_set (sr_health sr) vid h'\<rparr>, Inr h'))"

section \<open>What the scans select\<close>

definition venue_live :: "(string \<times> venue_health) list \<Rightarrow> int \<Rightarrow> string \<Rightarrow> bool" where
  "venue_live hs now vid \<longleftrightarrow>
     (\<exists>h. dict_get hs vid = Some h \<and> (is_quarantined h \<longrightarrow> 0 < quarantine_until_ns h \<and> quarantine_until_ns h \<le> now))"

lemma health_is_active_iff:
  "snd (health_is_active now h) \<longleftrightarrow> (is_quarantined h \<longrightarrow> 0 < quarantine_until_ns h \<and> quarantine_until_ns h \<le> now)"
  by (simp add: health_is_active_def)

lemma health_is_active_idem: "snd (health_is_active now (fst (health_is_active now h))) = snd (health_is_active now h)"
  by (simp add: health_is_active_def)

lemma venue_live_after: "venue_live (dict_set hs vid (fst (health_is_active now h))) now u \<longleftrightarrow> venue_live hs now u"
  if "dict_get hs vid = Some h"
  using that health_is_active_idem [of now h] by (auto simp: venue_live_def health_is_active_iff)

lemma scan_venues_select:
  assumes "scan_venues now pick hs vs = (hs', Inr xs)"
  shows "xs = List.map_filter (\<lambda>v. if venue_live hs now (venue_id v) then pick v else None) vs"
  using assms
proof (induction vs arbitrary: hs hs' xs)
  case (Cons v vs)
  obtain h where h: "dict_get hs (venue_id v) = Some h" using Cons.prems by (auto split: option.splits)
  obtain h' act where a: "health_is_active now h = (h', act)" by fastforce
  obtain hs1 r where s: "scan_venues now pick (dict_set hs (venue_id v) h') vs = (hs1, r)" by fastforce
  obtain ys where r: "r = Inr ys" "xs = (case (if act then pick v else None) of Some x \<Rightarrow> x # ys | None \<Rightarrow> ys)"
    using Cons.prems by (auto simp: h a s bindR_Inr_iff)
  have ys: "ys = List.map_filter (\<lambda>v. if venue_live hs now (venue_id v) then pick v else None) vs"
    using Cons.IH [OF s [unfolded r(1)]] venue_live_after [OF h, of now] a by simp
  have "venue_live hs now (venue_id v) = act" using h a health_is_active_iff [of now h] by (simp add: venue_live_def)
  then show ?case using r(2) ys by (simp add: map_filter_simps split: option.splits)
qed (simp add: map_filter_simps)

lemma scan_venues_health: "venue_live (fst (scan_venues now pick hs vs)) now u \<longleftrightarrow> venue_live hs now u"
proof (induction vs arbitrary: hs)
  case (Cons v vs)
  have step: "fst (scan_venues now pick hs (v # vs)) = (case dict_get hs (venue_id v) of None \<Rightarrow> hs
      | Some h \<Rightarrow> fst (scan_venues now pick (dict_set hs (venue_id v) (fst (health_is_active now h))) vs))"
    by (simp add: Let_def split: option.splits prod.splits)
  show ?case unfolding step using Cons venue_live_after [of hs "venue_id v" _ now u] by (simp split: option.splits)
qed simp

section \<open>What an allocation contains\<close>

lemma routed_order_new_Inr: "routed_order_new r = Inr r' \<Longrightarrow> r' = r \<and> pos_finite (ro_quantity r) \<and> pos_finite (ro_price r)"
proof -
  have "0 < x" if "isfinite x" "\<not> x \<le> 0" for x :: float64 using that by (auto simp: isfinite_iff)
  then show "routed_order_new r = Inr r' \<Longrightarrow> r' = r \<and> pos_finite (ro_quantity r) \<and> pos_finite (ro_price r)"
    by (auto simp: routed_order_new_def pos_finite_def split: if_splits)
qed

text \<open>A lit order for a candidate venue: within its depth, at the target price.\<close>

definition lit_order_ok :: "string \<Rightarrow> order_side \<Rightarrow> float64 \<Rightarrow> (venue_profile \<times> float64) set \<Rightarrow> string \<times> routed_order \<Rightarrow> bool" where
  "lit_order_ok s sd target cs e \<longleftrightarrow>
     (\<exists>(v, avail) \<in> cs. fst e = venue_id v \<and> snd e = child_order_of s sd v False (ro_quantity (snd e)) target \<and>
        pos_finite (ro_quantity (snd e)) \<and> ro_quantity (snd e) \<le> avail)"

lemma py_min_le_right: "py_min x y \<le> y" if "isfinite (py_min x y)" "isfinite y"
  using that by (auto simp: py_min_def less_float64_def isfinite_iff split: if_splits)

lemma routing_eps_not_nan [simp]: "routing_eps \<noteq> NaN"
  by (simp add: routing_eps_def)

lemma allocate_lit_sound:
  assumes "allocate_lit s sd target al q cs = Inr (al', q')" and "\<forall>e \<in> set al. lit_order_ok s sd target C e" and "set cs \<subseteq> C"
    and "\<forall>(v, avail) \<in> C. isfinite avail"
  shows "\<forall>e \<in> set al'. lit_order_ok s sd target C e"
  using assms(1-3)
proof (induction s sd target al q cs rule: allocate_lit.induct)
  case (2 s sd target al q v avail cs)
  let ?f = "py_min q avail"
  consider (stop) "q \<le> routing_eps" | (skip) "\<not> q \<le> routing_eps" "?f \<le> routing_eps" | (take) "\<not> q \<le> routing_eps" "\<not> ?f \<le> routing_eps"
    by blast
  then show ?case
  proof cases
    case take
    obtain r where r: "routed_order_new (child_order_of s sd v False ?f target) = Inr r"
      "allocate_lit s sd target (dict_set al (venue_id v) r) (q - ?f) cs = Inr (al', q')"
      using 2(3) take by (auto simp: bindR_Inr_iff Let_def)
    note rf = routed_order_new_Inr [OF r(1)]
    have "isfinite avail" "(v, avail) \<in> C" using 2(5) assms(4) by auto
    then have "lit_order_ok s sd target C (venue_id v, r)"
      using rf py_min_le_right [of q avail] by (auto simp: lit_order_ok_def child_order_of_def pos_finite_def intro!: bexI [of _ "(v, avail)"])
    moreover have "set (dict_set al (venue_id v) r) \<subseteq> insert (venue_id v, r) (set al)" by (induction al) auto
    ultimately show ?thesis using 2(2) [OF take(1) refl take(2) r(2)] 2(4,5) by fastforce
  qed (use 2 in auto)
qed simp

lemma map_filter_set: "x \<in> set (List.map_filter f vs) \<longleftrightarrow> (\<exists>v \<in> set vs. f v = Some x)"
  by (force simp: map_filter_def)

lemma lit_candidate_Some:
  "lit_candidate quote sd u = Some (v, avail) \<longleftrightarrow> v = u \<and> routing_eps < avail \<and>
     (\<exists>b a. dict_get (venue_depths quote) (venue_id v) = Some (b, a) \<and> avail = (if sd = BUY then a else b))"
  by (cases "dict_get (venue_depths quote) (venue_id u)"; cases "sd = BUY") (auto simp: lit_candidate_def Let_def split: if_splits)

lemma lit_candidates_set:
  "(v, avail) \<in> set (List.map_filter (\<lambda>v. if P v then lit_candidate quote sd v else None) vs) \<longleftrightarrow>
     v \<in> set vs \<and> P v \<and> routing_eps < avail \<and>
     (\<exists>b a. dict_get (venue_depths quote) (venue_id v) = Some (b, a) \<and> avail = (if sd = BUY then a else b))"
  unfolding map_filter_set by (auto simp: lit_candidate_Some split: if_splits)

text \<open>What every routed order of an allocation satisfies.\<close>

definition routed_ok :: "smart_router \<Rightarrow> string \<Rightarrow> order_side \<Rightarrow> float64 \<Rightarrow> consolidated_quote \<Rightarrow> int \<Rightarrow> string \<times> routed_order \<Rightarrow> bool" where
  "routed_ok sr s sd q quote now e \<longleftrightarrow>
     (\<exists>v. fst e = venue_id v \<and> venue_live (sr_health sr) now (venue_id v) \<and> pos_finite (ro_quantity (snd e)) \<and>
        (v \<in> set (lit_venues sr) \<and>
         snd e = child_order_of s sd v False (ro_quantity (snd e)) (if sd = BUY then ask_price quote else bid_price quote) \<and>
         (\<exists>b a. dict_get (venue_depths quote) (venue_id v) = Some (b, a) \<and> ro_quantity (snd e) \<le> (if sd = BUY then a else b)) \<or>
         v \<in> set (dark_venues sr) \<and> min_order_size v \<le> q \<and> snd e = child_order_of s sd v True q (midpoint quote)))"

lemma route_lit_sound:
  assumes "route_lit sr s sd q quote partial now = (sr', Inr al)" "quote_wf quote" "e \<in> set al"
  shows "routed_ok sr s sd q quote now e"
proof -
  let ?t = "if sd = BUY then ask_price quote else bid_price quote"
  obtain hs r where sc: "scan_venues now (lit_candidate quote sd) (sr_health sr) (lit_venues sr) = (hs, r)" by fastforce
  have "lit_venues sr \<noteq> []" using assms(1,3) by (auto simp: route_lit_def split: if_splits)
  then obtain cands q_rem where c: "r = Inr cands" "allocate_lit s sd ?t [] q (sort_key lit_key cands) = Inr (al, q_rem)"
    using assms(1,3) sc by (auto simp: route_lit_def bindR_Inr_iff split: if_splits)
  let ?C = "set cands"
  have C: "cands = List.map_filter (\<lambda>v. if venue_live (sr_health sr) now (venue_id v) then lit_candidate quote sd v else None) (lit_venues sr)"
    using scan_venues_select sc c(1) by blast
  have fin: "isfinite avail" if va: "(v, avail) \<in> ?C" for v avail
  proof -
    obtain b a where "(venue_id v, b, a) \<in> set (venue_depths quote)" "avail = (if sd = BUY then a else b)"
      using va unfolding C lit_candidates_set by (auto dest: map_of_SomeD)
    then show ?thesis using assms(2) by (auto simp: quote_wf_def depths_ok_def list_all_iff nonneg_finite_def)
  qed
  have "lit_order_ok s sd ?t ?C e"
  proof -
    have "\<forall>e \<in> set al. lit_order_ok s sd ?t ?C e" by (rule allocate_lit_sound [OF c(2)]) (use fin in auto)
    then show ?thesis using assms(3) by blast
  qed
  then obtain v avail where v: "(v, avail) \<in> ?C" "fst e = venue_id v" "snd e = child_order_of s sd v False (ro_quantity (snd e)) ?t"
    "pos_finite (ro_quantity (snd e))" "ro_quantity (snd e) \<le> avail"
    by (auto simp: lit_order_ok_def)
  moreover from v(1) have "v \<in> set (lit_venues sr)" "venue_live (sr_health sr) now (venue_id v)"
      "\<exists>b a. dict_get (venue_depths quote) (venue_id v) = Some (b, a) \<and> avail = (if sd = BUY then a else b)"
    unfolding C lit_candidates_set by blast+
  ultimately show ?thesis unfolding routed_ok_def by blast
qed

lemma route_dark_sound:
  assumes "route_dark sr s sd q quote now = (sr', Inr (Some al))" "e \<in> set al"
  shows "routed_ok sr s sd q quote now e \<and> (\<exists>v \<in> set (dark_venues sr). al = [(venue_id v, child_order_of s sd v True q (midpoint quote))])"
proof -
  let ?pick = "\<lambda>v. if min_order_size v \<le> q then Some v else None"
  obtain hs r where sc: "scan_venues now ?pick (sr_health sr) (dark_venues sr) = (hs, r)" by fastforce
  obtain el where el: "r = Inr el" using assms(1) sc by (auto simp: route_dark_def bindR_Inr_iff)
  obtain best rest where br: "sort_key dark_key el = best # rest"
    using assms(1) sc el by (cases "sort_key dark_key el") (auto simp: route_dark_def)
  obtain ro where b: "r = Inr el" "sort_key dark_key el = best # rest"
    "routed_order_new (child_order_of s sd best True q (midpoint quote)) = Inr ro" "al = [(venue_id best, ro)]"
    using assms(1) sc el br by (auto simp: route_dark_def bindR_Inr_iff)
  note ro = routed_order_new_Inr [OF b(3)]
  have "best \<in> set el" using arg_cong [OF b(2), of set] by auto
  then have "best \<in> set (dark_venues sr)" "min_order_size best \<le> q" "venue_live (sr_health sr) now (venue_id best)"
    unfolding scan_venues_select [OF sc [unfolded b(1)]] by (auto simp: map_filter_set split: if_splits)
  then show ?thesis using ro assms(2) b(4) by (auto simp: routed_ok_def child_order_of_def)
qed

lemma routed_ok_transfer:
  assumes "routed_ok sr' s sd q quote now e" "\<forall>u. venue_live (sr_health sr') now u \<longleftrightarrow> venue_live (sr_health sr) now u"
    "lit_venues sr' = lit_venues sr" "dark_venues sr' = dark_venues sr"
  shows "routed_ok sr s sd q quote now e"
  using assms unfolding routed_ok_def by auto

lemma compute_allocation_ok:
  assumes "compute_routing_allocation sr symv sidev qv quote dark partial nowv = (sr', Inr al)" and "quote_wf quote" and "e \<in> set al"
  shows "\<exists>s sd q now. check_allocation_args symv sidev qv quote nowv = Inr (s, sd, q, now) \<and> routed_ok sr s sd q quote now e"
proof (cases "check_allocation_args symv sidev qv quote nowv")
  case (Inl err)
  then show ?thesis using assms(1) by (simp add: compute_routing_allocation_def)
next
  case (Inr args)
  obtain s sd q now where a: "args = (s, sd, q, now)" by (cases args)
  have "routed_ok sr s sd q quote now e"
  proof (cases "dark \<and> dark_venues sr \<noteq> []")
    case False
    then have "route_lit sr s sd q quote partial now = (sr', Inr al)" using assms(1) Inr a by (auto simp: compute_routing_allocation_def)
    then show ?thesis using assms(2,3) by (rule route_lit_sound)
  next
    case True
    obtain sr1 r where d: "route_dark sr s sd q quote now = (sr1, r)" by fastforce
    have sr1: "sr1 = sr\<lparr>sr_health := fst (scan_venues now (\<lambda>v. if min_order_size v \<le> q then Some v else None) (sr_health sr) (dark_venues sr))\<rparr>"
      using d by (auto simp: route_dark_def Let_def split: prod.splits)
    have f: "lit_venues sr1 = lit_venues sr" "dark_venues sr1 = dark_venues sr"
        "\<forall>u. venue_live (sr_health sr1) now u \<longleftrightarrow> venue_live (sr_health sr) now u"
      unfolding sr1 by (simp_all add: scan_venues_health)
    show ?thesis
    proof (cases r)
      case (Inl e')
      then show ?thesis using assms(1) Inr a True d by (simp add: compute_routing_allocation_def)
    next
      case (Inr ro)
      then show ?thesis using assms \<open>check_allocation_args symv sidev qv quote nowv = Inr args\<close> a True d route_dark_sound
          route_lit_sound [of sr1 s sd q quote partial now sr' al e] routed_ok_transfer [OF _ f(3,1,2)]
        by (cases ro) (auto simp: compute_routing_allocation_def)
    qed
  qed
  then show ?thesis using Inr a by blast
qed

section \<open>Properties\<close>

text \<open>C25: Venue protection: every order of a routing allocation goes to a configured venue that is not in quarantine at that
  time, asks for a positive quantity within the displayed depth of that venue on the right side at the national best price
  (lit), or for the whole quantity, at least the minimum size of the venue, at the midpoint (dark).\<close>

theorem sor_allocation_sound:
  assumes "compute_routing_allocation sr symv sidev qv quote dark partial nowv = (sr', Inr al)" and "quote_wf quote" and "e \<in> set al"
  shows "\<exists>s sd q now. check_allocation_args symv sidev qv quote nowv = Inr (s, sd, q, now) \<and> routed_ok sr s sd q quote now e"
  using assms by (rule compute_allocation_ok)

section \<open>Whole quantities: conservation and minimal fees\<close>

text \<open>The greedy split of \<open>q\<close> over candidates with whole depths, and the fee cost of any split \<open>y\<close> by venue id.\<close>

fun greedy :: "int \<Rightarrow> (venue_profile \<times> int) list \<Rightarrow> (venue_profile \<times> int) list" where
  "greedy q [] = []"
| "greedy q ((v, d) # cs) = (v, min q d) # greedy (q - min q d) cs"

definition fee_of_venue :: "venue_profile \<Rightarrow> rat" where
  "fee_of_venue v = fin_val (taker_fee_bps v)"

definition split_cost :: "(venue_profile \<times> int) list \<Rightarrow> (string \<Rightarrow> int) \<Rightarrow> rat" where
  "split_cost cs y = (\<Sum>(v, d) \<leftarrow> cs. fee_of_venue v * of_int (y (venue_id v)))"

definition split_total :: "(venue_profile \<times> int) list \<Rightarrow> (string \<Rightarrow> int) \<Rightarrow> int" where
  "split_total cs y = (\<Sum>(v, d) \<leftarrow> cs. y (venue_id v))"

definition feasible :: "(venue_profile \<times> int) list \<Rightarrow> (string \<Rightarrow> int) \<Rightarrow> bool" where
  "feasible cs y \<longleftrightarrow> list_all (\<lambda>(v, d). 0 \<le> y (venue_id v) \<and> y (venue_id v) \<le> d) cs"

definition greedy_cost :: "(venue_profile \<times> int) list \<Rightarrow> rat" where
  "greedy_cost xs = (\<Sum>(v, x) \<leftarrow> xs. fee_of_venue v * of_int x)"

lemma greedy_total: "0 \<le> q \<Longrightarrow> list_all (\<lambda>(v, d). 0 \<le> d) cs \<Longrightarrow> sum_list (map snd (greedy q cs)) = min q (sum_list (map snd cs))"
proof (induction q cs rule: greedy.induct)
  case (2 q v d cs)
  have "0 \<le> sum_list (map snd cs)" using 2(3) by (intro sum_list_nonneg) (auto simp: list_all_iff)
  then show ?case using 2 by (simp add: min_def)
qed simp

lemma greedy_optimal:
  assumes "sorted (map (\<lambda>(v, d). fee_of_venue v) cs)" "feasible cs y" "0 \<le> q" "q \<le> split_total cs y"
    "\<forall>(v, d) \<in> set cs. f0 \<le> fee_of_venue v"
  shows "greedy_cost (greedy q cs) + f0 * of_int (split_total cs y - q) \<le> split_cost cs y"
  using assms
proof (induction cs arbitrary: q f0)
  case (Cons c cs)
  obtain v d where c: "c = (v, d)" by fastforce
  define x where "x = min q d"
  let ?f = "fee_of_venue v" and ?y = "y (venue_id v)" and ?S = "split_total cs y"
  have y: "0 \<le> ?y" "?y \<le> d" and tot: "split_total (c # cs) y = ?y + ?S"
    using Cons.prems(2) by (simp_all add: c feasible_def split_total_def)
  have S: "0 \<le> ?S" using Cons.prems(2) by (auto simp: feasible_def split_total_def list_all_iff c intro!: sum_list_nonneg)
  have q: "0 \<le> q - x" "q - x \<le> ?S" using Cons.prems(3,4) y S by (auto simp: x_def tot)
  have IH: "greedy_cost (greedy (q - x) cs) + ?f * of_int (?S - (q - x)) \<le> split_cost cs y"
    using Cons.prems(1,2) q by (intro Cons.IH) (auto simp: c feasible_def case_prod_unfold)
  have f0: "f0 * of_int (?y + ?S - q) \<le> ?f * of_int (?y + ?S - q)"
  proof (rule mult_right_mono)
    show "f0 \<le> ?f" using Cons.prems(5) by (simp add: c)
    have "0 \<le> ?y + ?S - q" using Cons.prems(4) tot by simp
    then show "(0::rat) \<le> of_int (?y + ?S - q)" by (simp only: of_int_0_le_iff)
  qed
  have "greedy_cost (greedy q (c # cs)) = ?f * of_int x + greedy_cost (greedy (q - x) cs)" "split_cost (c # cs) y = ?f * of_int ?y + split_cost cs y"
    by (simp_all add: c greedy_cost_def split_cost_def x_def)
  moreover have "?f * of_int x + ?f * of_int (?y + ?S - q) = ?f * of_int ?y + ?f * of_int (?S - (q - x))"
    by (simp add: algebra_simps)
  ultimately show ?case unfolding tot using IH f0 by linarith
qed (simp add: greedy_cost_def split_cost_def split_total_def)

lemma dict_set_new: "k \<notin> fst ` set d \<Longrightarrow> dict_set d k v = d @ [(k, v)]"
  by (induction d) auto

lemma routing_eps_below_one: "whole k \<le> routing_eps \<longleftrightarrow> k \<le> 0"
proof
  have e: "routing_eps \<le> rnd64 (1 / 2)" "0 \<le> routing_eps" unfolding routing_eps_def by (simp_all add: rnd64_mono)
  show "k \<le> 0" if "whole k \<le> routing_eps"
  proof (rule ccontr)
    assume "\<not> k \<le> 0"
    then have "(1::rat) \<le> of_int k" by simp
    moreover have "whole k \<le> Fin (1 / 2)" using float_le_trans [OF that e(1)] rnd64_half by simp
    ultimately show False by simp
  qed
  show "whole k \<le> routing_eps" if "k \<le> 0"
  proof -
    have "whole k \<le> 0" using that by simp
    then show ?thesis using e(2) by (rule float_le_trans)
  qed
qed

definition greedy_orders :: "string \<Rightarrow> order_side \<Rightarrow> float64 \<Rightarrow> (venue_profile \<times> int) list \<Rightarrow> (string \<times> routed_order) list" where
  "greedy_orders s sd target xs =
     map (\<lambda>(v, x). (venue_id v, child_order_of s sd v False (whole x) target)) (filter (\<lambda>(v, x). 0 < x) xs)"

lemma greedy_zero: "list_all (\<lambda>(v, d). 0 \<le> d) cs \<Longrightarrow> greedy_orders s sd target (greedy 0 cs) = [] \<and> sum_list (map snd (greedy 0 cs)) = 0"
  by (induction "0::int" cs rule: greedy.induct) (auto simp: greedy_orders_def min_def)

lemma allocate_lit_whole:
  assumes "0 \<le> q" "q < 2 ^ 53" and "list_all (\<lambda>(v, d). 1 \<le> d \<and> str_strip (venue_id v) \<noteq> []) cs"
    and "distinct (map (\<lambda>(v, d). venue_id v) cs)" "\<forall>(v, d) \<in> set cs. venue_id v \<notin> fst ` set al"
    and "str_strip s \<noteq> []" "pos_finite target"
  shows "allocate_lit s sd target al (whole q) (map (\<lambda>(v, d). (v, whole d)) cs) =
           Inr (al @ greedy_orders s sd target (greedy q cs), whole (q - sum_list (map snd (greedy q cs))))"
  using assms
proof (induction q cs arbitrary: al rule: greedy.induct)
  case (2 q v d cs)
  have nn: "list_all (\<lambda>(v, d). 0 \<le> d) cs" using 2(4) by (auto simp: list_all_iff)
  show ?case
  proof (cases "q = 0")
    case True
    then show ?thesis using greedy_zero [OF nn] 2(4) routing_eps_below_one [of 0]
      by (simp add: greedy_orders_def min_def)
  next
    case False
    define x where "x = min q d"
    have x: "1 \<le> x" "x \<le> q" using False 2(2,4) by (auto simp: x_def)
    have m: "py_min (whole q) (whole d) = whole x" by (simp add: py_min_def x_def min_def)
    let ?r = "child_order_of s sd v False (whole x) target"
    have r: "routed_order_new ?r = Inr ?r"
      using 2(4,7,8) x(1) by (auto simp: routed_order_new_def child_order_of_def pos_finite_def less_float64_def)
    have d: "whole q - whole x = whole (q - x)" using x 2(3) by (intro whole_diff) simp
    have al: "dict_set al (venue_id v) ?r = al @ [(venue_id v, ?r)]" using 2(6) by (intro dict_set_new) simp
    have "allocate_lit s sd target (al @ [(venue_id v, ?r)]) (whole (q - x)) (map (\<lambda>(v, d). (v, whole d)) cs) =
        Inr ((al @ [(venue_id v, ?r)]) @ greedy_orders s sd target (greedy (q - x) cs), whole (q - x - sum_list (map snd (greedy (q - x) cs))))"
      using 2(2-8) x unfolding x_def by (intro 2(1)) (fastforce simp: case_prod_unfold image_iff)+
    moreover have "\<not> whole q \<le> routing_eps" "\<not> whole x \<le> routing_eps"
      using x 2(2) False routing_eps_below_one [of q] routing_eps_below_one [of x] by auto
    ultimately show ?thesis using x(1)
      by (simp add: m r d al greedy_orders_def x_def [symmetric] diff_diff_eq)
  qed
qed (simp add: greedy_orders_def)

lemma sort_key_map: "sort_key f (map g xs) = map g (sort_key (f \<circ> g) xs)"
proof (induction xs)
  case (Cons x xs)
  have "insort_key f (g x) (map g ys) = map g (insort_key (f \<circ> g) x ys)" for ys by (induction ys) auto
  then show ?case using Cons by (simp add: comp_def)
qed simp

lemma sorted_lit_fee: "sorted (map (\<lambda>(v, d). fee_of_venue v) (sort_key (lit_key \<circ> (\<lambda>(v, d). (v, whole d))) cs))"
proof -
  let ?k = "lit_key \<circ> (\<lambda>(v, d). (v, whole d))"
  have "sorted_wrt (\<lambda>x y. ?k x \<le> ?k y) (sort_key ?k cs)" using sorted_sort_key [of ?k cs] by (simp add: sorted_map)
  moreover have "fee_of_venue (fst a) \<le> fee_of_venue (fst b)" if "?k a \<le> ?k b" for a b
    using that by (auto simp: lit_key_def fee_of_venue_def less_eq_prod_def case_prod_unfold)
  ultimately have "sorted_wrt (\<lambda>x y. fee_of_venue (fst x) \<le> fee_of_venue (fst y)) (sort_key ?k cs)"
    by (rule sorted_wrt_mono_rel [rotated])
  then show ?thesis by (simp add: sorted_map case_prod_unfold)
qed

text \<open>The split an allocation makes, in whole units by venue id.\<close>

definition alloc_split :: "(string \<times> routed_order) list \<Rightarrow> string \<Rightarrow> int" where
  "alloc_split al u = (case dict_get al u of Some r \<Rightarrow> \<lfloor>fin_val (ro_quantity r)\<rfloor> | None \<Rightarrow> 0)"

lemma greedy_keys: "map (\<lambda>(v, x). venue_id v) (greedy q cs) = map (\<lambda>(v, d). venue_id v) cs"
  by (induction q cs rule: greedy.induct) simp_all

lemma alloc_split_greedy:
  assumes "distinct (map (\<lambda>(v, x). venue_id v) xs)" "(v, x) \<in> set xs" "list_all (\<lambda>(v, x). 0 \<le> x) xs"
  shows "alloc_split (greedy_orders s sd target xs) (venue_id v) = x"
proof (cases "0 < x")
  case True
  let ?al = "greedy_orders s sd target xs"
  have "distinct (map fst ?al)" using assms(1)
    by (simp add: greedy_orders_def comp_def case_prod_unfold distinct_map_filter)
  moreover have "(venue_id v, child_order_of s sd v False (whole x) target) \<in> set ?al"
    using assms(2) True by (force simp: greedy_orders_def)
  ultimately have "dict_get ?al (venue_id v) = Some (child_order_of s sd v False (whole x) target)" by (rule map_of_is_SomeI)
  then show ?thesis by (simp add: alloc_split_def child_order_of_def fin_val_def)
next
  case False
  then have x: "x = 0" using assms(2,3) by (auto simp: list_all_iff)
  have "venue_id v \<notin> fst ` set (greedy_orders s sd target xs)"
  proof
    assume "venue_id v \<in> fst ` set (greedy_orders s sd target xs)"
    then obtain u z where "(u, z) \<in> set xs" "0 < z" "venue_id u = venue_id v" by (auto simp: greedy_orders_def)
    then have "(u, z) = (v, x)" using assms(1,2) inj_onD [of "\<lambda>(v, x). venue_id v" "set xs" "(u, z)" "(v, x)"] by (simp add: distinct_map)
    then show False using \<open>0 < z\<close> x by simp
  qed
  then have "dict_get (greedy_orders s sd target xs) (venue_id v) = None" by (simp add: map_of_eq_None_iff)
  then show ?thesis using x by (simp add: alloc_split_def)
qed

lemma greedy_nonneg: "0 \<le> q \<Longrightarrow> list_all (\<lambda>(v, d). 0 \<le> d) cs \<Longrightarrow> list_all (\<lambda>(v, x). 0 \<le> x) (greedy q cs)"
  by (induction q cs rule: greedy.induct) auto

lemma greedy_feasible:
  assumes "0 \<le> q" "list_all (\<lambda>(v, d). 0 \<le> d) cs" "\<forall>(v, x) \<in> set (greedy q cs). y (venue_id v) = x"
  shows "feasible cs y \<and> split_total cs y = sum_list (map snd (greedy q cs)) \<and> split_cost cs y = greedy_cost (greedy q cs)"
  using assms
proof (induction q cs rule: greedy.induct)
  case (2 q v d cs)
  then have "feasible cs y \<and> split_total cs y = sum_list (map snd (greedy (q - min q d) cs)) \<and>
      split_cost cs y = greedy_cost (greedy (q - min q d) cs)" by auto
  then show ?case using 2(2-4) by (simp add: feasible_def split_total_def split_cost_def greedy_cost_def)
qed (simp add: feasible_def split_total_def split_cost_def greedy_cost_def)

lemma split_perm:
  assumes "mset cs' = mset cs"
  shows "split_total cs' y = split_total cs y" "split_cost cs' y = split_cost cs y" "feasible cs' y = feasible cs y"
    "sum_list (map snd cs') = sum_list (map snd cs)"
proof -
  have "sum_list (map f cs') = sum_list (map f cs)" for f :: "_ \<Rightarrow> int"
    using assms by (metis mset_map sum_mset_sum_list)
  moreover have "sum_list (map f cs') = sum_list (map f cs)" for f :: "_ \<Rightarrow> rat"
    using assms by (metis mset_map sum_mset_sum_list)
  moreover have "set cs' = set cs" using assms by (metis set_mset_mset)
  ultimately show "split_total cs' y = split_total cs y" "split_cost cs' y = split_cost cs y" "feasible cs' y = feasible cs y"
    "sum_list (map snd cs') = sum_list (map snd cs)"
    by (simp_all add: split_total_def split_cost_def feasible_def list_all_iff)
qed

definition lit_candidates :: "smart_router \<Rightarrow> consolidated_quote \<Rightarrow> order_side \<Rightarrow> int \<Rightarrow> (venue_profile \<times> float64) list" where
  "lit_candidates sr quote sd now =
     List.map_filter (\<lambda>v. if venue_live (sr_health sr) now (venue_id v) then lit_candidate quote sd v else None) (lit_venues sr)"

text \<open>A router whose venue keys are the ids of the profiles.\<close>

definition router_keyed :: "smart_router \<Rightarrow> bool" where
  "router_keyed sr \<longleftrightarrow> distinct (map venue_id (lit_venues sr)) \<and>
     (\<forall>v \<in> set (lit_venues sr). venue_id v \<in> fst ` set (sr_health sr) \<and> str_strip (venue_id v) \<noteq> [])"

lemma scan_venues_total:
  assumes "\<forall>v \<in> set vs. venue_id v \<in> fst ` set hs"
  shows "\<exists>hs'. scan_venues now pick hs vs = (hs', Inr (List.map_filter (\<lambda>v. if venue_live hs now (venue_id v) then pick v else None) vs))"
proof -
  have "\<exists>hs' xs. scan_venues now pick hs vs = (hs', Inr xs)" using assms
  proof (induction vs arbitrary: hs)
    case (Cons v vs)
    obtain h where h: "dict_get hs (venue_id v) = Some h" using Cons.prems by (auto simp: dict_has_iff)
    obtain h' act where a: "health_is_active now h = (h', act)" by fastforce
    obtain hs' xs where "scan_venues now pick (dict_set hs (venue_id v) h') vs = (hs', Inr xs)"
      using Cons.IH [of "dict_set hs (venue_id v) h'"] Cons.prems by auto
    then show ?case by (simp add: h a)
  qed simp
  then show ?thesis using scan_venues_select by blast
qed

lemma allocate_sorted_whole:
  assumes "1 \<le> q" "q < 2 ^ 53" "list_all (\<lambda>(v, d). 1 \<le> d \<and> str_strip (venue_id v) \<noteq> []) cs" "distinct (map (\<lambda>(v, d). venue_id v) cs)"
    "str_strip s \<noteq> []" "pos_finite target"
  obtains al where "allocate_lit s sd target [] (whole q) (sort_key lit_key (map (\<lambda>(v, d). (v, whole d)) cs)) =
      Inr (al, whole (q - min q (sum_list (map snd cs))))"
    "feasible cs (alloc_split al)" "split_total cs (alloc_split al) = min q (sum_list (map snd cs))"
    "\<And>y. feasible cs y \<Longrightarrow> split_total cs y = q \<Longrightarrow> split_cost cs (alloc_split al) \<le> split_cost cs y"
proof -
  let ?k = "lit_key \<circ> (\<lambda>(v, d). (v, whole d))" 
  define cs' where "cs' = sort_key ?k cs"
  define al where "al = greedy_orders s sd target (greedy q cs')"
  have m: "mset cs' = mset cs" and st: "set cs' = set cs" by (simp_all add: cs'_def)
  note perm = split_perm [OF m]
  have c: "list_all (\<lambda>(v, d). 1 \<le> d \<and> str_strip (venue_id v) \<noteq> []) cs'" "distinct (map (\<lambda>(v, d). venue_id v) cs')"
    using assms(3,4) st m by (simp_all add: list_all_iff) (metis mset_eq_imp_distinct_iff mset_map)
  then have nn: "list_all (\<lambda>(v, d). 0 \<le> d) cs'" by (auto simp: list_all_iff)
  have tot: "sum_list (map snd (greedy q cs')) = min q (sum_list (map snd cs))"
    using greedy_total [OF _ nn, of q] assms(1) perm(4) by simp
  have sp: "\<forall>(v, x) \<in> set (greedy q cs'). alloc_split al (venue_id v) = x"
    using alloc_split_greedy [OF _ _ greedy_nonneg [OF _ nn]] c(2) assms(1) unfolding al_def greedy_keys [symmetric, of cs' q] by auto
  have q0: "0 \<le> q" using assms(1) by simp
  note gf = greedy_feasible [OF q0 nn sp]
  show thesis
  proof (rule that)
    show "allocate_lit s sd target [] (whole q) (sort_key lit_key (map (\<lambda>(v, d). (v, whole d)) cs)) =
        Inr (al, whole (q - min q (sum_list (map snd cs))))"
      using allocate_lit_whole [OF q0 assms(2) c _ assms(5,6), of "[]"] tot by (simp add: sort_key_map cs'_def al_def comp_def)
    show "feasible cs (alloc_split al)" "split_total cs (alloc_split al) = min q (sum_list (map snd cs))"
      using gf perm tot by simp_all
    show "split_cost cs (alloc_split al) \<le> split_cost cs y" if "feasible cs y" "split_total cs y = q" for y
    proof (cases cs')
      case Nil
      then show ?thesis using m by (simp add: split_cost_def)
    next
      case (Cons c0 rest)
      have srt: "sorted (map (\<lambda>(v, d). fee_of_venue v) cs')" unfolding cs'_def by (rule sorted_lit_fee)
      have "greedy_cost (greedy q cs') + fee_of_venue (fst c0) * of_int (split_total cs' y - q) \<le> split_cost cs' y"
        using srt that perm q0 Cons by (intro greedy_optimal) (auto simp: case_prod_unfold)
      then show ?thesis using gf perm that(2) by simp
    qed
  qed
qed

lemma allocation_args_whole:
  assumes "check_allocation_args symv sidev qv quote nowv = Inr (s, sd, whole q, now)"
  shows "1 \<le> q" "str_strip s \<noteq> []"
proof -
  have "pos_finite (whole q)" using assms by (auto simp: check_allocation_args_def bindR_Inr_iff dest!: check_facts split: if_splits)
  then show "1 \<le> q" by simp
  show "str_strip s \<noteq> []" using assms by (auto simp: check_allocation_args_def bindR_Inr_iff split: if_splits)
qed

text \<open>C24: Exact and cheapest lit routing: for a whole quantity and whole displayed depths (below 2 ^ 53, venue keys equal to the
  profile ids), lit routing fails with the liquidity exception exactly when the live depth is short of the quantity and
  partial routing is not allowed; otherwise it splits exactly the quantity (or all of the depth) over the live venues within
  their depths, and no other way to split the whole quantity has lower taker fees.\<close>

theorem sor_minimal_fees:
  assumes "router_keyed sr" and "quote_wf quote" and "check_allocation_args symv sidev qv quote nowv = Inr (s, sd, whole q, now)"
    and "q < 2 ^ 53" and "lit_candidates sr quote sd now = map (\<lambda>(v, d). (v, whole d)) cs"
    and "r = snd (compute_routing_allocation sr symv sidev qv quote False partial nowv)"
  shows "(if q \<le> sum_list (map snd cs) \<or> partial
          then \<exists>al. r = Inr al \<and> feasible cs (alloc_split al) \<and> split_total cs (alloc_split al) = min q (sum_list (map snd cs)) \<and>
                 (\<forall>y. feasible cs y \<and> split_total cs y = q \<longrightarrow> split_cost cs (alloc_split al) \<le> split_cost cs y)
          else r = Inl (Sor InsufficientLiquidityException))"
proof -
  let ?t = "if sd = BUY then ask_price quote else bid_price quote" and ?D = "sum_list (map snd cs)"
  note q = allocation_args_whole [OF assms(3)]
  have r: "r = snd (route_lit sr s sd (whole q) quote partial now)" using assms(3,6) by (simp add: compute_routing_allocation_def)
  have t: "pos_finite ?t" using assms(2) by (simp add: quote_wf_def)
  have vs: "v \<in> set (lit_venues sr) \<and> 1 \<le> d" if vd: "(v, d) \<in> set cs" for v d
  proof -
    have "(v, whole d) \<in> set (lit_candidates sr quote sd now)" using vd unfolding assms(5) by force
    then show ?thesis unfolding lit_candidates_def lit_candidates_set using routing_eps_below_one [of d] by (auto simp: less_float64_def)
  qed
  have c1: "list_all (\<lambda>(v, d). 1 \<le> d \<and> str_strip (venue_id v) \<noteq> []) cs"
    using vs assms(1) by (auto simp: list_all_iff router_keyed_def)
  have "map (\<lambda>(v, d). venue_id v) cs = map (venue_id \<circ> fst) (lit_candidates sr quote sd now)"
    unfolding assms(5) by (simp add: case_prod_unfold comp_def)
  also have "distinct \<dots>"
  proof -
    have "map (venue_id \<circ> fst) (List.map_filter (\<lambda>v. if P v then lit_candidate quote sd v else None) vs) =
        map venue_id (filter (\<lambda>v. P v \<and> lit_candidate quote sd v \<noteq> None) vs)" for P vs
    proof (induction vs)
      case (Cons a vs)
      have "fst x = a" if "lit_candidate quote sd a = Some x" for x using that lit_candidate_Some [of quote sd a "fst x" "snd x"] by simp
      then show ?case using Cons by (cases "lit_candidate quote sd a") (auto simp: map_filter_simps)
    qed (simp add: map_filter_simps)
    then show ?thesis using assms(1) by (simp add: lit_candidates_def router_keyed_def distinct_map_filter)
  qed
  finally have c2: "distinct (map (\<lambda>(v, d). venue_id v) cs)" .
  obtain hs' where sc: "scan_venues now (lit_candidate quote sd) (sr_health sr) (lit_venues sr) = (hs', Inr (lit_candidates sr quote sd now))"
    using scan_venues_total [of "lit_venues sr" "sr_health sr" now] assms(1) by (force simp: router_keyed_def lit_candidates_def)
  show ?thesis
  proof (cases "cs = []")
    case True
    then have "r = (if partial then Inr [] else Inl (Sor InsufficientLiquidityException))"
      unfolding r route_lit_def using sc assms(5) by simp
    then show ?thesis using True q(1) by (simp add: feasible_def split_total_def split_cost_def)
  next
    case False
    obtain al where al: "allocate_lit s sd ?t [] (whole q) (sort_key lit_key (map (\<lambda>(v, d). (v, whole d)) cs)) =
        Inr (al, whole (q - min q ?D))" "feasible cs (alloc_split al)" "split_total cs (alloc_split al) = min q ?D"
      "\<And>y. feasible cs y \<Longrightarrow> split_total cs y = q \<Longrightarrow> split_cost cs (alloc_split al) \<le> split_cost cs y"
      by (rule allocate_sorted_whole [OF q(1) assms(4) c1 c2 q(2) t, of sd]) (rule that)
    obtain v d where "(v, d) \<in> set cs" using False by (cases cs) auto
    then have "lit_venues sr \<noteq> []" using vs [of v d] by auto
    then have "r = (if whole (q - min q ?D) > routing_eps \<and> \<not> partial then Inl (Sor InsufficientLiquidityException) else Inr al)"
      unfolding r route_lit_def using sc assms(5) False al(1) by (simp add: Let_def)
    moreover have "whole (q - min q ?D) > routing_eps \<longleftrightarrow> \<not> q \<le> ?D"
      using routing_eps_below_one [of "q - min q ?D"] by (auto simp: less_float64_def)
    ultimately show ?thesis using al(2-4) by auto
  qed
qed

subsection \<open>A sample router\<close>

definition sample_venue :: "string \<Rightarrow> venue_type \<Rightarrow> rat \<Rightarrow> venue_profile" where
  "sample_venue vid vt f = \<lparr>venue_id = vid, venue_type = vt, maker_fee_bps = 0, taker_fee_bps = Fin f, min_order_size = 1, lot_size = 1,
     avg_latency_ms = 1, dark_fill_probability = 0\<rparr>"

definition sample_router :: smart_router where
  "sample_router = \<lparr>sr_venues = [(''A'', sample_venue ''A'' LIT_EXCHANGE 3), (''B'', sample_venue ''B'' LIT_EXCHANGE 1)],
     toxic_markout_threshold_bps = Fin (- 2), toxic_fill_limit = 3, quarantine_duration_sec = Fin 60, dark_venues = [],
     lit_venues = [sample_venue ''A'' LIT_EXCHANGE 3, sample_venue ''B'' LIT_EXCHANGE 1],
     sr_health = [(''A'', fresh_health ''A''), (''B'', fresh_health ''B'')]\<rparr>"

definition sample_quote :: consolidated_quote where
  "sample_quote = \<lparr>quote_symbol = ''AAPL'', bid_price = Fin 100, bid_quantity = Fin 9, ask_price = Fin 102, ask_quantity = Fin 9,
     quote_ns = 0, venue_depths = [(''A'', Fin 4, Fin 4), (''B'', Fin 5, Fin 5)]\<rparr>"

lemma sample_args: "check_allocation_args (PStr ''AAPL'') (PEnum ''OrderSide'' ''BUY'') (PInt 7) sample_quote (PInt 0) = Inr (''AAPL'', BUY, Fin 7, 0)"
  by (simp add: check_allocation_args_def check_nonblank_def check_member_def order_side_of_def str_strip_def is_space_def sample_quote_def
      int_overflows_def float_of_int_def)

lemma sample_quote_wf: "quote_wf sample_quote"
  by (simp add: quote_wf_def sample_quote_def depths_ok_def)

lemma sample_router_keyed: "router_keyed sample_router"
  by (simp add: router_keyed_def sample_router_def sample_venue_def str_strip_def is_space_def)

lemma sample_candidates:
  "lit_candidates sample_router sample_quote BUY 0 =
     map (\<lambda>(v, d). (v, whole d)) [(sample_venue ''A'' LIT_EXCHANGE 3, 4), (sample_venue ''B'' LIT_EXCHANGE 1, 5)]"
proof -
  have "routing_eps < Fin 4" "routing_eps < Fin 5"
    using routing_eps_below_one [of 4] routing_eps_below_one [of 5] by (simp_all add: less_float64_def)
  then show ?thesis
    by (simp add: lit_candidates_def sample_router_def map_filter_simps venue_live_def fresh_health_def lit_candidate_def sample_quote_def
        sample_venue_def)
qed

theorem sor_minimal_fees_witness:
  "\<exists>al. snd (compute_routing_allocation sample_router (PStr ''AAPL'') (PEnum ''OrderSide'' ''BUY'') (PInt 7) sample_quote False False (PInt 0)) = Inr al \<and>
     split_total [(sample_venue ''A'' LIT_EXCHANGE 3, 4), (sample_venue ''B'' LIT_EXCHANGE 1, 5)] (alloc_split al) = 7"
proof -
  have a: "check_allocation_args (PStr ''AAPL'') (PEnum ''OrderSide'' ''BUY'') (PInt 7) sample_quote (PInt 0) = Inr (''AAPL'', BUY, whole 7, 0)"
    using sample_args by simp
  from sor_minimal_fees [OF sample_router_keyed sample_quote_wf a _ sample_candidates refl, of False] show ?thesis by auto
qed

theorem sor_allocation_sound_witness:
  "\<exists>al. (\<exists>sr'. compute_routing_allocation (sample_router\<lparr>lit_venues := [], dark_venues := [sample_venue ''A'' DARK_POOL 3]\<rparr>) (PStr ''AAPL'')
       (PEnum ''OrderSide'' ''BUY'') (PInt 7) sample_quote True False (PInt 0) = (sr', Inr al)) \<and>
     (\<forall>e \<in> set al. ro_price (snd e) = midpoint sample_quote)"
proof -
  let ?sr = "sample_router\<lparr>lit_venues := [], dark_venues := [sample_venue ''A'' DARK_POOL 3]\<rparr>"
  have m: "midpoint sample_quote = Fin 101" by (simp add: midpoint_def sample_quote_def)
  obtain sr' where c: "compute_routing_allocation ?sr (PStr ''AAPL'') (PEnum ''OrderSide'' ''BUY'') (PInt 7) sample_quote True False (PInt 0) =
      (sr', Inr [(''A'', child_order_of ''AAPL'' BUY (sample_venue ''A'' DARK_POOL 3) True (Fin 7) (Fin 101))])"
    unfolding compute_routing_allocation_def sample_args
    by (simp add: route_dark_def m sample_router_def fresh_health_def health_is_active_def sample_venue_def routed_order_new_def
        child_order_of_def str_strip_def is_space_def one_float64_def)
  from sor_allocation_sound [OF c sample_quote_wf] c show ?thesis
    by (auto simp: sample_args routed_ok_def child_order_of_def m)
qed

section \<open>Quarantine\<close>

fun toxic_run :: "venue_health \<Rightarrow> float64 \<Rightarrow> int \<Rightarrow> int \<Rightarrow> (float64 \<times> int) list \<Rightarrow> venue_health" where
  "toxic_run h threshold limit duration [] = h"
| "toxic_run h threshold limit duration ((m, now) # fs) =
     toxic_run (fst (health_record_fill h m now threshold limit duration)) threshold limit duration fs"

definition toxic_fill :: "float64 \<Rightarrow> float64 \<times> int \<Rightarrow> bool" where
  "toxic_fill threshold f \<longleftrightarrow> isfinite (fst f) \<and> fst f < threshold \<and> 0 \<le> snd f"

lemma toxic_run_quarantines:
  assumes "\<not> is_quarantined h" "consecutive_toxic_fills h + int (length fs) = limit" "fs \<noteq> []" "list_all (toxic_fill threshold) fs"
    "0 \<le> consecutive_toxic_fills h" "isfinite threshold" "0 \<le> duration"
  shows "is_quarantined (toxic_run h threshold limit duration fs) \<and>
         snd (last fs) + duration \<le> quarantine_until_ns (toxic_run h threshold limit duration fs)"
  using assms(1-5)
proof (induction fs arbitrary: h)
  case (Cons f fs)
  obtain m now where f: "f = (m, now)" by fastforce
  have t: "isfinite m" "m < threshold" "0 \<le> now" "1 \<le> limit" using Cons.prems by (simp_all add: f toxic_fill_def)
  let ?h = "fst (health_record_fill h m now threshold limit duration)"
  show ?case
  proof (cases "fs = []")
    case True
    then show ?thesis using Cons.prems t assms(6,7) by (simp add: f health_record_fill_def Let_def)
  next
    case False
    then have "consecutive_toxic_fills h + 1 < limit" using Cons.prems(2) by (cases fs) simp_all
    then have "\<not> is_quarantined ?h" "consecutive_toxic_fills ?h = consecutive_toxic_fills h + 1"
      using Cons.prems(1) t assms(6,7) by (simp_all add: health_record_fill_def Let_def)
    then show ?thesis using Cons.IH [of ?h] Cons.prems False by (simp add: f)
  qed
qed simp

lemma quarantined_unrouted:
  assumes "compute_routing_allocation sr symv sidev qv quote dark partial (PInt t) = (sr', Inr al)" "quote_wf quote"
    and "dict_get (sr_health sr) vid = Some h" "is_quarantined h" "t < quarantine_until_ns h"
  shows "vid \<notin> fst ` set al"
proof
  assume "vid \<in> fst ` set al"
  then obtain e where e: "e \<in> set al" "fst e = vid" by auto
  obtain s sd q now where a: "check_allocation_args symv sidev qv quote (PInt t) = Inr (s, sd, q, now)" "routed_ok sr s sd q quote now e"
    using compute_allocation_ok [OF assms(1,2) e(1)] by blast
  have "now = t" using a(1) by (auto simp: check_allocation_args_def bindR_Inr_iff split: if_splits)
  then have "venue_live (sr_health sr) t vid" using a(2) e(2) by (auto simp: routed_ok_def)
  then show False using assms(3-5) by (auto simp: venue_live_def)
qed

text \<open>Toxic venues are shut out and come back only with time: after \<open>toxic_limit\<close> consecutive fills with a markout below the
  threshold the venue is in quarantine, it is inactive at every time before the end of the quarantine, which lies at least the
  configured duration after the last of these fills, and becomes active at that time.\<close>

theorem sor_quarantine:
  assumes "\<not> is_quarantined h" and "consecutive_toxic_fills h = 0" and "int (length fs) = limit" "1 \<le> limit"
    and "list_all (toxic_fill threshold) fs" "isfinite threshold" "0 \<le> duration" and "h' = toxic_run h threshold limit duration fs"
  shows "is_quarantined h' \<and> snd (last fs) + duration \<le> quarantine_until_ns h' \<and>
         (\<forall>t. snd (health_is_active t h') \<longleftrightarrow> 0 < quarantine_until_ns h' \<and> quarantine_until_ns h' \<le> t) \<and>
         (\<forall>sr symv sidev qv quote dark partial t sr' al vid.
            dict_get (sr_health sr) vid = Some h' \<longrightarrow> t < quarantine_until_ns h' \<longrightarrow> quote_wf quote \<longrightarrow>
            compute_routing_allocation sr symv sidev qv quote dark partial (PInt t) = (sr', Inr al) \<longrightarrow> vid \<notin> fst ` set al)"
proof -
  have "fs \<noteq> []" using assms(3,4) by auto
  then have q: "is_quarantined h'" "snd (last fs) + duration \<le> quarantine_until_ns h'"
    using toxic_run_quarantines [of h fs limit threshold duration] assms by auto
  then show ?thesis using quarantined_unrouted by (auto simp: health_is_active_iff)
qed

theorem sor_quarantine_witness:
  "\<exists>h'. h' = toxic_run (fresh_health ''A'') (Fin (- 2)) 2 60 [(Fin (- 3), 5), (Fin (- 4), 7)] \<and> is_quarantined h' \<and> 67 \<le> quarantine_until_ns h' \<and>
     \<not> snd (health_is_active 66 h')"
  using sor_quarantine [of "fresh_health ''A''" "[(Fin (- 3), 5), (Fin (- 4), 7)]" 2 "Fin (- 2)" 60, OF _ _ _ _ _ _ _ refl]
  by (auto simp: fresh_health_def toxic_fill_def simp del: toxic_run.simps)

text \<open>The health registry is keyed by the dictionary key of a venue but looked up by the id of its profile: a router
  configured with a key that differs from the profile id is accepted, and then a lit allocation raises \<^verbatim>\<open>KeyError\<close>.\<close>

theorem sor_key_mismatch:
  "\<exists>sr. smart_router_new [(PStr ''nasdaq'', Some (sample_venue ''NSDQ'' LIT_EXCHANGE 1))] (PFloat (Fin (- 2))) (PInt 3) (PFloat (Fin 60)) = Inr sr \<and>
     snd (compute_routing_allocation sr (PStr ''AAPL'') (PEnum ''OrderSide'' ''BUY'') (PInt 7) sample_quote True partial (PInt 0)) =
       Inl (PyErr KeyError)"
  by (simp add: smart_router_new_def check_venue_def check_nonblank_def str_strip_def is_space_def sample_venue_def venue_health_new_def
      fresh_health_def compute_routing_allocation_def sample_args route_lit_def)

end
