(* ===== verification/Slice_Routing.thy ===== *)
theory Slice_Routing
  imports Smart_Router Gateway_Client
begin

text \<open>
  \<^verbatim>\<open>SmartOrderRouter.route_slice\<close> of \<^verbatim>\<open>src/src/quant/execution/sor.py\<close>: the dark probe, the cancellation of what it
  left, and the lit sweep through an execution gateway.

  The gateway is the protocol \<^verbatim>\<open>ExecutionGateway\<close>: its operations are arguments of \<open>route_slice\<close>. The locale
  \<open>all_or_none_gateway\<close> states what the router relies on, and is interpreted on the paper gateway. The ids drawn from
  \<^verbatim>\<open>uuid4\<close> during a call are a parameter. What the call returns on an exception is the exception alone, but the gateway and
  router states it leaves are kept.
\<close>

section \<open>Children\<close>

definition type_val :: "order_type \<Rightarrow> pyval" where
  "type_val t = PEnum ''OrderType'' (case t of MARKET \<Rightarrow> ''MARKET'' | LIMIT \<Rightarrow> ''LIMIT'' | STOP_LIMIT \<Rightarrow> ''STOP_LIMIT'' | PEGGED \<Rightarrow> ''PEGGED'')"

definition tif_val :: "time_in_force \<Rightarrow> pyval" where
  "tif_val t = PEnum ''TimeInForce'' (case t of DAY \<Rightarrow> ''DAY'' | GTC \<Rightarrow> ''GTC'' | IOC \<Rightarrow> ''IOC'' | FOK \<Rightarrow> ''FOK'')"

definition child_order :: "string \<Rightarrow> string \<Rightarrow> order_side \<Rightarrow> routed_order \<Rightarrow> int \<Rightarrow> order res" where
  "child_order cl s sd ro now =
     order_new ((order_defaults (PStr cl) (PStr s) (side_val sd) (type_val (ro_order_type ro)) (PFloat (ro_quantity ro)))
       \<lparr>a_price := PFloat (ro_price ro), a_time_in_force := tif_val (ro_tif ro), a_created_at_ns := PInt now,
        a_updated_at_ns := PInt now\<rparr>)"

text \<open>A submission: any exception and any rejection of the gateway becomes \<^verbatim>\<open>ChildOrderFailedException\<close>.\<close>

definition submit_child :: "('g \<Rightarrow> order \<Rightarrow> 'g \<times> execution_report res) \<Rightarrow> 'g \<Rightarrow> order \<Rightarrow> 'g \<times> execution_report res" where
  "submit_child submit g od =
     (case submit g od of
        (g', Inl _) \<Rightarrow> (g', Inl (Sor ChildOrderFailedException))
      | (g', Inr rep) \<Rightarrow> (g', if exec_type rep = REJECTED then Inl (Sor ChildOrderFailedException) else Inr rep))"

section \<open>Legs\<close>

text \<open>The dark leg returns whether the slice is complete, its reports and the quantity left.\<close>

definition dark_leg ::
    "('g \<Rightarrow> order \<Rightarrow> 'g \<times> execution_report res) \<Rightarrow> ('g \<Rightarrow> string \<Rightarrow> 'g \<times> execution_report res) \<Rightarrow> string \<Rightarrow> smart_router \<Rightarrow> 'g \<Rightarrow>
     string \<Rightarrow> order_side \<Rightarrow> float64 \<Rightarrow> consolidated_quote \<Rightarrow> int \<Rightarrow>
     smart_router \<times> 'g \<times> (bool \<times> execution_report list \<times> float64) res" where
  "dark_leg submit cancel uid sr g s sd q quote now =
     (case compute_routing_allocation sr (PStr s) (side_val sd) (PFloat q) quote True True (PInt now) of
        (sr', Inl e) \<Rightarrow> (sr', g, Inl e)
      | (sr', Inr []) \<Rightarrow> (sr', g, Inr (False, [], q))
      | (sr', Inr ((vid, ro) # _)) \<Rightarrow>
          if \<not> ro_is_dark ro then (sr', g, Inr (False, [], q))
          else
            let cl = ''sor-dark-'' @ vid @ ''-'' @ uid
            in case child_order cl s sd ro now of
                 Inl e \<Rightarrow> (sr', g, Inl e)
               | Inr od \<Rightarrow>
                   (case submit_child submit g od of
                      (g1, Inl e) \<Rightarrow> (sr', g1, Inl e)
                    | (g1, Inr rep) \<Rightarrow>
                        if exec_type rep = FILLED then (sr', g1, Inr (True, [rep], q))
                        else
                          let filled = cum_quantity rep > routing_eps;
                              out = (if filled then (False, [rep], q - cum_quantity rep) else (False, [], q));
                              live = (if filled then exec_type rep \<in> {NEW, PARTIALLY_FILLED} else exec_type rep \<in> {NEW, PENDING_NEW})
                          in if live
                             then (case cancel g1 cl of (g2, Inl e) \<Rightarrow> (sr', g2, Inl e) | (g2, Inr _) \<Rightarrow> (sr', g2, Inr out))
                             else (sr', g1, Inr out)))"

fun lit_legs ::
    "('g \<Rightarrow> order \<Rightarrow> 'g \<times> execution_report res) \<Rightarrow> (nat \<Rightarrow> string) \<Rightarrow> nat \<Rightarrow> 'g \<Rightarrow> string \<Rightarrow> order_side \<Rightarrow> int \<Rightarrow>
     execution_report list \<Rightarrow> (string \<times> routed_order) list \<Rightarrow> 'g \<times> execution_report list res" where
  "lit_legs submit uid k g s sd now reps [] = (g, Inr reps)"
| "lit_legs submit uid k g s sd now reps ((vid, ro) # al) =
     (case child_order (''sor-lit-'' @ vid @ ''-'' @ uid k) s sd ro now of
        Inl e \<Rightarrow> (g, Inl e)
      | Inr od \<Rightarrow>
          (case submit_child submit g od of
             (g', Inl e) \<Rightarrow> (g', Inl e)
           | (g', Inr rep) \<Rightarrow> lit_legs submit uid (Suc k) g' s sd now (reps @ [rep]) al))"

definition lit_sweep ::
    "('g \<Rightarrow> order \<Rightarrow> 'g \<times> execution_report res) \<Rightarrow> (nat \<Rightarrow> string) \<Rightarrow> smart_router \<Rightarrow> 'g \<Rightarrow> string \<Rightarrow> order_side \<Rightarrow> float64 \<Rightarrow>
     consolidated_quote \<Rightarrow> int \<Rightarrow> execution_report list \<Rightarrow> smart_router \<times> 'g \<times> execution_report list res" where
  "lit_sweep submit uid sr g s sd q quote now reps =
     (if q > routing_eps
      then case compute_routing_allocation sr (PStr s) (side_val sd) (PFloat q) quote False False (PInt now) of
             (sr', Inl e) \<Rightarrow> (sr', g, Inl e)
           | (sr', Inr al) \<Rightarrow> (case lit_legs submit uid 1 g s sd now reps al of (g', r) \<Rightarrow> (sr', g', r))
      else (sr, g, Inr reps))"

definition route_slice ::
    "('g \<Rightarrow> bool) \<Rightarrow> ('g \<Rightarrow> order \<Rightarrow> 'g \<times> execution_report res) \<Rightarrow> ('g \<Rightarrow> string \<Rightarrow> 'g \<times> execution_report res) \<Rightarrow> (nat \<Rightarrow> string) \<Rightarrow>
     smart_router \<Rightarrow> 'g \<Rightarrow> string \<Rightarrow> order_side \<Rightarrow> float64 \<Rightarrow> consolidated_quote \<Rightarrow> bool \<Rightarrow> int \<Rightarrow>
     smart_router \<times> 'g \<times> execution_report list res" where
  "route_slice is_up submit cancel uid sr g s sd q quote enable_dark now =
     (if \<not> is_up g then (sr, g, Inl (Sor ChildOrderFailedException))
      else if \<not> enable_dark then lit_sweep submit uid sr g s sd q quote now []
      else
        case dark_leg submit cancel (uid 0) sr g s sd q quote now of
          (sr1, g1, Inl e) \<Rightarrow> (sr1, g1, Inl e)
        | (sr1, g1, Inr (done, reps, left)) \<Rightarrow>
            if done then (sr1, g1, Inr reps) else lit_sweep submit uid sr1 g1 s sd left quote now reps)"

section \<open>Over the paper gateway\<close>

abbreviation paper_route ::
    "env \<Rightarrow> (nat \<Rightarrow> string) \<Rightarrow> smart_router \<Rightarrow> paper_gateway \<Rightarrow> string \<Rightarrow> order_side \<Rightarrow> float64 \<Rightarrow> consolidated_quote \<Rightarrow> bool \<Rightarrow> int \<Rightarrow>
     smart_router \<times> paper_gateway \<times> execution_report list res" where
  "paper_route ev \<equiv> route_slice is_connected (paper_submit ev) (paper_cancel ev)"

section \<open>The gateway contract\<close>

text \<open>The orders the router submits: new limit orders.\<close>

definition child_ok :: "order_side \<Rightarrow> routed_order \<Rightarrow> order \<Rightarrow> bool" where
  "child_ok sd ro od \<longleftrightarrow> order_inv od \<and> state od = PENDING_NEW \<and> order_type od = LIMIT \<and> side od = sd \<and>
     quantity od = ro_quantity ro \<and> price od = Some (ro_price ro)"

text \<open>What the router may assume of a report: all of the order at its limit or better, or nothing yet.\<close>

definition report_ok :: "order_side \<Rightarrow> float64 \<Rightarrow> float64 \<Rightarrow> execution_report \<Rightarrow> bool" where
  "report_ok sd q p rep \<longleftrightarrow>
     exec_type rep = FILLED \<and> cum_quantity rep = q \<and> (if sd = BUY then last_price rep \<le> p else p \<le> last_price rep) \<or>
     exec_type rep = NEW \<and> cum_quantity rep = 0"

text \<open>No execution is worse than the far side of the spread.\<close>

definition within_touch :: "order_side \<Rightarrow> consolidated_quote \<Rightarrow> execution_report \<Rightarrow> bool" where
  "within_touch sd quote rep \<longleftrightarrow>
     exec_type rep = FILLED \<and> (if sd = BUY then last_price rep \<le> ask_price quote else bid_price quote \<le> last_price rep) \<or>
     exec_type rep = NEW \<and> cum_quantity rep = 0"

lemma check_pos_float: "check_pos e (PFloat x) = Inr y \<Longrightarrow> y = x"
  by (cases x) (auto split: if_splits)

lemma child_order_ok:
  assumes "child_order cl s sd ro now = Inr od" "ro_order_type ro = LIMIT"
  shows "child_ok sd ro od"
proof -
  have "order_wf od" using assms(1) unfolding child_order_def by (rule order_new_wf)
  then have "order_inv od" by (simp add: order_wf_def order_inv_def nonneg_finite_def)
  moreover have "state od = PENDING_NEW \<and> order_type od = LIMIT \<and> side od = sd"
    using assms by (cases sd) (auto simp: child_order_def order_new_def bindR_Inr_iff order_defaults_def type_val_def side_val_def
        check_enum_def order_side_of_def order_type_of_def order_state_of_def)
  moreover have "quantity od = ro_quantity ro \<and> price od = Some (ro_price ro)"
    using assms by (auto simp: child_order_def order_new_def bindR_Inr_iff order_defaults_def check_opt_pos_def dest!: check_pos_float)
  ultimately show ?thesis by (simp add: child_ok_def)
qed

lemma routed_ok_limit:
  assumes "routed_ok sr s sd q quote now e" "quote_wf quote" "quote_doubles quote" "isfinite (bid_price quote + ask_price quote)"
  shows "ro_order_type (snd e) = LIMIT \<and>
    (if sd = BUY then ro_price (snd e) \<le> ask_price quote else bid_price quote \<le> ro_price (snd e))"
proof -
  have r: "bid_price quote \<le> bid_price quote" "ask_price quote \<le> ask_price quote"
    using assms(2) by (auto simp: quote_wf_def pos_finite_def isfinite_iff)
  obtain v dark x p where v: "snd e = child_order_of s sd v dark x p"
    "p = (if sd = BUY then ask_price quote else bid_price quote) \<or> p = midpoint quote"
    using assms(1) unfolding routed_ok_def by blast
  have "ro_order_type (snd e) = LIMIT \<and> ro_price (snd e) = p" unfolding v(1) by (simp add: child_order_of_def)
  then show ?thesis using v(2) r midpoint_between [OF assms(2-4)] by auto
qed

lemma report_ok_touch:
  assumes "report_ok sd q p rep" "if sd = BUY then p \<le> ask_price quote else bid_price quote \<le> p"
  shows "within_touch sd quote rep"
proof (cases sd)
  case BUY
  then show ?thesis using assms float_le_trans [of "last_price rep" p "ask_price quote"] by (auto simp: report_ok_def within_touch_def)
next
  case SELL
  then show ?thesis using assms float_le_trans [of "bid_price quote" p "last_price rep"] by (auto simp: report_ok_def within_touch_def)
qed

locale all_or_none_gateway =
  fixes submit :: "'g \<Rightarrow> order \<Rightarrow> 'g \<times> execution_report res"
    and cancel :: "'g \<Rightarrow> string \<Rightarrow> 'g \<times> execution_report res"
    and ok :: "'g \<Rightarrow> bool"
  assumes submit_ok: "ok g \<Longrightarrow> child_ok sd ro od \<Longrightarrow> ok (fst (submit g od))"
    and cancel_ok: "ok g \<Longrightarrow> ok (fst (cancel g c))"
    and submit_report: "ok g \<Longrightarrow> child_ok sd ro od \<Longrightarrow> submit g od = (g', Inr rep) \<Longrightarrow>
      report_ok sd (ro_quantity ro) (ro_price ro) rep"
begin

lemma submit_child_ok: "ok g \<Longrightarrow> child_ok sd ro od \<Longrightarrow> ok (fst (submit_child submit g od))"
  using submit_ok [of g sd ro od] by (auto simp: submit_child_def split: prod.splits sum.splits)

lemma submit_child_report: "ok g \<Longrightarrow> child_ok sd ro od \<Longrightarrow> submit_child submit g od = (g', Inr rep) \<Longrightarrow>
    report_ok sd (ro_quantity ro) (ro_price ro) rep"
  by (auto simp: submit_child_def split: prod.splits sum.splits if_splits dest: submit_report)

lemma lit_legs_reports:
  assumes "ok g" "lit_legs submit uid k g s sd now reps al = (g', r)"
    "\<forall>e \<in> set al. ro_order_type (snd e) = LIMIT \<and>
       (if sd = BUY then ro_price (snd e) \<le> ask_price quote else bid_price quote \<le> ro_price (snd e))"
  shows "ok g' \<and> (\<forall>out. r = Inr out \<longrightarrow> (\<forall>rep \<in> set reps. within_touch sd quote rep) \<longrightarrow> (\<forall>rep \<in> set out. within_touch sd quote rep))"
  using assms
proof (induction al arbitrary: k g reps)
  case (Cons e al)
  obtain vid ro where e: "e = (vid, ro)" by (cases e)
  show ?case
  proof (cases "child_order (''sor-lit-'' @ vid @ ''-'' @ uid k) s sd ro now")
    case (Inl x)
    then show ?thesis using Cons.prems e by auto
  next
    case (Inr od)
    then have c: "child_ok sd ro od" using Cons.prems(3) e by (auto intro: child_order_ok)
    obtain g1 r1 where s1: "submit_child submit g od = (g1, r1)" by fastforce
    have g1: "ok g1" using submit_child_ok [OF Cons.prems(1) c] s1 by simp
    show ?thesis
    proof (cases r1)
      case (Inl x)
      then show ?thesis using Cons.prems e s1 g1 Inr by auto
    next
      case r1: (Inr rep)
      have "report_ok sd (ro_quantity ro) (ro_price ro) rep" using submit_child_report [OF Cons.prems(1) c] s1 r1 by simp
      then have "within_touch sd quote rep" by (rule report_ok_touch) (use Cons.prems(3) e in \<open>cases sd; simp\<close>)
      then show ?thesis using Cons.IH [OF g1, of "Suc k" "reps @ [rep]"] Cons.prems(2,3) e s1 r1 Inr by auto
    qed
  qed
qed auto

lemma allocation_limits:
  assumes "compute_routing_allocation sr (PStr s) (side_val sd) (PFloat q) quote dark partial (PInt now) = (sr', Inr al)"
    "quote_wf quote" "quote_doubles quote" "isfinite (bid_price quote + ask_price quote)" "e \<in> set al"
  shows "ro_order_type (snd e) = LIMIT \<and>
    (if sd = BUY then ro_price (snd e) \<le> ask_price quote else bid_price quote \<le> ro_price (snd e))"
proof -
  obtain s' sd' q' now' where a: "check_allocation_args (PStr s) (side_val sd) (PFloat q) quote (PInt now) = Inr (s', sd', q', now')"
    "routed_ok sr s' sd' q' quote now' e" using compute_allocation_ok [OF assms(1,2,5)] by blast
  have "sd' = sd" using a(1)
    by (cases sd) (auto simp: check_allocation_args_def bindR_Inr_iff check_member_def side_val_def order_side_of_def split: if_splits)
  then show ?thesis using routed_ok_limit [OF a(2) assms(2-4)] by simp
qed

lemma lit_sweep_reports:
  assumes "ok g" "lit_sweep submit uid sr g s sd q quote now reps = (sr', g', r)"
    "quote_wf quote" "quote_doubles quote" "isfinite (bid_price quote + ask_price quote)" "\<forall>rep \<in> set reps. within_touch sd quote rep"
  shows "ok g' \<and> (\<forall>out. r = Inr out \<longrightarrow> (\<forall>rep \<in> set out. within_touch sd quote rep))"
proof (cases "q > routing_eps")
  case True
  obtain sr1 al where c: "compute_routing_allocation sr (PStr s) (side_val sd) (PFloat q) quote False False (PInt now) = (sr1, al)"
    by fastforce
  show ?thesis
  proof (cases al)
    case (Inl x)
    then show ?thesis using assms(1,2) True c by (auto simp: lit_sweep_def)
  next
    case (Inr xs)
    then have "lit_legs submit uid 1 g s sd now reps xs = (g', r)" using assms(2) True c by (auto simp: lit_sweep_def split: prod.splits)
    then show ?thesis using lit_legs_reports [OF assms(1), of uid 1 s sd now reps xs g' r quote] allocation_limits [OF c [unfolded Inr] assms(3-5)]
      assms(6) by blast
  qed
qed (use assms(1,2,6) in \<open>auto simp: lit_sweep_def\<close>)

lemma dark_leg_reports:
  assumes "ok g" "dark_leg submit cancel u sr g s sd q quote now = (sr', g', r)"
    "quote_wf quote" "quote_doubles quote" "isfinite (bid_price quote + ask_price quote)"
  shows "ok g' \<and> (\<forall>fin reps left. r = Inr (fin, reps, left) \<longrightarrow> (\<forall>rep \<in> set reps. within_touch sd quote rep))"
proof -
  obtain sr1 al where c: "compute_routing_allocation sr (PStr s) (side_val sd) (PFloat q) quote True True (PInt now) = (sr1, al)"
    by fastforce
  consider (err) x where "al = Inl x" | (none) "al = Inr []" | (some) vid ro rest where "al = Inr ((vid, ro) # rest)"
    by (metis list.exhaust old.sum.exhaust surj_pair)
  then show ?thesis
  proof cases
    case some
    let ?cl = "''sor-dark-'' @ vid @ ''-'' @ u"
    note lm = allocation_limits [OF c [unfolded some] assms(3-5), of "(vid, ro)"]
    show ?thesis
    proof (cases "ro_is_dark ro \<and> (\<exists>od. child_order ?cl s sd ro now = Inr od)")
      case False
      then show ?thesis using assms(1,2) c some
        by (cases "ro_is_dark ro"; cases "child_order ?cl s sd ro now") (auto simp: dark_leg_def Let_def)
    next
      case True
      then obtain od where od: "child_order ?cl s sd ro now = Inr od" by blast
      then have k: "child_ok sd ro od" using lm by (auto intro: child_order_ok)
      obtain g1 r1 where s1: "submit_child submit g od = (g1, r1)" by fastforce
      have g1: "ok g1" "ok (fst (cancel g1 ?cl))" using submit_child_ok [OF assms(1) k] s1 cancel_ok by simp_all
      have w: "within_touch sd quote rep" if "r1 = Inr rep" for rep
        using report_ok_touch [OF submit_child_report [OF assms(1) k], of g1 rep quote] s1 that lm by (cases sd) simp_all
      show ?thesis using assms(2) c some True od s1 g1 w
        by (cases r1; cases "cancel g1 ?cl") (auto simp: dark_leg_def Let_def split: sum.splits if_splits)
    qed
  qed (use assms(1,2) c in \<open>auto simp: dark_leg_def\<close>)
qed

lemma route_slice_reports:
  assumes "ok g" "route_slice up submit cancel uid sr g s sd q quote dark now = (sr', g', r)"
    "quote_wf quote" "quote_doubles quote" "isfinite (bid_price quote + ask_price quote)"
  shows "ok g' \<and> (\<forall>out. r = Inr out \<longrightarrow> (\<forall>rep \<in> set out. within_touch sd quote rep))"
proof (cases "up g \<and> dark")
  case False
  then show ?thesis using lit_sweep_reports [OF assms(1) _ assms(3-5), of uid sr s sd q now "[]" sr' g' r] assms(1,2)
    by (auto simp: route_slice_def split: if_splits)
next
  case True
  obtain sr1 g1 r1 where d: "dark_leg submit cancel (uid 0) sr g s sd q quote now = (sr1, g1, r1)" by (metis prod_cases3)
  note dk = dark_leg_reports [OF assms(1) d assms(3-5)]
  show ?thesis
  proof (cases r1)
    case (Inl x)
    then show ?thesis using assms(2) True d dk by (auto simp: route_slice_def)
  next
    case (Inr a)
    obtain fin reps left where a: "a = (fin, reps, left)" by (cases a)
    show ?thesis using assms(2) True d dk Inr a lit_sweep_reports [OF _ _ assms(3-5), of g1 uid sr1 s sd left now reps sr' g' r]
      by (cases fin) (auto simp: route_slice_def)
  qed
qed

end

subsection \<open>The paper gateway meets the contract\<close>

interpretation paper: all_or_none_gateway "paper_submit ev" "paper_cancel ev" gateway_inv for ev
proof unfold_locales
  fix g sd ro od
  assume g: "gateway_inv g" and od: "child_ok sd ro od"
  let ?g = "g\<lparr>heap := (heap g)(fresh_ref g := od)\<rparr>"
  have oi: "order_inv od" using od by (simp add: child_ok_def)
  note h = alloc_order_inv [OF g oi]
  show "gateway_inv (fst (paper_submit ev g od))" by (rule paper_submit_inv [OF g oi])
  fix g' rep
  assume "paper_submit ev g od = (g', Inr rep)"
  then have "submit_commit ev ?g (fresh_ref g) = (g', Inr rep)"
    by (auto simp: paper_submit_def submit_order_def Let_def split: sum.splits)
  from submit_limit_report [OF h this] od show "report_ok sd (ro_quantity ro) (ro_price ro) rep"
    by (cases sd) (auto simp: child_ok_def report_ok_def)
next
  fix g c
  assume "gateway_inv g"
  then show "gateway_inv (fst (paper_cancel ev g c))" by (rule paper_cancel_inv)
qed

text \<open>C26: Best execution of a routed slice: when \<open>route_slice\<close> runs over the paper gateway, whatever its outcome the gateway's
  invariant survives (registry, idempotency router and order books agree), and every report it returns is either a complete
  fill of a child at a price no worse than the far side of the quote (at most the ask for a buy, at least the bid for a sell,
  dark midpoint fills included), or an acknowledgement that executed nothing.\<close>

theorem route_slice_best_execution:
  assumes "gateway_inv gw" and "consolidated_quote_new a = Inr quote" and "quote_doubles quote"
    and "isfinite (bid_price quote + ask_price quote)"
    and "paper_route ev uid sr gw s sd q quote dark now = (sr', gw', r)"
  shows "gateway_inv gw' \<and>
    (\<forall>reps. r = Inr reps \<longrightarrow> (\<forall>rep \<in> set reps.
       exec_type rep = FILLED \<and> (if sd = BUY then last_price rep \<le> ask_price quote else bid_price quote \<le> last_price rep) \<or>
       exec_type rep = NEW \<and> cum_quantity rep = 0))"
  using paper.route_slice_reports [OF assms(1,5) consolidated_quote_new_wf [OF assms(2)] assms(3,4)] unfolding within_touch_def by blast

text \<open>A sample slice: four shares bought on venue \<^verbatim>\<open>A\<close>, which rest because the gateway has no price yet.\<close>

definition sample_child :: order where
  "sample_child = \<lparr>cl_ord_id = ''sor-lit-A-u'', symbol = ''AAPL'', side = BUY, order_type = LIMIT, quantity = Fin 4, price = Some (Fin 102),
     stop_price = None, time_in_force = IOC, state = PENDING_NEW, exchange_order_id = None, filled_quantity = 0,
     filled_quote_amount = 0, average_price = 0, fees_paid = 0, created_at_ns = 0, updated_at_ns = 0\<rparr>"

definition one_venue :: smart_router where
  "one_venue = sample_router\<lparr>lit_venues := [sample_venue ''A'' LIT_EXCHANGE 3]\<rparr>"

lemma sample_slice_allocation:
  "\<exists>sr'. compute_routing_allocation one_venue (PStr ''AAPL'') (side_val BUY) (PFloat (Fin 4)) sample_quote False False (PInt 0) =
     (sr', Inr [(''A'', child_order_of ''AAPL'' BUY (sample_venue ''A'' LIT_EXCHANGE 3) False (Fin 4) (Fin 102))])"
proof -
  have e: "\<not> Fin 4 \<le> routing_eps" "routing_eps < Fin 4" "\<not> routing_eps < Fin 4 - Fin 4"
    using routing_eps_below_one [of 4] routing_eps_below_one [of 0] whole_diff [of 4 4] by (simp_all add: less_float64_def)
  have a: "check_allocation_args (PStr ''AAPL'') (side_val BUY) (PFloat (Fin 4)) sample_quote (PInt 0) = Inr (''AAPL'', BUY, Fin 4, 0)"
    by (simp add: check_allocation_args_def check_nonblank_def check_member_def order_side_of_def str_strip_def is_space_def sample_quote_def
        side_val_def)
  show ?thesis unfolding compute_routing_allocation_def a
    by (simp add: route_lit_def one_venue_def sample_router_def sample_quote_def sample_venue_def fresh_health_def
        health_is_active_def lit_candidate_def py_min_def e routed_order_new_def child_order_of_def str_strip_def is_space_def Let_def)
qed

lemma sample_child_order:
  "child_order ''sor-lit-A-u'' ''AAPL'' BUY (child_order_of ''AAPL'' BUY (sample_venue ''A'' LIT_EXCHANGE 3) False (Fin 4) (Fin 102)) 0 = Inr sample_child"
  by (simp add: child_order_def child_order_of_def order_new_eval order_defaults_def type_val_def tif_val_def side_val_def sample_child_def
      zero_float64_def)

lemma sample_child_rests:
  "\<exists>gw' r. paper_submit sample_env (sample_gw 1000 [] sample_order) sample_child = (gw', Inr r) \<and> exec_type r = NEW"
  by (simp add: paper_submit_def submit_order_def submit_precheck_def fresh_ref_def gateway_eval sample_gw_def sample_child_def sample_order_def
     default_router_def sample_env_def Let_def zero_float64_def [symmetric] check_number_PFloat)
     (simp add: zero_float64_def)

theorem route_slice_best_execution_witness:
  "\<exists>sr' gw' rep. paper_route sample_env (\<lambda>_. ''u'') one_venue (sample_gw 1000 [] sample_order) ''AAPL'' BUY (Fin 4) sample_quote False 0 =
     (sr', gw', Inr [rep]) \<and> gateway_inv gw' \<and> cum_quantity rep = 0"
proof -
  have inv: "gateway_inv (sample_gw 1000 [] sample_order)" by (intro sample_gw_inv sample_order_inv) simp
  let ?a = "\<lparr>qa_symbol = PStr ''AAPL'', qa_bid_price = PInt 100, qa_bid_quantity = PInt 9, qa_ask_price = PInt 102, qa_ask_quantity = PInt 9,
    qa_timestamp_ns = PInt 0, qa_venue_depths = Some [(PStr ''A'', DepthPair (PInt 4) (PInt 4)), (PStr ''B'', DepthPair (PInt 5) (PInt 5))]\<rparr>"
  have q: "consolidated_quote_new ?a = Inr sample_quote"
    by (simp add: consolidated_quote_new_def check_str_def check_depths_def check_depth_def int_overflows_def float_of_int_def sample_quote_def)
  have d: "quote_doubles sample_quote" "isfinite (bid_price sample_quote + ask_price sample_quote)"
    by (simp_all add: quote_doubles_def sample_quote_def)
  obtain sr' where c: "compute_routing_allocation one_venue (PStr ''AAPL'') (side_val BUY) (PFloat (Fin 4)) sample_quote False False (PInt 0) =
     (sr', Inr [(''A'', child_order_of ''AAPL'' BUY (sample_venue ''A'' LIT_EXCHANGE 3) False (Fin 4) (Fin 102))])"
    using sample_slice_allocation by blast
  obtain gw' rep where r: "paper_submit sample_env (sample_gw 1000 [] sample_order) sample_child = (gw', Inr rep)" "exec_type rep = NEW"
    using sample_child_rests by blast
  have "routing_eps < Fin 4" using routing_eps_below_one [of 4] by (simp add: less_float64_def)
  then have p: "paper_route sample_env (\<lambda>_. ''u'') one_venue (sample_gw 1000 [] sample_order) ''AAPL'' BUY (Fin 4) sample_quote False 0 =
     (sr', gw', Inr [rep])"
    using c r sample_child_order by (simp add: route_slice_def lit_sweep_def submit_child_def sample_gw_def)
  from route_slice_best_execution [OF inv q d p] p r(2) show ?thesis by auto
qed

end
