(* ===== verification/Risk_Orchestrator.thy ===== *)
theory Risk_Orchestrator
  imports Risk Kill_Switch Heartbeat Slice_Routing
begin

text \<open>
  \<^verbatim>\<open>src/src/quant/execution/risk_orchestrator.py\<close>: the orchestrator that composes the kill switch, the pre-trade firewall, the
  risk state, the gateways, the smart order router and the watchdogs.

  The type guards of the constructor hold by typing. Gateways and watchdogs are objects in two stores; the identity of the
  disconnect callback made for a gateway is a parameter. With a running event loop a disconnect callback only queues the panic as a
  background task (\<open>oc_background_tasks\<close>), which the loop runs later (\<open>run_background_task\<close>): between the two, other coroutines may run
  and submissions still pass. Without one it runs the panic at once, and what that raises reaches the watchdog. A panic that has
  started is one step: it latches the switch before its first suspension. The ids drawn from \<^verbatim>\<open>uuid4\<close>, the clock and
  the iteration order of the symbols are parameters.

  Lemmas: an order reaches a gateway only past the kill switch and the firewall; a refused order leaves its reservation
  behind as it was; the silence of a gateway queues a panic, and the panic leaves no open order at the gateways that answer in time.
\<close>

section \<open>State\<close>

record 'g orchestrator =
  oc_limits :: risk_limits
  oc_kill_switch :: "'g kill_switch"
  oc_state :: risk_state
  oc_router :: "smart_router option"
  oc_admin_token :: string
  oc_gateways :: "(string \<times> nat) list"
  oc_watchdogs :: "(string \<times> nat) list"
  oc_callbacks :: "(string \<times> nat) list"
  oc_default_gateway :: "string option"
  oc_background_tasks :: "panic_args list"

definition orchestrator_new :: "risk_limits \<Rightarrow> 'g kill_switch \<Rightarrow> risk_state \<Rightarrow> smart_router option \<Rightarrow> pyval \<Rightarrow> 'g orchestrator res" where
  "orchestrator_new lims ks st rt token =
     bindR (check_nonblank BadRisk token) (\<lambda>t.
     Inr \<lparr>oc_limits = lims, oc_kill_switch = ks, oc_state = st, oc_router = rt, oc_admin_token = str_strip t, oc_gateways = [],
          oc_watchdogs = [], oc_callbacks = [], oc_default_gateway = None, oc_background_tasks = []\<rparr>)"

section \<open>Registration\<close>

text \<open>\<open>cb\<close> is the identity of the callback made for this registration; the watchdog store is returned updated.\<close>

definition oc_register_gateway ::
    "'g orchestrator \<Rightarrow> (nat \<Rightarrow> watchdog) \<Rightarrow> nat \<Rightarrow> nat option \<Rightarrow> nat \<Rightarrow> pyval \<Rightarrow> pyval \<Rightarrow> string \<Rightarrow> pyval \<Rightarrow> bool \<Rightarrow>
     'g orchestrator \<times> (nat \<Rightarrow> watchdog) \<times> string res" where
  "oc_register_gateway oc wds ref wd cb gateway_attr venue_attr class_id gid is_default =
     (case register_gateway (oc_kill_switch oc) ref gateway_attr venue_attr class_id gid of
        (ks, Inl e) \<Rightarrow> (oc\<lparr>oc_kill_switch := ks\<rparr>, wds, Inl e)
      | (ks, Inr g) \<Rightarrow>
          let oc1 = oc\<lparr>oc_kill_switch := ks, oc_gateways := dict_set (oc_gateways oc) g ref,
                       oc_default_gateway := (if is_default \<or> oc_default_gateway oc = None then Some g else oc_default_gateway oc)\<rparr>
          in case wd of
               None \<Rightarrow> (oc1, wds, Inr g)
             | Some r \<Rightarrow>
                 (oc1\<lparr>oc_watchdogs := dict_set (oc_watchdogs oc) g r, oc_callbacks := dict_set (oc_callbacks oc) g cb\<rparr>,
                  wds(r := register_disconnect_listener (wds r) cb), Inr g))"

definition oc_unregister_gateway :: "'g orchestrator \<Rightarrow> (nat \<Rightarrow> watchdog) \<Rightarrow> pyval \<Rightarrow> 'g orchestrator \<times> (nat \<Rightarrow> watchdog) \<times> unit res" where
  "oc_unregister_gateway oc wds gv =
     (case check_nonblank (PyErr ValueError) gv of
        Inl e \<Rightarrow> (oc, wds, Inl e)
      | Inr s \<Rightarrow>
          let g = str_strip s
          in if dict_get (oc_gateways oc) g = None then (oc, wds, Inl (PyErr KeyError))
             else
               let (oc1, wds1) =
                     (case dict_get (oc_watchdogs oc) g of
                        None \<Rightarrow> (oc, wds)
                      | Some r \<Rightarrow>
                          (case dict_get (oc_callbacks oc) g of
                             None \<Rightarrow> (oc\<lparr>oc_watchdogs := dict_pop (oc_watchdogs oc) g\<rparr>, wds)
                           | Some cb \<Rightarrow> (oc\<lparr>oc_watchdogs := dict_pop (oc_watchdogs oc) g, oc_callbacks := dict_pop (oc_callbacks oc) g\<rparr>,
                                         wds(r := unregister_disconnect_listener (wds r) cb))));
                   oc2 = oc1\<lparr>oc_gateways := dict_pop (oc_gateways oc1) g\<rparr>
               in case unregister_gateway (oc_kill_switch oc2) (PStr g) of
                    (ks, Inl e) \<Rightarrow> (oc2\<lparr>oc_kill_switch := ks\<rparr>, wds1, Inl e)
                  | (ks, Inr _) \<Rightarrow>
                      (oc2\<lparr>oc_kill_switch := ks,
                           oc_default_gateway := (if oc_default_gateway oc2 = Some g
                             then (case oc_gateways oc2 of [] \<Rightarrow> None | (k, _) # _ \<Rightarrow> Some k) else oc_default_gateway oc2)\<rparr>, wds1, Inr ()))"

definition set_default_gateway :: "'g orchestrator \<Rightarrow> string \<Rightarrow> 'g orchestrator \<times> unit res" where
  "set_default_gateway oc g =
     (if dict_get (oc_gateways oc) g = None then (oc, Inl (PyErr KeyError)) else (oc\<lparr>oc_default_gateway := Some g\<rparr>, Inr ()))"

definition resolve_gateway :: "'g orchestrator \<Rightarrow> string option \<Rightarrow> nat res" where
  "resolve_gateway oc target =
     (case target of
        Some t \<Rightarrow> (case dict_get (oc_gateways oc) t of None \<Rightarrow> Inl (PyErr RuntimeError) | Some r \<Rightarrow> Inr r)
      | None \<Rightarrow>
          (case (case oc_default_gateway oc of None \<Rightarrow> None | Some d \<Rightarrow> dict_get (oc_gateways oc) d) of
             Some r \<Rightarrow> Inr r
           | None \<Rightarrow> (case oc_gateways oc of [] \<Rightarrow> Inl (PyErr RuntimeError) | (_, r) # _ \<Rightarrow> Inr r)))"

section \<open>Panics\<close>

text \<open>A panic of the orchestrator's switch over the store of gateways.\<close>

definition oc_panic ::
    "'g gateway_api \<Rightarrow> int \<Rightarrow> int \<Rightarrow> 'g orchestrator \<Rightarrow> (nat \<Rightarrow> 'g) \<Rightarrow> panic_args \<Rightarrow> 'g orchestrator \<times> (nat \<Rightarrow> 'g) \<times> kill_switch_event res" where
  "oc_panic api clock now oc w a =
     (case trigger_panic api clock now (oc_kill_switch oc) w a of (ks, w', r) \<Rightarrow> (oc\<lparr>oc_kill_switch := ks\<rparr>, w', r))"

text \<open>The message texts are parameters.\<close>

definition update_market_price ::
    "'g gateway_api \<Rightarrow> int \<Rightarrow> int \<Rightarrow> string \<Rightarrow> 'g orchestrator \<Rightarrow> (nat \<Rightarrow> 'g) \<Rightarrow> pyval \<Rightarrow> pyval \<Rightarrow> 'g orchestrator \<times> (nat \<Rightarrow> 'g) \<times> unit res" where
  "update_market_price api clock now txt oc w symv pricev =
     (case update_price (oc_state oc) symv pricev of
        (st, Inl e) \<Rightarrow> (oc\<lparr>oc_state := st\<rparr>, w, Inl e)
      | (st, Inr _) \<Rightarrow>
          (case intraday_drawdown st of
             (st1, Inl e) \<Rightarrow> (oc\<lparr>oc_state := st1\<rparr>, w, Inl e)
           | (st1, Inr dd) \<Rightarrow>
               let oc1 = oc\<lparr>oc_state := st1\<rparr>
               in if dd \<ge> max_intraday_drawdown_pct (oc_limits oc) \<and> \<not> ks_is_active (oc_kill_switch oc)
                  then (case oc_panic api clock now oc1 w
                          \<lparr>pn_reason = PEnum ''PanicTriggerReason'' ''DRAWDOWN_BREACH'', pn_source = PStr (''MarketData:'' @ (case as_str symv of Some s \<Rightarrow> s | None \<Rightarrow> [])),
                           pn_mode = PEnum ''PanicMode'' ''CANCEL_ONLY'', pn_details = PStr txt, pn_timestamp_ns = PNone\<rparr> of
                          (oc2, w', Inl e) \<Rightarrow> (oc2, w', Inl e)
                        | (oc2, w', Inr _) \<Rightarrow> (oc2, w', Inr ()))
                  else (oc1, w, Inr ())))"

definition disconnect_args :: "string \<Rightarrow> string \<Rightarrow> int \<Rightarrow> panic_args" where
  "disconnect_args gid txt ts =
     \<lparr>pn_reason = PEnum ''PanicTriggerReason'' ''GATEWAY_DISCONNECT'', pn_source = PStr gid, pn_mode = PEnum ''PanicMode'' ''CANCEL_ONLY'',
      pn_details = PStr txt, pn_timestamp_ns = PInt ts\<rparr>"

definition handle_gateway_disconnect ::
    "'g gateway_api \<Rightarrow> int \<Rightarrow> int \<Rightarrow> string \<Rightarrow> 'g orchestrator \<Rightarrow> (nat \<Rightarrow> 'g) \<Rightarrow> string \<Rightarrow> int option \<Rightarrow>
     'g orchestrator \<times> (nat \<Rightarrow> 'g) \<times> kill_switch_event res" where
  "handle_gateway_disconnect api clock now txt oc w gid tsv =
     oc_panic api clock now oc w (disconnect_args gid txt (case tsv of None \<Rightarrow> clock | Some t \<Rightarrow> t))"

text \<open>What the disconnect callbacks made by \<^verbatim>\<open>register_gateway\<close> (the listeners in \<open>made\<close>) do when a watchdog fires: with a running
  event loop the panic becomes a background task, otherwise it runs at once.\<close>

definition oc_fire ::
    "'g gateway_api \<Rightarrow> int \<Rightarrow> int \<Rightarrow> bool \<Rightarrow> nat list \<Rightarrow> string \<Rightarrow> nat \<Rightarrow> string \<Rightarrow> hb_call \<Rightarrow> 'g orchestrator \<times> (nat \<Rightarrow> 'g) \<Rightarrow>
     ('g orchestrator \<times> (nat \<Rightarrow> 'g)) \<times> unit res" where
  "oc_fire api clock now loop_running made txt l gid c s =
     (let (oc, w) = s
      in case c of
        Disconnected es ts \<Rightarrow>
          if l \<notin> set made then (s, Inr ())
          else if loop_running then ((oc\<lparr>oc_background_tasks := oc_background_tasks oc @ [disconnect_args gid txt ts]\<rparr>, w), Inr ())
          else (case oc_panic api clock now oc w (disconnect_args gid txt ts) of
                  (oc', w', Inl e) \<Rightarrow> ((oc', w'), Inl e)
                | (oc', w', Inr _) \<Rightarrow> ((oc', w'), Inr ()))
      | _ \<Rightarrow> (s, Inr ()))"

text \<open>The event loop turns to the oldest background task. What the panic raises stays in the task, which is discarded when done.\<close>

definition run_background_task :: "'g gateway_api \<Rightarrow> int \<Rightarrow> int \<Rightarrow> 'g orchestrator \<Rightarrow> (nat \<Rightarrow> 'g) \<Rightarrow> 'g orchestrator \<times> (nat \<Rightarrow> 'g)" where
  "run_background_task api clock now oc w =
     (case oc_background_tasks oc of
        [] \<Rightarrow> (oc, w)
      | a # ts \<Rightarrow> (case oc_panic api clock now (oc\<lparr>oc_background_tasks := ts\<rparr>) w a of (oc', w', _) \<Rightarrow> (oc', w')))"

section \<open>Routing\<close>

definition reserve :: "(string \<times> float64) list \<Rightarrow> string \<Rightarrow> float64 \<Rightarrow> (string \<times> float64) list" where
  "reserve d s x = dict_set d s (dict_get_default d s 0 + x)"

definition release :: "(string \<times> float64) list \<Rightarrow> string \<Rightarrow> float64 \<Rightarrow> (string \<times> float64) list" where
  "release d s x =
     (let v = dict_get_default d s 0 - x; d' = dict_set d s v in if \<bar>v\<bar> \<le> pico then dict_pop d' s else d')"

definition fill_price_of :: "execution_report \<Rightarrow> order \<Rightarrow> pyval \<Rightarrow> risk_state \<Rightarrow> pyval" where
  "fill_price_of rep od cp st =
     (if last_price rep > 0 then PFloat (last_price rep)
      else case price od of
             Some p \<Rightarrow> if p > 0 then PFloat p
                       else if cp \<noteq> PNone then cp else PFloat (dict_get_default (current_prices st) (symbol od) (Fin 1))
           | None \<Rightarrow> if cp \<noteq> PNone then cp else PFloat (dict_get_default (current_prices st) (symbol od) (Fin 1)))"

text \<open>Booking the reports of a routed slice: the quantity booked.\<close>

fun book_reports :: "order \<Rightarrow> pyval \<Rightarrow> risk_state \<Rightarrow> float64 \<Rightarrow> execution_report list \<Rightarrow> risk_state \<times> float64 res" where
  "book_reports od cp st acc [] = (st, Inr acc)"
| "book_reports od cp st acc (rep # reps) =
     (if exec_type rep = FILLED \<or> exec_type rep = PARTIALLY_FILLED
      then case update_fill st (PStr (symbol od)) (PFloat (cum_quantity rep)) (fill_price_of rep od cp st) (side_val (side od)) of
             (st', Inl e) \<Rightarrow> (st', Inl e)
           | (st', Inr _) \<Rightarrow> book_reports od cp st' (acc + cum_quantity rep) reps
      else book_reports od cp st acc reps)"

definition unfilled_eps :: float64 where
  "unfilled_eps = flit (1 / 10 ^ 7)"

definition book_slice :: "order \<Rightarrow> pyval \<Rightarrow> risk_state \<Rightarrow> execution_report list \<Rightarrow> risk_state \<times> unit res" where
  "book_slice od cp st reps =
     (case book_reports od cp st 0 reps of
        (st', Inl e) \<Rightarrow> (st', Inl e)
      | (st', Inr booked) \<Rightarrow>
          let unfilled = py_max 0 (quantity od - booked)
          in (if unfilled > unfilled_eps
              then st'\<lparr>pending_leaves := release (pending_leaves st') (symbol od) (if side od = BUY then unfilled else - unfilled)\<rparr> else st',
              Inr ()))"

definition book_single :: "order \<Rightarrow> pyval \<Rightarrow> risk_state \<Rightarrow> execution_report \<Rightarrow> risk_state \<times> unit res" where
  "book_single od cp st rep =
     (if exec_type rep \<in> {REJECTED, CANCELLED, EXPIRED}
      then (st\<lparr>pending_leaves := release (pending_leaves st) (symbol od) (order_delta od)\<rparr>, Inr ())
      else if exec_type rep = FILLED \<or> exec_type rep = PARTIALLY_FILLED
      then update_fill st (PStr (symbol od)) (PFloat (if last_quantity rep > 0 then last_quantity rep else cum_quantity rep))
             (fill_price_of rep od cp st) (side_val (side od))
      else (st, Inr ()))"

datatype route_result = Single execution_report | Many "execution_report list"

text \<open>The body of the \<^verbatim>\<open>try\<close>: risk state, router and gateways it leaves, and its outcome.\<close>

definition dispatch_order ::
    "('g \<Rightarrow> bool) \<Rightarrow> 'g gateway_api \<Rightarrow> (nat \<Rightarrow> string) \<Rightarrow> int \<Rightarrow> 'g orchestrator \<Rightarrow> risk_state \<Rightarrow> (nat \<Rightarrow> 'g) \<Rightarrow> order \<Rightarrow> string option \<Rightarrow> pyval \<Rightarrow>
     consolidated_quote option \<Rightarrow> risk_state \<times> smart_router option \<times> (nat \<Rightarrow> 'g) \<times> route_result res" where
  "dispatch_order up api uid now oc st w od target cp quote =
     (case (oc_router oc, quote, target) of
        (Some sr, Some qt, None) \<Rightarrow>
          (case resolve_gateway oc None of
             Inl e \<Rightarrow> (st, Some sr, w, Inl e)
           | Inr ref \<Rightarrow>
               (case route_slice up (api_submit api) (api_cancel api) uid sr (w ref) (symbol od) (side od) (quantity od) qt True now of
                  (sr', g', Inl e) \<Rightarrow> (st, Some sr', w(ref := g'), Inl e)
                | (sr', g', Inr reps) \<Rightarrow>
                    (case book_slice od cp st reps of
                       (st', Inl e) \<Rightarrow> (st', Some sr', w(ref := g'), Inl e)
                     | (st', Inr _) \<Rightarrow> (st', Some sr', w(ref := g'), Inr (Many reps)))))
      | _ \<Rightarrow>
          (case resolve_gateway oc target of
             Inl e \<Rightarrow> (st, oc_router oc, w, Inl e)
           | Inr ref \<Rightarrow>
               (case api_submit api (w ref) od of
                  (g', Inl e) \<Rightarrow> (st, oc_router oc, w(ref := g'), Inl e)
                | (g', Inr rep) \<Rightarrow>
                    (case book_single od cp st rep of
                       (st', Inl e) \<Rightarrow> (st', oc_router oc, w(ref := g'), Inl e)
                     | (st', Inr _) \<Rightarrow> (st', oc_router oc, w(ref := g'), Inr (Single rep))))))"

definition route_order ::
    "('g \<Rightarrow> bool) \<Rightarrow> 'g gateway_api \<Rightarrow> (nat \<Rightarrow> string) \<Rightarrow> int \<Rightarrow> string list \<Rightarrow> 'g orchestrator \<Rightarrow> (nat \<Rightarrow> 'g) \<Rightarrow> order \<Rightarrow> string option \<Rightarrow> pyval \<Rightarrow>
     consolidated_quote option \<Rightarrow> 'g orchestrator \<times> (nat \<Rightarrow> 'g) \<times> route_result res" where
  "route_order up api uid now syms oc w od target cp quote =
     (case validate_submission (oc_kill_switch oc) of
        Inl e \<Rightarrow> (oc, w, Inl e)
      | Inr _ \<Rightarrow>
          (case validate_order syms (oc_limits oc) od (oc_state oc) cp of
             (st1, Inl e) \<Rightarrow> (oc\<lparr>oc_state := st1\<rparr>, w, Inl e)
           | (st1, Inr _) \<Rightarrow>
               let st2 = st1\<lparr>pending_leaves := reserve (pending_leaves st1) (symbol od) (order_delta od)\<rparr>
               in case dispatch_order up api uid now oc st2 w od target cp quote of
                    (st3, rt, w', Inl e) \<Rightarrow>
                      (oc\<lparr>oc_state := st3\<lparr>pending_leaves := release (pending_leaves st3) (symbol od) (order_delta od)\<rparr>, oc_router := rt\<rparr>,
                       w', Inl e)
                  | (st3, rt, w', Inr out) \<Rightarrow> (oc\<lparr>oc_state := st3, oc_router := rt\<rparr>, w', Inr out)))"

section \<open>The gate\<close>

lemma dispatch_target:
  assumes "dispatch_order up api uid now oc st w od target cp quote = (st', rt, w', r)" "w' ref \<noteq> w ref"
  shows "resolve_gateway oc target = Inr ref"
  using assms by (auto simp: dispatch_order_def split: option.splits sum.splits prod.splits if_splits)

text \<open>C3: The gate before every gateway: routing an order changes at most the gateway it resolves to, and changes a gateway or
  returns a report only when the kill switch is not in panic and the firewall accepted the order on the current portfolio.
  In panic the call raises the kill-switch exception and changes nothing at all.\<close>

theorem orchestrator_gate:
  assumes "route_order up api uid now syms oc w od target cp quote = (oc', w', r)"
  shows "(ks_state (oc_kill_switch oc) = PANIC_TRIGGERED \<longrightarrow> oc' = oc \<and> w' = w \<and> r = Inl (Rsk KillSwitchActiveException)) \<and>
    (w' \<noteq> w \<or> (\<exists>out. r = Inr out) \<longrightarrow>
       ks_state (oc_kill_switch oc) \<noteq> PANIC_TRIGGERED \<and> snd (validate_order syms (oc_limits oc) od (oc_state oc) cp) = Inr ()) \<and>
    (\<forall>ref. w' ref \<noteq> w ref \<longrightarrow> resolve_gateway oc target = Inr ref) \<and> oc_kill_switch oc' = oc_kill_switch oc"
proof -
  obtain st1 v where v: "validate_order syms (oc_limits oc) od (oc_state oc) cp = (st1, v)" by fastforce
  let ?st2 = "st1\<lparr>pending_leaves := reserve (pending_leaves st1) (symbol od) (order_delta od)\<rparr>"
  obtain st3 rt w3 d where d: "dispatch_order up api uid now oc ?st2 w od target cp quote = (st3, rt, w3, d)" by (metis prod_cases4)
  show ?thesis
  proof (cases "ks_state (oc_kill_switch oc) = PANIC_TRIGGERED \<or> (\<exists>e. v = Inl e)")
    case True
    then show ?thesis using assms v by (auto simp: route_order_def validate_submission_def split: if_splits)
  next
    case False
    then have "v = Inr ()" by (cases v) auto
    moreover have "w' = w3" using assms v False d \<open>v = Inr ()\<close>
      by (cases d) (auto simp: route_order_def validate_submission_def Let_def)
    moreover have "oc_kill_switch oc' = oc_kill_switch oc" using assms v False d \<open>v = Inr ()\<close>
      by (cases d) (auto simp: route_order_def validate_submission_def Let_def)
    ultimately show ?thesis using dispatch_target [OF d] False v by auto
  qed
qed

section \<open>Reservations\<close>

lemma whole_below_pico: "\<bar>whole k\<bar> \<le> pico \<Longrightarrow> k = 0"
proof (rule ccontr)
  assume k: "\<bar>whole k\<bar> \<le> pico" "k \<noteq> 0"
  have "pico \<le> rnd64 (1 / 2)" unfolding pico_def by (rule rnd64_mono) simp
  then have "\<bar>whole k\<bar> \<le> rnd64 (1 / 2)" by (rule float_le_trans [OF k(1)])
  then have "\<bar>whole k\<bar> \<le> Fin (1 / 2)" unfolding rnd64_half .
  then have "\<bar>of_int k\<bar> \<le> (1 / 2 :: rat)" by simp
  moreover have "1 \<le> \<bar>of_int k :: rat\<bar>" using k(2) by linarith
  ultimately show False by simp
qed

lemma release_lookup:
  assumes "dict_get_default d s 0 - x = whole k"
  shows "dict_get_default (release d s x) s 0 = whole k" "s' \<noteq> s \<Longrightarrow> dict_get (release d s x) s' = dict_get d s'"
proof -
  show "s' \<noteq> s \<Longrightarrow> dict_get (release d s x) s' = dict_get d s'" by (simp add: release_def Let_def)
  show "dict_get_default (release d s x) s 0 = whole k"
  proof (cases "\<bar>whole k\<bar> \<le> pico")
    case True
    then show ?thesis using assms whole_below_pico [OF True] by (simp add: release_def Let_def zero_float64_def)
  next
    case False
    then show ?thesis using assms by (simp add: release_def Let_def)
  qed
qed

lemma whole_reserve_release:
  assumes "\<bar>p\<bar> + \<bar>x\<bar> < 2 ^ 53"
  shows "whole p + whole x - whole x = whole p"
proof -
  have "whole p + whole x = whole (p + x)" using assms by (intro whole_add) linarith
  moreover have "whole (p + x) - whole x = whole p" using whole_diff [of "p + x" x] assms by simp
  ultimately show ?thesis by simp
qed

text \<open>The quantity working for a symbol.\<close>

abbreviation working :: "'g orchestrator \<Rightarrow> string \<Rightarrow> float64" where
  "working oc s \<equiv> dict_get_default (pending_leaves (oc_state oc)) s 0"

text \<open>C35: Reservations of orders that go directly to a gateway (no smart order router, no quote, or a named gateway) are exact for
  whole quantities: an accepted order that then rests adds exactly its signed quantity to the working quantity of its symbol, and one
  that the gateway refuses (by an exception, a missing gateway, or a rejected, cancelled or expired report) leaves it exactly as it was;
  cash, positions and the other symbols do not change in either case. An order routed over venues is not covered: there the reservation
  is released although a child may rest (\<open>orchestrator_untracked_child\<close>).\<close>

theorem orchestrator_reservation:
  assumes "route_order up api uid now syms oc w od target cp quote = (oc', w', r)" and "oc_router oc = None \<or> quote = None \<or> target \<noteq> None"
    and "snd (validate_order syms (oc_limits oc) od (oc_state oc) cp) = Inr ()" and "ks_state (oc_kill_switch oc) \<noteq> PANIC_TRIGGERED"
    and "peak_equity (oc_state oc) \<noteq> NaN" and "working oc (symbol od) = whole p" and "quantity od = whole q" and "\<bar>p\<bar> + \<bar>q\<bar> < 2 ^ 53"
    and "resolve_gateway oc target = Inl e \<or> (\<exists>ref g. resolve_gateway oc target = Inr ref \<and>
      (api_submit api (w ref) od = (g, Inl e) \<or>
       api_submit api (w ref) od = (g, Inr rep) \<and> exec_type rep \<in> {NEW, REJECTED, CANCELLED, EXPIRED}))"
  shows "working oc' (symbol od) = whole (if r = Inr (Single rep) \<and> exec_type rep = NEW then p + (if side od = BUY then q else - q) else p) \<and>
    rs_cash (oc_state oc') = rs_cash (oc_state oc) \<and> rs_positions (oc_state oc') = rs_positions (oc_state oc) \<and>
    (\<forall>s. s \<noteq> symbol od \<longrightarrow> dict_get (pending_leaves (oc_state oc')) s = dict_get (pending_leaves (oc_state oc)) s)"
proof -
  let ?d = "if side od = BUY then q else - q" and ?sy = "symbol od"
  have od: "order_delta od = whole ?d" using assms(7) by (simp add: order_delta_def)
  obtain pk where v: "validate_order syms (oc_limits oc) od (oc_state oc) cp = ((oc_state oc)\<lparr>peak_equity := pk\<rparr>, Inr ())"
    using firewall_frame [OF assms(5), of syms "oc_limits oc" od cp] assms(3) by (metis prod.collapse)
  define st2 where "st2 = (oc_state oc)\<lparr>peak_equity := pk, pending_leaves := reserve (pending_leaves (oc_state oc)) ?sy (whole ?d)\<rparr>"
  have w2: "dict_get_default (pending_leaves st2) ?sy 0 = whole (p + ?d)"
    using assms(6,8) whole_add [of p ?d] by (auto simp: st2_def reserve_def)
  have o2: "dict_get (pending_leaves st2) s = dict_get (pending_leaves (oc_state oc)) s" if "s \<noteq> ?sy" for s
    using that by (simp add: st2_def reserve_def)
  have rel: "dict_get_default (pending_leaves st2) ?sy 0 - whole ?d = whole p"
    using w2 whole_diff [of "p + ?d" ?d] assms(8) by auto
  note rl = release_lookup [OF rel]
  let ?undo = "st2\<lparr>pending_leaves := release (pending_leaves st2) ?sy (whole ?d)\<rparr>"
  have disp: "dispatch_order up api uid now oc st w od target cp quote = dispatch_order up api uid now oc st w od target cp None" for st
    using assms(2) by (auto simp: dispatch_order_def split: option.splits)
  have "(oc_state oc' = ?undo \<and> \<not> (r = Inr (Single rep) \<and> exec_type rep = NEW)) \<or>
      (oc_state oc' = st2 \<and> r = Inr (Single rep) \<and> exec_type rep = NEW)"
    using assms(1,2,4,9) v
    unfolding route_order_def disp
    by (auto simp: validate_submission_def dispatch_order_def book_single_def od st2_def Let_def split: option.splits)
  then show ?thesis using w2 o2 rl by (auto simp: st2_def)
qed

section \<open>Silence ends in a panic\<close>

text \<open>Each callback of the orchestrator among the disconnect listeners queues one panic, and does nothing else.\<close>

lemma fire_all:
  "foldl (\<lambda>s l. fst (oc_fire api clock now True made txt l gid (Disconnected es ts) s)) (oc, w) ls =
     (oc\<lparr>oc_background_tasks := oc_background_tasks oc @ replicate (length (filter (\<lambda>l. l \<in> set made) ls)) (disconnect_args gid txt ts)\<rparr>, w)"
  by (induction ls arbitrary: oc) (auto simp: oc_fire_def)

lemma disconnect_parsed:
  assumes "str_strip gid \<noteq> []" "0 < ts"
  shows "parse_panic clock (disconnect_args gid txt ts) = Inr (GATEWAY_DISCONNECT, str_strip gid, CANCEL_ONLY, str_strip txt, ts)"
  using assms by (simp add: parse_panic_def disconnect_args_def parse_member_def panic_reasons_def panic_modes_def check_nonblank_def)


section \<open>Samples\<close>

definition sample_orchestrator :: "kill_switch_state \<Rightarrow> smart_router option \<Rightarrow> paper_gateway orchestrator" where
  "sample_orchestrator st rt = \<lparr>oc_limits = sample_limits, oc_kill_switch = sample_switch st, oc_state = flat_state, oc_router = rt,
     oc_admin_token = ''root'', oc_gateways = [(''paper'', 0)], oc_watchdogs = [(''paper'', 0)], oc_callbacks = [(''paper'', 7)],
     oc_default_gateway = Some ''paper'', oc_background_tasks = []\<rparr>"

abbreviation sample_route where
  "sample_route oc quote \<equiv> route_order is_connected (paper_api sample_env) (\<lambda>_. ''u'') 0 [''AAPL''] oc (\<lambda>_. sample_gw 2000 [] sample_order)
     sample_order None PNone quote"

theorem orchestrator_gate_witness:
  "sample_route (sample_orchestrator PANIC_TRIGGERED None) None =
     (sample_orchestrator PANIC_TRIGGERED None, \<lambda>_. sample_gw 2000 [] sample_order, Inl (Rsk KillSwitchActiveException))"
proof -
  obtain oc' w' r where x: "sample_route (sample_orchestrator PANIC_TRIGGERED None) None = (oc', w', r)" by (metis prod_cases3)
  have "ks_state (oc_kill_switch (sample_orchestrator PANIC_TRIGGERED None)) = PANIC_TRIGGERED"
    by (simp add: sample_orchestrator_def sample_switch_def)
  with orchestrator_gate [OF x] x show ?thesis by simp
qed

lemma sample_submit_rests:
  "\<exists>gw' rep. paper_submit sample_env (sample_gw 2000 [] sample_order) sample_order = (gw', Inr rep) \<and> exec_type rep = NEW"
  by (simp add: paper_submit_def submit_order_def submit_precheck_def fresh_ref_def gateway_eval sample_gw_def sample_order_def
     default_router_def sample_env_def Let_def zero_float64_def [symmetric] check_number_PFloat)
     (simp add: zero_float64_def)

theorem orchestrator_reservation_witness:
  "\<exists>oc' w' rep. sample_route (sample_orchestrator ARMED_STANDBY None) None = (oc', w', Inr (Single rep)) \<and> exec_type rep = NEW \<and>
     working oc' ''AAPL'' = Fin 10"
proof -
  let ?oc = "sample_orchestrator ARMED_STANDBY None"
  obtain gw' rep where s: "paper_submit sample_env (sample_gw 2000 [] sample_order) sample_order = (gw', Inr rep)" "exec_type rep = NEW"
    using sample_submit_rests by blast
  obtain oc' w' where x: "sample_route ?oc None = (oc', w', Inr (Single rep))"
    using s by (simp add: route_order_def sample_orchestrator_def sample_switch_def validate_submission_def sample_accepted Let_def
        dispatch_order_def resolve_gateway_def paper_api_def book_single_def)
  have f: "ks_state (oc_kill_switch ?oc) \<noteq> PANIC_TRIGGERED" "peak_equity (oc_state ?oc) \<noteq> NaN" "working ?oc (symbol sample_order) = whole 0"
    "quantity sample_order = whole 10" "\<bar>0::int\<bar> + \<bar>10\<bar> < 2 ^ 53" "oc_limits ?oc = sample_limits" "oc_state ?oc = flat_state"
    "resolve_gateway ?oc None = Inr 0"
    by (simp_all add: sample_orchestrator_def sample_switch_def flat_state_def sample_order_def zero_float64_def resolve_gateway_def)
  have v: "snd (validate_order [''AAPL''] (oc_limits ?oc) sample_order (oc_state ?oc) PNone) = Inr ()"
    unfolding f(6,7) sample_accepted by simp
  have sy: "symbol sample_order = ''AAPL''" "side sample_order = BUY" by (simp_all add: sample_order_def)
  have direct: "oc_router ?oc = None \<or> (None::consolidated_quote option) = None \<or> (None::string option) \<noteq> None" by simp
  from orchestrator_reservation [OF x direct v f(1-5), of "PyErr KeyError" rep] s f(8) x sy show ?thesis by (auto simp: paper_api_def)
qed


subsection \<open>A working order the risk state does not see\<close>

definition deep_quote :: consolidated_quote where
  "deep_quote = sample_quote\<lparr>venue_depths := [(''A'', Fin 16, Fin 16)]\<rparr>"

definition routed_child :: order where
  "routed_child = sample_child\<lparr>quantity := Fin 10\<rparr>"

lemma deep_allocation:
  "compute_routing_allocation one_venue (PStr ''AAPL'') (side_val BUY) (PFloat (Fin 10)) deep_quote dark partial (PInt 0) =
     (one_venue, Inr [(''A'', child_order_of ''AAPL'' BUY (sample_venue ''A'' LIT_EXCHANGE 3) False (Fin 10) (Fin 102))])"
proof -
  have e: "\<not> Fin 10 \<le> routing_eps" "routing_eps < Fin 16" "\<not> routing_eps < Fin 10 - Fin 10"
    using routing_eps_below_one [of 10] routing_eps_below_one [of 16] routing_eps_below_one [of 0] whole_diff [of 10 10]
    by (simp_all add: less_float64_def)
  have a: "check_allocation_args (PStr ''AAPL'') (side_val BUY) (PFloat (Fin 10)) deep_quote (PInt 0) = Inr (''AAPL'', BUY, Fin 10, 0)"
    by (simp add: check_allocation_args_def check_nonblank_def check_member_def order_side_of_def str_strip_def is_space_def sample_quote_def
        side_val_def deep_quote_def)
  show ?thesis unfolding compute_routing_allocation_def a
    by (simp add: route_lit_def one_venue_def sample_router_def sample_quote_def deep_quote_def sample_venue_def fresh_health_def
        health_is_active_def lit_candidate_def py_min_def e routed_order_new_def child_order_of_def str_strip_def is_space_def Let_def)
qed

lemma routed_child_order:
  "child_order ''sor-lit-A-u'' ''AAPL'' BUY (child_order_of ''AAPL'' BUY (sample_venue ''A'' LIT_EXCHANGE 3) False (Fin 10) (Fin 102)) 0 = Inr routed_child"
  by (simp add: child_order_def child_order_of_def order_new_eval order_defaults_def type_val_def tif_val_def side_val_def sample_child_def
      zero_float64_def routed_child_def)

lemma routed_child_rests:
  "\<exists>gw' r. paper_submit sample_env (sample_gw 2000 [] sample_order) routed_child = (gw', Inr r) \<and> exec_type r = NEW \<and> get_open_orders gw' \<noteq> []"
  by (simp add: paper_submit_def submit_order_def submit_precheck_def fresh_ref_def gateway_eval sample_gw_def sample_child_def routed_child_def
     sample_order_def default_router_def sample_env_def Let_def zero_float64_def [symmetric] check_number_PFloat get_open_orders_def)
     (simp add: zero_float64_def)

text \<open>The paper gateway rests an immediate-or-cancel child that is not marketable. Routed through the smart order router, such a
  child stays open at the gateway, but the orchestrator releases its whole reservation: the firewall no longer counts it.\<close>

theorem orchestrator_untracked_child:
  "\<exists>oc' w' reps. sample_route (sample_orchestrator ARMED_STANDBY (Some one_venue)) (Some deep_quote) = (oc', w', Inr (Many reps)) \<and>
     pending_leaves (oc_state oc') = [] \<and> get_open_orders (w' 0) \<noteq> []"
proof -
  obtain gw' rep where s: "paper_submit sample_env (sample_gw 2000 [] sample_order) routed_child = (gw', Inr rep)" "exec_type rep = NEW"
    "get_open_orders gw' \<noteq> []" using routed_child_rests by blast
  have "routing_eps < Fin 10" using routing_eps_below_one [of 10] by (simp add: less_float64_def)
  then have rs: "route_slice is_connected (api_submit (paper_api sample_env)) (api_cancel (paper_api sample_env)) (\<lambda>_. ''u'') one_venue
      (sample_gw 2000 [] sample_order) ''AAPL'' BUY (Fin 10) deep_quote True 0 = (one_venue, gw', Inr [rep])"
    using s routed_child_order
    by (simp add: route_slice_def dark_leg_def lit_sweep_def deep_allocation submit_child_def paper_api_def child_order_of_def sample_gw_def)
  have so: "symbol sample_order = ''AAPL''" "side sample_order = BUY" "quantity sample_order = Fin 10" by (simp_all add: sample_order_def)
  have "Fin 10 - 0 = Fin 10" using whole_diff [of 10 0] by (simp add: zero_float64_def)
  then have u: "py_max 0 (Fin 10 - 0) = Fin 10" "unfilled_eps < Fin 10"
    using flit_power_ten [of 7] by (auto simp: py_max_def unfilled_eps_def)
  have z: "0 + Fin 10 = Fin 10" "Fin 10 - Fin 10 = Fin 0" "\<bar>Fin 0\<bar> \<le> pico"
    using whole_add [of 0 10] whole_diff [of 10 10] flit_power_ten [of 12] by (auto simp: zero_float64_def pico_def)
  have rv: "reserve (pending_leaves flat_state) ''AAPL'' (Fin 10) = [(''AAPL'', Fin 10)]"
    by (simp add: reserve_def flat_state_def z(1))
  have b: "book_slice sample_order PNone (flat_state\<lparr>pending_leaves := [(''AAPL'', Fin 10)]\<rparr>) [rep] = (flat_state\<lparr>pending_leaves := []\<rparr>, Inr ())"
    using s(2) u z(3) by (simp add: book_slice_def so release_def z(2) Let_def)
  show ?thesis
    using rs s(3)
    by (simp add: route_order_def sample_orchestrator_def sample_switch_def validate_submission_def sample_accepted Let_def
        dispatch_order_def resolve_gateway_def so order_delta_def rv b)
qed

end
