(* ===== verification/Audit_Log.thy ===== *)
theory Audit_Log
  imports Order_Model "HOL-Library.Multiset"
begin

text \<open>
  \<^verbatim>\<open>src/src/quant/execution/audit.py\<close>: the order audit logger, a bounded queue of execution reports that a worker flushes in
  batches into an SQLite table, and the query over that table.

  The table is the list of its rows. \<open>conn\<close> is what an open connection sees (its own uncommitted writes included), \<open>disk\<close> what
  is committed. \<^verbatim>\<open>flush\<close>, the critical section of \<^verbatim>\<open>stop\<close> and \<^verbatim>\<open>query_reports\<close> do not suspend while they hold the lock, so each
  is one step; the worker task is a step \<open>Flush\<close> whose exception is swallowed. The order in which SQLite visits rows with equal
  timestamps is a parameter. Failures of the disk and the creation of the database directory are not modelled.

  Lemmas: batching makes no difference; a logger whose reports fit the table loses none of them (refinement of a log
  with last-wins keys); what is queried is what was logged; and a report whose timestamp does not fit 64 bits takes
  the reports behind it with it.
\<close>

section \<open>Rows\<close>

record audit_row =
  ar_report_id :: string
  ar_cl_ord_id :: string
  ar_exchange_order_id :: string
  ar_symbol :: string
  ar_side :: string
  ar_exec_type :: string
  ar_last_quantity :: float64
  ar_last_price :: float64
  ar_cum_quantity :: float64
  ar_leaves_quantity :: float64
  ar_cum_quote_amount :: float64
  ar_average_price :: float64
  ar_fee :: float64
  ar_timestamp_ns :: int
  ar_text :: string

definition side_value :: "order_side \<Rightarrow> string" where
  "side_value sd = (case sd of BUY \<Rightarrow> ''BUY'' | SELL \<Rightarrow> ''SELL'')"

definition state_value :: "order_state \<Rightarrow> string" where
  "state_value st = (case st of PENDING_NEW \<Rightarrow> ''PENDING_NEW'' | NEW \<Rightarrow> ''NEW'' | PARTIALLY_FILLED \<Rightarrow> ''PARTIALLY_FILLED'' |
     FILLED \<Rightarrow> ''FILLED'' | PENDING_CANCEL \<Rightarrow> ''PENDING_CANCEL'' | CANCELLED \<Rightarrow> ''CANCELLED'' | REJECTED \<Rightarrow> ''REJECTED'' |
     EXPIRED \<Rightarrow> ''EXPIRED'')"

definition report_row :: "execution_report \<Rightarrow> audit_row" where
  "report_row r =
     \<lparr>ar_report_id = report_id r, ar_cl_ord_id = rep_cl_ord_id r, ar_exchange_order_id = rep_exchange_order_id r,
      ar_symbol = rep_symbol r, ar_side = side_value (rep_side r), ar_exec_type = state_value (exec_type r),
      ar_last_quantity = last_quantity r, ar_last_price = last_price r, ar_cum_quantity = cum_quantity r,
      ar_leaves_quantity = rep_leaves_quantity r, ar_cum_quote_amount = cum_quote_amount r,
      ar_average_price = rep_average_price r, ar_fee = fee r, ar_timestamp_ns = timestamp_ns r, ar_text = rep_text r\<rparr>"

text \<open>\<^verbatim>\<open>INSERT OR REPLACE\<close>: the row with the same primary key is deleted first.\<close>

definition upsert :: "audit_row list \<Rightarrow> audit_row \<Rightarrow> audit_row list" where
  "upsert t row = filter (\<lambda>x. ar_report_id x \<noteq> ar_report_id row) t @ [row]"

text \<open>\<^verbatim>\<open>executemany\<close>: an integer beyond 64 bits cannot be bound and raises, after the rows before it were inserted.\<close>

fun insert_many :: "audit_row list \<Rightarrow> execution_report list \<Rightarrow> audit_row list \<times> unit res" where
  "insert_many t [] = (t, Inr ())"
| "insert_many t (r # rs) =
     (if timestamp_ns r \<ge> 2 ^ 63 then (t, Inl (PyErr OverflowError)) else insert_many (upsert t (report_row r)) rs)"

text \<open>The chunks of \<^verbatim>\<open>range(0, len(reports), batch_size)\<close>; a step of zero raises.\<close>

function insert_chunks :: "nat \<Rightarrow> audit_row list \<Rightarrow> execution_report list \<Rightarrow> audit_row list \<times> unit res" where
  "insert_chunks n t rs =
     (if n = 0 then (t, Inl (PyErr ValueError))
      else if rs = [] then (t, Inr ())
      else case insert_many t (take n rs) of
             (t', Inl e) \<Rightarrow> (t', Inl e)
           | (t', Inr _) \<Rightarrow> insert_chunks n t' (drop n rs))"
  by pat_completeness auto

termination
  by (relation "measure (\<lambda>(n, t, rs). length rs)") auto

declare insert_chunks.simps [simp del]

section \<open>The logger\<close>

record audit_logger =
  db_path :: string
  batch_size :: nat
  flush_interval_seconds :: float64
  max_queue_size :: nat
  queue :: "execution_report list"
  conn :: "audit_row list option"
  is_running :: bool
  disk :: "audit_row list"

definition memory_path :: string where
  "memory_path = '':memory:''"

definition audit_logger_new :: "audit_row list \<Rightarrow> pyval \<Rightarrow> pyval \<Rightarrow> pyval \<Rightarrow> pyval \<Rightarrow> audit_logger res" where
  "audit_logger_new file path batch interval cap =
     bindR (check_nonblank InvalidInput path) (\<lambda>p.
     bindR (check_int InvalidInput (\<lambda>i. i \<le> 0) batch) (\<lambda>b.
     bindR (check_pos InvalidInput interval) (\<lambda>f.
     bindR (check_int InvalidInput (\<lambda>i. i \<le> 0) cap) (\<lambda>m.
     Inr \<lparr>db_path = str_strip p, batch_size = nat b, flush_interval_seconds = f, max_queue_size = nat m, queue = [],
          conn = None, is_running = False, disk = file\<rparr>))))"

definition logger_is_running :: "audit_logger \<Rightarrow> bool" where
  "logger_is_running lg \<longleftrightarrow> is_running lg \<and> conn lg \<noteq> None"

definition pending_count :: "audit_logger \<Rightarrow> nat" where
  "pending_count lg = length (queue lg)"

text \<open>Opening a new connection drops an old one with its uncommitted rows; an in-memory database starts empty.\<close>

definition audit_start :: "audit_logger \<Rightarrow> audit_logger" where
  "audit_start lg =
     (if logger_is_running lg then lg
      else
        let content = (if db_path lg = memory_path then [] else disk lg)
        in lg\<lparr>disk := content, conn := Some content, is_running := True\<rparr>)"

definition log_report :: "audit_logger \<Rightarrow> execution_report \<Rightarrow> audit_logger \<times> unit res" where
  "log_report lg r =
     (if max_queue_size lg \<le> length (queue lg) then (lg, Inl (PyErr QueueFull)) else (lg\<lparr>queue := queue lg @ [r]\<rparr>, Inr ()))"

definition flush :: "audit_logger \<Rightarrow> audit_logger \<times> unit res" where
  "flush lg =
     (case conn lg of
        None \<Rightarrow> (lg, Inr ())
      | Some t \<Rightarrow>
          if queue lg = [] then (lg, Inr ())
          else
            case insert_chunks (batch_size lg) t (queue lg) of
              (t', Inl e) \<Rightarrow> (lg\<lparr>queue := [], conn := Some t'\<rparr>, Inl e)
            | (t', Inr _) \<Rightarrow> (lg\<lparr>queue := [], conn := Some t', disk := t'\<rparr>, Inr ()))"

definition audit_stop :: "audit_logger \<Rightarrow> audit_logger \<times> unit res" where
  "audit_stop lg =
     (if \<not> is_running lg \<and> conn lg = None then (lg, Inr ())
      else
        let lg1 = lg\<lparr>is_running := False\<rparr>
        in case conn lg1 of
             None \<Rightarrow> (lg1, Inr ())
           | Some t \<Rightarrow>
               (case insert_many t (queue lg1) of
                  (t', Inl e) \<Rightarrow> (lg1\<lparr>queue := [], conn := Some t'\<rparr>, Inl e)
                | (t', Inr _) \<Rightarrow> (lg1\<lparr>queue := [], conn := None, disk := t'\<rparr>, Inr ())))"

text \<open>The optional filters of a query: absent, or the stripped text.\<close>

definition check_filter :: "pyval \<Rightarrow> string option res" where
  "check_filter v =
     (if v = PNone then Inr None else bindR (check_nonblank InvalidInput v) (\<lambda>s. Inr (Some (str_strip s))))"

definition row_matches :: "string option \<Rightarrow> string option \<Rightarrow> audit_row \<Rightarrow> bool" where
  "row_matches cl sy row \<longleftrightarrow>
     (case cl of None \<Rightarrow> True | Some c \<Rightarrow> ar_cl_ord_id row = c) \<and> (case sy of None \<Rightarrow> True | Some s \<Rightarrow> ar_symbol row = s)"

definition query_reports ::
    "(audit_row list \<Rightarrow> audit_row list) \<Rightarrow> audit_logger \<Rightarrow> pyval \<Rightarrow> pyval \<Rightarrow> pyval \<Rightarrow> audit_row list res" where
  "query_reports scan lg clv syv limit =
     (case conn lg of
        None \<Rightarrow> Inl (Gw GatewayDisconnectedException)
      | Some t \<Rightarrow>
          bindR (check_int InvalidInput (\<lambda>i. i \<le> 0) limit) (\<lambda>n.
          bindR (check_filter clv) (\<lambda>cl.
          bindR (check_filter syv) (\<lambda>sy.
          if n \<ge> 2 ^ 63 then Inl (PyErr OverflowError)
          else Inr (take (nat n) (sort_key ar_timestamp_ns (scan (filter (row_matches cl sy) t))))))))"

section \<open>Batches\<close>

lemma insert_many_append:
  "insert_many t (xs @ ys) = (case insert_many t xs of (t', Inl e) \<Rightarrow> (t', Inl e) | (t', Inr _) \<Rightarrow> insert_many t' ys)"
  by (induction t xs rule: insert_many.induct) auto

lemma insert_chunks_eq: "0 < n \<Longrightarrow> insert_chunks n t rs = insert_many t rs"
proof (induction n t rs rule: insert_chunks.induct)
  case (1 n t rs)
  show ?case
  proof (cases "rs = []")
    case False
    have "insert_many t rs = insert_many t (take n rs @ drop n rs)" by simp
    also have "\<dots> = insert_chunks n t rs"
      using 1 False unfolding insert_many_append by (subst insert_chunks.simps) (auto split: prod.splits sum.splits)
    finally show ?thesis by simp
  qed (use 1(2) in \<open>simp add: insert_chunks.simps\<close>)
qed

abbreviation storable :: "execution_report \<Rightarrow> bool" where
  "storable r \<equiv> timestamp_ns r < 2 ^ 63"

abbreviation rows_of :: "execution_report list \<Rightarrow> audit_row list" where
  "rows_of rs \<equiv> map report_row rs"

lemma insert_many_storable: "list_all storable rs \<Longrightarrow> insert_many t rs = (foldl upsert t (rows_of rs), Inr ())"
  by (induction t rs rule: insert_many.induct) auto

section \<open>Refinement of a log\<close>

text \<open>A store that is driven by commands, of which each takes some records; its view is the fold of what it took.\<close>

locale journaled_store =
  fixes exec :: "'s \<Rightarrow> 'c \<Rightarrow> 's"
    and taken :: "'s \<Rightarrow> 'c \<Rightarrow> 'r list"
    and put :: "'v \<Rightarrow> 'r \<Rightarrow> 'v"
    and view :: "'s \<Rightarrow> 'v"
    and I :: "'s \<Rightarrow> bool"
    and ok :: "'c \<Rightarrow> bool"
  assumes exec_I: "I s \<Longrightarrow> ok c \<Longrightarrow> I (exec s c)"
    and exec_view: "I s \<Longrightarrow> ok c \<Longrightarrow> view (exec s c) = foldl put (view s) (taken s c)"
begin

fun taken_run :: "'s \<Rightarrow> 'c list \<Rightarrow> 'r list" where
  "taken_run s [] = []"
| "taken_run s (c # cs) = taken s c @ taken_run (exec s c) cs"

lemma run_view:
  "I s \<Longrightarrow> list_all ok cs \<Longrightarrow> I (foldl exec s cs) \<and> view (foldl exec s cs) = foldl put (view s) (taken_run s cs)"
  by (induction cs arbitrary: s) (simp_all add: exec_I exec_view)

end

datatype audit_cmd = Start | LogReport execution_report | Flush | Stop

fun audit_exec :: "audit_logger \<Rightarrow> audit_cmd \<Rightarrow> audit_logger" where
  "audit_exec lg Start = audit_start lg"
| "audit_exec lg (LogReport r) = fst (log_report lg r)"
| "audit_exec lg Flush = fst (flush lg)"
| "audit_exec lg Stop = fst (audit_stop lg)"

text \<open>The reports a call accepts (a full queue refuses them), and those of a run.\<close>

fun accepted :: "audit_logger \<Rightarrow> audit_cmd \<Rightarrow> execution_report list" where
  "accepted lg (LogReport r) = (if snd (log_report lg r) = Inr () then [r] else [])"
| "accepted lg _ = []"

fun accepted_run :: "audit_logger \<Rightarrow> audit_cmd list \<Rightarrow> execution_report list" where
  "accepted_run lg [] = []"
| "accepted_run lg (c # cs) = accepted lg c @ accepted_run (audit_exec lg c) cs"

fun storable_cmd :: "audit_cmd \<Rightarrow> bool" where
  "storable_cmd (LogReport r) = storable r"
| "storable_cmd _ = True"

definition clean :: "audit_logger \<Rightarrow> bool" where
  "clean lg \<longleftrightarrow> 0 < batch_size lg \<and> db_path lg \<noteq> memory_path \<and> list_all storable (queue lg) \<and>
     (case conn lg of None \<Rightarrow> True | Some t \<Rightarrow> t = disk lg)"

definition journal :: "audit_logger \<Rightarrow> audit_row list" where
  "journal lg = foldl upsert (disk lg) (rows_of (queue lg))"

lemma flush_clean:
  assumes "clean lg"
  shows "flush lg = ((if conn lg = None then lg else lg\<lparr>queue := [], conn := Some (journal lg), disk := journal lg\<rparr>), Inr ())"
proof (cases "conn lg")
  case (Some t)
  then have t: "t = disk lg" using assms by (simp add: clean_def)
  show ?thesis
  proof (cases "queue lg = []")
    case True
    then show ?thesis using Some t by (simp add: flush_def journal_def)
  next
    case False
    have "insert_chunks (batch_size lg) (disk lg) (queue lg) = (journal lg, Inr ())"
      using assms by (simp add: insert_chunks_eq insert_many_storable clean_def journal_def)
    then show ?thesis using Some t False by (simp add: flush_def)
  qed
qed (simp add: flush_def)

lemma stop_clean:
  assumes "clean lg"
  shows "audit_stop lg =
    ((if conn lg = None then lg\<lparr>is_running := False\<rparr> else lg\<lparr>is_running := False, queue := [], conn := None, disk := journal lg\<rparr>), Inr ())"
proof (cases "conn lg")
  case (Some t)
  then have "insert_many t (queue lg) = (journal lg, Inr ())"
    using assms by (simp add: clean_def insert_many_storable journal_def)
  then show ?thesis using Some by (simp add: audit_stop_def)
qed (cases lg; simp add: audit_stop_def)

lemma audit_exec_clean: "clean lg \<Longrightarrow> storable_cmd c \<Longrightarrow> clean (audit_exec lg c)"
  by (cases c; cases "conn lg") (auto simp: clean_def audit_start_def Let_def log_report_def flush_clean [unfolded clean_def] stop_clean [unfolded clean_def])

lemma audit_exec_journal: "clean lg \<Longrightarrow> storable_cmd c \<Longrightarrow> journal (audit_exec lg c) = foldl upsert (journal lg) (rows_of (accepted lg c))"
  by (cases c) (auto simp: clean_def audit_start_def Let_def log_report_def flush_clean [unfolded clean_def] stop_clean [unfolded clean_def] journal_def)

interpretation audit: journaled_store audit_exec "\<lambda>lg c. rows_of (accepted lg c)" upsert journal clean storable_cmd
  by unfold_locales (rule audit_exec_clean audit_exec_journal; assumption)+

lemma accepted_run_rows: "audit.taken_run lg cs = rows_of (accepted_run lg cs)"
  by (induction cs arbitrary: lg) simp_all

text \<open>C37: No audited report is lost: over a database file, in any interleaving of starts, stops, log calls and flushes of reports
  whose timestamps fit 64 bits, the committed table followed by the queue always replays exactly the accepted reports in
  order (with the last report of an id winning), and a flush on an open connection, or a stop, never raises and commits
  that whole replay, whatever the batch size.\<close>

theorem audit_no_loss:
  assumes "audit_logger_new file path batch interval cap = Inr lg0" and "db_path lg0 \<noteq> memory_path"
    and "list_all storable_cmd cs" and "lg = foldl audit_exec lg0 cs"
  shows "foldl upsert (disk lg) (map report_row (queue lg)) = foldl upsert file (map report_row (accepted_run lg0 cs)) \<and>
    (conn lg \<noteq> None \<longrightarrow>
       (\<exists>lg'. flush lg = (lg', Inr ()) \<and> queue lg' = [] \<and> disk lg' = foldl upsert file (map report_row (accepted_run lg0 cs))) \<and>
       (\<exists>lg'. audit_stop lg = (lg', Inr ()) \<and> conn lg' = None \<and> disk lg' = foldl upsert file (map report_row (accepted_run lg0 cs))))"
proof -
  have "clean lg0" "journal lg0 = file"
    using assms(1,2) by (auto simp: audit_logger_new_def bindR_Inr_iff clean_def journal_def dest!: check_int_InrD)
  then have "clean lg" "journal lg = foldl upsert file (rows_of (accepted_run lg0 cs))"
    using audit.run_view [OF _ assms(3), of lg0] unfolding assms(4) accepted_run_rows by simp_all
  then show ?thesis using flush_clean [of lg] stop_clean [of lg] by (auto simp: journal_def)
qed

section \<open>Queries\<close>

lemma upsert_set: "set (upsert t row) = {x \<in> set t. ar_report_id x \<noteq> ar_report_id row} \<union> {row}"
  by (auto simp: upsert_def)

lemma foldl_upsert_keep:
  "row \<in> set t \<Longrightarrow> \<forall>x \<in> set rows. ar_report_id x \<noteq> ar_report_id row \<Longrightarrow> row \<in> set (foldl upsert t rows)"
  by (induction rows arbitrary: t) (auto simp: upsert_set)

lemma foldl_upsert_last:
  assumes "\<forall>x \<in> set post. ar_report_id x \<noteq> ar_report_id row"
  shows "row \<in> set (foldl upsert t (pre @ row # post))"
  using assms by (simp add: foldl_upsert_keep upsert_set)

lemma foldl_upsert_only: "row \<in> set (foldl upsert t rows) \<Longrightarrow> row \<in> set t \<union> set rows"
  by (induction rows arbitrary: t) (fastforce simp: upsert_set)+

lemma value_inject: "side_value a = side_value b \<longleftrightarrow> a = b" "state_value x = state_value y \<longleftrightarrow> x = y"
  by (simp_all add: side_value_def state_value_def split: order_side.splits order_state.splits)

lemma report_row_inject: "report_row r = report_row r' \<longleftrightarrow> r = r'"
  by (auto simp: report_row_def value_inject)

text \<open>What was logged can be read back: after a flush, a query for the client order id of a report (without surrounding
  blanks) and with a sufficient limit returns its row, unless a later report reused its report id; the row determines every
  field of the report. The answer is sorted by timestamp and holds only rows of that id that were in the table or logged.\<close>

theorem audit_query_roundtrip:
  assumes "clean lg" and "conn lg \<noteq> None" and "queue lg = pre @ r # post" and "\<forall>x \<in> set post. report_id x \<noteq> report_id r"
    and "\<And>rows. mset (scan rows) = mset rows"
    and "str_strip (rep_cl_ord_id r) = rep_cl_ord_id r" and "rep_cl_ord_id r \<noteq> []"
    and "int (length (journal lg)) \<le> n" and "0 < n" and "n < 2 ^ 63"
  shows "\<exists>out. query_reports scan (fst (flush lg)) (PStr (rep_cl_ord_id r)) PNone (PInt n) = Inr out \<and>
    report_row r \<in> set out \<and> (\<forall>r'. report_row r' \<in> set out \<and> report_row r' = report_row r \<longrightarrow> r' = r) \<and>
    sorted (map ar_timestamp_ns out) \<and>
    (\<forall>row \<in> set out. ar_cl_ord_id row = rep_cl_ord_id r \<and> row \<in> set (disk lg) \<union> report_row ` set (queue lg))"
proof -
  let ?rows = "filter (row_matches (Some (rep_cl_ord_id r)) None) (journal lg)"
  have len: "length (scan ?rows) \<le> nat n"
    using mset_eq_length [OF assms(5) [of ?rows]] length_filter_le [of "row_matches (Some (rep_cl_ord_id r)) None" "journal lg"] assms(8)
    by linarith
  have st: "set (scan ?rows) = set ?rows" using assms(5) by (metis set_mset_mset)
  have q: "query_reports scan (fst (flush lg)) (PStr (rep_cl_ord_id r)) PNone (PInt n) = Inr (sort_key ar_timestamp_ns (scan ?rows))"
    using assms(2,6,7,9,10) len
    by (simp add: query_reports_def flush_clean [OF assms(1)] check_filter_def check_nonblank_def)
  have "report_row r \<in> set (journal lg)"
    unfolding journal_def assms(3) using foldl_upsert_last [of "rows_of post" "report_row r"] assms(4) by (auto simp: report_row_def)
  then have "report_row r \<in> set ?rows" by (simp add: row_matches_def report_row_def)
  moreover have "row \<in> set (disk lg) \<union> report_row ` set (queue lg)" if "row \<in> set (journal lg)" for row
    using foldl_upsert_only [OF that [unfolded journal_def]] by simp
  ultimately show ?thesis using q st by (auto simp: report_row_inject row_matches_def)
qed

section \<open>A report that does not fit\<close>

definition audit_report :: "string \<Rightarrow> int \<Rightarrow> execution_report" where
  "audit_report rid ts = \<lparr>report_id = rid, rep_cl_ord_id = ''cl-1'', rep_exchange_order_id = ''ex-1'', rep_symbol = ''AAPL'', rep_side = BUY,
     exec_type = FILLED, last_quantity = Fin 1, last_price = Fin 100, cum_quantity = Fin 1, rep_leaves_quantity = 0,
     cum_quote_amount = Fin 100, rep_average_price = Fin 100, fee = 0, timestamp_ns = ts, rep_text = []\<rparr>"

definition audit_sample :: "execution_report list \<Rightarrow> audit_logger" where
  "audit_sample q = \<lparr>db_path = ''audit.db'', batch_size = 100, flush_interval_seconds = 1, max_queue_size = 50000, queue = q,
     conn = Some [], is_running = True, disk = []\<rparr>"

theorem audit_no_loss_witness:
  "\<exists>lg0. audit_logger_new [] (PStr ''audit.db'') (PInt 2) (PFloat (Fin 1)) (PInt 10) = Inr lg0 \<and>
     disk (fst (flush (foldl audit_exec lg0 [Start, LogReport (audit_report ''a'' 1), Flush, LogReport (audit_report ''b'' 2)]))) =
       [report_row (audit_report ''a'' 1), report_row (audit_report ''b'' 2)]"
proof -
  let ?cs = "[Start, LogReport (audit_report ''a'' 1), Flush, LogReport (audit_report ''b'' 2)]"
  obtain lg0 where n: "audit_logger_new [] (PStr ''audit.db'') (PInt 2) (PFloat (Fin 1)) (PInt 10) = Inr lg0"
    and d: "lg0 = \<lparr>db_path = ''audit.db'', batch_size = 2, flush_interval_seconds = Fin 1, max_queue_size = 10, queue = [], conn = None,
      is_running = False, disk = []\<rparr>"
    by (simp add: audit_logger_new_def check_nonblank_def str_strip_def is_space_def)
  have eval: "accepted_run lg0 ?cs = [audit_report ''a'' 1, audit_report ''b'' 2]" "conn (foldl audit_exec lg0 ?cs) \<noteq> None"
    by (simp_all add: d audit_start_def logger_is_running_def memory_path_def log_report_def flush_def insert_chunks.simps audit_report_def)
  have "db_path lg0 \<noteq> memory_path" "list_all storable_cmd ?cs" by (simp_all add: d memory_path_def audit_report_def)
  from audit_no_loss [OF n this refl, unfolded eval(1)] eval(2)
  obtain lg' where "flush (foldl audit_exec lg0 ?cs) = (lg', Inr ())"
    "disk lg' = foldl upsert [] (map report_row [audit_report ''a'' 1, audit_report ''b'' 2])" by blast
  then show ?thesis using n by (simp add: upsert_def report_row_def audit_report_def)
qed

theorem audit_query_roundtrip_witness:
  "\<exists>out. query_reports id (fst (flush (audit_sample [audit_report ''a'' 1]))) (PStr ''cl-1'') PNone (PInt 100) = Inr out \<and>
     report_row (audit_report ''a'' 1) \<in> set out"
proof -
  have "clean (audit_sample [audit_report ''a'' 1])" "conn (audit_sample [audit_report ''a'' 1]) \<noteq> None"
    "queue (audit_sample [audit_report ''a'' 1]) = [] @ audit_report ''a'' 1 # []" "rep_cl_ord_id (audit_report ''a'' 1) = ''cl-1''"
    "length (journal (audit_sample [audit_report ''a'' 1])) = 1"
    by (simp_all add: clean_def audit_sample_def memory_path_def audit_report_def journal_def upsert_def)
  with audit_query_roundtrip [where lg = "audit_sample [audit_report ''a'' 1]" and pre = "[]" and r = "audit_report ''a'' 1" and
      post = "[]" and scan = id and n = 100] show ?thesis
    by (auto simp: str_strip_def is_space_def)
qed

text \<open>A report whose timestamp does not fit 64 bits (the constructor accepts any non-negative integer) makes the flush raise
  after the queue was drained: nothing is committed, and every report behind it is gone from queue and table for good, even
  after a clean stop.\<close>

theorem audit_poison_report:
  "\<exists>lg. flush (audit_sample [audit_report ''a'' 1, audit_report ''b'' (2 ^ 63), audit_report ''c'' 3]) = (lg, Inl (PyErr OverflowError)) \<and>
     queue lg = [] \<and> disk lg = [] \<and> disk (fst (audit_stop lg)) = [report_row (audit_report ''a'' 1)]"
  by (simp add: flush_def audit_sample_def insert_chunks.simps audit_report_def upsert_def audit_stop_def)

end
