(* ===== verification/Parent_Order.thy ===== *)
theory Parent_Order
  imports Venues Py_Sum
begin

text \<open>
  \<^verbatim>\<open>src/src/quant/execution/parent_order.py\<close>: child fills, the parent order that accumulates them, its timeout check and
  the implementation-shortfall report.

  Lemmas: every operation keeps the parent invariant (\<open>parent_inv\<close>: the accumulators are the sums over the recorded fills,
  fills never exceed the target by more than the tolerance), a raising call changes nothing, and the report always passes
  its own additive check.
\<close>

abbreviation BadSorNum :: exn where
  "BadSorNum \<equiv> Sor NonFiniteInputException"

definition mass_tol :: float64 where
  "mass_tol = flit (1 / 10 ^ 7)"

section \<open>Child fills\<close>

record child_fill =
  cf_child_id :: string
  cf_quantity :: float64
  cf_price :: float64
  cf_fee :: float64
  cf_timestamp_ns :: int
  cf_spread_slippage :: float64

record child_args =
  ca_child_id :: pyval
  ca_quantity :: pyval
  ca_price :: pyval
  ca_fee :: pyval
  ca_timestamp_ns :: pyval
  ca_spread_slippage :: pyval

definition child_fill_new :: "child_args \<Rightarrow> child_fill res" where
  "child_fill_new a =
     bindR (check_nonblank BadSor (ca_child_id a)) (\<lambda>cid.
     bindR (check_pos BadSorNum (ca_quantity a)) (\<lambda>q.
     bindR (check_pos BadSorNum (ca_price a)) (\<lambda>p.
     bindR (check_nonneg BadSorNum (ca_fee a)) (\<lambda>f.
     bindR (check_int BadSorNum (\<lambda>i. i < 0) (ca_timestamp_ns a)) (\<lambda>t.
     bindR (check_fin BadSorNum (ca_spread_slippage a)) (\<lambda>sl.
     Inr \<lparr>cf_child_id = cid, cf_quantity = q, cf_price = p, cf_fee = f, cf_timestamp_ns = t, cf_spread_slippage = sl\<rparr>))))))"

section \<open>Shortfall report\<close>

record shortfall_report =
  delay_cost :: float64
  price_impact :: float64
  is_spread_slippage :: float64
  is_fees_paid :: float64
  opportunity_cost :: float64
  total_shortfall :: float64
  total_shortfall_bps :: float64
  delay_cost_bps :: float64
  price_impact_bps :: float64
  opportunity_cost_bps :: float64
  fees_bps :: float64
  is_filled_quantity :: float64
  unfilled_quantity :: float64
  is_average_price :: float64
  is_arrival_price :: float64
  is_decision_price :: float64
  terminal_price :: float64

definition report_fields :: "shortfall_report \<Rightarrow> float64 list" where
  "report_fields r =
     [delay_cost r, price_impact r, is_spread_slippage r, is_fees_paid r, opportunity_cost r, total_shortfall r,
      total_shortfall_bps r, delay_cost_bps r, price_impact_bps r, opportunity_cost_bps r, fees_bps r, is_filled_quantity r,
      unfilled_quantity r, is_average_price r, is_arrival_price r, is_decision_price r, terminal_price r]"

text \<open>The validation of a report built from floats: the type guards of the loop over the fields hold.\<close>

definition shortfall_report_new :: "shortfall_report \<Rightarrow> shortfall_report res" where
  "shortfall_report_new r =
     (if \<not> list_all isfinite (report_fields r) then Inl BadSorNum
      else if is_filled_quantity r < 0 \<or> unfilled_quantity r < 0 then Inl BadSorNum
      else if is_arrival_price r \<le> 0 \<or> is_decision_price r \<le> 0 \<or> terminal_price r \<le> 0 then Inl BadSorNum
      else if is_filled_quantity r > mass_tol \<and> is_average_price r \<le> 0 then Inl BadSorNum
      else
        let sum_components = delay_cost r + price_impact r + is_fees_paid r + opportunity_cost r
        in if \<bar>total_shortfall r - sum_components\<bar> > mass_tol then Inl (Sor MassConservationException) else Inr r)"

section \<open>Parent orders\<close>

record parent_order =
  parent_id :: string
  parent_symbol :: string
  parent_side :: order_side
  total_quantity :: float64
  arrival_price :: float64
  decision_price :: float64
  max_duration_seconds :: float64
  start_time_ns :: int
  child_fills :: "child_fill list"
  parent_filled :: float64
  cum_notional :: float64
  total_fees :: float64
  cum_spread_slippage :: float64

record parent_args =
  pa_parent_id :: pyval
  pa_symbol :: pyval
  pa_side :: pyval
  pa_total_quantity :: pyval
  pa_arrival_price :: pyval
  pa_decision_price :: pyval
  pa_max_duration_seconds :: pyval
  pa_start_time_ns :: pyval

definition parent_order_new :: "parent_args \<Rightarrow> parent_order res" where
  "parent_order_new a =
     bindR (check_nonblank BadSor (pa_parent_id a)) (\<lambda>pid.
     bindR (check_nonblank BadSor (pa_symbol a)) (\<lambda>s.
     bindR (check_member BadSor order_side_of (pa_side a)) (\<lambda>sd.
     bindR (check_pos BadSorNum (pa_total_quantity a)) (\<lambda>q.
     bindR (check_pos BadSorNum (pa_arrival_price a)) (\<lambda>ap.
     bindR (if pa_decision_price a = PNone then Inr ap else check_pos BadSorNum (pa_decision_price a)) (\<lambda>dp.
     bindR (check_pos BadSorNum (pa_max_duration_seconds a)) (\<lambda>md.
     bindR (check_int BadSorNum (\<lambda>i. i < 0) (pa_start_time_ns a)) (\<lambda>t.
     Inr \<lparr>parent_id = str_strip pid, parent_symbol = str_strip s, parent_side = sd, total_quantity = q, arrival_price = ap,
          decision_price = dp, max_duration_seconds = md, start_time_ns = t, child_fills = [], parent_filled = 0,
          cum_notional = 0, total_fees = 0, cum_spread_slippage = 0\<rparr>))))))))"

definition parent_leaves :: "parent_order \<Rightarrow> float64" where
  "parent_leaves po =
     (let rem = total_quantity po - parent_filled po in if rem \<le> mass_tol then 0 else rem)"

definition is_completed :: "parent_order \<Rightarrow> bool" where
  "is_completed po \<longleftrightarrow> parent_leaves po \<le> mass_tol"

definition average_execution_price :: "parent_order \<Rightarrow> float64" where
  "average_execution_price po = (if parent_filled po \<le> mass_tol then 0 else fdiv (cum_notional po) (parent_filled po))"

definition record_child_fill :: "parent_order \<Rightarrow> child_args \<Rightarrow> parent_order \<times> unit res" where
  "record_child_fill po a =
     (case child_fill_new a of
        Inl e \<Rightarrow> (po, Inl e)
      | Inr f \<Rightarrow>
          if parent_filled po + cf_quantity f > total_quantity po + mass_tol then (po, Inl (Sor MassConservationException))
          else if cf_timestamp_ns f > 0 \<and> cf_timestamp_ns f < start_time_ns po then (po, Inl BadSor)
          else
            (po\<lparr>child_fills := child_fills po @ [f], parent_filled := parent_filled po + cf_quantity f,
               cum_notional := cum_notional po + cf_quantity f * cf_price f, total_fees := total_fees po + cf_fee f,
               cum_spread_slippage := cum_spread_slippage po + cf_spread_slippage f\<rparr>, Inr ()))"

definition check_timeout :: "parent_order \<Rightarrow> pyval \<Rightarrow> unit res" where
  "check_timeout po nowv =
     bindR (check_int BadSorNum (\<lambda>i. i < 0) nowv) (\<lambda>now.
       if now < start_time_ns po then Inl BadSor
       else if is_completed po then Inr ()
       else
         bindR (py_int (max_duration_seconds po * Fin 1000000000)) (\<lambda>max_duration_ns.
           if now - start_time_ns po > max_duration_ns then Inl (Sor AlgorithmTimeoutException) else Inr ()))"

definition side_sign :: "order_side \<Rightarrow> float64" where
  "side_sign sd = (case sd of BUY \<Rightarrow> 1 | SELL \<Rightarrow> - 1)"

definition resolve_terminal :: "parent_order \<Rightarrow> pyval \<Rightarrow> float64 res" where
  "resolve_terminal po tv =
     (if tv = PNone
      then Inr (if parent_filled po > mass_tol then average_execution_price po else arrival_price po)
      else check_pos BadSorNum tv)"

definition compute_implementation_shortfall :: "parent_order \<Rightarrow> pyval \<Rightarrow> shortfall_report res" where
  "compute_implementation_shortfall po tv =
     bindR (resolve_terminal po tv) (\<lambda>terminal.
       let sg = side_sign (parent_side po);
           q_filled = parent_filled po;
           q_unfilled = parent_leaves po;
           delay = (if q_filled > mass_tol then sg * q_filled * (decision_price po - arrival_price po) else 0);
           impact = (if q_filled > mass_tol then sg * q_filled * (average_execution_price po - decision_price po) else 0);
           fees = total_fees po;
           opp = (if q_unfilled > mass_tol then sg * q_unfilled * (terminal - arrival_price po) else 0);
           total = delay + impact + fees + opp;
           benchmark_notional = total_quantity po * arrival_price po
       in if feq benchmark_notional 0 then Inl (PyErr ZeroDivisionError)
          else
            let bps_scale = fdiv (Fin 10000) benchmark_notional
            in shortfall_report_new
                 \<lparr>delay_cost = delay, price_impact = impact, is_spread_slippage = cum_spread_slippage po, is_fees_paid = fees,
                  opportunity_cost = opp, total_shortfall = total, total_shortfall_bps = total * bps_scale,
                  delay_cost_bps = delay * bps_scale, price_impact_bps = impact * bps_scale,
                  opportunity_cost_bps = opp * bps_scale, fees_bps = fees * bps_scale, is_filled_quantity = q_filled,
                  unfilled_quantity = q_unfilled, is_average_price = average_execution_price po,
                  is_arrival_price = arrival_price po, is_decision_price = decision_price po, terminal_price = terminal\<rparr>)"

section \<open>Invariant\<close>

definition fill_wf :: "int \<Rightarrow> child_fill \<Rightarrow> bool" where
  "fill_wf start f \<longleftrightarrow> pos_finite (cf_quantity f) \<and> pos_finite (cf_price f) \<and> nonneg_finite (cf_fee f) \<and>
     (cf_timestamp_ns f = 0 \<or> start \<le> cf_timestamp_ns f)"

definition parent_inv :: "parent_order \<Rightarrow> bool" where
  "parent_inv po \<longleftrightarrow>
     pos_finite (total_quantity po) \<and> is_double (total_quantity po) \<and> pos_finite (arrival_price po) \<and> pos_finite (decision_price po) \<and>
     list_all (fill_wf (start_time_ns po)) (child_fills po) \<and>
     parent_filled po = foldl (\<lambda>x f. x + cf_quantity f) 0 (child_fills po) \<and>
     cum_notional po = foldl (\<lambda>x f. x + cf_quantity f * cf_price f) 0 (child_fills po) \<and>
     total_fees po = foldl (\<lambda>x f. x + cf_fee f) 0 (child_fills po) \<and>
     0 \<le> parent_filled po \<and> \<not> total_quantity po + mass_tol < parent_filled po"

lemma child_fill_new_wf:
  "child_fill_new a = Inr f \<Longrightarrow> pos_finite (cf_quantity f) \<and> pos_finite (cf_price f) \<and> nonneg_finite (cf_fee f) \<and> 0 \<le> cf_timestamp_ns f"
  by (auto simp: child_fill_new_def bindR_Inr_iff dest!: check_facts)

lemma record_child_fill_cases:
  obtains (raise) e where "record_child_fill po a = (po, Inl e)"
  | (fill) f where "child_fill_new a = Inr f" "\<not> total_quantity po + mass_tol < parent_filled po + cf_quantity f"
      "\<not> (cf_timestamp_ns f > 0 \<and> cf_timestamp_ns f < start_time_ns po)"
      "record_child_fill po a =
        (po\<lparr>child_fills := child_fills po @ [f], parent_filled := parent_filled po + cf_quantity f,
           cum_notional := cum_notional po + cf_quantity f * cf_price f, total_fees := total_fees po + cf_fee f,
           cum_spread_slippage := cum_spread_slippage po + cf_spread_slippage f\<rparr>, Inr ())"
proof (cases "child_fill_new a")
  case (Inl e)
  then show thesis by (intro raise [of e]) (simp add: record_child_fill_def)
next
  case (Inr f)
  show thesis
  proof (cases "\<not> total_quantity po + mass_tol < parent_filled po + cf_quantity f \<and>
      \<not> (cf_timestamp_ns f > 0 \<and> cf_timestamp_ns f < start_time_ns po)")
    case True
    then show thesis by (intro fill [of f]) (use Inr in \<open>auto simp: record_child_fill_def\<close>)
  next
    case False
    then have "\<exists>e. record_child_fill po a = (po, Inl e)" using Inr by (auto simp: record_child_fill_def)
    then show thesis using raise by blast
  qed
qed

lemma record_child_fill_inv:
  assumes "parent_inv po"
  shows "parent_inv (fst (record_child_fill po a))"
proof (cases rule: record_child_fill_cases [of po a])
  case (raise e)
  then show ?thesis using assms by simp
next
  case (fill f)
  have f: "pos_finite (cf_quantity f)" "fill_wf (start_time_ns po) f"
    using child_fill_new_wf [OF fill(1)] fill(3) by (auto simp: fill_wf_def)
  have "0 \<le> parent_filled po + cf_quantity f"
    using assms f(1) by (intro float_add_nonneg) (auto simp: parent_inv_def pos_finite_def float_less_imp_le)
  then show ?thesis using assms f fill(2,4) by (simp add: parent_inv_def)
qed

interpretation parent_machine: invariant_machine "\<lambda>po a. fst (record_child_fill po a)" parent_inv
  by unfold_locales (rule record_child_fill_inv)

lemma parent_new_inv:
  assumes "parent_order_new a = Inr po" "pyval_double (pa_total_quantity a)"
  shows "parent_inv po"
proof -
  have z: "\<not> x + mass_tol < 0" if "pos_finite x" for x
  proof -
    have "0 \<le> mass_tol" by (simp add: mass_tol_def)
    then have "0 \<le> x + mass_tol" using that by (intro float_add_nonneg) (auto simp: pos_finite_def float_less_imp_le)
    then show ?thesis by (simp add: less_float64_def)
  qed
  have q: "\<exists>e. check_pos e (pa_total_quantity a) = Inr (total_quantity po)"
    using assms(1) by (auto simp: parent_order_new_def bindR_Inr_iff split: if_splits)
  then have "is_double (total_quantity po)" using assms(2) check_number_double by blast
  then show ?thesis using assms(1) z
    by (auto simp: parent_order_new_def bindR_Inr_iff parent_inv_def dest!: check_facts split: if_splits)
qed

lemma parent_sums:
  assumes "parent_inv po"
  shows "\<not> total_quantity po + mass_tol < parent_filled po"
    and "parent_filled po = foldl (\<lambda>x f. x + cf_quantity f) 0 (child_fills po)"
    and "cum_notional po = foldl (\<lambda>x f. x + cf_quantity f * cf_price f) 0 (child_fills po)"
    and "total_fees po = foldl (\<lambda>x f. x + cf_fee f) 0 (child_fills po)"
  using assms unfolding parent_inv_def by - (elim conjE, assumption)+

lemma parent_run_frame:
  "total_quantity (foldl (\<lambda>po a. fst (record_child_fill po a)) po cs) = total_quantity po"
proof (induction cs arbitrary: po)
  case (Cons c cs)
  have "total_quantity (fst (record_child_fill po c)) = total_quantity po"
    by (cases rule: record_child_fill_cases [of po c]) simp_all
  then show ?case using Cons by simp
qed simp

lemma parent_leaves_bounds:
  assumes "parent_inv po"
  shows "parent_leaves po = 0 \<or> mass_tol < parent_leaves po" "parent_leaves po \<le> total_quantity po"
proof -
  have t: "isfinite (total_quantity po)" "is_double (total_quantity po)" "0 < total_quantity po" "0 \<le> parent_filled po"
    using assms by (auto simp: parent_inv_def pos_finite_def)
  have "total_quantity po - parent_filled po \<le> total_quantity po" using t by (intro float_diff_le_self) simp_all
  then show "parent_leaves po \<le> total_quantity po" using t(3) by (simp add: parent_leaves_def Let_def float_less_imp_le)
  have "total_quantity po - parent_filled po \<noteq> NaN"
    using \<open>total_quantity po - parent_filled po \<le> total_quantity po\<close> float_le_not_nan by blast
  moreover have "mass_tol \<noteq> NaN" by (simp add: mass_tol_def)
  ultimately show "parent_leaves po = 0 \<or> mass_tol < parent_leaves po"
    by (simp add: parent_leaves_def Let_def float_not_le)
qed

section \<open>Properties\<close>

text \<open>C23: Mass conservation (INV-SOR-001): whatever child fills are reported to a parent order, valid or not, in any order,
  the filled quantity is the sum of the recorded fills and exceeds the target by no more than the tolerance, the notional and
  the fees are the sums over the same fills, and the remaining quantity is zero or above the tolerance and at most the
  target.\<close>

theorem parent_mass_conservation:
  assumes "parent_order_new a = Inr po" and "pyval_double (pa_total_quantity a)"
    and "po' = foldl (\<lambda>po a. fst (record_child_fill po a)) po cs"
  shows "\<not> total_quantity po + mass_tol < parent_filled po' \<and>
         parent_filled po' = foldl (\<lambda>x f. x + cf_quantity f) 0 (child_fills po') \<and>
         cum_notional po' = foldl (\<lambda>x f. x + cf_quantity f * cf_price f) 0 (child_fills po') \<and>
         total_fees po' = foldl (\<lambda>x f. x + cf_fee f) 0 (child_fills po') \<and>
         (parent_leaves po' = 0 \<or> mass_tol < parent_leaves po') \<and> parent_leaves po' \<le> total_quantity po"
proof -
  have inv: "parent_inv po'" unfolding assms(3) by (rule parent_machine.run_inv [OF parent_new_inv [OF assms(1,2)]])
  have t: "total_quantity po = total_quantity po'" unfolding assms(3) by (simp add: parent_run_frame)
  show ?thesis unfolding t using parent_sums [OF inv] parent_leaves_bounds [OF inv] by (intro conjI)
qed

definition sample_parent_args :: parent_args where
  "sample_parent_args = \<lparr>pa_parent_id = PStr ''P1'', pa_symbol = PStr ''AAPL'', pa_side = PEnum ''OrderSide'' ''BUY'', pa_total_quantity = PInt 10,
     pa_arrival_price = PInt 100, pa_decision_price = PNone, pa_max_duration_seconds = PInt 300, pa_start_time_ns = PInt 0\<rparr>"

definition sample_parent :: parent_order where
  "sample_parent = \<lparr>parent_id = ''P1'', parent_symbol = ''AAPL'', parent_side = BUY, total_quantity = Fin 10, arrival_price = Fin 100,
     decision_price = Fin 100, max_duration_seconds = Fin 300, start_time_ns = 0, child_fills = [], parent_filled = 0,
     cum_notional = 0, total_fees = 0, cum_spread_slippage = 0\<rparr>"

lemma sample_parent_new: "parent_order_new sample_parent_args = Inr sample_parent"
  by (simp add: parent_order_new_def sample_parent_args_def sample_parent_def check_nonblank_def check_member_def order_side_of_def
      str_strip_def is_space_def int_overflows_def float_of_int_def)

definition sample_child :: "int \<Rightarrow> int \<Rightarrow> child_args" where
  "sample_child q p = \<lparr>ca_child_id = PStr ''c1'', ca_quantity = PInt q, ca_price = PInt p, ca_fee = PInt 0, ca_timestamp_ns = PInt 1,
     ca_spread_slippage = PInt 0\<rparr>"

theorem parent_mass_conservation_witness:
  "\<not> Fin 10 + mass_tol <
     parent_filled (foldl (\<lambda>po a. fst (record_child_fill po a)) sample_parent [sample_child 6 100, sample_child 6 101])"
proof -
  have "pyval_double (pa_total_quantity sample_parent_args)" "total_quantity sample_parent = Fin 10"
    by (simp_all add: sample_parent_args_def sample_parent_def)
  then show ?thesis using parent_mass_conservation [OF sample_parent_new _ refl, THEN conjunct1] by (simp only:) simp
qed

lemma shortfall_built:
  assumes "resolve_terminal po tv = Inr t" and "\<not> feq (total_quantity po * arrival_price po) 0"
  shows "\<exists>r. compute_implementation_shortfall po tv = shortfall_report_new r \<and>
      total_shortfall r = delay_cost r + price_impact r + is_fees_paid r + opportunity_cost r \<and>
      is_fees_paid r = total_fees po \<and> is_filled_quantity r = parent_filled po \<and> unfilled_quantity r = parent_leaves po \<and>
      (\<not> mass_tol < parent_filled po \<longrightarrow> delay_cost r = 0 \<and> price_impact r = 0) \<and>
      (\<not> mass_tol < parent_leaves po \<longrightarrow> opportunity_cost r = 0)"
  unfolding compute_implementation_shortfall_def assms(1) bindR_simps Let_def if_not_P [OF assms(2)]
  by (intro exI conjI, rule refl) simp_all

text \<open>The additive identity of the shortfall (INV-SOR-005): the decomposition computed by a parent order never fails its
  own check, and a report that is returned has a finite total that is exactly the floating-point sum of delay, impact, fees
  and opportunity cost, with no delay and impact when nothing was filled and no opportunity cost when nothing is left.\<close>

theorem parent_shortfall_identity:
  "compute_implementation_shortfall po tv \<noteq> Inl (Sor MassConservationException) \<and>
   (\<forall>r. compute_implementation_shortfall po tv = Inr r \<longrightarrow>
      isfinite (total_shortfall r) \<and>
      total_shortfall r = delay_cost r + price_impact r + is_fees_paid r + opportunity_cost r \<and>
      is_fees_paid r = total_fees po \<and> is_filled_quantity r = parent_filled po \<and> unfilled_quantity r = parent_leaves po \<and>
      (\<not> mass_tol < parent_filled po \<longrightarrow> delay_cost r = 0 \<and> price_impact r = 0) \<and>
      (\<not> mass_tol < parent_leaves po \<longrightarrow> opportunity_cost r = 0))"
proof -
  have self: "\<not> mass_tol < \<bar>x - x\<bar>" if "isfinite x" for x
    using that float_less_not_nan [of mass_tol] by (auto simp: isfinite_iff minus_float64_def mass_tol_def less_float64_def)
  have new: "shortfall_report_new r \<noteq> Inl (Sor MassConservationException)"
    if "total_shortfall r = delay_cost r + price_impact r + is_fees_paid r + opportunity_cost r" for r
    using that self [of "total_shortfall r"] by (auto simp: shortfall_report_new_def report_fields_def Let_def)
  have ret: "r' = r \<and> isfinite (total_shortfall r)" if "shortfall_report_new r = Inr r'" for r r'
    using that by (auto simp: shortfall_report_new_def report_fields_def Let_def split: if_splits)
  show ?thesis
  proof (cases "resolve_terminal po tv")
    case (Inl e)
    then have "e \<noteq> Sor MassConservationException" by (auto simp: resolve_terminal_def dest: check_number_InlD split: if_splits)
    then show ?thesis using Inl by (simp add: compute_implementation_shortfall_def)
  next
    case (Inr t)
    show ?thesis
    proof (cases "feq (total_quantity po * arrival_price po) 0")
      case True
      then show ?thesis using Inr by (simp add: compute_implementation_shortfall_def Let_def)
    next
      case False
      then show ?thesis using shortfall_built [OF Inr] new ret by metis
    qed
  qed
qed

theorem parent_shortfall_identity_witness:
  "\<exists>r. compute_implementation_shortfall sample_parent (PInt 102) = Inr r \<and>
     total_shortfall r = delay_cost r + price_impact r + is_fees_paid r + opportunity_cost r"
proof -
  obtain e where e: "mass_tol = Fin e" "0 < e" "e \<le> 1" using flit_power_ten [of 7] by (auto simp: mass_tol_def)
  have t: "resolve_terminal sample_parent (PInt 102) = Inr (Fin 102)" by (simp add: resolve_terminal_def int_overflows_def float_of_int_def)
  have "\<exists>r. compute_implementation_shortfall sample_parent (PInt 102) = Inr r"
    using e unfolding compute_implementation_shortfall_def t
    by (simp add: sample_parent_def parent_leaves_def average_execution_price_def side_sign_def e(1) Let_def minus_float64_def
        shortfall_report_new_def report_fields_def)
  then show ?thesis using parent_shortfall_identity by blast
qed

section \<open>Volume-weighted price\<close>

lemma whole_prod_sum:
  assumes "list_all (\<lambda>(k, p). 0 \<le> k * p) kps" "0 \<le> s" "s + sum_list (map (\<lambda>(k, p). k * p) kps) < 2 ^ 53"
    and "map (\<lambda>f. (cf_quantity f, cf_price f)) fs = map (\<lambda>(k, p). (whole k, whole p)) kps"
  shows "foldl (\<lambda>x f. x + cf_quantity f * cf_price f) (whole s) fs = whole (s + sum_list (map (\<lambda>(k, p). k * p) kps))"
  using assms
proof (induction kps arbitrary: s fs)
  case (Cons kp kps)
  obtain k p where kp: "kp = (k, p)" by fastforce
  obtain f fs' where fs: "fs = f # fs'" "cf_quantity f = whole k" "cf_price f = whole p"
    "map (\<lambda>f. (cf_quantity f, cf_price f)) fs' = map (\<lambda>(k, p). (whole k, whole p)) kps"
    using Cons.prems(4) kp by (cases fs) auto
  let ?r = "sum_list (map (\<lambda>(k, p). k * p) kps)"
  have kp0: "0 \<le> k * p" and r0: "0 \<le> ?r" using Cons.prems(1) by (auto simp: kp list_all_iff intro!: sum_list_nonneg)
  have lt: "s + k * p + ?r < 2 ^ 53" using Cons.prems(3) by (simp add: kp add.assoc)
  have "whole s + whole k * whole p = whole (s + k * p)"
    using kp0 r0 Cons.prems(2) lt rnd64_of_int [of "k * p"] whole_add [of s "k * p"] by simp
  then show ?case using Cons.IH [of "s + k * p" fs'] Cons.prems(1,2) fs kp0 lt by (simp add: kp add.assoc)
qed simp

lemma whole_qty_sum:
  assumes "list_all (\<lambda>k. 0 \<le> k) ks" "0 \<le> s" "s + sum_list ks < 2 ^ 53" and "map cf_quantity fs = map whole ks"
  shows "foldl (\<lambda>x f. x + cf_quantity f) (whole s) fs = whole (s + sum_list ks)"
  using naive_sum_whole [of ks s] assms by (simp add: foldl_map [symmetric] list_all_iff)

lemma mass_tol_below_one: "\<not> whole k \<le> mass_tol" if "1 \<le> k"
proof -
  have "mass_tol \<le> rnd64 (1 / 2)" unfolding mass_tol_def by (rule rnd64_mono) simp
  also have "\<dots> < whole k" using that rnd64_half by simp
  finally show ?thesis by (simp add: less_float64_def)
qed

text \<open>The average execution price is a mean: when the fills have whole quantities and prices whose notional stays below
  2 ^ 53, it lies between the lowest and the highest fill price.\<close>

theorem parent_vwap_bounds:
  assumes "parent_inv po" and "map (\<lambda>f. (cf_quantity f, cf_price f)) (child_fills po) = map (\<lambda>(k, p). (whole k, whole p)) kps"
    and "kps \<noteq> []" and "list_all (\<lambda>(k, p). 1 \<le> k \<and> lo \<le> p \<and> p \<le> hi) kps" and "0 \<le> lo" "hi < 2 ^ 53"
    and "sum_list (map (\<lambda>(k, p). k * p) kps) < 2 ^ 53" "sum_list (map fst kps) < 2 ^ 53"
  shows "whole lo \<le> average_execution_price po \<and> average_execution_price po \<le> whole hi"
proof -
  let ?N = "sum_list (map (\<lambda>(k, p). k * p) kps)" and ?K = "sum_list (map fst kps)"
  have qs: "map cf_quantity (child_fills po) = map whole (map fst kps)"
    using arg_cong [OF assms(2), of "map fst"] by (simp add: comp_def case_prod_unfold)
  have z: "(0::float64) = whole 0" by (simp add: zero_float64_def)
  have "foldl (\<lambda>x f. x + cf_quantity f) (whole 0) (child_fills po) = whole (0 + ?K)"
    using assms(4,8) by (intro whole_qty_sum [OF _ _ _ qs]) (auto simp: list_all_iff)
  then have K: "parent_filled po = whole ?K" unfolding parent_sums(2) [OF assms(1)] z by simp
  have "foldl (\<lambda>x f. x + cf_quantity f * cf_price f) (whole 0) (child_fills po) = whole (0 + ?N)"
    using assms(4,5,7) by (intro whole_prod_sum [OF _ _ _ assms(2)]) (auto simp: list_all_iff intro!: mult_nonneg_nonneg)
  then have N: "cum_notional po = whole ?N" unfolding parent_sums(3) [OF assms(1)] z by simp
  have K1: "1 \<le> ?K" using assms(3,4)
  proof (cases kps)
    case (Cons kp kps')
    have "0 \<le> sum_list (map fst kps')" using assms(4) Cons by (intro sum_list_nonneg) (auto simp: list_all_iff)
    then show ?thesis using assms(4) Cons by auto
  qed simp
  have b: "lo * sum_list (map fst xs) \<le> sum_list (map (\<lambda>(k, p). k * p) xs) \<and> sum_list (map (\<lambda>(k, p). k * p) xs) \<le> hi * sum_list (map fst xs)"
    if "list_all (\<lambda>(k, p). 1 \<le> k \<and> lo \<le> p \<and> p \<le> hi) xs" for xs
    using that
  proof (induction xs)
    case (Cons kp xs)
    obtain k p where kp: "kp = (k, p)" by fastforce
    have c: "lo * k \<le> k * p" "k * p \<le> hi * k" using Cons.prems kp
      by (auto simp: mult.commute [of lo] mult.commute [of hi] intro!: mult_left_mono)
    have "lo * sum_list (map fst xs) \<le> sum_list (map (\<lambda>(k, p). k * p) xs) \<and> sum_list (map (\<lambda>(k, p). k * p) xs) \<le> hi * sum_list (map fst xs)"
      using Cons.IH Cons.prems by simp
    then show ?case using c unfolding kp by (simp add: distrib_left add_mono)
  qed simp
  have avg: "average_execution_price po = rnd64 (of_int ?N / of_int ?K)"
    using mass_tol_below_one [OF K1] by (simp add: average_execution_price_def K N)
  have k0: "(0::rat) < of_int ?K" using K1 by simp
  have "of_int (lo * ?K) \<le> (of_int ?N :: rat)" "(of_int ?N :: rat) \<le> of_int (hi * ?K)"
    using b [OF assms(4)] by (simp_all only: of_int_le_iff)
  then have "of_int lo \<le> (of_int ?N / of_int ?K :: rat)" "(of_int ?N / of_int ?K :: rat) \<le> of_int hi"
    using k0 by (simp_all add: pos_le_divide_eq pos_divide_le_eq)
  moreover have "lo \<le> hi" using assms(3,4) by (cases kps) auto
  ultimately show ?thesis unfolding avg using assms(5,6) rnd64_mono rnd64_of_int [of lo] rnd64_of_int [of hi]
    by (metis abs_of_nonneg le_less_trans order_trans)
qed

theorem parent_vwap_bounds_witness:
  "\<exists>po. child_fills po \<noteq> [] \<and> Fin 100 \<le> average_execution_price po \<and> average_execution_price po \<le> Fin 103"
proof -
  let ?f = "\<lambda>k p. \<lparr>cf_child_id = ''c'', cf_quantity = whole k, cf_price = whole p, cf_fee = 0, cf_timestamp_ns = 0, cf_spread_slippage = 0\<rparr>"
  let ?po = "sample_parent\<lparr>child_fills := [?f 6 100, ?f 1 103], parent_filled := Fin 7, cum_notional := Fin 703\<rparr>"
  have "Fin 10 \<le> Fin 10 + mass_tol" by (rule float_le_add) (simp_all add: mass_tol_def)
  then have "Fin 7 \<le> Fin 10 + mass_tol" by (rule float_le_trans [rotated]) simp
  then have t: "\<not> Fin 10 + mass_tol < Fin 7" by (simp only: less_float64_def) simp
  have "parent_inv ?po" using t by (simp add: parent_inv_def fill_wf_def sample_parent_def)
  from parent_vwap_bounds [OF this, of "[(6, 100), (1, 103)]" 100 103] show ?thesis by (intro exI [of _ ?po]) simp
qed

end
