(* ===== verification/Scheduling.thy ===== *)
theory Scheduling
  imports Parent_Order
begin

text \<open>
  \<^verbatim>\<open>src/src/quant/execution/algorithms.py\<close>: scheduled slices and the three schedulers that split a parent order over time, the
  jittered TWAP, the participation-capped VWAP and the arrival-price (Almgren-Chriss) trajectory.

  The random draws of \<^verbatim>\<open>random.Random\<close> are a parameter \<open>draws\<close>, the sequence of results of \<^verbatim>\<open>random()\<close>; \<^verbatim>\<open>uniform(a, b)\<close> is
  \<^verbatim>\<open>a + (b - a) * random()\<close>. \<^verbatim>\<open>math.exp\<close>, \<^verbatim>\<open>math.sinh\<close>, \<^verbatim>\<open>math.sqrt\<close> and the square \<^verbatim>\<open>v ** 2\<close> are parameters: the arguments of
  \<^verbatim>\<open>exp\<close> are not positive and those of \<^verbatim>\<open>sinh\<close> not above 51, where neither overflows. NumPy arrays of floats are lists.

  Lemmas: every schedule has positive quantities, consecutive indices and increasing times, and adds up to the parent
  quantity within the tolerance; an even TWAP split of whole quantities is exact; VWAP slices respect the participation cap;
  the arrival-price inventory never rises, whatever the hyperbolic functions return.
\<close>

abbreviation BadSchedule :: exn where
  "BadSchedule \<equiv> Sor InvalidScheduleException"

definition sched_tol :: float64 where
  "sched_tol = flit (1 / 10 ^ 7)"

section \<open>Slices\<close>

record scheduled_slice =
  slice_index :: int
  sl_quantity :: float64
  scheduled_time_ns :: int
  price_limit :: "float64 option"

definition scheduled_slice_new :: "pyval \<Rightarrow> pyval \<Rightarrow> pyval \<Rightarrow> pyval \<Rightarrow> scheduled_slice res" where
  "scheduled_slice_new idx q t pl0 =
     bindR (check_int BadSorNum (\<lambda>i. i < 0) idx) (\<lambda>i.
     bindR (check_pos BadSorNum q) (\<lambda>qty.
     bindR (check_int BadSorNum (\<lambda>i. i < 0) t) (\<lambda>ns.
     bindR (if pl0 = PNone then Inr None else bindR (check_pos BadSorNum pl0) (\<lambda>p. Inr (Some p))) (\<lambda>pl.
       Inr \<lparr>slice_index = i, sl_quantity = qty, scheduled_time_ns = ns, price_limit = pl\<rparr>))))"

text \<open>A slice of a generated schedule.\<close>

definition make_slice :: "int \<Rightarrow> float64 \<Rightarrow> int \<Rightarrow> scheduled_slice res" where
  "make_slice i q t = scheduled_slice_new (PInt i) (PFloat q) (PInt t) PNone"

text \<open>The check at the end of a schedule.\<close>

definition check_mass :: "float64 \<Rightarrow> scheduled_slice list \<Rightarrow> scheduled_slice list res" where
  "check_mass total_qty slices =
     (if \<bar>py_sum (map sl_quantity slices) - total_qty\<bar> > sched_tol then Inl (Sor MassConservationException) else Inr slices)"

definition check_start :: "pyval \<Rightarrow> int res" where
  "check_start v = check_int BadSchedule (\<lambda>i. i < 0) v"

text \<open>\<^verbatim>\<open>int(seconds * 1_000_000_000)\<close>\<close>

definition to_ns :: "float64 \<Rightarrow> int res" where
  "to_ns seconds = py_int (seconds * Fin 1000000000)"

section \<open>Jittered TWAP\<close>

record twap =
  tw_quantity :: float64
  num_slices :: int
  mean_interval_sec :: float64
  jitter_ratio :: float64
  time_jitter_ratio :: float64
  min_interval_sec :: float64
  tw_seed :: "int option"

definition nanosecond :: float64 where
  "nanosecond = flit (1 / 10 ^ 9)"

definition check_ratio :: "pyval \<Rightarrow> float64 res" where
  "check_ratio v = check_number BadSchedule (\<lambda>a. \<not> (0 \<le> a \<and> a < 1)) v"

definition twap_new :: "pyval \<Rightarrow> pyval \<Rightarrow> pyval \<Rightarrow> pyval \<Rightarrow> pyval \<Rightarrow> pyval \<Rightarrow> pyval \<Rightarrow> twap res" where
  "twap_new total_qty slices mean jitter time_jitter min_interval seed =
     bindR (check_pos BadSchedule total_qty) (\<lambda>q.
     bindR (check_int BadSchedule (\<lambda>i. i < 1) slices) (\<lambda>n.
       if int_overflows n then Inl (PyErr OverflowError)
       else if q < float_of_int n * sched_tol then Inl BadSchedule
       else
         bindR (check_pos BadSchedule mean) (\<lambda>m.
         bindR (check_ratio jitter) (\<lambda>j.
         bindR (check_ratio time_jitter) (\<lambda>tj.
         bindR (check_number BadSchedule (\<lambda>a. Fin a < nanosecond) min_interval) (\<lambda>mi.
         bindR (if seed = PNone then Inr None else bindR (check_int BadSchedule (\<lambda>_. False) seed) (\<lambda>s. Inr (Some s))) (\<lambda>sd.
           Inr \<lparr>tw_quantity = q, num_slices = n, mean_interval_sec = m, jitter_ratio = j, time_jitter_ratio = tj,
                min_interval_sec = mi, tw_seed = sd\<rparr>)))))))"

definition uniform :: "float64 \<Rightarrow> float64 \<Rightarrow> float64 \<Rightarrow> float64" where
  "uniform a b u = a + (b - a) * u"

text \<open>One slice of the loop; the draws of quantity and time alternate.\<close>

definition twap_step ::
    "twap \<Rightarrow> (nat \<Rightarrow> float64) \<Rightarrow> float64 \<times> int \<times> scheduled_slice list \<Rightarrow> nat \<Rightarrow> (float64 \<times> int \<times> scheduled_slice list) res" where
  "twap_step tw draws s k =
     (let (rem, t, slices) = s;
          slices_remaining = num_slices tw - int k;
          base_q = fdiv rem (float_of_int slices_remaining);
          delta_q = uniform (- jitter_ratio tw) (jitter_ratio tw) (draws (2 * k));
          min_reserve = float_of_int (slices_remaining - 1) * sched_tol;
          q_k = py_max sched_tol (py_min (rem - min_reserve) (base_q * (Fin 1 + delta_q)))
      in bindR (make_slice (int k) q_k t) (\<lambda>sl.
           let xi_t = uniform (- time_jitter_ratio tw) (time_jitter_ratio tw) (draws (2 * k + 1));
               interval_sec = py_max (min_interval_sec tw) (mean_interval_sec tw * (Fin 1 + xi_t))
           in bindR (to_ns interval_sec) (\<lambda>gap. Inr (rem - q_k, t + gap, slices @ [sl]))))"

definition twap_schedule :: "twap \<Rightarrow> (nat \<Rightarrow> float64) \<Rightarrow> pyval \<Rightarrow> scheduled_slice list res" where
  "twap_schedule tw draws start =
     bindR (check_start start) (\<lambda>t0.
       if num_slices tw = 1 then bindR (make_slice 0 (tw_quantity tw) t0) (\<lambda>sl. Inr [sl])
       else
         bindR (foldR (twap_step tw draws) (tw_quantity tw, t0, []) [0..<nat (num_slices tw) - 1]) (\<lambda>(rem, t, slices).
         bindR (make_slice (num_slices tw - 1) rem t) (\<lambda>sl.
           check_mass (tw_quantity tw) (slices @ [sl]))))"

section \<open>Volume-adaptive VWAP\<close>

record vwap =
  vw_quantity :: float64
  vw_weights :: "float64 list"
  max_participation_rate :: float64
  smoothing_weight :: float64
  interval_sec :: float64

definition vwap_new :: "pyval \<Rightarrow> pyval list \<Rightarrow> pyval \<Rightarrow> pyval \<Rightarrow> pyval \<Rightarrow> vwap res" where
  "vwap_new total_qty curve rate smoothing interval =
     bindR (check_pos BadSchedule total_qty) (\<lambda>q.
       if curve = [] then Inl BadSchedule
       else
         bindR (mapR (check_nonneg BadSchedule) curve) (\<lambda>vs.
           let total_hist = py_sum vs
           in if total_hist \<le> 0 then Inl BadSchedule
              else
                bindR (check_number BadSchedule (\<lambda>a. \<not> (0 < a \<and> a \<le> 1)) rate) (\<lambda>r.
                bindR (check_number BadSchedule (\<lambda>a. \<not> (0 \<le> a \<and> a \<le> 1)) smoothing) (\<lambda>w.
                bindR (check_pos BadSchedule interval) (\<lambda>i.
                  Inr \<lparr>vw_quantity = q, vw_weights = map (\<lambda>v. fdiv v total_hist) vs, max_participation_rate = r,
                       smoothing_weight = w, interval_sec = i\<rparr>)))))"

text \<open>Without volume forecasts: a slice per positive weight but the last, and the rest at the last bar.\<close>

definition vwap_free_step ::
    "vwap \<Rightarrow> int \<Rightarrow> int \<Rightarrow> float64 \<times> scheduled_slice list \<Rightarrow> nat \<Rightarrow> (float64 \<times> scheduled_slice list) res" where
  "vwap_free_step vw t0 interval_ns s k =
     (let (rem, slices) = s; q_k = vw_quantity vw * vw_weights vw ! k
      in if q_k > 0
         then bindR (make_slice (int (length slices)) q_k (t0 + int k * interval_ns)) (\<lambda>sl. Inr (rem - q_k, slices @ [sl]))
         else Inr s)"

definition vwap_free :: "vwap \<Rightarrow> int \<Rightarrow> int \<Rightarrow> scheduled_slice list res" where
  "vwap_free vw t0 interval_ns =
     (let k_bars = length (vw_weights vw)
      in bindR (foldR (vwap_free_step vw t0 interval_ns) (vw_quantity vw, []) [0..<k_bars - 1]) (\<lambda>(rem, slices).
         bindR (if rem > 0
                then bindR (make_slice (int (length slices)) rem (t0 + int (k_bars - 1) * interval_ns)) (\<lambda>sl. Inr (slices @ [sl]))
                else Inr slices) (\<lambda>out.
           if out = [] then Inl BadSchedule else check_mass (vw_quantity vw) out)))"

text \<open>With forecasts: the blended volume of a bar, and its capped slice.\<close>

definition blended :: "vwap \<Rightarrow> float64 list \<Rightarrow> float64 list option \<Rightarrow> nat \<Rightarrow> float64" where
  "blended vw ex rt k =
     (case rt of
        None \<Rightarrow> ex ! k
      | Some vs \<Rightarrow> smoothing_weight vw * ex ! k + (Fin 1 - smoothing_weight vw) * vs ! k)"

definition vwap_capped_step ::
    "vwap \<Rightarrow> float64 list \<Rightarrow> float64 list option \<Rightarrow> int \<Rightarrow> int \<Rightarrow> float64 \<times> scheduled_slice list \<Rightarrow> nat \<Rightarrow> (float64 \<times> scheduled_slice list) res" where
  "vwap_capped_step vw ex rt t0 interval_ns s k =
     (let (rem, slices) = s; v_hat = blended vw ex rt k; remaining_weight = py_sum (drop k (vw_weights vw))
      in if remaining_weight > 0 \<and> rem > 0
         then let q_desired = rem * fdiv (vw_weights vw ! k) remaining_weight;
                  q_cap = max_participation_rate vw * v_hat;
                  q_k = py_min q_desired q_cap
              in if q_k > 0
                 then bindR (make_slice (int (length slices)) q_k (t0 + int k * interval_ns)) (\<lambda>sl. Inr (rem - q_k, slices @ [sl]))
                 else Inr s
         else Inr s)"

definition vwap_schedule :: "vwap \<Rightarrow> pyval \<Rightarrow> pyval list option \<Rightarrow> pyval list option \<Rightarrow> scheduled_slice list res" where
  "vwap_schedule vw start expected realtime =
     bindR (check_start start) (\<lambda>t0.
     bindR (to_ns (interval_sec vw)) (\<lambda>interval_ns.
       case expected of
         None \<Rightarrow> vwap_free vw t0 interval_ns
       | Some es \<Rightarrow>
           let k_bars = length (vw_weights vw)
           in if length es \<noteq> k_bars then Inl BadSchedule
              else
                bindR (mapR (check_nonneg BadSchedule) es) (\<lambda>ex.
                bindR (case realtime of
                         None \<Rightarrow> Inr None
                       | Some rs \<Rightarrow> if length rs \<noteq> k_bars then Inl BadSchedule
                                    else bindR (mapR (check_nonneg BadSchedule) rs) (\<lambda>vs. Inr (Some vs))) (\<lambda>rt.
                bindR (foldR (vwap_capped_step vw ex rt t0 interval_ns) (vw_quantity vw, []) [0..<k_bars]) (\<lambda>(rem, slices).
                  if slices = [] then Inl (Sor InsufficientLiquidityException) else Inr slices)))))"

section \<open>Arrival price\<close>

record arrival =
  ar_quantity :: float64
  horizon_seconds :: float64
  ar_volatility :: float64
  risk_aversion :: float64
  impact_coefficient :: float64
  num_intervals :: int
  baseline_volatility :: "float64 option"
  kappa :: float64

definition arrival_new ::
    "(float64 \<Rightarrow> float64 res) \<Rightarrow> (float64 \<Rightarrow> float64) \<Rightarrow> pyval \<Rightarrow> pyval \<Rightarrow> pyval \<Rightarrow> pyval \<Rightarrow> pyval \<Rightarrow> pyval \<Rightarrow> pyval \<Rightarrow> arrival res" where
  "arrival_new sq64 sqrt64 total_qty horizon vol risk impact intervals baseline =
     bindR (check_pos BadSchedule total_qty) (\<lambda>q.
     bindR (check_pos BadSchedule horizon) (\<lambda>h.
     bindR (check_pos BadSchedule vol) (\<lambda>v.
     bindR (check_pos BadSchedule risk) (\<lambda>ra.
     bindR (check_pos BadSchedule impact) (\<lambda>ic.
     bindR (check_int BadSchedule (\<lambda>i. i < 1) intervals) (\<lambda>m.
     bindR (if baseline = PNone then Inr None else bindR (check_pos BadSchedule baseline) (\<lambda>b. Inr (Some b))) (\<lambda>bv.
     bindR (sq64 v) (\<lambda>variance.
       let kappa_0 = sqrt64 (fdiv (ra * variance) ic)
       in Inr \<lparr>ar_quantity = q, horizon_seconds = h, ar_volatility = v, risk_aversion = ra, impact_coefficient = ic,
               num_intervals = m, baseline_volatility = bv,
               kappa = (case bv of Some b \<Rightarrow> kappa_0 * fdiv v b | None \<Rightarrow> kappa_0)\<rparr>))))))))"

definition inventory_at :: "(float64 \<Rightarrow> float64) \<Rightarrow> (float64 \<Rightarrow> float64) \<Rightarrow> arrival \<Rightarrow> nat \<Rightarrow> float64 res" where
  "inventory_at exp64 sinh64 ac j =
     (let T = horizon_seconds ac; x_0 = ar_quantity ac; k = kappa ac; kappa_t = k * T;
          t_j = fdiv (float_of_int (int j) * T) (float_of_int (num_intervals ac));
          tau = T - t_j
      in if kappa_t < flit (1 / 10 ^ 6) then Inr (x_0 * fdiv tau T)
         else if kappa_t > Fin 50
         then bindR (divR (Fin 1 - exp64 (Fin (- 2) * k * tau)) (Fin 1 - exp64 (Fin (- 2) * kappa_t))) (\<lambda>ratio.
                Inr (x_0 * exp64 (- k * t_j) * ratio))
         else bindR (divR (sinh64 (k * tau)) (sinh64 kappa_t)) (\<lambda>ratio. Inr (x_0 * ratio)))"

definition compute_inventory_trajectory :: "(float64 \<Rightarrow> float64) \<Rightarrow> (float64 \<Rightarrow> float64) \<Rightarrow> arrival \<Rightarrow> float64 list res" where
  "compute_inventory_trajectory exp64 sinh64 ac =
     bindR (foldR (\<lambda>xs j. bindR (inventory_at exp64 sinh64 ac j) (\<lambda>x. Inr (xs @ [py_max 0 (py_min (last xs) x)])))
             [ar_quantity ac] [1..<nat (num_intervals ac)]) (\<lambda>xs. Inr (xs @ [0]))"

text \<open>One interval of the loop: once nothing remains, the \<^verbatim>\<open>break\<close> leaves the state as it is.\<close>

definition arrival_step ::
    "arrival \<Rightarrow> float64 list \<Rightarrow> int \<Rightarrow> float64 \<times> int \<times> scheduled_slice list \<Rightarrow> nat \<Rightarrow> (float64 \<times> int \<times> scheduled_slice list) res" where
  "arrival_step ac traj t0 s j =
     (let (rem, last_ns, slices) = s;
          dt_ns = fdiv (horizon_seconds ac) (float_of_int (num_intervals ac)) * Fin 1000000000
      in if rem \<le> 0 then Inr s
         else
           let q0 = traj ! (j - 1) - traj ! j;
               q_j = (if int j = num_intervals ac \<or> q0 \<ge> rem then rem else q0)
           in if q_j \<le> 0 then Inr s
              else
                bindR (py_int (float_of_int (int j - 1) * dt_ns)) (\<lambda>off.
                  let raw = t0 + off; t = (if last_ns \<ge> 0 then max (last_ns + 1) raw else raw)
                  in bindR (make_slice (int (length slices)) q_j t) (\<lambda>sl. Inr (rem - q_j, t, slices @ [sl]))))"

definition arrival_schedule ::
    "(float64 \<Rightarrow> float64) \<Rightarrow> (float64 \<Rightarrow> float64) \<Rightarrow> arrival \<Rightarrow> pyval \<Rightarrow> scheduled_slice list res" where
  "arrival_schedule exp64 sinh64 ac start =
     bindR (check_start start) (\<lambda>t0.
     bindR (compute_inventory_trajectory exp64 sinh64 ac) (\<lambda>traj.
     bindR (foldR (arrival_step ac traj t0) (ar_quantity ac, - 1, []) [1..<nat (num_intervals ac) + 1]) (\<lambda>(rem, last_ns, slices).
       check_mass (ar_quantity ac)
         (if rem > 0 \<and> slices \<noteq> []
          then butlast slices @ [(last slices)\<lparr>sl_quantity := sl_quantity (last slices) + rem\<rparr>] else slices))))"

section \<open>Well-formed schedules\<close>

text \<open>What a driver relies on: consecutive indices, times in order from the start time on, positive finite quantities.\<close>

definition schedule_ok :: "int \<Rightarrow> scheduled_slice list \<Rightarrow> bool" where
  "schedule_ok t0 slices \<longleftrightarrow>
     map slice_index slices = map int [0..<length slices] \<and> sorted (map scheduled_time_ns slices) \<and>
     (\<forall>s \<in> set slices. t0 \<le> scheduled_time_ns s \<and> isfinite (sl_quantity s) \<and> 0 < sl_quantity s)"

lemma make_slice_Inr:
  "make_slice i q t = Inr sl \<longleftrightarrow>
     0 \<le> i \<and> 0 \<le> t \<and> isfinite q \<and> 0 < q \<and> sl = \<lparr>slice_index = i, sl_quantity = q, scheduled_time_ns = t, price_limit = None\<rparr>"
  by (cases q) (auto simp: make_slice_def scheduled_slice_new_def bindR_Inr_iff less_float64_def zero_float64_def)

lemma schedule_ok_snoc:
  assumes "schedule_ok t0 slices" "make_slice (int (length slices)) q t = Inr sl" "t0 \<le> t" "\<forall>s \<in> set slices. scheduled_time_ns s \<le> t"
  shows "schedule_ok t0 (slices @ [sl])"
  using assms by (auto simp: schedule_ok_def make_slice_Inr sorted_append)

lemma schedule_ok_Nil: "schedule_ok t0 []"
  by (simp add: schedule_ok_def)

lemma foldR_upt:
  assumes "foldR f s [i..<j] = Inr s'" and "i \<le> j" and "P i s"
    and "\<And>k s s'. i \<le> k \<Longrightarrow> k < j \<Longrightarrow> P k s \<Longrightarrow> f s k = Inr s' \<Longrightarrow> P (Suc k) s'"
  shows "P j s'"
  using assms
proof (induction "j - i" arbitrary: i s)
  case (Suc n)
  then have u: "[i..<j] = i # [Suc i..<j]" by (simp add: upt_conv_Cons)
  then obtain t where t: "f s i = Inr t" "foldR f t [Suc i..<j] = Inr s'" using Suc.prems(1) by (auto simp: bindR_Inr_iff)
  show ?case
    by (rule Suc.hyps(1) [OF _ t(2)]) (use Suc.hyps(2) Suc.prems t(1) in auto)
qed simp

text \<open>The interface of a scheduler, and what a driver of its slices can use: no two slices of a schedule share the client order
  id derived from their index, and at any time the due slices are a prefix of the schedule.\<close>

locale scheduler =
  fixes generate :: "int \<Rightarrow> scheduled_slice list res"
  assumes generate_ok: "generate t0 = Inr slices \<Longrightarrow> schedule_ok t0 slices"
begin

lemma index_distinct: "generate t0 = Inr slices \<Longrightarrow> distinct (map slice_index slices)"
  using generate_ok by (auto simp: schedule_ok_def distinct_map)

lemma due_prefix:
  assumes "generate t0 = Inr slices"
  shows "filter (\<lambda>s. scheduled_time_ns s \<le> now) slices = takeWhile (\<lambda>s. scheduled_time_ns s \<le> now) slices"
proof -
  have "sorted (map scheduled_time_ns slices)" using generate_ok [OF assms] by (simp add: schedule_ok_def)
  then show ?thesis
  proof (induction slices)
    case (Cons s slices)
    then show ?case
    proof (cases "scheduled_time_ns s \<le> now")
      case False
      then have "\<forall>x \<in> set slices. \<not> scheduled_time_ns x \<le> now" using Cons.prems by force
      then show ?thesis using False by simp
    qed simp
  qed simp
qed

end

section \<open>The mass check\<close>

lemma sched_tol_pos: "0 \<le> sched_tol" "sched_tol \<noteq> NaN"
  using flit_power_ten [of 7] by (auto simp: sched_tol_def zero_float64_def)

lemma py_sum_nonneg_not_nan:
  assumes "\<forall>x \<in> set xs. 0 \<le> x"
  shows "py_sum xs \<noteq> NaN"
proof (cases xs)
  case (Cons y ys)
  have sum: "0 \<le> foldl (+) h zs" if "0 \<le> h" "\<forall>x \<in> set zs. 0 \<le> x" for h :: float64 and zs
    using that by (induction zs arbitrary: h) (auto intro: float_add_nonneg)
  have "0 \<le> fst (foldl cs_add (0 + y, 0) ys)"
    using assms Cons by (auto simp: cs_fold_fst intro!: sum float_add_nonneg)
  then show ?thesis
    by (cases "foldl cs_add (0 + y, 0) ys") (auto simp: Cons dest: float_le_not_nan)
qed (simp add: zero_float64_def)

lemma check_mass_ok:
  assumes "check_mass q slices = Inr out" "isfinite q" "schedule_ok t0 slices"
  shows "out = slices" "\<bar>py_sum (map sl_quantity slices) - q\<bar> \<le> sched_tol"
proof -
  show "out = slices" using assms(1) by (simp add: check_mass_def split: if_splits)
  have "py_sum (map sl_quantity slices) \<noteq> NaN"
    using assms(3) by (intro py_sum_nonneg_not_nan) (auto simp: schedule_ok_def float_less_imp_le)
  then have "py_sum (map sl_quantity slices) - q \<noteq> NaN" using assms(2) by (cases q) (auto simp: minus_float64_def isfinite_def)
  then have "\<bar>py_sum (map sl_quantity slices) - q\<bar> \<noteq> NaN" by (cases "py_sum (map sl_quantity slices) - q") auto
  then show "\<bar>py_sum (map sl_quantity slices) - q\<bar> \<le> sched_tol"
    using assms(1) sched_tol_pos(2) by (auto simp: check_mass_def less_float64_def split: if_splits)
qed

section \<open>TWAP\<close>

lemma nanosecond_value: "nanosecond = Fin (4835703278458517 * two_pow (- 82))"
proof -
  have "rnd (1 / 10 ^ 9) = of_int 4835703278458517 * two_pow (- 30 - 52)"
    by (rule rnd_eqI) (simp_all add: two_pow_def)
  moreover have "rnd64 (1 / 10 ^ 9) = Fin (rnd (1 / 10 ^ 9))"
    using flit_power_ten [of 9] by (auto dest: rnd64_FinD)
  ultimately show ?thesis by (simp add: nanosecond_def)
qed

lemma nanosecond_rnd: "rnd64 (4835703278458517 * two_pow (- 82)) = nanosecond"
  using rnd64_dyadic [of 4835703278458517 "- 82"] by (simp add: nanosecond_value)

lemma to_ns_pos:
  assumes "nanosecond \<le> x" and "to_ns x = Inr g"
  shows "1 \<le> g"
proof (cases x)
  case (Fin a)
  have "1 \<le> a * 1000000000" using assms(1) by (simp add: Fin nanosecond_value two_pow_def)
  then have "rnd64 1 \<le> rnd64 (a * 1000000000)" by (rule rnd64_mono)
  then show ?thesis using assms(2) by (cases "rnd64 (a * 1000000000)") (auto simp: to_ns_def Fin split: if_splits)
qed (use assms in \<open>simp_all add: to_ns_def nanosecond_value\<close>)

definition twap_inv :: "int \<Rightarrow> nat \<Rightarrow> float64 \<times> int \<times> scheduled_slice list \<Rightarrow> bool" where
  "twap_inv t0 k s \<longleftrightarrow>
     (case s of (rem, t, slices) \<Rightarrow>
        length slices = k \<and> schedule_ok t0 slices \<and> sorted_wrt (<) (map scheduled_time_ns slices @ [t]) \<and> t0 \<le> t \<and>
        hd (map scheduled_time_ns slices @ [t]) = t0)"

lemma twap_step_inv:
  assumes "nanosecond \<le> min_interval_sec tw" and "twap_inv t0 k s" and "twap_step tw draws s k = Inr s'"
  shows "twap_inv t0 (Suc k) s'"
proof -
  obtain rem t slices where s: "s = (rem, t, slices)" by (cases s)
  let ?iv = "py_max (min_interval_sec tw) (mean_interval_sec tw * (Fin 1 + uniform (- time_jitter_ratio tw) (time_jitter_ratio tw) (draws (2 * k + 1))))"
  obtain q sl g where st: "make_slice (int k) q t = Inr sl" "to_ns ?iv = Inr g" "s' = (rem - q, t + g, slices @ [sl])"
    using assms(3) by (auto simp: s twap_step_def Let_def bindR_Inr_iff)
  have "nanosecond \<le> ?iv" using assms(1) by (auto simp: py_max_def intro: float_le_trans float_less_imp_le)
  then have g: "1 \<le> g" using st(2) by (rule to_ns_pos)
  have time: "scheduled_time_ns sl = t" using st(1) by (simp add: make_slice_Inr)
  have "\<forall>x \<in> set slices. scheduled_time_ns x < t" using assms(2) by (auto simp: s twap_inv_def sorted_wrt_append)
  then have "schedule_ok t0 (slices @ [sl])"
    using assms(2) st(1) by (intro schedule_ok_snoc) (auto simp: s twap_inv_def less_imp_le)
  then show ?thesis using assms(2) g time by (auto simp: s st(3) twap_inv_def sorted_wrt_append hd_append less_le_trans dest: less_imp_le)
qed

lemma twap_new_facts:
  assumes "twap_new tq ns mean j tj mi seed = Inr tw"
  shows "1 \<le> num_slices tw" "nanosecond \<le> min_interval_sec tw" "isfinite (tw_quantity tw)" "0 < tw_quantity tw"
proof -
  have num: "nanosecond \<le> x" if "check_number BadSchedule (\<lambda>a. Fin a < nanosecond) mi = Inr x" for x
    using that
  proof (cases mi)
    case (PInt i)
    then have "\<not> Fin (of_int i) < nanosecond" "x = float_of_int i" using that by (auto split: if_splits)
    then have "nanosecond \<le> rnd64 (of_int i)" using rnd64_mono [of "4835703278458517 * two_pow (- 82)" "of_int i"] nanosecond_rnd
      by (simp add: nanosecond_value less_float64_def)
    then show ?thesis by (simp add: \<open>x = _\<close> float_of_int_def)
  next
    case (PFloat y)
    then show ?thesis using that by (cases y) (auto simp: less_float64_def nanosecond_value split: if_splits)
  qed (use that in auto)
  show "1 \<le> num_slices tw" "nanosecond \<le> min_interval_sec tw" "isfinite (tw_quantity tw)" "0 < tw_quantity tw"
    using assms num by (auto simp: twap_new_def bindR_Inr_iff Let_def split: if_splits dest!: check_int_InrD check_pos_InrD)
qed

lemma single_mass: "is_double q \<Longrightarrow> isfinite q \<Longrightarrow> \<bar>py_sum [q] - q\<bar> \<le> sched_tol"
  using sched_tol_pos by (cases q) (auto simp: is_double_Fin feq_def zero_float64_def minus_float64_def)

lemma twap_schedule_shape:
  assumes "twap_new tq ns mean j tj mi seed = Inr tw" and "twap_schedule tw draws (PInt t0) = Inr slices"
  shows "length slices = nat (num_slices tw)" "schedule_ok t0 slices" "sorted_wrt (<) (map scheduled_time_ns slices)"
    "scheduled_time_ns (hd slices) = t0" "num_slices tw = 1 \<and> map sl_quantity slices = [tw_quantity tw] \<or>
      \<bar>py_sum (map sl_quantity slices) - tw_quantity tw\<bar> \<le> sched_tol"
proof -
  note f = twap_new_facts [OF assms(1)]
  have "length slices = nat (num_slices tw) \<and> schedule_ok t0 slices \<and> sorted_wrt (<) (map scheduled_time_ns slices) \<and>
    scheduled_time_ns (hd slices) = t0 \<and> (num_slices tw = 1 \<and> map sl_quantity slices = [tw_quantity tw] \<or>
      \<bar>py_sum (map sl_quantity slices) - tw_quantity tw\<bar> \<le> sched_tol)"
  proof (cases "num_slices tw = 1")
    case True
    then obtain sl where "make_slice 0 (tw_quantity tw) t0 = Inr sl" "slices = [sl]"
      using assms(2) by (auto simp: twap_schedule_def bindR_Inr_iff check_start_def split: if_splits)
    then show ?thesis using True by (auto simp: schedule_ok_def make_slice_Inr)
  next
    case False
    obtain rem t sls sl where l: "foldR (twap_step tw draws) (tw_quantity tw, t0, []) [0..<nat (num_slices tw) - 1] = Inr (rem, t, sls)"
      "make_slice (num_slices tw - 1) rem t = Inr sl" "check_mass (tw_quantity tw) (sls @ [sl]) = Inr slices" "0 \<le> t0"
      using assms(2) False by (auto simp: twap_schedule_def bindR_Inr_iff check_start_def split: if_splits)
    have "twap_inv t0 0 (tw_quantity tw, t0, [])" by (simp add: twap_inv_def schedule_ok_Nil)
    then have i: "twap_inv t0 (nat (num_slices tw) - 1) (rem, t, sls)"
      by (rule foldR_upt [OF l(1), of "twap_inv t0", rotated]) (rule twap_step_inv [OF f(2)], assumption+, simp)
    then have ok: "schedule_ok t0 (sls @ [sl])" using l(2) f(1)
      by (intro schedule_ok_snoc [where q = rem and t = t]) (auto simp: twap_inv_def sorted_wrt_append less_imp_le)
    have "scheduled_time_ns sl = t" using l(2) by (simp add: make_slice_Inr)
    then show ?thesis using i ok f(1) check_mass_ok [OF l(3) f(3) ok]
      by (cases sls) (auto simp: twap_inv_def sorted_wrt_append)
  qed
  then show "length slices = nat (num_slices tw)" "schedule_ok t0 slices" "sorted_wrt (<) (map scheduled_time_ns slices)"
    "scheduled_time_ns (hd slices) = t0" "num_slices tw = 1 \<and> map sl_quantity slices = [tw_quantity tw] \<or>
      \<bar>py_sum (map sl_quantity slices) - tw_quantity tw\<bar> \<le> sched_tol"
    by auto
qed

interpretation twap_gen: scheduler "\<lambda>t0. bindR (twap_new tq ns mean j tj mi seed) (\<lambda>tw. twap_schedule tw draws (PInt t0))"
  for tq ns mean j tj mi seed draws
  by unfold_locales (auto simp: bindR_Inr_iff dest: twap_schedule_shape(2))

text \<open>A TWAP schedule, for any seed: it has exactly the requested number of slices, with consecutive indices, the first at the
  start time and each strictly later than the one before, all quantities positive, and they add up to the order's
  quantity within the tolerance.\<close>

theorem twap_schedule_sound:
  assumes "twap_new tq ns mean j tj mi seed = Inr tw" and "twap_schedule tw draws (PInt t0) = Inr slices" and "pyval_double tq"
  shows "length slices = nat (num_slices tw) \<and> schedule_ok t0 slices \<and> sorted_wrt (<) (map scheduled_time_ns slices) \<and>
    scheduled_time_ns (hd slices) = t0 \<and> \<bar>py_sum (map sl_quantity slices) - tw_quantity tw\<bar> \<le> sched_tol"
proof -
  have "is_double (tw_quantity tw)"
    using assms(1,3) by (auto simp: twap_new_def bindR_Inr_iff split: if_splits dest: check_number_double)
  then show ?thesis
    using twap_schedule_shape [OF assms(1,2)] single_mass [of "tw_quantity tw"] twap_new_facts(3) [OF assms(1)] by auto
qed

text \<open>Without jitter a whole quantity that divides evenly is split evenly, and exactly.\<close>

lemma uniform_zero: "isfinite u \<Longrightarrow> uniform (- 0) 0 u = 0"
  by (cases u) (auto simp: uniform_def zero_float64_def minus_float64_def isfinite_def)

lemma whole_times_one: "\<bar>q\<bar> < 2 ^ 53 \<Longrightarrow> whole q * (Fin 1 + 0) = whole q"
  using rnd64_of_int [of q] by (simp add: zero_float64_def)

lemma even_quotient:
  assumes "1 \<le> n" "n < 2 ^ 53" "\<bar>q\<bar> < 2 ^ 53"
  shows "fdiv (whole (n * q)) (float_of_int n) = whole q"
  using assms rnd64_of_int [of n] rnd64_of_int [of q] by (simp add: float_of_int_def)

lemma reserve_below:
  assumes "1 \<le> n" "1 \<le> q" "n * q < 2 ^ 53"
  shows "whole q \<le> whole (n * q) - float_of_int (n - 1) * sched_tol"
proof -
  have nq: "n \<le> n * q" using assms(1,2) by simp
  obtain e where e: "sched_tol = Fin e" "0 < e" "e \<le> 1" using flit_power_ten [of 7] by (auto simp: sched_tol_def)
  have "\<bar>n - 1\<bar> < 2 ^ 53" using assms nq by linarith
  then have n0: "rnd64 (of_int (n - 1)) = whole (n - 1)" by (rule rnd64_of_int)
  then have n1: "float_of_int (n - 1) = whole (n - 1)" by (simp add: float_of_int_def)
  have "rnd64 (of_int (n - 1) * e) \<le> rnd64 (of_int (n - 1))" using assms(1) e(2,3) by (intro rnd64_mono) (simp add: mult_left_le)
  moreover have "0 \<le> rnd64 (of_int (n - 1) * e)" using assms(1) e(2) by (intro rnd64_nonneg) simp
  ultimately obtain d where d: "rnd64 (of_int (n - 1) * e) = Fin d" "d \<le> of_int (n - 1)"
    using n0 by (cases "rnd64 (of_int (n - 1) * e)") auto
  have "of_int (n - 1) \<le> (of_int ((n - 1) * q) :: rat)" using assms(1,2) by (subst of_int_le_iff) (simp add: mult_le_cancel_left1)
  then have "rnd64 (of_int q) \<le> rnd64 (of_int (n * q) - d)" using d(2) by (intro rnd64_mono) (simp add: algebra_simps)
  moreover have "q \<le> n * q" using assms(1,2) by simp
  then have "rnd64 (of_int q) = whole q" using assms by (intro rnd64_of_int) linarith
  ultimately show ?thesis using d(1) by (simp add: n1 e(1) minus_float64_def)
qed

lemma clamp_whole:
  assumes "1 \<le> q" "whole q \<le> a"
  shows "py_max sched_tol (py_min a (whole q)) = whole q"
proof -
  have "py_min a (whole q) = whole q" using assms(2) by (auto simp: py_min_def less_float64_def intro: float_antisym)
  moreover have "\<not> whole q \<le> sched_tol" using mass_tol_below_one [OF assms(1)] by (simp add: sched_tol_def mass_tol_def)
  then have "sched_tol < whole q" using sched_tol_pos(2) by (simp add: less_float64_def)
  ultimately show ?thesis by (simp add: py_max_def)
qed

lemma foldR_upt_run:
  assumes "i \<le> j" and "\<And>k. i \<le> k \<Longrightarrow> k < j \<Longrightarrow> f (h k) k = Inr (h (Suc k))"
  shows "foldR f (h i) [i..<j] = Inr (h j)"
  using assms
proof (induction "j - i" arbitrary: i)
  case (Suc n)
  then have "[i..<j] = i # [Suc i..<j]" by (simp add: upt_conv_Cons)
  then show ?case using Suc.hyps(1) [of "Suc i"] Suc.hyps(2) Suc.prems by simp
qed simp

definition even_slice :: "int \<Rightarrow> int \<Rightarrow> int \<Rightarrow> nat \<Rightarrow> scheduled_slice" where
  "even_slice q t0 gap k = \<lparr>slice_index = int k, sl_quantity = whole q, scheduled_time_ns = t0 + int k * gap, price_limit = None\<rparr>"

definition even_twap :: "twap \<Rightarrow> int \<Rightarrow> int \<Rightarrow> bool" where
  "even_twap tw q gap \<longleftrightarrow>
     tw_quantity tw = whole (num_slices tw * q) \<and> 1 \<le> num_slices tw \<and> 1 \<le> q \<and> num_slices tw * q < 2 ^ 53 \<and>
     jitter_ratio tw = 0 \<and> time_jitter_ratio tw = 0 \<and>
     to_ns (py_max (min_interval_sec tw) (mean_interval_sec tw * (Fin 1 + 0))) = Inr gap \<and> 0 \<le> gap"

lemma even_step:
  assumes "even_twap tw q gap" "0 \<le> t0" "int k < num_slices tw" "\<forall>i. isfinite (draws i)"
  shows "twap_step tw draws (whole ((num_slices tw - int k) * q), t0 + int k * gap, map (even_slice q t0 gap) [0..<k]) k =
    Inr (whole ((num_slices tw - int (Suc k)) * q), t0 + int (Suc k) * gap, map (even_slice q t0 gap) [0..<Suc k])"
proof -
  let ?n = "num_slices tw - int k"
  note e = assms(1) [unfolded even_twap_def]
  have n: "1 \<le> ?n" "?n \<le> num_slices tw" using assms(3) by simp_all
  have "?n * q \<le> num_slices tw * q" "q \<le> ?n * q" "?n \<le> ?n * q" using e n by (auto intro: mult_right_mono simp: mult_le_cancel_right1 mult_le_cancel_left1)
  then have b: "?n * q < 2 ^ 53" "?n < 2 ^ 53" "\<bar>q\<bar> < 2 ^ 53" "1 \<le> q" using e by linarith+
  have q: "py_max sched_tol (py_min (whole (?n * q) - float_of_int (?n - 1) * sched_tol) (whole q)) = whole q"
    by (rule clamp_whole [OF b(4) reserve_below [OF n(1) b(4) b(1)]])
  have "0 \<le> (?n - 1) * q" using n(1) b(4) by simp
  then have d: "whole (?n * q) - whole q = whole ((num_slices tw - int (Suc k)) * q)"
    using whole_diff [of "?n * q" q] b by (simp add: algebra_simps)
  have "make_slice (int k) (whole q) (t0 + int k * gap) = Inr (even_slice q t0 gap k)"
    using assms(2) e by (simp add: make_slice_Inr even_slice_def isfinite_def less_float64_def zero_float64_def)
  then show ?thesis
    using e q d even_quotient [OF n(1) b(2,3)] whole_times_one [OF b(3)] uniform_zero assms(4)
    by (simp add: twap_step_def Let_def algebra_simps)
qed

text \<open>An even TWAP split is exact, for every seed: without jitter, a whole quantity that is a multiple of the number of slices
  is never refused, and the schedule is that many equal slices at equal distances in time.\<close>

theorem twap_even_split:
  assumes "even_twap tw q gap" and "0 \<le> t0" and "\<forall>i. isfinite (draws i)"
  shows "twap_schedule tw draws (PInt t0) = Inr (map (even_slice q t0 gap) [0..<nat (num_slices tw)])"
proof -
  note e = assms(1) [unfolded even_twap_def]
  let ?n = "num_slices tw" and ?f = "even_slice q t0 gap"
  have last: "make_slice (?n - 1) (whole q) (t0 + (?n - 1) * gap) = Inr (?f (nat (?n - 1)))"
    using e assms(2) by (simp add: make_slice_Inr even_slice_def isfinite_def less_float64_def zero_float64_def)
  show ?thesis
  proof (cases "?n = 1")
    case True
    then show ?thesis using last e assms(2) by (simp add: twap_schedule_def check_start_def)
  next
    case False
    have m: "int (nat ?n - 1) = ?n - 1" "nat (?n - 1) = nat ?n - 1" "[0..<nat ?n] = [0..<nat ?n - 1] @ [nat ?n - 1]" using e False
      by (auto simp: upt_Suc_append [symmetric])
    have "foldR (twap_step tw draws) (whole ((?n - int 0) * q), t0 + int 0 * gap, map ?f [0..<0]) [0..<nat ?n - 1] =
      Inr (whole ((?n - int (nat ?n - 1)) * q), t0 + int (nat ?n - 1) * gap, map ?f [0..<nat ?n - 1])"
    proof (rule foldR_upt_run [where h = "\<lambda>k. (whole ((?n - int k) * q), t0 + int k * gap, map ?f [0..<k])"])
      fix k assume "k < nat ?n - 1"
      then show "twap_step tw draws (whole ((?n - int k) * q), t0 + int k * gap, map ?f [0..<k]) k =
        Inr (whole ((?n - int (Suc k)) * q), t0 + int (Suc k) * gap, map ?f [0..<Suc k])"
        using assms by (intro even_step) auto
    qed simp
    moreover have r: "map sl_quantity (map ?f [0..<nat ?n]) = replicate (nat ?n) (whole q)"
      by (intro nth_equalityI) (simp_all add: even_slice_def)
    moreover have "py_sum (replicate (nat ?n) (whole q)) = whole (?n * q)"
      using e py_sum_whole [of "replicate (nat ?n) q"] by (simp add: sum_list_replicate list_all_iff)
    then have "check_mass (tw_quantity tw) (map ?f [0..<nat ?n]) = Inr (map ?f [0..<nat ?n])"
      unfolding check_mass_def r using e sched_tol_pos by (simp add: minus_float64_def less_float64_def zero_float64_def)
    ultimately show ?thesis
      using e False assms(2) last m by (simp add: twap_schedule_def check_start_def)
  qed
qed

section \<open>VWAP\<close>

lemma to_ns_nonneg: "0 < x \<Longrightarrow> to_ns x = Inr g \<Longrightarrow> 0 \<le> g"
proof -
  assume "0 < x" "to_ns x = Inr g"
  moreover from this(1) have "0 \<le> x * Fin 1000000000" by (cases x) (auto simp: less_float64_def zero_float64_def intro: rnd64_nonneg [unfolded zero_float64_def])
  ultimately show "0 \<le> g" by (cases "x * Fin 1000000000") (auto simp: to_ns_def zero_float64_def)
qed

text \<open>The slices of a bar-wise schedule: one at most per bar, in the order of the bars.\<close>

definition bars_ok :: "(nat \<Rightarrow> scheduled_slice \<Rightarrow> bool) \<Rightarrow> int \<Rightarrow> int \<Rightarrow> nat \<Rightarrow> scheduled_slice list \<Rightarrow> bool" where
  "bars_ok P t0 iv n slices \<longleftrightarrow>
     schedule_ok t0 slices \<and>
     (\<exists>ks. sorted_wrt (<) ks \<and> set ks \<subseteq> {..<n} \<and> list_all2 (\<lambda>k s. scheduled_time_ns s = t0 + int k * iv \<and> P k s) ks slices)"

lemma bars_ok_Nil: "bars_ok P t0 iv n []"
  by (auto simp: bars_ok_def schedule_ok_Nil)

lemma bars_ok_mono: "bars_ok P t0 iv n slices \<Longrightarrow> n \<le> m \<Longrightarrow> bars_ok P t0 iv m slices"
  by (fastforce simp: bars_ok_def)

lemma bars_ok_snoc:
  assumes "bars_ok P t0 iv k slices" "0 \<le> iv" "make_slice (int (length slices)) q (t0 + int k * iv) = Inr sl" "P k sl"
  shows "bars_ok P t0 iv (Suc k) (slices @ [sl])"
proof -
  obtain ks where ks: "sorted_wrt (<) ks" "set ks \<subseteq> {..<k}" "list_all2 (\<lambda>k s. scheduled_time_ns s = t0 + int k * iv \<and> P k s) ks slices"
    using assms(1) by (auto simp: bars_ok_def)
  have "scheduled_time_ns s \<le> t0 + int k * iv" if s: "s \<in> set slices" for s
  proof -
    obtain m where m: "m < length slices" "slices ! m = s" using s by (auto simp: in_set_conv_nth)
    define i where "i = ks ! m"
    have "i \<in> set ks" "scheduled_time_ns s = t0 + int i * iv"
      using ks(3) m by (auto simp: i_def list_all2_conv_all_nth)
    moreover from this(1) have "int i * iv \<le> int k * iv" using ks(2) assms(2) by (intro mult_right_mono) auto
    ultimately show ?thesis by simp
  qed
  then have "schedule_ok t0 (slices @ [sl])"
    using assms(1-3) by (intro schedule_ok_snoc) (auto simp: bars_ok_def)
  moreover have "sorted_wrt (<) (ks @ [k])" "set (ks @ [k]) \<subseteq> {..<Suc k}" using ks(1,2) by (auto simp: sorted_wrt_append)
  moreover have "list_all2 (\<lambda>k s. scheduled_time_ns s = t0 + int k * iv \<and> P k s) (ks @ [k]) (slices @ [sl])"
    using ks(3) assms(3,4) by (auto simp: make_slice_Inr intro: list_all2_appendI)
  ultimately show ?thesis unfolding bars_ok_def by blast
qed

lemma vwap_capped_step_ok:
  assumes "bars_ok (\<lambda>k s. sl_quantity s \<le> max_participation_rate vw * blended vw ex rt k) t0 iv k (snd s)" "0 \<le> iv"
    "vwap_capped_step vw ex rt t0 iv s k = Inr s'" "max_participation_rate vw * blended vw ex rt k \<noteq> NaN"
  shows "bars_ok (\<lambda>k s. sl_quantity s \<le> max_participation_rate vw * blended vw ex rt k) t0 iv (Suc k) (snd s')"
proof -
  have le: "py_min a b \<le> b" if "0 < py_min a b" "b \<noteq> NaN" for a b
    using that by (cases a; cases b) (auto simp: py_min_def less_float64_def zero_float64_def split: if_splits)
  obtain rem slices where s: "s = (rem, slices)" by (cases s)
  have keep: "bars_ok (\<lambda>k s. sl_quantity s \<le> max_participation_rate vw * blended vw ex rt k) t0 iv (Suc k) slices"
    using assms(1) by (auto simp: s intro: bars_ok_mono)
  let ?q = "py_min (rem * fdiv (vw_weights vw ! k) (py_sum (drop k (vw_weights vw)))) (max_participation_rate vw * blended vw ex rt k)"
  consider "s' = s" | sl where "0 < ?q" "make_slice (int (length slices)) ?q (t0 + int k * iv) = Inr sl" "s' = (rem - ?q, slices @ [sl])"
    using assms(3) by (auto simp: s vwap_capped_step_def Let_def bindR_Inr_iff split: if_splits)
  then show ?thesis
  proof cases
    case 2
    then have "sl_quantity sl = ?q" by (simp add: make_slice_Inr)
    then have "sl_quantity sl \<le> max_participation_rate vw * blended vw ex rt k" using le [OF 2(1) assms(4)] by simp
    then show ?thesis using bars_ok_snoc [OF _ assms(2) 2(2), where P = "\<lambda>k s. sl_quantity s \<le> max_participation_rate vw * blended vw ex rt k"]
      assms(1) by (simp add: s 2(3))
  qed (simp add: keep s)
qed

lemma mapR_nonneg: "mapR (check_nonneg err) vs = Inr xs \<Longrightarrow> length xs = length vs \<and> (\<forall>x \<in> set xs. isfinite x \<and> 0 \<le> x)"
  by (induction vs arbitrary: xs) (auto simp: bindR_Inr_iff)

lemma unit_product:
  assumes "isfinite x" "0 \<le> x" "Fin a = w" "0 \<le> a" "a \<le> 1"
  shows "0 \<le> w * x \<and> w * x \<noteq> NaN"
  using assms float_mult_nonneg [of w x] by (auto simp: isfinite_def zero_float64_def dest: float_le_not_nan)

lemma blended_not_nan:
  assumes "smoothing_weight vw = Fin w" "0 \<le> w" "w \<le> 1" "isfinite (ex ! k)" "0 \<le> ex ! k"
    "\<And>vs. rt = Some vs \<Longrightarrow> isfinite (vs ! k) \<and> 0 \<le> vs ! k" "max_participation_rate vw = Fin r" "0 < r"
  shows "max_participation_rate vw * blended vw ex rt k \<noteq> NaN"
proof -
  have "0 \<le> blended vw ex rt k"
  proof (cases rt)
    case (Some vs)
    have "rnd64 (1 - w) \<le> rnd64 1" using assms(2) by (intro rnd64_mono) simp
    moreover have "0 \<le> rnd64 (1 - w)" using assms(3) by simp
    ultimately obtain c where "Fin 1 - Fin w = Fin c" "0 \<le> c" "c \<le> 1"
      by (cases "rnd64 (1 - w)") (auto simp: minus_float64_def zero_float64_def)
    then show ?thesis using Some assms unit_product [of "ex ! k" w] unit_product [of "vs ! k" c]
      by (auto simp: blended_def intro: float_add_nonneg)
  qed (use assms in \<open>simp add: blended_def\<close>)
  then show ?thesis using assms(7,8) by (cases "blended vw ex rt k") auto
qed

lemma vwap_new_facts:
  assumes "vwap_new tq curve rate w iv = Inr vw"
  shows "0 < vw_quantity vw" "isfinite (vw_quantity vw)" "0 < interval_sec vw"
    "\<exists>r. max_participation_rate vw = Fin r \<and> 0 < r" "\<exists>a. smoothing_weight vw = Fin a \<and> 0 \<le> a \<and> a \<le> 1"
proof -
  have un: "\<exists>a. x = Fin a \<and> P a" if c: "check_number err (\<lambda>a. \<not> P a) v = Inr x" and b: "\<And>i. P (of_int i) \<Longrightarrow> i = 0 \<or> i = 1" for err v x P
  proof (cases v)
    case (PInt i)
    then have p: "P (of_int i)" "x = float_of_int i" using c by (auto split: if_splits)
    then show ?thesis using b [OF p(1)] by (auto simp: float_of_int_def zero_float64_def)
  next
    case (PFloat y)
    then show ?thesis using c by (cases y) (auto split: if_splits)
  qed (use c in auto)
  show "0 < vw_quantity vw" "isfinite (vw_quantity vw)" "0 < interval_sec vw"
    using assms by (auto simp: vwap_new_def bindR_Inr_iff Let_def split: if_splits)
  have "check_number BadSchedule (\<lambda>a. \<not> (0 < a \<and> a \<le> 1)) rate = Inr (max_participation_rate vw)"
    "check_number BadSchedule (\<lambda>a. \<not> (0 \<le> a \<and> a \<le> 1)) w = Inr (smoothing_weight vw)"
    using assms by (auto simp: vwap_new_def bindR_Inr_iff Let_def split: if_splits)
  from un [OF this(1)] un [OF this(2)]
  show "\<exists>r. max_participation_rate vw = Fin r \<and> 0 < r" "\<exists>a. smoothing_weight vw = Fin a \<and> 0 \<le> a \<and> a \<le> 1" by force+
qed

lemma vwap_capped_bars:
  assumes "vwap_new tq curve rate w iv = Inr vw" and "vwap_schedule vw (PInt t0) (Some es) rts = Inr slices"
    and "mapR (check_nonneg BadSchedule) es = Inr ex"
    and "rt = map_option (\<lambda>rs. projr (mapR (check_nonneg BadSchedule) rs)) rts" and "to_ns (interval_sec vw) = Inr iv_ns"
  shows "slices \<noteq> [] \<and> bars_ok (\<lambda>k s. sl_quantity s \<le> max_participation_rate vw * blended vw ex rt k) t0 iv_ns (length es) slices"
proof -
  note f = vwap_new_facts [OF assms(1)]
  have len: "length es = length (vw_weights vw)" using assms(2,5) by (auto simp: vwap_schedule_def bindR_Inr_iff Let_def split: if_splits)
  have rt: "length vs = length es \<and> (\<forall>x \<in> set vs. isfinite x \<and> 0 \<le> x)" if r: "rt = Some vs" for vs
  proof -
    obtain rs where rs: "rts = Some rs" "vs = projr (mapR (check_nonneg BadSchedule) rs)" using r assms(4) by auto
    then obtain us where us: "mapR (check_nonneg BadSchedule) rs = Inr us" "length rs = length (vw_weights vw)"
      using assms(2,5) by (auto simp: vwap_schedule_def bindR_Inr_iff Let_def split: if_splits)
    show ?thesis using mapR_nonneg [OF us(1)] us rs len by simp
  qed
  obtain rem where fold: "foldR (vwap_capped_step vw ex rt t0 iv_ns) (vw_quantity vw, []) [0..<length es] = Inr (rem, slices)" "slices \<noteq> []"
    using assms(2-5) len
    by (auto simp: vwap_schedule_def bindR_Inr_iff check_start_def Let_def split: if_splits option.splits)
  let ?P = "\<lambda>k s. sl_quantity s \<le> max_participation_rate vw * blended vw ex rt k"
  have nn: "max_participation_rate vw * blended vw ex rt k \<noteq> NaN" if "k < length es" for k
  proof -
    obtain r a where ra: "max_participation_rate vw = Fin r" "0 < r" "smoothing_weight vw = Fin a" "0 \<le> a" "a \<le> 1" using f(4,5) by auto
    show ?thesis by (rule blended_not_nan [OF ra(3-5) _ _ _ ra(1,2)]) (use that rt mapR_nonneg [OF assms(3)] in auto)
  qed
  have "bars_ok ?P t0 iv_ns (length es) (snd (rem, slices))"
  proof (rule foldR_upt [OF fold(1)])
    fix k s s' assume "k < length es" "bars_ok ?P t0 iv_ns k (snd s)" "vwap_capped_step vw ex rt t0 iv_ns s k = Inr s'"
    then show "bars_ok ?P t0 iv_ns (Suc k) (snd s')"
      using nn to_ns_nonneg [OF f(3) assms(5)] by (intro vwap_capped_step_ok) auto
  qed (auto simp: bars_ok_Nil)
  then show ?thesis using fold(2) by simp
qed

text \<open>C40: Participation: with volume forecasts every VWAP slice belongs to a bar of its own, in the order of the bars and at the
  time of its bar, and its quantity is at most the participation rate times the forecast volume of that bar (blended with
  the real-time estimate when one is given).\<close>

theorem vwap_participation:
  assumes "vwap_new tq curve rate w iv = Inr vw" and "vwap_schedule vw (PInt t0) (Some es) rts = Inr slices"
    and "mapR (check_nonneg BadSchedule) es = Inr ex"
    and "rt = map_option (\<lambda>rs. projr (mapR (check_nonneg BadSchedule) rs)) rts" and "to_ns (interval_sec vw) = Inr iv_ns"
  shows "slices \<noteq> [] \<and> schedule_ok t0 slices \<and>
    (\<exists>ks. sorted_wrt (<) ks \<and> set ks \<subseteq> {..<length es} \<and>
      list_all2 (\<lambda>k s. scheduled_time_ns s = t0 + int k * iv_ns \<and> sl_quantity s \<le> max_participation_rate vw * blended vw ex rt k) ks slices)"
  using vwap_capped_bars [OF assms] by (simp add: bars_ok_def)

text \<open>Without forecasts.\<close>

lemma vwap_free_step_ok:
  assumes "bars_ok (\<lambda>_ _. True) t0 iv k (snd s)" "0 \<le> iv" "vwap_free_step vw t0 iv s k = Inr s'"
  shows "bars_ok (\<lambda>_ _. True) t0 iv (Suc k) (snd s')"
proof -
  obtain rem slices where s: "s = (rem, slices)" by (cases s)
  consider "s' = s" | q sl where "make_slice (int (length slices)) q (t0 + int k * iv) = Inr sl" "snd s' = slices @ [sl]"
    using assms(3) by (auto simp: s vwap_free_step_def Let_def bindR_Inr_iff split: if_splits)
  then show ?thesis using assms(1,2) bars_ok_snoc [where P = "\<lambda>_ _. True"] bars_ok_mono [of _ t0 iv k slices "Suc k"]
    by cases (auto simp: s)
qed

lemma vwap_schedule_ok:
  assumes "vwap_new tq curve rate w iv = Inr vw" and "vwap_schedule vw (PInt t0) None rts = Inr slices"
  shows "schedule_ok t0 slices" "\<bar>py_sum (map sl_quantity slices) - vw_quantity vw\<bar> \<le> sched_tol"
proof -
  note f = vwap_new_facts [OF assms(1)]
  let ?k = "length (vw_weights vw) - 1"
  obtain g where l1: "to_ns (interval_sec vw) = Inr g" and vf: "vwap_free vw t0 g = Inr slices"
    using assms(2) by (auto simp: vwap_schedule_def check_start_def bindR_Inr_iff split: if_splits)
  obtain rem sls where l2: "foldR (vwap_free_step vw t0 g) (vw_quantity vw, []) [0..<?k] = Inr (rem, sls)"
    using vf by (auto simp: vwap_free_def bindR_Inr_iff Let_def)
  obtain out where l3: "out = sls \<or> (\<exists>sl. make_slice (int (length sls)) rem (t0 + int ?k * g) = Inr sl \<and> out = sls @ [sl])"
    and l4: "check_mass (vw_quantity vw) out = Inr slices"
  proof (cases "0 < rem")
    case True
    then obtain sl where "make_slice (int (length sls)) rem (t0 + int ?k * g) = Inr sl" "check_mass (vw_quantity vw) (sls @ [sl]) = Inr slices"
      using vf l2 by (auto simp: vwap_free_def Let_def bindR_Inr_iff)
    then show thesis using that by blast
  next
    case False
    then show thesis using vf l2 that [of sls] by (auto simp: vwap_free_def Let_def split: if_splits)
  qed
  note l = l1 l2 l3 l4
  have g: "0 \<le> g" using to_ns_nonneg [OF f(3) l(1)] .
  have "bars_ok (\<lambda>_ _. True) t0 g ?k (snd (rem, sls))"
    by (rule foldR_upt [OF l(2)]) (auto simp: bars_ok_Nil intro: vwap_free_step_ok [OF _ g])
  then have "bars_ok (\<lambda>_ _. True) t0 g ?k sls" by simp
  then have "bars_ok (\<lambda>_ _. True) t0 g (Suc ?k) out" 
    using l(3) bars_ok_snoc [OF _ g, where P = "\<lambda>_ _. True"] bars_ok_mono [of _ t0 g ?k sls "Suc ?k"] by auto
  then have ok: "schedule_ok t0 out" by (simp add: bars_ok_def)
  show "schedule_ok t0 slices" "\<bar>py_sum (map sl_quantity slices) - vw_quantity vw\<bar> \<le> sched_tol"
    using check_mass_ok [OF l(4) f(2) ok] ok by simp_all
qed

lemma vwap_generated_ok:
  assumes "vwap_new tq curve rate w iv = Inr vw" "vwap_schedule vw (PInt t0) es rts = Inr slices"
  shows "schedule_ok t0 slices"
proof (cases es)
  case None
  then show ?thesis using vwap_schedule_ok(1) [OF assms(1)] assms(2) by simp
next
  case (Some vs)
  obtain ex g where "mapR (check_nonneg BadSchedule) vs = Inr ex" "to_ns (interval_sec vw) = Inr g"
    using assms(2) Some by (auto simp: vwap_schedule_def bindR_Inr_iff Let_def split: if_splits)
  then show ?thesis using vwap_capped_bars [OF assms(1) _ _ refl, of t0 vs rts slices ex g] assms(2) Some by (simp add: bars_ok_def)
qed

interpretation vwap_gen: scheduler
  "\<lambda>t0. bindR (vwap_new tq curve rate w iv) (\<lambda>vw. vwap_schedule vw (PInt t0) es rts)"
  for tq curve rate w iv es rts
  by unfold_locales (auto simp: bindR_Inr_iff dest: vwap_generated_ok)

section \<open>Arrival price\<close>

lemma trajectory_step:
  assumes "x \<noteq> NaN" "0 \<le> x"
  shows "py_max 0 (py_min x y) \<le> x \<and> 0 \<le> py_max 0 (py_min x y)"
  using assms by (cases "y < x") (auto simp: py_max_def py_min_def float_less_imp_le float_le_refl)

definition falling :: "float64 \<Rightarrow> float64 list \<Rightarrow> bool" where
  "falling x0 xs \<longleftrightarrow> xs \<noteq> [] \<and> hd xs = x0 \<and> (\<forall>x \<in> set xs. 0 \<le> x \<and> x \<le> x0) \<and> (\<forall>i. Suc i < length xs \<longrightarrow> xs ! Suc i \<le> xs ! i)"

lemma falling_snoc:
  assumes "falling x0 xs" "0 \<le> y" "y \<le> last xs"
  shows "falling x0 (xs @ [y])"
proof -
  have "last xs \<le> x0" using assms(1) by (auto simp: falling_def)
  then have "y \<le> x0" by (rule float_le_trans [OF assms(3)])
  moreover have "(xs @ [y]) ! Suc i \<le> (xs @ [y]) ! i" if "Suc i < length (xs @ [y])" for i
  proof (cases "Suc i = length xs")
    case True
    then have "xs ! i = last xs" using assms(1) by (simp add: falling_def last_conv_nth flip: True)
    then show ?thesis using True assms(3) by (simp add: nth_append)
  next
    case False
    then show ?thesis using that assms(1) by (simp add: falling_def nth_append)
  qed
  ultimately show ?thesis using assms by (auto simp: falling_def)
qed

lemma trajectory_falling:
  assumes "compute_inventory_trajectory exp64 sinh64 ac = Inr traj" "0 < ar_quantity ac" "1 \<le> num_intervals ac"
  shows "falling (ar_quantity ac) traj" "length traj = nat (num_intervals ac) + 1" "last traj = 0"
proof -
  obtain xs where xs: "foldR (\<lambda>xs j. bindR (inventory_at exp64 sinh64 ac j) (\<lambda>x. Inr (xs @ [py_max 0 (py_min (last xs) x)])))
      [ar_quantity ac] [1..<nat (num_intervals ac)] = Inr xs" "traj = xs @ [0]"
    using assms(1) by (auto simp: compute_inventory_trajectory_def bindR_Inr_iff)
  have q: "0 \<le> ar_quantity ac" "ar_quantity ac \<noteq> NaN" using assms(2) by (auto dest: float_less_imp_le float_less_not_nan)
  have "falling (ar_quantity ac) xs \<and> length xs = nat (num_intervals ac)"
  proof (rule foldR_upt [OF xs(1)])
    fix k s s' assume p: "falling (ar_quantity ac) s \<and> length s = k"
      and "bindR (inventory_at exp64 sinh64 ac k) (\<lambda>x. Inr (s @ [py_max 0 (py_min (last s) x)])) = Inr s'"
    then obtain x where s': "s' = s @ [py_max 0 (py_min (last s) x)]" by (auto simp: bindR_Inr_iff)
    have "0 \<le> last s" using p by (auto simp: falling_def)
    then show "falling (ar_quantity ac) s' \<and> length s' = Suc k"
      using p trajectory_step [of "last s" x] by (auto simp: s' intro!: falling_snoc dest: float_le_not_nan)
  qed (use assms(3) q in \<open>auto simp: falling_def float_le_refl\<close>)
  moreover from this have "0 \<le> last xs" by (auto simp: falling_def)
  ultimately show "falling (ar_quantity ac) traj" "length traj = nat (num_intervals ac) + 1" "last traj = 0"
    by (auto simp: xs(2) intro!: falling_snoc)
qed

text \<open>The arrival-price inventory is a trajectory: from the whole quantity at the start to nothing at the horizon, never
  rising and never outside that range. This holds whatever values the exponential and the hyperbolic sine return (NaN too).
  When they do not vanish where the formula divides by them, the computation does not raise.\<close>

theorem arrival_trajectory:
  assumes "arrival_new sq64 sqrt64 tq h v ra ic m b = Inr ac" and "\<forall>x. x \<noteq> 0 \<longrightarrow> sinh64 x \<noteq> 0" and "\<forall>x. x \<le> Fin (- 100) \<longrightarrow> Fin 1 - exp64 x \<noteq> 0"
  shows "\<exists>traj. compute_inventory_trajectory exp64 sinh64 ac = Inr traj \<and> length traj = nat (num_intervals ac) + 1 \<and>
    hd traj = ar_quantity ac \<and> last traj = 0 \<and> (\<forall>x \<in> set traj. 0 \<le> x \<and> x \<le> ar_quantity ac) \<and>
    (\<forall>i < nat (num_intervals ac). traj ! Suc i \<le> traj ! i)"
proof -
  have a: "0 < ar_quantity ac" "1 \<le> num_intervals ac" "0 < horizon_seconds ac"
    using assms(1) by (auto simp: arrival_new_def bindR_Inr_iff Let_def dest!: check_int_InrD)
  have "\<exists>x. inventory_at exp64 sinh64 ac j = Inr x" for j
  proof -
    let ?K = "kappa ac * horizon_seconds ac"
    have "Fin (- 2) * ?K \<le> Fin (- 100)" if "Fin 50 < ?K"
      using that rnd64_mono [of "- 2 * k" "- 100" for k] by (cases ?K) auto
    moreover have "?K < flit (1 / 10 ^ 6)" if "?K = 0" using that flit_power_ten [of 6] by (auto simp: zero_float64_def)
    ultimately show ?thesis using assms(2,3) by (cases "?K = 0") (auto simp: inventory_at_def divR_def Let_def)
  qed
  then have run: "\<exists>xs'. foldR (\<lambda>xs j. bindR (inventory_at exp64 sinh64 ac j) (\<lambda>x. Inr (xs @ [py_max 0 (py_min (last xs) x)]))) xs js = Inr xs'" for xs js
    by (induction js arbitrary: xs) (auto, metis bindR_simps(2))
  obtain traj where t: "compute_inventory_trajectory exp64 sinh64 ac = Inr traj"
    using run [of "[ar_quantity ac]" "[1..<nat (num_intervals ac)]"] by (auto simp: compute_inventory_trajectory_def)
  show ?thesis using t trajectory_falling [OF t a(1,2)] by (auto simp: falling_def)
qed

definition arrival_inv :: "arrival \<Rightarrow> int \<Rightarrow> nat \<Rightarrow> float64 \<times> int \<times> scheduled_slice list \<Rightarrow> bool" where
  "arrival_inv ac t0 j s \<longleftrightarrow>
     (case s of (rem, last_ns, slices) \<Rightarrow>
        schedule_ok t0 slices \<and> length slices < j \<and> sorted_wrt (<) (map scheduled_time_ns slices) \<and>
        (slices \<noteq> [] \<longrightarrow> 0 \<le> last_ns) \<and> (\<forall>x \<in> set slices. scheduled_time_ns x \<le> last_ns) \<and>
        (num_intervals ac < int j \<longrightarrow> \<not> 0 < rem))"

lemma py_int_nonneg: "0 \<le> x \<Longrightarrow> py_int x = Inr n \<Longrightarrow> 0 \<le> n"
  by (cases x) (auto simp: zero_float64_def)

lemma py_int_not_nan: "py_int x = Inr n \<Longrightarrow> x \<noteq> NaN"
  by auto

lemma times_not_nan: "x * y \<noteq> NaN \<Longrightarrow> y \<noteq> NaN" for x y :: float64
  by (cases x) auto

lemma nonneg_times: "0 \<le> x \<Longrightarrow> 0 \<le> y \<Longrightarrow> x * y \<noteq> NaN \<Longrightarrow> 0 \<le> x * y" for x y :: float64
  by (cases x; cases y) (auto simp: zero_float64_def split: if_splits intro: rnd64_nonneg [unfolded zero_float64_def])

lemma arrival_step_inv:
  assumes "arrival_inv ac t0 j s" "1 \<le> j" "arrival_step ac traj t0 s j = Inr s'" "0 \<le> t0" "int j \<le> num_intervals ac"
    "0 < horizon_seconds ac" "isfinite (horizon_seconds ac)"
  shows "arrival_inv ac t0 (Suc j) s'"
proof -
  obtain rem ln slices where s: "s = (rem, ln, slices)" by (cases s)
  let ?dt = "fdiv (horizon_seconds ac) (float_of_int (num_intervals ac)) * Fin 1000000000"
  consider (keep) "s' = s" "int j = num_intervals ac \<longrightarrow> \<not> 0 < rem"
    | (add) q off sl where "py_int (float_of_int (int j - 1) * ?dt) = Inr off" "s' = (rem - q, if 0 \<le> ln then max (ln + 1) (t0 + off) else t0 + off, slices @ [sl])"
        "make_slice (int (length slices)) q (if 0 \<le> ln then max (ln + 1) (t0 + off) else t0 + off) = Inr sl" "int j = num_intervals ac \<longrightarrow> q = rem"
    using assms(3) unfolding s arrival_step_def Let_def prod.case
    by (auto simp: bindR_Inr_iff less_float64_def split: if_splits)
  then show ?thesis
  proof cases
    case keep
    then show ?thesis using assms(1,5) by (auto simp: s arrival_inv_def)
  next
    case add
    let ?t = "if 0 \<le> ln then max (ln + 1) (t0 + off) else t0 + off"
    have n: "0 < float_of_int (num_intervals ac)" using float_of_int_ge_1 [of "num_intervals ac"] assms(2,5)
      by (cases "float_of_int (num_intervals ac)") (auto simp: less_float64_def zero_float64_def)
    have "0 \<le> fdiv (horizon_seconds ac) (float_of_int (num_intervals ac))"
      using assms(6,7) n by (intro float_fdiv_nonneg) (auto simp: float_less_imp_le)
    moreover have "float_of_int (int j - 1) * ?dt \<noteq> NaN" using add(1) by (rule py_int_not_nan)
    moreover from this have "?dt \<noteq> NaN" by (rule times_not_nan)
    ultimately have "0 \<le> float_of_int (int j - 1) * ?dt"
      using assms(2) float_of_int_nonneg [of "int j - 1"] by (intro nonneg_times) (auto simp: zero_float64_def)
    then have off: "0 \<le> off" using add(1) by (rule py_int_nonneg)
    then have t: "t0 \<le> ?t" "\<forall>x \<in> set slices. scheduled_time_ns x < ?t"
      using assms(1,4) by (auto simp: s arrival_inv_def max_def)
    have ok: "schedule_ok t0 (slices @ [sl])"
      using assms(1) add(3) t by (intro schedule_ok_snoc) (auto simp: s arrival_inv_def less_imp_le)
    have sl: "scheduled_time_ns sl = ?t" "isfinite q" using add(3) by (simp_all add: make_slice_Inr)
    have "\<not> 0 < rem - q" if "num_intervals ac = int j" using that add(4) sl(2)
      by (cases q) (auto simp: minus_float64_def less_float64_def zero_float64_def)
    then show ?thesis using assms(1,4,5) ok sl(1) t
      by (auto simp: s add(2) arrival_inv_def sorted_wrt_append simp del: max_def)
  qed
qed

lemma arrival_new_facts:
  assumes "arrival_new sq64 sqrt64 tq h v ra ic m b = Inr ac"
  shows "0 < ar_quantity ac" "isfinite (ar_quantity ac)" "1 \<le> num_intervals ac" "0 < horizon_seconds ac" "isfinite (horizon_seconds ac)"
  using assms by (auto simp: arrival_new_def bindR_Inr_iff Let_def dest!: check_int_InrD)

lemma arrival_schedule_shape:
  assumes "arrival_new sq64 sqrt64 tq h v ra ic m b = Inr ac" and "arrival_schedule exp64 sinh64 ac (PInt t0) = Inr slices"
  shows "schedule_ok t0 slices" "length slices \<le> nat (num_intervals ac)" "sorted_wrt (<) (map scheduled_time_ns slices)"
    "\<bar>py_sum (map sl_quantity slices) - ar_quantity ac\<bar> \<le> sched_tol"
proof -
  note f = arrival_new_facts [OF assms(1)]
  obtain traj where t0: "0 \<le> t0" and tr: "compute_inventory_trajectory exp64 sinh64 ac = Inr traj"
    using assms(2) by (auto simp: arrival_schedule_def bindR_Inr_iff check_start_def split: if_splits)
  obtain rem ln sls where fold: "foldR (arrival_step ac traj t0) (ar_quantity ac, - 1, []) [1..<nat (num_intervals ac) + 1] = Inr (rem, ln, sls)"
    using assms(2) t0 tr by (auto simp: arrival_schedule_def bindR_Inr_iff check_start_def)
  have "arrival_inv ac t0 1 (ar_quantity ac, - 1, [])" using f(3) by (simp add: arrival_inv_def schedule_ok_Nil)
  then have i: "arrival_inv ac t0 (nat (num_intervals ac) + 1) (rem, ln, sls)"
    by (rule foldR_upt [OF fold, of "arrival_inv ac t0", rotated]) (use f t0 in \<open>auto intro: arrival_step_inv\<close>)
  then have c: "check_mass (ar_quantity ac) sls = Inr slices"
    using assms(2) t0 tr fold f(3) by (auto simp: arrival_schedule_def check_start_def arrival_inv_def)
  have ok: "schedule_ok t0 sls" using i by (simp add: arrival_inv_def)
  show "schedule_ok t0 slices" "length slices \<le> nat (num_intervals ac)" "sorted_wrt (<) (map scheduled_time_ns slices)"
    "\<bar>py_sum (map sl_quantity slices) - ar_quantity ac\<bar> \<le> sched_tol"
    using check_mass_ok [OF c f(2) ok] i ok by (auto simp: arrival_inv_def)
qed

interpretation arrival_gen: scheduler
  "\<lambda>t0. bindR (arrival_new sq64 sqrt64 tq h v ra ic m b) (\<lambda>ac. arrival_schedule exp64 sinh64 ac (PInt t0))"
  for sq64 sqrt64 tq h v ra ic m b exp64 sinh64
  by unfold_locales (auto simp: bindR_Inr_iff dest: arrival_schedule_shape(1))

text \<open>An arrival-price schedule has at most one slice per interval, at strictly increasing times, with positive quantities that
  add up to the order's quantity within the tolerance.\<close>

theorem arrival_schedule_sound:
  assumes "arrival_new sq64 sqrt64 tq h v ra ic m b = Inr ac" and "arrival_schedule exp64 sinh64 ac (PInt t0) = Inr slices"
  shows "schedule_ok t0 slices \<and> length slices \<le> nat (num_intervals ac) \<and> sorted_wrt (<) (map scheduled_time_ns slices) \<and>
    \<bar>py_sum (map sl_quantity slices) - ar_quantity ac\<bar> \<le> sched_tol"
  using arrival_schedule_shape [OF assms] by simp

section \<open>Concrete schedules\<close>

definition sample_twap :: twap where
  "sample_twap = \<lparr>tw_quantity = Fin 6, num_slices = 2, mean_interval_sec = Fin 1, jitter_ratio = 0, time_jitter_ratio = 0,
     min_interval_sec = Fin 1, tw_seed = None\<rparr>"

lemma sample_twap_new: "twap_new (PInt 6) (PInt 2) (PInt 1) (PInt 0) (PInt 0) (PInt 1) PNone = Inr sample_twap"
proof -
  obtain e where e: "sched_tol = Fin e" "0 < e" "e \<le> 1" using flit_power_ten [of 7] by (auto simp: sched_tol_def)
  have "rnd64 (2 * e) \<le> rnd64 2" using e(3) by (intro rnd64_mono) simp
  then have "\<not> Fin 6 < Fin 2 * sched_tol" unfolding e(1) by (cases "rnd64 (2 * e)") (auto simp: less_float64_def)
  moreover have "\<not> Fin 1 < nanosecond" by (simp add: nanosecond_value two_pow_def)
  ultimately show ?thesis
    by (simp add: twap_new_def check_ratio_def float_of_int_def int_overflows_def isfinite_def sample_twap_def zero_float64_def)
qed

lemma sample_twap_even: "even_twap sample_twap 3 1000000000"
  by (simp add: even_twap_def sample_twap_def to_ns_def py_max_def)

lemma sample_twap_run: "\<exists>slices. twap_schedule sample_twap (\<lambda>_. 0) (PInt 5) = Inr slices"
proof -
  have step: "twap_step sample_twap (\<lambda>_. 0) (Fin 6, 5, []) 0 = Inr (Fin 3, 1000000005, [even_slice 3 5 1000000000 0])"
    using even_step [OF sample_twap_even, of 5 0 "\<lambda>_. 0"] by (simp add: sample_twap_def)
  have sum: "py_sum [Fin 3, Fin 3] = Fin 6" using py_sum_whole [of "[3, 3]"] by simp
  show ?thesis using step sum sched_tol_pos
    by (simp add: twap_schedule_def check_start_def sample_twap_def [unfolded atomize_eq] make_slice_def scheduled_slice_new_def
        check_mass_def even_slice_def minus_float64_def zero_float64_def less_float64_def)
qed

theorem twap_schedule_sound_witness:
  "\<exists>slices. twap_schedule sample_twap (\<lambda>_. 0) (PInt 5) = Inr slices \<and> length slices = 2 \<and> sorted_wrt (<) (map scheduled_time_ns slices)"
  using sample_twap_run twap_schedule_sound [OF sample_twap_new, of "\<lambda>_. 0" 5] by (fastforce simp: sample_twap_def)

theorem twap_even_split_witness:
  "twap_schedule sample_twap (\<lambda>_. 0) (PInt 5) = Inr [even_slice 3 5 1000000000 0, even_slice 3 5 1000000000 1]"
  using twap_even_split [OF sample_twap_even, of 5 "\<lambda>_. 0"] by (simp add: sample_twap_def upt_rec)

text \<open>Two bars with eight shares of forecast volume each, at half participation.\<close>

definition sample_vwap :: vwap where
  "sample_vwap = \<lparr>vw_quantity = Fin 10, vw_weights = [Fin (1 / 2), Fin (1 / 2)], max_participation_rate = Fin (1 / 2),
     smoothing_weight = Fin 1, interval_sec = Fin 1\<rparr>"

lemma sample_vwap_new: "vwap_new (PInt 10) [PInt 1, PInt 1] (PFloat (Fin (1 / 2))) (PInt 1) (PInt 1) = Inr sample_vwap"
  using rnd64_half py_sum_whole [of "[1, 1]"]
  by (simp add: vwap_new_def float_of_int_def int_overflows_def isfinite_def sample_vwap_def Let_def)

definition vwap_slice :: "int \<Rightarrow> int \<Rightarrow> scheduled_slice" where
  "vwap_slice i t = \<lparr>slice_index = i, sl_quantity = Fin 4, scheduled_time_ns = t, price_limit = None\<rparr>"

lemma sample_vwap_steps:
  "vwap_capped_step sample_vwap [Fin 8, Fin 8] None 5 1000000000 (Fin 10, []) 0 = Inr (Fin 6, [vwap_slice 0 5])"
  "vwap_capped_step sample_vwap [Fin 8, Fin 8] None 5 1000000000 (Fin 6, [vwap_slice 0 5]) 1 = Inr (Fin 2, [vwap_slice 0 5, vwap_slice 1 1000000005])"
proof -
  have sums: "py_sum [Fin (1 / 2), Fin (1 / 2)] = Fin 1" "py_sum [Fin (1 / 2)] = Fin (1 / 2)"
    using rnd64_half rnd64_dyadic [of "- 1" "- 1"] by (simp_all add: Let_def feq_def minus_float64_def zero_float64_def two_pow_def)
  show "vwap_capped_step sample_vwap [Fin 8, Fin 8] None 5 1000000000 (Fin 10, []) 0 = Inr (Fin 6, [vwap_slice 0 5])"
    "vwap_capped_step sample_vwap [Fin 8, Fin 8] None 5 1000000000 (Fin 6, [vwap_slice 0 5]) 1 = Inr (Fin 2, [vwap_slice 0 5, vwap_slice 1 1000000005])"
    using sums rnd64_half
    by (simp_all add: vwap_capped_step_def sample_vwap_def blended_def Let_def py_min_def make_slice_def scheduled_slice_new_def vwap_slice_def
        minus_float64_def zero_float64_def del: py_sum.simps)
qed

lemma sample_volumes: "mapR (check_nonneg BadSchedule) [PInt 8, PInt 8] = Inr [Fin 8, Fin 8]"
  by (simp add: float_of_int_def int_overflows_def isfinite_def)

lemma sample_vwap_run: "\<exists>slices. vwap_schedule sample_vwap (PInt 5) (Some [PInt 8, PInt 8]) None = Inr slices"
proof -
  have "to_ns (interval_sec sample_vwap) = Inr 1000000000" "[0..<length (vw_weights sample_vwap)] = [0, 1]" "vw_quantity sample_vwap = Fin 10"
    "length (vw_weights sample_vwap) = 2"
    by (simp_all add: sample_vwap_def to_ns_def upt_rec)
  then show ?thesis using sample_vwap_steps sample_volumes
    by (simp add: vwap_schedule_def check_start_def Let_def del: mapR.simps One_nat_def)
qed

theorem vwap_participation_witness:
  "\<exists>slices. vwap_schedule sample_vwap (PInt 5) (Some [PInt 8, PInt 8]) None = Inr slices \<and> slices \<noteq> [] \<and> schedule_ok 5 slices"
proof -
  have "to_ns (interval_sec sample_vwap) = Inr 1000000000" by (simp add: sample_vwap_def to_ns_def)
  then show ?thesis using sample_vwap_run vwap_participation [OF sample_vwap_new _ sample_volumes, of 5 None] by fastforce
qed

text \<open>A sine that is the identity and an exponential that vanishes make the trajectory linear.\<close>

definition sample_arrival :: arrival where
  "sample_arrival = \<lparr>ar_quantity = Fin 4, horizon_seconds = Fin 1, ar_volatility = Fin 1, risk_aversion = Fin 1, impact_coefficient = Fin 1,
     num_intervals = 2, baseline_volatility = None, kappa = Fin 1\<rparr>"

lemma sample_arrival_new:
  "arrival_new (\<lambda>v. Inr (v * v)) (\<lambda>x. x) (PInt 4) (PInt 1) (PInt 1) (PInt 1) (PInt 1) (PInt 2) PNone = Inr sample_arrival"
  by (simp add: arrival_new_def float_of_int_def int_overflows_def isfinite_def sample_arrival_def Let_def)

theorem arrival_trajectory_witness:
  "\<exists>traj. compute_inventory_trajectory (\<lambda>_. 0) (\<lambda>x. x) sample_arrival = Inr traj \<and> length traj = 3 \<and> last traj = 0"
  using arrival_trajectory [OF sample_arrival_new, of "\<lambda>x. x" "\<lambda>_. 0"]
  by (fastforce simp: sample_arrival_def zero_float64_def minus_float64_def)

lemma sample_arrival_run: "\<exists>slices. arrival_schedule (\<lambda>_. 0) (\<lambda>x. x) sample_arrival (PInt 5) = Inr slices"
proof -
  have "flit (1 / 10 ^ 6) \<le> rnd64 (1 / 2)" by (rule rnd64_mono) simp
  then have k: "\<not> Fin 1 < flit (1 / 10 ^ 6)" unfolding rnd64_half by (cases "flit (1 / 10 ^ 6)") (auto simp: less_float64_def)
  have t: "inventory_at (\<lambda>_. 0) (\<lambda>x. x) sample_arrival 1 = Inr (Fin 2)"
    using k rnd64_half by (simp add: inventory_at_def sample_arrival_def divR_def Let_def float_of_int_def minus_float64_def zero_float64_def)
  have "compute_inventory_trajectory (\<lambda>_. 0) (\<lambda>x. x) sample_arrival = Inr [Fin 4, Fin 2, 0]"
    using t by (simp add: compute_inventory_trajectory_def sample_arrival_def upt_rec py_max_def py_min_def zero_float64_def)
  then show ?thesis using rnd64_half py_sum_whole [of "[2, 2]"] sched_tol_pos
    by (simp add: arrival_schedule_def check_start_def sample_arrival_def arrival_step_def Let_def upt_rec float_of_int_def
        make_slice_def scheduled_slice_new_def check_mass_def minus_float64_def zero_float64_def less_float64_def)
qed

theorem arrival_schedule_sound_witness:
  "\<exists>slices. arrival_schedule (\<lambda>_. 0) (\<lambda>x. x) sample_arrival (PInt 5) = Inr slices \<and> schedule_ok 5 slices"
  using sample_arrival_run arrival_schedule_sound [OF sample_arrival_new, of "\<lambda>_. 0" "\<lambda>x. x" 5] by blast

end
