(* ===== verification/Execution_Service.thy ===== *)
theory Execution_Service
  imports Risk_Orchestrator Audit_Log Scheduling
begin

text \<open>
  \<^verbatim>\<open>src/src/quant/services/execution_service.py\<close>: the service that turns a request into a parent order, schedules it, and sends
  each slice through the risk orchestrator to the paper gateway, recording the fills on the parent order and the reports in
  the audit log.

  \<open>exec_world\<close> is what the coroutine shares with other tasks: the orchestrator, the gateways, the cancelled ids and the audit
  logger. While a slice waits for its time, other tasks run: \<open>others\<close> of the slice's environment is what they do to the world
  meanwhile, an arbitrary function. The routing of one slice is atomic. The request is validated by its schema, so its enumerations
  are datatypes and its numbers floats; \<^verbatim>\<open>float(text)\<close> and the draws of the random generator for a seed are parameters.
  Listener calls are returned as a trace (their exceptions are suppressed by the code), log messages are not modelled, nor are
  the two conversions to response objects.

  Lemmas: the parent order keeps its invariant whatever is reported, nothing is sent for a cancelled order or after a panic, also
  when either happens while a slice waits, and every fill that is reported is recorded as long as the audit log accepts the reports.
\<close>

section \<open>Requests\<close>

datatype algorithm = POISSON_TWAP | VOLUME_ADAPTIVE_VWAP | ARRIVAL_PRICE | DIRECT_MARKET

record order_request =
  rq_symbol :: string
  rq_side :: order_side
  rq_order_type :: order_type
  rq_quantity :: float64
  rq_price :: "float64 option"
  rq_algorithm :: algorithm
  rq_horizon_seconds :: float64
  rq_num_slices :: int
  rq_params :: "(string \<times> pyval) list"
  rq_historical :: "pyval list option"
  rq_realtime :: "pyval list option"

definition param :: "(string \<Rightarrow> float64 res) \<Rightarrow> order_request \<Rightarrow> string \<Rightarrow> float64 \<Rightarrow> float64 res" where
  "param parse rq key dflt = py_float parse (dict_get_default (rq_params rq) key (PFloat dflt))"

record math_env =
  parse_float :: "string \<Rightarrow> float64 res"
  seeded_draws :: "int option \<Rightarrow> nat \<Rightarrow> float64"
  m_square :: "float64 \<Rightarrow> float64 res"
  m_sqrt :: "float64 \<Rightarrow> float64"
  m_exp :: "float64 \<Rightarrow> float64"
  m_sinh :: "float64 \<Rightarrow> float64"

definition tenth :: float64 where
  "tenth = flit (1 / 10)"

definition generate_slices :: "math_env \<Rightarrow> order_request \<Rightarrow> int \<Rightarrow> scheduled_slice list res" where
  "generate_slices me rq t0 =
     (let n = max 1 (rq_num_slices rq); qty = PFloat (rq_quantity rq); par = param (parse_float me) rq
      in case rq_algorithm rq of
           POISSON_TWAP \<Rightarrow>
             bindR (par ''timing_jitter_pct'' (flit (20 / 100))) (\<lambda>jitter_t.
             bindR (par ''volume_jitter_pct'' (flit (15 / 100))) (\<lambda>jitter_q.
             bindR (twap_new qty (PInt n) (PFloat (py_max tenth (fdiv (rq_horizon_seconds rq) (float_of_int n)))) (PFloat jitter_q) (PFloat jitter_t)
                      (PFloat tenth) (dict_get_default (rq_params rq) ''rng_seed'' PNone)) (\<lambda>tw.
               twap_schedule tw (seeded_draws me (tw_seed tw)) (PInt t0))))
         | VOLUME_ADAPTIVE_VWAP \<Rightarrow>
             let hist = (case rq_historical rq of None \<Rightarrow> [] | Some vs \<Rightarrow> vs);
                 curve = (if hist = [] then replicate (nat n) (PFloat (Fin 1000)) else hist)
             in bindR (par ''blending_weight'' (flit (70 / 100))) (\<lambda>blend.
                bindR (par ''max_participation_rate'' (flit (15 / 100))) (\<lambda>cap.
                bindR (vwap_new qty curve (PFloat cap) (PFloat blend)
                         (PFloat (py_max tenth (fdiv (rq_horizon_seconds rq) (float_of_int (int (length curve))))))) (\<lambda>vw.
                  vwap_schedule vw (PInt t0) None (rq_realtime rq))))
         | ARRIVAL_PRICE \<Rightarrow>
             bindR (par ''volatility'' (flit (2 / 100))) (\<lambda>vol.
             bindR (par ''urgency_parameter'' (Fin 1)) (\<lambda>urgency.
             bindR (par ''impact_coefficient'' (flit (1 / 10))) (\<lambda>coeff.
             bindR (arrival_new (m_square me) (m_sqrt me) qty (PFloat (rq_horizon_seconds rq)) (PFloat vol) (PFloat urgency) (PFloat coeff)
                      (PInt n) PNone) (\<lambda>ac.
               arrival_schedule (m_exp me) (m_sinh me) ac (PInt t0)))))
         | DIRECT_MARKET \<Rightarrow>
             bindR (scheduled_slice_new (PInt 0) qty (PInt t0) (case rq_price rq of None \<Rightarrow> PNone | Some p \<Rightarrow> PFloat p)) (\<lambda>sl. Inr [sl]))"

section \<open>Executing slices\<close>

record exec_world =
  ew_oc :: "paper_gateway orchestrator"
  ew_gws :: "nat \<Rightarrow> paper_gateway"
  ew_cancelled :: "string list"
  ew_audit :: "audit_logger option"

text \<open>Clock readings and fresh ids of one slice, and what other tasks do while it waits.\<close>

record slice_env =
  now_start :: int
  now_check :: int
  now_fill :: int
  route_now :: int
  gw_env :: env
  uids :: "nat \<Rightarrow> string"
  held_symbols :: "string list"
  others :: "exec_world \<Rightarrow> exec_world"

datatype flow = Next | Stop | Raised exn

definition fill_quantity :: "execution_report \<Rightarrow> float64" where
  "fill_quantity r = (if last_quantity r > 0 then last_quantity r else if exec_type r = FILLED then cum_quantity r else 0)"

definition fill_price :: "parent_order \<Rightarrow> execution_report \<Rightarrow> float64" where
  "fill_price po r = (if last_price r > 0 then last_price r else if rep_average_price r \<noteq> 0 then rep_average_price r else arrival_price po)"

definition fill_args :: "int \<Rightarrow> parent_order \<Rightarrow> execution_report \<Rightarrow> child_args" where
  "fill_args now po r =
     \<lparr>ca_child_id = PStr (rep_cl_ord_id r), ca_quantity = PFloat (fill_quantity r), ca_price = PFloat (fill_price po r), ca_fee = PFloat (fee r),
      ca_timestamp_ns = PInt (if timestamp_ns r \<noteq> 0 then timestamp_ns r else now), ca_spread_slippage = PFloat 0\<rparr>"

text \<open>The loop over the reports of a slice; an exception ends it and is swallowed by the caller.\<close>

fun record_reports :: "int \<Rightarrow> parent_order \<Rightarrow> audit_logger option \<Rightarrow> execution_report list \<Rightarrow> parent_order \<times> audit_logger option \<times> unit res" where
  "record_reports now po lg [] = (po, lg, Inr ())"
| "record_reports now po lg (r # rs) =
     (case (if fill_quantity r > 0 then record_child_fill po (fill_args now po r) else (po, Inr ())) of
        (po1, Inl e) \<Rightarrow> (po1, lg, Inl e)
      | (po1, Inr _) \<Rightarrow>
          (case lg of
             None \<Rightarrow> record_reports now po1 None rs
           | Some l \<Rightarrow>
               (case log_report l r of
                  (l', Inl e) \<Rightarrow> (po1, Some l', Inl e)
                | (l', Inr _) \<Rightarrow> record_reports now po1 (Some l') rs)))"

definition child_id :: "parent_order \<Rightarrow> scheduled_slice \<Rightarrow> string" where
  "child_id po sl = parent_id po @ ''-slice-'' @ decimal (nat (slice_index sl))"

definition type_val :: "order_type \<Rightarrow> pyval" where
  "type_val ot = PEnum ''OrderType'' (case ot of MARKET \<Rightarrow> ''MARKET'' | LIMIT \<Rightarrow> ''LIMIT'' | STOP_LIMIT \<Rightarrow> ''STOP_LIMIT'' | PEGGED \<Rightarrow> ''PEGGED'')"

definition slice_order :: "order_type \<Rightarrow> float64 option \<Rightarrow> parent_order \<Rightarrow> scheduled_slice \<Rightarrow> order res" where
  "slice_order ot limit_px po sl =
     (let px = (case price_limit sl of Some p \<Rightarrow> Some p | None \<Rightarrow> limit_px)
      in order_new ((order_defaults (PStr (child_id po sl)) (PStr (parent_symbol po)) (side_val (parent_side po)) (type_val ot)
           (PFloat (sl_quantity sl)))\<lparr>a_price := (case px of None \<Rightarrow> PNone | Some p \<Rightarrow> PFloat p)\<rparr>))"

text \<open>The gateway of the service is connected and given a first price of the symbol when it has none.\<close>

definition prime_gateway :: "env \<Rightarrow> paper_gateway \<Rightarrow> string \<Rightarrow> float64 \<Rightarrow> paper_gateway \<times> unit res" where
  "prime_gateway ev gw s ref_price =
     (let gw1 = (if is_connected gw then gw else connect gw)
      in if \<not> dict_has (market_prices gw1) s \<and> ref_price > 0
         then (case set_market_price ev gw1 (PStr s) (PFloat ref_price) of (gw2, Inl e) \<Rightarrow> (gw2, Inl e) | (gw2, Inr _) \<Rightarrow> (gw2, Inr ()))
         else (gw1, Inr ()))"

definition blocked :: "exec_world \<Rightarrow> parent_order \<Rightarrow> bool" where
  "blocked wd po \<longleftrightarrow> parent_id po \<in> set (ew_cancelled wd) \<or> ks_is_active (oc_kill_switch (ew_oc wd))"

text \<open>The wait for the scheduled time.\<close>

definition await_slice :: "float64 option \<Rightarrow> slice_env \<Rightarrow> exec_world \<Rightarrow> scheduled_slice \<Rightarrow> exec_world res" where
  "await_slice max_delay se wd sl =
     (if scheduled_time_ns sl > now_start se
      then bindR (elapsed_seconds (scheduled_time_ns sl - now_start se)) (\<lambda>raw.
             let delay_s = (case max_delay of None \<Rightarrow> raw | Some d \<Rightarrow> py_min d raw)
             in Inr (if delay_s > 0 then others se wd else wd))
      else Inr wd)"

text \<open>The test of the horizon of the parent order.\<close>

definition past_horizon :: "slice_env \<Rightarrow> parent_order \<Rightarrow> bool res" where
  "past_horizon se po =
     (if max_duration_seconds po > 0
      then bindR (elapsed_seconds (now_check se - start_time_ns po)) (\<lambda>el. Inr (el > max_duration_seconds po))
      else Inr False)"

text \<open>Routing of a child order and recording of its reports; every exception is swallowed.\<close>

definition send_child :: "slice_env \<Rightarrow> exec_world \<Rightarrow> parent_order \<Rightarrow> order \<Rightarrow> float64 \<Rightarrow> consolidated_quote option \<Rightarrow> exec_world \<times> parent_order" where
  "send_child se wd po od ref_price quote =
     (case route_order is_connected (paper_api (gw_env se)) (uids se) (route_now se) (held_symbols se) (ew_oc wd) (ew_gws wd) od None
             (PFloat ref_price) quote of
        (oc, gws, Inl e) \<Rightarrow> (wd\<lparr>ew_oc := oc, ew_gws := gws\<rparr>, po)
      | (oc, gws, Inr res) \<Rightarrow>
          (case record_reports (now_fill se) po (ew_audit wd) (case res of Single r \<Rightarrow> [r] | Many rs \<Rightarrow> rs) of
             (po', lg, _) \<Rightarrow> (wd\<lparr>ew_oc := oc, ew_gws := gws, ew_audit := lg\<rparr>, po')))"

definition execute_slice ::
    "nat \<Rightarrow> float64 option \<Rightarrow> order_type \<Rightarrow> float64 option \<Rightarrow> consolidated_quote option \<Rightarrow> slice_env \<Rightarrow> exec_world \<Rightarrow> parent_order \<Rightarrow>
     scheduled_slice \<Rightarrow> exec_world \<times> parent_order \<times> flow" where
  "execute_slice gref max_delay ot limit_px quote se wd po sl =
     (if blocked wd po \<or> is_completed po then (wd, po, Stop)
      else
        case await_slice max_delay se wd sl of
          Inl e \<Rightarrow> (wd, po, Raised e)
        | Inr wd1 \<Rightarrow>
            (case past_horizon se po of
               Inl e \<Rightarrow> (wd1, po, Raised e)
             | Inr late \<Rightarrow>
                 if late \<or> blocked wd1 po then (wd1, po, Stop)
                 else
                   case slice_order ot limit_px po sl of
                     Inl e \<Rightarrow> (wd1, po, Raised e)
                   | Inr od \<Rightarrow>
                       let ref_price = (case price od of
                              Some p \<Rightarrow> p
                            | None \<Rightarrow> (case quote of Some q \<Rightarrow> midpoint q | None \<Rightarrow> arrival_price po))
                       in case prime_gateway (gw_env se) (ew_gws wd1 gref) (symbol od) ref_price of
                            (gw, Inl e) \<Rightarrow> (wd1\<lparr>ew_gws := (ew_gws wd1)(gref := gw)\<rparr>, po, Raised e)
                          | (gw, Inr _) \<Rightarrow>
                              (case send_child se (wd1\<lparr>ew_gws := (ew_gws wd1)(gref := gw)\<rparr>) po od ref_price quote of
                                 (wd2, po') \<Rightarrow> (wd2, po', Next))))"

fun execute_slices ::
    "nat \<Rightarrow> float64 option \<Rightarrow> order_type \<Rightarrow> float64 option \<Rightarrow> consolidated_quote option \<Rightarrow> exec_world \<Rightarrow> parent_order \<Rightarrow>
     (slice_env \<times> scheduled_slice) list \<Rightarrow> exec_world \<times> parent_order \<times> string res" where
  "execute_slices gref max_delay ot limit_px quote wd po [] =
     (wd, po, Inr (if is_completed po then ''COMPLETED'' else ''UPDATED''))"
| "execute_slices gref max_delay ot limit_px quote wd po ((se, sl) # ss) =
     (case execute_slice gref max_delay ot limit_px quote se wd po sl of
        (wd', po', Next) \<Rightarrow> execute_slices gref max_delay ot limit_px quote wd' po' ss
      | (wd', po', Stop) \<Rightarrow> (wd', po', Inr (if is_completed po' then ''COMPLETED'' else ''UPDATED''))
      | (wd', po', Raised e) \<Rightarrow> (wd', po', Inl e))"

section \<open>The service\<close>

record exec_service =
  sv_gateway :: nat
  sv_max_slice_delay :: "float64 option"
  sv_orders :: "(string \<times> parent_order) list"

text \<open>The benchmark price of a new order; a quote or a limit price becomes the market price of the gateway.\<close>

definition hundred :: float64 where
  "hundred = Fin 100"

definition truthy_price :: "float64 option \<Rightarrow> float64 option" where
  "truthy_price x = (if x = Some 0 then None else x)"

definition benchmark_price ::
    "env \<Rightarrow> exec_service \<Rightarrow> exec_world \<Rightarrow> order_request \<Rightarrow> consolidated_quote option \<Rightarrow> exec_world \<times> float64 res" where
  "benchmark_price ev sv wd rq quote =
     (let g = sv_gateway sv;
          quoted = (\<lambda>p. case set_market_price ev (ew_gws wd g) (PStr (rq_symbol rq)) (PFloat p) of
                          (gw, Inl e) \<Rightarrow> (wd\<lparr>ew_gws := (ew_gws wd)(g := gw)\<rparr>, Inl e)
                        | (gw, Inr _) \<Rightarrow> (wd\<lparr>ew_gws := (ew_gws wd)(g := gw)\<rparr>, Inr p))
      in case quote of
           Some q \<Rightarrow> quoted (midpoint q)
         | None \<Rightarrow>
             (case rq_price rq of
                Some p \<Rightarrow> quoted p
              | None \<Rightarrow>
                  (let px = (case truthy_price (dict_get (current_prices (oc_state (ew_oc wd))) (rq_symbol rq)) of
                               Some p \<Rightarrow> Some p
                             | None \<Rightarrow> dict_get (market_prices (ew_gws wd g)) (rq_symbol rq))
                   in (wd, Inr (case px of Some p \<Rightarrow> if p > 0 then p else hundred | None \<Rightarrow> hundred)))))"

text \<open>Creation of the parent order and its slices, common to both submissions; \<open>oid\<close> is the fresh order id.\<close>

definition open_parent ::
    "math_env \<Rightarrow> env \<Rightarrow> string \<Rightarrow> int \<Rightarrow> exec_service \<Rightarrow> exec_world \<Rightarrow> order_request \<Rightarrow> consolidated_quote option \<Rightarrow>
     exec_service \<times> exec_world \<times> (parent_order \<times> scheduled_slice list) res" where
  "open_parent me ev oid t0 sv wd rq quote =
     (case benchmark_price ev sv wd rq quote of
        (wd1, Inl e) \<Rightarrow> (sv, wd1, Inl e)
      | (wd1, Inr ap) \<Rightarrow>
          (case bindR (generate_slices me rq t0) (\<lambda>slices.
                  bindR (parent_order_new
                    \<lparr>pa_parent_id = PStr oid, pa_symbol = PStr (rq_symbol rq), pa_side = side_val (rq_side rq),
                     pa_total_quantity = PFloat (rq_quantity rq), pa_arrival_price = PFloat ap, pa_decision_price = PFloat ap,
                     pa_max_duration_seconds = PFloat (rq_horizon_seconds rq), pa_start_time_ns = PInt t0\<rparr>) (\<lambda>po. Inr (po, slices))) of
             Inl e \<Rightarrow> (sv, wd1, Inl e)
           | Inr (po, slices) \<Rightarrow> (sv\<lparr>sv_orders := dict_set (sv_orders sv) oid po\<rparr>, wd1, Inr (po, slices))))"

text \<open>\<^verbatim>\<open>submit_parent_order\<close> leaves the slices to a task of their own.\<close>

definition submit_parent_order ::
    "math_env \<Rightarrow> env \<Rightarrow> string \<Rightarrow> int \<Rightarrow> exec_service \<Rightarrow> exec_world \<Rightarrow> order_request \<Rightarrow> consolidated_quote option \<Rightarrow>
     exec_service \<times> exec_world \<times> (parent_order \<times> scheduled_slice list) res" where
  "submit_parent_order me ev oid t0 sv wd rq quote =
     (if ks_is_active (oc_kill_switch (ew_oc wd)) then (sv, wd, Inl (Sor InvalidSORInputException))
      else open_parent me ev oid t0 sv wd rq quote)"

definition submit_parent_order_sync ::
    "math_env \<Rightarrow> env \<Rightarrow> (nat \<Rightarrow> slice_env) \<Rightarrow> string \<Rightarrow> int \<Rightarrow> exec_service \<Rightarrow> exec_world \<Rightarrow> order_request \<Rightarrow> consolidated_quote option \<Rightarrow>
     exec_service \<times> exec_world \<times> parent_order res" where
  "submit_parent_order_sync me ev ses oid t0 sv wd rq quote =
     (case open_parent me ev oid t0 sv wd rq quote of
        (sv1, wd1, Inl e) \<Rightarrow> (sv1, wd1, Inl e)
      | (sv1, wd1, Inr (po, slices)) \<Rightarrow>
          (case execute_slices (sv_gateway sv1) (sv_max_slice_delay sv1) (rq_order_type rq) (rq_price rq) quote wd1 po
                  (zip (map ses [0..<length slices]) slices) of
             (wd2, po', r) \<Rightarrow>
               (sv1\<lparr>sv_orders := dict_set (sv_orders sv1) oid po'\<rparr>, wd2, case r of Inl e \<Rightarrow> Inl e | Inr _ \<Rightarrow> Inr po')))"

definition get_order :: "exec_service \<Rightarrow> string \<Rightarrow> parent_order option" where
  "get_order sv oid = dict_get (sv_orders sv) oid"

definition list_orders :: "exec_service \<Rightarrow> string option \<Rightarrow> bool option \<Rightarrow> int \<Rightarrow> int \<Rightarrow> parent_order list" where
  "list_orders sv sy done_only limit_n offset =
     (let n = max 1 (min 500 limit_n); k = max 0 offset;
          results = filter (\<lambda>po. (case sy of None \<Rightarrow> True | Some s \<Rightarrow> parent_symbol po = s) \<and>
                                 (case done_only of None \<Rightarrow> True | Some b \<Rightarrow> is_completed po = b)) (rev (map snd (sv_orders sv)))
      in take (nat n) (drop (nat k) results))"

text \<open>The result tells whether the order was marked; listeners are told \<^verbatim>\<open>CANCELLED\<close> then.\<close>

definition cancel_parent :: "exec_service \<Rightarrow> exec_world \<Rightarrow> string \<Rightarrow> exec_world \<times> bool" where
  "cancel_parent sv wd oid =
     (case dict_get (sv_orders sv) oid of
        None \<Rightarrow> (wd, False)
      | Some po \<Rightarrow> if is_completed po then (wd, False) else (wd\<lparr>ew_cancelled := List.insert oid (ew_cancelled wd)\<rparr>, True))"

definition get_shortfall_report :: "exec_service \<Rightarrow> string \<Rightarrow> float64 option \<Rightarrow> shortfall_report option res" where
  "get_shortfall_report sv oid terminal =
     (case dict_get (sv_orders sv) oid of
        None \<Rightarrow> Inr None
      | Some po \<Rightarrow>
          (let px = (case terminal of Some t \<Rightarrow> t | None \<Rightarrow> if parent_filled po > 0 then average_execution_price po else arrival_price po)
           in bindR (compute_implementation_shortfall po (PFloat px)) (\<lambda>r. Inr (Some r))))"

section \<open>The parent order\<close>

text \<open>What never changes of a parent order, and how its fills grow.\<close>

definition grown :: "parent_order \<Rightarrow> parent_order \<Rightarrow> bool" where
  "grown po po' \<longleftrightarrow>
     parent_id po' = parent_id po \<and> parent_symbol po' = parent_symbol po \<and> parent_side po' = parent_side po \<and>
     total_quantity po' = total_quantity po \<and> arrival_price po' = arrival_price po \<and> start_time_ns po' = start_time_ns po \<and>
     (\<exists>fs. child_fills po' = child_fills po @ fs)"

lemma grown_refl: "grown po po"
  by (simp add: grown_def)

lemma grown_trans: "grown a b \<Longrightarrow> grown b c \<Longrightarrow> grown a c"
  by (auto simp: grown_def)

lemma record_grown: "grown po (fst (record_child_fill po a))"
  by (cases rule: record_child_fill_cases [of po a]) (auto simp: grown_def)

lemma record_reports_inv:
  assumes "parent_inv po"
  shows "parent_inv (fst (record_reports now po lg rs)) \<and> grown po (fst (record_reports now po lg rs))"
  using assms
proof (induction rs arbitrary: po lg)
  case (Cons r rs)
  obtain po1 x where eq: "(if fill_quantity r > 0 then record_child_fill po (fill_args now po r) else (po, Inr ())) = (po1, x)" by fastforce
  then have p: "parent_inv po1" "grown po po1"
    using Cons.prems record_child_fill_inv [of po "fill_args now po r"] record_grown [of po "fill_args now po r"]
    by (auto simp: grown_refl split: if_splits)
  have rest: "parent_inv (fst (record_reports now po1 lg' rs)) \<and> grown po (fst (record_reports now po1 lg' rs))" for lg'
    using Cons.IH [OF p(1)] grown_trans [OF p(2)] by blast
  show ?case using rest p
    by (auto simp only: record_reports.simps eq prod.case split: sum.splits option.splits prod.splits) (auto split: sum.splits)
qed (simp add: grown_refl)

lemma send_child_inv:
  assumes "parent_inv po" "send_child se wd po od rp quote = (wd', po')"
  shows "parent_inv po' \<and> grown po po'"
proof -
  have "po' = po \<or> (\<exists>now lg rs. po' = fst (record_reports now po lg rs))"
    using assms(2) by (simp add: send_child_def split: prod.splits sum.splits) (metis fst_conv)
  then show ?thesis using record_reports_inv [OF assms(1)] assms(1) grown_refl by metis
qed

lemma execute_slice_inv:
  assumes "parent_inv po" "execute_slice gref md ot lp quote se wd po sl = (wd', po', f)"
  shows "parent_inv po' \<and> grown po po'"
  using assms
  by (auto simp: execute_slice_def Let_def grown_refl split: if_splits sum.splits prod.splits dest: send_child_inv)

lemma execute_slices_inv:
  "parent_inv po \<Longrightarrow> execute_slices gref md ot lp quote wd po ss = (wd', po', r) \<Longrightarrow> parent_inv po' \<and> grown po po'"
proof (induction ss arbitrary: wd po)
  case (Cons p ss)
  obtain se sl where p: "p = (se, sl)" by (cases p)
  obtain wd1 po1 f where e: "execute_slice gref md ot lp quote se wd po sl = (wd1, po1, f)" by (metis prod_cases3)
  have i: "parent_inv po1" "grown po po1" using execute_slice_inv [OF Cons.prems(1) e] by simp_all
  show ?case
  proof (cases f)
    case Next
    then show ?thesis using Cons.IH [OF i(1)] Cons.prems(2) grown_trans [OF i(2)] by (auto simp: p e)
  qed (use Cons.prems(2) i in \<open>auto simp: p e\<close>)
qed (simp add: grown_refl)

text \<open>C4: From request to parent order: whatever the gateways report, whatever other tasks do meanwhile and however the routing
  fails, the parent order that a synchronous submission returns is for exactly the requested symbol, side and quantity, is stored under its
  id, and satisfies the invariant of parent orders: its fills add up to the filled quantity and exceed the request by no more than
  the tolerance.\<close>

theorem submission_mass_conservation:
  assumes "submit_parent_order_sync me ev ses oid t0 sv wd rq quote = (sv', wd', Inr po)" and "is_double (rq_quantity rq)"
  shows "parent_inv po \<and> total_quantity po = rq_quantity rq \<and> parent_side po = rq_side rq \<and> parent_symbol po = str_strip (rq_symbol rq) \<and>
    get_order sv' oid = Some po \<and> \<not> rq_quantity rq + mass_tol < parent_filled po \<and>
    parent_filled po = foldl (\<lambda>x f. x + cf_quantity f) 0 (child_fills po)"
proof -
  obtain sv1 wd1 po0 slices r where op: "open_parent me ev oid t0 sv wd rq quote = (sv1, wd1, Inr (po0, slices))"
    and ex: "execute_slices (sv_gateway sv1) (sv_max_slice_delay sv1) (rq_order_type rq) (rq_price rq) quote wd1 po0
      (zip (map ses [0..<length slices]) slices) = (wd', po, Inr r)"
    and sv': "sv' = sv1\<lparr>sv_orders := dict_set (sv_orders sv1) oid po\<rparr>"
    using assms(1) by (auto simp: submit_parent_order_sync_def split: prod.splits sum.splits)
  obtain a where a: "parent_order_new a = Inr po0" "pa_total_quantity a = PFloat (rq_quantity rq)" "pa_symbol a = PStr (rq_symbol rq)"
    "pa_side a = side_val (rq_side rq)"
    using op by (auto simp: open_parent_def bindR_Inr_iff split: prod.splits sum.splits)
  have "parent_inv po0" using parent_new_inv [OF a(1)] assms(2) by (simp add: a(2))
  then have i: "parent_inv po" "grown po0 po" using execute_slices_inv [OF _ ex] by simp_all
  have "total_quantity po0 = rq_quantity rq" "parent_side po0 = rq_side rq" "parent_symbol po0 = str_strip (rq_symbol rq)"
    using a by (auto simp: parent_order_new_def bindR_Inr_iff check_member_def side_val_def order_side_of_def check_nonblank_def
        split: order_side.splits if_splits dest: check_number_PFloat_Inr)
  then show ?thesis using i parent_sums(1,2) [OF i(1)] by (auto simp: grown_def get_order_def sv' dict_get_set)
qed

section \<open>Stopping\<close>

lemma elapsed_positive:
  assumes "0 < d" "d < 2 ^ 53"
  shows "\<exists>x. elapsed_seconds d = Inr x \<and> 0 < x"
proof -
  have f: "float_of_int d = Fin (of_int d)" using assms rnd64_of_int [of d] by (simp add: float_of_int_def)
  have "two_pow (- 1022) \<le> 1 / 10 ^ 9" by (rule two_pow_tiny) simp
  then obtain e where e: "rnd64 (1 / 10 ^ 9) = Fin e" "0 < e" using flit_power_ten [of 9] by auto
  have "rnd64 (1 / 10 ^ 9) \<le> rnd64 (of_int d / 10 ^ 9)" using assms(1) by (intro rnd64_mono divide_right_mono) auto
  then have "0 < rnd64 (of_int d / 10 ^ 9)" using e by (cases "rnd64 (of_int d / 10 ^ 9)") (auto simp: less_float64_def zero_float64_def)
  then show ?thesis using f by (simp add: elapsed_seconds_def int_overflows_def isfinite_def)
qed

text \<open>C5: Cancellation and panic stop an order: when the order is cancelled or the kill switch is active before a slice, or becomes so while
  the slice waits for its time, then neither that slice nor any later one is sent: gateways, orchestrator and audit log are exactly as the other
  tasks left them, and the parent order has no new fill.\<close>

theorem cancelled_order_sends_nothing:
  assumes "execute_slices gref md ot lp quote wd po ((se, sl) # ss) = (wd', po', r)"
    and "blocked wd po \<or> \<not> is_completed po \<and> md = None \<and> 0 < scheduled_time_ns sl - now_start se \<and>
      scheduled_time_ns sl - now_start se < 2 ^ 53 \<and> blocked (others se wd) po"
  shows "po' = po \<and> wd' = (if blocked wd po then wd else others se wd)"
proof (cases "blocked wd po")
  case True
  then show ?thesis using assms(1) by (simp add: execute_slice_def)
next
  case False
  then obtain x where x: "elapsed_seconds (scheduled_time_ns sl - now_start se) = Inr x" "0 < x" "scheduled_time_ns sl > now_start se"
    using assms(2) elapsed_positive [of "scheduled_time_ns sl - now_start se"] by auto
  have "await_slice md se wd sl = Inr (others se wd)" using x False assms(2) by (simp add: await_slice_def)
  then show ?thesis using False assms by (auto simp: execute_slice_def split: sum.splits if_splits)
qed

section \<open>Recording\<close>

definition audit_room :: "audit_logger option \<Rightarrow> nat \<Rightarrow> bool" where
  "audit_room lg n \<longleftrightarrow> (case lg of None \<Rightarrow> True | Some l \<Rightarrow> length (queue l) + n \<le> max_queue_size l)"

text \<open>A complete fill of a whole quantity \<open>k\<close> as the gateway reports it.\<close>

definition fill_report :: "int \<Rightarrow> execution_report \<Rightarrow> int \<Rightarrow> bool" where
  "fill_report start r k \<longleftrightarrow>
     last_quantity r = whole k \<and> 1 \<le> k \<and> pos_finite (last_price r) \<and> nonneg_finite (fee r) \<and>
     str_strip (rep_cl_ord_id r) \<noteq> [] \<and> start \<le> timestamp_ns r \<and> 0 < timestamp_ns r"

lemma record_fill_report:
  assumes "fill_report (start_time_ns po) r k" "parent_filled po = whole f" "total_quantity po = whole T" "0 \<le> f" "f + k \<le> T" "T < 2 ^ 53"
  shows "\<exists>cf. record_child_fill po (fill_args now po r) =
      (po\<lparr>child_fills := child_fills po @ [cf], parent_filled := whole (f + k),
         cum_notional := cum_notional po + cf_quantity cf * cf_price cf, total_fees := total_fees po + cf_fee cf,
         cum_spread_slippage := cum_spread_slippage po + cf_spread_slippage cf\<rparr>, Inr ()) \<and> cf_quantity cf = whole k \<and> 0 < fill_quantity r"
proof -
  note fr = assms(1) [unfolded fill_report_def]
  have q: "fill_quantity r = whole k" "0 < fill_quantity r" using fr by (auto simp: fill_quantity_def less_float64_def zero_float64_def)
  obtain p where p: "last_price r = Fin p" "0 < p" using fr by (cases "last_price r") (auto simp: pos_finite_def isfinite_def)
  obtain c where c: "fee r = Fin c" "0 \<le> c" using fr by (cases "fee r") (auto simp: nonneg_finite_def isfinite_def)
  have new: "child_fill_new (fill_args now po r) = Inr \<lparr>cf_child_id = rep_cl_ord_id r, cf_quantity = whole k, cf_price = Fin p,
      cf_fee = Fin c, cf_timestamp_ns = timestamp_ns r, cf_spread_slippage = 0\<rparr>"
    using fr p c q by (simp add: child_fill_new_def fill_args_def fill_price_def check_nonblank_def less_float64_def zero_float64_def)
  have sum: "whole f + whole k = whole (f + k)" using assms fr by (intro whole_add) auto
  have "rnd64 (of_int T) = whole T" using assms fr by (intro rnd64_of_int) auto
  then have "whole T \<le> whole T + mass_tol" using float_le_add [of "whole T" mass_tol] flit_power_ten [of 7] by (auto simp: mass_tol_def)
  moreover have "whole (f + k) \<le> whole T" using assms(5) by (simp only: less_eq_float64.simps of_int_le_iff)
  ultimately have "whole (f + k) \<le> whole T + mass_tol" by (rule float_le_trans [rotated])
  then have "\<not> whole T + mass_tol < whole (f + k)" by (simp add: less_float64_def)
  then show ?thesis using new sum assms(2,3) fr q
    by (intro exI [of _ "\<lparr>cf_child_id = rep_cl_ord_id r, cf_quantity = whole k, cf_price = Fin p, cf_fee = Fin c,
      cf_timestamp_ns = timestamp_ns r, cf_spread_slippage = 0\<rparr>"]) (simp add: record_child_fill_def)
qed

lemma completed_whole:
  assumes "total_quantity po = whole T" "parent_filled po = whole f" "0 \<le> f" "f \<le> T" "T < 2 ^ 53"
  shows "is_completed po \<longleftrightarrow> f = T"
proof -
  have d: "whole T - whole f = whole (T - f)" using assms by (intro whole_diff) auto
  have "0 \<le> mass_tol" using flit_power_ten [of 7] by (auto simp: mass_tol_def zero_float64_def)
  then show ?thesis using d mass_tol_below_one [of "T - f"] assms(4)
    by (cases "f = T") (auto simp: is_completed_def parent_leaves_def assms(1,2) Let_def zero_float64_def)
qed


text \<open>A full audit queue loses fills: the exception of the log call ends the loop, so that of several reports only the first is recorded on the
  parent order although the gateway has executed them all.\<close>

theorem full_audit_log_drops_fills:
  assumes "max_queue_size l \<le> length (queue l)" and "fill_quantity r > 0" and "record_child_fill po (fill_args now po r) = (po1, Inr ())"
  shows "record_reports now po (Some l) (r # rs) = (po1, Some l, Inl (PyErr QueueFull))"
  using assms by (simp add: log_report_def)

text \<open>The participation cap has no effect in the service, which passes no volume forecast.\<close>

theorem vwap_cap_has_no_effect:
  "vwap_schedule (vw\<lparr>max_participation_rate := r\<rparr>) t0 None rt = vwap_schedule vw t0 None rt'"
proof -
  have "vwap_free_step (vw\<lparr>max_participation_rate := r\<rparr>) = vwap_free_step vw"
    by (intro ext) (simp add: vwap_free_step_def)
  then show ?thesis by (simp add: vwap_schedule_def vwap_free_def Let_def cong: if_cong)
qed

section \<open>Concrete runs\<close>

definition sample_world :: "kill_switch_state \<Rightarrow> exec_world" where
  "sample_world st = \<lparr>ew_oc = sample_orchestrator st None, ew_gws = (\<lambda>_. sample_gw 2000 [] sample_order), ew_cancelled = [], ew_audit = None\<rparr>"

definition direct_request :: order_request where
  "direct_request = \<lparr>rq_symbol = ''ZZZ'', rq_side = BUY, rq_order_type = MARKET, rq_quantity = Fin 10, rq_price = None, rq_algorithm = DIRECT_MARKET,
     rq_horizon_seconds = Fin 60, rq_num_slices = 1, rq_params = [], rq_historical = None, rq_realtime = None\<rparr>"

definition sample_service :: exec_service where
  "sample_service = \<lparr>sv_gateway = 0, sv_max_slice_delay = None, sv_orders = []\<rparr>"

definition direct_parent :: parent_order where
  "direct_parent = \<lparr>parent_id = ''P1'', parent_symbol = ''ZZZ'', parent_side = BUY, total_quantity = Fin 10, arrival_price = hundred,
     decision_price = hundred, max_duration_seconds = Fin 60, start_time_ns = 1, child_fills = [], parent_filled = 0, cum_notional = 0, total_fees = 0,
     cum_spread_slippage = 0\<rparr>"

definition direct_slice :: scheduled_slice where
  "direct_slice = \<lparr>slice_index = 0, sl_quantity = Fin 10, scheduled_time_ns = 1, price_limit = None\<rparr>"

lemma direct_price: "benchmark_price ev sample_service (sample_world st) direct_request None = (sample_world st, Inr hundred)"
  by (simp add: benchmark_price_def sample_service_def sample_world_def direct_request_def sample_orchestrator_def flat_state_def sample_gw_def
      truthy_price_def)

lemma direct_slices: "generate_slices me direct_request 1 = Inr [direct_slice]"
  by (simp add: generate_slices_def direct_request_def scheduled_slice_new_def direct_slice_def Let_def)

lemma direct_open:
  "open_parent me ev ''P1'' 1 sample_service (sample_world st) direct_request None =
     (sample_service\<lparr>sv_orders := [(''P1'', direct_parent)]\<rparr>, sample_world st, Inr (direct_parent, [direct_slice]))"
  unfolding open_parent_def direct_price direct_slices
  by (simp add: direct_request_def parent_order_new_def hundred_def check_nonblank_def check_member_def side_val_def order_side_of_def
      str_strip_def is_space_def direct_parent_def sample_service_def)

lemma panic_blocks: "blocked (sample_world PANIC_TRIGGERED) po"
  by (simp add: blocked_def sample_world_def sample_orchestrator_def sample_switch_def ks_is_active_def)

definition sample_math :: math_env where
  "sample_math = \<lparr>parse_float = (\<lambda>_. Inl (PyErr ValueError)), seeded_draws = (\<lambda>_ _. 0), m_square = (\<lambda>x. Inr (x * x)), m_sqrt = (\<lambda>x. x),
     m_exp = (\<lambda>_. 0), m_sinh = (\<lambda>x. x)\<rparr>"

definition cancelling_env :: slice_env where
  "cancelling_env = \<lparr>now_start = 0, now_check = 1, now_fill = 1, route_now = 1, gw_env = sample_env, uids = (\<lambda>_. ''u''), held_symbols = [],
     others = (\<lambda>wd. wd\<lparr>ew_cancelled := [''P1'']\<rparr>)\<rparr>"

theorem submission_mass_conservation_witness:
  "\<exists>sv wd po. submit_parent_order_sync sample_math sample_env (\<lambda>_. cancelling_env) ''P1'' 1 sample_service (sample_world PANIC_TRIGGERED) direct_request None =
     (sv, wd, Inr po) \<and> parent_inv po \<and> total_quantity po = Fin 10"
proof -
  have "\<exists>sv wd po. submit_parent_order_sync sample_math sample_env (\<lambda>_. cancelling_env) ''P1'' 1 sample_service (sample_world PANIC_TRIGGERED) direct_request None =
     (sv, wd, Inr po)"
    by (simp add: submit_parent_order_sync_def direct_open execute_slice_def panic_blocks)
  moreover have "is_double (rq_quantity direct_request)" "rq_quantity direct_request = Fin 10" by (simp_all add: direct_request_def)
  ultimately show ?thesis using submission_mass_conservation by metis
qed

theorem cancelled_order_sends_nothing_witness:
  "\<exists>r. execute_slices 0 None MARKET None None (sample_world ARMED_STANDBY) direct_parent [(cancelling_env, direct_slice)] =
     ((sample_world ARMED_STANDBY)\<lparr>ew_cancelled := [''P1'']\<rparr>, direct_parent, r)"
proof -
  obtain wd po r where e: "execute_slices 0 None MARKET None None (sample_world ARMED_STANDBY) direct_parent [(cancelling_env, direct_slice)] = (wd, po, r)"
    by (metis prod_cases3)
  have "\<not> is_completed direct_parent"
    using completed_whole [of direct_parent 10 0] by (simp add: direct_parent_def zero_float64_def)
  moreover have "\<not> blocked (sample_world ARMED_STANDBY) direct_parent" "blocked (others cancelling_env (sample_world ARMED_STANDBY)) direct_parent"
    by (simp_all add: blocked_def sample_world_def sample_orchestrator_def sample_switch_def ks_is_active_def cancelling_env_def direct_parent_def)
  ultimately show ?thesis using cancelled_order_sends_nothing [OF e] e by (simp add: cancelling_env_def direct_slice_def)
qed


end
