(* ===== verification/Pre_Trade_Gate.thy ===== *)
theory Pre_Trade_Gate
  imports Quant_Prelude Py_Sum
begin

text \<open>
  \<^verbatim>\<open>src/src/quant/execution/pre_trade_gate.py\<close>: the pre-trade decision gate, its request and result, the five dimension checks, the
  Bayesian toxicity score and the bounded history.

  Request numbers are floats (the streak of losses an int), so the type guards hold by typing. \<^verbatim>\<open>math.exp\<close> and the value of
  \<^verbatim>\<open>math.log(0.10 / 0.90)\<close> are parameters. Texts (\<^verbatim>\<open>details\<close>, \<^verbatim>\<open>reason\<close>) and the measured latency are not modelled.

  Lemmas: a passed check scores zero, so the toxicity threshold never decides on its own; exits are never
  blocked and the history is bounded; and a momentum rejection is reported with the code of an acceptance.
\<close>

section \<open>Requests and results\<close>

datatype gate_decision = PASS | REJECT | BYPASS_EXIT

datatype dimension_name = DATA_FRESHNESS | MACRO_REGIME | MICROSTRUCTURE_TOXICITY | MOMENTUM_ALIGNMENT | CAPITAL_RISK_BUDGET

record dimension_check =
  check_name :: dimension_name
  passed :: bool
  score :: float64

record gate_request =
  gr_order_id :: string
  gr_symbol :: string
  gr_action :: string
  gr_quantity :: float64
  gr_reference_price :: float64
  gr_timestamp_ns :: int
  is_position_exit :: bool
  market_spread_bps :: float64
  gr_order_book_imbalance :: float64
  macro_yield_spread :: float64
  trailing_volatility_pct :: float64
  current_bar_return_pct :: float64
  consecutive_losses :: int
  current_drawdown_pct :: float64
  cvar_95_pct :: float64
  data_age_seconds :: float64

abbreviation BadGate :: exn where
  "BadGate \<equiv> Gate NonFiniteGateInputException"

definition gate_request_new :: "gate_request \<Rightarrow> gate_request res" where
  "gate_request_new r =
     (if \<not> isfinite (gr_quantity r) \<or> gr_quantity r \<le> 0 then Inl BadGate
      else if \<not> isfinite (gr_reference_price r) \<or> gr_reference_price r \<le> 0 then Inl BadGate
      else if \<not> list_all isfinite [market_spread_bps r, gr_order_book_imbalance r, macro_yield_spread r, trailing_volatility_pct r,
                 current_bar_return_pct r, current_drawdown_pct r, cvar_95_pct r, data_age_seconds r]
      then Inl BadGate else Inr r)"

datatype gate_code = OK | STALE_DATA | MACRO_CONFLICT | DRAWDOWN_EXCEEDED | LOSS_BREACH | TOXIC_FLOW

fun gate_code_text :: "gate_code \<Rightarrow> string" where
  "gate_code_text OK = ''OK''"
| "gate_code_text STALE_DATA = ''ERR-GATE-001''"
| "gate_code_text MACRO_CONFLICT = ''ERR-GATE-002''"
| "gate_code_text DRAWDOWN_EXCEEDED = ''ERR-GATE-003''"
| "gate_code_text LOSS_BREACH = ''ERR-GATE-004''"
| "gate_code_text TOXIC_FLOW = ''ERR-GATE-005''"

record gate_result =
  res_order_id :: string
  res_symbol :: string
  res_action :: string
  allowed :: bool
  res_decision :: gate_decision
  toxicity_probability :: float64
  confidence :: float64
  primary_code :: gate_code
  res_checks :: "dimension_check list"

record gate =
  max_history :: int
  gate_history :: "gate_result list"

definition gate_new :: "int \<Rightarrow> gate" where
  "gate_new n = \<lparr>max_history = max 10 n, gate_history = []\<rparr>"

section \<open>The checks\<close>

text \<open>The first failing check that has a code sets it.\<close>

definition first_code :: "gate_code \<Rightarrow> gate_code \<Rightarrow> gate_code" where
  "first_code c new = (if c = OK then new else c)"

definition is_exit :: "gate_request \<Rightarrow> bool" where
  "is_exit r \<longleftrightarrow> is_position_exit r \<or> str_upper (str_strip (gr_action r)) \<in> {''CLOSE'', ''LIQUIDATE''}"

definition is_buying :: "gate_request \<Rightarrow> bool" where
  "is_buying r \<longleftrightarrow> str_upper (str_strip (gr_action r)) \<in> {''BUY'', ''OPEN_LONG''}"

definition freshness_check :: "gate_request \<Rightarrow> bool \<times> float64" where
  "freshness_check r = (if data_age_seconds r \<le> Fin 120 then (True, 0) else (False, flit (5 / 2)))"

definition micro_check :: "gate_request \<Rightarrow> bool \<times> float64" where
  "micro_check r =
     (let obi = gr_order_book_imbalance r
      in if is_buying r \<and> obi < - flit (35 / 100) then (False, Fin 2 * \<bar>obi\<bar>)
         else if \<not> is_buying r \<and> obi > flit (35 / 100) then (False, Fin 2 * \<bar>obi\<bar>)
         else if market_spread_bps r > Fin 35 then (False, flit (3 / 2))
         else (True, 0))"

definition macro_check :: "gate_request \<Rightarrow> bool \<times> float64" where
  "macro_check r =
     (if is_buying r \<and> macro_yield_spread r < - flit (1 / 2) then (False, flit (3 / 2) * \<bar>macro_yield_spread r\<bar>) else (True, 0))"

definition momentum_check :: "gate_request \<Rightarrow> bool \<times> float64" where
  "momentum_check r =
     (let spike = \<bar>current_bar_return_pct r\<bar> > Fin 3 * trailing_volatility_pct r;
          slide = is_buying r \<and> current_bar_return_pct r < Fin (- 2) * trailing_volatility_pct r;
          s = (if spike then flit (12 / 10) else 0)
      in (\<not> spike \<and> \<not> slide, if slide then s + Fin 1 else s))"

text \<open>The losses beyond the limit are converted to a float, which can overflow.\<close>

definition risk_check :: "gate_request \<Rightarrow> (bool \<times> float64) res" where
  "risk_check r =
     (let n = consecutive_losses r - 4 + 1; streak = consecutive_losses r \<ge> 4; budget = current_drawdown_pct r \<ge> Fin 15
      in if streak \<and> int_overflows n then Inl (PyErr OverflowError)
         else
           let s = (if streak then 0 + flit (18 / 10) * float_of_int n else 0)
           in Inr (\<not> streak \<and> \<not> budget, if budget then s + flit (5 / 2) else s))"

definition code_of :: "gate_request \<Rightarrow> gate_code" where
  "code_of r =
     (let c1 = (if fst (freshness_check r) then OK else first_code OK STALE_DATA);
          c2 = (if fst (micro_check r) then c1 else first_code c1 TOXIC_FLOW);
          c3 = (if fst (macro_check r) then c2 else first_code c2 MACRO_CONFLICT);
          c4 = (if consecutive_losses r \<ge> 4 then first_code c3 LOSS_BREACH else c3)
      in if current_drawdown_pct r \<ge> Fin 15 then first_code c4 DRAWDOWN_EXCEEDED else c4)"

section \<open>Evaluation\<close>

definition tox_threshold :: float64 where
  "tox_threshold = flit (65 / 100)"

definition toxicity :: "(float64 \<Rightarrow> float64) \<Rightarrow> float64 \<Rightarrow> float64" where
  "toxicity exp64 lo = fdiv (Fin 1) (Fin 1 + exp64 (- lo))"

definition gate_confidence :: "float64 \<Rightarrow> float64" where
  "gate_confidence p =
     py_min (Fin 1) (py_max 0 (fdiv \<bar>p - tox_threshold\<bar> (py_max tox_threshold (Fin 1 - tox_threshold))))"

definition record_result :: "gate \<Rightarrow> gate_result \<Rightarrow> gate" where
  "record_result g res =
     (let h = gate_history g @ [res]
      in g\<lparr>gate_history := (if int (length h) > max_history g then tl h else h)\<rparr>)"

definition evaluate :: "(float64 \<Rightarrow> float64) \<Rightarrow> float64 \<Rightarrow> gate \<Rightarrow> gate_request \<Rightarrow> gate \<times> gate_result res" where
  "evaluate exp64 prior g r =
     (if is_exit r
      then let res = \<lparr>res_order_id = gr_order_id r, res_symbol = gr_symbol r, res_action = gr_action r, allowed = True,
                      res_decision = BYPASS_EXIT, toxicity_probability = 0, confidence = Fin 1, primary_code = OK, res_checks = []\<rparr>
           in (record_result g res, Inr res)
      else
        case risk_check r of
          Inl e \<Rightarrow> (g, Inl e)
        | Inr (risk_passed, risk_score) \<Rightarrow>
            let (fresh, f) = freshness_check r; (micro, mi) = micro_check r; (macro, ma) = macro_check r; (mom, mo) = momentum_check r;
                delta = 0 + f + mi + ma + mo + risk_score;
                checks = [\<lparr>check_name = DATA_FRESHNESS, passed = fresh, score = f\<rparr>,
                          \<lparr>check_name = MICROSTRUCTURE_TOXICITY, passed = micro, score = mi\<rparr>,
                          \<lparr>check_name = MACRO_REGIME, passed = macro, score = ma\<rparr>,
                          \<lparr>check_name = MOMENTUM_ALIGNMENT, passed = mom, score = mo\<rparr>,
                          \<lparr>check_name = CAPITAL_RISK_BUDGET, passed = risk_passed, score = risk_score\<rparr>];
                p = toxicity exp64 (prior + delta);
                excessive = p \<ge> tox_threshold;
                ok = list_all passed checks \<and> \<not> excessive;
                code = (if ok then OK else if code_of r = OK \<and> excessive then TOXIC_FLOW else code_of r);
                res = \<lparr>res_order_id = gr_order_id r, res_symbol = gr_symbol r, res_action = gr_action r, allowed = ok,
                       res_decision = (if ok then PASS else REJECT), toxicity_probability = py_round 4 p,
                       confidence = py_round 4 (gate_confidence p), primary_code = code, res_checks = checks\<rparr>
            in (record_result g res, Inr res))"

section \<open>The decision\<close>

text \<open>The conditions under which every dimension passes, over the request alone.\<close>

definition gate_conditions :: "gate_request \<Rightarrow> bool" where
  "gate_conditions r \<longleftrightarrow>
     data_age_seconds r \<le> Fin 120 \<and>
     \<not> (is_buying r \<and> gr_order_book_imbalance r < - flit (35 / 100)) \<and> \<not> (\<not> is_buying r \<and> gr_order_book_imbalance r > flit (35 / 100)) \<and>
     \<not> market_spread_bps r > Fin 35 \<and> \<not> (is_buying r \<and> macro_yield_spread r < - flit (1 / 2)) \<and>
     \<not> \<bar>current_bar_return_pct r\<bar> > Fin 3 * trailing_volatility_pct r \<and>
     \<not> (is_buying r \<and> current_bar_return_pct r < Fin (- 2) * trailing_volatility_pct r) \<and>
     consecutive_losses r < 4 \<and> \<not> current_drawdown_pct r \<ge> Fin 15"

lemma zero_sum: "0 + 0 = (0 :: float64)"
  by (simp add: zero_float64_def)

lemma gate_conditions_checks:
  "gate_conditions r \<longleftrightarrow> fst (freshness_check r) \<and> fst (micro_check r) \<and> fst (macro_check r) \<and> fst (momentum_check r) \<and>
     (\<exists>s. risk_check r = Inr (True, s))"
  by (auto simp: gate_conditions_def freshness_check_def micro_check_def macro_check_def momentum_check_def risk_check_def Let_def)

lemma gate_conditions_scores:
  assumes "gate_conditions r"
  shows "freshness_check r = (True, 0)" "micro_check r = (True, 0)" "macro_check r = (True, 0)" "momentum_check r = (True, 0)"
    "risk_check r = Inr (True, 0)"
  using assms
  by (auto simp: gate_conditions_def freshness_check_def micro_check_def macro_check_def momentum_check_def risk_check_def Let_def)

text \<open>An entry order goes through the five checks.\<close>

definition gate_delta :: "gate_request \<Rightarrow> float64 \<Rightarrow> float64" where
  "gate_delta r risk_score = 0 + snd (freshness_check r) + snd (micro_check r) + snd (macro_check r) + snd (momentum_check r) + risk_score"

lemma evaluate_entry:
  assumes "\<not> is_exit r" and "risk_check r = Inr (rp, rs)"
  shows "\<exists>res. evaluate exp64 prior g r = (record_result g res, Inr res) \<and>
    (allowed res \<longleftrightarrow> fst (freshness_check r) \<and> fst (micro_check r) \<and> fst (macro_check r) \<and> fst (momentum_check r) \<and> rp \<and>
      \<not> toxicity exp64 (prior + gate_delta r rs) \<ge> tox_threshold) \<and>
    res_decision res = (if allowed res then PASS else REJECT) \<and>
    (\<not> allowed res \<longrightarrow> \<not> toxicity exp64 (prior + gate_delta r rs) \<ge> tox_threshold \<longrightarrow> primary_code res = code_of r)"
  using assms
  by (intro exI [of _ "projr (snd (evaluate exp64 prior g r))"])
    (simp add: evaluate_def gate_delta_def Let_def split: prod.splits)

text \<open>C38: What the gate decides: an order that is not an exit is allowed exactly when its market data are fresh, the book is not
  adverse and the spread not excessive, the yield curve and the momentum do not oppose it, and the streak of losses (below 4) and the
  drawdown are below their limits. The Bayesian score adds nothing: every passed dimension contributes zero evidence, so
  with the prior toxicity below the threshold an order that passes all dimensions is never rejected for its toxicity. The repository's
  documents describe another gate: approval exactly when the probability of success reaches 0.55 on graded log odds (design, 14.6), a
  rejection for several subtle risks together, and a limit of 5 losses (error tables).\<close>

theorem gate_decision_exact:
  assumes "\<not> is_exit r" and "toxicity exp64 (prior + 0) < tox_threshold" and "\<not> int_overflows (consecutive_losses r - 3)"
  shows "\<exists>res. evaluate exp64 prior g r = (record_result g res, Inr res) \<and> (allowed res \<longleftrightarrow> gate_conditions r) \<and>
    res_decision res = (if gate_conditions r then PASS else REJECT)"
proof -
  obtain rp rs where rk: "risk_check r = Inr (rp, rs)" using assms(3) by (simp add: risk_check_def Let_def)
  obtain res where ev: "evaluate exp64 prior g r = (record_result g res, Inr res)"
    and e: "allowed res \<longleftrightarrow> fst (freshness_check r) \<and> fst (micro_check r) \<and> fst (macro_check r) \<and> fst (momentum_check r) \<and> rp \<and>
      \<not> toxicity exp64 (prior + gate_delta r rs) \<ge> tox_threshold"
    and d: "res_decision res = (if allowed res then PASS else REJECT)"
    using evaluate_entry [OF assms(1) rk] by metis
  have "allowed res \<longleftrightarrow> gate_conditions r"
  proof (cases "gate_conditions r")
    case True
    have "\<not> tox_threshold \<le> toxicity exp64 (prior + 0)" using assms(2) by (simp add: less_float64_def)
    then show ?thesis using e gate_conditions_scores [OF True] True rk by (simp add: zero_sum gate_delta_def)
  next
    case False
    then show ?thesis using e gate_conditions_checks [of r] rk by auto
  qed
  then show ?thesis using ev d by simp
qed

text \<open>A quiet market, an exponential that takes the value 7 at the prior's log odds, and an ordinary buy.\<close>

definition sample_request :: gate_request where
  "sample_request = \<lparr>gr_order_id = ''o1'', gr_symbol = ''SPY'', gr_action = '' buy '', gr_quantity = Fin 10, gr_reference_price = Fin 100,
     gr_timestamp_ns = 1, is_position_exit = False, market_spread_bps = Fin 5, gr_order_book_imbalance = 0, macro_yield_spread = Fin (1 / 4),
     trailing_volatility_pct = Fin 1, current_bar_return_pct = 0, consecutive_losses = 0, current_drawdown_pct = 0, cvar_95_pct = Fin 2,
     data_age_seconds = Fin 1\<rparr>"

definition sample_exp :: "float64 \<Rightarrow> float64" where
  "sample_exp x = Fin 7"

lemma sample_toxicity: "toxicity sample_exp x < tox_threshold"
proof -
  have "toxicity sample_exp x = Fin (1 / 8)" 
    using rnd64_dyadic [of 1 "- 3"] by (simp add: toxicity_def sample_exp_def two_pow_def)
  moreover have "rnd64 (1 / 2) \<le> tox_threshold" unfolding tox_threshold_def by (rule rnd64_mono) simp
  moreover have "Fin (1 / 8) < t" if "Fin (1 / 2) \<le> t" for t using that by (cases t) (simp_all add: less_float64_def)
  ultimately show ?thesis unfolding rnd64_half by simp
qed

lemma sample_not_exit: "\<not> is_exit sample_request"
  by code_simp

lemma sample_losses: "\<not> int_overflows (consecutive_losses sample_request - 3)"
  using rnd64_of_int [of "- 3"] by (simp add: sample_request_def int_overflows_def float_of_int_def isfinite_def)

lemma sample_conditions: "gate_conditions sample_request"
proof -
  have buy: "is_buying sample_request" by code_simp
  obtain e where e: "flit (7 / 20) = Fin e" "0 < e" using flit_small [of "7 / 20"] by (auto simp: two_pow_def)
  show ?thesis using buy e rnd64_half
    by (simp add: gate_conditions_def) (simp add: sample_request_def zero_float64_def less_float64_def)
qed

theorem gate_decision_exact_witness:
  "\<exists>res. evaluate sample_exp (Fin (- 2)) (gate_new 5) sample_request = (record_result (gate_new 5) res, Inr res) \<and> allowed res"
  using gate_decision_exact [OF sample_not_exit sample_toxicity, where g = "gate_new 5" and prior = "Fin (- 2)"] sample_conditions
    sample_losses by auto

text \<open>An order rejected for its momentum alone is reported with the code of an accepted order, unless the penalty of the momentum
  also takes the toxicity over its threshold.\<close>

theorem momentum_rejection_code_ok:
  assumes "\<not> is_exit r" and "fst (freshness_check r)" and "fst (micro_check r)" and "fst (macro_check r)"
    and "\<not> fst (momentum_check r)" and "risk_check r = Inr (True, s)"
    and "\<not> toxicity exp64 (prior + gate_delta r s) \<ge> tox_threshold"
  shows "\<exists>res. evaluate exp64 prior g r = (record_result g res, Inr res) \<and> \<not> allowed res \<and> res_decision res = REJECT \<and> primary_code res = OK"
proof -
  have "code_of r = OK" using assms(2-4,6)
    by (auto simp: code_of_def risk_check_def Let_def split: if_splits)
  then show ?thesis using evaluate_entry [OF assms(1,6), of exp64 prior g] assms(5,7) by auto
qed

section \<open>Exits and history\<close>

fun gate_run :: "(float64 \<Rightarrow> float64) \<Rightarrow> float64 \<Rightarrow> gate \<Rightarrow> gate_request list \<Rightarrow> gate \<times> gate_result list" where
  "gate_run exp64 prior g [] = (g, [])"
| "gate_run exp64 prior g (r # rs) =
     (case evaluate exp64 prior g r of
        (g1, x) \<Rightarrow> (case gate_run exp64 prior g1 rs of (g', xs) \<Rightarrow> (g', (case x of Inl _ \<Rightarrow> xs | Inr res \<Rightarrow> res # xs))))"

lemma evaluate_records:
  "\<exists>x. evaluate exp64 prior g r = (case x of Inl e \<Rightarrow> (g, Inl e) | Inr res \<Rightarrow> (record_result g res, Inr res))"
proof (cases "is_exit r")
  case True
  then show ?thesis by (intro exI [of _ "snd (evaluate exp64 prior g r)"]) (simp add: evaluate_def Let_def)
next
  case False
  then show ?thesis
    by (intro exI [of _ "snd (evaluate exp64 prior g r)"]) (auto simp: evaluate_def Let_def split: sum.splits prod.splits)
qed

definition newest :: "int \<Rightarrow> 'a list \<Rightarrow> 'a list" where
  "newest n xs = drop (length xs - nat n) xs"

lemma record_newest:
  assumes "gate_history g = newest (max_history g) xs" "1 \<le> max_history g"
  shows "gate_history (record_result g res) = newest (max_history g) (xs @ [res])" "max_history (record_result g res) = max_history g"
proof -
  let ?n = "nat (max_history g)"
  have n: "1 \<le> ?n" using assms(2) by simp
  have "int (length (newest (max_history g) xs @ [res])) > max_history g \<longleftrightarrow> ?n \<le> length xs"
    using assms(2) by (auto simp: newest_def)
  then show "gate_history (record_result g res) = newest (max_history g) (xs @ [res])"
    using n by (auto simp: record_result_def assms(1) Let_def newest_def tl_drop drop_Suc [symmetric] Suc_diff_le)
qed (simp add: record_result_def Let_def)

lemma gate_run_newest:
  assumes "gate_history g = newest (max_history g) ys" "1 \<le> max_history g" "gate_run exp64 prior g rs = (g', xs)"
  shows "gate_history g' = newest (max_history g) (ys @ xs) \<and> max_history g' = max_history g"
  using assms
proof (induction rs arbitrary: g ys xs)
  case (Cons r rs)
  obtain x where x: "evaluate exp64 prior g r = (case x of Inl e \<Rightarrow> (g, Inl e) | Inr res \<Rightarrow> (record_result g res, Inr res))"
    using evaluate_records by blast
  show ?case
  proof (cases x)
    case (Inl e)
    obtain zs where "gate_run exp64 prior g rs = (g', zs)" "xs = zs" using Cons.prems(3) x Inl by (auto split: prod.splits)
    then show ?thesis using Cons.IH [OF Cons.prems(1,2)] by simp
  next
    case (Inr res)
    obtain zs where z: "gate_run exp64 prior (record_result g res) rs = (g', zs)" "xs = res # zs"
      using Cons.prems(3) x Inr by (auto split: prod.splits)
    note rn = record_newest [OF Cons.prems(1,2), of res]
    show ?thesis using Cons.IH [of "record_result g res" "ys @ [res]" zs] rn z Cons.prems(2) by simp
  qed
qed simp

text \<open>The gate's memory and its exits: after any sequence of requests the history holds exactly the most recent decisions, in
  order, up to the configured capacity (at least ten), and an exit order (flagged, or a close or liquidation in any case and
  with any padding) is always allowed, whatever the market or the portfolio looks like.\<close>

theorem gate_history_and_exits:
  assumes "gate_run exp64 prior (gate_new n) rs = (g, results)"
  shows "gate_history g = drop (length results - nat (max 10 n)) results \<and> int (length (gate_history g)) \<le> max 10 n \<and>
    (\<forall>r. is_exit r \<longrightarrow> (\<exists>g' res. evaluate exp64 prior g r = (g', Inr res) \<and> allowed res \<and> res_decision res = BYPASS_EXIT))"
proof -
  have "gate_history g = newest (max 10 n) results"
    using gate_run_newest [OF _ _ assms, of "[]"] by (simp add: gate_new_def newest_def)
  then show ?thesis by (auto simp: newest_def evaluate_def Let_def)
qed

definition sample_exit :: gate_request where
  "sample_exit = sample_request\<lparr>gr_action := '' close ''\<rparr>"

lemma sample_exit_run:
  "\<exists>g res. gate_run sample_exp (Fin (- 2)) (gate_new 5) [sample_exit] = (g, [res])"
proof -
  have "is_exit sample_exit" by code_simp
  then show ?thesis by (simp add: evaluate_def Let_def)
qed

theorem gate_history_and_exits_witness:
  "\<exists>g res. gate_run sample_exp (Fin (- 2)) (gate_new 5) [sample_exit] = (g, [res]) \<and> gate_history g = [res]"
  using sample_exit_run gate_history_and_exits [of sample_exp "Fin (- 2)" 5 "[sample_exit]"] by fastforce

end
