(* ===== verification/Num_Lib.thy ===== *)
theory Num_Lib
  imports Quant_Prelude
begin

text \<open>
  The functions of numpy and of the C library that the analytics modules call, as a record of parameters. Elementwise arithmetic
  and comparisons of arrays are written as list functions in the theories; what is here is not in the repository. A theorem that
  relies on one of these functions has its documented behaviour as a hypothesis, one of the predicates below.
\<close>

record numlib =
  np_sum :: "float64 list \<Rightarrow> float64"
  np_mean :: "float64 list \<Rightarrow> float64"
  np_norm :: "float64 list \<Rightarrow> float64"
  np_dot :: "float64 list \<Rightarrow> float64 list \<Rightarrow> float64"
  np_amax :: "float64 list \<Rightarrow> float64"
  np_argmax :: "float64 list \<Rightarrow> nat"
  np_clip :: "float64 \<Rightarrow> float64 \<Rightarrow> float64 \<Rightarrow> float64"
  np_clip_int :: "int \<Rightarrow> int \<Rightarrow> int \<Rightarrow> int"
  np_array :: "pyval list \<Rightarrow> float64 list res"
  np_log :: "float64 \<Rightarrow> float64"
  np_exp :: "float64 \<Rightarrow> float64"
  np_sqrt :: "float64 \<Rightarrow> float64"
  np_pow :: "float64 \<Rightarrow> float64 \<Rightarrow> float64"
  libm_exp :: "float64 \<Rightarrow> float64"
  libm_log :: "float64 \<Rightarrow> float64"
  libm_sqrt :: "float64 \<Rightarrow> float64"
  libm_square :: "float64 \<Rightarrow> float64 res"
  libm_pow :: "float64 \<Rightarrow> int \<Rightarrow> float64 res"
  libm_fpow :: "float64 \<Rightarrow> float64 \<Rightarrow> float64 res"
  np_amin :: "float64 list \<Rightarrow> float64"
  np_argmin :: "float64 list \<Rightarrow> nat"
  np_argmax_int :: "int list \<Rightarrow> nat"
  np_arccos :: "float64 \<Rightarrow> float64"
  np_allclose :: "float64 list \<Rightarrow> float64 list \<Rightarrow> bool"
  np_cumsum :: "float64 list \<Rightarrow> float64 list"
  np_searchsorted :: "float64 list \<Rightarrow> float64 \<Rightarrow> nat"
  np_svd :: "float64 list list \<Rightarrow> float64 list \<times> float64 list list"
  np_matvec :: "float64 list list \<Rightarrow> float64 list \<Rightarrow> float64 list"
  np_gram :: "float64 list list \<Rightarrow> float64 list list"
  np_column_mean :: "float64 list list \<Rightarrow> float64 list"
  np_std :: "float64 list \<Rightarrow> float64"
  sp_pdist :: "float64 list list \<Rightarrow> float64 list"

section \<open>Documented behaviour\<close>

definition clip_documented :: "numlib \<Rightarrow> bool" where
  "clip_documented nl \<longleftrightarrow> (\<forall>x lo hi. np_clip nl x lo hi = (if x < lo then lo else if hi < x then hi else x))"

definition clip_int_documented :: "numlib \<Rightarrow> bool" where
  "clip_int_documented nl \<longleftrightarrow> (\<forall>x lo hi. np_clip_int nl x lo hi = (if x < lo then lo else if hi < x then hi else x))"

definition exp_documented :: "(float64 \<Rightarrow> float64) \<Rightarrow> bool" where
  "exp_documented exp64 \<longleftrightarrow> (\<forall>x y. x \<le> y \<longrightarrow> 0 \<le> exp64 x \<and> exp64 x \<le> exp64 y)"

text \<open>\<^verbatim>\<open>math.log\<close> of a positive finite number is finite; where the argument at least doubles within the range of the doubles it grows by
  more than a half and by less than 2100.\<close>

definition log_documented :: "(float64 \<Rightarrow> float64) \<Rightarrow> bool" where
  "log_documented log64 \<longleftrightarrow>
     (\<forall>a. 0 < a \<longrightarrow> isfinite (log64 (Fin a))) \<and> 
     (\<forall>a b. two_pow (- 1074) \<le> a \<and> 2 * a \<le> b \<and> b < max_exp \<longrightarrow>
        Fin (1 / 2) \<le> log64 (Fin b) - log64 (Fin a) \<and> log64 (Fin b) - log64 (Fin a) \<le> Fin 2100)"

text \<open>An integer power of a number between zero and one does not leave that range, and the power of zero is one; \<^verbatim>\<open>np.power\<close> of a positive
  number with an exponent up to one is not negative and, whatever its rounding error, at most twice the larger of one and the base.\<close>

definition pow_documented :: "numlib \<Rightarrow> bool" where
  "pow_documented nl \<longleftrightarrow> (\<forall>x n. 0 < x \<and> x \<le> Fin 1 \<and> 0 \<le> n \<longrightarrow> (\<exists>y. libm_pow nl x n = Inr y \<and> 0 \<le> y \<and> y \<le> Fin 1)) \<and>
     (\<forall>x. libm_pow nl x 0 = Inr (Fin 1))"

definition np_pow_documented :: "numlib \<Rightarrow> bool" where
  "np_pow_documented nl \<longleftrightarrow>
     (\<forall>a e. 0 < a \<and> 0 \<le> e \<and> e \<le> 1 \<longrightarrow> (\<exists>b. np_pow nl (Fin a) (Fin e) = Fin b \<and> 0 \<le> b \<and> b \<le> 2 * max 1 a))"

lemma clip_between:
  assumes "clip_documented nl" and "lo \<le> hi"
  shows "np_clip nl x lo hi = NaN \<or> lo \<le> np_clip nl x lo hi \<and> np_clip nl x lo hi \<le> hi"
  using assms by (auto simp: clip_documented_def float_not_less dest: float_le_not_nan)

lemma clip_same: "clip_documented nl \<Longrightarrow> lo \<le> x \<Longrightarrow> x \<le> hi \<Longrightarrow> np_clip nl x lo hi = x"
  by (auto simp: clip_documented_def less_float64_def)

lemma clip_int_same: "clip_int_documented nl \<Longrightarrow> lo \<le> x \<Longrightarrow> x \<le> hi \<Longrightarrow> np_clip_int nl x lo hi = x"
  by (auto simp: clip_int_documented_def)

lemma clip_int_between: "clip_int_documented nl \<Longrightarrow> lo \<le> hi \<Longrightarrow> lo \<le> np_clip_int nl x lo hi \<and> np_clip_int nl x lo hi \<le> hi"
  by (auto simp: clip_int_documented_def)

lemma between_finite: "Fin a \<le> x \<Longrightarrow> x \<le> Fin b \<Longrightarrow> isfinite x"
  by (cases x) auto

section \<open>An instance\<close>

text \<open>Simple functions with the documented behaviour, for concrete instances of the theorems.\<close>

definition sample_numlib :: numlib where
  "sample_numlib =
     \<lparr>np_sum = foldl (+) 0, np_mean = (\<lambda>xs. 0), np_norm = (\<lambda>xs. foldl (\<lambda>s x. s + \<bar>x\<bar>) 0 xs), np_dot = (\<lambda>xs ys. 0),
      np_amax = foldl py_max NInf, np_argmax = (\<lambda>xs. 0), np_clip = (\<lambda>x lo hi. if x < lo then lo else if hi < x then hi else x),
      np_clip_int = (\<lambda>x lo hi. if x < lo then lo else if hi < x then hi else x), np_array = mapR (py_float (\<lambda>s. Inl (PyErr ValueError))),
      np_log = (\<lambda>x. 0), np_exp = (\<lambda>x. Fin 1), np_sqrt = (\<lambda>x. x), np_pow = (\<lambda>x y. x), libm_exp = (\<lambda>x. if x \<le> 0 then 0 else Fin 1),
      libm_log = (\<lambda>x. case x of Fin a \<Rightarrow> Fin (of_int (ilog2 a)) | _ \<Rightarrow> x), libm_sqrt = (\<lambda>x. x), libm_square = (\<lambda>x. Inr (x * x)), libm_pow = (\<lambda>x n. Inr (if n = 0 then Fin 1 else x)),
      libm_fpow = (\<lambda>x y. Inr x), np_amin = foldl py_min PInf, np_argmin = (\<lambda>xs. 0), np_argmax_int = (\<lambda>xs. 0), np_arccos = (\<lambda>x. Fin 1 - x),
      np_allclose = (\<lambda>xs ys. xs = ys), np_cumsum = (\<lambda>xs. xs), np_searchsorted = (\<lambda>xs t. 0), np_svd = (\<lambda>a. ([Fin 1], a)),
      np_matvec = (\<lambda>a x. map (\<lambda>r. 0) a), np_gram = (\<lambda>a. map (\<lambda>r. map (\<lambda>q. 0) a) a), np_column_mean = (\<lambda>a. [Fin 1, 0, 0]), np_std = (\<lambda>xs. 0), sp_pdist = (\<lambda>a. [0])\<rparr>"

lemma sample_laws:
  "clip_documented sample_numlib" "exp_documented (libm_exp sample_numlib)" "clip_int_documented sample_numlib"
  by (auto simp: clip_documented_def clip_int_documented_def exp_documented_def sample_numlib_def dest: float_le_trans float_le_not_nan)

lemma sample_pow: "pow_documented sample_numlib" "np_pow_documented sample_numlib"
  by (auto simp: pow_documented_def np_pow_documented_def sample_numlib_def dest: float_less_imp_le)

lemma sample_log: "log_documented (libm_log sample_numlib)"
proof -
  have "Fin (1 / 2) \<le> rnd64 (of_int (ilog2 b) - of_int (ilog2 a)) \<and> rnd64 (of_int (ilog2 b) - of_int (ilog2 a)) \<le> Fin 2100"
    if ab: "two_pow (- 1074) \<le> a" "2 * a \<le> b" "b < max_exp" for a b :: rat
  proof -
    have pos: "0 < a" using ab(1) two_pow_pos [of "- 1074"] by linarith
    have l: "two_pow (ilog2 a) \<le> a" "a < two_pow (ilog2 a + 1)" using ilog2_bounds [OF pos] by auto
    then have "ilog2 (2 * a) = ilog2 a + 1" by (intro ilog2_eqI) (simp_all add: two_pow_add two_pow_def [of 1] two_pow_def [of 2])
    then have "ilog2 a + 1 \<le> ilog2 b" using ilog2_mono [of "2 * a" b] ab(2) pos by simp
    then have "(1::rat) \<le> of_int (ilog2 b - ilog2 a)" by simp
    from rnd64_mono [OF this] have ge: "Fin 1 \<le> rnd64 (of_int (ilog2 b) - of_int (ilog2 a))" by simp
    have "two_pow (ilog2 b) < two_pow 1024" using ilog2_bounds [of b] ab pos by (simp add: max_exp_def)
    then have "ilog2 b < 1024" by (rule two_pow_less_imp)
    moreover have "two_pow (- 1074) < two_pow (ilog2 a + 1)" using l(2) ab(1) by linarith
    then have "- 1074 < ilog2 a + 1" by (rule two_pow_less_imp)
    ultimately have "of_int (ilog2 b - ilog2 a) \<le> (2100::rat)" by simp
    from rnd64_mono [OF this] have le: "rnd64 (of_int (ilog2 b) - of_int (ilog2 a)) \<le> Fin 2100" by simp
    show ?thesis using float_le_trans [of "Fin (1 / 2)" "Fin 1"] ge le by simp
  qed
  then show ?thesis by (auto simp: log_documented_def sample_numlib_def minus_float64_def)
qed

end
