(* ===== verification/Circuit_Breaker.thy ===== *)
theory Circuit_Breaker
  imports Num_Lib
begin

text \<open>
  \<^verbatim>\<open>src/src/quant/analytics/circuit_breakers.py\<close>: the breaker that scales or stops execution when the models of the ensemble
  disagree. The entropy calculator and the haircut calculator turn the predictions of a bar into a shock score; the overlay engine
  moves between the tiers \<open>NORMAL\<close>, \<open>CAUTION\<close>, \<open>DERISK\<close> and \<open>HALT\<close>, upwards at once, downwards one tier at a time after a dwell time.

  Numbers are floats and one-dimensional arrays are lists, so the \<^verbatim>\<open>isinstance\<close> and \<^verbatim>\<open>ndim\<close> guards hold by typing. The functions of numpy and of the C library are
  those of \<open>Num_Lib\<close>; what a theorem needs of them is a hypothesis (\<open>clip_documented\<close>, \<open>exp_documented\<close>).

  Lemmas: what the calculators return lies between zero and one and the haircut falls as the shock grows; the constructors of
  the new state and of the decision never refuse what \<open>evaluate\<close> gives them; after a halt nothing is executed for at least
  \<open>2 d - 1\<close> further bars (\<open>d\<close> the dwell time), and calm bars bring the breaker down on exactly that schedule.
\<close>

abbreviation Degenerate :: exn where
  "Degenerate \<equiv> Cb DegenerateCircuitBreakerException"

abbreviation InvalidCb :: exn where
  "InvalidCb \<equiv> Cb InvalidCircuitBreakerInputException"

section \<open>Tiers\<close>

datatype tier = NORMAL | CAUTION | DERISK | HALT

fun tier_value :: "tier \<Rightarrow> int" where
  "tier_value NORMAL = 0"
| "tier_value CAUTION = 1"
| "tier_value DERISK = 2"
| "tier_value HALT = 3"

definition tier_of :: "int \<Rightarrow> tier res" where
  "tier_of i = (if i = 0 then Inr NORMAL else if i = 1 then Inr CAUTION else if i = 2 then Inr DERISK else if i = 3 then Inr HALT
     else Inl (PyErr ValueError))"

lemma tier_value_inject: "tier_value a = tier_value b \<longleftrightarrow> a = b"
  by (cases a; cases b) simp_all

instantiation tier :: linorder
begin

definition less_eq_tier :: "tier \<Rightarrow> tier \<Rightarrow> bool" where
  "a \<le> b \<longleftrightarrow> tier_value a \<le> tier_value b"

definition less_tier :: "tier \<Rightarrow> tier \<Rightarrow> bool" where
  "a < b \<longleftrightarrow> tier_value a < tier_value b"

instance
proof
  fix a b :: tier
  assume "a \<le> b" "b \<le> a"
  then have "tier_value a = tier_value b" unfolding less_eq_tier_def by (rule order_antisym)
  then show "a = b" by (simp only: tier_value_inject)
qed (auto simp: less_eq_tier_def less_tier_def)

end

lemmas tier_order_defs = less_eq_tier_def less_tier_def

section \<open>Configuration\<close>

record cb_config =
  sign_threshold :: float64
  caution_threshold :: float64
  derisk_threshold :: float64
  halt_threshold :: float64
  recovery_threshold :: float64
  dwell_time_bars :: int
  haircut_steepness :: float64
  haircut_midpoint :: float64
  weight_entropy :: float64
  weight_epistemic_ratio :: float64
  weight_ambiguity :: float64
  beta_min :: float64
  beta_max :: float64

definition cb_config_default :: cb_config where
  "cb_config_default =
     \<lparr>sign_threshold = flit (1 / 10 ^ 4), caution_threshold = flit (45 / 100), derisk_threshold = flit (70 / 100),
      halt_threshold = flit (90 / 100), recovery_threshold = flit (30 / 100), dwell_time_bars = 5, haircut_steepness = Fin 10,
      haircut_midpoint = Fin (1 / 2), weight_entropy = Fin (1 / 2), weight_epistemic_ratio = flit (30 / 100),
      weight_ambiguity = flit (20 / 100), beta_min = Fin 1, beta_max = Fin 5\<rparr>"

definition weights_near_one :: "float64 \<Rightarrow> float64 \<Rightarrow> float64 \<Rightarrow> bool" where
  "weights_near_one we wr wa \<longleftrightarrow> \<not> \<bar>we + wr + wa - Fin 1\<bar> > flit (1 / 10 ^ 6)"

definition cb_config_new :: "cb_config \<Rightarrow> cb_config res" where
  "cb_config_new c =
     (if \<not> list_all isfinite [sign_threshold c, caution_threshold c, derisk_threshold c, halt_threshold c, recovery_threshold c,
           haircut_steepness c, haircut_midpoint c, weight_entropy c, weight_epistemic_ratio c, weight_ambiguity c, beta_min c, beta_max c]
      then Inl Degenerate
      else if dwell_time_bars c < 1 then Inl Degenerate
      else if sign_threshold c \<le> 0 then Inl Degenerate
      else if haircut_steepness c \<le> 0 then Inl Degenerate
      else if beta_min c \<le> 0 then Inl Degenerate
      else if beta_max c \<le> beta_min c then Inl InvalidCb
      else if weight_entropy c < 0 \<or> weight_epistemic_ratio c < 0 \<or> weight_ambiguity c < 0 then Inl Degenerate
      else if \<not> weights_near_one (weight_entropy c) (weight_epistemic_ratio c) (weight_ambiguity c) then Inl InvalidCb
      else if \<not> (0 < haircut_midpoint c \<and> haircut_midpoint c < Fin 1) then Inl InvalidCb
      else if \<not> (0 < recovery_threshold c \<and> recovery_threshold c < caution_threshold c) then Inl InvalidCb
      else if \<not> (0 < caution_threshold c \<and> caution_threshold c < derisk_threshold c \<and> derisk_threshold c < halt_threshold c \<and>
                 halt_threshold c \<le> Fin 1) then Inl InvalidCb
      else Inr c)"

section \<open>State and decision\<close>

record cb_state =
  cb_tier :: tier
  active_bars_in_tier :: int
  continuous_haircut :: float64
  epistemic_entropy :: float64
  directional_entropy :: float64
  epistemic_ratio :: float64
  composite_shock_score :: float64
  directional_probabilities :: "float64 list"
  step_index :: int

definition in_unit :: "float64 \<Rightarrow> bool" where
  "in_unit x \<longleftrightarrow> 0 \<le> x \<and> x \<le> Fin 1"

text \<open>The check on a vector of three probabilities that the state and the entropy calculator both make.\<close>

definition check_probabilities :: "numlib \<Rightarrow> float64 list \<Rightarrow> unit res" where
  "check_probabilities nl ps =
     (if length ps \<noteq> 3 then Inl InvalidCb
      else if \<not> list_all isfinite ps then Inl Degenerate
      else if list_ex (\<lambda>p. p < 0) ps then Inl InvalidCb
      else if \<bar>np_sum nl ps - Fin 1\<bar> > flit (1 / 10 ^ 10) then Inl InvalidCb
      else Inr ())"

definition cb_state_new :: "numlib \<Rightarrow> cb_state \<Rightarrow> cb_state res" where
  "cb_state_new nl st =
     (if active_bars_in_tier st < 0 then Inl InvalidCb
      else if step_index st < 0 then Inl InvalidCb
      else if \<not> list_all isfinite [continuous_haircut st, epistemic_entropy st, directional_entropy st, epistemic_ratio st, composite_shock_score st]
      then Inl Degenerate
      else if \<not> list_all in_unit [continuous_haircut st, epistemic_entropy st, directional_entropy st, epistemic_ratio st, composite_shock_score st]
      then Inl InvalidCb
      else bindR (check_probabilities nl (directional_probabilities st)) (\<lambda>_. Inr st))"

record cb_decision =
  action_tier :: tier
  execution_haircut :: float64
  is_halted :: bool
  is_derisking :: bool
  is_throttled :: bool
  dec_state :: cb_state

definition cb_decision_new :: "cb_decision \<Rightarrow> cb_decision res" where
  "cb_decision_new d =
     (if \<not> isfinite (execution_haircut d) then Inl Degenerate
      else if \<not> in_unit (execution_haircut d) then Inl InvalidCb
      else if is_halted d \<noteq> (action_tier d = HALT) then Inl InvalidCb
      else if is_derisking d \<noteq> (action_tier d = DERISK) then Inl InvalidCb
      else if is_throttled d \<noteq> (action_tier d = CAUTION) then Inl InvalidCb
      else Inr d)"

definition from_state :: "tier \<Rightarrow> float64 \<Rightarrow> cb_state \<Rightarrow> cb_decision res" where
  "from_state t h st =
     cb_decision_new \<lparr>action_tier = t, execution_haircut = h, is_halted = (t = HALT), is_derisking = (t = DERISK),
       is_throttled = (t = CAUTION), dec_state = st\<rparr>"

section \<open>Entropy calculator\<close>

record entropy_calc =
  ec_sign_threshold :: float64
  ec_epsilon_log :: float64

definition entropy_calc_new :: "float64 \<Rightarrow> float64 \<Rightarrow> entropy_calc res" where
  "entropy_calc_new thr eps =
     (if \<not> isfinite thr then Inl Degenerate
      else if thr < 0 then Inl InvalidCb
      else if \<not> isfinite eps then Inl Degenerate
      else if eps \<le> 0 then Inl InvalidCb
      else Inr \<lparr>ec_sign_threshold = thr, ec_epsilon_log = eps\<rparr>)"

definition entropy_from_config :: "cb_config \<Rightarrow> entropy_calc res" where
  "entropy_from_config c = entropy_calc_new (sign_threshold c) (flit (1 / 10 ^ 30))"

text \<open>\<^verbatim>\<open>max(0.0, float(np.sum(weights[mask])))\<close>\<close>

definition masked_sum :: "numlib \<Rightarrow> (float64 \<Rightarrow> bool) \<Rightarrow> float64 list \<Rightarrow> float64 list \<Rightarrow> float64" where
  "masked_sum nl sel ps ws = py_max 0 (np_sum nl (map snd (filter (\<lambda>(p, w). sel p) (zip ps ws))))"

definition compute_directional_consensus :: "numlib \<Rightarrow> entropy_calc \<Rightarrow> float64 list \<Rightarrow> float64 list \<Rightarrow> float64 list res" where
  "compute_directional_consensus nl ec ps ws =
     (if length ps \<noteq> length ws then Inl InvalidCb
      else if length ps = 0 then Inl InvalidCb
      else if \<not> list_all isfinite ps then Inl Degenerate
      else if \<not> list_all isfinite ws then Inl Degenerate
      else if list_ex (\<lambda>w. w < 0) ws then Inl InvalidCb
      else if \<bar>np_sum nl ws - Fin 1\<bar> > flit (1 / 10 ^ 10) then Inl InvalidCb
      else let t = ec_sign_threshold ec
           in Inr [masked_sum nl (\<lambda>p. p > t) ps ws, masked_sum nl (\<lambda>p. p < - t) ps ws, masked_sum nl (\<lambda>p. \<bar>p\<bar> \<le> t) ps ws])"

text \<open>\<^verbatim>\<open>math.log(3.0)\<close>\<close>

definition log_three :: float64 where
  "log_three = flit (10986122886681098 / 10 ^ 16)"

definition compute_directional_entropy :: "numlib \<Rightarrow> entropy_calc \<Rightarrow> float64 list \<Rightarrow> float64 res" where
  "compute_directional_entropy nl ec ps =
     bindR (check_probabilities nl ps) (\<lambda>_.
       let raw_entropy = - np_sum nl (map (\<lambda>p. p * np_log nl (p + ec_epsilon_log ec)) ps);
           normalized_entropy = fdiv raw_entropy log_three
       in Inr (np_clip nl normalized_entropy 0 (Fin 1) + 0))"

definition compute_epistemic_ratio :: "numlib \<Rightarrow> float64 \<Rightarrow> float64 \<Rightarrow> float64 res" where
  "compute_epistemic_ratio nl aleatoric epistemic =
     (if \<not> (isfinite aleatoric \<and> isfinite epistemic) then Inl Degenerate
      else if aleatoric \<le> 0 then Inl InvalidCb
      else if epistemic < 0 then Inl InvalidCb
      else bindR (divR epistemic (aleatoric + epistemic)) (\<lambda>ratio. Inr (np_clip nl ratio 0 (Fin 1) + 0)))"

definition compute_epistemic_entropy ::
    "numlib \<Rightarrow> entropy_calc \<Rightarrow> float64 list \<Rightarrow> float64 list \<Rightarrow> float64 \<Rightarrow> float64 \<Rightarrow> (float64 \<times> float64 \<times> float64 \<times> float64 list) res" where
  "compute_epistemic_entropy nl ec ps ws aleatoric epistemic =
     bindR (compute_directional_consensus nl ec ps ws) (\<lambda>probs.
     bindR (compute_directional_entropy nl ec probs) (\<lambda>h_dir.
     bindR (compute_epistemic_ratio nl aleatoric epistemic) (\<lambda>rho.
       let composite = h_dir * libm_sqrt nl rho
       in Inr (np_clip nl composite 0 (Fin 1) + 0, h_dir, rho, probs))))"

section \<open>Haircut calculator\<close>

record haircut_calc =
  hc_steepness :: float64
  hc_midpoint :: float64
  hc_weight_entropy :: float64
  hc_weight_epistemic_ratio :: float64
  hc_weight_ambiguity :: float64
  hc_beta_min :: float64
  hc_beta_max :: float64
  kappa_0 :: float64
  kappa_1 :: float64
  kappa_range :: float64

definition raw_sigmoid :: "(float64 \<Rightarrow> float64) \<Rightarrow> float64 \<Rightarrow> float64 \<Rightarrow> float64 \<Rightarrow> float64" where
  "raw_sigmoid exp64 shock steep mid =
     (let x = steep * (shock - mid)
      in if x > Fin 500 then 0 else if x < Fin (- 500) then Fin 1 else fdiv (Fin 1) (Fin 1 + exp64 x))"

definition haircut_calc_new ::
    "numlib \<Rightarrow> float64 \<Rightarrow> float64 \<Rightarrow> float64 \<Rightarrow> float64 \<Rightarrow> float64 \<Rightarrow> float64 \<Rightarrow> float64 \<Rightarrow> haircut_calc res" where
  "haircut_calc_new nl steep mid we wr wa b0 b1 =
     (if \<not> list_all isfinite [steep, mid, we, wr, wa, b0, b1] then Inl Degenerate
      else if steep \<le> 0 then Inl InvalidCb
      else if \<not> (0 < mid \<and> mid < Fin 1) then Inl InvalidCb
      else if we < 0 \<or> wr < 0 \<or> wa < 0 then Inl InvalidCb
      else if \<not> weights_near_one we wr wa then Inl InvalidCb
      else if b0 \<le> 0 then Inl InvalidCb
      else if b1 \<le> b0 then Inl InvalidCb
      else let k0 = raw_sigmoid (libm_exp nl) 0 steep mid; k1 = raw_sigmoid (libm_exp nl) (Fin 1) steep mid
           in Inr \<lparr>hc_steepness = steep, hc_midpoint = mid, hc_weight_entropy = we, hc_weight_epistemic_ratio = wr,
                   hc_weight_ambiguity = wa, hc_beta_min = b0, hc_beta_max = b1, kappa_0 = k0, kappa_1 = k1, kappa_range = k0 - k1\<rparr>)"

definition haircut_from_config :: "numlib \<Rightarrow> cb_config \<Rightarrow> haircut_calc res" where
  "haircut_from_config nl c =
     haircut_calc_new nl (haircut_steepness c) (haircut_midpoint c) (weight_entropy c) (weight_epistemic_ratio c) (weight_ambiguity c)
       (beta_min c) (beta_max c)"

definition compute_composite_shock :: "haircut_calc \<Rightarrow> float64 \<Rightarrow> float64 \<Rightarrow> float64 \<Rightarrow> float64 res" where
  "compute_composite_shock hc h rho beta =
     (if \<not> list_all isfinite [h, rho, beta] then Inl Degenerate
      else if \<not> in_unit h then Inl InvalidCb
      else if \<not> in_unit rho then Inl InvalidCb
      else if beta \<le> 0 then Inl InvalidCb
      else
        bindR (divR (beta - hc_beta_min hc) (hc_beta_max hc - hc_beta_min hc)) (\<lambda>b.
          let normalized_beta = py_min (py_max b 0) (Fin 1);
              raw_shock = hc_weight_entropy hc * h + hc_weight_epistemic_ratio hc * rho + hc_weight_ambiguity hc * normalized_beta
          in Inr (py_min (py_max raw_shock 0) (Fin 1) + 0)))"

definition compute_haircut :: "numlib \<Rightarrow> haircut_calc \<Rightarrow> float64 \<Rightarrow> float64 res" where
  "compute_haircut nl hc shock =
     (if \<not> isfinite shock then Inl Degenerate
      else if \<not> in_unit shock then Inl InvalidCb
      else if shock = 0 then Inr (Fin 1)
      else if shock = Fin 1 then Inr 0
      else
        bindR (divR (raw_sigmoid (libm_exp nl) shock (hc_steepness hc) (hc_midpoint hc) - kappa_1 hc) (kappa_range hc)) (\<lambda>normalized.
          Inr (py_min (py_max normalized 0) (Fin 1) + 0)))"

section \<open>Overlay engine\<close>

record cb_engine =
  eng_config :: cb_config
  eng_entropy :: entropy_calc
  eng_haircut :: haircut_calc

definition engine_new :: "numlib \<Rightarrow> cb_config option \<Rightarrow> cb_engine res" where
  "engine_new nl co =
     bindR (case co of Some c \<Rightarrow> Inr c | None \<Rightarrow> cb_config_new cb_config_default) (\<lambda>c.
     bindR (entropy_from_config c) (\<lambda>ec.
     bindR (haircut_from_config nl c) (\<lambda>hc.
       Inr \<lparr>eng_config = c, eng_entropy = ec, eng_haircut = hc\<rparr>)))"

definition initialize_state :: "numlib \<Rightarrow> cb_state res" where
  "initialize_state nl =
     cb_state_new nl \<lparr>cb_tier = NORMAL, active_bars_in_tier = 0, continuous_haircut = Fin 1, epistemic_entropy = 0, directional_entropy = 0,
       epistemic_ratio = 0, composite_shock_score = 0, directional_probabilities = replicate 3 (fdiv (Fin 1) (Fin 3)), step_index = 0\<rparr>"

text \<open>The arguments of one call of \<^verbatim>\<open>evaluate\<close>.\<close>

record bar_input =
  bi_predictions :: "float64 list"
  bi_weights :: "float64 list"
  bi_aleatoric :: float64
  bi_epistemic :: float64
  bi_beta :: float64
  bi_cusum_shock :: bool
  bi_regime_is_panic :: bool

text \<open>The scores of a bar.\<close>

record assessment =
  as_h_epi :: float64
  as_h_dir :: float64
  as_rho :: float64
  as_probs :: "float64 list"
  as_shock :: float64
  as_haircut :: float64

definition assess :: "numlib \<Rightarrow> cb_engine \<Rightarrow> bar_input \<Rightarrow> assessment res" where
  "assess nl eng bi =
     (if \<not> isfinite (bi_beta bi) then Inl Degenerate
      else if bi_beta bi \<le> 0 then Inl InvalidCb
      else
        bindR (compute_epistemic_entropy nl (eng_entropy eng) (bi_predictions bi) (bi_weights bi) (bi_aleatoric bi) (bi_epistemic bi))
          (\<lambda>(h_epi, h_dir, rho, probs).
        bindR (compute_composite_shock (eng_haircut eng) h_epi rho (bi_beta bi)) (\<lambda>shock.
        bindR (compute_haircut nl (eng_haircut eng) shock) (\<lambda>haircut.
          Inr \<lparr>as_h_epi = h_epi, as_h_dir = h_dir, as_rho = rho, as_probs = probs, as_shock = shock, as_haircut = haircut\<rparr>))))"

definition candidate_tier :: "cb_config \<Rightarrow> bar_input \<Rightarrow> float64 \<Rightarrow> tier" where
  "candidate_tier c bi shock =
     (if (bi_cusum_shock bi \<and> bi_regime_is_panic bi) \<or> shock \<ge> halt_threshold c then HALT
      else if shock \<ge> derisk_threshold c then DERISK
      else if shock \<ge> caution_threshold c then CAUTION
      else NORMAL)"

definition next_tier :: "cb_config \<Rightarrow> cb_state \<Rightarrow> tier \<Rightarrow> float64 \<Rightarrow> (tier \<times> int) res" where
  "next_tier c st candidate shock =
     (let current = cb_tier st; bars = active_bars_in_tier st
      in if candidate > current then Inr (candidate, 1)
         else if candidate = current then Inr (current, bars + 1)
         else if current \<in> {HALT, DERISK}
         then (if bars \<ge> dwell_time_bars c \<and> shock < recovery_threshold c
               then bindR (tier_of (tier_value current - 1)) (\<lambda>t. Inr (t, 1))
               else Inr (current, bars + 1))
         else if current = CAUTION
         then (if shock < recovery_threshold c then Inr (NORMAL, 1) else Inr (current, bars + 1))
         else Inr (NORMAL, bars + 1))"

definition tier_haircut :: "tier \<Rightarrow> float64 \<Rightarrow> float64" where
  "tier_haircut t h = (if t \<in> {HALT, DERISK} then 0 else if t = CAUTION then py_min (Fin (1 / 2)) h else h)"

definition evaluate :: "numlib \<Rightarrow> cb_engine \<Rightarrow> cb_state \<Rightarrow> bar_input \<Rightarrow> (cb_decision \<times> cb_state) res" where
  "evaluate nl eng st bi =
     bindR (assess nl eng bi) (\<lambda>a.
     bindR (next_tier (eng_config eng) st (candidate_tier (eng_config eng) bi (as_shock a)) (as_shock a)) (\<lambda>(new_tier, bars).
     bindR (cb_state_new nl \<lparr>cb_tier = new_tier, active_bars_in_tier = bars, continuous_haircut = as_haircut a, epistemic_entropy = as_h_epi a,
              directional_entropy = as_h_dir a, epistemic_ratio = as_rho a, composite_shock_score = as_shock a,
              directional_probabilities = as_probs a, step_index = step_index st + 1\<rparr>) (\<lambda>new_state.
     bindR (from_state new_tier (tier_haircut new_tier (as_haircut a)) new_state) (\<lambda>decision.
       Inr (decision, new_state)))))"

text \<open>The fields of \<^verbatim>\<open>EnsemblePrediction\<close> (\<^verbatim>\<open>analytics/ensemble.py\<close>) that \<^verbatim>\<open>evaluate_prediction\<close> reads.\<close>

record ensemble_prediction =
  ep_model_weights :: "float64 list"
  ep_regime_probabilities :: "float64 list"
  ep_aleatoric_variance :: float64
  ep_epistemic_variance :: float64

definition evaluate_prediction ::
    "numlib \<Rightarrow> cb_engine \<Rightarrow> ensemble_prediction \<Rightarrow> float64 list \<Rightarrow> float64 \<Rightarrow> cb_state \<Rightarrow> bool \<Rightarrow> bool option \<Rightarrow> (cb_decision \<times> cb_state) res" where
  "evaluate_prediction nl eng ep ps beta st cusum panic =
     (let panic_flag = (case panic of None \<Rightarrow> np_argmax nl (ep_regime_probabilities ep) = 2 | Some b \<Rightarrow> b)
      in evaluate nl eng st
           \<lparr>bi_predictions = ps, bi_weights = ep_model_weights ep, bi_aleatoric = ep_aleatoric_variance ep,
            bi_epistemic = ep_epistemic_variance ep, bi_beta = beta, bi_cusum_shock = cusum, bi_regime_is_panic = panic_flag\<rparr>)"

text \<open>A sequence of bars: the decisions, and the state after the last; a bar whose evaluation raises leaves the state.\<close>

fun run_bars :: "numlib \<Rightarrow> cb_engine \<Rightarrow> cb_state \<Rightarrow> bar_input list \<Rightarrow> cb_decision list \<times> cb_state" where
  "run_bars nl eng st [] = ([], st)"
| "run_bars nl eng st (b # bs) =
     (case evaluate nl eng st b of
        Inl e \<Rightarrow> run_bars nl eng st bs
      | Inr (d, st') \<Rightarrow> (case run_bars nl eng st' bs of (ds, st'') \<Rightarrow> (d # ds, st'')))"

section \<open>Tier transitions\<close>

lemma evaluate_InrE:
  assumes "evaluate nl eng st bi = Inr (d, st')"
  obtains a where "assess nl eng bi = Inr a"
    and "next_tier (eng_config eng) st (candidate_tier (eng_config eng) bi (as_shock a)) (as_shock a) = Inr (cb_tier st', active_bars_in_tier st')"
    and "execution_haircut d = tier_haircut (cb_tier st') (as_haircut a)"
    and "action_tier d = cb_tier st'" and "is_halted d \<longleftrightarrow> cb_tier st' = HALT" and "is_derisking d \<longleftrightarrow> cb_tier st' = DERISK"
    and "is_throttled d \<longleftrightarrow> cb_tier st' = CAUTION" and "0 \<le> active_bars_in_tier st'" and "step_index st' = step_index st + 1" and "continuous_haircut st' = as_haircut a"
  using assms
  by (auto simp: evaluate_def cb_state_new_def from_state_def cb_decision_new_def bindR_Inr_iff split: if_splits)

lemma next_tier_total: "\<exists>t n. next_tier c st cand shock = Inr (t, n)"
  by (cases "cb_tier st") (auto simp: next_tier_def tier_of_def Let_def)

text \<open>How many more bars keep the breaker in the two tiers that execute nothing, at the least.\<close>

definition locked_bars :: "cb_config \<Rightarrow> cb_state \<Rightarrow> int" where
  "locked_bars c st =
     (let d = dwell_time_bars c; rest = d - min (active_bars_in_tier st) d
      in case cb_tier st of HALT \<Rightarrow> d + rest | DERISK \<Rightarrow> rest | _ \<Rightarrow> 0)"

lemma next_tier_locked:
  assumes "next_tier c st cand shock = Inr (cb_tier st', active_bars_in_tier st')" and "1 \<le> dwell_time_bars c" and "0 < locked_bars c st"
    and "0 \<le> active_bars_in_tier st"
  shows "cb_tier st' \<in> {HALT, DERISK} \<and> locked_bars c st - 1 \<le> locked_bars c st'"
proof (cases "cb_tier st")
  case HALT
  then show ?thesis using assms
    by (cases cand) (auto simp: next_tier_def locked_bars_def tier_of_def tier_order_defs Let_def split: if_splits)
next
  case DERISK
  then show ?thesis using assms
    by (cases cand) (auto simp: next_tier_def locked_bars_def tier_of_def tier_order_defs Let_def split: if_splits)
qed (use assms in \<open>simp_all add: locked_bars_def Let_def\<close>)

lemma locked_run:
  assumes "1 \<le> dwell_time_bars (eng_config eng)" and "int (length bs) \<le> locked_bars (eng_config eng) st" and "0 \<le> active_bars_in_tier st" and "d \<in> set (fst (run_bars nl eng st bs))"
  shows "execution_haircut d = 0 \<and> (is_halted d \<or> is_derisking d)"
  using assms(2-)
proof (induction bs arbitrary: st)
  case (Cons b bs)
  show ?case
  proof (cases "evaluate nl eng st b")
    case (Inl e)
    then show ?thesis using Cons.IH [of st] Cons.prems by simp
  next
    case (Inr r)
    then obtain d1 st1 where e: "evaluate nl eng st b = Inr (d1, st1)" by (cases r) auto
    from e obtain a :: assessment where
      n: "next_tier (eng_config eng) st (candidate_tier (eng_config eng) b (as_shock a)) (as_shock a) = Inr (cb_tier st1, active_bars_in_tier st1)"
      and h: "execution_haircut d1 = tier_haircut (cb_tier st1) (as_haircut a)" "is_halted d1 \<longleftrightarrow> cb_tier st1 = HALT"
        "is_derisking d1 \<longleftrightarrow> cb_tier st1 = DERISK" and pos: "0 \<le> active_bars_in_tier st1"
      by (rule evaluate_InrE)
    have l: "cb_tier st1 \<in> {HALT, DERISK} \<and> locked_bars (eng_config eng) st - 1 \<le> locked_bars (eng_config eng) st1"
      using next_tier_locked [OF n assms(1)] Cons.prems(1,2) by simp
    show ?thesis
    proof (cases "d = d1")
      case True
      then show ?thesis using l h by (auto simp: tier_haircut_def)
    next
      case False
      then have "d \<in> set (fst (run_bars nl eng st1 bs))" using Cons.prems(3) e by (auto split: prod.splits)
      then show ?thesis using Cons.IH [of st1] Cons.prems(1) l pos by simp
    qed
  qed
qed simp

lemma candidate_halt:
  "bi_cusum_shock bi \<and> bi_regime_is_panic bi \<or> halt_threshold c \<le> shock \<Longrightarrow> candidate_tier c bi shock = HALT"
  by (simp add: candidate_tier_def)

lemma next_tier_halt: "next_tier c st HALT shock = Inr (HALT, if cb_tier st = HALT then active_bars_in_tier st + 1 else 1)"
  by (cases "cb_tier st") (simp_all add: next_tier_def tier_order_defs Let_def)

section \<open>Calm bars\<close>

definition calm :: "numlib \<Rightarrow> cb_engine \<Rightarrow> bar_input \<Rightarrow> bool" where
  "calm nl eng bi \<longleftrightarrow>
     \<not> (bi_cusum_shock bi \<and> bi_regime_is_panic bi) \<and>
     (case assess nl eng bi of Inl e \<Rightarrow> False | Inr a \<Rightarrow> as_shock a < recovery_threshold (eng_config eng))"

lemma cb_config_newD:
  assumes "cb_config_new c = Inr c'"
  shows "c' = c" "1 \<le> dwell_time_bars c" "recovery_threshold c < caution_threshold c" "caution_threshold c < derisk_threshold c"
    "derisk_threshold c < halt_threshold c" "halt_threshold c \<le> Fin 1" "0 < recovery_threshold c"
  using assms by (auto simp: cb_config_new_def split: if_splits)

lemma calm_candidate:
  assumes "cb_config_new c = Inr c" and "shock < recovery_threshold c" and "\<not> (bi_cusum_shock bi \<and> bi_regime_is_panic bi)"
  shows "candidate_tier c bi shock = NORMAL"
proof -
  note t = cb_config_newD [OF assms(1)]
  have a: "shock < caution_threshold c" using float_less_le_trans [OF assms(2) float_less_imp_le [OF t(3)]] .
  have b: "shock < derisk_threshold c" using float_less_le_trans [OF a float_less_imp_le [OF t(4)]] .
  have d: "shock < halt_threshold c" using float_less_le_trans [OF b float_less_imp_le [OF t(5)]] .
  show ?thesis using a b d assms(3) by (auto simp: candidate_tier_def less_float64_def)
qed

text \<open>Where \<open>n\<close> calm bars take the breaker from a halt that has just begun.\<close>

definition recovery_tier :: "int \<Rightarrow> nat \<Rightarrow> tier" where
  "recovery_tier d n = (if int n < d then HALT else if int n < 2 * d then DERISK else if int n = 2 * d then CAUTION else NORMAL)"

definition recovery_bars :: "int \<Rightarrow> nat \<Rightarrow> int" where
  "recovery_bars d n = (if int n < d then int n + 1 else if int n < 2 * d then int n - d + 1 else if int n = 2 * d then 1 else int n - 2 * d)"

lemma next_tier_recovery:
  assumes "1 \<le> dwell_time_bars c" and "shock < recovery_threshold c"
    and "cb_tier st = recovery_tier (dwell_time_bars c) n" and "active_bars_in_tier st = recovery_bars (dwell_time_bars c) n"
  shows "next_tier c st NORMAL shock = Inr (recovery_tier (dwell_time_bars c) (Suc n), recovery_bars (dwell_time_bars c) (Suc n))"
  using assms by (auto simp: next_tier_def recovery_tier_def recovery_bars_def tier_of_def tier_order_defs Let_def split: if_splits)

section \<open>The calculators\<close>

lemma in_unit_finite: "in_unit x \<Longrightarrow> isfinite x"
  by (cases x) (auto simp: in_unit_def)

lemma in_unit_ends [simp]: "in_unit 0" "in_unit (Fin 1)" "in_unit (Fin (1 / 2))"
  by (simp_all add: in_unit_def)

lemma clamp_in_unit: "x \<noteq> NaN \<Longrightarrow> in_unit (py_min (py_max x 0) (Fin 1))"
  by (cases x) (auto simp: in_unit_def py_min_def py_max_def)

lemma clamp_mono: "x \<le> y \<Longrightarrow> py_min (py_max x 0) (Fin 1) \<le> py_min (py_max y 0) (Fin 1)"
  by (cases x; cases y) (auto simp: py_min_def py_max_def)

lemma clip_in_unit: "clip_documented nl \<Longrightarrow> x \<noteq> NaN \<Longrightarrow> in_unit (np_clip nl x 0 (Fin 1))"
  by (cases x) (auto simp: clip_documented_def in_unit_def)

lemma clip_NaN: "clip_documented nl \<Longrightarrow> np_clip nl NaN 0 (Fin 1) = NaN"
  by (auto simp: clip_documented_def)

lemma in_unit_add_zero: "in_unit x \<Longrightarrow> is_double x \<Longrightarrow> x + 0 = x"
  by (cases x) (auto simp: in_unit_def zero_float64_def)

lemma in_unit_plus_zero [simp]: "in_unit x \<Longrightarrow> in_unit (x + 0)"
proof -
  assume "in_unit x"
  then obtain a where a: "x = Fin a" "0 \<le> a" "a \<le> 1" by (cases x) (auto simp: in_unit_def)
  have "rnd64 a \<le> Fin 1" using rnd64_mono [OF a(3)] by simp
  then show ?thesis using a rnd64_nonneg [OF a(2)] by (simp add: in_unit_def zero_float64_def)
qed

lemma add_zero_mono: "x \<le> y \<Longrightarrow> x + 0 \<le> y + 0" for x y :: float64
  by (cases x; cases y) (auto simp: zero_float64_def rnd64_mono)

text \<open>What an assessment guarantees.\<close>

lemma fdiv_one_antimono: "0 < x \<Longrightarrow> x \<le> y \<Longrightarrow> fdiv (Fin 1) y \<le> fdiv (Fin 1) x"
  by (cases x; cases y) (auto simp: frac_le zero_float64_def [symmetric] intro: rnd64_mono)

lemma float_add_commute: "x + y = y + x" for x y :: float64
  by (cases x; cases y) (simp_all add: add.commute)

lemma one_plus_exp: "0 \<le> e \<Longrightarrow> Fin 1 \<le> Fin 1 + e" for e :: float64
  using float_le_add [of "Fin 1" e] by simp

lemma fdiv_one_unit: "Fin 1 \<le> y \<Longrightarrow> in_unit (fdiv (Fin 1) y)"
proof (cases y)
  case (Fin b)
  moreover assume "Fin 1 \<le> y"
  ultimately have "1 / b \<le> 1" "0 \<le> 1 / b" by (auto simp: divide_le_eq_1)
  then show ?thesis using Fin rnd64_mono [of "1 / b" 1] rnd64_nonneg [of "1 / b"] by (simp add: in_unit_def)
qed (auto simp: in_unit_def)

lemma raw_sigmoid_unit:
  assumes "exp_documented exp64" and "steep * (shock - mid) \<noteq> NaN"
  shows "in_unit (raw_sigmoid exp64 shock steep mid)"
proof -
  have "0 \<le> exp64 (steep * (shock - mid))"
    using assms(1) float_le_refl [OF assms(2)] unfolding exp_documented_def by blast
  then show ?thesis using fdiv_one_unit [OF one_plus_exp] by (simp add: raw_sigmoid_def Let_def)
qed

lemma sigmoid_argument:
  assumes "0 < k" and "isfinite k" and "isfinite m" and "s \<le> t" and "isfinite s" and "isfinite t"
  shows "k * (s - m) \<le> k * (t - m)" "k * (s - m) \<noteq> NaN" "k * (t - m) \<noteq> NaN"
proof -
  obtain a b c d where e: "k = Fin a" "m = Fin b" "s = Fin c" "t = Fin d" using assms(2,3,5,6) by auto
  have pos: "0 < a" and le: "c \<le> d" using assms(1,4) e by (simp_all add: zero_float64_def)
  have "Fin c - Fin b \<le> Fin d - Fin b" using rnd64_mono [of "c - b" "d - b"] le by (simp add: minus_float64_def)
  moreover have "\<And>x y. x \<le> y \<Longrightarrow> Fin a * x \<le> Fin a * y"
  proof -
    fix x y :: float64
    assume "x \<le> y"
    then show "Fin a * x \<le> Fin a * y" using pos by (cases x; cases y) (auto intro!: rnd64_mono)
  qed
  ultimately show "k * (s - m) \<le> k * (t - m)" unfolding e by blast
  then show "k * (s - m) \<noteq> NaN" "k * (t - m) \<noteq> NaN" by (auto dest: float_le_not_nan)
qed

lemma raw_sigmoid_antimono:
  assumes "exp_documented exp64" and "0 < k" and "isfinite k" and "isfinite m" and "s \<le> t" and "isfinite s" and "isfinite t"
  shows "raw_sigmoid exp64 t k m \<le> raw_sigmoid exp64 s k m"
proof -
  let ?x = "k * (s - m)" and ?y = "k * (t - m)"
  note arg = sigmoid_argument [OF assms(2-7)]
  have u: "in_unit (raw_sigmoid exp64 s k m)" "in_unit (raw_sigmoid exp64 t k m)" using raw_sigmoid_unit assms(1) arg(2,3) by blast+
  consider "Fin 500 < ?y" | "?x < Fin (- 500)" | "\<not> Fin 500 < ?y" "\<not> ?x < Fin (- 500)" by blast
  then show ?thesis
  proof cases
    case 1
    then show ?thesis using u(1) by (simp add: raw_sigmoid_def in_unit_def Let_def)
  next
    case 2
    then have "\<not> Fin 500 < ?x" by (cases ?x) auto
    then show ?thesis using 2 u(2) by (simp add: raw_sigmoid_def in_unit_def Let_def)
  next
    case 3
    then have x: "\<not> Fin 500 < ?x" and y: "\<not> ?y < Fin (- 500)"
      using arg(1) float_less_le_trans [of "Fin 500" ?x ?y] float_le_less_trans [of ?x ?y "Fin (- 500)"] by blast+
    have e: "0 \<le> exp64 ?x" "exp64 ?x \<le> exp64 ?y" using assms(1) arg(1) by (simp_all add: exp_documented_def)
    have "exp64 ?x + Fin 1 \<le> exp64 ?y + Fin 1" using float_add_mono [OF e(2)] by simp
    moreover have "0 < Fin 1 + exp64 ?x" using float_less_le_trans [of 0 "Fin 1" "Fin 1 + exp64 ?x"] one_plus_exp [OF e(1)] by simp
    ultimately have "fdiv (Fin 1) (Fin 1 + exp64 ?y) \<le> fdiv (Fin 1) (Fin 1 + exp64 ?x)"
      by (intro fdiv_one_antimono) (simp_all add: float_add_commute)
    then show ?thesis using 3 x y by (simp add: raw_sigmoid_def Let_def)
  qed
qed

lemma fdiv_mono: "x \<le> y \<Longrightarrow> 0 < d \<Longrightarrow> isfinite d \<Longrightarrow> fdiv x d \<le> fdiv y d" for x y d :: float64
  by (cases x; cases y) (auto intro!: rnd64_mono divide_right_mono simp: zero_float64_def)

lemma unit_diff: "in_unit x \<Longrightarrow> in_unit y \<Longrightarrow> isfinite (x - y)"
proof -
  assume "in_unit x" "in_unit y"
  then obtain a b where e: "x = Fin a" "y = Fin b" "0 \<le> a" "a \<le> 1" "0 \<le> b" "b \<le> 1" by (cases x; cases y) (auto simp: in_unit_def)
  then have "Fin (- 1) \<le> rnd64 (a - b)" "rnd64 (a - b) \<le> Fin 1" using rnd64_mono [of "- 1" "a - b"] rnd64_mono [of "a - b" 1] by simp_all
  then have "isfinite (rnd64 (a - b))" by (cases "rnd64 (a - b)") simp_all
  then show ?thesis using e by (simp add: minus_float64_def)
qed

lemma haircut_calc_newD:
  assumes "haircut_calc_new nl steep mid we wr wa b0 b1 = Inr hc"
  shows "hc_steepness hc = steep" "hc_midpoint hc = mid" "hc_weight_entropy hc = we" "hc_weight_epistemic_ratio hc = wr"
    "hc_weight_ambiguity hc = wa" "hc_beta_min hc = b0" "hc_beta_max hc = b1" "kappa_0 hc = raw_sigmoid (libm_exp nl) 0 steep mid"
    "kappa_1 hc = raw_sigmoid (libm_exp nl) (Fin 1) steep mid" "kappa_range hc = kappa_0 hc - kappa_1 hc"
    "isfinite steep" "isfinite mid" "0 < steep" "\<not> we < 0" "\<not> wr < 0" "\<not> wa < 0" "isfinite we" "isfinite wr" "isfinite wa"
    "isfinite b0" "isfinite b1" "\<not> b1 \<le> b0"
  using assms by (auto simp: haircut_calc_new_def Let_def float_not_le isfinite_iff split: if_splits)

text \<open>A calculator whose two end points differ.\<close>

definition graded :: "numlib \<Rightarrow> haircut_calc \<Rightarrow> bool" where
  "graded nl hc \<longleftrightarrow>
     exp_documented (libm_exp nl) \<and> isfinite (hc_steepness hc) \<and> isfinite (hc_midpoint hc) \<and> 0 < hc_steepness hc \<and>
     kappa_0 hc = raw_sigmoid (libm_exp nl) 0 (hc_steepness hc) (hc_midpoint hc) \<and>
     kappa_1 hc = raw_sigmoid (libm_exp nl) (Fin 1) (hc_steepness hc) (hc_midpoint hc) \<and>
     kappa_range hc = kappa_0 hc - kappa_1 hc \<and> kappa_range hc \<noteq> 0"

lemma graded_new:
  "haircut_calc_new nl steep mid we wr wa b0 b1 = Inr hc \<Longrightarrow> exp_documented (libm_exp nl) \<Longrightarrow> kappa_range hc \<noteq> 0 \<Longrightarrow> graded nl hc"
  using haircut_calc_newD [of nl steep mid we wr wa b0 b1 hc] by (simp add: graded_def)

lemma graded_range:
  assumes "graded nl hc"
  shows "0 < kappa_range hc" "isfinite (kappa_range hc)" "in_unit (kappa_1 hc)"
proof -
  let ?g = "\<lambda>s. raw_sigmoid (libm_exp nl) s (hc_steepness hc) (hc_midpoint hc)"
  have u: "in_unit (?g s)" if "isfinite s" for s
    using assms raw_sigmoid_unit sigmoid_argument(2) [of "hc_steepness hc" "hc_midpoint hc" s s] that by (auto simp: graded_def)
  have "?g (Fin 1) \<le> ?g 0" using assms by (intro raw_sigmoid_antimono) (simp_all add: graded_def)
  moreover have i: "in_unit (?g (Fin 1))" "in_unit (?g 0)" using u by simp_all
  ultimately have "0 \<le> kappa_range hc" using assms in_unit_finite by (auto simp: graded_def intro!: float_diff_nonneg)
  moreover have f: "isfinite (kappa_range hc)" using assms unit_diff [OF i(2,1)] by (simp add: graded_def)
  moreover have "kappa_range hc \<noteq> 0" using assms unfolding graded_def by blast
  ultimately show "0 < kappa_range hc" by (cases "kappa_range hc") (auto simp: zero_float64_def)
  show "isfinite (kappa_range hc)" by (rule f)
  show "in_unit (kappa_1 hc)" using assms i by (simp add: graded_def)
qed

lemma compute_haircut_graded:
  assumes "graded nl hc" and "in_unit s" and "s \<noteq> 0" and "s \<noteq> Fin 1"
  shows "compute_haircut nl hc s =
    Inr (py_min (py_max (fdiv (raw_sigmoid (libm_exp nl) s (hc_steepness hc) (hc_midpoint hc) - kappa_1 hc) (kappa_range hc)) 0) (Fin 1) + 0)"
proof -
  have "kappa_range hc \<noteq> 0" using assms(1) unfolding graded_def by blast
  then show ?thesis using assms(2-) in_unit_finite [OF assms(2)] by (simp add: compute_haircut_def divR_def)
qed

lemma compute_haircut_unit:
  assumes "graded nl hc" and "in_unit s"
  shows "\<exists>h. compute_haircut nl hc s = Inr h \<and> in_unit h"
proof (cases "s = 0 \<or> s = Fin 1")
  case True
  then show ?thesis by (auto simp: compute_haircut_def)
next
  case False
  let ?g = "raw_sigmoid (libm_exp nl) s (hc_steepness hc) (hc_midpoint hc)"
  have f: "isfinite s" using in_unit_finite [OF assms(2)] .
  have "in_unit ?g" using assms raw_sigmoid_unit sigmoid_argument(2) [of "hc_steepness hc" "hc_midpoint hc" s s] f by (auto simp: graded_def)
  then have "isfinite (?g - kappa_1 hc)" using unit_diff graded_range(3) [OF assms(1)] by blast
  then have "fdiv (?g - kappa_1 hc) (kappa_range hc) \<noteq> NaN" using graded_range(2) [OF assms(1)] by auto
  then show ?thesis using compute_haircut_graded [OF assms] False clamp_in_unit by simp
qed

lemma compute_haircut_antimono:
  assumes "graded nl hc" and "in_unit s" and "in_unit t" and "s \<le> t"
    and "compute_haircut nl hc s = Inr hs" and "compute_haircut nl hc t = Inr ht"
  shows "ht \<le> hs"
proof -
  have u: "in_unit hs" "in_unit ht" using compute_haircut_unit [OF assms(1)] assms(2,3,5,6) by fastforce+
  consider "s = 0" | "t = Fin 1" | "s \<noteq> 0" "t \<noteq> Fin 1" by blast
  then show ?thesis
  proof cases
    case 1
    then have "hs = Fin 1" using assms(2,5) in_unit_finite [OF assms(2)] by (simp add: compute_haircut_def)
    then show ?thesis using u by (simp add: in_unit_def)
  next
    case 2
    then have "ht = 0" using assms(3,6) in_unit_finite [OF assms(3)] by (simp add: compute_haircut_def)
    then show ?thesis using u by (simp add: in_unit_def)
  next
    case 3
    let ?g = "\<lambda>x. raw_sigmoid (libm_exp nl) x (hc_steepness hc) (hc_midpoint hc)"
    have ne: "s \<noteq> Fin 1" "t \<noteq> 0" using 3 assms(2,3,4) by (auto simp: in_unit_def dest: float_antisym)
    note g = graded_range [OF assms(1)]
    have "?g t \<le> ?g s" using assms in_unit_finite by (intro raw_sigmoid_antimono) (simp_all add: graded_def)
    then have "?g t - kappa_1 hc \<le> ?g s - kappa_1 hc" using float_add_mono [of "?g t" "?g s" "- kappa_1 hc"] in_unit_finite [OF g(3)]
      by (simp add: minus_float64_def)
    from fdiv_mono [OF this g(1,2)] show ?thesis
      using compute_haircut_graded [OF assms(1,2)] compute_haircut_graded [OF assms(1,3)] 3 ne assms(5,6)
      by (auto intro!: add_zero_mono clamp_mono)
  qed
qed

lemma clip_plus_zero:
  assumes "clip_documented nl"
  shows "np_clip nl x 0 (Fin 1) + 0 = NaN \<or> in_unit (np_clip nl x 0 (Fin 1) + 0)"
  using clip_NaN [OF assms] clip_in_unit [OF assms, of x] by (cases "x = NaN") simp_all

text \<open>What an assessment that returns has established: exactly what the constructor of the state checks.\<close>

lemma assess_InrD:
  assumes "assess nl eng bi = Inr a" and "clip_documented nl" and "graded nl (eng_haircut eng)"
  shows "list_all in_unit [as_haircut a, as_h_epi a, as_h_dir a, as_rho a, as_shock a]" "check_probabilities nl (as_probs a) = Inr ()"
proof -
  obtain h_epi h_dir rho probs where e: "compute_epistemic_entropy nl (eng_entropy eng) (bi_predictions bi) (bi_weights bi) (bi_aleatoric bi) (bi_epistemic bi) =
      Inr (h_epi, h_dir, rho, probs)"
    and sh: "compute_composite_shock (eng_haircut eng) h_epi rho (bi_beta bi) = Inr (as_shock a)"
    and h: "compute_haircut nl (eng_haircut eng) (as_shock a) = Inr (as_haircut a)"
    and f: "as_h_epi a = h_epi" "as_h_dir a = h_dir" "as_rho a = rho" "as_probs a = probs"
    using assms(1) by (auto simp: assess_def bindR_Inr_iff split: if_splits)
  have d: "compute_directional_entropy nl (eng_entropy eng) probs = Inr h_dir" and c: "h_epi = np_clip nl (h_dir * libm_sqrt nl rho) 0 (Fin 1) + 0"
    using e by (auto simp: compute_epistemic_entropy_def bindR_Inr_iff Let_def)
  have u: "in_unit h_epi" "in_unit rho" using sh by (auto simp: compute_composite_shock_def split: if_splits)
  have "h_dir \<noteq> NaN" using c u(1) clip_NaN [OF assms(2)] in_unit_finite [OF u(1)] by auto
  then have hd: "in_unit h_dir" using d clip_plus_zero [OF assms(2)] by (auto simp: compute_directional_entropy_def bindR_Inr_iff Let_def)
  have s: "in_unit (as_shock a)" using h by (auto simp: compute_haircut_def split: if_splits)
  have "in_unit (as_haircut a)" using compute_haircut_unit [OF assms(3) s] h by simp
  then show "list_all in_unit [as_haircut a, as_h_epi a, as_h_dir a, as_rho a, as_shock a]" using u hd s f by simp
  show "check_probabilities nl (as_probs a) = Inr ()" using d f by (simp add: compute_directional_entropy_def bindR_Inr_iff)
qed

lemma next_tier_bars: "0 \<le> active_bars_in_tier st \<Longrightarrow> next_tier c st cand shock = Inr (t, n) \<Longrightarrow> 1 \<le> n"
  by (auto simp: next_tier_def bindR_Inr_iff Let_def split: if_splits)

lemma evaluate_assessed:
  assumes "assess nl eng bi = Inr a" and "clip_documented nl" and "graded nl (eng_haircut eng)"
    and "0 \<le> active_bars_in_tier st" and "0 \<le> step_index st"
  shows "\<exists>d st'. evaluate nl eng st bi = Inr (d, st')"
proof -
  obtain t n where n: "next_tier (eng_config eng) st (candidate_tier (eng_config eng) bi (as_shock a)) (as_shock a) = Inr (t, n)"
    using next_tier_total by blast
  note u = assess_InrD [OF assms(1-3)]
  have fin: "list_all isfinite [as_haircut a, as_h_epi a, as_h_dir a, as_rho a, as_shock a]" using u(1) in_unit_finite by simp
  have th: "in_unit (tier_haircut t (as_haircut a))" using u(1) py_min_cases [of "Fin (1 / 2)" "as_haircut a"] by (auto simp: tier_haircut_def)
  have "1 \<le> n" using next_tier_bars [OF assms(4) n] .
  then show ?thesis using assms(1,5) n u fin th in_unit_finite [OF th]
    by (simp add: evaluate_def cb_state_new_def from_state_def cb_decision_new_def)
qed

section \<open>Properties\<close>

lemma engine_newD:
  assumes "engine_new nl (Some c) = Inr eng"
  shows "eng_config eng = c" "entropy_from_config c = Inr (eng_entropy eng)" "haircut_from_config nl c = Inr (eng_haircut eng)"
  using assms by (auto simp: engine_new_def bindR_Inr_iff)

lemma engine_graded:
  "engine_new nl (Some c) = Inr eng \<Longrightarrow> exp_documented (libm_exp nl) \<Longrightarrow> kappa_range (eng_haircut eng) \<noteq> 0 \<Longrightarrow> graded nl (eng_haircut eng)"
  by (rule graded_new [OF engine_newD(3) [unfolded haircut_from_config_def]])

lemma cb_state_newD: "cb_state_new nl st = Inr st' \<Longrightarrow> st' = st \<and> 0 \<le> active_bars_in_tier st \<and> 0 \<le> step_index st"
  by (auto simp: cb_state_new_def bindR_Inr_iff split: if_splits)

text \<open>An eighth, a quarter and so on are doubles.\<close>

lemma rnd64_eighths:
  "rnd64 (1 / 8) = Fin (1 / 8)" "rnd64 (1 / 4) = Fin (1 / 4)" "rnd64 (- (1 / 2)) = Fin (- (1 / 2))" "rnd64 (- (3 / 8)) = Fin (- (3 / 8))"
  "rnd64 (3 / 4) = Fin (3 / 4)"
  using rnd64_dyadic [of 1 "- 3"] rnd64_dyadic [of 1 "- 2"] rnd64_dyadic [of "- 1" "- 1"] rnd64_dyadic [of "- 3" "- 3"] rnd64_dyadic [of 3 "- 2"]
  by (simp_all add: two_pow_def)

definition sample_config :: cb_config where
  "sample_config =
     \<lparr>sign_threshold = Fin (1 / 8), caution_threshold = Fin (1 / 2), derisk_threshold = Fin (3 / 4), halt_threshold = Fin 1,
      recovery_threshold = Fin (1 / 4), dwell_time_bars = 2, haircut_steepness = Fin 16, haircut_midpoint = Fin (1 / 2),
      weight_entropy = Fin (1 / 2), weight_epistemic_ratio = Fin (1 / 4), weight_ambiguity = Fin (1 / 4), beta_min = Fin 1, beta_max = Fin 5\<rparr>"

definition sample_breaker :: cb_engine where
  "sample_breaker =
     \<lparr>eng_config = sample_config, eng_entropy = \<lparr>ec_sign_threshold = Fin (1 / 8), ec_epsilon_log = flit (1 / 10 ^ 30)\<rparr>,
      eng_haircut = \<lparr>hc_steepness = Fin 16, hc_midpoint = Fin (1 / 2), hc_weight_entropy = Fin (1 / 2), hc_weight_epistemic_ratio = Fin (1 / 4),
        hc_weight_ambiguity = Fin (1 / 4), hc_beta_min = Fin 1, hc_beta_max = Fin 5, kappa_0 = Fin 1, kappa_1 = Fin (1 / 2),
        kappa_range = Fin (1 / 2)\<rparr>\<rparr>"

definition sample_bar :: "bool \<Rightarrow> bar_input" where
  "sample_bar alarm =
     \<lparr>bi_predictions = [Fin 1], bi_weights = [Fin 1], bi_aleatoric = Fin 1, bi_epistemic = Fin 1, bi_beta = Fin 1, bi_cusum_shock = alarm,
      bi_regime_is_panic = alarm\<rparr>"

definition sample_cb_state :: "tier \<Rightarrow> int \<Rightarrow> cb_state" where
  "sample_cb_state t n =
     \<lparr>cb_tier = t, active_bars_in_tier = n, continuous_haircut = Fin 1, epistemic_entropy = 0, directional_entropy = 0, epistemic_ratio = 0,
      composite_shock_score = 0, directional_probabilities = [Fin 1, 0, 0], step_index = 0\<rparr>"

lemma tolerances: "0 \<le> flit (1 / 10 ^ n)"
  by (rule rnd64_nonneg) simp

lemma weights_sample: "weights_near_one (Fin (1 / 2)) (Fin (1 / 4)) (Fin (1 / 4))"
  using tolerances [of 6] by (auto simp: weights_near_one_def rnd64_eighths rnd64_half minus_float64_def less_float64_def)

lemma sample_config_ok: "cb_config_new sample_config = Inr sample_config"
  using weights_sample by (simp add: cb_config_new_def sample_config_def zero_float64_def)

lemma sample_sigmoid:
  "raw_sigmoid (libm_exp sample_numlib) 0 (Fin 16) (Fin (1 / 2)) = Fin 1"
  "raw_sigmoid (libm_exp sample_numlib) (Fin 1) (Fin 16) (Fin (1 / 2)) = Fin (1 / 2)"
  "raw_sigmoid (libm_exp sample_numlib) (Fin (1 / 8)) (Fin 16) (Fin (1 / 2)) = Fin 1"
  by (simp_all add: raw_sigmoid_def sample_numlib_def minus_float64_def rnd64_eighths rnd64_half Let_def zero_float64_def)

lemma sample_breaker_ok: "engine_new sample_numlib (Some sample_config) = Inr sample_breaker"
proof -
  obtain e where e: "flit (1 / 10 ^ 30) = Fin e" "0 < e" using flit_power_ten [of 30] by auto
  have "entropy_from_config sample_config = Inr \<lparr>ec_sign_threshold = Fin (1 / 8), ec_epsilon_log = flit (1 / 10 ^ 30)\<rparr>"
    unfolding entropy_from_config_def entropy_calc_new_def e(1) using e(2) by (simp add: sample_config_def zero_float64_def)
  moreover have "haircut_from_config sample_numlib sample_config = Inr (eng_haircut sample_breaker)"
    using weights_sample sample_sigmoid rnd64_half
    by (simp add: haircut_from_config_def haircut_calc_new_def sample_config_def sample_breaker_def Let_def zero_float64_def minus_float64_def)
  ultimately show ?thesis by (simp add: engine_new_def sample_breaker_def sample_config_def)
qed

definition sample_assessment :: assessment where
  "sample_assessment =
     \<lparr>as_h_epi = 0, as_h_dir = 0, as_rho = Fin (1 / 2), as_probs = [Fin 1, 0, 0], as_shock = Fin (1 / 8), as_haircut = Fin 1\<rparr>"

lemma sample_probabilities: "check_probabilities sample_numlib [Fin 1, 0, 0] = Inr ()"
  using tolerances [of 10]
  by (auto simp: check_probabilities_def sample_numlib_def minus_float64_def less_float64_def zero_float64_def)

lemma log_three_finite: "\<exists>b. log_three = Fin b"
proof -
  have "rnd64 1 \<le> log_three" "log_three \<le> rnd64 2" unfolding log_three_def by (rule rnd64_mono; simp)+
  then have "isfinite log_three" using between_finite [of 1 log_three 2] by simp
  then show ?thesis by (simp add: isfinite_iff)
qed

lemma sample_assess: "assess sample_numlib sample_breaker (sample_bar b) = Inr sample_assessment"
proof -
  obtain l where l: "log_three = Fin l" using log_three_finite by blast
  obtain e where e: "flit (1 / 10 ^ 30) = Fin e" using flit_power_ten [of 30] by auto
  have "compute_directional_consensus sample_numlib (eng_entropy sample_breaker) [Fin 1] [Fin 1] = Inr [Fin 1, 0, 0]"
    using tolerances [of 10]
    by (auto simp: compute_directional_consensus_def sample_breaker_def masked_sum_def sample_numlib_def minus_float64_def less_float64_def
        zero_float64_def Let_def py_max_def)
  moreover have "compute_directional_entropy sample_numlib (eng_entropy sample_breaker) [Fin 1, 0, 0] = Inr 0"
    unfolding compute_directional_entropy_def sample_probabilities l
    by (simp add: sample_numlib_def zero_float64_def Let_def)
  moreover have "compute_epistemic_ratio sample_numlib (Fin 1) (Fin 1) = Inr (Fin (1 / 2))"
    using rnd64_half by (simp add: compute_epistemic_ratio_def divR_def sample_numlib_def zero_float64_def)
  ultimately have "compute_epistemic_entropy sample_numlib (eng_entropy sample_breaker) [Fin 1] [Fin 1] (Fin 1) (Fin 1) = Inr (0, 0, Fin (1 / 2), [Fin 1, 0, 0])"
    by (simp add: compute_epistemic_entropy_def Let_def sample_numlib_def zero_float64_def)
  moreover have "compute_composite_shock (eng_haircut sample_breaker) 0 (Fin (1 / 2)) (Fin 1) = Inr (Fin (1 / 8))"
    using rnd64_eighths
    by (simp add: compute_composite_shock_def sample_breaker_def in_unit_def divR_def minus_float64_def zero_float64_def py_min_def py_max_def Let_def)
  moreover have "compute_haircut sample_numlib (eng_haircut sample_breaker) (Fin (1 / 8)) = Inr (Fin 1)"
    using sample_sigmoid(3) rnd64_half
    by (simp add: compute_haircut_def sample_breaker_def in_unit_def divR_def minus_float64_def zero_float64_def py_min_def py_max_def)
  ultimately show ?thesis by (simp add: assess_def sample_bar_def sample_assessment_def zero_float64_def)
qed

text \<open>C7: An alarm, or a shock at or beyond the halt threshold, on a bar whose scores can be computed (and a sigmoid that is not flat),
  leaves the breaker halted with nothing executed, whatever its tier was. From a tier below \<open>HALT\<close> none of the next \<open>2 d - 1\<close> bars
  executes anything, whatever they are (\<open>d\<close> the dwell time). A breaker that has been halted for \<open>n\<close> bars does not start its dwell again:
  there it is the next \<open>d + max 0 (d - n - 1)\<close> bars.\<close>

theorem circuit_halt_cooldown:
  assumes "cb_config_new c = Inr c" and "engine_new nl (Some c) = Inr eng" and "clip_documented nl" and "exp_documented (libm_exp nl)"
    and "kappa_range (eng_haircut eng) \<noteq> 0" and "cb_state_new nl st = Inr st" and "assess nl eng bi = Inr a"
    and "bi_cusum_shock bi \<and> bi_regime_is_panic bi \<or> halt_threshold c \<le> as_shock a"
    and "int (length bs) \<le> (if cb_tier st = HALT then dwell_time_bars c + max 0 (dwell_time_bars c - active_bars_in_tier st - 1) else 2 * dwell_time_bars c - 1)"
  shows "\<exists>d st'. evaluate nl eng st bi = Inr (d, st') \<and> is_halted d \<and> execution_haircut d = 0 \<and>
    (\<forall>d' \<in> set (fst (run_bars nl eng st' bs)). execution_haircut d' = 0 \<and> (is_halted d' \<or> is_derisking d'))"
proof -
  note cfg = cb_config_newD [OF assms(1)] and st = cb_state_newD [OF assms(6)]
  have ec: "eng_config eng = c" by (rule engine_newD(1) [OF assms(2)])
  obtain d st' where ev: "evaluate nl eng st bi = Inr (d, st')"
    using evaluate_assessed [OF assms(7,3) engine_graded [OF assms(2,4,5)]] st by blast
  have "next_tier c st (candidate_tier c bi (as_shock a)) (as_shock a) = Inr (HALT, if cb_tier st = HALT then active_bars_in_tier st + 1 else 1)"
    using candidate_halt [OF assms(8)] next_tier_halt by simp
  then have t: "cb_tier st' = HALT" "active_bars_in_tier st' = (if cb_tier st = HALT then active_bars_in_tier st + 1 else 1)" "is_halted d" "execution_haircut d = 0"
    using ev assms(7) ec by (auto elim!: evaluate_InrE simp: tier_haircut_def)
  have "int (length bs) \<le> locked_bars (eng_config eng) st'" using t(1,2) assms(9) cfg(2) ec by (auto simp: locked_bars_def Let_def)
  moreover have "0 \<le> active_bars_in_tier st'" using t(2) st by simp
  ultimately show ?thesis using ev t(3,4) locked_run [of eng bs st' _ nl] cfg(2) ec by blast
qed

theorem circuit_halt_cooldown_witness:
  "\<exists>d st'. evaluate sample_numlib sample_breaker (sample_cb_state NORMAL 7) (sample_bar True) = Inr (d, st') \<and> is_halted d \<and> execution_haircut d = 0 \<and>
    (\<forall>d' \<in> set (fst (run_bars sample_numlib sample_breaker st' (replicate 3 (sample_bar False)))).
      execution_haircut d' = 0 \<and> (is_halted d' \<or> is_derisking d'))"
proof (rule circuit_halt_cooldown [OF sample_config_ok sample_breaker_ok sample_laws(1,2)])
  show "cb_state_new sample_numlib (sample_cb_state NORMAL 7) = Inr (sample_cb_state NORMAL 7)"
    using sample_probabilities by (simp add: cb_state_new_def sample_cb_state_def)
  show "assess sample_numlib sample_breaker (sample_bar True) = Inr sample_assessment" by (rule sample_assess)
qed (simp_all add: sample_breaker_def sample_bar_def sample_config_def sample_cb_state_def zero_float64_def)

lemma recovery_run:
  assumes "cb_config_new (eng_config eng) = Inr (eng_config eng)" and "clip_documented nl" and "graded nl (eng_haircut eng)"
    and "list_all (calm nl eng) bs" and "0 \<le> step_index st"
    and "cb_tier st = recovery_tier (dwell_time_bars (eng_config eng)) n" and "active_bars_in_tier st = recovery_bars (dwell_time_bars (eng_config eng)) n"
  shows "cb_tier (snd (run_bars nl eng st bs)) = recovery_tier (dwell_time_bars (eng_config eng)) (n + length bs) \<and>
    length (fst (run_bars nl eng st bs)) = length bs"
  using assms(4-)
proof (induction bs arbitrary: st n)
  case (Cons b bs)
  let ?c = "eng_config eng"
  note cfg = cb_config_newD [OF assms(1)]
  from Cons.prems(1) obtain a where a: "assess nl eng b = Inr a" "as_shock a < recovery_threshold ?c" "\<not> (bi_cusum_shock b \<and> bi_regime_is_panic b)"
    by (auto simp: calm_def split: sum.splits)
  have "0 \<le> active_bars_in_tier st" using Cons.prems(4) cfg(2) by (auto simp: recovery_bars_def)
  then obtain d st' where ev: "evaluate nl eng st b = Inr (d, st')" using evaluate_assessed [OF a(1) assms(2,3)] Cons.prems(2) by blast
  have "candidate_tier ?c b (as_shock a) = NORMAL" using calm_candidate [OF assms(1) a(2,3)] .
  then have t: "cb_tier st' = recovery_tier (dwell_time_bars ?c) (Suc n)" "active_bars_in_tier st' = recovery_bars (dwell_time_bars ?c) (Suc n)"
      "step_index st' = step_index st + 1"
    using ev a(1) next_tier_recovery [OF cfg(2) a(2) Cons.prems(3,4)] by (auto elim!: evaluate_InrE)
  show ?case using Cons.IH [of st' "Suc n"] t Cons.prems(1,2) ev by (auto split: prod.splits)
qed simp

text \<open>C8: Calm bars bring a breaker that has just halted down on an exact schedule: \<open>d\<close> bars to \<open>DERISK\<close>, \<open>d\<close> more to \<open>CAUTION\<close>, one more to \<open>NORMAL\<close>.\<close>

theorem circuit_recovery_schedule:
  assumes "cb_config_new c = Inr c" and "engine_new nl (Some c) = Inr eng" and "clip_documented nl" and "exp_documented (libm_exp nl)"
    and "kappa_range (eng_haircut eng) \<noteq> 0" and "cb_state_new nl st = Inr st" and "cb_tier st = HALT" and "active_bars_in_tier st = 1"
    and "list_all (calm nl eng) bs"
  shows "cb_tier (snd (run_bars nl eng st bs)) =
      (let n = int (length bs); d = dwell_time_bars c in if n < d then HALT else if n < 2 * d then DERISK else if n = 2 * d then CAUTION else NORMAL) \<and>
    length (fst (run_bars nl eng st bs)) = length bs"
proof -
  have ec: "eng_config eng = c" by (rule engine_newD(1) [OF assms(2)])
  note cfg = cb_config_newD [OF assms(1)]
  have "cb_tier st = recovery_tier (dwell_time_bars c) 0" "active_bars_in_tier st = recovery_bars (dwell_time_bars c) 0"
    using assms(7,8) cfg(2) by (simp_all add: recovery_tier_def recovery_bars_def)
  from recovery_run [of eng nl bs st 0, OF _ assms(3) engine_graded [OF assms(2,4,5)] assms(9)] this show ?thesis
    using assms(1) ec cb_state_newD [OF assms(6)] by (simp add: recovery_tier_def Let_def)
qed

theorem circuit_recovery_schedule_witness:
  "cb_tier (snd (run_bars sample_numlib sample_breaker (sample_cb_state HALT 1) (replicate 4 (sample_bar False)))) = CAUTION"
proof -
  have "cb_tier (snd (run_bars sample_numlib sample_breaker (sample_cb_state HALT 1) (replicate 4 (sample_bar False)))) =
      (let n = int (length (replicate 4 (sample_bar False))); d = dwell_time_bars sample_config
       in if n < d then HALT else if n < 2 * d then DERISK else if n = 2 * d then CAUTION else NORMAL) \<and>
    length (fst (run_bars sample_numlib sample_breaker (sample_cb_state HALT 1) (replicate 4 (sample_bar False)))) = length (replicate 4 (sample_bar False))"
  proof (rule circuit_recovery_schedule [OF sample_config_ok sample_breaker_ok sample_laws(1,2)])
    show "cb_state_new sample_numlib (sample_cb_state HALT 1) = Inr (sample_cb_state HALT 1)"
      using sample_probabilities by (simp add: cb_state_new_def sample_cb_state_def)
    have "calm sample_numlib sample_breaker (sample_bar False)"
      unfolding calm_def sample_assess by (simp add: sample_bar_def sample_assessment_def sample_breaker_def sample_config_def)
    then show "list_all (calm sample_numlib sample_breaker) (replicate 4 (sample_bar False))" by (simp add: list_all_iff)
  qed (simp_all add: sample_breaker_def sample_cb_state_def zero_float64_def)
  then show ?thesis by (simp add: sample_config_def)
qed

text \<open>C10: For a calculator whose sigmoid is not flat (its values at the two end points differ; see \<open>flat_sigmoid_raises\<close>) and a monotone
  \<^verbatim>\<open>exp\<close>, the haircut is defined for all shocks between zero and one, is one at zero and zero at one, and never grows with the shock. It
  need not fall strictly (\<open>haircut_not_strict\<close>).\<close>

theorem haircut_falls_with_shock:
  assumes "haircut_calc_new nl steep mid we wr wa b0 b1 = Inr hc" and "exp_documented (libm_exp nl)" and "kappa_range hc \<noteq> 0"
    and "0 \<le> s" and "s \<le> t" and "t \<le> Fin 1"
  shows "\<exists>hs ht. compute_haircut nl hc s = Inr hs \<and> compute_haircut nl hc t = Inr ht \<and> 0 \<le> ht \<and> ht \<le> hs \<and> hs \<le> Fin 1 \<and>
    (s = 0 \<longrightarrow> hs = Fin 1) \<and> (t = Fin 1 \<longrightarrow> ht = 0)"
proof -
  have g: "graded nl hc" using graded_new [OF assms(1-3)] .
  have u: "in_unit s" "in_unit t" using assms(4-6) float_le_trans [of s t "Fin 1"] float_le_trans [of 0 s t] by (simp_all add: in_unit_def)
  from compute_haircut_unit [OF g u(1)] obtain hs where hs: "compute_haircut nl hc s = Inr hs" "in_unit hs" by blast
  from compute_haircut_unit [OF g u(2)] obtain ht where ht: "compute_haircut nl hc t = Inr ht" "in_unit ht" by blast
  have "ht \<le> hs" using compute_haircut_antimono [OF g u assms(5) hs(1) ht(1)] .
  moreover have "s = 0 \<longrightarrow> hs = Fin 1" using hs(1) by (auto simp: compute_haircut_def)
  moreover have "t = Fin 1 \<longrightarrow> ht = 0" using ht(1) by (auto simp: compute_haircut_def)
  ultimately show ?thesis using hs ht by (auto simp: in_unit_def)
qed

theorem haircut_falls_with_shock_witness:
  "\<exists>hs ht. compute_haircut sample_numlib (eng_haircut sample_breaker) (Fin (1 / 8)) = Inr hs \<and>
    compute_haircut sample_numlib (eng_haircut sample_breaker) (Fin (7 / 8)) = Inr ht \<and> 0 \<le> ht \<and> ht \<le> hs \<and> hs \<le> Fin 1"
proof -
  have "haircut_calc_new sample_numlib (Fin 16) (Fin (1 / 2)) (Fin (1 / 2)) (Fin (1 / 4)) (Fin (1 / 4)) (Fin 1) (Fin 5) = Inr (eng_haircut sample_breaker)"
    using engine_newD(3) [OF sample_breaker_ok] by (simp add: haircut_from_config_def sample_config_def)
  from haircut_falls_with_shock [OF this sample_laws(2), of "Fin (1 / 8)" "Fin (7 / 8)"] show ?thesis
    by (auto simp: sample_breaker_def zero_float64_def)
qed

text \<open>C9: Only the scores of a bar can raise: neither the move between tiers nor the constructors of the new state and of the
  decision ever do, and the tier never falls by more than one.\<close>

theorem circuit_evaluate_total:
  assumes "engine_new nl (Some c) = Inr eng" and "clip_documented nl" and "exp_documented (libm_exp nl)" and "kappa_range (eng_haircut eng) \<noteq> 0"
    and "cb_state_new nl st = Inr st"
  shows "(case assess nl eng bi of
      Inl e \<Rightarrow> evaluate nl eng st bi = Inl e
    | Inr a \<Rightarrow> \<exists>d st'. evaluate nl eng st bi = Inr (d, st') \<and> cb_state_new nl st' = Inr st' \<and> tier_value (cb_tier st) - 1 \<le> tier_value (cb_tier st') \<and>
        cb_tier st' \<ge> min (cb_tier st) (candidate_tier c bi (as_shock a)) \<and> 0 \<le> execution_haircut d \<and> execution_haircut d \<le> as_haircut a)"
proof (cases "assess nl eng bi")
  case (Inl e)
  then show ?thesis by (simp add: evaluate_def)
next
  case (Inr a)
  have ec: "eng_config eng = c" by (rule engine_newD(1) [OF assms(1)])
  obtain d st' where ev: "evaluate nl eng st bi = Inr (d, st')"
    using evaluate_assessed [OF Inr assms(2) engine_graded [OF assms(1,3,4)]] cb_state_newD [OF assms(5)] by blast
  from ev have st: "cb_state_new nl st' = Inr st'"
    by (auto simp: evaluate_def from_state_def cb_decision_new_def bindR_Inr_iff cb_state_new_def split: if_splits)
  from ev Inr ec have n: "next_tier c st (candidate_tier c bi (as_shock a)) (as_shock a) = Inr (cb_tier st', active_bars_in_tier st')"
    and h: "execution_haircut d = tier_haircut (cb_tier st') (as_haircut a)" by (auto elim: evaluate_InrE)
  have "tier_value (cb_tier st) - 1 \<le> tier_value (cb_tier st') \<and> cb_tier st' \<ge> min (cb_tier st) (candidate_tier c bi (as_shock a))"
    using n by (cases "cb_tier st"; cases "candidate_tier c bi (as_shock a)")
      (auto simp: next_tier_def tier_of_def tier_order_defs min_def Let_def split: if_splits)
  moreover have "in_unit (as_haircut a)" using assess_InrD(1) [OF Inr assms(2) engine_graded [OF assms(1,3,4)]] by simp
  then have "0 \<le> execution_haircut d \<and> execution_haircut d \<le> as_haircut a"
    unfolding h by (cases "as_haircut a") (auto simp: tier_haircut_def in_unit_def py_min_def)
  ultimately show ?thesis using Inr ev st by auto
qed

theorem circuit_evaluate_total_witness:
  "\<exists>d st'. evaluate sample_numlib sample_breaker (sample_cb_state DERISK 2) (sample_bar False) = Inr (d, st') \<and> CAUTION \<le> cb_tier st'"
proof -
  have "cb_state_new sample_numlib (sample_cb_state DERISK 2) = Inr (sample_cb_state DERISK 2)"
    using sample_probabilities by (simp add: cb_state_new_def sample_cb_state_def)
  from circuit_evaluate_total [OF sample_breaker_ok sample_laws(1,2) _ this, of "sample_bar False"] show ?thesis
    unfolding sample_assess by (auto simp: sample_breaker_def zero_float64_def sample_cb_state_def less_eq_tier_def)
qed

text \<open>The haircut is not strictly decreasing: a steep sigmoid saturates, and different shocks give the same haircut.\<close>

theorem haircut_not_strict:
  "\<exists>hc. haircut_calc_new nl (Fin 2048) (Fin (1 / 2)) (Fin (1 / 2)) (Fin (1 / 4)) (Fin (1 / 4)) (Fin 1) (Fin 5) = Inr hc \<and>
     compute_haircut nl hc (Fin (3 / 4)) = Inr 0 \<and> compute_haircut nl hc (Fin 1) = Inr 0"
proof -
  have x: "Fin 2048 * (0 - Fin (1 / 2)) = Fin (- 1024)" "Fin 2048 * (Fin 1 - Fin (1 / 2)) = Fin 1024" "Fin 2048 * (Fin (3 / 4) - Fin (1 / 2)) = Fin 512"
    using rnd64_half rnd64_eighths rnd64_of_int [of 1024] rnd64_of_int [of "- 1024"] rnd64_of_int [of 512] by (simp_all add: minus_float64_def zero_float64_def)
  have g: "raw_sigmoid e 0 (Fin 2048) (Fin (1 / 2)) = Fin 1" "raw_sigmoid e (Fin 1) (Fin 2048) (Fin (1 / 2)) = 0"
    "raw_sigmoid e (Fin (3 / 4)) (Fin 2048) (Fin (1 / 2)) = 0" for e
    by (simp_all add: raw_sigmoid_def x Let_def)
  show ?thesis
    using weights_sample by (simp add: haircut_calc_new_def g g [unfolded zero_float64_def] compute_haircut_def in_unit_def divR_def py_min_def py_max_def minus_float64_def zero_float64_def Let_def)
qed

text \<open>A flat sigmoid: the configuration accepts any positive steepness, but one so small that the sigmoid rounds to the same value at
  both ends makes the range zero, and every evaluation with a shock strictly between zero and one divides by it.\<close>

theorem flat_sigmoid_raises:
  assumes "\<forall>x. \<bar>x\<bar> \<le> Fin (1 / 2) \<longrightarrow> libm_exp nl (Fin (two_pow (- 100)) * x) = Fin 1"
  shows "cb_config_new (sample_config\<lparr>haircut_steepness := Fin (two_pow (- 100))\<rparr>) = Inr (sample_config\<lparr>haircut_steepness := Fin (two_pow (- 100))\<rparr>) \<and>
    (\<exists>hc. haircut_from_config nl (sample_config\<lparr>haircut_steepness := Fin (two_pow (- 100))\<rparr>) = Inr hc \<and>
      (\<forall>s. 0 < s \<and> s < Fin 1 \<longrightarrow> compute_haircut nl hc s = Inl (PyErr ZeroDivisionError)))"
proof -
  let ?k = "Fin (two_pow (- 100))"
  let ?c = "sample_config\<lparr>haircut_steepness := ?k\<rparr>"
  have "\<bar>(0::float64) - Fin (1 / 2)\<bar> \<le> Fin (1 / 2)" "\<bar>Fin 1 - Fin (1 / 2)\<bar> \<le> Fin (1 / 2)"
    using rnd64_half rnd64_eighths(3) by (simp_all add: minus_float64_def zero_float64_def)
  then have e: "libm_exp nl (?k * (0 - Fin (1 / 2))) = Fin 1" "libm_exp nl (?k * (Fin 1 - Fin (1 / 2))) = Fin 1" using assms by blast+
  have small: "\<bar>two_pow (- 100) / 2\<bar> \<le> 1" using two_pow_mono [of "- 100" 0] by (simp add: two_pow_def [of 0])
  have x: "\<not> Fin 500 < ?k * (0 - Fin (1 / 2))" "\<not> ?k * (0 - Fin (1 / 2)) < Fin (- 500)" "\<not> Fin 500 < ?k * (Fin 1 - Fin (1 / 2))"
    "\<not> ?k * (Fin 1 - Fin (1 / 2)) < Fin (- 500)"
    using small rnd64_half rnd64_eighths(3) rnd64_mono [of "two_pow (- 100) / 2" 1] rnd64_nonneg [of "two_pow (- 100) / 2"]
      rnd64_mono [of "- 1" "- (two_pow (- 100) / 2)"] rnd64_nonpos [of "- (two_pow (- 100) / 2)"]
      float_less_le_trans [of "Fin 500" "rnd64 (two_pow (- 100) / 2)" "Fin 1"] float_le_less_trans [of "Fin (- 1)" "rnd64 (- (two_pow (- 100) / 2))" "Fin (- 500)"]
      float_less_le_trans [of "Fin 500" "rnd64 (- (two_pow (- 100) / 2))" 0] float_le_less_trans [of 0 "rnd64 (two_pow (- 100) / 2)" "Fin (- 500)"]
    by (auto simp: minus_float64_def zero_float64_def)
  have pos: "\<not> two_pow (- 100) \<le> 0" using two_pow_pos [of "- 100"] by linarith
  have cfg: "cb_config_new ?c = Inr ?c" using weights_sample pos by (simp add: cb_config_new_def sample_config_def zero_float64_def)
  define hc where "hc = \<lparr>hc_steepness = ?k, hc_midpoint = Fin (1 / 2), hc_weight_entropy = Fin (1 / 2), hc_weight_epistemic_ratio = Fin (1 / 4),
        hc_weight_ambiguity = Fin (1 / 4), hc_beta_min = Fin 1, hc_beta_max = Fin 5, kappa_0 = Fin (1 / 2), kappa_1 = Fin (1 / 2), kappa_range = 0\<rparr>"
  have "raw_sigmoid (libm_exp nl) 0 ?k (Fin (1 / 2)) = Fin (1 / 2)" "raw_sigmoid (libm_exp nl) (Fin 1) ?k (Fin (1 / 2)) = Fin (1 / 2)"
    unfolding raw_sigmoid_def Let_def e using x rnd64_half by simp_all
  then have "haircut_from_config nl ?c = Inr hc"
    using weights_sample rnd64_half pos
    by (simp add: haircut_from_config_def haircut_calc_new_def sample_config_def hc_def Let_def zero_float64_def minus_float64_def)
  moreover have "compute_haircut nl hc s = Inl (PyErr ZeroDivisionError)" if "0 < s" "s < Fin 1" for s
  proof -
    have "isfinite s" "in_unit s" "s \<noteq> 0" "s \<noteq> Fin 1" using that by (cases s; auto simp: in_unit_def zero_float64_def)+
    then show ?thesis by (simp add: compute_haircut_def divR_def hc_def)
  qed
  ultimately show ?thesis using cfg by blast
qed

end
