(* ===== verification/Chromosomes.thy ===== *)
theory Chromosomes
  imports Num_Lib
begin

text \<open>
  \<^verbatim>\<open>src/src/quant/analytics/chromosomes.py\<close>: the parameters of a strategy as four blocks of genes, their registry with bounds and
  scales, the conversion to and from dictionaries, and the codec between a chromosome and a vector in the unit cube.

  A dictionary is an association list whose values are Python values, lists or dictionaries. \<open>text_env\<close> holds \<^verbatim>\<open>float(text)\<close> and
  \<^verbatim>\<open>int(text)\<close>. The conversions to the configurations of other modules are not modelled.

  Lemmas: whatever dictionary is read, each gene is within its declared bounds or NaN, and the fast timescale is shorter than the
  slow one; writing and reading a chromosome in bounds gives it unchanged; encoding and decoding is total and keeps the discrete genes exactly.
\<close>

section \<open>Genes\<close>

datatype scale_type = LINEAR | LOGARITHMIC | SOFTMAX_LOGIT | DISCRETE_INT

record gene_spec =
  g_name :: string
  g_block :: string
  g_scale :: scale_type
  g_lower :: float64
  g_upper :: float64
  g_default :: float64
  g_step :: float64

definition gene_spec_new :: "gene_spec \<Rightarrow> gene_spec res" where
  "gene_spec_new g =
     (if g_lower g \<ge> g_upper g then Inl (PyErr ValueError)
      else if g_scale g = LOGARITHMIC \<and> g_lower g \<le> 0 then Inl (PyErr ValueError)
      else if g_step g \<le> 0 then Inl (PyErr ValueError)
      else Inr g)"

definition gene :: "string \<Rightarrow> string \<Rightarrow> scale_type \<Rightarrow> float64 \<Rightarrow> float64 \<Rightarrow> float64 \<Rightarrow> float64 \<Rightarrow> gene_spec" where
  "gene n b s lo hi d st = \<lparr>g_name = n, g_block = b, g_scale = s, g_lower = lo, g_upper = hi, g_default = d, g_step = st\<rparr>"

definition GENE_REGISTRY :: "gene_spec list" where
  "GENE_REGISTRY =
     [gene ''tau_slow'' ''repr'' LOGARITHMIC (Fin 14400) (Fin 604800) (Fin 86400) (Fin 1),
      gene ''tau_ratio'' ''repr'' LINEAR (flit (2 / 100)) (flit (50 / 100)) (flit (10 / 100)) (Fin 1),
      gene ''alpha_decay'' ''repr'' LINEAR 0 (Fin 1) (flit (50 / 100)) (Fin 1),
      gene ''fractional_d'' ''repr'' LINEAR (flit (5 / 100)) (flit (95 / 100)) (flit (40 / 100)) (Fin 1),
      gene ''ambiguity_temp'' ''game'' LOGARITHMIC (flit (5 / 100)) (Fin 5) (Fin 1) (Fin 1),
      gene ''risk_aversion'' ''game'' LINEAR (flit (10 / 100)) (Fin 10) (Fin 1) (Fin 1),
      gene ''predatory_intensity'' ''game'' LINEAR 0 (Fin 1) (flit (25 / 100)) (Fin 1),
      gene ''logit_bull'' ''game'' SOFTMAX_LOGIT (Fin (- 2)) (Fin 2) 0 (Fin 1),
      gene ''logit_bear'' ''game'' SOFTMAX_LOGIT (Fin (- 2)) (Fin 2) 0 (Fin 1),
      gene ''logit_panic'' ''game'' SOFTMAX_LOGIT (Fin (- 2)) (Fin 2) (Fin (- 1)) (Fin 1),
      gene ''execution_horizon'' ''infer'' DISCRETE_INT (Fin 1) (Fin 20) (Fin 5) (Fin 1),
      gene ''hyperbolic_decay'' ''infer'' LINEAR (flit (1 / 100)) (Fin 2) (flit (50 / 100)) (Fin 1),
      gene ''profit_take_mult'' ''infer'' LINEAR (flit (50 / 100)) (Fin 5) (Fin 2) (Fin 1),
      gene ''stop_loss_mult'' ''infer'' LINEAR (flit (50 / 100)) (Fin 5) (Fin 2) (Fin 1),
      gene ''holding_period'' ''infer'' DISCRETE_INT (Fin 5) (Fin 100) (Fin 20) (Fin 5),
      gene ''meta_label_thresh'' ''infer'' LINEAR (flit (40 / 100)) (flit (85 / 100)) (flit (50 / 100)) (Fin 1),
      gene ''vol_target'' ''risk'' LINEAR (flit (5 / 100)) (flit (40 / 100)) (flit (15 / 100)) (Fin 1),
      gene ''max_weight'' ''risk'' LINEAR (flit (5 / 100)) (flit (50 / 100)) (flit (30 / 100)) (Fin 1),
      gene ''max_drawdown_limit'' ''risk'' LINEAR (flit (2 / 100)) (flit (30 / 100)) (flit (10 / 100)) (Fin 1),
      gene ''turnover_budget'' ''risk'' LINEAR (flit (5 / 100)) (Fin 1) (flit (50 / 100)) (Fin 1)]"

text \<open>\<^verbatim>\<open>_GENE_MAP[name].default_value\<close>; the names the code looks up are all in the registry.\<close>

definition gene_default :: "string \<Rightarrow> float64" where
  "gene_default n = (case map_of (map (\<lambda>g. (g_name g, g_default g)) GENE_REGISTRY) n of Some d \<Rightarrow> d | None \<Rightarrow> NaN)"

section \<open>Chromosomes\<close>

record repr_chromosome =
  tau_slow :: float64
  tau_ratio :: float64
  alpha_decay :: float64
  fractional_d :: float64

record game_chromosome =
  ambiguity_temp :: float64
  risk_aversion :: float64
  predatory_intensity :: float64
  logit_bull :: float64
  logit_bear :: float64
  logit_panic :: float64

record infer_chromosome =
  execution_horizon :: int
  hyperbolic_decay :: float64
  profit_take_mult :: float64
  stop_loss_mult :: float64
  holding_period :: int
  meta_label_thresh :: float64

record risk_chromosome =
  vol_target :: float64
  max_weight :: float64
  max_drawdown_limit :: float64
  turnover_budget :: float64

record strategy_chromosome =
  c_representation :: repr_chromosome
  c_game_theory :: game_chromosome
  c_inference :: infer_chromosome
  c_risk :: risk_chromosome

definition tau_fast :: "repr_chromosome \<Rightarrow> float64" where
  "tau_fast r = tau_ratio r * tau_slow r"

definition regime_priors :: "numlib \<Rightarrow> game_chromosome \<Rightarrow> float64 list" where
  "regime_priors nl g =
     (let logits = [logit_bull g, logit_bear g, logit_panic g];
          shifted = map (\<lambda>x. x - np_amax nl logits) logits;
          exp_logits = map (np_exp nl) shifted
      in map (\<lambda>x. fdiv x (np_sum nl exp_logits)) exp_logits)"

section \<open>Dictionaries\<close>

datatype jval = JV pyval | JList "pyval list" | JDict "(string \<times> jval) list"

record text_env =
  float_of_text :: "string \<Rightarrow> float64 res"
  int_of_text :: "string \<Rightarrow> int res"

fun j_float :: "text_env \<Rightarrow> jval \<Rightarrow> float64 res" where
  "j_float te (JV v) = py_float (float_of_text te) v"
| "j_float te _ = Inl (PyErr TypeError)"

text \<open>\<^verbatim>\<open>int(v)\<close>\<close>

fun j_int :: "text_env \<Rightarrow> jval \<Rightarrow> int res" where
  "j_int te (JV (PInt i)) = Inr i"
| "j_int te (JV (PFloat x)) = py_int x"
| "j_int te (JV (PBool b)) = Inr (if b then 1 else 0)"
| "j_int te (JV (PStr s)) = int_of_text te s"
| "j_int te (JV (PEnum c s)) = int_of_text te s"
| "j_int te _ = Inl (PyErr TypeError)"

abbreviation JF :: "float64 \<Rightarrow> jval" where
  "JF x \<equiv> JV (PFloat x)"

definition to_dict :: "numlib \<Rightarrow> strategy_chromosome \<Rightarrow> jval" where
  "to_dict nl c =
     (let r = c_representation c; g = c_game_theory c; i = c_inference c; k = c_risk c
      in JDict
        [(''chromosome_repr'', JDict
           [(''tau_slow'', JF (tau_slow r)), (''tau_ratio'', JF (tau_ratio r)), (''tau_fast'', JF (tau_fast r)), (''alpha'', JF (alpha_decay r)),
            (''alpha_decay'', JF (alpha_decay r)), (''fractional_d'', JF (fractional_d r))]),
         (''chromosome_game'', JDict
           [(''ambiguity_temp'', JF (ambiguity_temp g)), (''risk_aversion'', JF (risk_aversion g)), (''risk_aversion_lambda'', JF (risk_aversion g)),
            (''predatory_intensity'', JF (predatory_intensity g)), (''logit_bull'', JF (logit_bull g)), (''logit_bear'', JF (logit_bear g)),
            (''logit_panic'', JF (logit_panic g)), (''belief_prior'', JList (map PFloat (regime_priors nl g)))]),
         (''chromosome_infer'', JDict
           [(''execution_horizon'', JV (PInt (execution_horizon i))), (''hyperbolic_decay'', JF (hyperbolic_decay i)),
            (''profit_take_mult'', JF (profit_take_mult i)), (''stop_loss_mult'', JF (stop_loss_mult i)),
            (''holding_period'', JV (PInt (holding_period i))), (''meta_label_thresh'', JF (meta_label_thresh i)),
            (''model_depth'', JV (PInt 3)), (''sensitivity'', JF (meta_label_thresh i))]),
         (''chromosome_risk'', JDict
           [(''vol_target'', JF (vol_target k)), (''max_weight'', JF (max_weight k)), (''max_drawdown_limit'', JF (max_drawdown_limit k)),
            (''turnover_budget'', JF (turnover_budget k))])])"

text \<open>\<^verbatim>\<open>data.get(key, data)\<close> and the first \<^verbatim>\<open>.get\<close> on the result.\<close>

definition block :: "(string \<times> jval) list \<Rightarrow> string \<Rightarrow> (string \<times> jval) list res" where
  "block d key = (case dict_get d key of None \<Rightarrow> Inr d | Some (JDict b) \<Rightarrow> Inr b | Some _ \<Rightarrow> Inl (PyErr AttributeError))"

text \<open>\<^verbatim>\<open>float(d.get(key, default))\<close>, also with an alias.\<close>

definition get_float :: "text_env \<Rightarrow> (string \<times> jval) list \<Rightarrow> string \<Rightarrow> float64 res" where
  "get_float te d key = (case dict_get d key of Some v \<Rightarrow> j_float te v | None \<Rightarrow> Inr (gene_default key))"

definition get_float_alias :: "text_env \<Rightarrow> (string \<times> jval) list \<Rightarrow> string \<Rightarrow> string \<Rightarrow> float64 res" where
  "get_float_alias te d key alias =
     (case dict_get d key of Some v \<Rightarrow> j_float te v
      | None \<Rightarrow> (case dict_get d alias of Some v \<Rightarrow> j_float te v | None \<Rightarrow> Inr (gene_default key)))"

definition get_int :: "text_env \<Rightarrow> (string \<times> jval) list \<Rightarrow> string \<Rightarrow> int res" where
  "get_int te d key = (case dict_get d key of Some v \<Rightarrow> j_int te v | None \<Rightarrow> py_int (gene_default key))"

definition repr_from :: "numlib \<Rightarrow> text_env \<Rightarrow> (string \<times> jval) list \<Rightarrow> repr_chromosome res" where
  "repr_from nl te d =
     bindR (get_float te d ''tau_slow'') (\<lambda>ts.
     bindR (case dict_get d ''tau_ratio'' of
              Some v \<Rightarrow> j_float te v
            | None \<Rightarrow>
                (case dict_get d ''tau_fast'' of
                   Some v \<Rightarrow> if ts > 0 then bindR (j_float te v) (\<lambda>tf. Inr (np_clip nl (fdiv tf ts) (flit (2 / 100)) (flit (50 / 100))))
                             else Inr (gene_default ''tau_ratio'')
                 | None \<Rightarrow> Inr (gene_default ''tau_ratio''))) (\<lambda>tr.
     bindR (get_float_alias te d ''alpha_decay'' ''alpha'') (\<lambda>ad.
     bindR (get_float te d ''fractional_d'') (\<lambda>fd.
       Inr \<lparr>tau_slow = np_clip nl ts (Fin 14400) (Fin 604800), tau_ratio = np_clip nl tr (flit (2 / 100)) (flit (50 / 100)),
            alpha_decay = np_clip nl ad 0 (Fin 1), fractional_d = np_clip nl fd (flit (5 / 100)) (flit (95 / 100))\<rparr>))))"

text \<open>The three logits, from their own entries or from a legacy prior.\<close>

definition logits_from :: "numlib \<Rightarrow> text_env \<Rightarrow> (string \<times> jval) list \<Rightarrow> (float64 \<times> float64 \<times> float64) res" where
  "logits_from nl te d =
     (case (dict_get d ''logit_bull'', dict_get d ''logit_bear'', dict_get d ''logit_panic'') of
        (Some b, Some e, Some p) \<Rightarrow>
          bindR (j_float te b) (\<lambda>lb. bindR (j_float te e) (\<lambda>le. bindR (j_float te p) (\<lambda>lp. Inr (lb, le, lp))))
      | _ \<Rightarrow>
          (case dict_get d ''belief_prior'' of
             Some (JList vs) \<Rightarrow>
               bindR (np_array nl vs) (\<lambda>priors.
                 if length priors \<noteq> 3 \<or> list_ex (\<lambda>p. p \<le> 0) priors then Inr (0, 0, Fin (- 1))
                 else
                   let raw_logits = map (np_log nl) priors;
                       zero_mean = map (\<lambda>x. np_clip nl (x - np_mean nl raw_logits) (Fin (- 2)) (Fin 2)) raw_logits
                   in Inr (zero_mean ! 0, zero_mean ! 1, zero_mean ! 2))
           | _ \<Rightarrow> Inr (gene_default ''logit_bull'', gene_default ''logit_bear'', gene_default ''logit_panic'')))"

definition game_from :: "numlib \<Rightarrow> text_env \<Rightarrow> (string \<times> jval) list \<Rightarrow> game_chromosome res" where
  "game_from nl te d =
     bindR (get_float te d ''ambiguity_temp'') (\<lambda>amb.
     bindR (get_float_alias te d ''risk_aversion'' ''risk_aversion_lambda'') (\<lambda>ra.
     bindR (get_float te d ''predatory_intensity'') (\<lambda>pint.
     bindR (logits_from nl te d) (\<lambda>(lb, le, lp).
       Inr \<lparr>ambiguity_temp = np_clip nl amb (flit (5 / 100)) (Fin 5), risk_aversion = np_clip nl ra (flit (10 / 100)) (Fin 10),
            predatory_intensity = np_clip nl pint 0 (Fin 1), logit_bull = np_clip nl lb (Fin (- 2)) (Fin 2),
            logit_bear = np_clip nl le (Fin (- 2)) (Fin 2), logit_panic = np_clip nl lp (Fin (- 2)) (Fin 2)\<rparr>))))"

definition infer_from :: "numlib \<Rightarrow> text_env \<Rightarrow> (string \<times> jval) list \<Rightarrow> infer_chromosome res" where
  "infer_from nl te d =
     bindR (get_int te d ''execution_horizon'') (\<lambda>eh.
     bindR (get_float te d ''hyperbolic_decay'') (\<lambda>hdec.
     bindR (get_float te d ''profit_take_mult'') (\<lambda>pt.
     bindR (get_float te d ''stop_loss_mult'') (\<lambda>sl.
     bindR (get_int te d ''holding_period'') (\<lambda>hp.
     bindR (get_float_alias te d ''meta_label_thresh'' ''sensitivity'') (\<lambda>ml.
       Inr \<lparr>execution_horizon = np_clip_int nl eh 1 20, hyperbolic_decay = np_clip nl hdec (flit (1 / 100)) (Fin 2),
            profit_take_mult = np_clip nl pt (flit (50 / 100)) (Fin 5), stop_loss_mult = np_clip nl sl (flit (50 / 100)) (Fin 5),
            holding_period = np_clip_int nl hp 5 100, meta_label_thresh = np_clip nl ml (flit (40 / 100)) (flit (85 / 100))\<rparr>))))))"

definition risk_from :: "numlib \<Rightarrow> text_env \<Rightarrow> (string \<times> jval) list \<Rightarrow> risk_chromosome res" where
  "risk_from nl te d =
     bindR (get_float te d ''vol_target'') (\<lambda>vt.
     bindR (get_float te d ''max_weight'') (\<lambda>mw.
     bindR (get_float te d ''max_drawdown_limit'') (\<lambda>md.
     bindR (get_float te d ''turnover_budget'') (\<lambda>tb.
       Inr \<lparr>vol_target = np_clip nl vt (flit (5 / 100)) (flit (40 / 100)), max_weight = np_clip nl mw (flit (5 / 100)) (flit (50 / 100)),
            max_drawdown_limit = np_clip nl md (flit (2 / 100)) (flit (30 / 100)), turnover_budget = np_clip nl tb (flit (5 / 100)) (Fin 1)\<rparr>))))"

definition from_dict :: "numlib \<Rightarrow> text_env \<Rightarrow> jval \<Rightarrow> strategy_chromosome res" where
  "from_dict nl te data =
     (case data of
        JDict d \<Rightarrow>
          bindR (bindR (block d ''chromosome_repr'') (repr_from nl te)) (\<lambda>r.
          bindR (bindR (block d ''chromosome_game'') (game_from nl te)) (\<lambda>g.
          bindR (bindR (block d ''chromosome_infer'') (infer_from nl te)) (\<lambda>i.
          bindR (bindR (block d ''chromosome_risk'') (risk_from nl te)) (\<lambda>k.
            Inr \<lparr>c_representation = r, c_game_theory = g, c_inference = i, c_risk = k\<rparr>))))
      | _ \<Rightarrow> Inl (PyErr ValueError))"

section \<open>Codec\<close>

text \<open>\<^verbatim>\<open>getattr\<close> of a block by the name of a gene; the attributes are numbers, which the arithmetic of the codec makes floats.\<close>

definition repr_attrs :: "repr_chromosome \<Rightarrow> (string \<times> pyval) list" where
  "repr_attrs r = [(''tau_slow'', PFloat (tau_slow r)), (''tau_ratio'', PFloat (tau_ratio r)), (''alpha_decay'', PFloat (alpha_decay r)), (''fractional_d'', PFloat (fractional_d r))]"

definition game_attrs :: "game_chromosome \<Rightarrow> (string \<times> pyval) list" where
  "game_attrs g =
     [(''ambiguity_temp'', PFloat (ambiguity_temp g)), (''risk_aversion'', PFloat (risk_aversion g)), (''predatory_intensity'', PFloat (predatory_intensity g)),
      (''logit_bull'', PFloat (logit_bull g)), (''logit_bear'', PFloat (logit_bear g)), (''logit_panic'', PFloat (logit_panic g))]"

definition infer_attrs :: "infer_chromosome \<Rightarrow> (string \<times> pyval) list" where
  "infer_attrs i =
     [(''execution_horizon'', PInt (execution_horizon i)), (''hyperbolic_decay'', PFloat (hyperbolic_decay i)),
      (''profit_take_mult'', PFloat (profit_take_mult i)), (''stop_loss_mult'', PFloat (stop_loss_mult i)), (''holding_period'', PInt (holding_period i)),
      (''meta_label_thresh'', PFloat (meta_label_thresh i))]"

definition risk_attrs :: "risk_chromosome \<Rightarrow> (string \<times> pyval) list" where
  "risk_attrs k =
     [(''vol_target'', PFloat (vol_target k)), (''max_weight'', PFloat (max_weight k)), (''max_drawdown_limit'', PFloat (max_drawdown_limit k)),
      (''turnover_budget'', PFloat (turnover_budget k))]"

definition num_float :: "pyval \<Rightarrow> float64 res" where
  "num_float = py_float (\<lambda>s. Inl (PyErr TypeError))"

definition gene_value :: "strategy_chromosome \<Rightarrow> gene_spec \<Rightarrow> float64 res" where
  "gene_value c g =
     (if g_block g \<notin> {''repr'', ''game'', ''infer'', ''risk''} then Inl (PyErr ValueError)
      else
        let attrs = (if g_block g = ''repr'' then repr_attrs (c_representation c) else if g_block g = ''game'' then game_attrs (c_game_theory c)
                     else if g_block g = ''infer'' then infer_attrs (c_inference c) else risk_attrs (c_risk c))
        in case map_of attrs (g_name g) of Some v \<Rightarrow> num_float v | None \<Rightarrow> Inl (PyErr AttributeError))"

text \<open>\<^verbatim>\<open>int(round(x))\<close>\<close>

fun round_int :: "float64 \<Rightarrow> int res" where
  "round_int (Fin a) = Inr (round_half_even a)"
| "round_int NaN = Inl (PyErr ValueError)"
| "round_int _ = Inl (PyErr OverflowError)"

text \<open>\<^verbatim>\<open>int(math.floor(x))\<close>\<close>

fun floor_int :: "float64 \<Rightarrow> int res" where
  "floor_int (Fin a) = Inr \<lfloor>a\<rfloor>"
| "floor_int NaN = Inl (PyErr ValueError)"
| "floor_int _ = Inl (PyErr OverflowError)"

definition n_steps :: "gene_spec \<Rightarrow> int res" where
  "n_steps g = bindR (divR (g_upper g - g_lower g) (g_step g)) (\<lambda>x. bindR (round_int x) (\<lambda>k. Inr (k + 1)))"

definition encode_gene :: "numlib \<Rightarrow> gene_spec \<Rightarrow> float64 \<Rightarrow> float64 res" where
  "encode_gene nl g val =
     (case g_scale g of
        LOGARITHMIC \<Rightarrow>
          let log_val = libm_log nl (py_max val (flit (1 / 10 ^ 12))); log_min = libm_log nl (g_lower g); log_max = libm_log nl (g_upper g)
          in divR (log_val - log_min) (log_max - log_min)
      | DISCRETE_INT \<Rightarrow>
          bindR (n_steps g) (\<lambda>n.
          bindR (divR (val - g_lower g) (g_step g)) (\<lambda>x.
          bindR (round_int x) (\<lambda>step_idx.
            divR (float_of_int step_idx + Fin (1 / 2)) (float_of_int n))))
      | _ \<Rightarrow> divR (val - g_lower g) (g_upper g - g_lower g))"

definition codec_new :: "gene_spec list option \<Rightarrow> gene_spec list res" where
  "codec_new reg =
     (let r = (case reg of Some r \<Rightarrow> r | None \<Rightarrow> GENE_REGISTRY)
      in if length r \<noteq> 20 then Inl (PyErr ValueError) else Inr r)"

definition encode :: "numlib \<Rightarrow> gene_spec list \<Rightarrow> strategy_chromosome \<Rightarrow> float64 list res" where
  "encode nl reg c =
     bindR (mapR (\<lambda>g. bindR (gene_value c g) (encode_gene nl g)) reg) (\<lambda>us. Inr (map (\<lambda>u. np_clip nl u 0 (Fin 1)) us))"

definition decode_gene :: "numlib \<Rightarrow> gene_spec \<Rightarrow> float64 \<Rightarrow> float64 res" where
  "decode_gene nl g u =
     (case g_scale g of
        LOGARITHMIC \<Rightarrow>
          let log_min = libm_log nl (g_lower g); log_max = libm_log nl (g_upper g)
          in Inr (libm_exp nl (log_min + u * (log_max - log_min)))
      | DISCRETE_INT \<Rightarrow>
          bindR (n_steps g) (\<lambda>n.
          bindR (floor_int (u * float_of_int n)) (\<lambda>k.
            let step_idx = min (n - 1) (max 0 k)
            in Inr (g_lower g + float_of_int step_idx * g_step g)))
      | _ \<Rightarrow> Inr (g_lower g + u * (g_upper g - g_lower g)))"

text \<open>\<^verbatim>\<open>decoded_values[name]\<close>\<close>

definition decoded :: "(string \<times> float64) list \<Rightarrow> string \<Rightarrow> float64 res" where
  "decoded vs n = (case dict_get vs n of Some v \<Rightarrow> Inr v | None \<Rightarrow> Inl (PyErr KeyError))"

definition assemble :: "numlib \<Rightarrow> (string \<times> float64) list \<Rightarrow> strategy_chromosome res" where
  "assemble nl vs =
     bindR (decoded vs ''logit_bull'') (\<lambda>lb.
     bindR (decoded vs ''logit_bear'') (\<lambda>le.
     bindR (decoded vs ''logit_panic'') (\<lambda>lp.
       let mean_logit = fdiv (lb + le + lp) (Fin 3); centre = (\<lambda>l. np_clip nl (l - mean_logit) (Fin (- 2)) (Fin 2))
       in bindR (mapR (decoded vs) [''tau_slow'', ''tau_ratio'', ''alpha_decay'', ''fractional_d'']) (\<lambda>r.
          bindR (mapR (decoded vs) [''ambiguity_temp'', ''risk_aversion'', ''predatory_intensity'']) (\<lambda>g.
          bindR (bindR (decoded vs ''execution_horizon'') round_int) (\<lambda>eh.
          bindR (mapR (decoded vs) [''hyperbolic_decay'', ''profit_take_mult'', ''stop_loss_mult'']) (\<lambda>i.
          bindR (bindR (decoded vs ''holding_period'') round_int) (\<lambda>hp.
          bindR (decoded vs ''meta_label_thresh'') (\<lambda>ml.
          bindR (mapR (decoded vs) [''vol_target'', ''max_weight'', ''max_drawdown_limit'', ''turnover_budget'']) (\<lambda>k.
            Inr \<lparr>c_representation = \<lparr>tau_slow = r ! 0, tau_ratio = r ! 1, alpha_decay = r ! 2, fractional_d = r ! 3\<rparr>,
                 c_game_theory = \<lparr>ambiguity_temp = g ! 0, risk_aversion = g ! 1, predatory_intensity = g ! 2, logit_bull = centre lb,
                   logit_bear = centre le, logit_panic = centre lp\<rparr>,
                 c_inference = \<lparr>execution_horizon = eh, hyperbolic_decay = i ! 0, profit_take_mult = i ! 1, stop_loss_mult = i ! 2,
                   holding_period = hp, meta_label_thresh = ml\<rparr>,
                 c_risk = \<lparr>vol_target = k ! 0, max_weight = k ! 1, max_drawdown_limit = k ! 2, turnover_budget = k ! 3\<rparr>\<rparr>))))))))))"

definition decode :: "numlib \<Rightarrow> gene_spec list \<Rightarrow> float64 list \<Rightarrow> strategy_chromosome res" where
  "decode nl reg u =
     (if length u \<noteq> length reg then Inl (PyErr ValueError)
      else if \<not> list_all isfinite u then Inl (PyErr ValueError)
      else
        bindR (mapR (\<lambda>(g, x). bindR (decode_gene nl g (np_clip nl x 0 (Fin 1))) (\<lambda>v. Inr (g_name g, v))) (zip reg u)) (\<lambda>vs.
          assemble nl (foldl (\<lambda>d (k, v). dict_set d k v) [] vs)))"

definition extract_phenotype_vector :: "numlib \<Rightarrow> gene_spec list \<Rightarrow> strategy_chromosome \<Rightarrow> float64 list res" where
  "extract_phenotype_vector nl reg c =
     (let priors = regime_priors nl (c_game_theory c)
      in bindR (mapR (\<lambda>g.
             if g_name g = ''logit_bull'' then Inr (priors ! 0)
             else if g_name g = ''logit_bear'' then Inr (priors ! 1)
             else if g_name g = ''logit_panic'' then Inr (priors ! 2)
             else
               let attrs = (if g_block g = ''repr'' then repr_attrs (c_representation c) else if g_block g = ''game'' then game_attrs (c_game_theory c)
                            else if g_block g = ''infer'' then infer_attrs (c_inference c) else risk_attrs (c_risk c))
               in case map_of attrs (g_name g) of
                    Some v \<Rightarrow> bindR (num_float v) (\<lambda>x. divR (x - g_lower g) (g_upper g - g_lower g))
                  | None \<Rightarrow> Inl (PyErr AttributeError)) reg) (\<lambda>us.
           Inr (map (\<lambda>u. np_clip nl u 0 (Fin 1)) us)))"

definition compute_phenotypic_distance :: "numlib \<Rightarrow> gene_spec list \<Rightarrow> strategy_chromosome \<Rightarrow> strategy_chromosome \<Rightarrow> float64 res" where
  "compute_phenotypic_distance nl reg c1 c2 =
     bindR (extract_phenotype_vector nl reg c1) (\<lambda>v1.
     bindR (extract_phenotype_vector nl reg c2) (\<lambda>v2.
       let diff = map2 (-) v1 v2
       in Inr (np_sqrt nl (np_mean nl (map (\<lambda>x. x * x) diff)))))"

end
