(* ===== verification/Pareto_Sorting.thy ===== *)
theory Pareto_Sorting
  imports Num_Lib "HOL-Library.Multiset"
begin

text \<open>
  \<^verbatim>\<open>src/src/quant/analytics/pareto_sorting.py\<close>: fitness records, the archive of elite residuals, the lattice of reference rays, the
  sorter that partitions candidates into fronts, and the ranker that composes them.

  Vectors are lists, matrices lists of rows; products, norms, the singular value decomposition and the like are parameters of
  \<open>Num_Lib\<close>, elementwise arithmetic is written out. The \<^verbatim>\<open>isinstance\<close> and \<^verbatim>\<open>ndim\<close> guards hold by typing; an operation of numpy
  on shapes that do not fit is the \<^verbatim>\<open>ValueError\<close> it raises. Sort keys are finite, as the fitness records check.
\<close>

abbreviation Corrupted :: exn where
  "Corrupted \<equiv> Par CorruptedFitnessException"

abbreviation InvalidResidual :: exn where
  "InvalidResidual \<equiv> Par InvalidResidualException"

section \<open>Fitness\<close>

record candidate_fitness =
  candidate_id :: string
  dsr :: float64
  minimax_regret :: float64
  return_series :: "float64 list"
  residual_series :: "float64 list"
  backtest_length :: int
  is_feasible :: bool

definition candidate_fitness_new :: "candidate_fitness \<Rightarrow> candidate_fitness res" where
  "candidate_fitness_new c =
     (if \<not> isfinite (dsr c) then Inl Corrupted
      else if \<not> isfinite (minimax_regret c) then Inl Corrupted
      else if \<not> list_all isfinite (return_series c) then Inl Corrupted
      else if \<not> list_all isfinite (residual_series c) then Inl Corrupted
      else if length (return_series c) \<noteq> length (residual_series c) then Inl InvalidResidual
      else if length (return_series c) < 100 then Inl InvalidResidual
      else Inr c)"

record pareto_front =
  pf_rank :: int
  pf_candidate_ids :: "string list"
  pf_apd_scores :: "float64 list"

record ranking_result =
  rr_fronts :: "pareto_front list"
  rr_infeasible_ids :: "string list"
  rr_active_reference_rays :: "float64 list list"
  rr_archive_size :: nat
  rr_subspace_rank :: int

section \<open>Archive\<close>

record svd_archive =
  max_capacity :: int
  variance_threshold :: float64
  max_basis_rank :: int
  elite_ids :: "string list"
  residuals :: "float64 list list"
  basis_vt :: "float64 list list option"
  subspace_rank :: int

definition svd_archive_new :: "int \<Rightarrow> float64 \<Rightarrow> int \<Rightarrow> svd_archive" where
  "svd_archive_new cap thr k =
     \<lparr>max_capacity = cap, variance_threshold = thr, max_basis_rank = k, elite_ids = [], residuals = [], basis_vt = None, subspace_rank = 0\<rparr>"

definition archive_size :: "svd_archive \<Rightarrow> nat" where
  "archive_size a = length (residuals a)"

definition pico :: float64 where
  "pico = flit (1 / 10 ^ 12)"

definition standardize_residual :: "numlib \<Rightarrow> float64 list \<Rightarrow> float64 list option" where
  "standardize_residual nl xs =
     (let dev = map (\<lambda>x. x - np_mean nl xs) xs; norm = np_norm nl dev
      in if norm < pico then None else Some (map (\<lambda>d. fdiv d norm) dev))"

text \<open>\<^verbatim>\<open>xs[:k]\<close>\<close>

definition py_prefix :: "int \<Rightarrow> 'a list \<Rightarrow> 'a list" where
  "py_prefix k xs = take (nat (if k < 0 then max 0 (int (length xs) + k) else k)) xs"

text \<open>\<^verbatim>\<open>np.vstack\<close> of rows of different lengths raises.\<close>

definition same_lengths :: "'a list list \<Rightarrow> bool" where
  "same_lengths xss \<longleftrightarrow> (\<forall>xs \<in> set xss. length xs = length (hd xss))"

definition recompute_basis :: "numlib \<Rightarrow> svd_archive \<Rightarrow> svd_archive \<times> unit res" where
  "recompute_basis nl a =
     (if residuals a = [] then (a\<lparr>basis_vt := None, subspace_rank := 0\<rparr>, Inr ())
      else if \<not> same_lengths (residuals a) then (a, Inl (PyErr ValueError))
      else
        let (s, vt) = np_svd nl (residuals a); energy = map (\<lambda>x. x * x) s; total_energy = np_sum nl energy
        in if total_energy < pico then (a\<lparr>basis_vt := None, subspace_rank := 0\<rparr>, Inr ())
           else
             let cum_ratio = map (\<lambda>x. fdiv x total_energy) (np_cumsum nl energy);
                 rank_idx = int (np_searchsorted nl cum_ratio (variance_threshold a)) + 1;
                 effective_rank = min rank_idx (min (max_basis_rank a) (int (length s)))
             in (a\<lparr>basis_vt := Some (py_prefix effective_rank vt), subspace_rank := effective_rank\<rparr>, Inr ()))"

definition admit :: "numlib \<Rightarrow> svd_archive \<Rightarrow> string \<Rightarrow> float64 list \<Rightarrow> bool \<Rightarrow> svd_archive \<times> bool res" where
  "admit nl a cid series recompute =
     (case standardize_residual nl series of
        None \<Rightarrow> (a, Inr False)
      | Some std \<Rightarrow>
          let full = int (length (residuals a)) \<ge> max_capacity a
          in if full \<and> elite_ids a = [] then (a, Inl (PyErr IndexError))
             else if full \<and> residuals a = [] then (a\<lparr>elite_ids := tl (elite_ids a)\<rparr>, Inl (PyErr IndexError))
             else
               let a1 = (if full then a\<lparr>elite_ids := tl (elite_ids a), residuals := tl (residuals a)\<rparr> else a);
                   a2 = a1\<lparr>elite_ids := elite_ids a1 @ [cid], residuals := residuals a1 @ [std]\<rparr>
               in if recompute
                  then (case recompute_basis nl a2 of (a3, Inl e) \<Rightarrow> (a3, Inl e) | (a3, Inr _) \<Rightarrow> (a3, Inr True))
                  else (a2, Inr True))"

text \<open>The rows of the batch come with their entry of the mask.\<close>

definition novelty_of :: "numlib \<Rightarrow> float64 list list \<Rightarrow> float64 list \<times> bool \<Rightarrow> float64 res" where
  "novelty_of nl basis p =
     (if \<not> snd p then Inr 0
      else
        case standardize_residual nl (fst p) of
          None \<Rightarrow> Inr 0
        | Some std \<Rightarrow>
            if list_ex (\<lambda>r. length r \<noteq> length std) basis then Inl (PyErr ValueError)
            else
              let explained_ratio = np_sum nl (map (\<lambda>x. x * x) (np_matvec nl basis std))
              in Inr (py_max 0 (py_min (Fin 1) (Fin 1 - explained_ratio))))"

definition compute_novelty :: "numlib \<Rightarrow> svd_archive \<Rightarrow> (float64 list \<times> bool) list \<Rightarrow> float64 list res" where
  "compute_novelty nl a batch =
     (case basis_vt a of
        None \<Rightarrow> Inr (map (\<lambda>(r, v). if v then Fin 1 else 0) batch)
      | Some basis \<Rightarrow>
          if subspace_rank a = 0 then Inr (map (\<lambda>(r, v). if v then Fin 1 else 0) batch) else mapR (novelty_of nl basis) batch)"

section \<open>Reference rays\<close>

text \<open>The inner function \<^verbatim>\<open>_recurse\<close>; the first argument is \<^verbatim>\<open>m - 1 - depth\<close>.\<close>

fun das_dennis :: "nat \<Rightarrow> nat \<Rightarrow> nat list \<Rightarrow> nat list list" where
  "das_dennis 0 remaining_sum current = [current @ [remaining_sum]]"
| "das_dennis (Suc d) remaining_sum current =
     concat (map (\<lambda>val. das_dennis d (remaining_sum - val) (current @ [val])) [0..<Suc remaining_sum])"

record lattice =
  lt_m :: nat
  adaptation_interval :: int
  idle_threshold :: int
  adaptation_rate :: float64
  min_angle_separation :: float64
  alpha_escalation :: float64
  rays :: "float64 list list"
  anchor_indices :: "nat list"
  idle_counters :: "int list"
  gamma :: "float64 list"

definition generate_das_dennis_rays :: "numlib \<Rightarrow> nat \<Rightarrow> nat \<Rightarrow> float64 list list" where
  "generate_das_dennis_rays nl m p =
     map (\<lambda>combo.
         let raw = map (\<lambda>i. fdiv (float_of_int (int i)) (float_of_int (int p))) combo; norm = py_max (np_norm nl raw) pico
         in map (\<lambda>x. fdiv x norm) raw) (das_dennis (m - 1) p [])"

definition clip_cos :: "numlib \<Rightarrow> float64 \<Rightarrow> float64" where
  "clip_cos nl x = np_arccos nl (np_clip nl x (Fin (- 1)) (Fin 1))"

definition compute_gamma :: "numlib \<Rightarrow> float64 list list \<Rightarrow> float64 list" where
  "compute_gamma nl rs =
     map (\<lambda>(j, row). py_max (np_amin nl ((map (clip_cos nl) row)[j := PInf])) (flit (1 / 10 ^ 5))) (enumerate 0 (np_gram nl rs))"

definition unit_basis :: "nat \<Rightarrow> nat \<Rightarrow> float64 list" where
  "unit_basis m ax = (replicate m 0)[ax := Fin 1]"

definition lattice_new :: "numlib \<Rightarrow> nat \<Rightarrow> nat \<Rightarrow> int \<Rightarrow> int \<Rightarrow> float64 \<Rightarrow> float64 \<Rightarrow> float64 \<Rightarrow> lattice" where
  "lattice_new nl m p interval idle eta sep alpha =
     (let rs = generate_das_dennis_rays nl m p
      in \<lparr>lt_m = m, adaptation_interval = interval, idle_threshold = idle, adaptation_rate = eta, min_angle_separation = sep,
          alpha_escalation = alpha, rays = rs,
          anchor_indices = filter (\<lambda>i. list_ex (\<lambda>ax. np_allclose nl (rs ! i) (unit_basis m ax)) [0..<m]) [0..<length rs],
          idle_counters = replicate (length rs) 0, gamma = compute_gamma nl rs\<rparr>)"

text \<open>The association of one candidate: the ray, the angle and the penalised distance.\<close>

definition associate_one :: "numlib \<Rightarrow> lattice \<Rightarrow> float64 \<Rightarrow> float64 list \<Rightarrow> nat \<times> float64 \<times> float64" where
  "associate_one nl lt time_escalation obj =
     (let norm_i = np_norm nl obj
      in if norm_i < pico then (0, 0, 0)
         else
           let unit_obj = map (\<lambda>x. fdiv x norm_i) obj;
               candidate_angles = map (clip_cos nl) (np_matvec nl (rays lt) unit_obj);
               best_ray = np_argmin nl candidate_angles;
               theta_star = candidate_angles ! best_ray; gamma_star = gamma lt ! best_ray;
               penalty = Fin 1 + time_escalation * fdiv theta_star gamma_star
           in (best_ray, theta_star, penalty * norm_i))"

definition associate_and_penalize :: "numlib \<Rightarrow> lattice \<Rightarrow> float64 list list \<Rightarrow> float64 \<Rightarrow> (nat \<times> float64 \<times> float64) list res" where
  "associate_and_penalize nl lt objs generation_ratio =
     (let clamped = py_max 0 (py_min (Fin 1) generation_ratio)
      in bindR (libm_fpow nl clamped (alpha_escalation lt)) (\<lambda>w.
           Inr (map (associate_one nl lt (float_of_int (int (lt_m lt)) * w)) objs)))"

text \<open>One ray of the loop of \<^verbatim>\<open>adapt_interior_rays\<close>, on the rays, the idle counters and the number of migrations.\<close>

definition adapt_ray ::
    "numlib \<Rightarrow> lattice \<Rightarrow> nat list \<Rightarrow> float64 list \<Rightarrow> float64 list list \<times> int list \<times> int \<Rightarrow> nat \<Rightarrow> float64 list list \<times> int list \<times> int" where
  "adapt_ray nl lt active target_unit s j =
     (let (rs, idle, migrated) = s; idle1 = (if j \<in> set active then idle[j := 0] else idle[j := idle ! j + 1])
      in if idle1 ! j \<ge> idle_threshold lt \<and> j \<notin> set (anchor_indices lt)
         then
           let eta = adaptation_rate lt;
               candidate_ray = map2 (\<lambda>x y. (Fin 1 - eta) * x + eta * y) (rs ! j) target_unit;
               cand_norm = np_norm nl candidate_ray
           in if cand_norm < pico then (rs, idle1, migrated)
              else
                let candidate_unit = map (\<lambda>x. fdiv x cand_norm) candidate_ray;
                    angles = (map (clip_cos nl) (np_matvec nl (rs[j := candidate_unit]) candidate_unit))[j := PInf]
                in if np_amin nl angles \<ge> min_angle_separation lt then (rs[j := candidate_unit], idle1[j := 0], migrated + 1)
                   else (rs, idle1, migrated)
         else (rs, idle1, migrated))"

definition adapt_interior_rays :: "numlib \<Rightarrow> lattice \<Rightarrow> float64 list list \<Rightarrow> nat list \<Rightarrow> lattice \<times> int" where
  "adapt_interior_rays nl lt objs associations =
     (let k_rays = length (rays lt);
          ray_counts = map (\<lambda>j. int (count_list associations j)) [0..<k_rays];
          dense_ray = np_argmax_int nl ray_counts
      in if ray_counts ! dense_ray = 0 then (lt, 0)
         else
           let dense = map fst (filter (\<lambda>p. snd p = dense_ray) (zip objs associations));
               centroid = np_column_mean nl dense; centroid_norm = np_norm nl centroid
           in if centroid_norm < pico then (lt, 0)
              else
                let target_unit = map (\<lambda>x. fdiv x centroid_norm) centroid;
                    (rs, idle, migrated) = foldl (adapt_ray nl lt associations target_unit) (rays lt, idle_counters lt, 0) [0..<k_rays];
                    lt1 = lt\<lparr>rays := rs, idle_counters := idle\<rparr>
                in (if migrated > 0 then lt1\<lparr>gamma := compute_gamma nl rs\<rparr> else lt1, migrated))"

section \<open>Dominance\<close>

type_synonym objective = "float64 \<times> float64 \<times> float64"

record sorter =
  tau_conf :: float64
  epsilon_regret :: float64
  epsilon_novelty :: float64

text \<open>The standard error of the difference of two scores with the given correlation, the common end of both variance functions.\<close>

definition dsr_standard_error :: "numlib \<Rightarrow> float64 \<Rightarrow> float64 \<Rightarrow> float64 \<Rightarrow> nat \<Rightarrow> float64 res" where
  "dsr_standard_error nl dsr_a dsr_b rho0 t_bars =
     (let rho = py_max (flit (- 9999 / 10000)) (py_min (flit (9999 / 10000)) rho0); diff_term = Fin 2 * (Fin 1 - rho)
      in bindR (libm_square nl dsr_a) (\<lambda>a2.
         bindR (libm_square nl dsr_b) (\<lambda>b2.
         bindR (libm_square nl rho) (\<lambda>r2.
           let squared_term = Fin (1 / 2) * (a2 + b2 - Fin 2 * r2 * dsr_a * dsr_b);
               asymptotic_var = fdiv (diff_term + squared_term) (float_of_int (int t_bars))
           in Inr (libm_sqrt nl (py_max 0 asymptotic_var))))))"

text \<open>\<^verbatim>\<open>np.dot\<close> of two vectors.\<close>

definition dotR :: "numlib \<Rightarrow> float64 list \<Rightarrow> float64 list \<Rightarrow> float64 res" where
  "dotR nl xs ys = (if length xs \<noteq> length ys then Inl (PyErr ValueError) else Inr (np_dot nl xs ys))"

definition variance_precomputed ::
    "numlib \<Rightarrow> float64 \<Rightarrow> float64 \<Rightarrow> float64 list \<Rightarrow> float64 list \<Rightarrow> float64 \<Rightarrow> float64 \<Rightarrow> nat \<Rightarrow> float64 res" where
  "variance_precomputed nl dsr_a dsr_b dev_a dev_b norm_a norm_b t_bars =
     (if t_bars < 2 then Inr 0
      else
        bindR (if norm_a < pico \<or> norm_b < pico then Inr 0 else bindR (dotR nl dev_a dev_b) (\<lambda>d. Inr (fdiv d (norm_a * norm_b)))) (\<lambda>rho.
          dsr_standard_error nl dsr_a dsr_b rho t_bars))"

definition deviations :: "numlib \<Rightarrow> float64 list \<Rightarrow> float64 list" where
  "deviations nl xs = map (\<lambda>x. x - np_mean nl xs) xs"

definition compute_dependent_dsr_variance :: "numlib \<Rightarrow> float64 \<Rightarrow> float64 \<Rightarrow> float64 list \<Rightarrow> float64 list \<Rightarrow> float64 res" where
  "compute_dependent_dsr_variance nl dsr_a dsr_b returns_a returns_b =
     (let t_bars = min (length returns_a) (length returns_b)
      in if t_bars < 2 then Inr 0
         else
           let dev_a = deviations nl (take t_bars returns_a); dev_b = deviations nl (take t_bars returns_b);
               norm_a = np_norm nl dev_a; norm_b = np_norm nl dev_b
           in bindR (if norm_a < pico \<or> norm_b < pico then Inr 0 else bindR (dotR nl dev_a dev_b) (\<lambda>d. Inr (fdiv d (norm_a * norm_b)))) (\<lambda>rho.
                dsr_standard_error nl dsr_a dsr_b rho t_bars))"

definition nano9 :: float64 where
  "nano9 = flit (1 / 10 ^ 9)"

definition dominates ::
    "numlib \<Rightarrow> sorter \<Rightarrow> candidate_fitness \<Rightarrow> candidate_fitness \<Rightarrow> objective \<Rightarrow> objective \<Rightarrow>
     (float64 list \<times> float64) option \<Rightarrow> (float64 list \<times> float64) option \<Rightarrow> bool res" where
  "dominates nl so ca cb oa ob pre_a pre_b =
     (let (a0, a1, a2) = oa; (b0, b1, b2) = ob
      in if is_feasible ca \<and> \<not> is_feasible cb then Inr True
         else if \<not> is_feasible ca \<and> is_feasible cb then Inr False
         else if \<not> is_feasible ca \<and> \<not> is_feasible cb then Inr False
         else if a1 > b1 + nano9 then Inr False
         else if a2 > b2 + nano9 then Inr False
         else
           let strict_regret = (a1 < b1 - epsilon_regret so); strict_novelty = (a2 < b2 - epsilon_novelty so)
           in if \<not> (strict_regret \<or> strict_novelty) \<and> a0 \<ge> b0 then Inr False
              else
                bindR (case (pre_a, pre_b) of
                         (Some (dev_a, norm_a), Some (dev_b, norm_b)) \<Rightarrow>
                           variance_precomputed nl (dsr ca) (dsr cb) dev_a dev_b norm_a norm_b (min (length dev_a) (length dev_b))
                       | _ \<Rightarrow> compute_dependent_dsr_variance nl (dsr ca) (dsr cb) (return_series ca) (return_series cb)) (\<lambda>se_diff.
                  let delta = tau_conf so * se_diff
                  in if \<not> a0 \<le> b0 + delta then Inr False
                     else Inr (a0 < b0 - delta \<or> strict_regret \<or> strict_novelty)))"

section \<open>Sorting\<close>

definition viable :: "candidate_fitness \<Rightarrow> bool" where
  "viable c \<longleftrightarrow> is_feasible c \<and> dsr c \<ge> Fin (1 / 2)"

definition cached :: "numlib \<Rightarrow> candidate_fitness \<Rightarrow> float64 list \<times> float64" where
  "cached nl c = (let dev = deviations nl (return_series c) in (dev, np_norm nl dev))"

text \<open>The innermost loop: whether a member of a front dominates the candidate.\<close>

fun dominated_in :: "numlib \<Rightarrow> sorter \<Rightarrow> candidate_fitness list \<Rightarrow> objective list \<Rightarrow> nat \<Rightarrow> nat list \<Rightarrow> bool res" where
  "dominated_in nl so cs objs i [] = Inr False"
| "dominated_in nl so cs objs i (m # ms) =
     (let (m0, m1, m2) = objs ! m; (i0, i1, i2) = objs ! i
      in if m1 \<le> i1 + nano9 \<and> m2 \<le> i2 + nano9
         then bindR (dominates nl so (cs ! m) (cs ! i) (objs ! m) (objs ! i) (Some (cached nl (cs ! m))) (Some (cached nl (cs ! i)))) (\<lambda>d.
                if d then Inr True else dominated_in nl so cs objs i ms)
         else dominated_in nl so cs objs i ms)"

fun place :: "numlib \<Rightarrow> sorter \<Rightarrow> candidate_fitness list \<Rightarrow> objective list \<Rightarrow> nat list list \<Rightarrow> nat \<Rightarrow> nat list list res" where
  "place nl so cs objs [] i = Inr [[i]]"
| "place nl so cs objs (front # fronts) i =
     bindR (dominated_in nl so cs objs i front) (\<lambda>d.
       if d then bindR (place nl so cs objs fronts i) (\<lambda>fs. Inr (front # fs)) else Inr ((front @ [i]) # fronts))"

definition sort_fronts :: "numlib \<Rightarrow> sorter \<Rightarrow> candidate_fitness list \<Rightarrow> objective list \<Rightarrow> (nat list list \<times> nat list) res" where
  "sort_fronts nl so cs objs =
     (let feasible = filter (\<lambda>i. viable (cs ! i)) [0..<length cs]; infeasible = filter (\<lambda>i. \<not> viable (cs ! i)) [0..<length cs]
      in if feasible = [] then Inr ([], infeasible)
         else bindR (foldR (place nl so cs objs) [] (sort_key (\<lambda>i. fin_val (fst (objs ! i))) feasible)) (\<lambda>fronts. Inr (fronts, infeasible)))"

section \<open>Ranking\<close>

record ranker =
  rk_archive :: svd_archive
  rk_lattice :: lattice
  rk_sorter :: sorter

text \<open>The admission of the first front; the archive keeps what was admitted before an exception.\<close>

fun admit_all :: "numlib \<Rightarrow> candidate_fitness list \<Rightarrow> svd_archive \<Rightarrow> bool \<Rightarrow> string list \<Rightarrow> svd_archive \<times> bool res" where
  "admit_all nl cs a admitted [] = (a, Inr admitted)"
| "admit_all nl cs a admitted (cid # cids) =
     (case dict_get (rev (map (\<lambda>c. (candidate_id c, c)) cs)) cid of
        None \<Rightarrow> (a, Inl (PyErr KeyError))
      | Some c \<Rightarrow>
          (case admit nl a (candidate_id c) (residual_series c) False of
             (a', Inl e) \<Rightarrow> (a', Inl e)
           | (a', Inr ok) \<Rightarrow> admit_all nl cs a' (admitted \<or> ok) cids))"

definition auto_admit_front :: "numlib \<Rightarrow> candidate_fitness list \<Rightarrow> svd_archive \<Rightarrow> string list \<Rightarrow> svd_archive \<times> unit res" where
  "auto_admit_front nl cs a cids =
     (case admit_all nl cs a False cids of
        (a1, Inl e) \<Rightarrow> (a1, Inl e)
      | (a1, Inr admitted) \<Rightarrow> if admitted then recompute_basis nl a1 else (a1, Inr ()))"

definition objectives_of :: "candidate_fitness list \<Rightarrow> float64 list \<Rightarrow> objective list" where
  "objectives_of cs novelties = map (\<lambda>(c, n). (- dsr c, minimax_regret c, - n)) (zip cs novelties)"

text \<open>The objectives of the viable candidates scaled to the unit cube, the others zero.\<close>

definition normalized_objectives :: "numlib \<Rightarrow> objective list \<Rightarrow> nat list \<Rightarrow> float64 list list" where
  "normalized_objectives nl objs feasible =
     (let cols = [map (\<lambda>i. fst (objs ! i)) feasible, map (\<lambda>i. fst (snd (objs ! i))) feasible, map (\<lambda>i. snd (snd (objs ! i))) feasible];
          z_min = map (np_amin nl) cols; z_max = map (np_amax nl) cols; spread = map2 (\<lambda>x y. py_max (x - y) pico) z_max z_min
      in map (\<lambda>i. if i \<in> set feasible
                  then map2 (\<lambda>x (z, s). fdiv (x - z) s) [fst (objs ! i), fst (snd (objs ! i)), snd (snd (objs ! i))] (zip z_min spread)
                  else [0, 0, 0]) [0..<length objs])"

definition make_front :: "candidate_fitness list \<Rightarrow> float64 list \<Rightarrow> nat \<times> nat list \<Rightarrow> pareto_front" where
  "make_front cs apd p =
     (let sorted_front = sort_key (\<lambda>i. fin_val (apd ! i)) (snd p)
      in \<lparr>pf_rank = int (fst p), pf_candidate_ids = map (\<lambda>i. candidate_id (cs ! i)) sorted_front, pf_apd_scores = map (\<lambda>i. apd ! i) sorted_front\<rparr>)"

definition ranking :: "ranker \<Rightarrow> pareto_front list \<Rightarrow> string list \<Rightarrow> ranking_result" where
  "ranking rk fs inf_ids =
     \<lparr>rr_fronts = fs, rr_infeasible_ids = inf_ids, rr_active_reference_rays = rays (rk_lattice rk), rr_archive_size = archive_size (rk_archive rk),
      rr_subspace_rank = subspace_rank (rk_archive rk)\<rparr>"

text \<open>The adaptation at the end of a ranking.\<close>

definition adapt_lattice :: "numlib \<Rightarrow> ranker \<Rightarrow> int \<Rightarrow> float64 list list \<Rightarrow> nat list \<Rightarrow> nat list \<Rightarrow> ranker res" where
  "adapt_lattice nl rk generation norm_objs feasible assoc =
     (if generation > 0
      then (if adaptation_interval (rk_lattice rk) = 0 then Inl (PyErr ZeroDivisionError)
            else if generation mod adaptation_interval (rk_lattice rk) = 0
            then Inr (rk\<lparr>rk_lattice := fst (adapt_interior_rays nl (rk_lattice rk) (map (\<lambda>i. norm_objs ! i) feasible) (map (\<lambda>i. assoc ! i) feasible))\<rparr>)
            else Inr rk)
      else Inr rk)"

text \<open>The rest of \<^verbatim>\<open>rank_population\<close> once there are fronts.\<close>

definition rank_fronts ::
    "numlib \<Rightarrow> ranker \<Rightarrow> candidate_fitness list \<Rightarrow> int \<Rightarrow> int \<Rightarrow> bool \<Rightarrow> objective list \<Rightarrow> nat list list \<Rightarrow> string list \<Rightarrow> ranker \<times> ranking_result res" where
  "rank_fronts nl rk cs generation max_generations auto_admit objs fronts inf_ids =
     (let feasible = concat fronts; norm_objs = normalized_objectives nl objs feasible;
          gen_ratio = fdiv (float_of_int generation) (py_max (Fin 1) (float_of_int max_generations))
      in case associate_and_penalize nl (rk_lattice rk) norm_objs gen_ratio of
           Inl e \<Rightarrow> (rk, Inl e)
         | Inr assoc \<Rightarrow>
             let apd = map (snd \<circ> snd) assoc;
                 fs = map (make_front cs apd) (enumerate 1 fronts);
                 (archive, admitted) =
                   (if auto_admit \<and> fs \<noteq> [] then auto_admit_front nl cs (rk_archive rk) (pf_candidate_ids (hd fs)) else (rk_archive rk, Inr ()));
                 rk1 = rk\<lparr>rk_archive := archive\<rparr>
             in (case admitted of
                  Inl e \<Rightarrow> (rk1, Inl e)
                | Inr _ \<Rightarrow>
                    (case adapt_lattice nl rk1 generation norm_objs feasible (map fst assoc) of
                       Inl e \<Rightarrow> (rk1, Inl e)
                     | Inr rk2 \<Rightarrow> (rk2, Inr (ranking rk2 fs inf_ids)))))"

definition rank_population :: "numlib \<Rightarrow> ranker \<Rightarrow> candidate_fitness list \<Rightarrow> int \<Rightarrow> int \<Rightarrow> bool \<Rightarrow> ranker \<times> ranking_result res" where
  "rank_population nl rk cs generation max_generations auto_admit =
     (if cs = [] then (rk, Inr (ranking rk [] []))
      else if \<not> same_lengths (map residual_series cs) then (rk, Inl (PyErr ValueError))
      else
        case compute_novelty nl (rk_archive rk) (map (\<lambda>c. (residual_series c, viable c)) cs) of
          Inl e \<Rightarrow> (rk, Inl e)
        | Inr novelties \<Rightarrow>
            let objs = objectives_of cs novelties
            in (case sort_fronts nl (rk_sorter rk) cs objs of
                 Inl e \<Rightarrow> (rk, Inl e)
               | Inr (fronts, infeasible) \<Rightarrow>
                   let inf_ids = map (\<lambda>i. candidate_id (cs ! i)) infeasible
                   in if fronts = [] then (rk, Inr (ranking rk [] inf_ids))
                      else rank_fronts nl rk cs generation max_generations auto_admit objs fronts inf_ids))"

end
