(* ===== verification/Selection.thy ===== *)
theory Selection
  imports Chromosomes Pareto_Sorting
begin

text \<open>
  \<^verbatim>\<open>src/src/quant/analytics/hypergamic_selection.py\<close>: the configuration, the stratifier of a ranked population into cohorts, the
  orthogonality gate, the partner matcher, the crossover of encoded chromosomes and the engine that composes them.

  The random generators are parameters: \<open>tournament\<close> gives the indices of the \<open>k\<close>-th \<^verbatim>\<open>rng.choice\<close>, \<open>spreads\<close> and \<open>coins\<close> the two
  draws of \<^verbatim>\<open>rng.uniform\<close> for the \<open>k\<close>-th child. A codec is its registry. The random draws of \<^verbatim>\<open>choice\<close> are never with
  replacement, since the size of a tournament is at most the number of aspirants.
\<close>

abbreviation SelectionError :: exn where
  "SelectionError \<equiv> Sel HypergamicSelectionError"

abbreviation InvalidCohort :: exn where
  "InvalidCohort \<equiv> Sel InvalidCohortException"

section \<open>Configuration and results\<close>

record hypergamic_config =
  alpha_ratio :: float64
  orthogonality_threshold :: float64
  max_mating_attempts :: int
  relaxation_factor :: float64
  tournament_size :: int
  crossover_distribution_index :: float64
  alpha_risk_inheritance_prob :: float64
  aspirant_repr_inheritance_prob :: float64
  elitism_count :: int

definition hypergamic_config_default :: hypergamic_config where
  "hypergamic_config_default =
     \<lparr>alpha_ratio = flit (25 / 100), orthogonality_threshold = flit (30 / 100), max_mating_attempts = 5, relaxation_factor = flit (80 / 100),
      tournament_size = 3, crossover_distribution_index = Fin 15, alpha_risk_inheritance_prob = flit (75 / 100),
      aspirant_repr_inheritance_prob = flit (65 / 100), elitism_count = 2\<rparr>"

definition hypergamic_config_new :: "hypergamic_config \<Rightarrow> hypergamic_config res" where
  "hypergamic_config_new c =
     (if \<not> (flit (5 / 100) \<le> alpha_ratio c \<and> alpha_ratio c \<le> flit (90 / 100)) then Inl SelectionError
      else if \<not> (0 \<le> orthogonality_threshold c \<and> orthogonality_threshold c \<le> Fin 1) then Inl SelectionError
      else if max_mating_attempts c < 1 then Inl SelectionError
      else if \<not> (0 < relaxation_factor c \<and> relaxation_factor c \<le> Fin 1) then Inl SelectionError
      else if tournament_size c < 1 then Inl SelectionError
      else if \<not> (isfinite (crossover_distribution_index c) \<and> crossover_distribution_index c > 0) then Inl SelectionError
      else if \<not> (Fin (1 / 2) \<le> alpha_risk_inheritance_prob c \<and> alpha_risk_inheritance_prob c \<le> Fin 1) then Inl SelectionError
      else if \<not> (Fin (1 / 2) \<le> aspirant_repr_inheritance_prob c \<and> aspirant_repr_inheritance_prob c \<le> Fin 1) then Inl SelectionError
      else if elitism_count c < 0 then Inl SelectionError
      else Inr c)"

record mating_pair =
  alpha_id :: string
  aspirant_id :: string
  residual_correlation :: float64
  is_relaxed :: bool
  relaxation_level :: int

record offspring_result =
  offspring_chromosomes :: "strategy_chromosome list"
  mating_pairs :: "mating_pair list"
  or_alpha_ids :: "string list"
  or_aspirant_ids :: "string list"
  or_elite_ids :: "string list"
  rejection_count :: int
  relaxation_count :: int

section \<open>Cohorts\<close>

text \<open>\<^verbatim>\<open>math.ceil(x)\<close>\<close>

fun ceil_int :: "float64 \<Rightarrow> int res" where
  "ceil_int (Fin a) = Inr \<lceil>a\<rceil>"
| "ceil_int NaN = Inl (PyErr ValueError)"
| "ceil_int _ = Inl (PyErr OverflowError)"

text \<open>The dictionaries \<^verbatim>\<open>cand_by_id\<close> and \<^verbatim>\<open>viable_cands\<close>.\<close>

definition cand_by_id :: "candidate_fitness list \<Rightarrow> (string \<times> candidate_fitness) list" where
  "cand_by_id cs = foldl (\<lambda>d (k, c). dict_set d k c) [] (map (\<lambda>c. (candidate_id c, c)) (filter is_feasible cs))"

definition viable_cands :: "candidate_fitness list \<Rightarrow> ranking_result \<Rightarrow> (string \<times> candidate_fitness) list" where
  "viable_cands cs r = filter (\<lambda>(cid, c). cid \<notin> set (rr_infeasible_ids r) \<and> dsr c \<ge> Fin (1 / 2)) (cand_by_id cs)"

text \<open>The identifiers of the alpha cohort: the viable members of the first front, filled up from the second.\<close>

definition alpha_ids_of :: "(string \<times> candidate_fitness) list \<Rightarrow> pareto_front list \<Rightarrow> int \<Rightarrow> string list" where
  "alpha_ids_of vc fronts target =
     (let f1_viable = filter (dict_has vc) (pf_candidate_ids (hd fronts))
      in if int (length f1_viable) \<ge> target then f1_viable
         else
           let needed = target - int (length f1_viable)
           in (if length fronts > 1
               then
                 let f2 = fronts ! 1;
                     f2_pairs = filter (\<lambda>(cid, apd). dict_has vc cid \<and> cid \<notin> set f1_viable) (zip (pf_candidate_ids f2) (pf_apd_scores f2));
                     f2_sorted = sort_key (\<lambda>p. fin_val (snd p)) f2_pairs
                 in f1_viable @ map fst (take (nat needed) f2_sorted)
               else f1_viable))"

definition lookup_cand :: "(string \<times> candidate_fitness) list \<Rightarrow> string \<Rightarrow> candidate_fitness res" where
  "lookup_cand vc cid = (case dict_get vc cid of Some c \<Rightarrow> Inr c | None \<Rightarrow> Inl (PyErr KeyError))"

definition stratify :: "hypergamic_config \<Rightarrow> candidate_fitness list \<Rightarrow> ranking_result \<Rightarrow> (candidate_fitness list \<times> candidate_fitness list) res" where
  "stratify cfg cs r =
     (let vc = viable_cands cs r
      in if vc = [] then Inl InvalidCohort
         else
           bindR (ceil_int (alpha_ratio cfg * float_of_int (int (length vc)))) (\<lambda>k.
             let target_alpha = max 1 k
             in if rr_fronts r = []
                then
                  let sorted_cands = sort_key (\<lambda>c. - fin_val (dsr c)) (map snd vc);
                      alpha_cands = take (nat target_alpha) sorted_cands;
                      rest = drop (nat target_alpha) sorted_cands
                  in Inr (alpha_cands, if rest = [] then alpha_cands else rest)
                else
                  let alpha_ids = alpha_ids_of vc (rr_fronts r) target_alpha;
                      others = filter (\<lambda>cid. cid \<notin> set alpha_ids) (map fst vc);
                      aspirant_ids = (if others = [] then alpha_ids else others)
                  in bindR (mapR (lookup_cand vc) alpha_ids) (\<lambda>alphas.
                     bindR (mapR (lookup_cand vc) aspirant_ids) (\<lambda>aspirants. Inr (alphas, aspirants)))))"

section \<open>The orthogonality gate\<close>

text \<open>The threshold after relaxation and the decision, common to both methods.\<close>

definition orthogonality_decision :: "numlib \<Rightarrow> hypergamic_config \<Rightarrow> int \<Rightarrow> float64 \<Rightarrow> (bool \<times> float64) res" where
  "orthogonality_decision nl cfg level rho0 =
     (let rho = py_max (Fin (- 1)) (py_min (Fin 1) rho0)
      in bindR (libm_pow nl (relaxation_factor cfg) (max 0 level)) (\<lambda>factor.
           let delta_eff = orthogonality_threshold cfg * factor; unexplained_variance = Fin 1 - \<bar>rho\<bar>
           in Inr (unexplained_variance \<ge> delta_eff, rho)))"

definition gate_evaluate :: "numlib \<Rightarrow> hypergamic_config \<Rightarrow> candidate_fitness \<Rightarrow> candidate_fitness \<Rightarrow> int \<Rightarrow> (bool \<times> float64) res" where
  "gate_evaluate nl cfg alpha aspirant level =
     (let res_a = residual_series alpha; res_b = residual_series aspirant; t_bars = min (length res_a) (length res_b)
      in if t_bars < 2 then Inr (False, Fin 1)
         else
           let dev_a = deviations nl (take t_bars res_a); dev_b = deviations nl (take t_bars res_b);
               norm_a = np_norm nl dev_a; norm_b = np_norm nl dev_b
           in if norm_a < pico \<or> norm_b < pico then Inr (False, Fin 1)
              else bindR (dotR nl dev_a dev_b) (\<lambda>d. orthogonality_decision nl cfg level (fdiv d (norm_a * norm_b))))"

definition evaluate_normalized :: "numlib \<Rightarrow> hypergamic_config \<Rightarrow> float64 list \<Rightarrow> float64 list \<Rightarrow> int \<Rightarrow> (bool \<times> float64) res" where
  "evaluate_normalized nl cfg unit_a unit_b level =
     (if length unit_a < 2 \<or> length unit_b < 2 then Inr (False, Fin 1)
      else bindR (dotR nl unit_a unit_b) (orthogonality_decision nl cfg level))"

section \<open>The matcher\<close>

record matcher =
  m_config :: hypergamic_config
  m_gate :: hypergamic_config
  last_rejection_count :: int
  last_relaxation_count :: int

definition matcher_new :: "hypergamic_config \<Rightarrow> hypergamic_config \<Rightarrow> matcher" where
  "matcher_new gate cfg = \<lparr>m_config = cfg, m_gate = gate, last_rejection_count = 0, last_relaxation_count = 0\<rparr>"

record selection_rng =
  tournament :: "nat \<Rightarrow> nat \<Rightarrow> nat \<Rightarrow> nat list"
  spreads :: "nat \<Rightarrow> float64 list"
  coins :: "nat \<Rightarrow> float64 list"

definition unit_residual :: "numlib \<Rightarrow> candidate_fitness \<Rightarrow> float64 list" where
  "unit_residual nl c =
     (let dev = deviations nl (residual_series c); norm = np_norm nl dev
      in if norm \<ge> pico then map (\<lambda>d. fdiv d norm) dev else map (\<lambda>d. 0) dev)"

definition unit_res_cache :: "numlib \<Rightarrow> candidate_fitness list \<Rightarrow> (string \<times> float64 list) list" where
  "unit_res_cache nl cs = foldl (\<lambda>d c. if dict_has d (candidate_id c) then d else dict_set d (candidate_id c) (unit_residual nl c)) [] cs"

definition cached_residual :: "(string \<times> float64 list) list \<Rightarrow> string \<Rightarrow> float64 list res" where
  "cached_residual cache cid = (case dict_get cache cid of Some u \<Rightarrow> Inr u | None \<Rightarrow> Inl (PyErr KeyError))"

text \<open>\<^verbatim>\<open>max(tourn_indices, key=...)\<close>: the first index with the largest score.\<close>

fun best_index :: "candidate_fitness list \<Rightarrow> nat list \<Rightarrow> nat res" where
  "best_index asps [] = Inl (PyErr ValueError)"
| "best_index asps (i # is) = Inr (foldl (\<lambda>b j. if dsr (asps ! j) > dsr (asps ! b) then j else b) i is)"

definition relax_level :: "hypergamic_config \<Rightarrow> int \<Rightarrow> int" where
  "relax_level cfg attempts = (if attempts \<ge> max_mating_attempts cfg then attempts - max_mating_attempts cfg + 1 else 0)"

text \<open>The inner loop for one alpha: the accepted pair if any, the number of rejections and the index of the next draw; the first
  numeral argument is what is left of the attempts.\<close>

fun search_partner ::
    "numlib \<Rightarrow> matcher \<Rightarrow> selection_rng \<Rightarrow> (string \<times> float64 list) list \<Rightarrow> candidate_fitness \<Rightarrow> float64 list \<Rightarrow> candidate_fitness list \<Rightarrow>
     nat \<Rightarrow> int \<Rightarrow> nat \<Rightarrow> (mating_pair option \<times> int \<times> nat) res" where
  "search_partner nl m rng cache alpha u_alpha asps 0 attempts draw = Inr (None, attempts, draw)"
| "search_partner nl m rng cache alpha u_alpha asps (Suc n) attempts draw =
     (let level = relax_level (m_config m) attempts; k_tourn = min (nat (tournament_size (m_config m))) (length asps)
      in bindR (best_index asps (tournament rng draw (length asps) k_tourn)) (\<lambda>best_idx.
           let aspirant = asps ! best_idx
           in bindR (cached_residual cache (candidate_id aspirant)) (\<lambda>u_asp.
              bindR (evaluate_normalized nl (m_gate m) u_alpha u_asp level) (\<lambda>(accepted, rho).
                if accepted
                then Inr (Some \<lparr>alpha_id = candidate_id alpha, aspirant_id = candidate_id aspirant, residual_correlation = rho,
                                is_relaxed = level > 0, relaxation_level = level\<rparr>, attempts, draw + 1)
                else search_partner nl m rng cache alpha u_alpha asps n (attempts + 1) (draw + 1)))))"

text \<open>The fallback by phenotypic distance, on the largest distance so far, the choice and its correlation.\<close>

definition distant_step ::
    "numlib \<Rightarrow> matcher \<Rightarrow> (string \<times> strategy_chromosome) list \<Rightarrow> candidate_fitness \<Rightarrow> float64 list \<Rightarrow>
     float64 \<times> candidate_fitness \<times> float64 \<Rightarrow> candidate_fitness \<Rightarrow> (float64 \<times> candidate_fitness \<times> float64) res" where
  "distant_step nl m chromosome_map alpha u_alpha s asp =
     (case dict_get chromosome_map (candidate_id asp) of
        None \<Rightarrow> Inr s
      | Some chrom \<Rightarrow>
          bindR (encode nl GENE_REGISTRY chrom) (\<lambda>u_asp.
            let dist = np_norm nl (map2 (-) u_alpha u_asp)
            in if dist > fst s then bindR (gate_evaluate nl (m_gate m) alpha asp 0) (\<lambda>(_, rho). Inr (dist, asp, rho)) else Inr s))"

definition least_correlated_step ::
    "numlib \<Rightarrow> matcher \<Rightarrow> candidate_fitness \<Rightarrow> float64 \<times> candidate_fitness \<times> float64 \<Rightarrow> candidate_fitness \<Rightarrow> (float64 \<times> candidate_fitness \<times> float64) res" where
  "least_correlated_step nl m alpha s asp =
     bindR (gate_evaluate nl (m_gate m) alpha asp 0) (\<lambda>(_, rho). if \<bar>rho\<bar> < fst s then Inr (\<bar>rho\<bar>, asp, rho) else Inr s)"

definition fallback_pair ::
    "numlib \<Rightarrow> matcher \<Rightarrow> (string \<times> strategy_chromosome) list option \<Rightarrow> candidate_fitness \<Rightarrow> candidate_fitness list \<Rightarrow> int \<Rightarrow> mating_pair res" where
  "fallback_pair nl m chromosome_map alpha asps attempts =
     bindR (case Option.bind chromosome_map (\<lambda>cm. map_option (Pair cm) (dict_get cm (candidate_id alpha))) of
              Some (cm, chrom) \<Rightarrow>
                bindR (encode nl GENE_REGISTRY chrom) (\<lambda>u_alpha.
                  foldR (distant_step nl m cm alpha u_alpha) (Fin (- 1), hd asps, Fin 1) asps)
            | None \<Rightarrow> foldR (least_correlated_step nl m alpha) (Fin 2, hd asps, Fin 1) asps) (\<lambda>(_, chosen, rho).
       Inr \<lparr>alpha_id = candidate_id alpha, aspirant_id = candidate_id chosen, residual_correlation = rho, is_relaxed = True,
            relaxation_level = max 1 attempts\<rparr>)"

text \<open>The accumulators of the loop over the pairs: the pairs, the rejections, the relaxations and the next draw.\<close>

type_synonym match_acc = "mating_pair list \<times> int \<times> int \<times> nat"

definition match_alpha ::
    "numlib \<Rightarrow> matcher \<Rightarrow> selection_rng \<Rightarrow> (string \<times> strategy_chromosome) list option \<Rightarrow> (string \<times> float64 list) list \<Rightarrow>
     candidate_fitness list \<Rightarrow> candidate_fitness list \<Rightarrow> match_acc \<Rightarrow> nat \<Rightarrow> match_acc res" where
  "match_alpha nl m rng chromosome_map cache alphas asps acc pair_idx =
     (let (pairs, rejections, relaxations, draw) = acc; alpha = alphas ! (pair_idx mod length alphas)
      in bindR (cached_residual cache (candidate_id alpha)) (\<lambda>u_alpha.
         bindR (search_partner nl m rng cache alpha u_alpha asps (nat (2 * max_mating_attempts (m_config m))) 0 draw) (\<lambda>(found, attempts, draw').
         bindR (case found of Some p \<Rightarrow> Inr p | None \<Rightarrow> fallback_pair nl m chromosome_map alpha asps attempts) (\<lambda>best_pair.
           Inr (pairs @ [best_pair], rejections + attempts, (if is_relaxed best_pair then relaxations + 1 else relaxations), draw')))))"

definition match_pairs ::
    "numlib \<Rightarrow> matcher \<Rightarrow> selection_rng \<Rightarrow> candidate_fitness list \<Rightarrow> candidate_fitness list \<Rightarrow> int \<Rightarrow>
     (string \<times> strategy_chromosome) list option \<Rightarrow> matcher \<times> mating_pair list res" where
  "match_pairs nl m rng alphas asps target chromosome_map =
     (if alphas = [] then (m, Inl InvalidCohort)
      else if asps = [] then (m, Inl InvalidCohort)
      else if target \<le> 0 then (m\<lparr>last_rejection_count := 0, last_relaxation_count := 0\<rparr>, Inr [])
      else
        case foldR (match_alpha nl m rng chromosome_map (unit_res_cache nl (alphas @ asps)) alphas asps) ([], 0, 0, 0) [0..<nat target] of
          Inl e \<Rightarrow> (m, Inl e)
        | Inr (pairs, rejections, relaxations, _) \<Rightarrow>
            (m\<lparr>last_rejection_count := rejections, last_relaxation_count := relaxations\<rparr>, Inr pairs))"

section \<open>Crossover\<close>

record crossover =
  x_config :: hypergamic_config
  x_registry :: "gene_spec list"
  x_inv_eta :: float64

definition crossover_new :: "hypergamic_config \<Rightarrow> gene_spec list \<Rightarrow> crossover res" where
  "crossover_new cfg reg =
     bindR (divR (Fin 1) (crossover_distribution_index cfg + Fin 1)) (\<lambda>e. Inr \<lparr>x_config = cfg, x_registry = reg, x_inv_eta = e\<rparr>)"

definition spread_factor :: "numlib \<Rightarrow> float64 \<Rightarrow> float64 \<Rightarrow> float64" where
  "spread_factor nl inv_eta r =
     (if r \<le> Fin (1 / 2) then np_pow nl (Fin 2 * r) inv_eta else np_pow nl (fdiv (Fin 1) (Fin 2 * (Fin 1 - r))) inv_eta)"

text \<open>One coordinate of the child before clipping.\<close>

definition child_gene :: "numlib \<Rightarrow> crossover \<Rightarrow> gene_spec \<Rightarrow> float64 \<Rightarrow> float64 \<Rightarrow> float64 \<Rightarrow> float64 \<Rightarrow> float64" where
  "child_gene nl x g ua ub r coin =
     (let beta = spread_factor nl (x_inv_eta x) r;
          u1 = Fin (1 / 2) * ((Fin 1 + beta) * ua + (Fin 1 - beta) * ub);
          u2 = Fin (1 / 2) * ((Fin 1 - beta) * ua + (Fin 1 + beta) * ub)
      in if g_block g \<in> {''risk'', ''game''}
         then (if coin < alpha_risk_inheritance_prob (x_config x) then u1 else u2)
         else (if coin < aspirant_repr_inheritance_prob (x_config x) then u2 else u1))"

text \<open>Vectors of another length than the registry do not fit; a single element, which numpy would broadcast, no codec produces.\<close>

definition cross_vectors :: "numlib \<Rightarrow> crossover \<Rightarrow> float64 list \<Rightarrow> float64 list \<Rightarrow> float64 list \<Rightarrow> float64 list \<Rightarrow> strategy_chromosome res" where
  "cross_vectors nl x u_a u_b rs cs =
     (if length u_a \<noteq> length GENE_REGISTRY \<or> length u_b \<noteq> length GENE_REGISTRY then Inl (PyErr ValueError)
      else
        let u_child = map (\<lambda>(g, ua, ub, r, coin). np_clip nl (child_gene nl x g ua ub r coin) 0 (Fin 1))
              (zip GENE_REGISTRY (zip u_a (zip u_b (zip rs cs))))
        in decode nl (x_registry x) u_child)"

definition cross :: "numlib \<Rightarrow> crossover \<Rightarrow> strategy_chromosome \<Rightarrow> strategy_chromosome \<Rightarrow> float64 list \<Rightarrow> float64 list \<Rightarrow> strategy_chromosome res" where
  "cross nl x alpha aspirant rs cs =
     bindR (encode nl (x_registry x) alpha) (\<lambda>u_a. bindR (encode nl (x_registry x) aspirant) (\<lambda>u_b. cross_vectors nl x u_a u_b rs cs))"

section \<open>The engine\<close>

record selection_engine =
  en_config :: hypergamic_config
  en_codec :: "gene_spec list"
  en_stratifier :: hypergamic_config
  en_matcher :: matcher
  en_crossover :: crossover

definition selection_engine_new :: "hypergamic_config \<Rightarrow> selection_engine res" where
  "selection_engine_new cfg =
     bindR (codec_new None) (\<lambda>reg.
     bindR (crossover_new cfg reg) (\<lambda>x.
       Inr \<lparr>en_config = cfg, en_codec = reg, en_stratifier = cfg, en_matcher = matcher_new cfg cfg, en_crossover = x\<rparr>))"

definition front_1_cands :: "ranking_result \<Rightarrow> string list" where
  "front_1_cands r = (case filter (\<lambda>f. pf_rank f = 1) (rr_fronts r) of [] \<Rightarrow> [] | f # _ \<Rightarrow> pf_candidate_ids f)"

definition n_elite :: "hypergamic_config \<Rightarrow> ranking_result \<Rightarrow> int \<Rightarrow> int" where
  "n_elite cfg r target = min (elitism_count cfg) (min (int (length (front_1_cands r))) target)"

definition lookup_chromosome :: "(string \<times> strategy_chromosome) list \<Rightarrow> string \<Rightarrow> strategy_chromosome res" where
  "lookup_chromosome cm cid = (case dict_get cm cid of Some c \<Rightarrow> Inr c | None \<Rightarrow> Inl SelectionError)"

text \<open>The encoded chromosomes in the order of the dictionary, and the child of the \<open>k\<close>-th pair.\<close>

definition encode_all :: "numlib \<Rightarrow> gene_spec list \<Rightarrow> (string \<times> strategy_chromosome) list \<Rightarrow> (string \<times> float64 list) list res" where
  "encode_all nl reg cm = mapR (\<lambda>(cid, chrom). bindR (encode nl reg chrom) (\<lambda>u. Inr (cid, u))) cm"

definition child_of ::
    "numlib \<Rightarrow> selection_engine \<Rightarrow> selection_rng \<Rightarrow> (string \<times> strategy_chromosome) list \<Rightarrow> (string \<times> float64 list) list \<Rightarrow> nat \<times> mating_pair \<Rightarrow>
     strategy_chromosome res" where
  "child_of nl en rng cm enc kp =
     (let (k, p) = kp
      in if \<not> dict_has cm (alpha_id p) then Inl SelectionError
         else if \<not> dict_has cm (aspirant_id p) then Inl SelectionError
         else bindR (cached_residual enc (alpha_id p)) (\<lambda>u_a.
              bindR (cached_residual enc (aspirant_id p)) (\<lambda>u_b.
                cross_vectors nl (en_crossover en) u_a u_b (spreads rng k) (coins rng k))))"

definition reproduce ::
    "numlib \<Rightarrow> selection_engine \<Rightarrow> selection_rng \<Rightarrow> candidate_fitness list \<Rightarrow> ranking_result \<Rightarrow> (string \<times> strategy_chromosome) list \<Rightarrow> int \<Rightarrow>
     selection_engine \<times> offspring_result res" where
  "reproduce nl en rng cs r cm target =
     (if target \<le> 0 then (en, Inl SelectionError)
      else
        case stratify (en_stratifier en) cs r of
          Inl e \<Rightarrow> (en, Inl e)
        | Inr (alphas, asps) \<Rightarrow>
            let elite_ids = py_prefix (n_elite (en_config en) r target) (front_1_cands r)
            in (case mapR (lookup_chromosome cm) elite_ids of
                 Inl e \<Rightarrow> (en, Inl e)
               | Inr elite_chromosomes \<Rightarrow>
                   let needed_pairs = target - n_elite (en_config en) r target;
                       (m, matched) = (if needed_pairs > 0 then match_pairs nl (en_matcher en) rng alphas asps needed_pairs (Some cm) else (en_matcher en, Inr []));
                       en1 = en\<lparr>en_matcher := m\<rparr>
                   in (en1,
                       bindR matched (\<lambda>pairs.
                       bindR (if needed_pairs > 0 then bindR (encode_all nl (en_codec en) cm) (\<lambda>enc. mapR (child_of nl en rng cm enc) (enumerate 0 pairs)) else Inr []) (\<lambda>children.
                         Inr \<lparr>offspring_chromosomes = elite_chromosomes @ children, mating_pairs = pairs, or_alpha_ids = map candidate_id alphas,
                              or_aspirant_ids = map candidate_id asps, or_elite_ids = elite_ids, rejection_count = last_rejection_count m,
                              relaxation_count = last_relaxation_count m\<rparr>)))))"

end
