(* ===== verification/Chromosomes_Props.thy ===== *)
theory Chromosomes_Props
  imports Chromosomes
begin

text \<open>
  The properties of \<open>Chromosomes\<close>: bounds after reading a dictionary, the dictionary round trip, totality of the codec and the exact round trip
  of the discrete genes, whose bucket midpoints survive two roundings.
\<close>

section \<open>Bounds\<close>

definition gene_ok :: "gene_spec \<Rightarrow> float64 \<Rightarrow> bool" where
  "gene_ok g v \<longleftrightarrow> g_lower g \<le> v \<and> v \<le> g_upper g"

text \<open>Every gene of the registry has its value within its bounds.\<close>

definition in_bounds :: "strategy_chromosome \<Rightarrow> bool" where
  "in_bounds c \<longleftrightarrow> list_all (\<lambda>g. case gene_value c g of Inr v \<Rightarrow> gene_ok g v | Inl e \<Rightarrow> False) GENE_REGISTRY"

lemma small_int_float: "\<bar>i\<bar> < 2 ^ 53 \<Longrightarrow> num_float (PInt i) = Inr (Fin (of_int i))"
  by (simp add: num_float_def int_overflows_def float_of_int_def rnd64_of_int)

lemma int_gene_between:
  "0 \<le> a \<Longrightarrow> b < 2 ^ 52 \<Longrightarrow>
   (case num_float (PInt i) of Inl e \<Rightarrow> False | Inr v \<Rightarrow> Fin (of_int a) \<le> v \<and> v \<le> Fin (of_int b)) \<longleftrightarrow> a \<le> i \<and> i \<le> b"
proof (cases "\<bar>i\<bar> < 2 ^ 53")
  case True
  then show ?thesis by (simp add: small_int_float)
next
  case False
  assume ab: "0 \<le> a" "b < 2 ^ 52"
  consider "2 ^ 53 \<le> i" | "i \<le> - 1" using False by linarith
  then show ?thesis
  proof cases
    case 1
    then have "rnd64 (of_int (2 ^ 52)) \<le> rnd64 (of_int i)" by (intro rnd64_mono) simp
    then have "Fin (of_int (2 ^ 52)) \<le> rnd64 (of_int i)" by (subst (asm) rnd64_of_int) simp_all
    moreover have "Fin (of_int b) < Fin (of_int (2 ^ 52))" using ab(2) by (simp only: less_float64_simps of_int_less_iff)
    ultimately have "\<not> rnd64 (of_int i) \<le> Fin (of_int b)" using float_less_le_trans float_le_less_trans float_less_irrefl by blast
    then show ?thesis using 1 ab(2) by (auto simp: num_float_def float_of_int_def)
  next
    case 2
    then have "rnd64 (of_int i) \<le> rnd64 (of_int (- 1))" by (intro rnd64_mono) (simp only: of_int_le_iff)
    then have "rnd64 (of_int i) \<le> Fin (- 1)" by simp
    moreover have "Fin (- 1) < Fin (of_int a)" using ab(1) by simp
    ultimately have "\<not> Fin (of_int a) \<le> rnd64 (of_int i)" using float_less_le_trans float_le_less_trans float_less_irrefl by blast
    then show ?thesis using 2 ab(1) by (auto simp: num_float_def float_of_int_def)
  qed
qed

lemma num_float_PFloat [simp]: "num_float (PFloat x) = Inr x"
  by (simp add: num_float_def)

lemmas attrs_defs = repr_attrs_def game_attrs_def infer_attrs_def risk_attrs_def

text \<open>The bounds of the registry as a conjunction over the fields.\<close>

abbreviation between :: "float64 \<Rightarrow> float64 \<Rightarrow> float64 \<Rightarrow> bool" where
  "between lo hi x \<equiv> lo \<le> x \<and> x \<le> hi"

lemma in_bounds_fields:
  shows "in_bounds c \<longleftrightarrow>
    between (Fin 14400) (Fin 604800) (tau_slow (c_representation c)) \<and> between (flit (2 / 100)) (flit (50 / 100)) (tau_ratio (c_representation c)) \<and>
    between 0 (Fin 1) (alpha_decay (c_representation c)) \<and> between (flit (5 / 100)) (flit (95 / 100)) (fractional_d (c_representation c)) \<and>
    between (flit (5 / 100)) (Fin 5) (ambiguity_temp (c_game_theory c)) \<and> between (flit (10 / 100)) (Fin 10) (risk_aversion (c_game_theory c)) \<and>
    between 0 (Fin 1) (predatory_intensity (c_game_theory c)) \<and> between (Fin (- 2)) (Fin 2) (logit_bull (c_game_theory c)) \<and>
    between (Fin (- 2)) (Fin 2) (logit_bear (c_game_theory c)) \<and> between (Fin (- 2)) (Fin 2) (logit_panic (c_game_theory c)) \<and>
    1 \<le> execution_horizon (c_inference c) \<and> execution_horizon (c_inference c) \<le> 20 \<and>
    between (flit (1 / 100)) (Fin 2) (hyperbolic_decay (c_inference c)) \<and> between (flit (50 / 100)) (Fin 5) (profit_take_mult (c_inference c)) \<and>
    between (flit (50 / 100)) (Fin 5) (stop_loss_mult (c_inference c)) \<and> 5 \<le> holding_period (c_inference c) \<and> holding_period (c_inference c) \<le> 100 \<and>
    between (flit (40 / 100)) (flit (85 / 100)) (meta_label_thresh (c_inference c)) \<and>
    between (flit (5 / 100)) (flit (40 / 100)) (vol_target (c_risk c)) \<and> between (flit (5 / 100)) (flit (50 / 100)) (max_weight (c_risk c)) \<and>
    between (flit (2 / 100)) (flit (30 / 100)) (max_drawdown_limit (c_risk c)) \<and> between (flit (5 / 100)) (Fin 1) (turnover_budget (c_risk c))"
  using int_gene_between [of 1 20 "execution_horizon (c_inference c)"] int_gene_between [of 5 100 "holding_period (c_inference c)"]
  by (simp add: in_bounds_def GENE_REGISTRY_def gene_def gene_value_def gene_ok_def attrs_defs Let_def cong: sum.case_cong)

text \<open>The order of decimal bounds.\<close>

lemma flit_le: "x \<le> y \<Longrightarrow> flit x \<le> flit y"
  by (rule rnd64_mono)

lemma flit_le_numeral: "x \<le> numeral n \<Longrightarrow> (numeral n :: int) < 2 ^ 53 \<Longrightarrow> flit x \<le> Fin (numeral n)" "x \<le> 1 \<Longrightarrow> flit x \<le> Fin 1"
  using rnd64_mono [of x "numeral n"] rnd64_mono [of x 1] by simp_all

lemmas decimal_order = flit_le flit_le_numeral

text \<open>Reading a dictionary clips every gene.\<close>

definition clipped :: "float64 \<Rightarrow> float64 \<Rightarrow> float64 \<Rightarrow> bool" where
  "clipped lo hi x \<longleftrightarrow> x = NaN \<or> lo \<le> x \<and> x \<le> hi"

lemma clipped_clip: "clip_documented nl \<Longrightarrow> lo \<le> hi \<Longrightarrow> clipped lo hi (np_clip nl x lo hi)"
  using clip_between [of nl lo hi x] by (auto simp: clipped_def)

lemma repr_from_ok:
  assumes "repr_from nl te d = Inr r" and "clip_documented nl"
  shows "clipped (Fin 14400) (Fin 604800) (tau_slow r)" "clipped (flit (2 / 100)) (flit (50 / 100)) (tau_ratio r)"
    "clipped 0 (Fin 1) (alpha_decay r)" "clipped (flit (5 / 100)) (flit (95 / 100)) (fractional_d r)"
  using assms by (auto simp: repr_from_def bindR_Inr_iff decimal_order intro!: clipped_clip)

lemma game_from_ok:
  assumes "game_from nl te d = Inr g" and "clip_documented nl"
  shows "clipped (flit (5 / 100)) (Fin 5) (ambiguity_temp g)" "clipped (flit (10 / 100)) (Fin 10) (risk_aversion g)"
    "clipped 0 (Fin 1) (predatory_intensity g)" "clipped (Fin (- 2)) (Fin 2) (logit_bull g)" "clipped (Fin (- 2)) (Fin 2) (logit_bear g)"
    "clipped (Fin (- 2)) (Fin 2) (logit_panic g)"
  using assms by (auto simp: game_from_def bindR_Inr_iff decimal_order intro!: clipped_clip)

lemma infer_from_ok:
  assumes "infer_from nl te d = Inr i" and "clip_documented nl" and "clip_int_documented nl"
  shows "1 \<le> execution_horizon i \<and> execution_horizon i \<le> 20" "clipped (flit (1 / 100)) (Fin 2) (hyperbolic_decay i)"
    "clipped (flit (50 / 100)) (Fin 5) (profit_take_mult i)" "clipped (flit (50 / 100)) (Fin 5) (stop_loss_mult i)"
    "5 \<le> holding_period i \<and> holding_period i \<le> 100" "clipped (flit (40 / 100)) (flit (85 / 100)) (meta_label_thresh i)"
  using assms by (auto simp: infer_from_def bindR_Inr_iff decimal_order clip_int_between intro!: clipped_clip)

lemma risk_from_ok:
  assumes "risk_from nl te d = Inr k" and "clip_documented nl"
  shows "clipped (flit (5 / 100)) (flit (40 / 100)) (vol_target k)" "clipped (flit (5 / 100)) (flit (50 / 100)) (max_weight k)"
    "clipped (flit (2 / 100)) (flit (30 / 100)) (max_drawdown_limit k)" "clipped (flit (5 / 100)) (Fin 1) (turnover_budget k)"
  using assms by (auto simp: risk_from_def bindR_Inr_iff decimal_order intro!: clipped_clip)

lemma from_dictE:
  assumes "from_dict nl te data = Inr c"
  obtains dr dg di dk where "repr_from nl te dr = Inr (c_representation c)" and "game_from nl te dg = Inr (c_game_theory c)"
    and "infer_from nl te di = Inr (c_inference c)" and "risk_from nl te dk = Inr (c_risk c)"
  using assms by (auto simp: from_dict_def bindR_Inr_iff split: jval.splits)

text \<open>Each gene is within its bounds or NaN.\<close>

definition genes_clipped :: "strategy_chromosome \<Rightarrow> bool" where
  "genes_clipped c \<longleftrightarrow> list_all (\<lambda>g. case gene_value c g of Inr v \<Rightarrow> clipped (g_lower g) (g_upper g) v | Inl e \<Rightarrow> False) GENE_REGISTRY"

lemma case_Inr_iff: "(case x of Inl e \<Rightarrow> False | Inr v \<Rightarrow> P v) \<longleftrightarrow> (\<exists>v. x = Inr v \<and> P v)"
  by (cases x) simp_all

lemma int_gene_within:
  assumes "0 \<le> a" and "b < 2 ^ 52" and "a \<le> i" and "i \<le> b"
  shows "\<exists>v. num_float (PInt i) = Inr v \<and> clipped (Fin (of_int a)) (Fin (of_int b)) v"
  using small_int_float [of i] assms by (auto simp: clipped_def)

lemma from_dict_clipped:
  assumes "from_dict nl te data = Inr c" and "clip_documented nl" and "clip_int_documented nl"
  shows "genes_clipped c"
proof -
  obtain dr dg di dk where b: "repr_from nl te dr = Inr (c_representation c)" "game_from nl te dg = Inr (c_game_theory c)"
    "infer_from nl te di = Inr (c_inference c)" "risk_from nl te dk = Inr (c_risk c)"
    using assms(1) by (rule from_dictE)
  note r = repr_from_ok [OF b(1) assms(2)] and g = game_from_ok [OF b(2) assms(2)] and i = infer_from_ok [OF b(3) assms(2,3)]
    and k = risk_from_ok [OF b(4) assms(2)]
  obtain vh where vh: "num_float (PInt (execution_horizon (c_inference c))) = Inr vh" "clipped (Fin 1) (Fin 20) vh"
    using int_gene_within [of 1 20 "execution_horizon (c_inference c)"] i(1) by auto
  obtain vp where vp: "num_float (PInt (holding_period (c_inference c))) = Inr vp" "clipped (Fin 5) (Fin 100) vp"
    using int_gene_within [of 5 100 "holding_period (c_inference c)"] i(5) by auto
  show ?thesis using r g i(2-4,6) k vh vp by (simp add: genes_clipped_def GENE_REGISTRY_def gene_def gene_value_def attrs_defs Let_def)
qed

text \<open>A ratio of at most a half shortens every timescale.\<close>

lemma half_shorter:
  assumes "between (Fin 14400) (Fin 604800) s" and "0 \<le> r" and "r \<le> Fin (1 / 2)"
  shows "r * s < s"
proof -
  obtain a where a: "s = Fin a" "14400 \<le> a" "a \<le> 604800" using assms(1) by (cases s) auto
  obtain b where b: "r = Fin b" "0 \<le> b" "b \<le> 1 / 2" using assms(2,3) by (cases r) (auto simp: zero_float64_def)
  have "b * a \<le> 1 / 2 * a" using a b by (intro mult_right_mono) auto
  then have le: "rnd64 (b * a) \<le> rnd64 (a / 2)" by (intro rnd64_mono) simp
  have "rnd64 (a / 2) \<le> rnd64 302400" using a by (intro rnd64_mono) simp
  then have "isfinite (rnd64 (a / 2))" using between_finite [of 0 "rnd64 (a / 2)" 302400] rnd64_nonneg [of "a / 2"] a by (simp add: zero_float64_def)
  then obtain y where y: "rnd64 (a / 2) = Fin y" by auto
  have e: "\<bar>rnd (a / 2) - a / 2\<bar> \<le> \<bar>a / 2\<bar> * two_pow (- 53)"
    using a two_pow_mono [of "- 1022" 0] by (intro rnd_error) (simp add: two_pow_def [of 0])
  have "\<bar>a / 2\<bar> * two_pow (- 53) \<le> a / 2 * (1 / 2)"
    using a two_pow_mono [of "- 53" "- 1"] by (intro mult_mono) (simp_all add: two_pow_def [of "- 1"])
  moreover have "rnd (a / 2) - a / 2 \<le> \<bar>rnd (a / 2) - a / 2\<bar>" by (rule abs_ge_self)
  ultimately have "rnd (a / 2) - a / 2 \<le> a / 2 * (1 / 2)" using e by linarith
  then have "rnd (a / 2) < a" using a by linarith
  then have "rnd64 (a / 2) < Fin a" using y rnd64_FinD [OF y] by simp
  then show ?thesis using float_le_less_trans [OF le] a(1) b(1) by simp
qed

lemma clip_bounds: "clip_documented nl \<Longrightarrow> between lo hi x \<Longrightarrow> np_clip nl x lo hi = x"
  using clip_same by blast

lemma dict_roundtrip:
  assumes "in_bounds c" and "clip_documented nl" and "clip_int_documented nl"
  shows "from_dict nl te (to_dict nl c) = Inr c"
proof -
  note b = assms(1) [unfolded in_bounds_fields]
  let ?d = "case to_dict nl c of JDict d \<Rightarrow> d"
  have "bindR (block ?d ''chromosome_repr'') (repr_from nl te) = Inr (c_representation c)"
    using b clip_bounds [OF assms(2)]
    by (simp add: to_dict_def block_def repr_from_def get_float_def get_float_alias_def Let_def)
  moreover have "bindR (block ?d ''chromosome_game'') (game_from nl te) = Inr (c_game_theory c)"
    using b clip_bounds [OF assms(2)]
    by (simp add: to_dict_def block_def game_from_def get_float_def get_float_alias_def logits_from_def Let_def)
  moreover have "bindR (block ?d ''chromosome_infer'') (infer_from nl te) = Inr (c_inference c)"
    using b clip_bounds [OF assms(2)] clip_int_same [OF assms(3)]
    by (simp add: to_dict_def block_def infer_from_def get_float_def get_int_def get_float_alias_def Let_def)
  moreover have "bindR (block ?d ''chromosome_risk'') (risk_from nl te) = Inr (c_risk c)"
    using b clip_bounds [OF assms(2)]
    by (simp add: to_dict_def block_def risk_from_def get_float_def get_float_alias_def Let_def)
  ultimately show ?thesis by (simp add: from_dict_def to_dict_def Let_def)
qed


section \<open>Encoding and decoding\<close>

text \<open>The bucket midpoints survive the rounding: the encoded index is recovered exactly.\<close>

lemma bucket_exact:
  fixes k :: int
  assumes "0 \<le> k" and "k < 20" and "rnd64 ((of_int k + 1 / 2) / 20) = Fin u"
  shows "0 \<le> u" "u \<le> 1" "floor_int (Fin u * Fin 20) = Inr k"
proof -
  let ?x = "(of_int k + 1 / 2) / 20 :: rat"
  have kk: "(0::rat) \<le> of_int k" "(of_int k :: rat) \<le> 19" using assms(1,2) by simp_all
  have x: "1 / 40 \<le> ?x" "?x \<le> 39 / 40" using kk by (simp_all add: field_simps)
  have u: "u = rnd ?x" using rnd64_FinD [OF assms(3)] by simp
  have tiny: "two_pow (- 1022) \<le> 1 / 40" "two_pow (- 53) \<le> 1 / 1000" by (simp_all add: two_pow_def)
  have "\<bar>rnd ?x - ?x\<bar> \<le> \<bar>?x\<bar> * two_pow (- 53)" using x(1) tiny(1) by (intro rnd_error) linarith
  also have "\<dots> \<le> 1 * (1 / 1000)"
  proof (intro mult_mono)
    show "\<bar>?x\<bar> \<le> 1" using x by linarith
  qed (use tiny(2) in simp_all)
  finally have e: "u - ?x \<le> 1 / 1000" "- (u - ?x) \<le> 1 / 1000" unfolding u by (simp_all only: abs_le_iff mult_1_left)
  show "0 \<le> u" "u \<le> 1" using e x by linarith+
  have big: "1 / 50 \<le> u * 20" "u * 20 \<le> 20" using e x by linarith+
  have "\<bar>rnd (u * 20) - u * 20\<bar> \<le> \<bar>u * 20\<bar> * two_pow (- 53)" using big tiny by (intro rnd_error) (simp add: two_pow_def)
  also have "\<dots> \<le> 20 * (1 / 1000)" using big tiny(2) by (intro mult_mono) simp_all
  finally have z: "rnd (u * 20) - u * 20 \<le> 1 / 50" "- (rnd (u * 20) - u * 20) \<le> 1 / 50" by (simp_all only: abs_le_iff) simp_all
  have y: "u * 20 - (of_int k + 1 / 2) \<le> 1 / 50" "- (u * 20 - (of_int k + 1 / 2)) \<le> 1 / 50" using e by (simp_all add: field_simps)
  have "rnd64 0 \<le> rnd64 (u * 20)" "rnd64 (u * 20) \<le> rnd64 20" using big rnd64_mono [of 0 "u * 20"] rnd64_mono [of "u * 20" 20] by linarith+
  then have "isfinite (rnd64 (u * 20))" using between_finite [of 0 "rnd64 (u * 20)" 20] by (simp add: zero_float64_def)
  then obtain w where w: "rnd64 (u * 20) = Fin w" by auto
  have "w = rnd (u * 20)" using rnd64_FinD [OF w] by simp
  then have "of_int k \<le> w" "w < of_int k + 1" using z y by linarith+
  then have "\<lfloor>w\<rfloor> = k" by (rule floor_unique)
  then show "floor_int (Fin u * Fin 20) = Inr k" using w by simp
qed

text \<open>A gene with twenty whole values.\<close>

definition twenty_steps :: "gene_spec \<Rightarrow> int \<Rightarrow> int \<Rightarrow> bool" where
  "twenty_steps g l s \<longleftrightarrow> g_scale g = DISCRETE_INT \<and> g_lower g = Fin (of_int l) \<and> g_step g = Fin (of_int s) \<and>
     g_upper g = Fin (of_int (l + 19 * s)) \<and> 0 \<le> l \<and> 1 \<le> s \<and> l + 19 * s < 2 ^ 50"

lemma whole_steps:
  fixes l s k :: int
  assumes "0 \<le> l" "1 \<le> s" "l + 19 * s < 2 ^ 50" "0 \<le> k" "k < 20"
  shows "Fin (of_int (l + k * s)) - Fin (of_int l) = Fin (of_int (k * s))" "fdiv (Fin (of_int (k * s))) (Fin (of_int s)) = Fin (of_int k)"
    "Fin (of_int l) + Fin (of_int k) * Fin (of_int s) = Fin (of_int (l + k * s))"
proof -
  have ks: "0 \<le> k * s" "k * s \<le> 19 * s" using assms by (simp_all add: mult_right_mono)
  have "l + k * s < 2 ^ 50" using ks assms(3) by linarith
  then have "\<bar>k * s\<bar> < 2 ^ 53" "\<bar>l + k * s\<bar> < 2 ^ 53" "\<bar>k\<bar> < 2 ^ 53" using assms ks by simp_all
  note this [THEN rnd64_of_int]
  then have "rnd64 (of_int (k * s)) = Fin (of_int (k * s))" "rnd64 (of_int (l + k * s)) = Fin (of_int (l + k * s))" "rnd64 (of_int k) = Fin (of_int k)"
    by blast+
  then show "Fin (of_int (l + k * s)) - Fin (of_int l) = Fin (of_int (k * s))" "fdiv (Fin (of_int (k * s))) (Fin (of_int s)) = Fin (of_int k)"
    "Fin (of_int l) + Fin (of_int k) * Fin (of_int s) = Fin (of_int (l + k * s))"
    using assms(2) by (simp_all add: minus_float64_def)
qed

lemma n_steps_twenty: "twenty_steps g l s \<Longrightarrow> n_steps g = Inr 20"
  using whole_steps(1,2) [of l s 19] by (simp add: twenty_steps_def n_steps_def divR_def zero_float64_def)

lemma discrete_roundtrip:
  assumes "twenty_steps g l s" and "0 \<le> k" and "k < 20"
  shows "\<exists>u. encode_gene nl g (Fin (of_int (l + k * s))) = Inr (Fin u) \<and> 0 \<le> u \<and> u \<le> 1 \<and>
    decode_gene nl g (Fin u) = Inr (Fin (of_int (l + k * s)))"
proof -
  note w = whole_steps [of l s k]
  have g: "g_scale g = DISCRETE_INT" "g_lower g = Fin (of_int l)" "g_step g = Fin (of_int s)" "0 \<le> l" "1 \<le> s" "l + 19 * s < 2 ^ 50"
    using assms(1) by (simp_all add: twenty_steps_def)
  have half: "float_of_int k + Fin (1 / 2) = Fin (of_int k + 1 / 2)"
  proof -
    have "rnd64 (of_int (2 * k + 1) * two_pow (- 1)) = Fin (of_int (2 * k + 1) * two_pow (- 1))" using assms by (intro rnd64_dyadic) simp_all
    moreover have "of_int (2 * k + 1) * two_pow (- 1) = (of_int k + 1 / 2 :: rat)" by (simp add: two_pow_def field_simps)
    ultimately show ?thesis using assms rnd64_of_int [of k] by (simp add: float_of_int_def)
  qed
  have twenty: "float_of_int 20 = Fin 20" by (simp add: float_of_int_def)
  have "rnd64 0 \<le> rnd64 ((of_int k + 1 / 2) / 20)" "rnd64 ((of_int k + 1 / 2) / 20) \<le> rnd64 1" using assms(2,3) by (intro rnd64_mono; simp add: field_simps)+
  then have "isfinite (rnd64 ((of_int k + 1 / 2) / 20))" using between_finite [of 0 _ 1] by (simp add: zero_float64_def)
  then obtain u where u: "rnd64 ((of_int k + 1 / 2) / 20) = Fin u" by auto
  note b = bucket_exact [OF assms(2,3) u]
  have "encode_gene nl g (Fin (of_int (l + k * s))) = Inr (Fin u)"
    using g w assms(2,3) n_steps_twenty [OF assms(1)] half twenty u by (simp add: encode_gene_def divR_def zero_float64_def)
  moreover have "decode_gene nl g (Fin u) = Inr (Fin (of_int (l + k * s)))"
    using g w assms(2,3) n_steps_twenty [OF assms(1)] twenty b(3) rnd64_of_int [of k] by (simp add: decode_gene_def Let_def float_of_int_def)
  ultimately show ?thesis using b by blast
qed


text \<open>Bounds that are a dyadic number apart have a difference that is finite and not zero.\<close>

lemma gap:
  assumes "lo \<le> Fin (a - 1 / 8)" and "Fin a \<le> hi" and "Fin (- 2) \<le> lo" and "hi \<le> Fin 16"
  shows "isfinite lo" "isfinite hi" "isfinite (hi - lo)" "hi - lo \<noteq> 0"
proof -
  obtain l where l: "lo = Fin l" "l \<le> a - 1 / 8" "- 2 \<le> l" using assms(1,3) by (cases lo) auto
  obtain h where h: "hi = Fin h" "a \<le> h" "h \<le> 16" using assms(2,4) by (cases hi) auto
  have "1 / 8 \<le> h - l" "h - l \<le> 18" using l h by linarith+
  then have "Fin (1 / 8) \<le> rnd64 (h - l)" "rnd64 (h - l) \<le> Fin 18"
    using rnd64_mono [of "1 / 8" "h - l"] rnd64_mono [of "h - l" 18] rnd64_dyadic [of 1 "- 3"] by (simp_all add: two_pow_def)
  then show "isfinite lo" "isfinite hi" "isfinite (hi - lo)" "hi - lo \<noteq> 0"
    using between_finite [of "1 / 8" "rnd64 (h - l)" 18] l h by (auto simp: minus_float64_def zero_float64_def)
qed

lemma flit_dyadic:
  "x \<le> 1 / 8 \<Longrightarrow> flit x \<le> Fin (1 / 8)" "x \<le> 5 / 8 \<Longrightarrow> flit x \<le> Fin (5 / 8)" "1 / 4 \<le> x \<Longrightarrow> Fin (1 / 4) \<le> flit x"
  "3 / 4 \<le> x \<Longrightarrow> Fin (3 / 4) \<le> flit x"
  using rnd64_mono [of x "1 / 8"] rnd64_mono [of x "5 / 8"] rnd64_mono [of "1 / 4" x] rnd64_mono [of "3 / 4" x]
    rnd64_dyadic [of 1 "- 3"] rnd64_dyadic [of 5 "- 3"] rnd64_dyadic [of 1 "- 2"] rnd64_dyadic [of 3 "- 2"]
  by (simp_all add: two_pow_def)

lemma minus_two_le_flit: "0 \<le> x \<Longrightarrow> Fin (- 2) \<le> flit x"
  using rnd64_mono [of "- 2" x] by simp

lemma flit_le_sixteen: "x \<le> 1 \<Longrightarrow> flit x \<le> Fin 16"
  using rnd64_mono [of x 16] by simp

lemma registry_linear:
  assumes "g \<in> set GENE_REGISTRY" and "g_scale g \<in> {LINEAR, SOFTMAX_LOGIT}"
  shows "isfinite (g_lower g)" "isfinite (g_upper g)" "isfinite (g_upper g - g_lower g)" "g_upper g - g_lower g \<noteq> 0"
proof -
  have "(g_lower g \<le> Fin (1 / 4 - 1 / 8) \<and> Fin (1 / 4) \<le> g_upper g \<or> g_lower g \<le> Fin (3 / 4 - 1 / 8) \<and> Fin (3 / 4) \<le> g_upper g) \<and>
      Fin (- 2) \<le> g_lower g \<and> g_upper g \<le> Fin 16"
    using assms by (auto simp: GENE_REGISTRY_def gene_def flit_dyadic minus_two_le_flit flit_le_sixteen zero_float64_def)
  then show "isfinite (g_lower g)" "isfinite (g_upper g)" "isfinite (g_upper g - g_lower g)" "g_upper g - g_lower g \<noteq> 0"
    using gap by blast+
qed

lemma registry_logarithmic:
  assumes "g \<in> set GENE_REGISTRY" and "g_scale g = LOGARITHMIC"
  shows "\<exists>a b. g_lower g = Fin a \<and> g_upper g = Fin b \<and> two_pow (- 1074) \<le> a \<and> 2 * a \<le> b \<and> b < max_exp"
proof -
  have "rnd64 (1 / 32) \<le> flit (1 / 20)" "flit (1 / 20) \<le> Fin 1" using rnd64_mono [of "1 / 32" "1 / 20"] rnd64_mono [of "1 / 20" 1] by simp_all
  then have b: "Fin (1 / 32) \<le> flit (1 / 20)" "flit (1 / 20) \<le> Fin 1" using rnd64_dyadic [of 1 "- 5"] by (simp_all add: two_pow_def)
  then obtain e where e: "flit (1 / 20) = Fin e" using between_finite [OF b] by auto
  have "1 / 32 \<le> e" "e \<le> 1" using b unfolding e by simp_all
  moreover have "two_pow (- 1074) \<le> 1 / 32" by (simp add: two_pow_def)
  moreover have "(5::rat) < max_exp" "(604800::rat) < max_exp" using int_lt_max_exp [of 5] int_lt_max_exp [of 604800] by simp_all
  ultimately show ?thesis using assms e by (auto simp: GENE_REGISTRY_def gene_def)
qed

lemma registry_discrete:
  assumes "g \<in> set GENE_REGISTRY" and "g_scale g = DISCRETE_INT"
  shows "twenty_steps g 1 1 \<and> g_name g = ''execution_horizon'' \<or> twenty_steps g 5 5 \<and> g_name g = ''holding_period''"
  using assms by (auto simp: GENE_REGISTRY_def gene_def twenty_steps_def)

lemma divR_not_nan: "isfinite x \<Longrightarrow> isfinite y \<Longrightarrow> y \<noteq> 0 \<Longrightarrow> \<exists>u. divR x y = Inr u \<and> u \<noteq> NaN"
  by (auto simp: divR_def)

lemma finite_diff_not_nan: "isfinite x \<Longrightarrow> isfinite y \<Longrightarrow> x - y \<noteq> NaN"
  by (auto simp: minus_float64_def)

lemma divR_diff_not_nan:
  assumes "isfinite x" and "isfinite z" and "isfinite y" and "y \<noteq> 0"
  shows "\<exists>u. divR (x - z) y = Inr u \<and> u \<noteq> NaN"
proof -
  obtain b where b: "y = Fin b" using assms(3) by auto
  have "fdiv (x - z) y \<noteq> NaN" using finite_diff_not_nan [OF assms(1,2)] b by (cases "x - z") auto
  then show ?thesis using assms(4) by (simp add: divR_def)
qed

text \<open>Encoding a value within its bounds.\<close>

lemma encode_gene_total:
  assumes "g \<in> set GENE_REGISTRY" and "gene_ok g v" and "log_documented (libm_log nl)"
    and "g_scale g = DISCRETE_INT \<longrightarrow> (\<exists>k. 0 \<le> k \<and> k < 20 \<and> v = g_lower g + float_of_int k * g_step g)"
  shows "\<exists>u. encode_gene nl g v = Inr u \<and> u \<noteq> NaN"
proof (cases "g_scale g")
  case LINEAR
  note l = registry_linear [OF assms(1)]
  have "isfinite v" using assms(2) l(1,2) LINEAR by (cases v) (auto simp: gene_ok_def)
  then show ?thesis using divR_diff_not_nan l LINEAR by (simp add: encode_gene_def)
next
  case SOFTMAX_LOGIT
  note l = registry_linear [OF assms(1)]
  have "isfinite v" using assms(2) l(1,2) SOFTMAX_LOGIT by (cases v) (auto simp: gene_ok_def)
  then show ?thesis using divR_diff_not_nan l SOFTMAX_LOGIT by (simp add: encode_gene_def)
next
  case LOGARITHMIC
  obtain a b where ab: "g_lower g = Fin a" "g_upper g = Fin b" "two_pow (- 1074) \<le> a" "2 * a \<le> b" "b < max_exp" using registry_logarithmic [OF assms(1) LOGARITHMIC] by blast
  have pos: "0 < a" using ab(3) two_pow_pos [of "- 1074"] by linarith
  obtain w where w: "v = Fin w" "0 < w" using assms(2) ab(1,2) pos by (cases v) (auto simp: gene_ok_def)
  obtain e where e: "flit (1 / 10 ^ 12) = Fin e" "0 < e" using flit_power_ten [of 12] by auto
  have "\<exists>m. py_max v (flit (1 / 10 ^ 12)) = Fin m \<and> 0 < m" unfolding e(1) using w e(2) by (auto simp: py_max_def)
  then obtain m where m: "py_max v (flit (1 / 10 ^ 12)) = Fin m" "0 < m" by blast
  have f: "isfinite (libm_log nl (Fin m))" "isfinite (libm_log nl (Fin a))" "isfinite (libm_log nl (Fin b))"
    using assms(3) m(2) ab(4) pos by (auto simp: log_documented_def)
  have d: "Fin (1 / 2) \<le> libm_log nl (Fin b) - libm_log nl (Fin a)" "libm_log nl (Fin b) - libm_log nl (Fin a) \<le> Fin 2100"
    using assms(3) ab by (simp_all add: log_documented_def)
  have "libm_log nl (Fin b) - libm_log nl (Fin a) \<noteq> 0" using d(1) by (auto simp: zero_float64_def)
  from divR_diff_not_nan [OF f(1,2) between_finite [OF d] this]
  have "\<exists>u. divR (libm_log nl (Fin m) - libm_log nl (Fin a)) (libm_log nl (Fin b) - libm_log nl (Fin a)) = Inr u \<and> u \<noteq> NaN" .
  then show ?thesis using LOGARITHMIC ab(1,2) m(1) by (simp add: encode_gene_def Let_def)
next
  case DISCRETE_INT
  then obtain k where k: "0 \<le> k" "k < 20" "v = g_lower g + float_of_int k * g_step g" using assms(4) by blast
  obtain l s where t: "twenty_steps g l s" using registry_discrete [OF assms(1) DISCRETE_INT] by blast
  have "v = Fin (of_int (l + k * s))" using whole_steps(3) [of l s k] t k rnd64_of_int [of k] by (simp add: twenty_steps_def float_of_int_def)
  then show ?thesis using discrete_roundtrip [OF t k(1,2), of nl] by auto
qed


text \<open>A chromosome in bounds whose discrete genes are on their grids.\<close>

definition on_grid :: "strategy_chromosome \<Rightarrow> bool" where
  "on_grid c \<longleftrightarrow> 5 dvd holding_period (c_inference c)"

lemma gene_value_ok:
  assumes "in_bounds c" and "g \<in> set GENE_REGISTRY"
  shows "\<exists>v. gene_value c g = Inr v \<and> gene_ok g v"
  using assms by (auto simp: in_bounds_def list_all_iff case_Inr_iff)

lemma holding_on_grid:
  assumes "5 dvd h" and "5 \<le> h" and "h \<le> (100::int)"
  shows "\<exists>k. 0 \<le> k \<and> k < 20 \<and> h = 5 + k * 5"
proof -
  obtain j where "h = 5 * j" using assms(1) by (rule dvdE)
  then show ?thesis using assms(2,3) by (intro exI [of _ "j - 1"]) simp
qed

text \<open>The value of a discrete gene.\<close>

lemma discrete_value:
  assumes "in_bounds c" and "on_grid c" and "g \<in> set GENE_REGISTRY" and "g_scale g = DISCRETE_INT" and "gene_value c g = Inr v"
  shows "\<exists>k l s. twenty_steps g l s \<and> 0 \<le> k \<and> k < 20 \<and> v = Fin (of_int (l + k * s)) \<and>
    l + k * s = (if g_name g = ''execution_horizon'' then execution_horizon (c_inference c) else holding_period (c_inference c))"
proof -
  have b: "1 \<le> execution_horizon (c_inference c)" "execution_horizon (c_inference c) \<le> 20" "5 \<le> holding_period (c_inference c)"
    "holding_period (c_inference c) \<le> 100"
    using assms(1) by (simp_all add: in_bounds_fields)
  from registry_discrete [OF assms(3,4)] show ?thesis
  proof
    assume t: "twenty_steps g 1 1 \<and> g_name g = ''execution_horizon''"
    have "g_block g = ''infer''" using assms(3,4) by (auto simp: GENE_REGISTRY_def gene_def)
    then have "v = Fin (of_int (execution_horizon (c_inference c)))"
      using assms(5) t b small_int_float [of "execution_horizon (c_inference c)"] by (simp add: gene_value_def infer_attrs_def Let_def)
    then show ?thesis using t b by (intro exI [of _ "execution_horizon (c_inference c) - 1"] exI [of _ 1]) simp
  next
    assume t: "twenty_steps g 5 5 \<and> g_name g = ''holding_period''"
    have "g_block g = ''infer''" using assms(3,4) by (auto simp: GENE_REGISTRY_def gene_def)
    then have v: "v = Fin (of_int (holding_period (c_inference c)))"
      using assms(5) t b small_int_float [of "holding_period (c_inference c)"] by (simp add: gene_value_def infer_attrs_def Let_def)
    obtain k where "0 \<le> k" "k < 20" "holding_period (c_inference c) = 5 + k * 5" using holding_on_grid assms(2) b by (auto simp: on_grid_def)
    then show ?thesis using t v by (intro exI [of _ k] exI [of _ 5]) simp
  qed
qed

lemma encode_total:
  assumes "in_bounds c" and "on_grid c" and "log_documented (libm_log nl)" and "clip_documented nl"
  shows "\<exists>us. encode nl GENE_REGISTRY c = Inr us \<and>
    list_all2 (\<lambda>g u. between 0 (Fin 1) u \<and>
      (g_scale g = DISCRETE_INT \<longrightarrow> (\<exists>v. gene_value c g = Inr v \<and> decode_gene nl g u = Inr v))) GENE_REGISTRY us"
proof -
  have "\<forall>g \<in> set GENE_REGISTRY. \<exists>u. bindR (gene_value c g) (encode_gene nl g) = Inr u \<and>
      (between 0 (Fin 1) (np_clip nl u 0 (Fin 1)) \<and>
       (g_scale g = DISCRETE_INT \<longrightarrow> (\<exists>v. gene_value c g = Inr v \<and> decode_gene nl g (np_clip nl u 0 (Fin 1)) = Inr v)))"
  proof
    fix g
    assume g: "g \<in> set GENE_REGISTRY"
    obtain v where v: "gene_value c g = Inr v" "gene_ok g v" using gene_value_ok [OF assms(1) g] by blast
    show "\<exists>u. bindR (gene_value c g) (encode_gene nl g) = Inr u \<and>
      (between 0 (Fin 1) (np_clip nl u 0 (Fin 1)) \<and>
       (g_scale g = DISCRETE_INT \<longrightarrow> (\<exists>v. gene_value c g = Inr v \<and> decode_gene nl g (np_clip nl u 0 (Fin 1)) = Inr v)))"
    proof (cases "g_scale g = DISCRETE_INT")
      case True
      obtain k l s where k: "twenty_steps g l s" "0 \<le> k" "k < 20" "v = Fin (of_int (l + k * s))"
        using discrete_value [OF assms(1,2) g True v(1)] by blast
      from discrete_roundtrip [OF k(1-3), of nl] obtain u where u: "encode_gene nl g v = Inr (Fin u)" "0 \<le> u" "u \<le> 1" "decode_gene nl g (Fin u) = Inr v"
        unfolding k(4) by blast
      have "np_clip nl (Fin u) 0 (Fin 1) = Fin u" using clip_same [OF assms(4)] u(2,3) by (simp add: zero_float64_def)
      then show ?thesis using v u by (simp add: zero_float64_def)
    next
      case False
      then obtain u where u: "encode_gene nl g v = Inr u" "u \<noteq> NaN" using encode_gene_total [OF g v(2) assms(3)] by blast
      have "np_clip nl u 0 (Fin 1) \<noteq> NaN" using assms(4) u(2) by (auto simp: clip_documented_def)
      then show ?thesis using clip_between [OF assms(4), of 0 "Fin 1" u] u v False by auto
    qed
  qed
  from mapR_total [OF this] obtain us where us: "mapR (\<lambda>g. bindR (gene_value c g) (encode_gene nl g)) GENE_REGISTRY = Inr us"
    "list_all2 (\<lambda>g u. between 0 (Fin 1) (np_clip nl u 0 (Fin 1)) \<and>
       (g_scale g = DISCRETE_INT \<longrightarrow> (\<exists>v. gene_value c g = Inr v \<and> decode_gene nl g (np_clip nl u 0 (Fin 1)) = Inr v))) GENE_REGISTRY us"
    by blast
  then show ?thesis by (auto simp: encode_def list_all2_map2)
qed

text \<open>Decoding a vector of the unit cube: every gene has a value, the discrete ones a whole number within their bounds.\<close>

lemma decode_gene_total:
  assumes "g \<in> set GENE_REGISTRY" and "between 0 (Fin 1) u"
  shows "\<exists>v. decode_gene nl g u = Inr v \<and>
    (g_scale g = DISCRETE_INT \<longrightarrow> (\<exists>l s k. twenty_steps g l s \<and> 0 \<le> k \<and> k < 20 \<and> v = Fin (of_int (l + k * s))))"
proof (cases "g_scale g = DISCRETE_INT")
  case True
  obtain l s where t: "twenty_steps g l s" using registry_discrete [OF assms(1) True] by blast
  obtain x where x: "u = Fin x" "0 \<le> x" "x \<le> 1" using assms(2) by (cases u) (auto simp: zero_float64_def)
  have "0 \<le> rnd64 (x * 20)" "rnd64 (x * 20) \<le> Fin 20" using x rnd64_mono [of "x * 20" 20] by simp_all
  then have "isfinite (rnd64 (x * 20))" using between_finite [of 0 "rnd64 (x * 20)" 20] by (simp add: zero_float64_def)
  then obtain w where w: "rnd64 (x * 20) = Fin w" by auto
  define k where "k = min 19 (max 0 \<lfloor>w\<rfloor>)"
  have k: "0 \<le> k" "k < 20" by (simp_all add: k_def)
  have twenty: "float_of_int 20 = Fin 20" by (simp add: float_of_int_def)
  have "decode_gene nl g u = Inr (Fin (of_int (l + k * s)))"
    using True t x w k whole_steps(3) [of l s k] n_steps_twenty [OF t] twenty rnd64_of_int [of k]
    by (simp add: decode_gene_def twenty_steps_def Let_def float_of_int_def k_def)
  then show ?thesis using t k by blast
qed (cases "g_scale g"; simp add: decode_gene_def Let_def)

lemma decoded_total: "n \<in> set (map fst vs) \<Longrightarrow> \<exists>v. decoded vs n = Inr v"
  by (auto simp: decoded_def split: option.splits) (metis map_of_eq_None_iff option.exhaust image_eqI fst_conv)

lemma assemble_total:
  assumes "map fst vs = map g_name GENE_REGISTRY" and "decoded vs ''execution_horizon'' = Inr (Fin (of_int eh))"
    and "decoded vs ''holding_period'' = Inr (Fin (of_int hp))"
  shows "\<exists>c. assemble nl vs = Inr c \<and> execution_horizon (c_inference c) = eh \<and> holding_period (c_inference c) = hp"
proof -
  have names: "\<exists>v. decoded vs n = Inr v" if "n \<in> set (map g_name GENE_REGISTRY)" for n
    using decoded_total [of n vs] that assms(1) by simp
  have many: "\<exists>ys. mapR (decoded vs) ns = Inr ys" if "set ns \<subseteq> set (map g_name GENE_REGISTRY)" for ns
  proof -
    have "\<forall>n \<in> set ns. \<exists>v. decoded vs n = Inr v \<and> True" using names that by blast
    from mapR_total [OF this] show ?thesis by blast
  qed
  note reg = GENE_REGISTRY_def gene_def
  obtain lb where lb: "decoded vs ''logit_bull'' = Inr lb" using names [of "''logit_bull''"] by (auto simp: reg)
  obtain le where le: "decoded vs ''logit_bear'' = Inr le" using names [of "''logit_bear''"] by (auto simp: reg)
  obtain lp where lp: "decoded vs ''logit_panic'' = Inr lp" using names [of "''logit_panic''"] by (auto simp: reg)
  obtain r where r: "mapR (decoded vs) [''tau_slow'', ''tau_ratio'', ''alpha_decay'', ''fractional_d''] = Inr r"
    using many [of "[''tau_slow'', ''tau_ratio'', ''alpha_decay'', ''fractional_d'']"] by (auto simp: reg)
  obtain g where g: "mapR (decoded vs) [''ambiguity_temp'', ''risk_aversion'', ''predatory_intensity''] = Inr g"
    using many [of "[''ambiguity_temp'', ''risk_aversion'', ''predatory_intensity'']"] by (auto simp: reg)
  obtain i where i: "mapR (decoded vs) [''hyperbolic_decay'', ''profit_take_mult'', ''stop_loss_mult''] = Inr i"
    using many [of "[''hyperbolic_decay'', ''profit_take_mult'', ''stop_loss_mult'']"] by (auto simp: reg)
  obtain ml where ml: "decoded vs ''meta_label_thresh'' = Inr ml" using names [of "''meta_label_thresh''"] by (auto simp: reg)
  obtain k where k: "mapR (decoded vs) [''vol_target'', ''max_weight'', ''max_drawdown_limit'', ''turnover_budget''] = Inr k"
    using many [of "[''vol_target'', ''max_weight'', ''max_drawdown_limit'', ''turnover_budget'']"] by (auto simp: reg)
  show ?thesis unfolding assemble_def r g i k lb le lp ml assms(2,3) by (simp add: Let_def)
qed

lemma discrete_positions:
  "g_name (GENE_REGISTRY ! 10) = ''execution_horizon''" "g_scale (GENE_REGISTRY ! 10) = DISCRETE_INT"
  "g_name (GENE_REGISTRY ! 14) = ''holding_period''" "g_scale (GENE_REGISTRY ! 14) = DISCRETE_INT"
  by (simp_all add: GENE_REGISTRY_def gene_def)

text \<open>Decoding is total on finite vectors of the right length, and its discrete genes are the decoded buckets.\<close>

lemma decode_total:
  assumes "length us = 20" and "list_all isfinite us" and "clip_documented nl"
  shows "\<exists>c. decode nl GENE_REGISTRY us = Inr c \<and>
    decode_gene nl (GENE_REGISTRY ! 10) (np_clip nl (us ! 10) 0 (Fin 1)) = Inr (Fin (of_int (execution_horizon (c_inference c)))) \<and>
    decode_gene nl (GENE_REGISTRY ! 14) (np_clip nl (us ! 14) 0 (Fin 1)) = Inr (Fin (of_int (holding_period (c_inference c))))"
proof -
  let ?d = "\<lambda>(g, x). bindR (decode_gene nl g (np_clip nl x 0 (Fin 1))) (\<lambda>v. Inr (g_name g, v))"
  have len: "length GENE_REGISTRY = 20" by (simp add: GENE_REGISTRY_def)
  have unit: "between 0 (Fin 1) (np_clip nl x 0 (Fin 1))" if "x \<in> set us" for x
  proof -
    have "isfinite x" using assms(2) that by (simp add: list_all_iff)
    then have "np_clip nl x 0 (Fin 1) \<noteq> NaN" using assms(3) by (auto simp: clip_documented_def)
    then show ?thesis using clip_between [OF assms(3), of 0 "Fin 1" x] by simp
  qed
  have "\<forall>p \<in> set (zip GENE_REGISTRY us).
      \<exists>y. ?d p = Inr y \<and> fst y = g_name (fst p) \<and> decode_gene nl (fst p) (np_clip nl (snd p) 0 (Fin 1)) = Inr (snd y)"
  proof
    fix p
    assume p: "p \<in> set (zip GENE_REGISTRY us)"
    obtain g x where gx: "p = (g, x)" by (cases p)
    have "g \<in> set GENE_REGISTRY" "x \<in> set us" using p gx set_zip_leftD set_zip_rightD by fast+
    then obtain v where "decode_gene nl g (np_clip nl x 0 (Fin 1)) = Inr v" using decode_gene_total [of g "np_clip nl x 0 (Fin 1)" nl] unit by blast
    then show "\<exists>y. ?d p = Inr y \<and> fst y = g_name (fst p) \<and> decode_gene nl (fst p) (np_clip nl (snd p) 0 (Fin 1)) = Inr (snd y)"
      by (simp add: gx)
  qed
  from mapR_total [OF this] obtain vs where vs: "mapR ?d (zip GENE_REGISTRY us) = Inr vs"
    "list_all2 (\<lambda>p y. fst y = g_name (fst p) \<and> decode_gene nl (fst p) (np_clip nl (snd p) 0 (Fin 1)) = Inr (snd y)) (zip GENE_REGISTRY us) vs"
    by blast
  have lvs: "length vs = 20" using list_all2_lengthD [OF vs(2)] len assms(1) by simp
  have nth: "fst (vs ! j) = g_name (GENE_REGISTRY ! j) \<and> decode_gene nl (GENE_REGISTRY ! j) (np_clip nl (us ! j) 0 (Fin 1)) = Inr (snd (vs ! j))"
    if "j < 20" for j using list_all2_nthD [OF vs(2), of j] that len assms(1) by simp
  have keys: "map fst vs = map g_name GENE_REGISTRY" using nth lvs len by (intro nth_equalityI) simp_all
  have dist: "distinct (map fst vs)" unfolding keys by (simp add: GENE_REGISTRY_def gene_def)
  have lookup: "decoded vs (g_name (GENE_REGISTRY ! j)) = Inr (snd (vs ! j))" if "j < 20" for j
  proof -
    have "(g_name (GENE_REGISTRY ! j), snd (vs ! j)) \<in> set vs" using nth [OF that] lvs that by (metis nth_mem prod.collapse)
    then show ?thesis using dist by (simp add: decoded_def map_of_is_SomeI)
  qed
  have disc: "\<exists>i. snd (vs ! j) = Fin (of_int i)" if "j < 20" "g_scale (GENE_REGISTRY ! j) = DISCRETE_INT" for j
  proof -
    have "GENE_REGISTRY ! j \<in> set GENE_REGISTRY" "us ! j \<in> set us" using that(1) len assms(1) by simp_all
    from decode_gene_total [OF this(1) unit [OF this(2)], of nl] show ?thesis using nth [OF that(1)] that(2) by (metis sum.inject(2))
  qed
  obtain eh where eh: "snd (vs ! 10) = Fin (of_int eh)" using disc [of 10] discrete_positions by auto
  obtain hp where hp: "snd (vs ! 14) = Fin (of_int hp)" using disc [of 14] discrete_positions by auto
  obtain c where c: "assemble nl vs = Inr c" "execution_horizon (c_inference c) = eh" "holding_period (c_inference c) = hp"
    using assemble_total [OF keys, of eh hp nl] lookup [of 10] lookup [of 14] discrete_positions eh hp by auto
  have "decode nl GENE_REGISTRY us = Inr c"
    using assms(1,2) len vs(1) foldl_dict_set [of "[]" vs] dist c(1) by (simp add: decode_def)
  then show ?thesis using c nth [of 10] nth [of 14] eh hp by auto
qed

section \<open>Instances\<close>

definition sample_chromosome :: "int \<Rightarrow> strategy_chromosome" where
  "sample_chromosome hp =
     \<lparr>c_representation = \<lparr>tau_slow = Fin 86400, tau_ratio = Fin (1 / 4), alpha_decay = Fin (1 / 2), fractional_d = Fin (1 / 2)\<rparr>,
      c_game_theory = \<lparr>ambiguity_temp = Fin 1, risk_aversion = Fin 1, predatory_intensity = Fin (1 / 2), logit_bull = 0, logit_bear = 0,
        logit_panic = Fin (- 1)\<rparr>,
      c_inference = \<lparr>execution_horizon = 5, hyperbolic_decay = Fin (1 / 2), profit_take_mult = Fin 2, stop_loss_mult = Fin 2, holding_period = hp,
        meta_label_thresh = Fin (1 / 2)\<rparr>,
      c_risk = \<lparr>vol_target = Fin (1 / 4), max_weight = Fin (1 / 4), max_drawdown_limit = Fin (1 / 4), turnover_budget = Fin (1 / 2)\<rparr>\<rparr>"

definition sample_text :: text_env where
  "sample_text = \<lparr>float_of_text = (\<lambda>s. Inl (PyErr ValueError)), int_of_text = (\<lambda>s. Inl (PyErr ValueError))\<rparr>"

lemma flit_quarter: "x \<le> 1 / 4 \<Longrightarrow> flit x \<le> Fin (1 / 4)" "1 / 4 \<le> x \<Longrightarrow> Fin (1 / 4) \<le> flit x"
  using rnd64_mono [of x "1 / 4"] rnd64_mono [of "1 / 4" x] rnd64_dyadic [of 1 "- 2"] by (simp_all add: two_pow_def)

lemma flit_half: "x \<le> 1 / 2 \<Longrightarrow> flit x \<le> Fin (1 / 2)" "1 / 2 \<le> x \<Longrightarrow> Fin (1 / 2) \<le> flit x"
  using rnd64_mono [of x "1 / 2"] rnd64_mono [of "1 / 2" x] rnd64_half by simp_all

lemma sample_in_bounds: "5 \<le> hp \<Longrightarrow> hp \<le> 100 \<Longrightarrow> in_bounds (sample_chromosome hp)"
  by (simp add: in_bounds_fields sample_chromosome_def flit_quarter flit_half decimal_order zero_float64_def)

section \<open>Properties\<close>

text \<open>Writing a chromosome in bounds as a dictionary and reading it gives the same chromosome.\<close>

theorem chromosome_dict_roundtrip:
  assumes "in_bounds c" and "clip_documented nl" and "clip_int_documented nl"
  shows "from_dict nl te (to_dict nl c) = Inr c"
  using assms by (rule dict_roundtrip)

theorem chromosome_dict_roundtrip_witness:
  "from_dict sample_numlib sample_text (to_dict sample_numlib (sample_chromosome 7)) = Inr (sample_chromosome 7)"
  by (rule chromosome_dict_roundtrip [OF _ sample_laws(1,3)]) (simp add: sample_in_bounds)

text \<open>C17: Whatever dictionary is read, each gene of the chromosome is within its declared bounds or NaN (clipping keeps a NaN,
  \<open>nan_gene_accepted\<close>), and when neither the slow timescale nor the ratio is NaN, the fast timescale is shorter than the slow one.\<close>

theorem chromosome_from_dict_clipped:
  assumes "from_dict nl te data = Inr c" and "clip_documented nl" and "clip_int_documented nl"
  shows "list_all (\<lambda>g. \<exists>v. gene_value c g = Inr v \<and> (v = NaN \<or> g_lower g \<le> v \<and> v \<le> g_upper g)) GENE_REGISTRY \<and>
    (tau_slow (c_representation c) \<noteq> NaN \<and> tau_ratio (c_representation c) \<noteq> NaN \<longrightarrow> tau_fast (c_representation c) < tau_slow (c_representation c))"
proof
  show "list_all (\<lambda>g. \<exists>v. gene_value c g = Inr v \<and> (v = NaN \<or> g_lower g \<le> v \<and> v \<le> g_upper g)) GENE_REGISTRY"
    using from_dict_clipped [OF assms] by (simp add: genes_clipped_def case_Inr_iff clipped_def)
  obtain dr where "repr_from nl te dr = Inr (c_representation c)" using assms(1) by (rule from_dictE)
  note r = repr_from_ok [OF this assms(2)]
  show "tau_slow (c_representation c) \<noteq> NaN \<and> tau_ratio (c_representation c) \<noteq> NaN \<longrightarrow> tau_fast (c_representation c) < tau_slow (c_representation c)"
  proof
    assume n: "tau_slow (c_representation c) \<noteq> NaN \<and> tau_ratio (c_representation c) \<noteq> NaN"
    then have "flit (2 / 100) \<le> tau_ratio (c_representation c)" "tau_ratio (c_representation c) \<le> Fin (1 / 2)"
      using r(2) rnd64_half by (simp_all add: clipped_def)
    moreover from this(1) have "0 \<le> tau_ratio (c_representation c)" using float_le_trans [OF rnd64_nonneg [of "2 / 100"]] by simp
    ultimately show "tau_fast (c_representation c) < tau_slow (c_representation c)"
      using half_shorter [of "tau_slow (c_representation c)"] r(1) n by (simp add: clipped_def tau_fast_def)
  qed
qed

lemma sample_read:
  "\<exists>c. from_dict sample_numlib sample_text (JDict [(''tau_slow'', JV (PFloat (Fin 1)))]) = Inr c \<and> tau_slow (c_representation c) = Fin 14400 \<and>
    tau_ratio (c_representation c) \<noteq> NaN"
proof -
  have "np_clip sample_numlib (Fin 1) (Fin 14400) (Fin 604800) = Fin 14400" by (simp add: sample_numlib_def)
  moreover have "np_clip sample_numlib x lo hi \<noteq> NaN" if "x \<noteq> NaN" "lo \<noteq> NaN" "hi \<noteq> NaN" for x lo hi using that by (simp add: sample_numlib_def)
  ultimately show ?thesis
    by (simp add: from_dict_def block_def repr_from_def game_from_def infer_from_def risk_from_def get_float_def get_float_alias_def get_int_def
        logits_from_def gene_default_def GENE_REGISTRY_def gene_def)
qed

theorem chromosome_from_dict_clipped_witness:
  "\<exists>c. from_dict sample_numlib sample_text (JDict [(''tau_slow'', JV (PFloat (Fin 1)))]) = Inr c \<and> tau_slow (c_representation c) = Fin 14400 \<and>
    tau_fast (c_representation c) < Fin 14400"
proof -
  obtain c where c: "from_dict sample_numlib sample_text (JDict [(''tau_slow'', JV (PFloat (Fin 1)))]) = Inr c" "tau_slow (c_representation c) = Fin 14400"
    "tau_ratio (c_representation c) \<noteq> NaN" using sample_read by blast
  from chromosome_from_dict_clipped [OF c(1) sample_laws(1,3)] c show ?thesis by auto
qed

lemma grid_roundtrip:
  assumes "in_bounds c" and "5 dvd holding_period (c_inference c)" and "log_documented (libm_log nl)" and "clip_documented nl"
  shows "\<exists>us c'. encode nl GENE_REGISTRY c = Inr us \<and> length us = 20 \<and> list_all (\<lambda>u. 0 \<le> u \<and> u \<le> Fin 1) us \<and>
    decode nl GENE_REGISTRY us = Inr c' \<and> execution_horizon (c_inference c') = execution_horizon (c_inference c) \<and>
    holding_period (c_inference c') = holding_period (c_inference c)"
proof -
  have grid: "on_grid c" using assms(2) by (simp add: on_grid_def)
  obtain us where us: "encode nl GENE_REGISTRY c = Inr us" and all: "list_all2 (\<lambda>g u. between 0 (Fin 1) u \<and>
      (g_scale g = DISCRETE_INT \<longrightarrow> (\<exists>v. gene_value c g = Inr v \<and> decode_gene nl g u = Inr v))) GENE_REGISTRY us"
    using encode_total [OF assms(1) grid assms(3,4)] by blast
  have len: "length us = 20" "length GENE_REGISTRY = 20" using list_all2_lengthD [OF all] by (simp_all add: GENE_REGISTRY_def)
  have at: "between 0 (Fin 1) (us ! j) \<and>
      (g_scale (GENE_REGISTRY ! j) = DISCRETE_INT \<longrightarrow> (\<exists>v. gene_value c (GENE_REGISTRY ! j) = Inr v \<and> decode_gene nl (GENE_REGISTRY ! j) (us ! j) = Inr v))"
    if "j < 20" for j using list_all2_nthD [OF all, of j] that len by simp
  have unit: "list_all (\<lambda>u. 0 \<le> u \<and> u \<le> Fin 1) us" using at len by (simp add: list_all_length)
  have "list_all isfinite us" unfolding list_all_iff
  proof
    fix u
    assume "u \<in> set us"
    then have "0 \<le> u" "u \<le> Fin 1" using unit by (simp_all add: list_all_iff)
    then show "isfinite u" using between_finite [of 0 u 1] by (simp add: zero_float64_def)
  qed
  from decode_total [OF len(1) this assms(4)] obtain c' where c': "decode nl GENE_REGISTRY us = Inr c'"
    "decode_gene nl (GENE_REGISTRY ! 10) (np_clip nl (us ! 10) 0 (Fin 1)) = Inr (Fin (of_int (execution_horizon (c_inference c'))))"
    "decode_gene nl (GENE_REGISTRY ! 14) (np_clip nl (us ! 14) 0 (Fin 1)) = Inr (Fin (of_int (holding_period (c_inference c'))))"
    by (elim exE conjE)
  have disc: "decode_gene nl (GENE_REGISTRY ! j) (np_clip nl (us ! j) 0 (Fin 1)) =
      Inr (Fin (of_int (if g_name (GENE_REGISTRY ! j) = ''execution_horizon'' then execution_horizon (c_inference c) else holding_period (c_inference c))))"
    if j: "j < 20" "g_scale (GENE_REGISTRY ! j) = DISCRETE_INT" for j
  proof -
    obtain v where v: "gene_value c (GENE_REGISTRY ! j) = Inr v" "decode_gene nl (GENE_REGISTRY ! j) (us ! j) = Inr v" using at [OF j(1)] j(2) by blast
    have "GENE_REGISTRY ! j \<in> set GENE_REGISTRY" using j(1) len by simp
    from discrete_value [OF assms(1) grid this j(2) v(1)] obtain k l s where q: "v = Fin (of_int (l + k * s))"
      "l + k * s = (if g_name (GENE_REGISTRY ! j) = ''execution_horizon'' then execution_horizon (c_inference c) else holding_period (c_inference c))"
      by (elim exE conjE)
    have "np_clip nl (us ! j) 0 (Fin 1) = us ! j" using clip_same [OF assms(4)] at [OF j(1)] by blast
    then show ?thesis by (simp only: v(2) q)
  qed
  have lt: "(10::nat) < 20" "(14::nat) < 20" and ne: "''holding_period'' \<noteq> ''execution_horizon''" by simp_all
  note d = trans [OF c'(2) [symmetric] disc [OF lt(1) discrete_positions(2), unfolded discrete_positions(1) if_P [OF refl]]]
    trans [OF c'(3) [symmetric] disc [OF lt(2) discrete_positions(4), unfolded discrete_positions(3) if_not_P [OF ne]]]
  have "execution_horizon (c_inference c') = execution_horizon (c_inference c)" "holding_period (c_inference c') = holding_period (c_inference c)"
    using d by (simp_all only: sum.inject float64.inject of_int_eq_iff)
  then show ?thesis using us len(1) unit c'(1) by blast
qed

text \<open>The point of the grid of five bars nearest to a holding period, and the chromosome with its holding period moved there.\<close>

definition snap :: "int \<Rightarrow> int" where
  "snap hp = 5 * ((hp + 2) div 5)"

definition snapped :: "strategy_chromosome \<Rightarrow> strategy_chromosome" where
  "snapped c = c\<lparr>c_inference := (c_inference c)\<lparr>holding_period := snap (holding_period (c_inference c))\<rparr>\<rparr>"

lemma snap_facts: "5 dvd snap hp" "\<bar>snap hp - hp\<bar> \<le> 2" "5 \<le> hp \<Longrightarrow> 5 \<le> snap hp" "hp \<le> 100 \<Longrightarrow> snap hp \<le> 100"
  unfolding snap_def by simp_all

lemma snapped_in_bounds: "in_bounds c \<Longrightarrow> in_bounds (snapped c)"
  by (auto simp: in_bounds_fields snapped_def snap_facts)

text \<open>Rounding to the grid: the quotient is never near a half.\<close>

lemma round_to_grid:
  assumes "5 \<le> hp" and "hp \<le> 100"
  shows "round_int (rnd64 (of_int (hp - 5) / 5)) = Inr ((snap hp - 5) div 5)"
proof -
  define q where "q = (snap hp - 5) div 5"
  have q: "snap hp = 5 * q + 5" using snap_facts(1) [of hp] by (auto simp: q_def)
  then have b: "- 2 \<le> hp - 5 - 5 * q" "hp - 5 - 5 * q \<le> 2" "0 \<le> q" "q \<le> 19" using snap_facts [of hp] assms by linarith+
  have r: "of_int q - 7 / 16 \<le> (of_int (hp - 5) / 5 :: rat)" "(of_int (hp - 5) / 5 :: rat) \<le> of_int q + 7 / 16"
  proof -
    have "of_int (- 2) \<le> (of_int (hp - 5 - 5 * q) :: rat)" "(of_int (hp - 5 - 5 * q) :: rat) \<le> of_int 2" unfolding of_int_le_iff using b(1,2) .
    then have "- 2 \<le> (of_int (hp - 5) :: rat) - 5 * of_int q" "(of_int (hp - 5) :: rat) - 5 * of_int q \<le> 2" by simp_all
    then show "of_int q - 7 / 16 \<le> (of_int (hp - 5) / 5 :: rat)" "(of_int (hp - 5) / 5 :: rat) \<le> of_int q + 7 / 16" by (simp_all add: field_simps)
  qed
  have d: "rnd64 (of_int q - 7 / 16) = Fin (of_int q - 7 / 16)" "rnd64 (of_int q + 7 / 16) = Fin (of_int q + 7 / 16)"
    using rnd64_dyadic [of "16 * q - 7" "- 4"] rnd64_dyadic [of "16 * q + 7" "- 4"] b(3,4) by (simp_all add: two_pow_def algebra_simps)
  obtain x where x: "rnd64 (of_int (hp - 5) / 5) = Fin x" "of_int q - 7 / 16 \<le> x" "x \<le> of_int q + 7 / 16"
    using rnd64_mono [OF r(1)] rnd64_mono [OF r(2)] unfolding d by (cases "rnd64 (of_int (hp - 5) / 5)") auto
  have f: "\<lfloor>of_int q - 7 / 16 :: rat\<rfloor> = q - 1" "\<lfloor>of_int q + 7 / 16 :: rat\<rfloor> = q" by (rule floor_unique; simp)+
  have "round_half_even (of_int q - 7 / 16) = q" "round_half_even (of_int q + 7 / 16) = q" by (simp_all add: round_half_even_def f Let_def)
  then have "round_half_even x = q" using round_half_even_mono [OF x(2)] round_half_even_mono [OF x(3)] by simp
  then show ?thesis unfolding x(1) by (simp add: q_def)
qed

lemma encode_to_grid:
  assumes "twenty_steps g 5 5" and "5 \<le> hp" and "hp \<le> 100"
  shows "encode_gene nl g (Fin (of_int (snap hp))) = encode_gene nl g (Fin (of_int hp))"
proof -
  have r: "round_int (rnd64 (of_int (x - 5) / 5)) = Inr ((snap x - 5) div 5)" if "x \<in> {hp, snap hp}" for x
    using that round_to_grid snap_facts(3,4) assms(2,3) by blast
  have "snap (snap hp) = snap hp" using snap_facts [of hp] snap_facts [of "snap hp"] by presburger
  moreover have "fdiv (Fin (of_int x) - Fin 5) (Fin 5) = rnd64 (of_int (x - 5) / 5)" if "x \<in> {hp, snap hp}" for x
  proof -
    have "\<bar>x - 5\<bar> < 2 ^ 53" using that snap_facts(3,4) [of hp] assms(2,3) by auto
    from rnd64_of_int [OF this] show ?thesis by (simp add: minus_float64_def)
  qed
  ultimately show ?thesis using assms(1) r by (simp add: encode_gene_def twenty_steps_def n_steps_twenty [OF assms(1)] divR_def zero_float64_def)
qed

lemma mapR_cong: "(\<And>x. x \<in> set xs \<Longrightarrow> f x = g x) \<Longrightarrow> mapR f xs = mapR g xs"
  by (induction xs) auto

lemma snapped_value:
  assumes "g \<in> set GENE_REGISTRY"
  shows "gene_value (snapped c) g = gene_value c g \<or> twenty_steps g 5 5 \<and>
    gene_value c g = num_float (PInt (holding_period (c_inference c))) \<and> gene_value (snapped c) g = num_float (PInt (snap (holding_period (c_inference c))))"
proof (cases "g_name g = ''holding_period''")
  case True
  have "list_all (\<lambda>g. g_name g = ''holding_period'' \<longrightarrow> g_block g = ''infer'' \<and> twenty_steps g 5 5) GENE_REGISTRY"
    by (simp add: GENE_REGISTRY_def gene_def twenty_steps_def)
  then have "g_block g = ''infer''" "twenty_steps g 5 5" using assms True by (simp_all add: list_all_iff)
  then show ?thesis using True by (simp add: gene_value_def infer_attrs_def snapped_def Let_def)
next
  case False
  then show ?thesis by (simp add: gene_value_def infer_attrs_def snapped_def Let_def)
qed

lemma encode_snapped:
  assumes "in_bounds c"
  shows "encode nl GENE_REGISTRY (snapped c) = encode nl GENE_REGISTRY c"
proof -
  let ?h = "holding_period (c_inference c)"
  have h: "5 \<le> ?h" "?h \<le> 100" using assms by (simp_all add: in_bounds_fields)
  have v: "num_float (PInt ?h) = Inr (Fin (of_int ?h))" "num_float (PInt (snap ?h)) = Inr (Fin (of_int (snap ?h)))"
    using small_int_float [of ?h] small_int_float [of "snap ?h"] h snap_facts(3,4) [of ?h] by simp_all
  have "bindR (gene_value (snapped c) g) (encode_gene nl g) = bindR (gene_value c g) (encode_gene nl g)" if "g \<in> set GENE_REGISTRY" for g
    using snapped_value [OF that, of c] encode_to_grid [OF _ h, of g nl] v by auto
  from mapR_cong [of GENE_REGISTRY, OF this] show ?thesis unfolding encode_def by simp
qed

text \<open>C16: Encoding a chromosome in bounds gives a vector of the unit cube and decoding is defined on it. Although the vector holds rounded
  quotients, the execution horizon comes out unchanged, and the holding period comes out as the nearest multiple of five: unchanged if
  it is on the grid of the codec, moved by up to two bars if it is not (so the round trip is not lossless).\<close>

theorem chromosome_codec_roundtrip:
  assumes "in_bounds c" and "log_documented (libm_log nl)" and "clip_documented nl"
  shows "\<exists>us c'. encode nl GENE_REGISTRY c = Inr us \<and> length us = 20 \<and> list_all (\<lambda>u. 0 \<le> u \<and> u \<le> Fin 1) us \<and>
    decode nl GENE_REGISTRY us = Inr c' \<and> execution_horizon (c_inference c') = execution_horizon (c_inference c) \<and>
    holding_period (c_inference c') = 5 * ((holding_period (c_inference c) + 2) div 5)"
  using grid_roundtrip [OF snapped_in_bounds [OF assms(1)] _ assms(2,3)] snap_facts(1)
  unfolding encode_snapped [OF assms(1)] by (simp add: snapped_def snap_def)

theorem chromosome_codec_roundtrip_witness:
  "\<exists>us c'. encode sample_numlib GENE_REGISTRY (sample_chromosome 17) = Inr us \<and> length us = 20 \<and>
    decode sample_numlib GENE_REGISTRY us = Inr c' \<and> execution_horizon (c_inference c') = 5 \<and> holding_period (c_inference c') = 15"
  using chromosome_codec_roundtrip [OF sample_in_bounds [of 17] sample_log sample_laws(1)] by (auto simp: sample_chromosome_def)

text \<open>A NaN in the dictionary is kept: clipping does not remove it.\<close>

theorem nan_gene_accepted:
  assumes "clip_documented nl" and "clip_int_documented nl"
  shows "\<exists>c. from_dict nl te (JDict [(''tau_slow'', JV (PFloat NaN))]) = Inr c \<and> tau_slow (c_representation c) = NaN"
proof -
  have "np_clip nl NaN (Fin 14400) (Fin 604800) = NaN" using assms(1) by (auto simp: clip_documented_def)
  then show ?thesis
    by (simp add: from_dict_def block_def repr_from_def game_from_def infer_from_def risk_from_def get_float_def get_float_alias_def get_int_def
        logits_from_def gene_default_def GENE_REGISTRY_def gene_def)
qed

text \<open>A holding period off the grid is accepted but does not survive the codec: seven bars become five.\<close>

theorem off_grid_holding_period_lost:
  assumes "clip_documented nl"
  shows "in_bounds (sample_chromosome 7) \<and> gene_value (sample_chromosome 7) (GENE_REGISTRY ! 14) = Inr (Fin 7) \<and>
    (\<exists>u. encode_gene nl (GENE_REGISTRY ! 14) (Fin 7) = Inr u \<and> decode_gene nl (GENE_REGISTRY ! 14) (np_clip nl u 0 (Fin 1)) = Inr (Fin 5))"
proof -
  let ?g = "GENE_REGISTRY ! 14"
  have t: "twenty_steps ?g 5 5" by (simp add: GENE_REGISTRY_def gene_def twenty_steps_def)
  have v: "gene_value (sample_chromosome 7) ?g = Inr (Fin 7)"
    using small_int_float [of 7] by (simp add: GENE_REGISTRY_def gene_def gene_value_def infer_attrs_def sample_chromosome_def Let_def)
  have "0 \<le> flit (2 / 5)" "flit (2 / 5) \<le> Fin (1 / 2)" using flit_half(1) [of "2 / 5"] by auto
  then obtain e where e: "flit (2 / 5) = Fin e" "0 \<le> e" "e \<le> 1 / 2" by (cases "flit (2 / 5)") (auto simp: zero_float64_def)
  have "\<lfloor>1 / 2 :: rat\<rfloor> = 0" by (rule floor_unique) simp_all
  then have "round_half_even (1 / 2) = 0" by (simp add: round_half_even_def Let_def)
  then have "round_half_even e = 0" using round_half_even_mono [OF e(2)] round_half_even_mono [OF e(3)] by simp
  then have r: "round_int (flit (2 / 5)) = Inr 0" by (simp add: e(1))
  have "encode_gene nl ?g (Fin 7) = encode_gene nl ?g (Fin 5)"
    using t n_steps_twenty [OF t] r by (simp add: encode_gene_def twenty_steps_def divR_def minus_float64_def zero_float64_def)
  moreover obtain u where u: "encode_gene nl ?g (Fin 5) = Inr (Fin u)" "0 \<le> u" "u \<le> 1" "decode_gene nl ?g (Fin u) = Inr (Fin 5)"
    using discrete_roundtrip [OF t, of 0 nl] by auto
  moreover have "np_clip nl (Fin u) 0 (Fin 1) = Fin u" using clip_same [OF assms] u(2,3) by (simp add: zero_float64_def)
  ultimately show ?thesis using v sample_in_bounds [of 7] by simp
qed

end
