(* ===== verification/Pareto_Sorting_Props.thy ===== *)
theory Pareto_Sorting_Props
  imports Pareto_Sorting
begin

text \<open>
  Properties of the Pareto ranking: the lattice enumerates all compositions, the sorter is the plain insertion into fronts and
  partitions the population, a ranking loses nobody and keeps the archive and the anchor rays.
\<close>

section \<open>Rays\<close>

text \<open>The recursion enumerates, once each, the ways to write the sum as \<open>m\<close> summands.\<close>

lemma das_dennis_set: "set (das_dennis d s cur) = {cur @ xs | xs. length xs = Suc d \<and> sum_list xs = s}"
proof (induction d arbitrary: s cur)
  case 0
  have "\<And>xs. length xs = Suc 0 \<and> sum_list xs = s \<longleftrightarrow> xs = [s]" by (auto simp: length_Suc_conv)
  then show ?case by auto
next
  case (Suc d)
  have "set (das_dennis (Suc d) s cur) = (\<Union>v \<in> {0..s}. {(cur @ [v]) @ xs | xs. length xs = Suc d \<and> sum_list xs = s - v})"
    using Suc.IH by (simp add: atLeastLessThanSuc_atLeastAtMost del: upt_Suc)
  also have "\<dots> = {cur @ xs | xs. length xs = Suc (Suc d) \<and> sum_list xs = s}"
  proof (intro set_eqI iffI)
    fix ys
    assume "ys \<in> {cur @ xs | xs. length xs = Suc (Suc d) \<and> sum_list xs = s}"
    then obtain xs where xs: "ys = cur @ xs" "length xs = Suc (Suc d)" "sum_list xs = s" by blast
    then obtain v zs where "xs = v # zs" by (cases xs) auto
    then have "v \<in> {0..s}" "ys = (cur @ [v]) @ zs" "length zs = Suc d" "sum_list zs = s - v" using xs by auto
    then show "ys \<in> (\<Union>v \<in> {0..s}. {(cur @ [v]) @ xs | xs. length xs = Suc d \<and> sum_list xs = s - v})" by blast
  qed fastforce
  finally show ?case .
qed

lemma das_dennis_disjoint: "v \<noteq> w \<Longrightarrow> set (das_dennis d s (cur @ [v])) \<inter> set (das_dennis d t (cur @ [w])) = {}"
  by (auto simp: das_dennis_set)

lemma das_dennis_nonempty: "set (das_dennis d s cur) \<noteq> {}"
proof -
  have "cur @ (s # replicate d 0) \<in> set (das_dennis d s cur)"
    by (auto simp: das_dennis_set sum_list_replicate intro!: exI [of _ "s # replicate d 0"])
  then show ?thesis by (metis empty_iff)
qed

lemma das_dennis_distinct: "distinct (das_dennis d s cur)"
proof (induction d arbitrary: s cur)
  case (Suc d)
  let ?f = "\<lambda>v. das_dennis d (s - v) (cur @ [v])"
  have inj: "inj_on ?f {0..<Suc s}"
  proof (rule inj_onI)
    fix v w
    assume "?f v = ?f w"
    then show "v = w" using das_dennis_disjoint [of v w d "s - v" cur "s - w"] das_dennis_nonempty [of d "s - v" "cur @ [v]"] by auto
  qed
  show ?case unfolding das_dennis.simps
  proof (rule distinct_concat)
    show "distinct (map ?f [0..<Suc s])" using inj by (simp only: distinct_map set_upt distinct_upt simp_thms)
    fix ys
    assume "ys \<in> set (map ?f [0..<Suc s])"
    then show "distinct ys" using Suc.IH by (auto simp del: upt_Suc)
  next
    fix ys zs
    assume "ys \<in> set (map ?f [0..<Suc s])" "zs \<in> set (map ?f [0..<Suc s])" "ys \<noteq> zs"
    then obtain v w where "ys = ?f v" "zs = ?f w" "v \<noteq> w" by (auto simp del: upt_Suc)
    then show "set ys \<inter> set zs = {}" using das_dennis_disjoint by metis
  qed
qed simp

section \<open>The archive and the lattice\<close>

definition archive_ok :: "svd_archive \<Rightarrow> bool" where
  "archive_ok a \<longleftrightarrow> 1 \<le> max_capacity a \<and> length (elite_ids a) = length (residuals a) \<and> int (length (residuals a)) \<le> max_capacity a"

lemma recompute_basis_fields:
  "elite_ids (fst (recompute_basis nl a)) = elite_ids a" "residuals (fst (recompute_basis nl a)) = residuals a"
  "max_capacity (fst (recompute_basis nl a)) = max_capacity a"
  by (auto simp: recompute_basis_def Let_def split: prod.splits)

lemma recompute_basis_ok: "archive_ok (fst (recompute_basis nl a)) \<longleftrightarrow> archive_ok a"
  by (simp add: archive_ok_def recompute_basis_fields)

lemma fst_case_res: "fst (case p of (s, Inl e) \<Rightarrow> (s, Inl e) | (s, Inr x) \<Rightarrow> (s, Inr y)) = fst p"
  by (auto split: prod.splits sum.splits)

lemma admit_ok:
  assumes "archive_ok a"
  shows "archive_ok (fst (admit nl a cid xs recompute))"
proof (cases "standardize_residual nl xs")
  case (Some std)
  let ?full = "int (length (residuals a)) \<ge> max_capacity a"
  define a1 where "a1 = (if ?full then a\<lparr>elite_ids := tl (elite_ids a), residuals := tl (residuals a)\<rparr> else a)"
  define a2 where "a2 = a1\<lparr>elite_ids := elite_ids a1 @ [cid], residuals := residuals a1 @ [std]\<rparr>"
  have ne: "residuals a \<noteq> []" "elite_ids a \<noteq> []" if ?full using assms that by (auto simp: archive_ok_def)
  have "archive_ok a2" using assms ne by (auto simp: archive_ok_def a2_def a1_def)
  moreover have "fst (admit nl a cid xs recompute) = (if recompute then fst (recompute_basis nl a2) else a2)"
    using Some ne by (simp add: admit_def a1_def a2_def Let_def fst_case_res)
  ultimately show ?thesis by (simp add: recompute_basis_ok)
qed (use assms in \<open>simp add: admit_def\<close>)

lemma update_other: "i \<in> A \<Longrightarrow> j \<notin> A \<Longrightarrow> xs[j := x] ! i = xs ! i"
  by (metis nth_list_update_neq)

lemma adapt_ray_anchor:
  assumes "adapt_ray nl lt act tgt (rs, idle, k) j = (rs', idle', k')"
  shows "length rs' = length rs \<and> length idle' = length idle \<and> (\<forall>i \<in> set (anchor_indices lt). rs' ! i = rs ! i)"
  using assms by (auto simp: adapt_ray_def Let_def split: if_splits intro: update_other)

lemma adapt_rays_anchor:
  "foldl (adapt_ray nl lt act tgt) (rs, idle, k) js = (rs', idle', k') \<Longrightarrow>
   length rs' = length rs \<and> length idle' = length idle \<and> (\<forall>i \<in> set (anchor_indices lt). rs' ! i = rs ! i)"
proof (induction js arbitrary: rs idle k)
  case (Cons j js)
  obtain rs1 idle1 k1 where s: "adapt_ray nl lt act tgt (rs, idle, k) j = (rs1, idle1, k1)" by (metis prod_cases3)
  then show ?case using Cons.IH [of rs1 idle1 k1] Cons.prems adapt_ray_anchor [OF s] by simp
qed simp

lemma adapt_interior_rays_anchor:
  assumes "adapt_interior_rays nl lt objs assoc = (lt', n)"
  shows "length (rays lt') = length (rays lt) \<and> anchor_indices lt' = anchor_indices lt \<and> (\<forall>i \<in> set (anchor_indices lt). rays lt' ! i = rays lt ! i)"
  using assms adapt_rays_anchor [of nl lt assoc _ "rays lt" "idle_counters lt" 0]
  by (auto simp: adapt_interior_rays_def Let_def split: if_splits prod.splits)

section \<open>Sorting into fronts\<close>

text \<open>The contract of a procedure that puts each element into the first list none of whose members dominates it.\<close>

locale first_front =
  fixes dom :: "'a \<Rightarrow> 'a \<Rightarrow> bool"
    and dom_in :: "'a \<Rightarrow> 'a list \<Rightarrow> 'e + bool"
    and put :: "'a list list \<Rightarrow> 'a \<Rightarrow> 'e + 'a list list"
  assumes put_Nil: "put [] i = Inr [[i]]"
    and put_Cons: "put (f # fs) i =
      bindR (dom_in i f) (\<lambda>d. if d then bindR (put fs i) (\<lambda>gs. Inr (f # gs)) else Inr ((f @ [i]) # fs))"
    and dom_in_iff: "dom_in i f = Inr d \<Longrightarrow> d \<longleftrightarrow> (\<exists>m \<in> set f. dom m i)"
begin

definition layered :: "'a list list \<Rightarrow> bool" where
  "layered fs \<longleftrightarrow> (\<forall>f \<in> set fs. f \<noteq> [] \<and> sorted_wrt (\<lambda>a b. \<not> dom a b) f) \<and> sorted_wrt (\<lambda>f g. \<forall>j \<in> set g. \<exists>m \<in> set f. dom m j) fs"

lemma put_mset: "put fs i = Inr gs \<Longrightarrow> mset (concat gs) = add_mset i (mset (concat fs))"
  by (induction fs arbitrary: gs) (auto simp: put_Nil put_Cons bindR_Inr_iff split: if_splits)

lemma put_members: "put fs i = Inr gs \<Longrightarrow> g \<in> set gs \<Longrightarrow> j \<in> set g \<Longrightarrow> j = i \<or> (\<exists>f \<in> set fs. j \<in> set f)"
  by (induction fs arbitrary: gs) (auto simp: put_Nil put_Cons bindR_Inr_iff split: if_splits)

lemma put_layered:
  assumes "put fs i = Inr gs" and "layered fs"
  shows "layered gs"
  using assms
proof (induction fs arbitrary: gs)
  case Nil
  then show ?case by (auto simp: put_Nil layered_def)
next
  case (Cons f fs)
  then obtain d where d: "dom_in i f = Inr d" by (auto simp: put_Cons bindR_Inr_iff)
  have lay: "layered fs" "f \<noteq> []" "sorted_wrt (\<lambda>a b. \<not> dom a b) f" "\<forall>g \<in> set fs. \<forall>j \<in> set g. \<exists>m \<in> set f. dom m j"
    using Cons.prems(2) by (auto simp: layered_def)
  show ?case
  proof (cases d)
    case True
    then obtain hs where hs: "put fs i = Inr hs" "gs = f # hs" using Cons.prems(1) d by (auto simp: put_Cons bindR_Inr_iff)
    have "layered hs" using Cons.IH [OF hs(1) lay(1)] .
    moreover have "\<exists>m \<in> set f. dom m j" if "g \<in> set hs" "j \<in> set g" for g j
      using put_members [OF hs(1) that] lay(4) dom_in_iff [OF d] True by blast
    ultimately show ?thesis using hs(2) lay(2,3) by (auto simp: layered_def)
  next
    case False
    then have gs: "gs = (f @ [i]) # fs" using Cons.prems(1) d by (simp add: put_Cons)
    have "sorted_wrt (\<lambda>a b. \<not> dom a b) (f @ [i])" using lay(3) dom_in_iff [OF d] False by (simp add: sorted_wrt_append)
    then show ?thesis using gs lay by (auto simp: layered_def)
  qed
qed

lemma run_layered: "foldR put fs is = Inr gs \<Longrightarrow> layered fs \<Longrightarrow> layered gs"
  using foldR_invariant [of "is" layered put fs gs] put_layered by blast

lemma run_mset: "foldR put fs is = Inr gs \<Longrightarrow> mset (concat gs) = mset (concat fs) + mset is"
  by (induction "is" arbitrary: fs) (auto simp: bindR_Inr_iff put_mset)

lemma layered_previous:
  "layered fs \<Longrightarrow> Suc k < length fs \<Longrightarrow> j \<in> set (fs ! Suc k) \<Longrightarrow> \<exists>m \<in> set (fs ! k). dom m j"
  unfolding layered_def sorted_wrt_iff_nth_less by blast

end

text \<open>The dominance the loop of the sorter computes.\<close>

definition dominates_index :: "numlib \<Rightarrow> sorter \<Rightarrow> candidate_fitness list \<Rightarrow> objective list \<Rightarrow> nat \<Rightarrow> nat \<Rightarrow> bool" where
  "dominates_index nl so cs objs m i \<longleftrightarrow>
     fst (snd (objs ! m)) \<le> fst (snd (objs ! i)) + nano9 \<and> snd (snd (objs ! m)) \<le> snd (snd (objs ! i)) + nano9 \<and>
     dominates nl so (cs ! m) (cs ! i) (objs ! m) (objs ! i) (Some (cached nl (cs ! m))) (Some (cached nl (cs ! i))) = Inr True"

lemma dominated_in_Cons:
  "dominated_in nl so cs objs i (m # ms) =
     (if fst (snd (objs ! m)) \<le> fst (snd (objs ! i)) + nano9 \<and> snd (snd (objs ! m)) \<le> snd (snd (objs ! i)) + nano9
      then bindR (dominates nl so (cs ! m) (cs ! i) (objs ! m) (objs ! i) (Some (cached nl (cs ! m))) (Some (cached nl (cs ! i)))) (\<lambda>d.
             if d then Inr True else dominated_in nl so cs objs i ms)
      else dominated_in nl so cs objs i ms)"
  by (cases "objs ! m"; cases "objs ! i") (simp add: Let_def)

lemma dominated_in_iff: "dominated_in nl so cs objs i ms = Inr d \<Longrightarrow> d \<longleftrightarrow> (\<exists>m \<in> set ms. dominates_index nl so cs objs m i)"
proof (induction ms)
  case (Cons m ms)
  then show ?case unfolding dominated_in_Cons by (auto simp: dominates_index_def bindR_Inr_iff split: if_splits)
qed simp

interpretation sorter: first_front "dominates_index nl so cs objs" "dominated_in nl so cs objs" "place nl so cs objs"
  for nl so cs objs
  using dominated_in_iff by unfold_locales simp_all

section \<open>The reference sort\<close>

text \<open>Each candidate, by falling score, goes to the first front without a member that dominates it by the full comparison.\<close>

fun any_dominates :: "('a \<Rightarrow> 'e + bool) \<Rightarrow> 'a list \<Rightarrow> 'e + bool" where
  "any_dominates D [] = Inr False"
| "any_dominates D (m # ms) = bindR (D m) (\<lambda>d. if d then Inr True else any_dominates D ms)"

fun place_ref :: "('a \<Rightarrow> 'a \<Rightarrow> 'e + bool) \<Rightarrow> 'a list list \<Rightarrow> 'a \<Rightarrow> 'e + 'a list list" where
  "place_ref D [] i = Inr [[i]]"
| "place_ref D (f # fs) i =
     bindR (any_dominates (\<lambda>m. D m i) f) (\<lambda>d. if d then bindR (place_ref D fs i) (\<lambda>gs. Inr (f # gs)) else Inr ((f @ [i]) # fs))"

definition full_dominates :: "numlib \<Rightarrow> sorter \<Rightarrow> candidate_fitness list \<Rightarrow> objective list \<Rightarrow> nat \<Rightarrow> nat \<Rightarrow> bool res" where
  "full_dominates nl so cs objs m i = dominates nl so (cs ! m) (cs ! i) (objs ! m) (objs ! i) None None"

definition sort_ref :: "numlib \<Rightarrow> sorter \<Rightarrow> candidate_fitness list \<Rightarrow> objective list \<Rightarrow> (nat list list \<times> nat list) res" where
  "sort_ref nl so cs objs =
     bindR (foldR (place_ref (full_dominates nl so cs objs)) []
         (sort_key (\<lambda>i. fin_val (fst (objs ! i))) (filter (\<lambda>i. viable (cs ! i)) [0..<length cs]))) (\<lambda>fronts.
       Inr (fronts, filter (\<lambda>i. \<not> viable (cs ! i)) [0..<length cs]))"

lemma variance_cached:
  assumes "length (return_series ca) = length (return_series cb)"
  shows "dominates nl so ca cb oa ob (Some (cached nl ca)) (Some (cached nl cb)) = dominates nl so ca cb oa ob None None"
  using assms
  by (simp add: dominates_def cached_def variance_precomputed_def compute_dependent_dsr_variance_def deviations_def Let_def split: prod.splits)

definition finite_objective :: "objective \<Rightarrow> bool" where
  "finite_objective ob \<longleftrightarrow> isfinite (fst ob) \<and> isfinite (fst (snd ob)) \<and> isfinite (snd (snd ob))"

lemma nano9_finite: "isfinite nano9"
  using flit_power_ten [of 9] by (auto simp: nano9_def)

lemma finite_plus_not_nan: "isfinite x \<Longrightarrow> isfinite y \<Longrightarrow> x + y \<noteq> NaN"
  by auto

text \<open>What the cheap test rejects, the full comparison rejects.\<close>

lemma prefilter_sound:
  assumes "finite_objective oa" and "finite_objective ob" and "is_feasible ca" and "is_feasible cb"
    and "\<not> (fst (snd oa) \<le> fst (snd ob) + nano9 \<and> snd (snd oa) \<le> snd (snd ob) + nano9)"
  shows "dominates nl so ca cb oa ob pa pb = Inr False"
proof -
  obtain a0 a1 a2 b0 b1 b2 where o: "oa = (a0, a1, a2)" "ob = (b0, b1, b2)" by (metis prod_cases3)
  have n: "a1 \<noteq> NaN" "a2 \<noteq> NaN" "b1 + nano9 \<noteq> NaN" "b2 + nano9 \<noteq> NaN"
    using assms(1,2) finite_plus_not_nan [OF _ nano9_finite] by (auto simp: finite_objective_def o)
  have "b1 + nano9 < a1 \<or> b2 + nano9 < a2" using assms(5) n by (auto simp: o float_not_le)
  then show ?thesis using assms(3,4) by (auto simp: dominates_def o)
qed

lemma dominated_in_ref:
  assumes "\<forall>m \<in> set ms. viable (cs ! m) \<and> finite_objective (objs ! m) \<and> length (return_series (cs ! m)) = length (return_series (cs ! i))"
    and "viable (cs ! i)" and "finite_objective (objs ! i)"
  shows "dominated_in nl so cs objs i ms = any_dominates (\<lambda>m. full_dominates nl so cs objs m i) ms"
  using assms(1)
proof (induction ms)
  case (Cons m ms)
  let ?full = "dominates nl so (cs ! m) (cs ! i) (objs ! m) (objs ! i) None None"
  have c: "dominates nl so (cs ! m) (cs ! i) (objs ! m) (objs ! i) (Some (cached nl (cs ! m))) (Some (cached nl (cs ! i))) = ?full"
    using Cons.prems by (intro variance_cached) simp
  have f: "?full = Inr False" if "\<not> (fst (snd (objs ! m)) \<le> fst (snd (objs ! i)) + nano9 \<and> snd (snd (objs ! m)) \<le> snd (snd (objs ! i)) + nano9)"
    using Cons.prems assms(2,3) that by (intro prefilter_sound) (simp_all add: viable_def)
  have "dominated_in nl so cs objs i ms = any_dominates (\<lambda>m. full_dominates nl so cs objs m i) ms" using Cons by simp
  then show ?case unfolding dominated_in_Cons c using f by (simp add: full_dominates_def cong: if_cong)
qed simp

lemma place_eq_ref:
  assumes "\<forall>f \<in> set fs. \<forall>m \<in> set f. viable (cs ! m) \<and> finite_objective (objs ! m) \<and> length (return_series (cs ! m)) = length (return_series (cs ! i))"
    and "viable (cs ! i)" and "finite_objective (objs ! i)"
  shows "place nl so cs objs fs i = place_ref (full_dominates nl so cs objs) fs i"
  using assms(1)
proof (induction fs)
  case (Cons f fs)
  have "dominated_in nl so cs objs i f = any_dominates (\<lambda>m. full_dominates nl so cs objs m i) f"
    using Cons.prems assms(2,3) by (intro dominated_in_ref) auto
  then show ?case using Cons by (simp cong: if_cong)
qed simp

lemma run_eq_ref:
  assumes "\<forall>i \<in> set is \<union> set (concat fs). viable (cs ! i) \<and> finite_objective (objs ! i) \<and> length (return_series (cs ! i)) = n"
  shows "foldR (place nl so cs objs) fs is = foldR (place_ref (full_dominates nl so cs objs)) fs is"
  using assms
proof (induction "is" arbitrary: fs)
  case (Cons i "is")
  have e: "place nl so cs objs fs i = place_ref (full_dominates nl so cs objs) fs i"
    using Cons.prems by (intro place_eq_ref) auto
  show ?case
  proof (cases "place nl so cs objs fs i")
    case (Inr gs)
    have "set (concat gs) = insert i (set (concat fs))"
      using arg_cong [OF sorter.put_mset [OF Inr], of set_mset] by (simp only: set_mset_mset set_mset_add_mset_insert)
    then have all: "\<forall>i \<in> set is \<union> set (concat gs). viable (cs ! i) \<and> finite_objective (objs ! i) \<and> length (return_series (cs ! i)) = n"
      using Cons.prems by auto
    have "place_ref (full_dominates nl so cs objs) fs i = Inr gs" using e Inr by simp
    then show ?thesis using Cons.IH [OF all] Inr by simp
  next
    case (Inl x)
    then have "place_ref (full_dominates nl so cs objs) fs i = Inl x" using e by simp
    then show ?thesis using Inl by simp
  qed
qed simp

section \<open>The sort returns\<close>

text \<open>The square of a number that is not enormous does not overflow.\<close>

definition square_documented :: "numlib \<Rightarrow> bool" where
  "square_documented nl \<longleftrightarrow> (\<forall>a. \<bar>a\<bar> \<le> 2 ^ 500 \<longrightarrow> (\<exists>y. libm_square nl (Fin a) = Inr y))"

definition moderate :: "float64 \<Rightarrow> bool" where
  "moderate x \<longleftrightarrow> (\<exists>a. x = Fin a \<and> \<bar>a\<bar> \<le> 2 ^ 500)"

lemma clamped_moderate: "moderate (py_max (flit (- 9999 / 10000)) (py_min (flit (9999 / 10000)) x))"
proof -
  let ?lo = "flit (- 9999 / 10000)" and ?hi = "flit (9999 / 10000)"
  have "Fin (- 1) \<le> ?lo" "?lo \<le> Fin 1" "Fin (- 1) \<le> ?hi" "?hi \<le> Fin 1"
    using rnd64_mono [of "- 1" "- 9999 / 10000"] rnd64_mono [of "- 9999 / 10000" 1] rnd64_mono [of "- 1" "9999 / 10000"] rnd64_mono [of "9999 / 10000" 1]
    by simp_all
  then obtain l h where lh: "?lo = Fin l" "- 1 \<le> l" "l \<le> 1" "?hi = Fin h" "- 1 \<le> h" "h \<le> 1" by (cases ?lo; cases ?hi) auto
  have "\<exists>a. py_max (Fin l) (py_min (Fin h) x) = Fin a \<and> - 1 \<le> a \<and> a \<le> 1"
    using lh by (cases x) (auto simp: py_max_def py_min_def)
  then obtain a where a: "py_max (Fin l) (py_min (Fin h) x) = Fin a" "- 1 \<le> a" "a \<le> 1" by blast
  have "\<bar>a\<bar> \<le> 1" using a(2,3) by linarith
  then have "\<bar>a\<bar> \<le> 2 ^ 500" using order_trans [of "\<bar>a\<bar>" 1 "2 ^ 500"] by simp
  then show ?thesis unfolding moderate_def lh(1,4) using a(1) by blast
qed

lemma standard_error_total:
  assumes "square_documented nl" and "moderate da" and "moderate db"
  shows "\<exists>x. dsr_standard_error nl da db rho t = Inr x"
proof -
  have sq: "\<exists>y. libm_square nl x = Inr y" if "moderate x" for x using assms(1) that by (auto simp: square_documented_def moderate_def)
  obtain a2 where "libm_square nl da = Inr a2" using sq [OF assms(2)] by blast
  moreover obtain b2 where "libm_square nl db = Inr b2" using sq [OF assms(3)] by blast
  moreover obtain r2 where "libm_square nl (py_max (flit (- 9999 / 10000)) (py_min (flit (9999 / 10000)) rho)) = Inr r2"
    using sq [OF clamped_moderate] by blast
  ultimately show ?thesis unfolding dsr_standard_error_def Let_def by simp
qed

lemma full_dominates_total:
  assumes "square_documented nl" and "moderate (dsr (cs ! m))" and "moderate (dsr (cs ! i))"
  shows "\<exists>b. full_dominates nl so cs objs m i = Inr b"
proof -
  have "\<exists>se. compute_dependent_dsr_variance nl (dsr (cs ! m)) (dsr (cs ! i)) (return_series (cs ! m)) (return_series (cs ! i)) = Inr se"
    using standard_error_total [OF assms] by (auto simp: compute_dependent_dsr_variance_def dotR_def deviations_def Let_def)
  then show ?thesis by (cases "objs ! m"; cases "objs ! i") (auto simp: full_dominates_def dominates_def Let_def)
qed

lemma any_dominates_total: "\<forall>m \<in> set ms. \<exists>b. D m = Inr b \<Longrightarrow> \<exists>b. any_dominates D ms = Inr b"
  by (induction ms) auto

lemma place_ref_total: "\<forall>f \<in> set fs. \<forall>m \<in> set f. \<exists>b. D m i = Inr b \<Longrightarrow> \<exists>gs. place_ref D fs i = Inr gs"
proof (induction fs)
  case (Cons f fs)
  obtain b where "any_dominates (\<lambda>m. D m i) f = Inr b" using any_dominates_total [of f "\<lambda>m. D m i"] Cons.prems by auto
  then show ?case using Cons by auto
qed simp

lemma place_ref_set: "place_ref D fs i = Inr gs \<Longrightarrow> set (concat gs) = insert i (set (concat fs))"
proof (induction fs arbitrary: gs)
  case (Cons f fs)
  then obtain d where d: "any_dominates (\<lambda>m. D m i) f = Inr d" by (auto simp: bindR_Inr_iff)
  show ?case
  proof (cases d)
    case True
    then obtain hs where hs: "place_ref D fs i = Inr hs" "gs = f # hs" using Cons.prems d by (auto simp: bindR_Inr_iff)
    show ?thesis using Cons.IH [OF hs(1)] unfolding hs(2) concat.simps set_append by blast
  next
    case False
    then have "gs = (f @ [i]) # fs" using Cons.prems d by simp
    then show ?thesis by simp
  qed
qed simp

lemma run_total:
  assumes "\<forall>i \<in> set is \<union> set (concat fs). \<forall>j \<in> set is \<union> set (concat fs). \<exists>b. D i j = Inr b"
  shows "\<exists>gs. foldR (place_ref D) fs is = Inr gs"
  using assms
proof (induction "is" arbitrary: fs)
  case (Cons i "is")
  have "\<forall>f \<in> set fs. \<forall>m \<in> set f. \<exists>b. D m i = Inr b" using Cons.prems by simp blast
  then obtain gs where gs: "place_ref D fs i = Inr gs" using place_ref_total [of fs D i] by blast
  have "\<forall>i \<in> set is \<union> set (concat gs). \<forall>j \<in> set is \<union> set (concat gs). \<exists>b. D i j = Inr b"
    unfolding place_ref_set [OF gs] using Cons.prems by simp
  from Cons.IH [OF this] show ?case using gs by simp
qed simp

section \<open>The fronts of a population\<close>

text \<open>Candidates the sorter can compare: equally long return series, finite objectives.\<close>

definition comparable :: "candidate_fitness list \<Rightarrow> objective list \<Rightarrow> bool" where
  "comparable cs objs \<longleftrightarrow>
     (\<forall>i < length cs. viable (cs ! i) \<longrightarrow> finite_objective (objs ! i) \<and> length (return_series (cs ! i)) = length (return_series (hd cs)))"

lemma sort_unfold:
  "sort_fronts nl so cs objs =
     bindR (foldR (place nl so cs objs) [] (sort_key (\<lambda>i. fin_val (fst (objs ! i))) (filter (\<lambda>i. viable (cs ! i)) [0..<length cs])))
       (\<lambda>fronts. Inr (fronts, filter (\<lambda>i. \<not> viable (cs ! i)) [0..<length cs]))"
proof (cases "filter (\<lambda>i. viable (cs ! i)) [0..<length cs] = []")
  case True
  show ?thesis unfolding sort_fronts_def Let_def True by simp
qed (simp add: sort_fronts_def)

lemma sort_eq_ref:
  assumes "comparable cs objs"
  shows "sort_fronts nl so cs objs = sort_ref nl so cs objs"
  unfolding sort_unfold sort_ref_def
  by (subst run_eq_ref [where n = "length (return_series (hd cs))"]) (use assms in \<open>auto simp: comparable_def\<close>)

lemma sort_total:
  assumes "comparable cs objs" and "square_documented nl" and "\<forall>c \<in> set cs. viable c \<longrightarrow> moderate (dsr c)"
  shows "\<exists>fronts. sort_fronts nl so cs objs = Inr (fronts, filter (\<lambda>i. \<not> viable (cs ! i)) [0..<length cs])"
proof -
  let ?order = "sort_key (\<lambda>i. fin_val (fst (objs ! i))) (filter (\<lambda>i. viable (cs ! i)) [0..<length cs])"
  have "\<exists>b. full_dominates nl so cs objs i j = Inr b" if "i \<in> set ?order" "j \<in> set ?order" for i j
    using assms that by (intro full_dominates_total) (auto simp: comparable_def)
  then have "\<exists>gs. foldR (place_ref (full_dominates nl so cs objs)) [] ?order = Inr gs" by (intro run_total) simp
  then show ?thesis unfolding sort_eq_ref [OF assms(1)] sort_ref_def by auto
qed

lemma sort_layers:
  assumes "sort_fronts nl so cs objs = Inr (fronts, infeasible)"
  shows "sorter.layered nl so cs objs fronts" and "mset (concat fronts) = mset (filter (\<lambda>i. viable (cs ! i)) [0..<length cs])"
    and "infeasible = filter (\<lambda>i. \<not> viable (cs ! i)) [0..<length cs]"
proof -
  let ?order = "sort_key (\<lambda>i. fin_val (fst (objs ! i))) (filter (\<lambda>i. viable (cs ! i)) [0..<length cs])"
  have run: "foldR (place nl so cs objs) [] ?order = Inr fronts"
    and inf: "infeasible = filter (\<lambda>i. \<not> viable (cs ! i)) [0..<length cs]"
    using assms unfolding sort_unfold by (auto simp: bindR_Inr_iff)
  show "sorter.layered nl so cs objs fronts" using sorter.run_layered [OF run] by (simp add: sorter.layered_def)
  show "mset (concat fronts) = mset (filter (\<lambda>i. viable (cs ! i)) [0..<length cs])" using sorter.run_mset [OF run] by simp
  show "infeasible = filter (\<lambda>i. \<not> viable (cs ! i)) [0..<length cs]" by (rule inf)
qed

lemma dominates_index_full:
  assumes "comparable cs objs" and "i < length cs" "j < length cs" and "viable (cs ! i)" "viable (cs ! j)"
  shows "dominates_index nl so cs objs i j \<longleftrightarrow> full_dominates nl so cs objs i j = Inr True"
proof -
  have eq: "dominates nl so (cs ! i) (cs ! j) (objs ! i) (objs ! j) (Some (cached nl (cs ! i))) (Some (cached nl (cs ! j))) = full_dominates nl so cs objs i j"
    unfolding full_dominates_def using assms by (intro variance_cached) (auto simp: comparable_def)
  have "full_dominates nl so cs objs i j = Inr False"
    if "\<not> (fst (snd (objs ! i)) \<le> fst (snd (objs ! j)) + nano9 \<and> snd (snd (objs ! i)) \<le> snd (snd (objs ! j)) + nano9)"
    unfolding full_dominates_def using assms that by (intro prefilter_sound) (auto simp: comparable_def viable_def)
  moreover have "(Inr True :: bool res) \<noteq> Inr False" by simp
  ultimately show ?thesis unfolding dominates_index_def eq by metis
qed

section \<open>Ranking\<close>

lemma make_front_ids: "mset (pf_candidate_ids (make_front cs apd p)) = image_mset (\<lambda>i. candidate_id (cs ! i)) (mset (snd p))"
  by (simp add: make_front_def Let_def)

lemma fronts_ids:
  "mset (concat (map (\<lambda>p. pf_candidate_ids (make_front cs apd p)) (enumerate k fronts))) = image_mset (\<lambda>i. candidate_id (cs ! i)) (mset (concat fronts))"
  by (induction fronts arbitrary: k) (simp_all add: make_front_ids)

lemma split_mset: "mset (filter P xs) + mset (filter (\<lambda>x. \<not> P x) xs) = mset xs"
  by (metis mset_filter multiset_partition)

lemma ids_of_indices: "image_mset (\<lambda>i. candidate_id (cs ! i)) (mset (filter (\<lambda>i. P (cs ! i)) [0..<length cs])) = mset (map candidate_id (filter P cs))"
proof -
  have "filter P cs = map ((!) cs) (filter (\<lambda>i. P (cs ! i)) [0..<length cs])"
    using filter_map [of P "(!) cs" "[0..<length cs]"] by (simp add: map_nth comp_def)
  then show ?thesis by (simp add: multiset.map_comp comp_def)
qed

lemma rank_fronts_result:
  assumes "rank_fronts nl rk cs g mg aa objs fronts inf_ids = (rk', Inr r)"
  shows "\<exists>apd. rr_fronts r = map (make_front cs apd) (enumerate 1 fronts) \<and> rr_infeasible_ids r = inf_ids"
proof -
  obtain assoc where a: "associate_and_penalize nl (rk_lattice rk) (normalized_objectives nl objs (concat fronts))
      (fdiv (float_of_int g) (py_max (Fin 1) (float_of_int mg))) = Inr assoc"
    using assms by (auto simp: rank_fronts_def Let_def split: sum.splits)
  show ?thesis using assms a by (auto simp: rank_fronts_def ranking_def Let_def split: sum.splits prod.splits if_splits)
qed

lemma rank_population_sorted:
  assumes "rank_population nl rk cs g mg aa = (rk', Inr r)" and "cs \<noteq> []"
  shows "\<exists>novelties fronts infeasible. sort_fronts nl (rk_sorter rk) cs (objectives_of cs novelties) = Inr (fronts, infeasible) \<and>
    (if fronts = [] then r = ranking rk [] (map (\<lambda>i. candidate_id (cs ! i)) infeasible)
     else rank_fronts nl rk cs g mg aa (objectives_of cs novelties) fronts (map (\<lambda>i. candidate_id (cs ! i)) infeasible) = (rk', Inr r))"
proof -
  have sl: "same_lengths (map residual_series cs)" using assms by (auto simp: rank_population_def split: if_splits)
  show ?thesis
  proof (cases "compute_novelty nl (rk_archive rk) (map (\<lambda>c. (residual_series c, viable c)) cs)")
    case (Inl e)
    then show ?thesis using assms sl by (simp add: rank_population_def)
  next
    case (Inr nov)
    show ?thesis
    proof (cases "sort_fronts nl (rk_sorter rk) cs (objectives_of cs nov)")
      case (Inl e)
      then show ?thesis using assms sl Inr by (simp add: rank_population_def Let_def)
    next
      case (Inr p)
      then show ?thesis using assms sl \<open>compute_novelty _ _ _ = Inr nov\<close>
        by (intro exI [of _ nov] exI [of _ "fst p"] exI [of _ "snd p"]) (cases p; auto simp: rank_population_def Let_def)
    qed
  qed
qed

lemma rank_population_fronts:
  assumes "rank_population nl rk cs g mg aa = (rk', Inr r)"
  shows "\<exists>fronts infeasible apd. rr_fronts r = map (make_front cs apd) (enumerate 1 fronts) \<and>
    rr_infeasible_ids r = map (\<lambda>i. candidate_id (cs ! i)) infeasible \<and> (\<forall>f \<in> set fronts. f \<noteq> []) \<and>
    mset (concat fronts) = mset (filter (\<lambda>i. viable (cs ! i)) [0..<length cs]) \<and> infeasible = filter (\<lambda>i. \<not> viable (cs ! i)) [0..<length cs]"
proof (cases "cs = []")
  case True
  then have "r = ranking rk [] []" using assms by (auto simp: rank_population_def)
  then show ?thesis using True by (intro exI [of _ "[]"]) (simp add: ranking_def)
next
  case False
  obtain novelties fronts infeasible where sorted: "sort_fronts nl (rk_sorter rk) cs (objectives_of cs novelties) = Inr (fronts, infeasible)"
    "if fronts = [] then r = ranking rk [] (map (\<lambda>i. candidate_id (cs ! i)) infeasible)
     else rank_fronts nl rk cs g mg aa (objectives_of cs novelties) fronts (map (\<lambda>i. candidate_id (cs ! i)) infeasible) = (rk', Inr r)"
    using rank_population_sorted [OF assms False] by blast
  note s = sort_layers [OF sorted(1)]
  have "\<forall>f \<in> set fronts. f \<noteq> []" using s(1) by (simp add: sorter.layered_def)
  moreover have "\<exists>apd. rr_fronts r = map (make_front cs apd) (enumerate 1 fronts) \<and> rr_infeasible_ids r = map (\<lambda>i. candidate_id (cs ! i)) infeasible"
    using sorted(2) rank_fronts_result by (auto simp: ranking_def split: if_splits)
  ultimately show ?thesis using s(2,3) by blast
qed

section \<open>What a ranking keeps\<close>

lemma admit_all_ok: "archive_ok a \<Longrightarrow> archive_ok (fst (admit_all nl cs a b cids))"
proof (induction cids arbitrary: a b)
  case (Cons cid cids)
  show ?case
  proof (cases "dict_get (rev (map (\<lambda>c. (candidate_id c, c)) cs)) cid")
    case (Some c)
    then show ?thesis using Cons.IH admit_ok [OF Cons.prems, of nl "candidate_id c" "residual_series c" False]
      by (auto split: prod.splits sum.splits)
  qed (use Cons.prems in simp)
qed simp

lemma auto_admit_ok: "archive_ok a \<Longrightarrow> archive_ok (fst (auto_admit_front nl cs a cids))"
  using admit_all_ok [of a nl cs False cids] by (auto simp: auto_admit_front_def recompute_basis_ok split: prod.splits sum.splits)

text \<open>The anchor rays and the number of rays.\<close>

definition same_anchors :: "lattice \<Rightarrow> lattice \<Rightarrow> bool" where
  "same_anchors lt lt' \<longleftrightarrow> length (rays lt') = length (rays lt) \<and> anchor_indices lt' = anchor_indices lt \<and>
     (\<forall>i \<in> set (anchor_indices lt). rays lt' ! i = rays lt ! i)"

lemma adapt_lattice_keeps: "adapt_lattice nl rk g objs feas assoc = Inr rk' \<Longrightarrow>
    rk_archive rk' = rk_archive rk \<and> rk_sorter rk' = rk_sorter rk \<and> same_anchors (rk_lattice rk) (rk_lattice rk')"
  using adapt_interior_rays_anchor [of nl "rk_lattice rk" "map (\<lambda>i. objs ! i) feas" "map (\<lambda>i. assoc ! i) feas"]
  by (cases "adapt_interior_rays nl (rk_lattice rk) (map (\<lambda>i. objs ! i) feas) (map (\<lambda>i. assoc ! i) feas)")
    (auto simp: adapt_lattice_def same_anchors_def split: if_splits)

definition ranker_kept :: "ranker \<Rightarrow> ranker \<Rightarrow> bool" where
  "ranker_kept rk rk' \<longleftrightarrow> archive_ok (rk_archive rk') \<and> rk_sorter rk' = rk_sorter rk \<and> same_anchors (rk_lattice rk) (rk_lattice rk')"

lemma ranker_kept_refl: "archive_ok (rk_archive rk) \<Longrightarrow> ranker_kept rk rk"
  by (simp add: ranker_kept_def same_anchors_def)

lemma ranker_kept_archive: "archive_ok a \<Longrightarrow> ranker_kept rk (rk\<lparr>rk_archive := a\<rparr>)"
  by (simp add: ranker_kept_def same_anchors_def)

lemma rank_fronts_keeps:
  assumes "archive_ok (rk_archive rk)"
  shows "ranker_kept rk (fst (rank_fronts nl rk cs g mg aa objs fronts inf_ids))"
proof -
  have kept: "ranker_kept rk (rk\<lparr>rk_archive := a\<rparr>)"
      and adapted: "adapt_lattice nl (rk\<lparr>rk_archive := a\<rparr>) g os fe asc = Inr rk2 \<Longrightarrow> ranker_kept rk rk2" if "archive_ok a" for a os fe asc rk2
    using that adapt_lattice_keeps [of nl "rk\<lparr>rk_archive := a\<rparr>" g os fe asc rk2] by (simp_all add: ranker_kept_def same_anchors_def)
  have ok: "archive_ok a" if "auto_admit_front nl cs (rk_archive rk) ids = (a, x)" for ids a x
    using auto_admit_ok [OF assms, of nl cs ids] that by simp
  show ?thesis unfolding rank_fronts_def Let_def
    using assms ranker_kept_refl [OF assms] kept adapted
    by (auto split: sum.splits prod.splits if_splits dest: ok)
qed

lemma rank_population_keeps:
  assumes "archive_ok (rk_archive rk)"
  shows "ranker_kept rk (fst (rank_population nl rk cs g mg aa))"
proof (cases "compute_novelty nl (rk_archive rk) (map (\<lambda>c. (residual_series c, viable c)) cs)")
  case (Inl e)
  then show ?thesis using ranker_kept_refl [OF assms] by (simp add: rank_population_def)
next
  case (Inr nov)
  show ?thesis
  proof (cases "sort_fronts nl (rk_sorter rk) cs (objectives_of cs nov)")
    case (Inl e)
    then show ?thesis using \<open>compute_novelty _ _ _ = Inr nov\<close> ranker_kept_refl [OF assms] by (simp add: rank_population_def Let_def)
  next
    case (Inr p)
    then show ?thesis using \<open>compute_novelty _ _ _ = Inr nov\<close> ranker_kept_refl [OF assms] rank_fronts_keeps [OF assms]
      by (cases p) (simp add: rank_population_def Let_def)
  qed
qed

lemma das_dennis_length: "length (das_dennis d s cur) = (s + d) choose d"
proof (induction d arbitrary: s cur)
  case (Suc d)
  have "length (das_dennis (Suc d) s cur) = (\<Sum>v = 0..s. (s - v + d) choose d)"
    by (simp add: length_concat comp_def Suc.IH interv_sum_list_conv_sum_set_nat atLeastLessThanSuc_atLeastAtMost del: upt_Suc)
  also have "\<dots> = (\<Sum>v \<le> s. (d + v) choose d)"
    by (rule sum.reindex_bij_witness [of _ "\<lambda>v. s - v" "\<lambda>v. s - v"]) (auto simp: add.commute)
  also have "\<dots> = (s + Suc d) choose Suc d" using choose_rising_sum(1) [of d s] by (simp add: add.commute)
  finally show ?case .
qed simp

lemma ranking_conserves:
  assumes "rank_population nl rk cs generation max_generations auto_admit = (rk', Inr r)"
  shows "mset (concat (map pf_candidate_ids (rr_fronts r)) @ rr_infeasible_ids r) = mset (map candidate_id cs) \<and>
    mset (rr_infeasible_ids r) = mset (map candidate_id (filter (\<lambda>c. \<not> viable c) cs)) \<and>
    map pf_rank (rr_fronts r) = map int [1..<Suc (length (rr_fronts r))] \<and>
    (\<forall>f \<in> set (rr_fronts r). pf_candidate_ids f \<noteq> [] \<and> length (pf_apd_scores f) = length (pf_candidate_ids f))"
proof -
  obtain fronts infeasible apd where f: "rr_fronts r = map (make_front cs apd) (enumerate 1 fronts)"
    "rr_infeasible_ids r = map (\<lambda>i. candidate_id (cs ! i)) infeasible" "\<forall>f \<in> set fronts. f \<noteq> []"
    "mset (concat fronts) = mset (filter (\<lambda>i. viable (cs ! i)) [0..<length cs])" "infeasible = filter (\<lambda>i. \<not> viable (cs ! i)) [0..<length cs]"
    using rank_population_fronts [OF assms] by blast
  have inf: "mset (rr_infeasible_ids r) = mset (map candidate_id (filter (\<lambda>c. \<not> viable c) cs))"
    using ids_of_indices [of cs "\<lambda>c. \<not> viable c"] unfolding f(2,5) mset_map by simp
  have "mset (concat (map pf_candidate_ids (rr_fronts r))) = mset (map candidate_id (filter viable cs))"
    using fronts_ids [of cs apd 1 fronts] ids_of_indices [of cs viable] by (simp add: f(1,4) comp_def)
  then have "mset (concat (map pf_candidate_ids (rr_fronts r)) @ rr_infeasible_ids r) = mset (map candidate_id cs)"
    using inf split_mset [of viable cs] by (metis image_mset_union mset_append mset_map)
  moreover have "map pf_rank (rr_fronts r) = map int (map fst (enumerate 1 fronts))"
    unfolding f(1) map_map by (rule map_cong) (simp_all add: make_front_def Let_def)
  then have "map pf_rank (rr_fronts r) = map int [1..<Suc (length (rr_fronts r))]"
    unfolding map_fst_enumerate f(1) length_map length_enumerate plus_1_eq_Suc .
  moreover have "pf_candidate_ids (make_front cs apd p) \<noteq> [] \<and> length (pf_apd_scores (make_front cs apd p)) = length (pf_candidate_ids (make_front cs apd p))"
    if "snd p \<noteq> []" for p
    using that by (simp add: make_front_def Let_def flip: length_greater_0_conv)
  then have "\<forall>f \<in> set (rr_fronts r). pf_candidate_ids f \<noteq> [] \<and> length (pf_apd_scores f) = length (pf_candidate_ids f)"
    using f(1,3) by (auto simp: in_set_enumerate_eq)
  ultimately show ?thesis using inf by blast
qed

section \<open>Theorems\<close>

text \<open>The reference lattice has one ray for each way to write \<open>p\<close> as an ordered sum of \<open>m\<close> natural numbers, no combination twice,
  \<open>(p + m - 1) choose (m - 1)\<close> in all.\<close>

theorem das_dennis_enumerates:
  "length (generate_das_dennis_rays nl (Suc d) p) = (p + d) choose d \<and>
   distinct (das_dennis d p []) \<and> set (das_dennis d p []) = {xs. length xs = Suc d \<and> sum_list xs = p}"
  by (simp add: generate_das_dennis_rays_def Let_def das_dennis_length das_dennis_distinct das_dennis_set)

text \<open>C14: For candidates that can be compared (the viable ones have finite objectives and equally long return series), the sort with its
  cached deviations and its cheap pre-test is the plain insertion of each viable candidate, by falling score, into the first front
  without a member that dominates it by the full comparison. With series of different lengths the two differ: the full comparison cuts
  them to a common length, the cached one raises (\<open>unequal_series_diverge\<close>).\<close>

theorem sort_equals_reference:
  assumes "comparable cs objs"
  shows "sort_fronts nl so cs objs = sort_ref nl so cs objs"
  by (rule sort_eq_ref [OF assms])

definition sample_candidate :: "string \<Rightarrow> rat \<Rightarrow> rat \<Rightarrow> bool \<Rightarrow> candidate_fitness" where
  "sample_candidate n d r f =
     \<lparr>candidate_id = n, dsr = Fin d, minimax_regret = Fin r, return_series = [Fin 1, Fin 2], residual_series = [Fin 1, Fin 2], backtest_length = 2, is_feasible = f\<rparr>"

definition sample_population :: "candidate_fitness list" where
  "sample_population = [sample_candidate ''worse'' 1 3 True, sample_candidate ''better'' 2 1 True, sample_candidate ''broken'' 2 1 False]"

definition sample_objectives :: "objective list" where
  "sample_objectives = [(Fin (- 1), Fin 3, Fin (- 1)), (Fin (- 2), Fin 1, Fin (- 1)), (Fin (- 2), Fin 1, 0)]"

lemma all_less_three: "(\<forall>i < length [a, b, c]. P i) \<longleftrightarrow> P 0 \<and> P 1 \<and> P 2"
  by (auto simp: less_Suc_eq numeral_2_eq_2)

lemma sample_comparable: "comparable sample_population sample_objectives"
  unfolding comparable_def sample_population_def all_less_three
  by (simp add: sample_objectives_def sample_candidate_def finite_objective_def zero_float64_def)

theorem sort_equals_reference_witness:
  "comparable sample_population sample_objectives \<and>
   sort_fronts sample_numlib \<lparr>tau_conf = Fin 2, epsilon_regret = 0, epsilon_novelty = 0\<rparr> sample_population sample_objectives =
   sort_ref sample_numlib \<lparr>tau_conf = Fin 2, epsilon_regret = 0, epsilon_novelty = 0\<rparr> sample_population sample_objectives"
  using sort_equals_reference [OF sample_comparable] sample_comparable by blast

text \<open>C13: For candidates that can be compared (the viable ones have finite objectives, equally long return series, and a score of at most
  \<open>2 ^ 500\<close>, so that its square does not overflow) the sort returns. Its fronts and the rejected indices partition the population, the
  viable candidates are in the fronts and no others; no front is empty; nobody in a front is dominated by a member placed before it;
  everybody in the next front is dominated by somebody in the front before.\<close>

theorem fronts_partition_layers:
  assumes "comparable cs objs" and "square_documented nl" and "\<forall>c \<in> set cs. viable c \<longrightarrow> moderate (dsr c)"
  shows "\<exists>fronts infeasible. sort_fronts nl so cs objs = Inr (fronts, infeasible) \<and>
    mset (concat fronts @ infeasible) = mset [0..<length cs] \<and>
    (\<forall>i \<in> set (concat fronts). viable (cs ! i)) \<and> (\<forall>i \<in> set infeasible. \<not> viable (cs ! i)) \<and>
    (\<forall>front \<in> set fronts. front \<noteq> [] \<and> sorted_wrt (\<lambda>i j. full_dominates nl so cs objs i j = Inr False) front) \<and>
    (\<forall>k j. Suc k < length fronts \<longrightarrow> j \<in> set (fronts ! Suc k) \<longrightarrow> (\<exists>i \<in> set (fronts ! k). full_dominates nl so cs objs i j = Inr True))"
proof -
  obtain fronts where s: "sort_fronts nl so cs objs = Inr (fronts, filter (\<lambda>i. \<not> viable (cs ! i)) [0..<length cs])"
    using sort_total [OF assms] by blast
  note l = sort_layers [OF s]
  have members: "i < length cs \<and> viable (cs ! i)" if "front \<in> set fronts" "i \<in> set front" for front i
  proof -
    have "i \<in> set (concat fronts)" using that by auto
    then have "i \<in> set (filter (\<lambda>i. viable (cs ! i)) [0..<length cs])" unfolding mset_eq_setD [OF l(2)] .
    then show ?thesis by simp
  qed
  have full: "dominates_index nl so cs objs i j \<longleftrightarrow> full_dominates nl so cs objs i j = Inr True"
      and defined: "\<exists>b. full_dominates nl so cs objs i j = Inr b"
    if "f \<in> set fronts" "i \<in> set f" "g \<in> set fronts" "j \<in> set g" for f g i j
    using members [OF that(1,2)] members [OF that(3,4)] assms dominates_index_full [OF assms(1)]
    by (auto intro!: full_dominates_total simp: comparable_def)
  have "mset (concat fronts @ filter (\<lambda>i. \<not> viable (cs ! i)) [0..<length cs]) = mset [0..<length cs]"
    using l(2) split_mset [of "\<lambda>i. viable (cs ! i)" "[0..<length cs]"] by simp
  moreover have "front \<noteq> [] \<and> sorted_wrt (\<lambda>i j. full_dominates nl so cs objs i j = Inr False) front" if f: "front \<in> set fronts" for front
  proof
    show "front \<noteq> []" using l(1) f by (simp add: sorter.layered_def)
    have "sorted_wrt (\<lambda>i j. \<not> dominates_index nl so cs objs i j) front" using l(1) f by (simp add: sorter.layered_def)
    then show "sorted_wrt (\<lambda>i j. full_dominates nl so cs objs i j = Inr False) front"
      by (rule sorted_wrt_mono_rel [rotated]) (metis full [OF f _ f] defined [OF f _ f])
  qed
  moreover have "\<exists>i \<in> set (fronts ! k). full_dominates nl so cs objs i j = Inr True" if "Suc k < length fronts" "j \<in> set (fronts ! Suc k)" for k j
    using sorter.layered_previous [OF l(1) that] full [of "fronts ! k" _ "fronts ! Suc k" j] that by auto
  moreover have "\<forall>i \<in> set (concat fronts). viable (cs ! i)" using members by auto
  ultimately show ?thesis using s by (intro exI [of _ fronts] exI [of _ "filter (\<lambda>i. \<not> viable (cs ! i)) [0..<length cs]"]) auto
qed

lemma sample_square: "square_documented sample_numlib"
  by (simp add: square_documented_def sample_numlib_def)

lemma sample_moderate: "\<forall>c \<in> set sample_population. viable c \<longrightarrow> moderate (dsr c)"
  by (simp add: sample_population_def sample_candidate_def moderate_def)

theorem fronts_partition_layers_witness:
  "\<exists>fronts infeasible. sort_fronts sample_numlib \<lparr>tau_conf = Fin 2, epsilon_regret = 0, epsilon_novelty = 0\<rparr> sample_population sample_objectives =
     Inr (fronts, infeasible) \<and> mset (concat fronts @ infeasible) = mset [0, 1, 2]"
  using fronts_partition_layers [OF sample_comparable sample_square sample_moderate, of "\<lparr>tau_conf = Fin 2, epsilon_regret = 0, epsilon_novelty = 0\<rparr>"]
  by (elim exE conjE) (intro exI conjI, assumption, simp add: sample_population_def upt_rec)

text \<open>C15: A ranking loses nobody: the identifiers in its fronts and the rejected ones are those of the population, each as often as it
  occurs there; the rejected ones are those of the candidates that are not viable; the fronts are numbered from one and not empty,
  with a score for each member.\<close>

theorem rank_population_conserves:
  assumes "rank_population nl rk cs generation max_generations auto_admit = (rk', Inr r)"
  shows "mset (concat (map pf_candidate_ids (rr_fronts r)) @ rr_infeasible_ids r) = mset (map candidate_id cs) \<and>
    mset (rr_infeasible_ids r) = mset (map candidate_id (filter (\<lambda>c. \<not> viable c) cs)) \<and>
    map pf_rank (rr_fronts r) = map int [1..<Suc (length (rr_fronts r))] \<and>
    (\<forall>f \<in> set (rr_fronts r). pf_candidate_ids f \<noteq> [] \<and> length (pf_apd_scores f) = length (pf_candidate_ids f))"
  by (rule ranking_conserves [OF assms])

definition sample_ranker :: ranker where
  "sample_ranker =
     \<lparr>rk_archive = svd_archive_new 5 (flit (19 / 20)) 3, rk_lattice = lattice_new sample_numlib 3 2 5 3 (Fin (1 / 2)) (Fin (1 / 8)) (Fin 2),
      rk_sorter = \<lparr>tau_conf = Fin 2, epsilon_regret = 0, epsilon_novelty = 0\<rparr>\<rparr>"

lemma sample_novelty_comparable: "comparable sample_population (objectives_of sample_population (map (\<lambda>c. if viable c then Fin 1 else 0) sample_population))"
  unfolding comparable_def sample_population_def all_less_three
  by (simp add: objectives_of_def sample_candidate_def finite_objective_def zero_float64_def viable_def)

lemma sample_ranking: "\<exists>rk' r. rank_population sample_numlib sample_ranker sample_population 0 10 False = (rk', Inr r)"
proof -
  let ?objs = "objectives_of sample_population (map (\<lambda>c. if viable c then Fin 1 else 0) sample_population)"
  obtain p where p: "sort_fronts sample_numlib (rk_sorter sample_ranker) sample_population ?objs = Inr p"
    using sort_total [OF sample_novelty_comparable sample_square sample_moderate, of "rk_sorter sample_ranker"] by blast
  have n: "compute_novelty sample_numlib (rk_archive sample_ranker) (map (\<lambda>c. (residual_series c, viable c)) sample_population) =
      Inr (map (\<lambda>c. if viable c then Fin 1 else 0) sample_population)"
    by (simp add: compute_novelty_def sample_ranker_def svd_archive_new_def)
  have s: "same_lengths (map residual_series sample_population)" "sample_population \<noteq> []"
    by (simp_all add: same_lengths_def sample_population_def sample_candidate_def)
  have fr: "\<exists>rk' r. rank_fronts sample_numlib sample_ranker sample_population 0 10 False ?objs fs ids = (rk', Inr r)" for fs ids
    by (simp add: rank_fronts_def Let_def associate_and_penalize_def adapt_lattice_def sample_numlib_def)
  show ?thesis unfolding rank_population_def n using s p fr by (cases p) (simp add: Let_def)
qed

theorem rank_population_conserves_witness:
  "\<exists>rk' r. rank_population sample_numlib sample_ranker sample_population 0 10 False = (rk', Inr r) \<and>
     mset (concat (map pf_candidate_ids (rr_fronts r)) @ rr_infeasible_ids r) = mset [''worse'', ''better'', ''broken''] \<and>
     rr_infeasible_ids r = [''broken'']"
proof -
  obtain rk' r where r: "rank_population sample_numlib sample_ranker sample_population 0 10 False = (rk', Inr r)"
    using sample_ranking by blast
  have ids: "map candidate_id sample_population = [''worse'', ''better'', ''broken'']"
    "map candidate_id (filter (\<lambda>c. \<not> viable c) sample_population) = [''broken'']"
    by (simp_all add: sample_population_def sample_candidate_def viable_def)
  show ?thesis using rank_population_conserves [OF r] r unfolding ids by (intro exI conjI) auto
qed

text \<open>Whatever a ranking does, also when it raises, the archive stays within its capacity with an identifier per residual, the
  anchor rays are not moved, and no ray appears or disappears.\<close>

theorem ranker_invariant:
  assumes "archive_ok (rk_archive rk)"
  shows "archive_ok (rk_archive (fst (rank_population nl rk cs generation max_generations auto_admit))) \<and>
    same_anchors (rk_lattice rk) (rk_lattice (fst (rank_population nl rk cs generation max_generations auto_admit)))"
  using rank_population_keeps [OF assms, of nl cs generation max_generations auto_admit] by (simp add: ranker_kept_def)

theorem ranker_invariant_witness:
  "archive_ok (rk_archive (fst (rank_population sample_numlib sample_ranker sample_population 5 10 True)))"
proof -
  have "archive_ok (rk_archive sample_ranker)" by (simp add: sample_ranker_def archive_ok_def svd_archive_new_def)
  from ranker_invariant [OF this] show ?thesis by blast
qed

text \<open>Two candidates of equal score, the second with the smaller regret and otherwise equal: the second dominates the first, yet
  both are in the first front, since a candidate is compared only with those placed before it.\<close>

definition tied_population :: "candidate_fitness list" where
  "tied_population = [(sample_candidate ''first'' 1 4 True)\<lparr>return_series := []\<rparr>, (sample_candidate ''second'' 1 2 True)\<lparr>return_series := []\<rparr>]"

definition tied_objectives :: "objective list" where
  "tied_objectives = [(Fin (- 1), Fin 4, 0), (Fin (- 1), Fin 2, 0)]"

lemma nano9_small: "\<exists>e. nano9 = Fin e \<and> 0 \<le> e \<and> e \<le> 1"
  using flit_power_ten [of 9] by (auto simp: nano9_def intro: less_imp_le)

theorem front_with_dominated_member:
  "full_dominates sample_numlib \<lparr>tau_conf = Fin 1, epsilon_regret = 0, epsilon_novelty = 0\<rparr> tied_population tied_objectives 1 0 = Inr True \<and>
   sort_fronts sample_numlib \<lparr>tau_conf = Fin 1, epsilon_regret = 0, epsilon_novelty = 0\<rparr> tied_population tied_objectives = Inr ([[0, 1]], [])"
proof -
  obtain e where e: "nano9 = Fin e" "0 \<le> e" "e \<le> 1" using nano9_small by blast
  let ?so = "\<lparr>tau_conf = Fin 1, epsilon_regret = 0, epsilon_novelty = 0\<rparr>"
  have r: "Fin 2 \<le> rnd64 (4 + e)" "rnd64 (2 + e) \<le> Fin 3" "0 \<le> rnd64 e"
    using rnd64_mono [of 2 "4 + e"] rnd64_mono [of "2 + e" 3] e(2,3) by simp_all
  have "\<not> Fin 4 \<le> rnd64 (2 + e)" using float_le_trans [OF _ r(2), of "Fin 4"] by auto
  then have n: "Fin 2 \<le> Fin 4 + nano9" "\<not> Fin 4 \<le> Fin 2 + nano9" "0 \<le> 0 + nano9" unfolding e(1) using r by simp_all
  have v: "viable (tied_population ! 0)" "viable (tied_population ! 1)" "length tied_population = 2"
    by (simp_all add: tied_population_def sample_candidate_def viable_def)
  have f: "filter (\<lambda>i. viable (tied_population ! i)) [0..<length tied_population] = [0, 1]"
    "filter (\<lambda>i. \<not> viable (tied_population ! i)) [0..<length tied_population] = []" using v by (simp_all add: upt_rec)
  have "dominated_in sample_numlib ?so tied_population tied_objectives 1 [0] = Inr False"
    unfolding dominated_in_Cons using n by (simp add: tied_objectives_def)
  then have "sort_fronts sample_numlib ?so tied_population tied_objectives = Inr ([[0, 1]], [])"
    unfolding sort_fronts_def f by (simp add: tied_objectives_def)
  moreover have "\<not> Fin 4 + nano9 < Fin 2" "\<not> 0 + nano9 < 0" using n by (auto simp: less_float64_def)
  then have "full_dominates sample_numlib ?so tied_population tied_objectives 1 0 = Inr True"
    by (simp add: full_dominates_def dominates_def tied_objectives_def tied_population_def sample_candidate_def compute_dependent_dsr_variance_def Let_def minus_float64_def)
  ultimately show ?thesis by blast
qed

subsection \<open>Series of different lengths\<close>

definition uneven_population :: "candidate_fitness list" where
  "uneven_population = [sample_candidate ''worse'' 1 3 True, (sample_candidate ''better'' 2 1 True)\<lparr>return_series := [Fin 1, Fin 2, Fin 3]\<rparr>]"

definition uneven_objectives :: "objective list" where
  "uneven_objectives = [(Fin (- 1), Fin 3, Fin (- 1)), (Fin (- 2), Fin 1, Fin (- 1))]"

text \<open>The constructor of a candidate does not compare its length with the others. With return series of different lengths the sort
  raises where the full comparison, which cuts both to the shorter length, is defined.\<close>

theorem unequal_series_diverge:
  "sort_fronts sample_numlib \<lparr>tau_conf = Fin 2, epsilon_regret = 0, epsilon_novelty = 0\<rparr> uneven_population uneven_objectives = Inl (PyErr ValueError) \<and>
   (\<exists>fs. sort_ref sample_numlib \<lparr>tau_conf = Fin 2, epsilon_regret = 0, epsilon_novelty = 0\<rparr> uneven_population uneven_objectives = Inr fs)"
proof
  let ?so = "\<lparr>tau_conf = Fin 2, epsilon_regret = 0, epsilon_novelty = 0\<rparr>" and ?cs = uneven_population and ?os = uneven_objectives
  have order: "sort_key (\<lambda>i. fin_val (fst (?os ! i))) (filter (\<lambda>i. viable (?cs ! i)) [0..<length ?cs]) = [1, 0]"
    by (simp add: fin_val_def uneven_population_def uneven_objectives_def sample_candidate_def viable_def)
  obtain e where e: "nano9 = Fin e" "0 \<le> e" "e \<le> 1" using nano9_small by blast
  have "Fin 1 \<le> rnd64 (3 + e)" "Fin (- 1) \<le> rnd64 (e - 1)" using rnd64_mono [of 1 "3 + e"] rnd64_mono [of "- 1" "e - 1"] e(2) by simp_all
  then have le: "Fin 1 \<le> Fin 3 + nano9" "Fin (- 1) \<le> Fin (- 1) + nano9" "\<not> Fin 3 + nano9 < Fin 1" "\<not> Fin (- 1) + nano9 < Fin (- 1)"
    unfolding e(1) by (simp_all add: less_float64_def)
  have p: "\<not> Fin 3 < pico" "\<not> Fin 6 < pico" using flit_power_ten [of 12] by (auto simp: pico_def)
  have c: "cached sample_numlib (?cs ! 1) = ([Fin 1, Fin 2, Fin 3], Fin 6)" "cached sample_numlib (?cs ! 0) = ([Fin 1, Fin 2], Fin 3)"
    by (simp_all add: cached_def deviations_def uneven_population_def sample_candidate_def sample_numlib_def Let_def minus_float64_def zero_float64_def)
  have "dominates sample_numlib ?so (?cs ! 1) (?cs ! 0) (?os ! 1) (?os ! 0) (Some (cached sample_numlib (?cs ! 1))) (Some (cached sample_numlib (?cs ! 0))) =
      Inl (PyErr ValueError)"
    unfolding c using le(3,4) p
    by (simp add: dominates_def uneven_objectives_def uneven_population_def sample_candidate_def variance_precomputed_def dotR_def Let_def minus_float64_def zero_float64_def)
  then have "dominated_in sample_numlib ?so ?cs ?os 0 [1] = Inl (PyErr ValueError)"
    unfolding dominated_in_Cons using le(1,2) by (simp add: uneven_objectives_def)
  then show "sort_fronts sample_numlib ?so ?cs ?os = Inl (PyErr ValueError)" unfolding sort_unfold order by simp
  have "\<exists>b. full_dominates sample_numlib ?so ?cs ?os i j = Inr b" if "i \<in> {0, 1}" "j \<in> {0, 1}" for i j
    using that by (intro full_dominates_total [OF sample_square]) (auto simp: uneven_population_def sample_candidate_def moderate_def)
  then have "\<exists>gs. foldR (place_ref (full_dominates sample_numlib ?so ?cs ?os)) [] [1, 0] = Inr gs" by (intro run_total) auto
  then show "\<exists>fs. sort_ref sample_numlib ?so ?cs ?os = Inr fs" unfolding sort_ref_def order by auto
qed

end
