(* ===== verification/Selection_Props.thy ===== *)
theory Selection_Props
  imports Selection Chromosomes_Props Pareto_Sorting_Props
begin

text \<open>
  Properties of the selection engine: the cohorts of a ranking, matching without deadlock, and the whole reproduction cycle, which
  returns exactly the requested population whatever the random generators draw. The generators and the numerical library enter by
  their documented behaviour.
\<close>

section \<open>Matching\<close>

lemma foldR_upt_total:
  assumes "\<And>k s. i \<le> k \<Longrightarrow> k < j \<Longrightarrow> P k s \<Longrightarrow> \<exists>s'. f s k = Inr s' \<and> P (Suc k) s'" and "i \<le> j" and "P i s"
  shows "\<exists>s'. foldR f s [i..<j] = Inr s' \<and> P j s'"
  using assms
proof (induction "j - i" arbitrary: i s)
  case (Suc n)
  then have u: "[i..<j] = i # [Suc i..<j]" by (simp add: upt_conv_Cons)
  have "i < j" using Suc.hyps(2) by simp
  then obtain s' where s': "f s i = Inr s'" "P (Suc i) s'" using Suc.prems(1) [of i s] Suc.prems(3) by auto
  have "\<exists>s''. foldR f s' [Suc i..<j] = Inr s'' \<and> P j s''" using Suc.hyps(2) Suc.prems s'(2) by (intro Suc.hyps(1)) auto
  then show ?case using s'(1) u by simp
qed auto

lemma foldR_total:
  assumes "\<And>x s. x \<in> set xs \<Longrightarrow> P s \<Longrightarrow> \<exists>s'. f s x = Inr s' \<and> P s'" and "P s"
  shows "\<exists>s'. foldR f s xs = Inr s' \<and> P s'"
  using assms
proof (induction xs arbitrary: s)
  case (Cons x xs)
  obtain s' where "f s x = Inr s'" "P s'" using Cons.prems(1) [of x s] Cons.prems(2) by auto
  then show ?case using Cons.IH [of s'] Cons.prems(1) by simp
qed simp

text \<open>What the constructor of a configuration guarantees to the matcher.\<close>

lemma config_newD:
  assumes "hypergamic_config_new c = Inr c'"
  shows "c' = c" "0 \<le> orthogonality_threshold c" "orthogonality_threshold c \<le> Fin 1" "1 \<le> max_mating_attempts c" "0 < relaxation_factor c"
    "relaxation_factor c \<le> Fin 1" "1 \<le> tournament_size c" "0 \<le> elitism_count c" "isfinite (crossover_distribution_index c)"
    "0 < crossover_distribution_index c" "flit (5 / 100) \<le> alpha_ratio c" "alpha_ratio c \<le> flit (90 / 100)"
  using assms by (auto simp: hypergamic_config_new_def split: if_splits)

text \<open>The generator draws the requested number of indices within the range.\<close>

definition tournament_documented :: "selection_rng \<Rightarrow> bool" where
  "tournament_documented rng \<longleftrightarrow> (\<forall>k n s. s \<le> n \<longrightarrow> length (tournament rng k n s) = s \<and> distinct (tournament rng k n s) \<and> set (tournament rng k n s) \<subseteq> {..<n})"

lemma orthogonality_decision_total:
  assumes "hypergamic_config_new cfg = Inr cfg" and "pow_documented nl"
  shows "\<exists>b rho. orthogonality_decision nl cfg level r = Inr (b, rho)"
proof -
  have "0 < x \<Longrightarrow> x \<le> Fin 1 \<Longrightarrow> 0 \<le> n \<Longrightarrow> \<exists>y. libm_pow nl x n = Inr y" for x n using assms(2) unfolding pow_documented_def by blast
  from this [OF config_newD(5,6) [OF assms(1)], of "max 0 level"]
  obtain y where "libm_pow nl (relaxation_factor cfg) (max 0 level) = Inr y" by auto
  then show ?thesis by (simp add: orthogonality_decision_def Let_def)
qed

lemma orthogonality_decision_strict:
  assumes "orthogonality_decision nl cfg 0 r = Inr (True, rho)" and "pow_documented nl"
  shows "orthogonality_threshold cfg * Fin 1 \<le> Fin 1 - \<bar>rho\<bar>"
  using assms by (auto simp: orthogonality_decision_def pow_documented_def Let_def)

lemma gate_evaluate_total:
  assumes "hypergamic_config_new cfg = Inr cfg" and "pow_documented nl"
  shows "\<exists>b rho. gate_evaluate nl cfg a c level = Inr (b, rho)"
proof -
  have "\<exists>y. gate_evaluate nl cfg a c level = Inr y"
    using orthogonality_decision_total [OF assms] by (auto simp: gate_evaluate_def Let_def dotR_def deviations_def)
  then show ?thesis by auto
qed

lemma evaluate_normalized_total:
  assumes "hypergamic_config_new cfg = Inr cfg" and "pow_documented nl" and "length u = length v"
  shows "\<exists>b rho. evaluate_normalized nl cfg u v level = Inr (b, rho)"
proof -
  have "\<exists>y. evaluate_normalized nl cfg u v level = Inr y"
    using orthogonality_decision_total [OF assms(1,2)] assms(3) by (auto simp: evaluate_normalized_def dotR_def)
  then show ?thesis by auto
qed

lemma evaluate_normalized_strict:
  assumes "evaluate_normalized nl cfg u v 0 = Inr (True, rho)" and "pow_documented nl"
  shows "orthogonality_threshold cfg * Fin 1 \<le> Fin 1 - \<bar>rho\<bar>"
  using assms orthogonality_decision_strict by (auto simp: evaluate_normalized_def bindR_Inr_iff split: if_splits)

text \<open>The cache holds, for each candidate, a vector as long as its residuals.\<close>

lemma unit_residual_length: "length (unit_residual nl c) = length (residual_series c)"
  by (simp add: unit_residual_def deviations_def Let_def)

lemma unit_res_cache_get:
  assumes "\<forall>c \<in> set cs. length (residual_series c) = n" and "c \<in> set cs"
  shows "\<exists>u. cached_residual (unit_res_cache nl cs) (candidate_id c) = Inr u \<and> length u = n"
proof -
  let ?f = "\<lambda>d c. if dict_has d (candidate_id c) then d else dict_set d (candidate_id c) (unit_residual nl c)"
  have "(\<forall>c \<in> set cs. \<exists>u. dict_get (foldl ?f d cs) (candidate_id c) = Some u) \<and>
      (\<forall>k. dict_has d k \<longrightarrow> dict_get (foldl ?f d cs) k = dict_get d k) \<and>
      (\<forall>k u. dict_get (foldl ?f d cs) k = Some u \<longrightarrow> length u = n)"
    if "\<forall>k u. dict_get d k = Some u \<longrightarrow> length u = n" for d
    using assms(1) that
  proof (induction cs arbitrary: d)
    case (Cons c cs)
    let ?d = "?f d c"
    have d: "\<forall>k u. dict_get ?d k = Some u \<longrightarrow> length u = n" using Cons.prems by (auto simp: unit_residual_length)
    have has: "dict_has ?d (candidate_id c)" by simp
    obtain u where "dict_get ?d (candidate_id c) = Some u" using has by (auto simp: dict_has_iff)
    moreover have "\<forall>k. dict_has d k \<longrightarrow> dict_has ?d k \<and> dict_get ?d k = dict_get d k" by (auto simp: dict_has_iff)
    ultimately show ?case using Cons.IH [OF _ d] Cons.prems(1) has by auto
  qed simp
  from this [of "[]"] show ?thesis using assms(2) by (fastforce simp: unit_res_cache_def cached_residual_def)
qed

lemma best_index_total:
  assumes "js \<noteq> []" and "set js \<subseteq> {..<n}"
  shows "\<exists>i. best_index asps js = Inr i \<and> i < n"
proof -
  have "foldl (\<lambda>b j. if dsr (asps ! j) > dsr (asps ! b) then j else b) i is < n" if "i < n" "set is \<subseteq> {..<n}" for i "is"
    using that by (induction "is" arbitrary: i) auto
  then show ?thesis using assms by (cases js) auto
qed

text \<open>A pair the matcher may return for an alpha.\<close>

definition pair_ok :: "matcher \<Rightarrow> candidate_fitness list \<Rightarrow> candidate_fitness \<Rightarrow> mating_pair \<Rightarrow> bool" where
  "pair_ok m asps alpha p \<longleftrightarrow>
     alpha_id p = candidate_id alpha \<and> aspirant_id p \<in> candidate_id ` set asps \<and>
     (is_relaxed p \<longleftrightarrow> relaxation_level p > 0) \<and> 0 \<le> relaxation_level p \<and> relaxation_level p \<le> 2 * max_mating_attempts (m_config m) \<and>
     (\<not> is_relaxed p \<longrightarrow> orthogonality_threshold (m_gate m) * Fin 1 \<le> Fin 1 - \<bar>residual_correlation p\<bar>)"

lemma search_partner_ok:
  assumes "hypergamic_config_new (m_config m) = Inr (m_config m)" "hypergamic_config_new (m_gate m) = Inr (m_gate m)"
    and "pow_documented nl" and "tournament_documented rng" and "asps \<noteq> []"
    and "\<forall>c \<in> set asps. \<exists>u. cached_residual cache (candidate_id c) = Inr u \<and> length u = length u_alpha"
    and "0 \<le> attempts" and "attempts + int n = 2 * max_mating_attempts (m_config m)"
  shows "\<exists>found attempts' draw'. search_partner nl m rng cache alpha u_alpha asps n attempts draw = Inr (found, attempts', draw') \<and>
    attempts \<le> attempts' \<and> attempts' \<le> 2 * max_mating_attempts (m_config m) \<and> (\<forall>p. found = Some p \<longrightarrow> pair_ok m asps alpha p)"
  using assms(7,8)
proof (induction n arbitrary: attempts draw)
  case 0
  then show ?case by simp
next
  case (Suc n)
  let ?k = "min (nat (tournament_size (m_config m))) (length asps)" and ?l = "relax_level (m_config m) attempts"
  let ?js = "tournament rng draw (length asps) ?k"
  have "?js \<noteq> []" "set ?js \<subseteq> {..<length asps}"
    using assms(4,5) config_newD(7) [OF assms(1)] by (auto simp: tournament_documented_def simp flip: length_greater_0_conv)
  then obtain i where i: "best_index asps ?js = Inr i" "i < length asps" using best_index_total by blast
  then have mem: "asps ! i \<in> set asps" by simp
  obtain u where u: "cached_residual cache (candidate_id (asps ! i)) = Inr u" "length u = length u_alpha" using assms(6) mem by blast
  obtain b rho where e: "evaluate_normalized nl (m_gate m) u_alpha u ?l = Inr (b, rho)"
    using evaluate_normalized_total [OF assms(2,3)] u(2) by metis
  have lev: "0 \<le> ?l" "?l \<le> 2 * max_mating_attempts (m_config m)"
    using Suc.prems config_newD(4) [OF assms(1)] by (auto simp: relax_level_def)
  show ?case
  proof (cases b)
    case True
    have "pair_ok m asps alpha \<lparr>alpha_id = candidate_id alpha, aspirant_id = candidate_id (asps ! i), residual_correlation = rho,
        is_relaxed = ?l > 0, relaxation_level = ?l\<rparr>"
      using lev mem evaluate_normalized_strict [OF _ assms(3)] e True by (auto simp: pair_ok_def)
    then show ?thesis using i(1) u(1) e True Suc.prems by (simp add: Let_def)
  next
    case False
    obtain found attempts' draw' where r: "search_partner nl m rng cache alpha u_alpha asps n (attempts + 1) (draw + 1) = Inr (found, attempts', draw')"
      "attempts + 1 \<le> attempts'" "attempts' \<le> 2 * max_mating_attempts (m_config m)" "\<forall>p. found = Some p \<longrightarrow> pair_ok m asps alpha p"
      using Suc.IH [of "attempts + 1" "draw + 1"] Suc.prems by auto
    then show ?thesis using i(1) u(1) e False by (simp add: Let_def)
  qed
qed

lemma search_partner_exhausted:
  "search_partner nl m rng cache alpha u_alpha asps n attempts draw = Inr (None, attempts', draw') \<Longrightarrow> attempts' = attempts + int n"
proof (induction n arbitrary: attempts draw)
  case (Suc n)
  then obtain b rho where "search_partner nl m rng cache alpha u_alpha asps n (attempts + 1) (draw + 1) = Inr (None, attempts', draw')"
    by (auto simp: bindR_Inr_iff Let_def split: if_splits)
  from Suc.IH [OF this] show ?case by simp
qed simp

lemma fallback_ok:
  assumes "hypergamic_config_new (m_config m) = Inr (m_config m)" "hypergamic_config_new (m_gate m) = Inr (m_gate m)" and "pow_documented nl"
    and "asps \<noteq> []" and "\<forall>cm. chromosome_map = Some cm \<longrightarrow> (\<forall>c \<in> snd ` set cm. \<exists>u. encode nl GENE_REGISTRY c = Inr u)"
    and "1 \<le> attempts" and "attempts \<le> 2 * max_mating_attempts (m_config m)"
  shows "\<exists>p. fallback_pair nl m chromosome_map alpha asps attempts = Inr p \<and> is_relaxed p \<and> pair_ok m asps alpha p"
proof -
  let ?P = "\<lambda>s :: float64 \<times> candidate_fitness \<times> float64. fst (snd s) \<in> set asps"
  have enc: "\<exists>u. encode nl GENE_REGISTRY c = Inr u" if "chromosome_map = Some cm" "dict_get cm k = Some c" for cm k c
    using assms(5) that map_of_SomeD [OF that(2)] by force
  have hd: "?P (x, hd asps, y)" for x y using assms(4) by simp
  have ev: "\<exists>b rho. gate_evaluate nl (m_gate m) alpha c 0 = Inr (b, rho)" for c by (rule gate_evaluate_total [OF assms(2,3)])
  have corr: "\<exists>s'. least_correlated_step nl m alpha s c = Inr s' \<and> ?P s'" if "c \<in> set asps" "?P s" for c s
    using ev [of c] that by (cases s) (auto simp: least_correlated_step_def)
  have dist: "\<exists>s'. distant_step nl m cm alpha u s c = Inr s' \<and> ?P s'" if cm: "chromosome_map = Some cm" "c \<in> set asps" "?P s" for cm u c s
  proof (cases "dict_get cm (candidate_id c)")
    case (Some ch)
    then obtain v where "encode nl GENE_REGISTRY ch = Inr v" using enc [OF cm(1)] by blast
    then show ?thesis using Some ev [of c] cm by (cases s) (auto simp: distant_step_def Let_def)
  qed (use cm in \<open>simp add: distant_step_def\<close>)
  have "\<exists>s. (case Option.bind chromosome_map (\<lambda>cm. map_option (Pair cm) (dict_get cm (candidate_id alpha))) of
              Some (cm, chrom) \<Rightarrow>
                bindR (encode nl GENE_REGISTRY chrom) (\<lambda>u_alpha.
                  foldR (distant_step nl m cm alpha u_alpha) (Fin (- 1), hd asps, Fin 1) asps)
            | None \<Rightarrow> foldR (least_correlated_step nl m alpha) (Fin 2, hd asps, Fin 1) asps) = Inr s \<and> ?P s"
  proof (cases "Option.bind chromosome_map (\<lambda>cm. map_option (Pair cm) (dict_get cm (candidate_id alpha)))")
    case None
    then show ?thesis using foldR_total [of asps ?P, OF corr hd] by simp
  next
    case (Some p)
    then obtain cm ch where c: "p = (cm, ch)" "chromosome_map = Some cm" "dict_get cm (candidate_id alpha) = Some ch"
      by (auto simp: bind_eq_Some_conv)
    obtain u where u: "encode nl GENE_REGISTRY ch = Inr u" using enc [OF c(2,3)] by blast
    show ?thesis using Some c(1) u foldR_total [of asps ?P, OF dist [OF c(2)] hd] by simp
  qed
  then show ?thesis using assms(6,7) by (auto simp: fallback_pair_def pair_ok_def)
qed

text \<open>The accumulators after \<open>k\<close> pairs.\<close>

definition matched :: "matcher \<Rightarrow> candidate_fitness list \<Rightarrow> candidate_fitness list \<Rightarrow> nat \<Rightarrow> match_acc \<Rightarrow> bool" where
  "matched m alphas asps k acc \<longleftrightarrow>
     (case acc of (pairs, rejections, relaxations, draw) \<Rightarrow>
        length pairs = k \<and> (\<forall>i < k. pair_ok m asps (alphas ! (i mod length alphas)) (pairs ! i)) \<and>
        0 \<le> rejections \<and> rejections \<le> 2 * max_mating_attempts (m_config m) * int k \<and> relaxations = int (length (filter is_relaxed pairs)))"

lemma match_alpha_ok:
  assumes "hypergamic_config_new (m_config m) = Inr (m_config m)" "hypergamic_config_new (m_gate m) = Inr (m_gate m)"
    and "pow_documented nl" and "tournament_documented rng" and "alphas \<noteq> []" and "asps \<noteq> []"
    and "\<forall>cm. chromosome_map = Some cm \<longrightarrow> (\<forall>c \<in> snd ` set cm. \<exists>u. encode nl GENE_REGISTRY c = Inr u)"
    and "\<forall>c \<in> set (alphas @ asps). length (residual_series c) = n" and "matched m alphas asps k acc"
  shows "\<exists>acc'. match_alpha nl m rng chromosome_map (unit_res_cache nl (alphas @ asps)) alphas asps acc k = Inr acc' \<and> matched m alphas asps (Suc k) acc'"
proof -
  let ?cache = "unit_res_cache nl (alphas @ asps)" and ?alpha = "alphas ! (k mod length alphas)" and ?max = "max_mating_attempts (m_config m)"
  obtain pairs rejections relaxations draw where acc: "acc = (pairs, rejections, relaxations, draw)" by (metis prod_cases4)
  have mem: "?alpha \<in> set (alphas @ asps)" using assms(5) by simp
  obtain u where u: "cached_residual ?cache (candidate_id ?alpha) = Inr u" "length u = n" using unit_res_cache_get [OF assms(8) mem] by blast
  have asp: "\<forall>c \<in> set asps. \<exists>v. cached_residual ?cache (candidate_id c) = Inr v \<and> length v = length u"
    using unit_res_cache_get [OF assms(8)] u(2) by simp
  have pos: "1 \<le> ?max" by (rule config_newD(4) [OF assms(1)])
  obtain found attempts draw' where s: "search_partner nl m rng ?cache ?alpha u asps (nat (2 * ?max)) 0 draw = Inr (found, attempts, draw')"
    "0 \<le> attempts" "attempts \<le> 2 * ?max" "\<forall>p. found = Some p \<longrightarrow> pair_ok m asps ?alpha p"
    using search_partner_ok [OF assms(1-4,6) asp, of 0 "nat (2 * ?max)" ?alpha draw] pos by auto
  have "\<exists>p. (case found of Some p \<Rightarrow> Inr p | None \<Rightarrow> fallback_pair nl m chromosome_map ?alpha asps attempts) = Inr p \<and> pair_ok m asps ?alpha p"
  proof (cases found)
    case None
    then have "attempts = 2 * ?max" using search_partner_exhausted s(1) pos by fastforce
    then show ?thesis using fallback_ok [OF assms(1,2,3,6,7), of attempts ?alpha] None pos by auto
  qed (use s(4) in simp)
  then obtain p where p: "(case found of Some p \<Rightarrow> Inr p | None \<Rightarrow> fallback_pair nl m chromosome_map ?alpha asps attempts) = Inr p" "pair_ok m asps ?alpha p"
    by blast
  have "matched m alphas asps (Suc k) (pairs @ [p], rejections + attempts, (if is_relaxed p then relaxations + 1 else relaxations), draw')"
    using assms(9) p(2) s(2,3) by (auto simp: matched_def acc nth_append less_Suc_eq algebra_simps)
  then show ?thesis using acc u(1) s(1) p(1) by (auto simp: match_alpha_def)
qed

lemma match_pairs_ok:
  assumes "hypergamic_config_new (m_config m) = Inr (m_config m)" "hypergamic_config_new (m_gate m) = Inr (m_gate m)"
    and "pow_documented nl" and "tournament_documented rng" and "alphas \<noteq> []" and "asps \<noteq> []"
    and "\<forall>cm. chromosome_map = Some cm \<longrightarrow> (\<forall>c \<in> snd ` set cm. \<exists>u. encode nl GENE_REGISTRY c = Inr u)"
    and "\<forall>c \<in> set (alphas @ asps). length (residual_series c) = n" and "0 < target"
  shows "\<exists>m' pairs. match_pairs nl m rng alphas asps target chromosome_map = (m', Inr pairs) \<and> length pairs = nat target \<and>
    (\<forall>i < nat target. pair_ok m asps (alphas ! (i mod length alphas)) (pairs ! i)) \<and>
    0 \<le> last_rejection_count m' \<and> last_rejection_count m' \<le> 2 * max_mating_attempts (m_config m) * target \<and>
    last_relaxation_count m' = int (length (filter is_relaxed pairs))"
proof -
  have "\<exists>acc. foldR (match_alpha nl m rng chromosome_map (unit_res_cache nl (alphas @ asps)) alphas asps) ([], 0, 0, 0) [0..<nat target] = Inr acc \<and>
      matched m alphas asps (nat target) acc"
    using match_alpha_ok [OF assms(1-8)] by (intro foldR_upt_total) (auto simp: matched_def)
  then show ?thesis using assms(5,6,9) by (auto simp: match_pairs_def matched_def)
qed

section \<open>Cohorts\<close>

text \<open>A ranking of a population: its fronts hold the viable candidates, the others are rejected.\<close>

definition ranked :: "candidate_fitness list \<Rightarrow> ranking_result \<Rightarrow> bool" where
  "ranked cs r \<longleftrightarrow>
     mset (concat (map pf_candidate_ids (rr_fronts r))) = mset (map candidate_id (filter viable cs)) \<and>
     set (rr_infeasible_ids r) = candidate_id ` set (filter (\<lambda>c. \<not> viable c) cs) \<and>
     (\<forall>f \<in> set (rr_fronts r). pf_candidate_ids f \<noteq> []) \<and> map pf_rank (rr_fronts r) = map int [1..<Suc (length (rr_fronts r))]"

lemma distinct_ids_inj: "distinct (map candidate_id cs) \<Longrightarrow> inj_on candidate_id (set cs)"
  by (simp add: distinct_map)

lemma cand_by_id_eq:
  assumes "distinct (map candidate_id cs)"
  shows "cand_by_id cs = map (\<lambda>c. (candidate_id c, c)) (filter is_feasible cs)"
proof -
  have "distinct (map candidate_id (filter is_feasible cs))" using assms by (simp add: distinct_map_filter)
  then show ?thesis unfolding cand_by_id_def by (subst foldl_dict_set) (simp_all add: comp_def)
qed

lemma viable_cands_eq:
  assumes "distinct (map candidate_id cs)" and "ranked cs r"
  shows "viable_cands cs r = map (\<lambda>c. (candidate_id c, c)) (filter viable cs)"
proof -
  have "candidate_id c \<notin> set (rr_infeasible_ids r) \<and> dsr c \<ge> Fin (1 / 2) \<and> is_feasible c \<longleftrightarrow> viable c" if "c \<in> set cs" for c
    using assms(2) that inj_onD [OF distinct_ids_inj [OF assms(1)]] by (auto simp: ranked_def viable_def)
  then have "filter (\<lambda>c. is_feasible c \<and> candidate_id c \<notin> set (rr_infeasible_ids r) \<and> dsr c \<ge> Fin (1 / 2)) cs = filter viable cs"
    by (intro filter_cong) auto
  then show ?thesis unfolding viable_cands_def cand_by_id_eq [OF assms(1)] by (simp add: filter_map comp_def)
qed

lemma lookup_total:
  assumes "distinct (map candidate_id vs)" and "set ids \<subseteq> candidate_id ` set vs"
  shows "\<exists>xs. mapR (lookup_cand (map (\<lambda>c. (candidate_id c, c)) vs)) ids = Inr xs \<and> map candidate_id xs = ids \<and> set xs \<subseteq> set vs"
proof -
  have "\<forall>cid \<in> set ids. \<exists>c. lookup_cand (map (\<lambda>c. (candidate_id c, c)) vs) cid = Inr c \<and> candidate_id c = cid \<and> c \<in> set vs"
  proof
    fix cid assume "cid \<in> set ids"
    then obtain c where c: "c \<in> set vs" "cid = candidate_id c" using assms(2) by blast
    have "dict_get (map (\<lambda>c. (candidate_id c, c)) vs) cid = Some c" using c assms(1) by (intro map_of_is_SomeI) (auto simp: comp_def)
    then show "\<exists>c. lookup_cand (map (\<lambda>c. (candidate_id c, c)) vs) cid = Inr c \<and> candidate_id c = cid \<and> c \<in> set vs"
      using c by (simp add: lookup_cand_def)
  qed
  from mapR_total [OF this] obtain xs where xs: "mapR (lookup_cand (map (\<lambda>c. (candidate_id c, c)) vs)) ids = Inr xs"
    "list_all2 (\<lambda>cid c. candidate_id c = cid \<and> c \<in> set vs) ids xs" by blast
  have "map candidate_id xs = ids \<and> set xs \<subseteq> set vs" using xs(2) by (induction rule: list_all2_induct) auto
  then show ?thesis using xs(1) by blast
qed

lemma alpha_ids_ok:
  assumes "distinct (concat (map pf_candidate_ids fronts))" and "fronts \<noteq> []" and "\<forall>f \<in> set fronts. pf_candidate_ids f \<noteq> []"
    and "set (concat (map pf_candidate_ids fronts)) \<subseteq> fst ` set vc"
  shows "distinct (alpha_ids_of vc fronts target) \<and> set (alpha_ids_of vc fronts target) \<subseteq> fst ` set vc \<and>
    set (pf_candidate_ids (hd fronts)) \<subseteq> set (alpha_ids_of vc fronts target) \<and> alpha_ids_of vc fronts target \<noteq> []"
proof -
  obtain f fs where f: "fronts = f # fs" using assms(2) by (cases fronts) auto
  have f1: "filter (dict_has vc) (pf_candidate_ids (hd fronts)) = pf_candidate_ids f" using assms(4) f by (auto simp: filter_id_conv)
  have second: "distinct (map fst (take k (sort_key h (filter P (zip (pf_candidate_ids (fronts ! 1)) a)))))" if "length fronts > 1" for k h P and a :: "float64 list"
  proof -
    have "fronts ! 1 \<in> set fronts" using that by simp
    then have "distinct (pf_candidate_ids (fronts ! 1))" using assms(1) by (auto simp: distinct_concat_iff)
    then have "distinct (map fst (zip (pf_candidate_ids (fronts ! 1)) a))" by (simp add: map_fst_zip_take)
    then have "distinct (map fst (filter P (zip (pf_candidate_ids (fronts ! 1)) a)))" by (rule distinct_map_filter)
    then have "distinct (map fst (sort_key h (filter P (zip (pf_candidate_ids (fronts ! 1)) a))))" by (simp add: distinct_map)
    then show ?thesis by (simp add: distinct_take flip: take_map)
  qed
  have d: "distinct (pf_candidate_ids f)" "pf_candidate_ids f \<noteq> []" using assms(1,3) f by auto
  have sub: "set (pf_candidate_ids f) \<subseteq> fst ` set vc" using assms(4) f by simp
  show ?thesis using second d sub unfolding alpha_ids_of_def f1 Let_def
    by (auto simp: f dest!: in_set_takeD)
qed

lemma target_alpha_total:
  assumes "hypergamic_config_new cfg = Inr cfg" and "n < 2 ^ 53"
  shows "\<exists>k. ceil_int (alpha_ratio cfg * float_of_int (int n)) = Inr k"
proof -
  have "alpha_ratio cfg \<le> Fin 1" using float_le_trans [OF config_newD(12) [OF assms(1)]] rnd64_mono [of "90 / 100" 1] by simp
  moreover have "0 \<le> alpha_ratio cfg" using float_le_trans [OF rnd64_nonneg config_newD(11) [OF assms(1)]] by simp
  ultimately obtain a where a: "alpha_ratio cfg = Fin a" "0 \<le> a" "a \<le> 1" by (cases "alpha_ratio cfg") (auto simp: zero_float64_def)
  have n: "float_of_int (int n) = Fin (of_nat n)" "rnd64 (of_nat n) = Fin (of_nat n)"
    using assms(2) rnd64_of_int [of "int n"] by (simp_all add: float_of_int_def)
  have "a * of_nat n \<le> of_nat n" using a by (simp add: mult_left_le_one_le)
  from rnd64_mono [OF this] have "rnd64 (a * of_nat n) \<le> Fin (of_nat n)" using n by simp
  moreover have "0 \<le> rnd64 (a * of_nat n)" using a by simp
  ultimately obtain b where "rnd64 (a * of_nat n) = Fin b" by (cases "rnd64 (a * of_nat n)") auto
  then show ?thesis using a n by simp
qed

lemma stratify_ok:
  assumes "hypergamic_config_new cfg = Inr cfg" and "distinct (map candidate_id cs)" and "ranked cs r"
    and "filter viable cs \<noteq> []" and "length cs < 2 ^ 53"
  shows "\<exists>alphas asps. stratify cfg cs r = Inr (alphas, asps) \<and> alphas \<noteq> [] \<and> asps \<noteq> [] \<and>
    set (pf_candidate_ids (hd (rr_fronts r))) \<subseteq> candidate_id ` set alphas \<and>
    (mset (alphas @ asps) = mset (filter viable cs) \<or> asps = alphas \<and> mset alphas = mset (filter viable cs))"
proof -
  let ?vs = "filter viable cs" and ?fs = "rr_fronts r"
  let ?vc = "map (\<lambda>c. (candidate_id c, c)) ?vs"
  have dv: "distinct (map candidate_id ?vs)" using assms(2) by (rule distinct_map_filter)
  have "length ?vs < 2 ^ 53" using length_filter_le [of viable cs] assms(5) by linarith
  then obtain k where k: "ceil_int (alpha_ratio cfg * float_of_int (int (length ?vc))) = Inr k"
    using target_alpha_total [OF assms(1)] by auto
  have m: "mset (concat (map pf_candidate_ids ?fs)) = mset (map candidate_id ?vs)" using assms(3) by (simp add: ranked_def)
  have fs: "?fs \<noteq> []" "distinct (concat (map pf_candidate_ids ?fs))" "set (concat (map pf_candidate_ids ?fs)) \<subseteq> fst ` set ?vc"
    using m assms(4) mset_eq_imp_distinct_iff [OF m] dv mset_eq_setD [OF m] by (auto simp: image_image)
  define ids where "ids = alpha_ids_of ?vc ?fs (max 1 k)"
  have a: "distinct ids" "set ids \<subseteq> candidate_id ` set ?vs" "set (pf_candidate_ids (hd ?fs)) \<subseteq> set ids" "ids \<noteq> []"
    using alpha_ids_ok [OF fs(2,1) _ fs(3), of "max 1 k"] assms(3) unfolding ids_def ranked_def by (auto simp: image_image)
  define others where "others = filter (\<lambda>cid. cid \<notin> set ids) (map candidate_id ?vs)"
  obtain alphas where al: "mapR (lookup_cand ?vc) ids = Inr alphas" "map candidate_id alphas = ids" "set alphas \<subseteq> set ?vs"
    using lookup_total [OF dv a(2)] by blast
  have "set others \<subseteq> candidate_id ` set ?vs" by (auto simp: others_def)
  then obtain rest where re: "mapR (lookup_cand ?vc) others = Inr rest" "map candidate_id rest = others" "set rest \<subseteq> set ?vs"
    using lookup_total [OF dv] by blast
  have str: "stratify cfg cs r = Inr (alphas, if others = [] then alphas else rest)"
    using assms(4) k fs(1) al(1) re(1)
    by (simp add: stratify_def viable_cands_eq [OF assms(2,3)] Let_def ids_def others_def comp_def)
  have "distinct (map candidate_id (alphas @ rest))" using a(1) dv by (auto simp: al(2) re(2) others_def)
  then have "distinct (alphas @ rest)" by (simp only: distinct_map)
  moreover have "candidate_id ` set (alphas @ rest) = candidate_id ` set ?vs"
    using a(2) by (auto simp: image_Un simp flip: set_map al(2) re(2)) (auto simp: al(2) re(2) others_def)
  then have "set (alphas @ rest) = set ?vs" using al(3) re(3) distinct_ids_inj [OF dv]
    by (metis inj_on_image_eq_iff Un_least order_refl set_append)
  moreover have "distinct ?vs" using dv by (simp only: distinct_map)
  ultimately have mm: "mset (alphas @ rest) = mset ?vs" using set_eq_iff_mset_eq_distinct by blast
  have ne: "alphas \<noteq> []" "others = [] \<longleftrightarrow> rest = []" using al(2) a(4) re(2) by auto
  have sub: "set (pf_candidate_ids (hd ?fs)) \<subseteq> candidate_id ` set alphas" using a(3) unfolding al(2) [symmetric] by simp
  show ?thesis using str ne sub mm by (cases "others = []") auto
qed

section \<open>Crossover\<close>

definition bounded :: "nat \<Rightarrow> float64 \<Rightarrow> bool" where
  "bounded k x \<longleftrightarrow> (\<exists>a. x = Fin a \<and> \<bar>a\<bar> \<le> 2 ^ k)"

lemma bounded_rnd: "\<bar>a\<bar> \<le> 2 ^ k \<Longrightarrow> k \<le> 52 \<Longrightarrow> bounded k (rnd64 a)"
proof -
  assume a: "\<bar>a\<bar> \<le> 2 ^ k" "k \<le> 52"
  have "(2::int) ^ k < 2 ^ 53" using a(2) by (intro power_strict_increasing) auto
  then have "rnd64 (2 ^ k) = Fin (2 ^ k)" "rnd64 (- (2 ^ k)) = Fin (- (2 ^ k))" using rnd64_of_int [of "2 ^ k"] rnd64_of_int [of "- (2 ^ k)"] by simp_all
  moreover have "- (2 ^ k) \<le> a" "a \<le> 2 ^ k" using a(1) by (simp_all add: abs_le_iff)
  ultimately have "Fin (- (2 ^ k)) \<le> rnd64 a" "rnd64 a \<le> Fin (2 ^ k)" using rnd64_mono by metis+
  then show "bounded k (rnd64 a)" by (cases "rnd64 a") (auto simp: bounded_def abs_le_iff)
qed

lemma bounded_add: "bounded k x \<Longrightarrow> bounded k y \<Longrightarrow> k < 52 \<Longrightarrow> bounded (Suc k) (x + y)"
proof -
  assume "bounded k x" "bounded k y" "k < 52"
  then obtain a b where ab: "x = Fin a" "y = Fin b" "\<bar>a\<bar> \<le> 2 ^ k" "\<bar>b\<bar> \<le> 2 ^ k" by (auto simp: bounded_def)
  then have "\<bar>a + b\<bar> \<le> 2 ^ Suc k" using abs_triangle_ineq [of a b] by simp
  then show "bounded (Suc k) (x + y)" using bounded_rnd [of "a + b" "Suc k"] ab(1,2) \<open>k < 52\<close> by simp
qed

lemma bounded_diff: "bounded k x \<Longrightarrow> bounded k y \<Longrightarrow> k < 52 \<Longrightarrow> bounded (Suc k) (x - y)"
proof -
  assume "bounded k x" "bounded k y" "k < 52"
  then obtain a b where ab: "x = Fin a" "y = Fin b" "\<bar>a\<bar> \<le> 2 ^ k" "\<bar>b\<bar> \<le> 2 ^ k" by (auto simp: bounded_def)
  then have "\<bar>a - b\<bar> \<le> 2 ^ Suc k" using abs_triangle_ineq4 [of a b] by simp
  then show "bounded (Suc k) (x - y)" using bounded_rnd [of "a - b" "Suc k"] ab(1,2) \<open>k < 52\<close> by (simp add: minus_float64_def)
qed

lemma bounded_mult: "bounded k x \<Longrightarrow> bounded l y \<Longrightarrow> k + l \<le> 52 \<Longrightarrow> bounded (k + l) (x * y)"
proof -
  assume "bounded k x" "bounded l y" "k + l \<le> 52"
  then obtain a b where ab: "x = Fin a" "y = Fin b" "\<bar>a\<bar> \<le> 2 ^ k" "\<bar>b\<bar> \<le> 2 ^ l" by (auto simp: bounded_def)
  then have "\<bar>a * b\<bar> \<le> 2 ^ (k + l)" unfolding abs_mult power_add by (intro mult_mono) auto
  then show "bounded (k + l) (x * y)" using bounded_rnd [of "a * b" "k + l"] ab(1,2) \<open>k + l \<le> 52\<close> by simp
qed

lemma unit_bounded: "0 \<le> u \<Longrightarrow> u \<le> Fin 1 \<Longrightarrow> bounded 0 u"
  by (cases u) (auto simp: bounded_def zero_float64_def)

text \<open>The generator draws from the open unit interval, away from its ends, one number per gene.\<close>

definition uniform_documented :: "selection_rng \<Rightarrow> bool" where
  "uniform_documented rng \<longleftrightarrow>
     (\<forall>k. length (spreads rng k) = 20 \<and> length (coins rng k) = 20 \<and>
       (\<forall>r \<in> set (spreads rng k). flit (1 / 10 ^ 7) \<le> r \<and> r \<le> Fin 1 - flit (1 / 10 ^ 7)))"

lemma rnd64_between: "rnd64 l = Fin l \<Longrightarrow> rnd64 h = Fin h \<Longrightarrow> l \<le> a \<Longrightarrow> a \<le> h \<Longrightarrow> \<exists>b. rnd64 a = Fin b \<and> l \<le> b \<and> b \<le> h"
  using rnd64_mono [of l a] rnd64_mono [of a h] by (cases "rnd64 a") auto

lemma spread_range:
  assumes "flit (1 / 10 ^ 7) \<le> r" and "r \<le> Fin 1 - flit (1 / 10 ^ 7)"
  shows "\<exists>x. r = Fin x \<and> 1 / 2 ^ 24 \<le> x \<and> x \<le> 1 - 1 / 2 ^ 24"
proof -
  have d: "rnd64 (1 / 2 ^ 24) = Fin (1 / 2 ^ 24)" "rnd64 (1 - 1 / 2 ^ 24) = Fin (1 - 1 / 2 ^ 24)"
    using rnd64_dyadic [of 1 "- 24"] rnd64_dyadic [of "2 ^ 24 - 1" "- 24"] by (simp_all add: two_pow_def)
  have "(1::rat) / 2 ^ 24 \<le> 1 / 10 ^ 7" "(1::rat) / 10 ^ 7 \<le> 1" by (simp_all add: field_simps)
  from rnd64_between [OF d(1) rnd64_1 this] obtain e where e: "flit (1 / 10 ^ 7) = Fin e" "1 / 2 ^ 24 \<le> e" "e \<le> 1" by blast
  have "0 \<le> 1 - e" "1 - e \<le> 1 - 1 / 2 ^ 24" using e by auto
  from rnd64_mono [OF this(2)] d(2) have u: "Fin 1 - flit (1 / 10 ^ 7) \<le> Fin (1 - 1 / 2 ^ 24)" unfolding e(1) by (simp add: minus_float64_def)
  from float_le_trans [OF assms(2) u] assms(1) e show ?thesis by (cases r) auto
qed

lemma spread_factor_bounded:
  assumes "np_pow_documented nl" and "0 \<le> e" and "e \<le> 1" and "1 / 2 ^ 24 \<le> x" and "x \<le> 1 - 1 / 2 ^ 24"
  shows "bounded 24 (spread_factor nl (Fin e) (Fin x))"
proof -
  have pw: "bounded 24 (np_pow nl (Fin a) (Fin e))" if a: "0 < a" "a \<le> 2 ^ 23" for a
  proof -
    obtain b where "np_pow nl (Fin a) (Fin e) = Fin b" "0 \<le> b" "b \<le> 2 * max 1 a" using assms(1-3) a(1) unfolding np_pow_documented_def by blast
    then show ?thesis using a(2) by (auto simp: bounded_def)
  qed
  have d: "rnd64 (1 / 2 ^ 23) = Fin (1 / 2 ^ 23)" "rnd64 (1 / 2 ^ 24) = Fin (1 / 2 ^ 24)"
    using rnd64_dyadic [of 1 "- 23"] rnd64_dyadic [of 1 "- 24"] by (simp_all add: two_pow_def)
  show ?thesis
  proof (cases "x \<le> 1 / 2")
    case True
    obtain y where "rnd64 (2 * x) = Fin y" "1 / 2 ^ 23 \<le> y" "y \<le> 1" using rnd64_between [OF d(1) rnd64_1, of "2 * x"] True assms(4) by auto
    then show ?thesis using True pw [of y] by (simp add: spread_factor_def)
  next
    case False
    obtain z where z: "rnd64 (1 - x) = Fin z" "1 / 2 ^ 24 \<le> z" "z \<le> 1" using rnd64_between [OF d(2) rnd64_1, of "1 - x"] False assms(4,5) by auto
    obtain w where w: "rnd64 (2 * z) = Fin w" "1 / 2 ^ 23 \<le> w" "w \<le> 2" using rnd64_between [OF d(1), of 2 "2 * z"] z by auto
    have "1 / 2 \<le> 1 / w" "1 / w \<le> 2 ^ 23" using w(2,3) by (auto simp: field_simps)
    then obtain v where v: "rnd64 (1 / w) = Fin v" "1 / 2 \<le> v" "v \<le> 2 ^ 23" using rnd64_between [OF rnd64_half, of "2 ^ 23" "1 / w"] by auto
    have "fdiv (Fin 1) (Fin 2 * (Fin 1 - Fin x)) = Fin v" using z(1) w v(1) by (auto simp: minus_float64_def)
    then show ?thesis using False pw [of v] v(2,3) by (simp add: spread_factor_def)
  qed
qed

lemma crossover_new_ok:
  assumes "hypergamic_config_new cfg = Inr cfg"
  shows "\<exists>e. crossover_new cfg reg = Inr \<lparr>x_config = cfg, x_registry = reg, x_inv_eta = Fin e\<rparr> \<and> 0 \<le> e \<and> e \<le> 1"
proof -
  obtain d where d: "crossover_distribution_index cfg = Fin d" "0 < d"
    using config_newD(9,10) [OF assms] by (cases "crossover_distribution_index cfg") (auto simp: zero_float64_def)
  have ge: "Fin 1 \<le> rnd64 (d + 1)" using rnd64_mono [of 1 "d + 1"] d(2) by simp
  show ?thesis
  proof (cases "rnd64 (d + 1)")
    case (Fin w)
    then have w: "1 \<le> w" using ge by simp
    then have "0 \<le> 1 / w" "1 / w \<le> 1" by simp_all
    then obtain v where "rnd64 (1 / w) = Fin v" "0 \<le> v" "v \<le> 1" using rnd64_between [of 0 1 "1 / w"] by (auto simp: zero_float64_def)
    then show ?thesis using w Fin d(1) by (simp add: crossover_new_def divR_def zero_float64_def)
  qed (use ge d(1) in \<open>simp_all add: crossover_new_def divR_def zero_float64_def\<close>)
qed

lemma child_gene_bounded:
  assumes "np_pow_documented nl" and "x_inv_eta x = Fin e" "0 \<le> e" "e \<le> 1" and "bounded 0 ua" "bounded 0 ub"
    and "flit (1 / 10 ^ 7) \<le> r" "r \<le> Fin 1 - flit (1 / 10 ^ 7)"
  shows "bounded 26 (child_gene nl x g ua ub r coin)"
proof -
  obtain y where y: "r = Fin y" "1 / 2 ^ 24 \<le> y" "y \<le> 1 - 1 / 2 ^ 24" using spread_range [OF assms(7,8)] by blast
  define b where "b = spread_factor nl (x_inv_eta x) r"
  have b: "bounded 24 b" unfolding b_def assms(2) y(1) by (rule spread_factor_bounded [OF assms(1,3,4) y(2,3)])
  have one: "bounded 24 (Fin 1)" by (simp add: bounded_def)
  have half: "bounded 0 (Fin (1 / 2))" unfolding bounded_def by (rule exI [of _ "1 / 2"]) simp
  have "bounded 25 (Fin 1 + b)" "bounded 25 (Fin 1 - b)" using bounded_add [OF one b] bounded_diff [OF one b] by simp_all
  then have "bounded 25 ((Fin 1 + b) * v)" "bounded 25 ((Fin 1 - b) * v)" if "bounded 0 v" for v
    using bounded_mult [of 25 _ 0 v] that by simp_all
  then have "bounded 26 ((Fin 1 + b) * ua + (Fin 1 - b) * ub)" "bounded 26 ((Fin 1 - b) * ua + (Fin 1 + b) * ub)"
    using bounded_add [of 25] assms(5,6) by simp_all
  then show ?thesis using bounded_mult [OF half, of 26] by (simp add: child_gene_def Let_def flip: b_def)
qed

lemma clip_finite: "clip_documented nl \<Longrightarrow> bounded k v \<Longrightarrow> isfinite (np_clip nl v 0 (Fin 1))"
  by (auto simp: clip_documented_def bounded_def zero_float64_def)

lemma cross_vectors_total:
  assumes "np_pow_documented nl" and "clip_documented nl" and "uniform_documented rng"
    and "x_registry x = GENE_REGISTRY" and "x_inv_eta x = Fin e" "0 \<le> e" "e \<le> 1"
    and "length ua = 20" "\<forall>u \<in> set ua. bounded 0 u" and "length ub = 20" "\<forall>u \<in> set ub. bounded 0 u"
  shows "\<exists>c. cross_vectors nl x ua ub (spreads rng k) (coins rng k) = Inr c"
proof -
  have len: "length GENE_REGISTRY = 20" by (simp add: GENE_REGISTRY_def)
  let ?child = "map (\<lambda>(g, ua, ub, r, coin). np_clip nl (child_gene nl x g ua ub r coin) 0 (Fin 1))
    (zip GENE_REGISTRY (zip ua (zip ub (zip (spreads rng k) (coins rng k)))))"
  have u: "length (spreads rng k) = 20" "length (coins rng k) = 20"
    "\<And>r. r \<in> set (spreads rng k) \<Longrightarrow> flit (1 / 10 ^ 7) \<le> r \<and> r \<le> Fin 1 - flit (1 / 10 ^ 7)"
    using assms(3) by (auto simp: uniform_documented_def)
  have "length ?child = 20" using u len assms(8,10) by simp
  moreover have "isfinite (np_clip nl (child_gene nl x g a b r coin) 0 (Fin 1))"
    if "(g, a, b, r, coin) \<in> set (zip GENE_REGISTRY (zip ua (zip ub (zip (spreads rng k) (coins rng k)))))" for g a b r coin
  proof -
    note z = set_zip_rightD [OF that] set_zip_rightD [OF set_zip_rightD [OF that]]
    have m: "a \<in> set ua" "b \<in> set ub" "r \<in> set (spreads rng k)"
      using set_zip_leftD [OF z(1)] set_zip_leftD [OF z(2)] set_zip_leftD [OF set_zip_rightD [OF z(2)]] .
    show ?thesis using child_gene_bounded [OF assms(1,5-7)] m u(3) [OF m(3)] assms(9,11) by (intro clip_finite [OF assms(2)]) blast
  qed
  then have "list_all isfinite ?child" unfolding list_all_iff by auto
  ultimately obtain c where "decode nl GENE_REGISTRY ?child = Inr c" using decode_total [OF _ _ assms(2)] by blast
  then show ?thesis using assms(4,8,10) len by (simp add: cross_vectors_def)
qed

lemma encode_bounded:
  assumes "in_bounds c" and "on_grid c" and "log_documented (libm_log nl)" and "clip_documented nl"
  shows "\<exists>us. encode nl GENE_REGISTRY c = Inr us \<and> length us = 20 \<and> (\<forall>u \<in> set us. bounded 0 u)"
proof -
  obtain us where us: "encode nl GENE_REGISTRY c = Inr us" and all: "list_all2 (\<lambda>g u. between 0 (Fin 1) u \<and>
      (g_scale g = DISCRETE_INT \<longrightarrow> (\<exists>v. gene_value c g = Inr v \<and> decode_gene nl g u = Inr v))) GENE_REGISTRY us"
    using encode_total [OF assms] by blast
  have "length us = 20" using list_all2_lengthD [OF all] by (simp add: GENE_REGISTRY_def)
  moreover have "\<forall>u \<in> set us. bounded 0 u" using all unit_bounded by (induction rule: list_all2_induct) auto
  ultimately show ?thesis using us by blast
qed

section \<open>Reproduction\<close>

lemma ranked_of_ranking:
  assumes "rank_population nl rk cs g mg aa = (rk', Inr r)"
  shows "ranked cs r"
proof -
  note c = ranking_conserves [OF assms]
  have i: "mset (rr_infeasible_ids r) = mset (map candidate_id (filter (\<lambda>c. \<not> viable c) cs))" using c by blast
  have "image_mset candidate_id (mset (filter viable cs)) + image_mset candidate_id (mset (filter (\<lambda>c. \<not> viable c) cs)) = image_mset candidate_id (mset cs)"
    unfolding image_mset_union [symmetric] split_mset ..
  then have "mset (concat (map pf_candidate_ids (rr_fronts r))) = mset (map candidate_id (filter viable cs))"
    using c unfolding mset_append i mset_map by (metis add_right_cancel)
  then show ?thesis using c mset_eq_setD [OF i] by (simp add: ranked_def)
qed

lemma ranked_front_1:
  assumes "ranked cs r" and "filter viable cs \<noteq> []"
  shows "front_1_cands r = pf_candidate_ids (hd (rr_fronts r))" "set (front_1_cands r) \<subseteq> candidate_id ` set cs"
proof -
  have m: "mset (concat (map pf_candidate_ids (rr_fronts r))) = mset (map candidate_id (filter viable cs))" using assms(1) by (simp add: ranked_def)
  then obtain f fs where f: "rr_fronts r = f # fs" using assms(2) by (cases "rr_fronts r") auto
  have "hd (map pf_rank (rr_fronts r)) = hd (map int [1..<Suc (length (rr_fronts r))])" using assms(1) by (simp only: ranked_def)
  then have "pf_rank f = 1" using f by (simp add: upt_conv_Cons del: upt_Suc)
  then show e: "front_1_cands r = pf_candidate_ids (hd (rr_fronts r))" by (simp add: front_1_cands_def f)
  have "set (concat (map pf_candidate_ids (rr_fronts r))) = candidate_id ` set (filter viable cs)" using mset_eq_setD [OF m] by simp
  then show "set (front_1_cands r) \<subseteq> candidate_id ` set cs" unfolding e f by auto
qed

lemma lookup_chromosomes:
  assumes "\<forall>cid \<in> set ids. \<exists>ch. dict_get cm cid = Some ch"
  shows "\<exists>xs. mapR (lookup_chromosome cm) ids = Inr xs \<and> list_all2 (\<lambda>cid ch. dict_get cm cid = Some ch) ids xs"
  using assms by (intro mapR_total) (auto simp: lookup_chromosome_def)

lemma encode_all_ok:
  assumes "\<forall>ch \<in> snd ` set cm. \<exists>us. encode nl GENE_REGISTRY ch = Inr us \<and> length us = 20 \<and> (\<forall>u \<in> set us. bounded 0 u)"
  shows "\<exists>enc. encode_all nl GENE_REGISTRY cm = Inr enc \<and>
    (\<forall>k. dict_has cm k \<longrightarrow> (\<exists>us. cached_residual enc k = Inr us \<and> length us = 20 \<and> (\<forall>u \<in> set us. bounded 0 u)))"
proof -
  let ?P = "\<lambda>p q. fst q = fst p \<and> length (snd q) = 20 \<and> (\<forall>u \<in> set (snd q). bounded 0 u)"
  have "\<forall>p \<in> set cm. \<exists>q. (\<lambda>(cid, chrom). bindR (encode nl GENE_REGISTRY chrom) (\<lambda>u. Inr (cid, u))) p = Inr q \<and> ?P p q"
    using assms by fastforce
  from mapR_total [OF this] obtain enc where enc: "encode_all nl GENE_REGISTRY cm = Inr enc" "list_all2 ?P cm enc" by (auto simp: encode_all_def)
  have "\<exists>us. dict_get enc k = Some us \<and> length us = 20 \<and> (\<forall>u \<in> set us. bounded 0 u)" if "dict_has cm k" for k
    using enc(2) that by (induction rule: list_all2_induct) (auto split: if_splits)
  then show ?thesis using enc(1) unfolding cached_residual_def by fastforce
qed

lemma selection_engine_newD:
  assumes "selection_engine_new cfg = Inr en" and "hypergamic_config_new cfg = Inr cfg"
  shows "en_config en = cfg" "en_codec en = GENE_REGISTRY" "en_stratifier en = cfg" "en_matcher en = matcher_new cfg cfg"
    "x_registry (en_crossover en) = GENE_REGISTRY" "\<exists>e. x_inv_eta (en_crossover en) = Fin e \<and> 0 \<le> e \<and> e \<le> 1"
  using assms(1) crossover_new_ok [OF assms(2), of GENE_REGISTRY] by (auto simp: selection_engine_new_def codec_new_def bindR_Inr_iff split: if_splits)

lemma prefix_length: "0 \<le> k \<Longrightarrow> k \<le> int (length xs) \<Longrightarrow> int (length (py_prefix k xs)) = k"
  by (simp add: py_prefix_def)

lemma children_ok:
  assumes "np_pow_documented nl" and "clip_documented nl" and "uniform_documented rng"
    and "x_registry (en_crossover en) = GENE_REGISTRY" "x_inv_eta (en_crossover en) = Fin e" "0 \<le> e" "e \<le> 1"
    and "\<forall>k. dict_has cm k \<longrightarrow> (\<exists>us. cached_residual enc k = Inr us \<and> length us = 20 \<and> (\<forall>u \<in> set us. bounded 0 u))"
    and "\<forall>p \<in> set pairs. dict_has cm (alpha_id p) \<and> dict_has cm (aspirant_id p)"
  shows "\<exists>xs. mapR (child_of nl en rng cm enc) (enumerate 0 pairs) = Inr xs \<and> length xs = length pairs"
proof -
  have "\<exists>c. child_of nl en rng cm enc (k, p) = Inr c" if "p \<in> set pairs" for k p
  proof -
    have h: "dict_has cm (alpha_id p)" "dict_has cm (aspirant_id p)" using assms(9) that by auto
    obtain ua where ua: "cached_residual enc (alpha_id p) = Inr ua" "length ua = 20" "\<forall>u \<in> set ua. bounded 0 u" using assms(8) h(1) by blast
    obtain ub where ub: "cached_residual enc (aspirant_id p) = Inr ub" "length ub = 20" "\<forall>u \<in> set ub. bounded 0 u" using assms(8) h(2) by blast
    obtain c where "cross_vectors nl (en_crossover en) ua ub (spreads rng k) (coins rng k) = Inr c"
      using cross_vectors_total [OF assms(1-7) ua(2,3) ub(2,3)] by blast
    then show ?thesis using h ua(1) ub(1) by (simp add: child_of_def)
  qed
  then have "\<forall>kp \<in> set (enumerate 0 pairs). \<exists>c. child_of nl en rng cm enc kp = Inr c \<and> True" by (auto simp: in_set_enumerate_eq)
  from mapR_total [OF this] show ?thesis by (auto dest!: list_all2_lengthD)
qed

text \<open>The documented behaviour of the numerical functions and of the generators that reproduction relies on.\<close>

definition selection_documented :: "numlib \<Rightarrow> selection_rng \<Rightarrow> bool" where
  "selection_documented nl rng \<longleftrightarrow> pow_documented nl \<and> np_pow_documented nl \<and> clip_documented nl \<and> log_documented (libm_log nl) \<and>
     tournament_documented rng \<and> uniform_documented rng"

text \<open>Every candidate has a chromosome, and the chromosomes are in bounds and on their grids.\<close>

definition chromosomes_for :: "candidate_fitness list \<Rightarrow> (string \<times> strategy_chromosome) list \<Rightarrow> bool" where
  "chromosomes_for cs cm \<longleftrightarrow> (\<forall>c \<in> set cs. \<exists>ch. dict_get cm (candidate_id c) = Some ch) \<and> (\<forall>ch \<in> snd ` set cm. in_bounds ch \<and> on_grid ch)"

lemma chromosomes_encode:
  assumes "chromosomes_for cs cm" and "selection_documented nl rng"
  shows "\<forall>ch \<in> snd ` set cm. \<exists>us. encode nl GENE_REGISTRY ch = Inr us \<and> length us = 20 \<and> (\<forall>u \<in> set us. bounded 0 u)"
proof
  fix ch assume "ch \<in> snd ` set cm"
  then have "in_bounds ch" "on_grid ch" using assms(1) by (auto simp: chromosomes_for_def)
  then show "\<exists>us. encode nl GENE_REGISTRY ch = Inr us \<and> length us = 20 \<and> (\<forall>u \<in> set us. bounded 0 u)"
    using assms(2) by (intro encode_bounded) (simp_all add: selection_documented_def)
qed

section \<open>Properties\<close>

text \<open>On a ranking of the population the cohorts exist: they are not empty, the alphas include the whole first front, and every
  viable candidate is in exactly one cohort, unless all of them are alphas and mate among themselves.\<close>

theorem cohorts_preserve_front:
  assumes "hypergamic_config_new cfg = Inr cfg" and "rank_population nl rk cs generation max_generations auto_admit = (rk', Inr r)"
    and "distinct (map candidate_id cs)" and "filter viable cs \<noteq> []" and "length cs < 2 ^ 53"
  shows "\<exists>alphas asps. stratify cfg cs r = Inr (alphas, asps) \<and> alphas \<noteq> [] \<and> asps \<noteq> [] \<and>
    set (pf_candidate_ids (hd (rr_fronts r))) \<subseteq> candidate_id ` set alphas \<and>
    (mset (alphas @ asps) = mset (filter viable cs) \<or> asps = alphas \<and> mset alphas = mset (filter viable cs))"
  by (rule stratify_ok [OF assms(1,3) ranked_of_ranking [OF assms(2)] assms(4,5)])

text \<open>C12: Matching never deadlocks. For cohorts that are not empty, whose residual series all have the same length, with a valid
  configuration and chromosomes that can be encoded: whatever the generator draws, the requested number of pairs is returned, each
  alpha in turn with an aspirant of the cohort; a pair that is not marked as relaxed satisfies the unrelaxed orthogonality threshold;
  the rejections are bounded by the attempts, and the relaxation counter is the number of relaxed pairs (not of relaxation steps, which
  is what its documentation says). Residuals of different lengths make the matcher raise (\<open>unequal_residuals_raise\<close>).\<close>

theorem matching_never_deadlocks:
  assumes "hypergamic_config_new (m_config m) = Inr (m_config m)" and "hypergamic_config_new (m_gate m) = Inr (m_gate m)"
    and "pow_documented nl" and "tournament_documented rng" and "alphas \<noteq> []" and "asps \<noteq> []" and "0 < target"
    and "\<forall>c \<in> set (alphas @ asps). length (residual_series c) = n"
    and "\<forall>cm. chromosome_map = Some cm \<longrightarrow> (\<forall>c \<in> snd ` set cm. \<exists>u. encode nl GENE_REGISTRY c = Inr u)"
  shows "\<exists>m' pairs. match_pairs nl m rng alphas asps target chromosome_map = (m', Inr pairs) \<and> int (length pairs) = target \<and>
    (\<forall>i < length pairs. pair_ok m asps (alphas ! (i mod length alphas)) (pairs ! i)) \<and>
    last_rejection_count m' \<le> 2 * max_mating_attempts (m_config m) * target \<and>
    last_relaxation_count m' = int (length (filter is_relaxed pairs))"
  using match_pairs_ok [OF assms(1-6) assms(9,8,7)] assms(7) by auto

text \<open>The outcome of a cycle once the cohorts and the elite are there.\<close>

definition offspring ::
    "candidate_fitness list \<Rightarrow> candidate_fitness list \<Rightarrow> string list \<Rightarrow> strategy_chromosome list \<Rightarrow> matcher \<Rightarrow> mating_pair list \<Rightarrow>
     strategy_chromosome list \<Rightarrow> offspring_result" where
  "offspring alphas asps ids els m pairs children =
     \<lparr>offspring_chromosomes = els @ children, mating_pairs = pairs, or_alpha_ids = map candidate_id alphas, or_aspirant_ids = map candidate_id asps,
      or_elite_ids = ids, rejection_count = last_rejection_count m, relaxation_count = last_relaxation_count m\<rparr>"

lemma reproduce_elite_only:
  assumes "0 < target" and "stratify (en_stratifier en) cs r = Inr (alphas, asps)" and "n_elite (en_config en) r target = k"
    and "mapR (lookup_chromosome cm) (py_prefix k (front_1_cands r)) = Inr els" and "target \<le> k"
  shows "reproduce nl en rng cs r cm target = (en, Inr (offspring alphas asps (py_prefix k (front_1_cands r)) els (en_matcher en) [] []))"
  using assms by (simp add: reproduce_def offspring_def)

lemma reproduce_mating:
  assumes "0 < target" and "stratify (en_stratifier en) cs r = Inr (alphas, asps)" and "n_elite (en_config en) r target = k"
    and "mapR (lookup_chromosome cm) (py_prefix k (front_1_cands r)) = Inr els" and "k < target"
    and "match_pairs nl (en_matcher en) rng alphas asps (target - k) (Some cm) = (m, Inr pairs)"
    and "encode_all nl (en_codec en) cm = Inr enc" and "mapR (child_of nl en rng cm enc) (enumerate 0 pairs) = Inr xs"
  shows "reproduce nl en rng cs r cm target = (en\<lparr>en_matcher := m\<rparr>, Inr (offspring alphas asps (py_prefix k (front_1_cands r)) els m pairs xs))"
  using assms by (simp add: reproduce_def offspring_def)

lemma reproduce_ok:
  assumes "hypergamic_config_new cfg = Inr cfg" and "selection_engine_new cfg = Inr en" and "ranked cs r" and "distinct (map candidate_id cs)"
    and "filter viable cs \<noteq> []" and "length cs < 2 ^ 53" and "\<forall>c \<in> set cs. length (residual_series c) = n" and "chromosomes_for cs cm"
    and "selection_documented nl rng" and "0 < target"
  shows "\<exists>en' out. reproduce nl en rng cs r cm target = (en', Inr out) \<and> int (length (offspring_chromosomes out)) = target \<and>
    or_elite_ids out = take (nat (elitism_count cfg)) (take (nat target) (pf_candidate_ids (hd (rr_fronts r)))) \<and>
    (\<forall>i < length (or_elite_ids out). dict_get cm (or_elite_ids out ! i) = Some (offspring_chromosomes out ! i)) \<and>
    int (length (mating_pairs out)) = target - int (length (or_elite_ids out))"
proof -
  note f1 = ranked_front_1 [OF assms(3,5)] and en = selection_engine_newD [OF assms(2,1)]
  define k where "k = n_elite cfg r target"
  define ids where "ids = py_prefix k (front_1_cands r)"
  have k: "0 \<le> k" "k \<le> target" "k \<le> int (length (front_1_cands r))"
    using config_newD(8) [OF assms(1)] assms(10) by (auto simp: k_def n_elite_def)
  have len: "int (length ids) = k" unfolding ids_def using k by (intro prefix_length)
  have idsE: "ids = take (nat (elitism_count cfg)) (take (nat target) (pf_candidate_ids (hd (rr_fronts r))))"
    using k config_newD(8) [OF assms(1)] assms(10) unfolding ids_def k_def n_elite_def f1(1) py_prefix_def by (auto simp: min_def)
  have sub: "set ids \<subseteq> candidate_id ` set cs" using f1(2) by (auto simp: ids_def py_prefix_def dest: in_set_takeD)
  then have "\<forall>cid \<in> set ids. \<exists>ch. dict_get cm cid = Some ch" using assms(8) by (auto simp: chromosomes_for_def)
  then obtain els where els: "mapR (lookup_chromosome cm) ids = Inr els" "list_all2 (\<lambda>cid ch. dict_get cm cid = Some ch) ids els"
    using lookup_chromosomes by blast
  have el: "length els = length ids" "\<forall>i < length ids. dict_get cm (ids ! i) = Some (els ! i)" using els(2) by (auto simp: list_all2_conv_all_nth)
  obtain alphas asps where st: "stratify cfg cs r = Inr (alphas, asps)" "alphas \<noteq> []" "asps \<noteq> []"
    "mset (alphas @ asps) = mset (filter viable cs) \<or> asps = alphas \<and> mset alphas = mset (filter viable cs)"
    using stratify_ok [OF assms(1,4,3,5,6)] by blast
  have cohort: "set (alphas @ asps) \<subseteq> set cs" using st(4) by (metis Un_absorb filter_is_subset set_append set_mset_mset)
  show ?thesis
  proof (cases "target - k > 0")
    case False
    then have "reproduce nl en rng cs r cm target = (en, Inr (offspring alphas asps ids els (en_matcher en) [] []))"
      using reproduce_elite_only [OF assms(10), of en cs r alphas asps k cm els] st(1) els(1) en(1,3) by (simp add: k_def ids_def)
    then show ?thesis unfolding idsE [symmetric] using el len k(2) False by (simp add: offspring_def)
  next
    case True
    have d: "pow_documented nl" "np_pow_documented nl" "clip_documented nl" "tournament_documented rng" "uniform_documented rng"
      using assms(9) by (simp_all add: selection_documented_def)
    have enc1: "\<forall>cm'. Some cm = Some cm' \<longrightarrow> (\<forall>c \<in> snd ` set cm'. \<exists>u. encode nl GENE_REGISTRY c = Inr u)"
      using chromosomes_encode [OF assms(8,9)] by blast
    have res: "\<forall>c \<in> set (alphas @ asps). length (residual_series c) = n" using assms(7) cohort by blast
    obtain m' pairs where mp: "match_pairs nl (en_matcher en) rng alphas asps (target - k) (Some cm) = (m', Inr pairs)" "length pairs = nat (target - k)"
      "\<forall>i < nat (target - k). pair_ok (en_matcher en) asps (alphas ! (i mod length alphas)) (pairs ! i)"
      using match_pairs_ok [OF _ _ d(1,4) st(2,3) enc1 res True, of "en_matcher en"] assms(1) by (auto simp: en(4) matcher_new_def)
    obtain enc where enc: "encode_all nl GENE_REGISTRY cm = Inr enc"
      "\<forall>k. dict_has cm k \<longrightarrow> (\<exists>us. cached_residual enc k = Inr us \<and> length us = 20 \<and> (\<forall>u \<in> set us. bounded 0 u))"
      using encode_all_ok [OF chromosomes_encode [OF assms(8,9)]] by blast
    have has: "dict_has cm (candidate_id c)" if "c \<in> set (alphas @ asps)" for c
      using assms(8) cohort that unfolding chromosomes_for_def dict_has_iff by (metis option.distinct(1) subsetD)
    have "\<forall>p \<in> set pairs. dict_has cm (alpha_id p) \<and> dict_has cm (aspirant_id p)"
    proof
      fix p assume "p \<in> set pairs"
      then obtain i where i: "i < nat (target - k)" "p = pairs ! i" using mp(2) by (auto simp: in_set_conv_nth)
      have "alphas ! (i mod length alphas) \<in> set alphas" using st(2) by simp
      then show "dict_has cm (alpha_id p) \<and> dict_has cm (aspirant_id p)" using mp(3) i has by (auto simp: pair_ok_def)
    qed
    then obtain xs where xs: "mapR (child_of nl en rng cm enc) (enumerate 0 pairs) = Inr xs" "length xs = length pairs"
      using children_ok [OF d(2,3,5) en(5) _ _ _ enc(2)] en(6) by blast
    have "reproduce nl en rng cs r cm target = (en\<lparr>en_matcher := m'\<rparr>, Inr (offspring alphas asps ids els m' pairs xs))"
      using reproduce_mating [OF assms(10), of en cs r alphas asps k cm els nl rng m' pairs enc xs] st(1) els(1) en(1-3) mp(1) enc(1) xs(1) True
      by (simp add: k_def ids_def)
    then show ?thesis unfolding idsE [symmetric] using el len mp(2) xs(2) True by (simp add: offspring_def nth_append)
  qed
qed


section \<open>Instances\<close>

definition sample_selection :: hypergamic_config where
  "sample_selection =
     \<lparr>alpha_ratio = Fin (1 / 4), orthogonality_threshold = Fin (1 / 2), max_mating_attempts = 2, relaxation_factor = Fin (1 / 2), tournament_size = 1,
      crossover_distribution_index = Fin 15, alpha_risk_inheritance_prob = Fin (1 / 2), aspirant_repr_inheritance_prob = Fin (1 / 2), elitism_count = 1\<rparr>"

definition sample_rng :: selection_rng where
  "sample_rng = \<lparr>tournament = (\<lambda>k n s. [0..<s]), spreads = (\<lambda>k. replicate 20 (Fin (1 / 2))), coins = (\<lambda>k. replicate 20 0)\<rparr>"

definition sample_chromosomes :: "(string \<times> strategy_chromosome) list" where
  "sample_chromosomes = map (\<lambda>c. (candidate_id c, sample_chromosome 15)) sample_population"

lemma sample_selection_ok: "hypergamic_config_new sample_selection = Inr sample_selection"
  using flit_quarter(1) [of "5 / 100"] flit_quarter(2) [of "90 / 100"]
  by (simp add: hypergamic_config_new_def sample_selection_def zero_float64_def)

lemma sample_tournament: "tournament_documented sample_rng"
  by (auto simp: tournament_documented_def sample_rng_def)

lemma sample_uniform: "uniform_documented sample_rng"
proof -
  obtain e where e: "flit (1 / 10 ^ 7) = Fin e" using flit_power_ten [of 7] by auto
  have "flit (1 / 10 ^ 7) \<le> Fin (1 / 2)" by (rule flit_half(1)) simp
  then have le: "e \<le> 1 / 2" unfolding e by simp
  have "Fin (1 / 2) \<le> Fin 1 - flit (1 / 10 ^ 7)" unfolding e using rnd64_mono [of "1 / 2" "1 - e"] rnd64_half le by (simp add: minus_float64_def)
  then show ?thesis using flit_half(1) [of "1 / 10 ^ 7"] by (simp add: uniform_documented_def sample_rng_def)
qed

lemma sample_documented: "selection_documented sample_numlib sample_rng"
  using sample_pow sample_laws sample_log sample_tournament sample_uniform by (simp add: selection_documented_def)

lemma sample_population_facts: "distinct (map candidate_id sample_population)" "filter viable sample_population \<noteq> []" "length sample_population < 2 ^ 53"
  "\<forall>c \<in> set sample_population. length (residual_series c) = 2"
  by (simp_all add: sample_population_def sample_candidate_def viable_def)

lemma sample_chromosomes_ok: "chromosomes_for sample_population sample_chromosomes"
proof -
  have "in_bounds (sample_chromosome 15)" by (simp add: sample_in_bounds)
  moreover have "on_grid (sample_chromosome 15)" by (simp add: on_grid_def sample_chromosome_def)
  moreover have "\<exists>ch. dict_get sample_chromosomes (candidate_id c) = Some ch" if "c \<in> set sample_population" for c
    using that by (auto simp: sample_chromosomes_def sample_population_def sample_candidate_def)
  ultimately show ?thesis by (auto simp: chromosomes_for_def sample_chromosomes_def)
qed

theorem cohorts_preserve_front_witness:
  "\<exists>rk' r alphas asps. rank_population sample_numlib sample_ranker sample_population 0 10 False = (rk', Inr r) \<and>
     stratify sample_selection sample_population r = Inr (alphas, asps) \<and> alphas \<noteq> [] \<and> asps \<noteq> []"
proof -
  obtain rk' r where r: "rank_population sample_numlib sample_ranker sample_population 0 10 False = (rk', Inr r)" using sample_ranking by blast
  from cohorts_preserve_front [OF sample_selection_ok r sample_population_facts(1-3)] show ?thesis using r by blast
qed

theorem matching_never_deadlocks_witness:
  "\<exists>m' pairs. match_pairs sample_numlib (matcher_new sample_selection sample_selection) sample_rng sample_population sample_population 7 None =
     (m', Inr pairs) \<and> length pairs = 7"
proof -
  let ?m = "matcher_new sample_selection sample_selection"
  have c: "hypergamic_config_new (m_config ?m) = Inr (m_config ?m)" "hypergamic_config_new (m_gate ?m) = Inr (m_gate ?m)"
    using sample_selection_ok by (simp_all add: matcher_new_def)
  have ne: "sample_population \<noteq> []" and len: "\<forall>c \<in> set (sample_population @ sample_population). length (residual_series c) = 2"
    using sample_population_facts(2,4) by auto
  obtain m' pairs where r: "match_pairs sample_numlib ?m sample_rng sample_population sample_population 7 None = (m', Inr pairs)" "int (length pairs) = 7"
    using matching_never_deadlocks [OF c sample_pow(1) sample_tournament ne ne _ len, of 7 None] by auto
  then have "length pairs = 7" by simp
  then show ?thesis using r(1) by blast
qed


section \<open>Deviations from the documentation\<close>

text \<open>An alpha whose residuals do not vary is refused by the gate but accepted, as perfectly orthogonal, by its fast path, the one the
  matcher uses.\<close>

theorem flat_residual_accepted:
  assumes "hypergamic_config_new cfg = Inr cfg" and "pow_documented nl"
    and "length (residual_series alpha) = length (residual_series asp)" and "2 \<le> length (residual_series alpha)"
    and "np_norm nl (deviations nl (residual_series alpha)) < pico"
    and "np_dot nl (unit_residual nl alpha) (unit_residual nl asp) = 0"
  shows "gate_evaluate nl cfg alpha asp 0 = Inr (False, Fin 1) \<and>
    evaluate_normalized nl cfg (unit_residual nl alpha) (unit_residual nl asp) 0 = Inr (True, 0)"
proof
  show "gate_evaluate nl cfg alpha asp 0 = Inr (False, Fin 1)" using assms(3-5) by (simp add: gate_evaluate_def Let_def)
  have p: "libm_pow nl (relaxation_factor cfg) 0 = Inr (Fin 1)" using assms(2) by (simp add: pow_documented_def)
  obtain t where t: "orthogonality_threshold cfg = Fin t" "t \<le> 1"
    using config_newD(2,3) [OF assms(1)] by (cases "orthogonality_threshold cfg") auto
  have "rnd64 t \<le> Fin 1" using rnd64_mono [OF t(2)] by simp
  then show "evaluate_normalized nl cfg (unit_residual nl alpha) (unit_residual nl asp) 0 = Inr (True, 0)"
    using assms(3,4,6) p t(1)
    by (simp add: evaluate_normalized_def orthogonality_decision_def unit_residual_length dotR_def py_max_def py_min_def zero_float64_def minus_float64_def Let_def)
qed

text \<open>Residuals of different lengths: the gate cuts them to a common length, its fast path raises.\<close>

theorem unequal_residuals_raise:
  assumes "length (residual_series alpha) \<noteq> length (residual_series asp)" and "2 \<le> length (residual_series alpha)" and "2 \<le> length (residual_series asp)"
  shows "evaluate_normalized nl cfg (unit_residual nl alpha) (unit_residual nl asp) level = Inl (PyErr ValueError) \<and>
    (pow_documented nl \<and> hypergamic_config_new cfg = Inr cfg \<longrightarrow> (\<exists>b. gate_evaluate nl cfg alpha asp level = Inr b))"
proof
  show "evaluate_normalized nl cfg (unit_residual nl alpha) (unit_residual nl asp) level = Inl (PyErr ValueError)"
    using assms by (simp add: evaluate_normalized_def unit_residual_length dotR_def)
  show "pow_documented nl \<and> hypergamic_config_new cfg = Inr cfg \<longrightarrow> (\<exists>b. gate_evaluate nl cfg alpha asp level = Inr b)"
    using gate_evaluate_total by blast
qed

text \<open>When the elite fills the population no matching runs, and the counters of the result are those of the previous cycle.\<close>

theorem stale_counters:
  assumes "reproduce nl en rng cs r cm target = (en', Inr out)" and "n_elite (en_config en) r target = target"
  shows "mating_pairs out = [] \<and> rejection_count out = last_rejection_count (en_matcher en) \<and> relaxation_count out = last_relaxation_count (en_matcher en)"
  using assms by (auto simp: reproduce_def Let_def split: if_splits sum.splits prod.splits)

end
