(* ===== verification/Spec2Isabelle.thy ===== *)
theory Spec2Isabelle
  imports Paper_Gateway_Props Ledger_Service_Props Execution_Service Pre_Trade_Gate Circuit_Breaker
    Selection_Props
begin

text \<open>
  Verification of the execution, risk, accounting and strategy-evolution core of the quant trading platform.

  \<^bold>\<open>The program.\<close> An order (\<^verbatim>\<open>execution/models.py\<close>) moves through the state machine of \<^verbatim>\<open>execution/fsm.py\<close> as
  execution reports arrive. The paper gateway (\<^verbatim>\<open>execution/gateway.py\<close>) is the simulated broker: it registers client
  order ids with the idempotency router (\<^verbatim>\<open>execution/idempotency.py\<close>), checks purchasing power, executes or rests orders, and
  fills resting orders when a market price arrives. The smart order router (\<^verbatim>\<open>execution/sor.py\<close>) splits a slice of
  a parent order (\<^verbatim>\<open>execution/parent_order.py\<close>) over venues (\<^verbatim>\<open>execution/venues.py\<close>). Before an order reaches a
  gateway, the risk orchestrator (\<^verbatim>\<open>execution/risk_orchestrator.py\<close>) asks the kill switch (\<^verbatim>\<open>execution/kill_switch.py\<close>)
  and the firewall (\<^verbatim>\<open>execution/risk.py\<close>), and reserves the quantity; watchdogs (\<^verbatim>\<open>execution/heartbeat.py\<close>) call it back
  when a gateway falls silent. The pre-trade gate (\<^verbatim>\<open>execution/pre_trade_gate.py\<close>) is a second, stateless opinion.
  A parent order is cut into slices over time by the schedulers (\<^verbatim>\<open>execution/algorithms.py\<close>: TWAP, VWAP, arrival price), and
  the execution service (\<^verbatim>\<open>services/execution_service.py\<close>) accepts it, waits for each slice, routes it and records its fills.
  Reports are journaled by the audit logger (\<^verbatim>\<open>execution/audit.py\<close>). Fills reach the ledger service
  (\<^verbatim>\<open>services/ledger_service.py\<close>), which drives the tax-lot engine (\<^verbatim>\<open>execution/tax_lot.py\<close>) and the financing model
  (\<^verbatim>\<open>execution/financing.py\<close>) and writes double-entry journals. In the analytics package,
  the circuit breakers (\<^verbatim>\<open>analytics/circuit_breakers.py\<close>) scale positions down as model disagreement and shocks grow, strategies
  are described by chromosomes (\<^verbatim>\<open>analytics/chromosomes.py\<close>), a generation of them is ranked into fronts
  (\<^verbatim>\<open>analytics/pareto_sorting.py\<close>), and the next one is bred from the ranking (\<^verbatim>\<open>analytics/hypergamic_selection.py\<close>). All paths are under \<^verbatim>\<open>src/src/quant/\<close>.

  \<^bold>\<open>Theories.\<close>
  \<^item> \<open>Py_Float\<close>, \<open>Py_Sum\<close>: Python's floats as exact binary64 values with round-to-nearest-even (signed zeros are
    identified), \<^verbatim>\<open>round\<close>, \<^verbatim>\<open>min\<close>, \<^verbatim>\<open>max\<close>, \<^verbatim>\<open>math.isclose\<close> and the compensated \<^verbatim>\<open>sum\<close> of CPython 3.12 and later with its error bounds. The locale of a
    rounding (monotone, odd, idempotent) is interpreted on the rounding of the model.
  \<^item> \<open>Quant_Prelude\<close>: exceptions, the result type, dynamically typed arguments, string methods, insertion-ordered
    dictionaries, and the locales of machines with an invariant and with locked states.
  \<^item> \<open>Order_Model\<close>, \<open>Order_FSM\<close>, \<open>Idempotency\<close>, \<open>Paper_Gateway\<close>, \<open>Paper_Gateway_Props\<close>: order entity, its state machine,
    the replay window of order ids, and the gateway with all its handlers over a heap of order objects.
  \<^item> \<open>Venues\<close>, \<open>Parent_Order\<close>, \<open>Smart_Router\<close>, \<open>Slice_Routing\<close>: routing, over a gateway given by its operations;
    \<open>Gateway_Client\<close> provides the paper gateway as such an instance.
  \<^item> \<open>Risk\<close>, \<open>Kill_Switch\<close>, \<open>Heartbeat\<close>, \<open>Risk_Orchestrator\<close>, \<open>Pre_Trade_Gate\<close>: everything that can stop an order.
  \<^item> \<open>Scheduling\<close>, \<open>Execution_Service\<close>: the three schedulers, with the locale of a scheduler that emits slices step by step
    interpreted on each of them, and the service that submits, executes, cancels and reports parent orders.
  \<^item> \<open>Tax_Lot\<close>, \<open>Tax_Lot_Props\<close>, \<open>Financing\<close>, \<open>Ledger_Service\<close>, \<open>Ledger_Service_Props\<close>, \<open>Audit_Log\<close>: the books.
  \<^item> \<open>Num_Lib\<close>: the functions of numpy and of the C library that the analytics modules call, as a record of parameters, and the
    documented laws a theorem may assume of them.
  \<^item> \<open>Circuit_Breaker\<close>: configuration, entropy and haircut calculators, and the tier machine.
  \<^item> \<open>Chromosomes\<close>, \<open>Chromosomes_Props\<close>: the gene registry, dictionaries and the codec to the unit cube.
  \<^item> \<open>Pareto_Sorting\<close>, \<open>Pareto_Sorting_Props\<close>: fitness records, the archive, the reference lattice, dominance, the sort into
    fronts, with the locale of a first-fit layering interpreted on it, and the ranker.
  \<^item> \<open>Selection\<close>, \<open>Selection_Props\<close>: cohorts, orthogonality gate, partner matching, crossover and the reproduction cycle.

  Each component has its state as a record, its enumerations as datatypes and one definition per method, with the guards in
  the order of the code. A constructor with validation is a function \<open>..._new\<close> from arguments to a result.

  \<^bold>\<open>Conventions.\<close> A call that can raise returns \<open>Inl\<close> of the exception; a method that mutates returns the state it leaves
  beside the result, so that a raise after a mutation is visible. Arguments that the code tests with \<^verbatim>\<open>isinstance\<close> have
  type \<open>pyval\<close>; where an argument has a HOL type the guard holds by typing. Strings are lists of Latin-1 characters. The clock,
  \<^verbatim>\<open>uuid4\<close> and \<^verbatim>\<open>uuid5\<close>, \<^verbatim>\<open>math.exp\<close>, \<^verbatim>\<open>math.sinh\<close>, \<^verbatim>\<open>math.sqrt\<close>, the random draws, the iteration order of sets, the functions of \<open>Num_Lib\<close>, the rows a database returns and its conversion of timestamps, the time a gateway call takes, and registered callbacks are
  parameters. Coroutines are sequences of atomic steps: the gateway's handlers are split where they await, so that the
  properties hold for every interleaving; elsewhere awaited calls are taken in order. \<^verbatim>\<open>asyncio.wait_for\<close> is modelled with the time a gateway call
  takes: a call that does not finish before the timeout of the kill switch raises and leaves what its gateway had done until it was cut off. A
  callback that schedules a task queues it in the state of the orchestrator, and running a queued task is a step of its own. While a slice of the execution service waits, other tasks may
  change the shared world in any way (a parameter); the parent order belongs to its coroutine, and routing one slice is atomic.

  \<^bold>\<open>What is shown.\<close> Quantity conservation and locked terminal states of orders, also when calls raise; at-most-once
  submission and the exact length of the replay window; the gateway invariant under all interleavings, limit
  protection and the margin check of immediate buys; exact and fee-minimal allocation of whole quantities over lit venues,
  quarantine of toxic venues, best execution of a routed slice; mass conservation and the shortfall identity of parent orders;
  soundness of the firewall and exactness on a flat portfolio; the latch of the kill switch and that a panic leaves no open
  order at a gateway that answers in time; detection of silence by the watchdog, and the composition of all of them: a silent gateway
  queues a panic, and the task that runs it stops trading. Schedules are
  well formed, split whole quantities exactly and respect the participation cap; a submitted request keeps its quantity through
  scheduling, routing and recording, and a cancelled order or an active kill switch sends nothing more. For the books,
  the lot inventory invariant, exact accounting of whole shares, the matching order, balanced journals, commit discipline, restart from the
  rows that recorded fills have committed, and that no audited report is lost. A circuit breaker halts at once, stays halted for its dwell time and recovers on a fixed
  schedule; its haircut does not grow with the shock. Chromosomes read from any dictionary are in bounds up to NaN, dictionaries
  round-trip, and the codec keeps the discrete genes that are on its grid. For equally long series the sort into fronts equals the plain insertion, partitions the population into
  layers, and a ranking loses nobody and keeps the archive and the anchor rays. Partner matching never deadlocks, and a reproduction cycle on a
  ranking returns exactly the requested population with its elite unchanged.

  \<^bold>\<open>Bounds.\<close> Statements about exact arithmetic are for whole quantities below \<open>2^53\<close>, where doubles are exact. The lot
  invariant is proved for at most \<open>2^17\<close> fills, where the error of the compensated sum stays below the tolerance of the
  code. Silence detection needs time differences below \<open>2^53\<close> nanoseconds (104 days). No definition uses fuel:
  every loop of the modelled code is a recursion that Isabelle proves terminating.

  \<^bold>\<open>Not modelled.\<close> The other analytics modules compute on numpy, scipy, pandas and scikit-learn arrays, whose kernels are
  third-party code. The HTTP API, the MCP server and client, the market-data providers, the broker adapter, the terminal
  and the repositories are input and output around the services. The risk and session services wrap the modelled
  components in database sessions.
\<close>

end
